(* ===== verification/Prelude.thy ===== *)
theory Prelude
  imports Main "HOL-Library.Word" "HOL-Library.List_Lexorder" "HOL-Library.Char_ord"
begin

text \<open>
  The shared base of the development. It fixes how the Go language is read: an \<open>(value, error)\<close>
  result is a sum (\<open>Inl\<close> the error, \<open>Inr\<close> the value) composed by \<open>bindE\<close>, an early
  \<open>return err\<close> is \<open>failWhen\<close>; a signed 64-bit \<open>int\<close> is an \<open>int\<close> whose
  arithmetic is followed by \<open>wrap64\<close>; a \<open>time.Time\<close> is its distance in nanoseconds from
  the zero instant, so that \<open>IsZero\<close> is equality with 0; \<open>Time.Sub\<close> saturates at the
  range of \<open>time.Duration\<close>. The named collections declared here gather the facts that the
  component proofs share.
\<close>

named_theorems result_simps \<open>inversion of error results\<close>
named_theorems store_frame \<open>what an operation on the store leaves unchanged\<close>
named_theorems bucket_simps \<open>lookups after bucket updates\<close>

section \<open>Error results\<close>

definition bindE :: "'e + 'a \<Rightarrow> ('a \<Rightarrow> 'e + 'b) \<Rightarrow> 'e + 'b" where
  "bindE r f = (case r of Inl e \<Rightarrow> Inl e | Inr x \<Rightarrow> f x)"

definition failWhen :: "bool \<Rightarrow> 'e \<Rightarrow> 'e + unit" where
  "failWhen b e = (if b then Inl e else Inr ())"

lemma bindE_Inl [simp]: "bindE (Inl e) f = Inl e"
  by (simp add: bindE_def)

lemma bindE_Inr [simp]: "bindE (Inr x) f = f x"
  by (simp add: bindE_def)

lemma bindE_eq_Inr [result_simps]: "bindE r f = Inr y \<longleftrightarrow> (\<exists>x. r = Inr x \<and> f x = Inr y)"
  by (cases r) auto

lemma bindE_eq_Inl [result_simps]:
  "bindE r f = Inl e \<longleftrightarrow> r = Inl e \<or> (\<exists>x. r = Inr x \<and> f x = Inl e)"
  by (cases r) auto

lemma bindE_assoc: "bindE (bindE r f) g = bindE r (\<lambda>x. bindE (f x) g)"
  by (cases r) auto

lemma failWhen_eq_Inr [result_simps]: "failWhen b e = Inr u \<longleftrightarrow> \<not> b"
  by (simp add: failWhen_def)

lemma failWhen_eq_Inl [result_simps]: "failWhen b e = Inl e' \<longleftrightarrow> b \<and> e' = e"
  by (auto simp: failWhen_def)

lemma failWhen_False [simp]: "failWhen False e = Inr ()"
  by (simp add: failWhen_def)

lemma failWhen_True [simp]: "failWhen True e = Inl e"
  by (simp add: failWhen_def)

text \<open>A loop that stops at the first error, carrying a state.\<close>

fun foldE :: "('a \<Rightarrow> 's \<Rightarrow> 'e + 's) \<Rightarrow> 'a list \<Rightarrow> 's \<Rightarrow> 'e + 's" where
  "foldE f [] s = Inr s"
| "foldE f (x # xs) s = bindE (f x s) (foldE f xs)"

lemma foldE_invariant:
  assumes "foldE f xs s = Inr s'" and "P s"
    and "\<And>x t t'. x \<in> set xs \<Longrightarrow> P t \<Longrightarrow> f x t = Inr t' \<Longrightarrow> P t'"
  shows "P s'"
  using assms
proof (induction xs arbitrary: s)
  case Nil
  then show ?case by simp
next
  case (Cons x xs)
  then obtain t where "f x s = Inr t" and rest: "foldE f xs t = Inr s'"
    by (auto simp: result_simps)
  then have "P t" using Cons.prems(2,3) by (meson list.set_intros(1))
  with rest show ?case using Cons.IH Cons.prems(3) by (meson list.set_intros(2))
qed

lemma foldE_append: "foldE f (xs @ ys) s = bindE (foldE f xs s) (foldE f ys)"
proof (induction xs arbitrary: s)
  case Nil
  show ?case by simp
next
  case (Cons x xs)
  have "foldE f (xs @ ys) = (\<lambda>t. bindE (foldE f xs t) (foldE f ys))"
    using Cons.IH by (rule ext)
  then show ?case by (simp add: bindE_assoc)
qed

section \<open>Machine integers\<close>

type_synonym u8 = "8 word"
type_synonym u32 = "32 word"
type_synonym u64 = "64 word"

definition maxInt64 :: int where "maxInt64 = 2 ^ 63 - 1"
definition minInt64 :: int where "minInt64 = - (2 ^ 63)"

text \<open>Two's complement wrap-around of a signed 64-bit result.\<close>

definition wrap64 :: "int \<Rightarrow> int" where
  "wrap64 x = (x + 2 ^ 63) mod 2 ^ 64 - 2 ^ 63"

lemma wrap64_range: "minInt64 \<le> wrap64 x \<and> wrap64 x \<le> maxInt64"
  by (simp add: wrap64_def minInt64_def maxInt64_def)

lemma wrap64_id: "minInt64 \<le> x \<Longrightarrow> x \<le> maxInt64 \<Longrightarrow> wrap64 x = x"
  by (simp add: wrap64_def minInt64_def maxInt64_def)

text \<open>\<open>uint64(x)\<close> of a signed value, and the decimal reading of a \<open>uint64\<close>.\<close>

definition toUint64 :: "int \<Rightarrow> u64" where
  "toUint64 x = of_int x"

definition saturatingUint64Add :: "u64 \<Rightarrow> u64 \<Rightarrow> u64" where
  "saturatingUint64Add left right = (if - 1 - left < right then - 1 else left + right)"

lemma unat_minus_one_word_u64: "unat (- 1 :: u64) = 2 ^ 64 - 1"
  by (simp add: unsigned_minus_1_eq_mask mask_eq_exp_minus_1)

lemma saturatingUint64Add_nat:
  "unat (saturatingUint64Add a b) = min (unat a + unat b) (2 ^ 64 - 1)"
proof -
  have top: "unat (- 1 - a) = 2 ^ 64 - 1 - unat a"
    using unat_sub [of a "- 1 :: u64"] by (simp add: unat_minus_one_word_u64)
  have bound: "unat a < 2 ^ 64" "unat b < 2 ^ 64"
    using unsigned_less [of a] unsigned_less [of b] by simp_all
  show ?thesis
  proof (cases "- 1 - a < b")
    case True
    then have "2 ^ 64 - 1 - unat a < unat b"
      using top by (simp add: word_less_nat_alt)
    with True show ?thesis
      by (simp add: saturatingUint64Add_def unat_minus_one_word_u64)
  next
    case False
    then have le: "unat b \<le> 2 ^ 64 - 1 - unat a"
      using top by (simp add: word_less_nat_alt)
    with bound have "unat a + unat b < 2 ^ 64" by linarith
    with False show ?thesis
      by (simp add: saturatingUint64Add_def unat_word_ariths)
  qed
qed

section \<open>Time\<close>

type_synonym gotime = int
type_synonym duration = int

abbreviation (input) zeroTime :: gotime where "zeroTime \<equiv> 0"

definition nanosecond :: duration where "nanosecond = 1"
definition millisecond :: duration where "millisecond = 1000000"
definition second :: duration where "second = 1000000000"
definition minute :: duration where "minute = 60 * second"
definition hour :: duration where "hour = 60 * minute"

lemmas duration_units = nanosecond_def millisecond_def second_def minute_def hour_def

text \<open>\<open>t.Sub(u)\<close>: the difference, clamped to the range of a \<open>time.Duration\<close>.\<close>

definition timeSub :: "gotime \<Rightarrow> gotime \<Rightarrow> duration" where
  "timeSub t u = max minInt64 (min maxInt64 (t - u))"

lemma timeSub_le_iff: "0 \<le> d \<Longrightarrow> d < maxInt64 \<Longrightarrow> timeSub t u \<le> d \<longleftrightarrow> t - u \<le> d"
  by (auto simp: timeSub_def maxInt64_def minInt64_def)

lemma timeSub_self [simp]: "timeSub t t = 0"
  by (simp add: timeSub_def maxInt64_def minInt64_def)

text \<open>\<open>t.UnixNano()\<close>: nanoseconds since 1970 in an \<open>int64\<close>; 62135596800 seconds
  separate it from the zero instant.\<close>

definition unixNano :: "gotime \<Rightarrow> int" where
  "unixNano t = wrap64 (t - 62135596800 * 1000000000)"

definition nonNegativeDurationMilliseconds :: "duration \<Rightarrow> u64" where
  "nonNegativeDurationMilliseconds d = (if d \<le> 0 then 0 else toUint64 (d div millisecond))"

section \<open>Lists\<close>

text \<open>The first index of an element with a property, \<open>None\<close> for the \<open>-1\<close> of the code.\<close>

fun findIndex :: "('a \<Rightarrow> bool) \<Rightarrow> 'a list \<Rightarrow> nat option" where
  "findIndex p [] = None"
| "findIndex p (x # xs) = (if p x then Some 0 else map_option Suc (findIndex p xs))"

lemma findIndex_Some:
  "findIndex p xs = Some i \<Longrightarrow> i < length xs \<and> p (xs ! i) \<and> (\<forall>j < i. \<not> p (xs ! j))"
proof (induction xs arbitrary: i)
  case Nil
  then show ?case by simp
next
  case (Cons x xs)
  show ?case
  proof (cases "p x")
    case True
    with Cons.prems show ?thesis by simp
  next
    case False
    with Cons.prems obtain k where "findIndex p xs = Some k" and "i = Suc k" by auto
    with Cons.IH [of k] False show ?thesis
      by (auto simp: less_Suc_eq_0_disj)
  qed
qed

lemma findIndex_None: "findIndex p xs = None \<longleftrightarrow> (\<forall>x \<in> set xs. \<not> p x)"
  by (induction xs) auto

definition removeAt :: "nat \<Rightarrow> 'a list \<Rightarrow> 'a list" where
  "removeAt i xs = take i xs @ drop (Suc i) xs"

lemma length_removeAt: "i < length xs \<Longrightarrow> length (removeAt i xs) = length xs - 1"
  by (simp add: removeAt_def)

lemma set_removeAt: "set (removeAt i xs) \<subseteq> set xs"
  by (auto simp: removeAt_def dest: in_set_takeD in_set_dropD)

lemma filter_removeAt:
  "i < length xs \<Longrightarrow>
   length (filter p (removeAt i xs)) = length (filter p xs) - (if p (xs ! i) then 1 else 0)"
proof -
  assume i: "i < length xs"
  then have "xs = take i xs @ xs ! i # drop (Suc i) xs"
    by (simp add: id_take_nth_drop)
  then have "length (filter p xs) = length (filter p (take i xs @ xs ! i # drop (Suc i) xs))"
    by simp
  then show ?thesis by (simp add: removeAt_def)
qed

lemma nth_removeAt_lt: "j < i \<Longrightarrow> i < length xs \<Longrightarrow> removeAt i xs ! j = xs ! j"
  by (simp add: removeAt_def nth_append)

end
