(* ===== verification/Go_Strings.thy ===== *)
theory Go_Strings
  imports Prelude "HOL-Library.Sublist"
begin

text \<open>
  Go strings are byte sequences; here a \<open>string\<close>, whose characters are bytes. The package
  functions the cluster code calls on them are defined on the UTF-8 decoding that \<open>range\<close> and
  \<open>utf8.DecodeRune\<close> perform: \<open>chunks\<close> cuts a string into the byte groups of its runes (an
  ill-formed byte is a group of its own and reads as U+FFFD), and trimming, mapping, folding and
  truncation work on those groups. The tables of package \<open>unicode\<close> beyond ASCII and the codecs
  of \<open>crypto/sha256\<close>, \<open>encoding/json\<close> and \<open>encoding/base64\<close> are the fields of
  \<open>goLib\<close>, an argument of every definition that depends on them; no property assumes anything of
  them unless its statement says so. \<open>cleanLabel\<close>, \<open>truncateUTF8Bytes\<close> and
  \<open>cleanList\<close> are the relay's own sanitisers (\<open>internal/cluster/store.go\<close>).
\<close>

record goLib =
  sha256 :: "string \<Rightarrow> string"
  unicodeLower :: "nat \<Rightarrow> nat"
  unicodeUpper :: "nat \<Rightarrow> nat"
  unicodeFold :: "nat \<Rightarrow> nat \<Rightarrow> bool"
  unicodeHidden :: "nat \<Rightarrow> bool"
  unicodeDash :: "nat \<Rightarrow> bool"
  jsonObject :: "string \<Rightarrow> bool"
  jsonValid :: "string \<Rightarrow> bool"
  base64RawURL :: "string \<Rightarrow> string option"
  base64Std :: "string \<Rightarrow> string option"

text \<open>A concrete library for the witnesses: a digest that ignores its argument, no case pairs beyond
  ASCII, every text a JSON object and the encoding of itself.\<close>

definition plainLib :: goLib where
  "plainLib = \<lparr>sha256 = (\<lambda>_. replicate 32 (CHR ''0'')), unicodeLower = (\<lambda>r. r), unicodeUpper = (\<lambda>r. r),
     unicodeFold = (\<lambda>_ _. False), unicodeHidden = (\<lambda>_. False), unicodeDash = (\<lambda>_. False), jsonObject = (\<lambda>_. True),
     jsonValid = (\<lambda>_. True), base64RawURL = Some, base64Std = Some\<rparr>"

section \<open>UTF-8\<close>

abbreviation byte :: "char \<Rightarrow> nat" where "byte c \<equiv> of_char c"

definition contByte :: "nat \<Rightarrow> bool" where
  "contByte b \<longleftrightarrow> 128 \<le> b \<and> b \<le> 191"

text \<open>The number of continuation bytes a leading byte asks for, and the range of the first one
  (the table \<open>first\<close> and \<open>acceptRanges\<close> of package \<open>utf8\<close>); \<open>None\<close> is an
  ill-formed leading byte.\<close>

definition leadInfo :: "nat \<Rightarrow> (nat \<times> nat \<times> nat) option" where
  "leadInfo b =
     (if 194 \<le> b \<and> b \<le> 223 then Some (1, 128, 191)
      else if b = 224 then Some (2, 160, 191)
      else if b = 237 then Some (2, 128, 159)
      else if 225 \<le> b \<and> b \<le> 239 then Some (2, 128, 191)
      else if b = 240 then Some (3, 144, 191)
      else if b = 244 then Some (3, 128, 143)
      else if 241 \<le> b \<and> b \<le> 243 then Some (3, 128, 191)
      else None)"

text \<open>How many of the following bytes belong to the rune that starts with \<open>c\<close>.\<close>

definition runeTail :: "char \<Rightarrow> string \<Rightarrow> nat" where
  "runeTail c cs =
     (if byte c < 128 then 0
      else case leadInfo (byte c) of
        None \<Rightarrow> 0
      | Some (n, lo, hi) \<Rightarrow>
          (if n \<le> length cs \<and> lo \<le> byte (cs ! 0) \<and> byte (cs ! 0) \<le> hi
              \<and> list_all (\<lambda>x. contByte (byte x)) (take (n - 1) (drop 1 cs))
           then n else 0))"

function chunks :: "string \<Rightarrow> string list" where
  "chunks [] = []"
| "chunks (c # cs) = (c # take (runeTail c cs) cs) # chunks (drop (runeTail c cs) cs)"
  by pat_completeness auto
termination
  by (relation "measure length") auto

abbreviation runeError :: nat where "runeError \<equiv> 65533"

text \<open>The rune of one group: U+FFFD for an ill-formed byte.\<close>

fun runeOf :: "string \<Rightarrow> nat" where
  "runeOf [a] = (if byte a < 128 then byte a else runeError)"
| "runeOf [a, b] = (byte a mod 32) * 64 + byte b mod 64"
| "runeOf [a, b, c] = (byte a mod 16) * 4096 + (byte b mod 64) * 64 + byte c mod 64"
| "runeOf [a, b, c, d] =
     (byte a mod 8) * 262144 + (byte b mod 64) * 4096 + (byte c mod 64) * 64 + byte d mod 64"
| "runeOf _ = runeError"

definition runes :: "string \<Rightarrow> nat list" where
  "runes s = map runeOf (chunks s)"

text \<open>\<open>utf8.ValidString\<close>: no group is an ill-formed byte.\<close>

definition validUTF8 :: "string \<Rightarrow> bool" where
  "validUTF8 s \<longleftrightarrow> list_all (\<lambda>g. \<not> (length g = 1 \<and> 128 \<le> byte (hd g))) (chunks s)"

abbreviation byteChar :: "nat \<Rightarrow> char" where "byteChar n \<equiv> char_of n"

text \<open>\<open>utf8.AppendRune\<close>: surrogates and values beyond U+10FFFF are written as U+FFFD.\<close>

definition encodeRune :: "nat \<Rightarrow> string" where
  "encodeRune r =
     (if r < 128 then [byteChar r]
      else if r < 2048 then [byteChar (192 + r div 64), byteChar (128 + r mod 64)]
      else if 1114111 < r \<or> 55296 \<le> r \<and> r \<le> 57343 then [byteChar 239, byteChar 191, byteChar 189]
      else if r < 65536 then
        [byteChar (224 + r div 4096), byteChar (128 + r div 64 mod 64), byteChar (128 + r mod 64)]
      else
        [byteChar (240 + r div 262144), byteChar (128 + r div 4096 mod 64),
         byteChar (128 + r div 64 mod 64), byteChar (128 + r mod 64)])"

lemma concat_chunks [simp]: "concat (chunks s) = s"
  by (induction s rule: chunks.induct) auto

lemma chunks_nonempty: "g \<in> set (chunks s) \<Longrightarrow> g \<noteq> []"
  by (induction s rule: chunks.induct) auto

lemma length_concat_filter_le: "length (concat (filter p gs)) \<le> length (concat gs)"
  by (induction gs) auto

section \<open>strings\<close>

text \<open>\<open>unicode.IsSpace\<close>.\<close>

definition isSpaceRune :: "nat \<Rightarrow> bool" where
  "isSpaceRune r \<longleftrightarrow> (9 \<le> r \<and> r \<le> 13) \<or> r = 32 \<or> r = 133 \<or> r = 160 \<or> r = 5760
     \<or> (8192 \<le> r \<and> r \<le> 8202) \<or> r = 8232 \<or> r = 8233 \<or> r = 8239 \<or> r = 8287 \<or> r = 12288"

abbreviation isSpaceGroup :: "string \<Rightarrow> bool" where "isSpaceGroup g \<equiv> isSpaceRune (runeOf g)"

text \<open>\<open>strings.TrimSpace\<close>. A rune can only start at a byte that is not a continuation byte, so
  decoding from the end, as Go does on the right, finds the same groups.\<close>

definition trimSpace :: "string \<Rightarrow> string" where
  "trimSpace s = concat (rev (dropWhile isSpaceGroup (rev (dropWhile isSpaceGroup (chunks s)))))"

text \<open>\<open>strings.Map\<close> with a mapping that keeps or drops runes.\<close>

definition dropRunes :: "(nat \<Rightarrow> bool) \<Rightarrow> string \<Rightarrow> string" where
  "dropRunes p s =
     concat (map (\<lambda>g. if p (runeOf g) then []
                      else if length g = 1 \<and> 128 \<le> byte (hd g) then encodeRune runeError else g)
                 (chunks s))"

definition asciiLower :: "nat \<Rightarrow> nat" where
  "asciiLower r = (if 65 \<le> r \<and> r \<le> 90 then r + 32 else r)"

definition asciiUpper :: "nat \<Rightarrow> nat" where
  "asciiUpper r = (if 97 \<le> r \<and> r \<le> 122 then r - 32 else r)"

definition toUpper :: "goLib \<Rightarrow> string \<Rightarrow> string" where
  "toUpper L s =
     concat (map (\<lambda>r. encodeRune (if r < 128 then asciiUpper r else unicodeUpper L r)) (runes s))"

definition toLower :: "goLib \<Rightarrow> string \<Rightarrow> string" where
  "toLower L s =
     concat (map (\<lambda>r. encodeRune (if r < 128 then asciiLower r else unicodeLower L r)) (runes s))"

text \<open>\<open>strings.EqualFold\<close>: ASCII letters fold among themselves; a pair with a rune beyond ASCII is
  decided by \<open>unicode.SimpleFold\<close>.\<close>

definition foldEqRune :: "goLib \<Rightarrow> nat \<Rightarrow> nat \<Rightarrow> bool" where
  "foldEqRune L a b \<longleftrightarrow>
     a = b \<or> (if max a b < 128 then asciiLower a = asciiLower b else unicodeFold L (min a b) (max a b))"

definition equalFold :: "goLib \<Rightarrow> string \<Rightarrow> string \<Rightarrow> bool" where
  "equalFold L s t \<longleftrightarrow> list_all2 (foldEqRune L) (runes s) (runes t)"

fun splitFields :: "string list \<Rightarrow> string \<Rightarrow> string list" where
  "splitFields [] cur = (if cur = [] then [] else [cur])"
| "splitFields (g # gs) cur =
     (if isSpaceGroup g then (if cur = [] then [] else [cur]) @ splitFields gs []
      else splitFields gs (cur @ g))"

text \<open>\<open>strings.Fields\<close> and \<open>strings.Join\<close>.\<close>

definition fields :: "string \<Rightarrow> string list" where
  "fields s = splitFields (chunks s) []"

fun joinWith :: "string \<Rightarrow> string list \<Rightarrow> string" where
  "joinWith sep [] = []"
| "joinWith sep [s] = s"
| "joinWith sep (s # t # ss) = s @ sep @ joinWith sep (t # ss)"

abbreviation hasPrefix :: "string \<Rightarrow> string \<Rightarrow> bool" where "hasPrefix s p \<equiv> prefix p s"
abbreviation containsStr :: "string \<Rightarrow> string \<Rightarrow> bool" where "containsStr s t \<equiv> sublist t s"

definition trimPrefix :: "string \<Rightarrow> string \<Rightarrow> string" where
  "trimPrefix s p = (if hasPrefix s p then drop (length p) s else s)"

abbreviation nulByte :: string where "nulByte \<equiv> [char_of (0 :: nat)]"

lemma trimSpace_Nil [simp]: "trimSpace [] = []"
  by (simp add: trimSpace_def)

lemma length_dropWhile_concat: "length (concat (dropWhile p gs)) \<le> length (concat gs)"
  by (induction gs) auto

lemma length_concat_rev: "length (concat (rev gs)) = length (concat gs)"
  by (induction gs) auto

lemma length_trimSpace: "length (trimSpace s) \<le> length s"
proof -
  let ?l = "dropWhile isSpaceGroup (chunks s)"
  have "length (trimSpace s) \<le> length (concat (rev ?l))"
    using length_dropWhile_concat [of isSpaceGroup "rev ?l"]
    by (simp add: trimSpace_def length_concat_rev)
  also have "\<dots> \<le> length (concat (chunks s))"
    unfolding length_concat_rev by (rule length_dropWhile_concat)
  finally show ?thesis by simp
qed

lemma equalFold_refl [simp]: "equalFold L s s"
  by (simp add: equalFold_def foldEqRune_def list_all2_same)

lemma equalFold_sym: "equalFold L s t \<Longrightarrow> equalFold L t s"
  by (auto simp: equalFold_def foldEqRune_def list_all2_conv_all_nth min.commute max.commute)

section \<open>Hexadecimal, decimal and boolean text\<close>

definition hexDigit :: "nat \<Rightarrow> char" where
  "hexDigit n = byteChar (if n < 10 then 48 + n else 87 + n)"

text \<open>\<open>hex.EncodeToString\<close>, and whether \<open>hex.DecodeString\<close> accepts a string: an even number of
  digits of either case.\<close>

definition hexEncode :: "string \<Rightarrow> string" where
  "hexEncode s = concat (map (\<lambda>c. [hexDigit (byte c div 16), hexDigit (byte c mod 16)]) s)"

definition isHexByte :: "nat \<Rightarrow> bool" where
  "isHexByte b \<longleftrightarrow> (48 \<le> b \<and> b \<le> 57) \<or> (97 \<le> b \<and> b \<le> 102) \<or> (65 \<le> b \<and> b \<le> 70)"

definition hexDecodes :: "string \<Rightarrow> bool" where
  "hexDecodes s \<longleftrightarrow> even (length s) \<and> list_all (\<lambda>c. isHexByte (byte c)) s"

definition sha256Hex :: "goLib \<Rightarrow> string \<Rightarrow> string" where
  "sha256Hex L s = hexEncode (sha256 L s)"

lemma length_hexEncode [simp]: "length (hexEncode s) = 2 * length s"
  by (induction s) (auto simp: hexEncode_def)

lemma hexDigit_isHex: "n < 16 \<Longrightarrow> isHexByte (byte (hexDigit n))"
  by (auto simp: hexDigit_def isHexByte_def)

lemma hexDecodes_hexEncode: "hexDecodes (hexEncode s)"
proof -
  have "byte c div 16 < 16" for c
    using nat_of_char_less_256 [of c] by linarith
  then have "list_all (\<lambda>c. isHexByte (byte c)) (hexEncode s)"
    by (induction s) (auto simp: hexEncode_def hexDigit_isHex)
  then show ?thesis by (simp add: hexDecodes_def)
qed

fun natDigits :: "nat \<Rightarrow> string" where
  "natDigits n = (if n < 10 then [byteChar (48 + n)] else natDigits (n div 10) @ [byteChar (48 + n mod 10)])"

declare natDigits.simps [simp del]

text \<open>\<open>strconv.Itoa\<close> and \<open>strconv.FormatBool\<close>.\<close>

definition itoa :: "int \<Rightarrow> string" where
  "itoa n = (if n < 0 then CHR ''-'' # natDigits (nat (- n)) else natDigits (nat n))"

definition formatBool :: "bool \<Rightarrow> string" where
  "formatBool b = (if b then ''true'' else ''false'')"

text \<open>\<open>fmt.Sprintf("%0wd", n)\<close>: the sign counts towards the width.\<close>

definition padDecimal :: "nat \<Rightarrow> int \<Rightarrow> string" where
  "padDecimal w n =
     (let d = natDigits (nat \<bar>n\<bar>); k = w - length d - (if n < 0 then 1 else 0)
      in (if n < 0 then ''-'' else []) @ replicate k (CHR ''0'') @ d)"

section \<open>The relay's sanitisers\<close>

abbreviation controlRune :: "nat \<Rightarrow> bool" where "controlRune r \<equiv> r < 32 \<or> r = 127"

fun dropInvalidTail :: "string \<Rightarrow> string" where
  "dropInvalidTail s = (if s = [] \<or> validUTF8 s then s else dropInvalidTail (butlast s))"

declare dropInvalidTail.simps [simp del]

definition truncateUTF8Bytes :: "string \<Rightarrow> int \<Rightarrow> string" where
  "truncateUTF8Bytes value limit =
     (if limit < 0 \<or> int (length value) \<le> limit then value
      else dropInvalidTail (take (nat limit) value))"

definition cleanLabel :: "string \<Rightarrow> int \<Rightarrow> string" where
  "cleanLabel value limit =
     (let value = trimSpace value; value = dropRunes controlRune value
      in if limit < int (length value) then truncateUTF8Bytes value limit else value)"

fun cleanListLoop :: "string list \<Rightarrow> int \<Rightarrow> string list \<Rightarrow> string list" where
  "cleanListLoop [] maxLength result = result"
| "cleanListLoop (v # vs) maxLength result =
     (let v = cleanLabel v maxLength
      in cleanListLoop vs maxLength (if v \<noteq> [] \<and> v \<notin> set result then result @ [v] else result))"

definition cleanList :: "string list \<Rightarrow> nat \<Rightarrow> int \<Rightarrow> string list" where
  "cleanList values maxItems maxLength =
     cleanListLoop (if maxItems < length values then take maxItems values else values) maxLength []"

lemma dropInvalidTail_prefix: "prefix (dropInvalidTail s) s"
proof (induction s rule: dropInvalidTail.induct)
  case (1 s)
  show ?case
  proof (cases "s = [] \<or> validUTF8 s")
    case True
    then show ?thesis by (simp add: dropInvalidTail.simps [of s])
  next
    case False
    with "1.IH" have "prefix (dropInvalidTail (butlast s)) (butlast s)" by simp
    then have "prefix (dropInvalidTail (butlast s)) s"
      by (rule prefix_order.trans) (simp add: prefixeq_butlast)
    with False show ?thesis by (subst dropInvalidTail.simps) simp
  qed
qed

lemma dropInvalidTail_valid: "validUTF8 (dropInvalidTail s)"
proof (induction s rule: dropInvalidTail.induct)
  case (1 s)
  then show ?case
    by (subst dropInvalidTail.simps) (auto simp: validUTF8_def)
qed

lemma truncateUTF8Bytes_length: "0 \<le> limit \<Longrightarrow> int (length (truncateUTF8Bytes v limit)) \<le> limit"
  using prefix_length_le [OF dropInvalidTail_prefix [of "take (nat limit) v"]]
  by (auto simp: truncateUTF8Bytes_def)

lemma cleanLabel_length: "0 \<le> limit \<Longrightarrow> int (length (cleanLabel v limit)) \<le> limit"
  by (simp add: cleanLabel_def Let_def truncateUTF8Bytes_length)

lemma cleanLabel_Nil [simp]: "cleanLabel [] limit = []"
  by (simp add: cleanLabel_def dropRunes_def truncateUTF8Bytes_def dropInvalidTail.simps)

section \<open>ASCII\<close>

text \<open>On ASCII strings the runes are the bytes, which evaluates the functions above on labels.\<close>

lemma chunks_ascii: "list_all (\<lambda>c. byte c < 128) s \<Longrightarrow> chunks s = map (\<lambda>c. [c]) s"
  by (induction s) (simp_all add: runeTail_def)

lemma trimSpace_word:
  assumes "list_all (\<lambda>c. 33 \<le> byte c \<and> byte c < 127) s"
  shows "trimSpace s = s"
proof -
  have ch: "chunks s = map (\<lambda>c. [c]) s" by (rule chunks_ascii) (use assms in \<open>auto simp: list_all_iff\<close>)
  have "dropWhile isSpaceGroup gs = gs" if "set gs \<subseteq> set (map (\<lambda>c. [c]) s)" for gs
  proof (cases gs)
    case (Cons g rest)
    then have "\<not> isSpaceGroup g" using that assms by (auto simp: list_all_iff isSpaceRune_def)
    then show ?thesis using Cons by simp
  qed simp
  then show ?thesis unfolding trimSpace_def ch by simp
qed

lemma equalFold_ascii:
  assumes "list_all (\<lambda>c. byte c < 128) s" and "list_all (\<lambda>c. byte c < 128) t"
  shows "equalFold L s t \<longleftrightarrow> map (\<lambda>c. asciiLower (byte c)) s = map (\<lambda>c. asciiLower (byte c)) t"
proof -
  have r: "runes u = map byte u" if "list_all (\<lambda>c. byte c < 128) u" for u
    using that by (auto simp: runes_def chunks_ascii list_all_iff)
  have "foldEqRune L a b \<longleftrightarrow> asciiLower a = asciiLower b" if "a < 128" "b < 128" for a b
    using that by (auto simp: foldEqRune_def)
  then show ?thesis using assms
    by (auto simp: equalFold_def r list_all2_conv_all_nth list_all_iff list_eq_iff_nth_eq)
qed

end
