(* ===== verification/Bolt_Bucket.thy ===== *)
theory Bolt_Bucket
  imports Go_Strings
begin

text \<open>
  The durable state of the relay is a set of Bolt buckets: byte-string keys with values, read by
  \<open>Get\<close>, written by \<open>Put\<close> and \<open>Delete\<close>, and walked by \<open>ForEach\<close> and
  \<open>Cursor\<close> in the byte order of the keys. The locale \<open>keyed_bucket\<close> states what the
  store relies on; the lists of this theory, kept in key order, provide it. A stored value is a
  \<open>cell\<close>: \<open>Val v\<close> for the JSON of \<open>v\<close>, \<open>Garbled\<close> for bytes that
  \<open>json.Unmarshal\<close> refuses, so that the decoding errors of \<open>getJSON\<close> are branches of the
  model.
\<close>

datatype 'v cell = Val 'v | Garbled

type_synonym 'v bucket = "(string \<times> 'v) list"

section \<open>The interface\<close>

locale keyed_bucket =
  fixes get :: "'b \<Rightarrow> 'k::linorder \<Rightarrow> 'v option"
    and put :: "'k \<Rightarrow> 'v \<Rightarrow> 'b \<Rightarrow> 'b"
    and delete :: "'k \<Rightarrow> 'b \<Rightarrow> 'b"
    and entries :: "'b \<Rightarrow> ('k \<times> 'v) list"
    and ordered :: "'b \<Rightarrow> bool"
  assumes get_put: "get (put k v b) k' = (if k' = k then Some v else get b k')"
    and get_delete: "get (delete k b) k' = (if k' = k then None else get b k')"
    and ordered_put: "ordered b \<Longrightarrow> ordered (put k v b)"
    and ordered_delete: "ordered b \<Longrightarrow> ordered (delete k b)"
    and entries_sorted: "ordered b \<Longrightarrow> sorted_wrt (<) (map fst (entries b))"
    and entries_get: "ordered b \<Longrightarrow> (k, v) \<in> set (entries b) \<longleftrightarrow> get b k = Some v"
begin

lemma get_put_same: "get (put k v b) k = Some v"
  by (simp add: get_put)

lemma get_put_other: "k' \<noteq> k \<Longrightarrow> get (put k v b) k' = get b k'"
  by (simp add: get_put)

lemma entries_distinct: "ordered b \<Longrightarrow> distinct (map fst (entries b))"
  using entries_sorted strict_sorted_iff by blast

lemma get_map_of: "ordered b \<Longrightarrow> get b k = map_of (entries b) k"
  using entries_distinct entries_get by (metis map_of_eq_Some_iff option.exhaust)

text \<open>How many entries satisfy a property, and how a write changes that number.\<close>

definition countE :: "('k \<Rightarrow> 'v \<Rightarrow> bool) \<Rightarrow> 'b \<Rightarrow> nat" where
  "countE p b = card {k. \<exists>v. get b k = Some v \<and> p k v}"

lemma finite_count: "ordered b \<Longrightarrow> finite {k. \<exists>v. get b k = Some v \<and> p k v}"
proof -
  assume "ordered b"
  then have "{k. \<exists>v. get b k = Some v \<and> p k v} \<subseteq> fst ` set (entries b)"
    by (force simp: entries_get [symmetric])
  then show ?thesis by (rule finite_subset) simp
qed

lemma count_put_new:
  assumes "ordered b" and "get b k = None"
  shows "countE p (put k v b) = countE p b + (if p k v then 1 else 0)"
proof -
  have "{x. \<exists>u. get (put k v b) x = Some u \<and> p x u} =
        {x. \<exists>u. get b x = Some u \<and> p x u} \<union> (if p k v then {k} else {})"
    using assms(2) by (auto simp: get_put)
  moreover have "k \<notin> {x. \<exists>u. get b x = Some u \<and> p x u}"
    using assms(2) by simp
  ultimately show ?thesis
    using finite_count [OF assms(1)] by (simp add: countE_def)
qed

lemma count_delete:
  assumes "ordered b" and "get b k = Some v"
  shows "countE p (delete k b) + (if p k v then 1 else 0) = countE p b"
proof -
  have "{x. \<exists>u. get (delete k b) x = Some u \<and> p x u} =
        {x. \<exists>u. get b x = Some u \<and> p x u} - {k}"
    by (auto simp: get_delete split: if_splits)
  moreover have "p k v \<longleftrightarrow> k \<in> {x. \<exists>u. get b x = Some u \<and> p x u}"
    using assms(2) by auto
  ultimately show ?thesis
    using finite_count [OF assms(1), of p] card_Suc_Diff1
    by (fastforce simp: countE_def)
qed

lemma count_put_same:
  assumes "ordered b" and "get b k = Some u" and "p k u = p k v"
  shows "countE p (put k v b) = countE p b"
proof -
  have "{x. \<exists>u. get (put k v b) x = Some u \<and> p x u} = {x. \<exists>u. get b x = Some u \<and> p x u}"
    using assms(2,3) by (auto simp: get_put split: if_splits)
  then show ?thesis by (simp add: countE_def)
qed

end

section \<open>Ordered association lists\<close>

definition bget :: "('k::linorder \<times> 'v) list \<Rightarrow> 'k \<Rightarrow> 'v option" where
  "bget b k = map_of b k"

fun bput :: "'k::linorder \<Rightarrow> 'v \<Rightarrow> ('k \<times> 'v) list \<Rightarrow> ('k \<times> 'v) list" where
  "bput k v [] = [(k, v)]"
| "bput k v ((k', v') # b) =
     (if k < k' then (k, v) # (k', v') # b
      else if k = k' then (k, v) # b
      else (k', v') # bput k v b)"

definition bdelete :: "'k::linorder \<Rightarrow> ('k \<times> 'v) list \<Rightarrow> ('k \<times> 'v) list" where
  "bdelete k b = filter (\<lambda>e. fst e \<noteq> k) b"

definition bordered :: "('k::linorder \<times> 'v) list \<Rightarrow> bool" where
  "bordered b \<longleftrightarrow> sorted_wrt (<) (map fst b)"

lemma bget_Nil [bucket_simps]: "bget [] k = None"
  by (simp add: bget_def)

lemma bget_bput [bucket_simps]: "bget (bput k v b) k' = (if k' = k then Some v else bget b k')"
  by (induction b) (auto simp: bget_def)

lemma bget_bdelete [bucket_simps]: "bget (bdelete k b) k' = (if k' = k then None else bget b k')"
  by (induction b) (auto simp: bget_def bdelete_def)

lemma keys_bput: "set (map fst (bput k v b)) = insert k (set (map fst b))"
  by (induction k v b rule: bput.induct) auto

lemma bordered_bput: "bordered b \<Longrightarrow> bordered (bput k v b)"
proof (induction k v b rule: bput.induct)
  case (1 k v)
  show ?case by (simp add: bordered_def)
next
  case (2 k v k' v' b)
  then show ?case
    using keys_bput [of k v b]
    by (auto simp: bordered_def)
qed

lemma bordered_bdelete: "bordered b \<Longrightarrow> bordered (bdelete k b)"
  by (induction b) (auto simp: bordered_def bdelete_def)

lemma bordered_Nil [simp]: "bordered []"
  by (simp add: bordered_def)

lemma bordered_get: "bordered b \<Longrightarrow> (k, v) \<in> set b \<longleftrightarrow> bget b k = Some v"
  by (simp add: bordered_def bget_def strict_sorted_iff map_of_eq_Some_iff)

interpretation bolt: keyed_bucket bget bput bdelete "\<lambda>b. b" bordered
  by unfold_locales
    (auto simp: bget_bput bget_bdelete bordered_bput bordered_bdelete bordered_get,
     simp add: bordered_def)

lemmas bucket_ordered = bordered_bput bordered_bdelete bordered_Nil

section \<open>Typed values\<close>

datatype error =
    ErrNotExist
  | ErrExist
  | ErrDecode
  | ErrText string
  | ErrQueueFull
  | ErrOwnerQueueCapacity
  | ErrOwnerRateCapacity
  | ErrE2EERequired
  | ErrPriorityScopeForbidden
  | ErrTenantScopeForbidden
  | ErrIdempotencyConflict
  | ErrAssignmentFenceMismatch
  | ErrAdapterSessionBusy
  | ErrWorkerCredentialInvalid
  | ErrPipelineParentTerminal
  | ErrNodeDraining
  | ErrRouteProbeInFlight
  | ErrScheduledActionTaskReserved
  | ErrReservationCapacity
  | ErrOwnerReservationCapacity
  | ErrReservationOwnerMismatch
  | ErrReservationContextMismatch
  | ErrReservationInvalidOrExpired
  | ErrNodePublicKeyMismatch
  | ErrPipelineCapacity
  | ErrOwnerPipelineCapacity

type_synonym 'a result = "error + 'a"

definition getJSON :: "'v cell bucket \<Rightarrow> string \<Rightarrow> 'v result" where
  "getJSON b k =
     (case bget b k of
        None \<Rightarrow> Inl ErrNotExist
      | Some Garbled \<Rightarrow> Inl ErrDecode
      | Some (Val v) \<Rightarrow> Inr v)"

definition putJSON :: "string \<Rightarrow> 'v \<Rightarrow> 'v cell bucket \<Rightarrow> 'v cell bucket" where
  "putJSON k v b = bput k (Val v) b"

lemma getJSON_eq_Inr [result_simps]: "getJSON b k = Inr v \<longleftrightarrow> bget b k = Some (Val v)"
  by (auto simp: getJSON_def split: option.splits cell.splits)

lemma getJSON_putJSON [bucket_simps]:
  "getJSON (putJSON k v b) k' = (if k' = k then Inr v else getJSON b k')"
  by (simp add: getJSON_def putJSON_def bget_bput)

lemma bget_putJSON [bucket_simps]:
  "bget (putJSON k v b) k' = (if k' = k then Some (Val v) else bget b k')"
  by (simp add: putJSON_def bget_bput)

lemma bordered_putJSON: "bordered b \<Longrightarrow> bordered (putJSON k v b)"
  by (simp add: putJSON_def bordered_bput)

text \<open>The values of a bucket in key order, as \<open>ForEach\<close> visits them; undecodable values are
  skipped by the walks that ignore \<open>json.Unmarshal\<close> errors.\<close>

definition decoded :: "'v cell bucket \<Rightarrow> (string \<times> 'v) list" where
  "decoded b = List.map_filter (\<lambda>(k, c). case c of Val v \<Rightarrow> Some (k, v) | Garbled \<Rightarrow> None) b"

lemma set_decoded: "bordered b \<Longrightarrow> (k, v) \<in> set (decoded b) \<longleftrightarrow> bget b k = Some (Val v)"
proof -
  assume ord: "bordered b"
  have "(k, v) \<in> set (decoded b) \<longleftrightarrow> (k, Val v) \<in> set b"
    by (force simp: decoded_def map_filter_def split: cell.splits)
  with ord show ?thesis by (simp add: bordered_get)
qed

lemma decoded_keys_sorted: "bordered b \<Longrightarrow> sorted_wrt (<) (map fst (decoded b))"
proof (induction b)
  case Nil
  then show ?case by (simp add: decoded_def map_filter_def)
next
  case (Cons e b)
  obtain k c where e: "e = (k, c)" by force
  have ord: "bordered b" using Cons.prems by (simp add: bordered_def)
  have above: "\<forall>p \<in> set (decoded b). k < fst p"
    using Cons.prems by (force simp: e bordered_def decoded_def map_filter_def split: cell.splits)
  show ?case
    using Cons.IH [OF ord] above
    by (cases c) (auto simp: e decoded_def map_filter_def)
qed

end
