(* ===== verification/Job_Types.thy ===== *)
theory Job_Types
  imports Bolt_Bucket Complex_Main
begin

text \<open>
  The data of the relay (\<open>internal/cluster/types.go\<close> and the declarations of
  \<open>scheduler.go\<close>, \<open>execution_policy.go\<close> and \<open>pool_authority.go\<close>): one
  \<^theory_text>\<open>record\<close> per struct with the fields of the source, the struct's name as the
  prefix of each field. A pointer that may be nil is an option, a \<open>float64\<close> amount a
  \<open>real\<close>, a \<open>json.RawMessage\<close> the string of its bytes, a status its string constant as in
  the code. \<open>AdapterSessionKey\<close> and \<open>ReservationKey\<close> are tagged \<open>json:"-"\<close> and are
  cleared by \<open>persistJob\<close> when a job is stored.
\<close>

definition JobContractV1 :: string where "JobContractV1 = ''contextbridge.job.v1''"

definition MaximumJobResultBytes :: int where "MaximumJobResultBytes = 24 * 2 ^ 20"

definition JobQueued :: string where "JobQueued = ''queued''"
definition JobAssigned :: string where "JobAssigned = ''assigned''"
definition JobRunning :: string where "JobRunning = ''running''"
definition JobCompleted :: string where "JobCompleted = ''completed''"
definition JobFailed :: string where "JobFailed = ''failed''"
definition JobCancelled :: string where "JobCancelled = ''cancelled''"

lemmas status_defs = JobQueued_def JobAssigned_def JobRunning_def JobCompleted_def JobFailed_def
  JobCancelled_def

record requirements =
  req_Task :: string
  req_SessionID :: string
  req_Provider :: string
  req_AdapterProfile :: string
  req_Model :: string
  req_Reasoning :: string
  req_AdapterEndpointID :: int
  req_AdapterPrincipal :: string
  req_AdapterSessionRecovery :: bool
  req_AdapterSessionKey :: string
  req_AdapterFreshSession :: bool
  req_AdapterEphemeralSession :: bool
  req_Group :: string
  req_RequiredTags :: "string list"
  req_PreferredNodes :: "string list"
  req_RouteBinding :: string
  req_MinFreeVRAM :: u64
  req_Vision :: bool
  req_Embedding :: bool
  req_InputImageCount :: int
  req_InputImageBytes :: int
  req_InputImageMaxBytes :: int
  req_InputImageMediaTypes :: "string list"
  req_InputAudioBytes :: int
  req_InputAudioDurationMS :: int
  req_InputAudioMediaType :: string
  req_Egress :: string
  req_MaxCostUSD :: real

record gpuCapability =
  gpu_Name :: string
  gpu_Backend :: string
  gpu_Driver :: string
  gpu_MemoryTotal :: u64
  gpu_MemoryFree :: u64
  gpu_Temperature :: int
  gpu_Utilization :: int

record modelCapability =
  model_Name :: string
  model_Tasks :: "string list"
  model_Size :: int
  model_Available :: bool
  model_Loaded :: bool
  model_Vision :: bool
  model_Embedding :: bool
  model_CapabilitiesVerified :: bool
  model_CapabilitySource :: string
  model_ContextWindowTokens :: int
  model_MaxOutputTokens :: int
  model_MaxInputImages :: int
  model_MaxImageBytes :: int
  model_MaxTotalImageBytes :: int
  model_ImageMediaTypes :: "string list"
  model_LimitsVerified :: bool
  model_LimitSource :: string
  model_VRAM :: int
  model_Provider :: string

record adapterSessionCapability =
  ses_EndpointID :: int
  ses_Profile :: string
  ses_Principal :: string
  ses_State :: string
  ses_SessionKey :: string
  ses_SessionKeySupported :: bool
  ses_CanCreateSession :: bool
  ses_DefaultNewSession :: bool
  ses_CurrentModel :: string
  ses_CurrentReasoning :: string
  ses_ModelChoices :: "string list"
  ses_ReasoningLevels :: "string list"

record capabilities =
  cap_ClockTime :: gotime
  cap_UTCOffsetSeconds :: int
  cap_OS :: string
  cap_OSVersion :: string
  cap_Architecture :: string
  cap_CPU :: string
  cap_CPUCores :: int
  cap_CPUFrequency :: int
  cap_CPUUtilization :: int
  cap_UptimeSeconds :: u64
  cap_AgentVersion :: string
  cap_MemoryTotal :: u64
  cap_MemoryFree :: u64
  cap_MemoryType :: string
  cap_GPUs :: "gpuCapability list"
  cap_Models :: "modelCapability list"
  cap_Providers :: "string list"
  cap_Tasks :: "string list"
  cap_AutomaticTasks :: "(string \<times> string list) list option"
  cap_RouteBindings :: "string list"
  cap_Tags :: "string list"
  cap_Groups :: "string list"
  cap_MaxConcurrent :: int
  cap_Running :: int
  cap_AdapterEndpoints :: int
  cap_AdapterBusy :: int
  cap_AdapterSessions :: "adapterSessionCapability list"
  cap_Sources :: "string list"
  cap_Modes :: "string list"
  cap_QueueDepth :: int

record routingDurationSample =
  smp_ComputeMS :: u64
  smp_CompletedAt :: gotime

record routingLoadPerformance =
  ld_ContextClass :: string
  ld_Samples :: u32
  ld_EWMAComputeMS :: u64
  ld_LastComputeMS :: u64
  ld_LastCompletedAt :: gotime
  ld_RecentSuccessMS :: "u64 list"
  ld_RecentSuccessSamples :: "routingDurationSample list"

record routingRuntimePerformance =
  rt_ProfileKey :: string
  rt_Kind :: string
  rt_Samples :: u32
  rt_LastCompletedAt :: gotime
  rt_RecentSuccessSamples :: "routingDurationSample list"

record routingPerformance =
  perf_RouteKey :: string
  perf_Provider :: string
  perf_Model :: string
  perf_Samples :: u32
  perf_EWMAComputeMS :: u64
  perf_LastComputeMS :: u64
  perf_LastCompletedAt :: gotime
  perf_RecentSuccessMS :: "u64 list"
  perf_RecentSuccessSamples :: "routingDurationSample list"
  perf_LoadProfiles :: "routingLoadPerformance list"
  perf_RuntimeProfiles :: "routingRuntimePerformance list"

record routingHealth =
  h_OwnerScope :: string
  h_RouteKey :: string
  h_Provider :: string
  h_Model :: string
  h_ConsecutiveFailures :: u32
  h_LastFailureCode :: string
  h_LastFailureAt :: gotime
  h_CircuitOpenUntil :: gotime
  h_ProbeJobID :: string
  h_ProbeOwnerScope :: string

record poolWorkerCertificate =
  cert_ContractVersion :: string
  cert_PoolID :: string
  cert_AuthorityKey :: string
  cert_WorkerPublicKey :: string
  cert_IssuedAt :: gotime
  cert_Signature :: string

record node =
  node_interactiveRunning :: int
  node_ID :: string
  node_Name :: string
  node_PublicKey :: string
  node_PoolCertificate :: "poolWorkerCertificate option"
  node_Capabilities :: capabilities
  node_State :: string
  node_Connected :: bool
  node_Draining :: bool
  node_LastSeen :: gotime
  node_ClockOffsetMS :: int
  node_ConnectedAt :: gotime
  node_JobsTotal :: u64
  node_JobsFailed :: u64
  node_ComputeMS :: u64
  node_CostUSD :: real
  node_CostKnownJobs :: u64
  node_CostUnknownJobs :: u64
  node_RoutingHealth :: "routingHealth list"
  node_RoutingPerformance :: "routingPerformance list"

record usage =
  use_InputTokens :: u64
  use_OutputTokens :: u64
  use_TotalTokens :: u64
  use_ComputeMS :: u64
  use_QueueMS :: u64
  use_CostStatus :: string
  use_CostSource :: string
  use_ReservedCostUSD :: real
  use_EstimatedCostUSD :: real
  use_EquivalentCostUSD :: real
  use_SavedCostUSD :: real
  use_CostKnownJobs :: u64
  use_CostUnknownJobs :: u64
  use_ResourceScope :: string
  use_PeakVRAMBytes :: u64
  use_PeakRAMBytes :: u64
  use_PeakGPUUtilization :: int

record executionMetadata =
  exec_AdapterEndpointID :: int
  exec_EphemeralAdapterEndpoint :: bool

record jobProgress =
  prog_Sequence :: u64
  prog_Text :: string
  prog_Phase :: string
  prog_Detail :: string
  prog_Percent :: int
  prog_Busy :: bool
  prog_UpdatedAt :: gotime

record sealedEnvelope =
  env_Algorithm :: string
  env_EphemeralPublic :: string
  env_Nonce :: string
  env_Ciphertext :: string

record relayAuthority =
  auth_ClusterID :: string
  auth_Epoch :: u64

record assignmentFence =
  fence_ClusterID :: string
  fence_RelayEpoch :: u64
  fence_Generation :: u64

record poolJobAuthorization =
  pja_ContractVersion :: string
  pja_PoolID :: string
  pja_ExpiresAt :: gotime
  pja_Signature :: string

record policyDecision =
  pol_Schema :: string
  pol_Outcome :: string
  pol_ReasonCodes :: "string list"
  pol_RuleID :: string
  pol_PolicyFingerprint :: string
  pol_EgressClass :: string
  pol_CostBudgetUSD :: real
  pol_CostEnforcement :: string
  pol_EvaluatedAt :: gotime
  pol_ProviderClassification :: string

record routingScoreComponents =
  sc_ActiveLoad :: real
  sc_QueueDepth :: real
  sc_MemoryPressure :: real
  sc_CPUPressure :: real
  sc_GPUPressure :: real
  sc_VRAMHeadroom :: real
  sc_AdapterPressure :: real
  sc_LoadedModel :: real
  sc_EstimatedVRAMFit :: real
  sc_PreferredNode :: real
  sc_RecentFailures :: real
  sc_HistoricalLatency :: real

record routingCandidateDecision =
  cand_ReservedSlots :: int
  cand_ReservationOutcome :: string
  cand_NodeID :: string
  cand_NodeName :: string
  cand_Eligible :: bool
  cand_RejectionReasons :: "string list"
  cand_Score :: real
  cand_ScoreComponents :: routingScoreComponents
  cand_EvidenceAgeMS :: int
  cand_FailureStreak :: u32
  cand_CircuitOpenUntil :: gotime
  cand_RecoveryProbation :: bool
  cand_PerformanceSamples :: u32
  cand_EstimatedComputeMS :: u64
  cand_PerformanceAgeMS :: int
  cand_PerformanceContext :: string
  cand_PerformanceSource :: string

record routingDecision =
  dec_ID :: string
  dec_JobID :: string
  dec_Preview :: bool
  dec_Requirements :: requirements
  dec_RouteKey :: string
  dec_PolicyDecision :: "policyDecision option"
  dec_EstimatedVRAMBytes :: u64
  dec_Candidates :: "routingCandidateDecision list"
  dec_CandidateCount :: int
  dec_CandidatesTruncated :: int
  dec_SelectedNodeID :: string
  dec_SelectedNodeName :: string
  dec_CreatedAt :: gotime

record job =
  job_ID :: string
  job_ContractVersion :: string
  job_OwnerSubject :: string
  job_TenantID :: string
  job_Source :: string
  job_Pipeline :: string
  job_Step :: string
  job_ParentID :: string
  job_Requirements :: requirements
  job_PolicyDecision :: policyDecision
  job_Payload :: string
  job_SealedPayload :: "sealedEnvelope option"
  job_PoolAuthorization :: "poolJobAuthorization option"
  job_Result :: string
  job_SealedResult :: "sealedEnvelope option"
  job_Status :: string
  job_Priority :: int
  job_Attempt :: int
  job_MaxAttempts :: int
  job_AssignedNode :: string
  job_AssignmentFence :: "assignmentFence option"
  job_RoutingDecision :: "routingDecision option"
  job_ExecutedAdapterEndpointID :: int
  job_EphemeralAdapterEndpoint :: bool
  job_Error :: string
  job_FailureCode :: string
  job_Usage :: usage
  job_Progress :: "jobProgress option"
  job_CreatedAt :: gotime
  job_UpdatedAt :: gotime
  job_AssignedAt :: gotime
  job_StartedAt :: gotime
  job_FinishedAt :: gotime
  job_ReservationKey :: string

end
