(* ===== verification/Store_State.thy ===== *)
theory Store_State
  imports Job_Types
begin

text \<open>
  The state of the durable store (\<open>internal/cluster/store.go\<close>): one field per Bolt bucket that
  the modelled operations read or write, with the records kept there. \<open>update\<close> is
  \<open>db.Update\<close>: a transaction that returns an error changes nothing. A \<open>putX\<close> function
  stores the JSON of its argument, which drops the fields tagged \<open>json:"-"\<close> and the unexported
  ones.
\<close>

record scheduledActionTarget =
  sat_AdapterUID :: string
  sat_AdapterProfile :: string
  sat_AdapterPrincipal :: string
  sat_ActionKinds :: "string list"
  sat_DestinationRefs :: "string list"

record scheduledActionLimits =
  sal_Schema :: string
  sal_Targets :: "scheduledActionTarget list"
  sal_MaxActive :: int
  sal_MaxHorizonSeconds :: int
  sal_MinIntervalSeconds :: int
  sal_MaxOccurrences :: int
  sal_MaxDeliveryWindowSeconds :: int

record producerLimits =
  lim_MaxQueuedJobs :: int
  lim_MaxJobsPerHour :: int
  lim_MaxPriority :: "int option"
  lim_Providers :: "string list"
  lim_AllowedTenants :: "string list"
  lim_Egress :: string
  lim_RequireE2EE :: bool
  lim_ScheduledActions :: "scheduledActionLimits option"

record observerLimits =
  obs_AllowedSubjects :: "string list"
  obs_AllowedTenants :: "string list"

record tokenRecord =
  tok_ID :: string
  tok_Role :: string
  tok_Subject :: string
  tok_Groups :: "string list"
  tok_ProducerLimits :: producerLimits
  tok_ObserverLimits :: observerLimits
  tok_CreatedAt :: gotime
  tok_ExpiresAt :: gotime
  tok_Revoked :: bool

record submitRequest =
  sub_ID :: string
  sub_ContractVersion :: string
  sub_TenantID :: string
  sub_Source :: string
  sub_Requirements :: requirements
  sub_Payload :: string
  sub_Sealed :: "sealedEnvelope option"
  sub_PoolAuthorization :: "poolJobAuthorization option"
  sub_AssignmentID :: string
  sub_AssignmentSecret :: string
  sub_Priority :: int
  sub_MaxAttempts :: int
  sub_OwnerSubject :: string
  sub_PolicyDecision :: policyDecision
  sub_Pipeline :: string
  sub_Step :: string
  sub_ParentID :: string
  sub_scheduledActionInternal :: bool

record assignment =
  asg_ID :: string
  asg_JobID :: string
  asg_NodeID :: string
  asg_NodeName :: string
  asg_PublicKey :: string
  asg_PoolCertificate :: "poolWorkerCertificate option"
  asg_Attempt :: int
  asg_OwnerSubject :: string
  asg_TenantID :: string
  asg_ExpiresAt :: gotime
  asg_Requirements :: requirements
  asg_PolicyDecision :: policyDecision

record reservation =
  rsv_Assignment :: assignment
  rsv_SecretHash :: string
  rsv_OwnerSubject :: string

record sessionPlacement =
  plc_NodeID :: string
  plc_AdapterEndpointID :: int
  plc_AdapterPrincipal :: string
  plc_UpdatedAt :: gotime

record jobIdempotencyRecord =
  idem_JobID :: string
  idem_RequestHash :: string

record producerRateWindow =
  win_StartedAt :: gotime
  win_Count :: int

record queueEntry =
  qe_JobID :: string
  qe_OwnerSubject :: string
  qe_Priority :: int
  qe_Requirements :: requirements
  qe_PolicyDecision :: policyDecision
  qe_AssignedNode :: string
  qe_Sealed :: bool
  qe_PoolAuthorized :: bool

text \<open>A queue value is the JSON of an entry (its first byte is a brace), the bare job id that older
  stores wrote, or undecodable JSON.\<close>

datatype queueValue = QEntry queueEntry | QLegacy string | QGarbled

record adapterSessionLock =
  lock_Kind :: string
  lock_HolderID :: string
  lock_Scope :: string
  lock_ExpiresAt :: gotime

record jobEventProgress =
  evp_ReportedSequence :: u64
  evp_Phase :: string
  evp_Percent :: int
  evp_Busy :: bool

record jobEvent =
  ev_Schema :: string
  ev_JobID :: string
  ev_RunID :: string
  ev_Sequence :: u64
  ev_Type :: string
  ev_Source :: string
  ev_Authority :: string
  ev_Time :: gotime
  ev_Attempt :: int
  ev_NodeID :: string
  ev_StepID :: string
  ev_Progress :: "jobEventProgress option"

text \<open>One nested bucket of events: the two counters and the events under their big-endian sequence
  keys, whose byte order is the numeric order.\<close>

record eventLog =
  log_Sequence :: u64
  log_ProgressCount :: u64
  log_Events :: "(u64 \<times> jobEvent cell) list"

record pipelineGraphBinding =
  pgb_ContractVersion :: string
  pgb_Mode :: string
  pgb_ConfigSHA256 :: string
  pgb_GraphSHA256 :: string
  pgb_MaxParallel :: int
  pgb_StepCount :: int
  pgb_EdgeCount :: int
  pgb_Order :: "string list"

record pipelineNodeCheckpoint =
  pnc_Step :: string
  pnc_DependsOn :: "string list"
  pnc_State :: string
  pnc_JobID :: string
  pnc_UpdatedAt :: gotime

record pipelineRun =
  run_ID :: string
  run_Pipeline :: string
  run_OwnerSubject :: string
  run_TenantID :: string
  run_ProducerLimits :: producerLimits
  run_Status :: string
  run_Input :: string
  run_Output :: string
  run_Steps :: "job list"
  run_Usage :: usage
  run_Error :: string
  run_Graph :: "pipelineGraphBinding option"
  run_NodeStates :: "pipelineNodeCheckpoint list"
  run_CreatedAt :: gotime
  run_FinishedAt :: gotime

record pairing =
  pair_DeviceCodeHash :: string
  pair_UserCode :: string
  pair_NodeName :: string
  pair_PublicKey :: string
  pair_PoolCertificate :: "poolWorkerCertificate option"
  pair_PublicKeyFingerprint :: string
  pair_Groups :: "string list"
  pair_ExpiresAt :: gotime
  pair_Approved :: bool
  pair_Denied :: bool
  pair_NodeID :: string
  pair_PendingToken :: string

record store =
  st_jobs :: "job cell bucket"
  st_jobIndex :: "string bucket"
  st_jobOwnerIndex :: "string bucket"
  st_jobOwnerLookup :: "string bucket"
  st_queue :: "queueValue bucket"
  st_queueJobIndex :: "string bucket"
  st_queueCounts :: "u64 cell bucket"
  st_idempotency :: "jobIdempotencyRecord cell bucket"
  st_idempotencyByJob :: "string bucket"
  st_rateWindows :: "producerRateWindow cell bucket"
  st_nodes :: "node cell bucket"
  st_tokens :: "tokenRecord cell bucket"
  st_pipelineRuns :: "pipelineRun cell bucket"
  st_jobEvents :: "eventLog bucket"
  st_pipelineEvents :: "eventLog bucket"
  st_sessionPlacements :: "sessionPlacement cell bucket"
  st_sessionLocks :: "adapterSessionLock cell bucket"
  st_assignments :: "reservation cell bucket"
  st_pipelineOwnerLookup :: "string bucket"
  st_pairings :: "pairing cell bucket"
  st_pairCodes :: "string bucket"
  st_storeMeta :: "string bucket"

definition emptyStore :: store where
  "emptyStore = \<lparr>st_jobs = [], st_jobIndex = [], st_jobOwnerIndex = [], st_jobOwnerLookup = [],
     st_queue = [], st_queueJobIndex = [], st_queueCounts = [], st_idempotency = [],
     st_idempotencyByJob = [], st_rateWindows = [], st_nodes = [], st_tokens = [],
     st_pipelineRuns = [], st_jobEvents = [], st_pipelineEvents = [], st_sessionPlacements = [],
     st_sessionLocks = [], st_assignments = [], st_pipelineOwnerLookup = [], st_pairings = [], st_pairCodes = [],
     st_storeMeta = []\<rparr>"

definition update :: "(store \<Rightarrow> ('a \<times> store) result) \<Rightarrow> store \<Rightarrow> 'a result \<times> store" where
  "update f st = (case f st of Inl e \<Rightarrow> (Inl e, st) | Inr (x, st') \<Rightarrow> (Inr x, st'))"

lemma update_error_unchanged: "fst (update f st) = Inl e \<Longrightarrow> snd (update f st) = st"
  by (auto simp: update_def split: sum.splits prod.splits)

lemma update_Inr: "update f st = (Inr x, st') \<longleftrightarrow> f st = Inr (x, st')"
  by (auto simp: update_def split: sum.splits prod.splits)

section \<open>Stored values\<close>

definition persistRequirements :: "requirements \<Rightarrow> requirements" where
  "persistRequirements r = r\<lparr>req_AdapterSessionKey := []\<rparr>"

definition persistDecision :: "routingDecision \<Rightarrow> routingDecision" where
  "persistDecision d = d\<lparr>dec_Requirements := persistRequirements (dec_Requirements d)\<rparr>"

definition persistJob :: "job \<Rightarrow> job" where
  "persistJob j = j\<lparr>job_Requirements := persistRequirements (job_Requirements j),
     job_RoutingDecision := map_option persistDecision (job_RoutingDecision j),
     job_ReservationKey := []\<rparr>"

definition persistNode :: "node \<Rightarrow> node" where
  "persistNode n = n\<lparr>node_interactiveRunning := 0\<rparr>"

definition putJob :: "string \<Rightarrow> job \<Rightarrow> store \<Rightarrow> store" where
  "putJob k j st = st\<lparr>st_jobs := putJSON k (persistJob j) (st_jobs st)\<rparr>"

definition putNode :: "string \<Rightarrow> node \<Rightarrow> store \<Rightarrow> store" where
  "putNode k n st = st\<lparr>st_nodes := putJSON k (persistNode n) (st_nodes st)\<rparr>"

lemma persistJob_fields [simp]:
  "job_ID (persistJob j) = job_ID j"
  "job_OwnerSubject (persistJob j) = job_OwnerSubject j"
  "job_TenantID (persistJob j) = job_TenantID j"
  "job_Status (persistJob j) = job_Status j"
  "job_Priority (persistJob j) = job_Priority j"
  "job_Attempt (persistJob j) = job_Attempt j"
  "job_MaxAttempts (persistJob j) = job_MaxAttempts j"
  "job_AssignedNode (persistJob j) = job_AssignedNode j"
  "job_AssignmentFence (persistJob j) = job_AssignmentFence j"
  "job_CreatedAt (persistJob j) = job_CreatedAt j"
  "job_UpdatedAt (persistJob j) = job_UpdatedAt j"
  "job_FinishedAt (persistJob j) = job_FinishedAt j"
  "job_FailureCode (persistJob j) = job_FailureCode j"
  "job_Error (persistJob j) = job_Error j"
  "job_Progress (persistJob j) = job_Progress j"
  "job_Payload (persistJob j) = job_Payload j"
  "job_SealedPayload (persistJob j) = job_SealedPayload j"
  "job_PoolAuthorization (persistJob j) = job_PoolAuthorization j"
  "job_PolicyDecision (persistJob j) = job_PolicyDecision j"
  "job_Result (persistJob j) = job_Result j"
  "job_SealedResult (persistJob j) = job_SealedResult j"
  "job_ParentID (persistJob j) = job_ParentID j"
  "job_Step (persistJob j) = job_Step j"
  by (simp_all add: persistJob_def)

lemma persistRequirements_idem [simp]:
  "persistRequirements (persistRequirements r) = persistRequirements r"
  by (simp add: persistRequirements_def)

lemma persistDecision_idem [simp]: "persistDecision (persistDecision d) = persistDecision d"
  by (simp add: persistDecision_def)

lemma persistJob_idem [simp]: "persistJob (persistJob j) = persistJob j"
  by (simp add: persistJob_def option.map_comp comp_def)

lemma putJob_frame [store_frame]:
  "st_jobIndex (putJob k j st) = st_jobIndex st"
  "st_jobOwnerIndex (putJob k j st) = st_jobOwnerIndex st"
  "st_jobOwnerLookup (putJob k j st) = st_jobOwnerLookup st"
  "st_queue (putJob k j st) = st_queue st"
  "st_queueJobIndex (putJob k j st) = st_queueJobIndex st"
  "st_queueCounts (putJob k j st) = st_queueCounts st"
  "st_idempotency (putJob k j st) = st_idempotency st"
  "st_nodes (putJob k j st) = st_nodes st"
  "st_pipelineRuns (putJob k j st) = st_pipelineRuns st"
  "st_jobEvents (putJob k j st) = st_jobEvents st"
  "st_pipelineEvents (putJob k j st) = st_pipelineEvents st"
  "st_sessionLocks (putJob k j st) = st_sessionLocks st"
  "st_jobs (putJob k j st) = putJSON k (persistJob j) (st_jobs st)"
  by (simp_all add: putJob_def)

lemma putNode_frame [store_frame]:
  "st_jobs (putNode k n st) = st_jobs st"
  "st_queue (putNode k n st) = st_queue st"
  "st_queueJobIndex (putNode k n st) = st_queueJobIndex st"
  "st_queueCounts (putNode k n st) = st_queueCounts st"
  "st_jobEvents (putNode k n st) = st_jobEvents st"
  "st_pipelineEvents (putNode k n st) = st_pipelineEvents st"
  "st_sessionLocks (putNode k n st) = st_sessionLocks st"
  "st_idempotency (putNode k n st) = st_idempotency st"
  "st_jobOwnerLookup (putNode k n st) = st_jobOwnerLookup st"
  "st_nodes (putNode k n st) = putJSON k (persistNode n) (st_nodes st)"
  by (simp_all add: putNode_def)

section \<open>Zero values\<close>

definition zeroRequirements :: requirements where
  "zeroRequirements = \<lparr>req_Task = [], req_SessionID = [], req_Provider = [], req_AdapterProfile = [],
     req_Model = [], req_Reasoning = [], req_AdapterEndpointID = 0, req_AdapterPrincipal = [],
     req_AdapterSessionRecovery = False, req_AdapterSessionKey = [], req_AdapterFreshSession = False,
     req_AdapterEphemeralSession = False, req_Group = [], req_RequiredTags = [],
     req_PreferredNodes = [], req_RouteBinding = [], req_MinFreeVRAM = 0, req_Vision = False,
     req_Embedding = False, req_InputImageCount = 0, req_InputImageBytes = 0,
     req_InputImageMaxBytes = 0, req_InputImageMediaTypes = [], req_InputAudioBytes = 0,
     req_InputAudioDurationMS = 0, req_InputAudioMediaType = [], req_Egress = [], req_MaxCostUSD = 0\<rparr>"

definition zeroUsage :: usage where
  "zeroUsage = \<lparr>use_InputTokens = 0, use_OutputTokens = 0, use_TotalTokens = 0, use_ComputeMS = 0,
     use_QueueMS = 0, use_CostStatus = [], use_CostSource = [], use_ReservedCostUSD = 0,
     use_EstimatedCostUSD = 0, use_EquivalentCostUSD = 0, use_SavedCostUSD = 0,
     use_CostKnownJobs = 0, use_CostUnknownJobs = 0, use_ResourceScope = [], use_PeakVRAMBytes = 0,
     use_PeakRAMBytes = 0, use_PeakGPUUtilization = 0\<rparr>"

definition zeroPolicy :: policyDecision where
  "zeroPolicy = \<lparr>pol_Schema = [], pol_Outcome = [], pol_ReasonCodes = [], pol_RuleID = [],
     pol_PolicyFingerprint = [], pol_EgressClass = [], pol_CostBudgetUSD = 0,
     pol_CostEnforcement = [], pol_EvaluatedAt = 0, pol_ProviderClassification = []\<rparr>"

definition zeroCapabilities :: capabilities where
  "zeroCapabilities = \<lparr>cap_ClockTime = 0, cap_UTCOffsetSeconds = 0, cap_OS = [], cap_OSVersion = [],
     cap_Architecture = [], cap_CPU = [], cap_CPUCores = 0, cap_CPUFrequency = 0,
     cap_CPUUtilization = 0, cap_UptimeSeconds = 0, cap_AgentVersion = [], cap_MemoryTotal = 0,
     cap_MemoryFree = 0, cap_MemoryType = [], cap_GPUs = [], cap_Models = [], cap_Providers = [],
     cap_Tasks = [], cap_AutomaticTasks = None, cap_RouteBindings = [], cap_Tags = [],
     cap_Groups = [], cap_MaxConcurrent = 0, cap_Running = 0, cap_AdapterEndpoints = 0,
     cap_AdapterBusy = 0, cap_AdapterSessions = [], cap_Sources = [], cap_Modes = [],
     cap_QueueDepth = 0\<rparr>"

definition zeroNode :: node where
  "zeroNode = \<lparr>node_interactiveRunning = 0, node_ID = [], node_Name = [], node_PublicKey = [],
     node_PoolCertificate = None, node_Capabilities = zeroCapabilities, node_State = [],
     node_Connected = False, node_Draining = False, node_LastSeen = 0, node_ClockOffsetMS = 0,
     node_ConnectedAt = 0, node_JobsTotal = 0, node_JobsFailed = 0, node_ComputeMS = 0,
     node_CostUSD = 0, node_CostKnownJobs = 0, node_CostUnknownJobs = 0, node_RoutingHealth = [],
     node_RoutingPerformance = []\<rparr>"

definition zeroHealth :: routingHealth where
  "zeroHealth = \<lparr>h_OwnerScope = [], h_RouteKey = [], h_Provider = [], h_Model = [],
     h_ConsecutiveFailures = 0, h_LastFailureCode = [], h_LastFailureAt = 0, h_CircuitOpenUntil = 0,
     h_ProbeJobID = [], h_ProbeOwnerScope = []\<rparr>"

definition zeroJob :: job where
  "zeroJob = \<lparr>job_ID = [], job_ContractVersion = [], job_OwnerSubject = [], job_TenantID = [],
     job_Source = [], job_Pipeline = [], job_Step = [], job_ParentID = [],
     job_Requirements = zeroRequirements, job_PolicyDecision = zeroPolicy, job_Payload = [],
     job_SealedPayload = None, job_PoolAuthorization = None, job_Result = [],
     job_SealedResult = None, job_Status = [], job_Priority = 0, job_Attempt = 0,
     job_MaxAttempts = 0, job_AssignedNode = [], job_AssignmentFence = None,
     job_RoutingDecision = None, job_ExecutedAdapterEndpointID = 0,
     job_EphemeralAdapterEndpoint = False, job_Error = [], job_FailureCode = [],
     job_Usage = zeroUsage, job_Progress = None, job_CreatedAt = 0, job_UpdatedAt = 0,
     job_AssignedAt = 0, job_StartedAt = 0, job_FinishedAt = 0, job_ReservationKey = []\<rparr>"

definition zeroLimits :: producerLimits where
  "zeroLimits = \<lparr>lim_MaxQueuedJobs = 0, lim_MaxJobsPerHour = 0, lim_MaxPriority = None,
     lim_Providers = [], lim_AllowedTenants = [], lim_Egress = [], lim_RequireE2EE = False,
     lim_ScheduledActions = None\<rparr>"

lemmas zero_defs = zeroRequirements_def zeroUsage_def zeroPolicy_def zeroCapabilities_def
  zeroNode_def zeroHealth_def zeroJob_def zeroLimits_def

definition terminalJobStatus :: "string \<Rightarrow> bool" where
  "terminalJobStatus status \<longleftrightarrow> status = JobCompleted \<or> status = JobFailed \<or> status = JobCancelled"

definition terminalPipelineStatus :: "string \<Rightarrow> bool" where
  "terminalPipelineStatus status \<longleftrightarrow> status = ''completed'' \<or> status = ''failed'' \<or> status = ''cancelled''"

definition finiteBoundedCost :: "real \<Rightarrow> bool" where
  "finiteBoundedCost v \<longleftrightarrow> 0 \<le> v \<and> v \<le> 1000000000"

definition saturatingCostAdd :: "real \<Rightarrow> real \<Rightarrow> real" where
  "saturatingCostAdd left right =
     (if \<not> finiteBoundedCost left \<or> \<not> finiteBoundedCost right \<or> 1000000000 - right < left
      then 1000000000 else left + right)"

end
