(* ===== verification/Failure_Codes.thy ===== *)
theory Failure_Codes
  imports Store_State
begin

text \<open>
  The stable failure vocabulary (\<open>internal/cluster/failure_codes.go\<close>): the constants, the
  classification of a worker's message and its normalisation, and the diagnostic kept for an
  encrypted job, which carries nothing but a code of the vocabulary.
\<close>

definition FailureAdapterRateLimited :: string where "FailureAdapterRateLimited = ''adapter_rate_limited''"
definition FailureAdapterTimeout :: string where "FailureAdapterTimeout = ''adapter_timeout''"
definition FailureAdapterAutomation :: string where "FailureAdapterAutomation = ''adapter_automation_error''"
definition FailureCostBudgetExceeded :: string where "FailureCostBudgetExceeded = ''cost_budget_exceeded''"
definition FailureCostBudgetUnverifiable :: string where "FailureCostBudgetUnverifiable = ''cost_budget_unverifiable''"
definition FailureArtifactRequirement :: string where "FailureArtifactRequirement = ''artifact_requirement_unsatisfied''"
definition FailureProviderRouteUnavailable :: string where "FailureProviderRouteUnavailable = ''provider_route_unavailable''"
definition FailureWorkerCapacity :: string where "FailureWorkerCapacity = ''worker_capacity_exceeded''"
definition FailureWorkerStopping :: string where "FailureWorkerStopping = ''worker_stopping''"
definition FailureWorkerExecutionCancelled :: string where "FailureWorkerExecutionCancelled = ''worker_execution_cancelled''"
definition FailureWorkerExecutionTimeout :: string where "FailureWorkerExecutionTimeout = ''worker_execution_timeout''"
definition FailureWorkerExecution :: string where "FailureWorkerExecution = ''worker_execution_failed''"
definition FailureWorkerResultRejected :: string where "FailureWorkerResultRejected = ''worker_result_rejected''"
definition FailureExecutionStateAmbiguous :: string where "FailureExecutionStateAmbiguous = ''execution_state_ambiguous''"
definition FailureExecutionTimeoutAmbiguous :: string where "FailureExecutionTimeoutAmbiguous = ''execution_timeout_ambiguous''"
definition FailureEncryptedReservationExpired :: string where "FailureEncryptedReservationExpired = ''encrypted_reservation_expired''"
definition FailurePipelineParentTerminal :: string where "FailurePipelineParentTerminal = ''pipeline_parent_terminal''"
definition FailurePoolAuthorization :: string where "FailurePoolAuthorization = ''pool_authorization_rejected''"

lemmas failure_defs = FailureAdapterRateLimited_def FailureAdapterTimeout_def
  FailureAdapterAutomation_def FailureCostBudgetExceeded_def FailureCostBudgetUnverifiable_def
  FailureArtifactRequirement_def FailureProviderRouteUnavailable_def FailureWorkerCapacity_def
  FailureWorkerStopping_def FailureWorkerExecutionCancelled_def FailureWorkerExecutionTimeout_def
  FailureWorkerExecution_def FailureWorkerResultRejected_def FailureExecutionStateAmbiguous_def
  FailureExecutionTimeoutAmbiguous_def FailureEncryptedReservationExpired_def
  FailurePipelineParentTerminal_def FailurePoolAuthorization_def

definition stableFailureCodeList :: "string list" where
  "stableFailureCodeList =
    [FailureAdapterAutomation, FailureAdapterRateLimited, FailureAdapterTimeout,
     FailureArtifactRequirement, FailureCostBudgetExceeded, FailureCostBudgetUnverifiable,
     FailureEncryptedReservationExpired, FailureExecutionStateAmbiguous,
     FailureExecutionTimeoutAmbiguous, FailurePipelineParentTerminal, FailurePoolAuthorization,
     FailureProviderRouteUnavailable, FailureWorkerCapacity, FailureWorkerExecutionCancelled,
     FailureWorkerExecution, FailureWorkerExecutionTimeout, FailureWorkerResultRejected,
     FailureWorkerStopping]"

abbreviation stableFailureCode :: "string \<Rightarrow> bool" where
  "stableFailureCode c \<equiv> c \<in> set stableFailureCodeList"

definition codeOrDetail :: "string \<Rightarrow> string \<Rightarrow> bool" where
  "codeOrDetail value code \<longleftrightarrow> value = code \<or> hasPrefix value (code @ '':'')"

definition failureCodeFromText :: "goLib \<Rightarrow> string \<Rightarrow> string" where
  "failureCodeFromText L message =
     (let value = toLower L (trimSpace message) in
      if codeOrDetail value FailureExecutionStateAmbiguous then FailureExecutionStateAmbiguous
      else if codeOrDetail value FailureAdapterRateLimited then FailureAdapterRateLimited
      else if codeOrDetail value FailureAdapterTimeout then FailureAdapterTimeout
      else if codeOrDetail value FailureAdapterAutomation then FailureAdapterAutomation
      else if codeOrDetail value FailureCostBudgetExceeded then FailureCostBudgetExceeded
      else if codeOrDetail value FailureCostBudgetUnverifiable then FailureCostBudgetUnverifiable
      else if hasPrefix value ''artifacts_missing:'' \<or> hasPrefix value ''images_missing:''
           \<or> hasPrefix value ''music_missing:'' then FailureArtifactRequirement
      else if hasPrefix value ''provider_not_bound_to_local_route:'' then FailureProviderRouteUnavailable
      else if containsStr value ''worker capacity exceeded'' then FailureWorkerCapacity
      else if containsStr value ''worker is stopping'' then FailureWorkerStopping
      else FailureWorkerExecution)"

definition normalizedWorkerFailureCode :: "goLib \<Rightarrow> string \<Rightarrow> string \<Rightarrow> string" where
  "normalizedWorkerFailureCode L reported message =
     (if message = [] then []
      else if stableFailureCode reported then reported
      else failureCodeFromText L message)"

text \<open>The three causes that \<open>workerFailureCode\<close> recognises through \<open>errors.Is\<close>.\<close>

datatype workerErrorCause = PanickedCause | DeadlineCause | CanceledCause

definition workerFailureCode :: "goLib \<Rightarrow> (string \<times> workerErrorCause set) option \<Rightarrow> string" where
  "workerFailureCode L err =
     (case err of
        None \<Rightarrow> []
      | Some (text, causes) \<Rightarrow>
          (let message = toLower L (trimSpace text) in
           if message = FailureExecutionStateAmbiguous
              \<or> hasPrefix message (FailureExecutionStateAmbiguous @ '':'')
              \<or> hasPrefix message (FailureExecutionStateAmbiguous @ [byteChar 10])
           then FailureExecutionStateAmbiguous
           else if PanickedCause \<in> causes then FailureExecutionStateAmbiguous
           else if DeadlineCause \<in> causes then FailureWorkerExecutionTimeout
           else if CanceledCause \<in> causes then FailureWorkerExecutionCancelled
           else failureCodeFromText L text))"

definition sealedJobFailureMessage :: "string \<Rightarrow> string" where
  "sealedJobFailureMessage failureCode =
     ''sealed job failed: '' @
     (if \<not> stableFailureCode failureCode then FailureWorkerExecution else failureCode)"

lemma failureCodeFromText_stable: "stableFailureCode (failureCodeFromText L m)"
  by (simp add: failureCodeFromText_def Let_def stableFailureCodeList_def)

lemma normalizedWorkerFailureCode_stable:
  "m \<noteq> [] \<Longrightarrow> stableFailureCode (normalizedWorkerFailureCode L r m)"
  by (simp add: normalizedWorkerFailureCode_def failureCodeFromText_stable)

lemma normalizedWorkerFailureCode_idem:
  "m \<noteq> [] \<Longrightarrow> m' \<noteq> [] \<Longrightarrow>
   normalizedWorkerFailureCode L (normalizedWorkerFailureCode L r m) m' =
   normalizedWorkerFailureCode L r m"
  by (simp add: normalizedWorkerFailureCode_def failureCodeFromText_stable)

lemma sealedJobFailureMessage_nonempty [simp]: "sealedJobFailureMessage c \<noteq> []"
  by (simp add: sealedJobFailureMessage_def)

end
