(* ===== verification/Job_Queue.thy ===== *)
theory Job_Queue
  imports Failure_Codes
begin

text \<open>
  The durable queue index (\<open>internal/cluster/store.go\<close>, \<open>queueKey\<close> to
  \<open>adjustQueueCounter\<close>): the queue bucket orders small entries by priority, creation time and
  job id; a second bucket finds the entry of a job; a third keeps the total and one counter per
  producer. \<open>queueInv\<close> says that the three agree. The lemmas show that the two operations,
  \<open>putQueueEntry\<close> and \<open>deleteQueueEntry\<close>, keep it and act on the index as an update and a
  removal, and that a repair from the jobs (\<open>ensureQueueIndex\<close>) establishes it.
\<close>

section \<open>Keys and counters\<close>

definition alphaNumeric :: "nat \<Rightarrow> bool" where
  "alphaNumeric c \<longleftrightarrow> (97 \<le> c \<and> c \<le> 122) \<or> (65 \<le> c \<and> c \<le> 90) \<or> (48 \<le> c \<and> c \<le> 57)"

definition validJobID :: "string \<Rightarrow> bool" where
  "validJobID value \<longleftrightarrow>
     1 \<le> length value \<and> length value \<le> 128 \<and> \<not> containsStr value ''..''
     \<and> alphaNumeric (byte (hd value))
     \<and> list_all (\<lambda>c. alphaNumeric (byte c) \<or> c = CHR ''.'' \<or> c = CHR ''_'' \<or> c = CHR ''-'') (tl value)"

definition queueKey :: "job \<Rightarrow> string" where
  "queueKey job = padDecimal 3 (wrap64 (100 - job_Priority job)) @ '':'' @
     padDecimal 20 (unixNano (job_CreatedAt job)) @ '':'' @ job_ID job"

definition queueTotalCounterKey :: string where "queueTotalCounterKey = [byteChar 0]"

definition queueOwnerCounterKey :: "string \<Rightarrow> string" where
  "queueOwnerCounterKey owner = byteChar 1 # owner"

definition queueCounter :: "u64 cell bucket \<Rightarrow> string \<Rightarrow> int result" where
  "queueCounter b key =
     (case bget b key of
        None \<Rightarrow> Inr 0
      | Some Garbled \<Rightarrow> Inl (ErrText ''durable queue counter is invalid'')
      | Some (Val count) \<Rightarrow>
          (if count > 1000000 then Inl (ErrText ''durable queue counter exceeds the supported maximum'')
           else Inr (uint count)))"

definition adjustQueueCounter :: "string \<Rightarrow> int \<Rightarrow> u64 cell bucket \<Rightarrow> u64 cell bucket result" where
  "adjustQueueCounter key delta b =
     bindE (queueCounter b key) (\<lambda>current.
       let next = current + delta in
       if next < 0 \<or> next > 1000000
       then Inl (ErrText ''durable queue counter would leave the supported range'')
       else if next = 0 then Inr (bdelete key b)
       else Inr (bput key (Val (toUint64 next)) b))"

section \<open>Entries\<close>

definition queueEntryOf :: "job \<Rightarrow> queueEntry" where
  "queueEntryOf job = \<lparr>qe_JobID = job_ID job, qe_OwnerSubject = job_OwnerSubject job,
     qe_Priority = job_Priority job, qe_Requirements = persistRequirements (job_Requirements job),
     qe_PolicyDecision = job_PolicyDecision job, qe_AssignedNode = job_AssignedNode job,
     qe_Sealed = (job_SealedPayload job \<noteq> None), qe_PoolAuthorized = (job_PoolAuthorization job \<noteq> None)\<rparr>"

definition bareQueueEntry :: "string \<Rightarrow> queueEntry" where
  "bareQueueEntry jobID = \<lparr>qe_JobID = jobID, qe_OwnerSubject = [], qe_Priority = 0,
     qe_Requirements = zeroRequirements, qe_PolicyDecision = zeroPolicy, qe_AssignedNode = [],
     qe_Sealed = False, qe_PoolAuthorized = False\<rparr>"

definition queueEntryFromJob :: "job cell \<Rightarrow> (queueEntry \<times> string) result" where
  "queueEntryFromJob raw =
     (case raw of Garbled \<Rightarrow> Inl ErrDecode | Val job \<Rightarrow> Inr (queueEntryOf job, job_Status job))"

definition checkQueueEntry :: "queueEntry \<Rightarrow> queueEntry result" where
  "checkQueueEntry entry =
     (if \<not> validJobID (qe_JobID entry) \<or> qe_Priority entry < - 100 \<or> qe_Priority entry > 100
      then Inl (ErrText ''queue entry is invalid'') else Inr entry)"

definition queueEntryFromValue :: "job cell bucket \<Rightarrow> queueValue \<Rightarrow> queueEntry result" where
  "queueEntryFromValue jobs value =
     (case value of
        QGarbled \<Rightarrow> Inl ErrDecode
      | QEntry entry \<Rightarrow> checkQueueEntry entry
      | QLegacy jobID \<Rightarrow>
          (case bget jobs jobID of
             None \<Rightarrow> Inr (bareQueueEntry jobID)
           | Some raw \<Rightarrow> bindE (queueEntryFromJob raw) (\<lambda>(entry, _). checkQueueEntry entry)))"

definition queueCounts :: "store \<Rightarrow> string \<Rightarrow> (int \<times> int) result" where
  "queueCounts st owner =
     bindE (queueCounter (st_queueCounts st) queueTotalCounterKey) (\<lambda>total.
     if owner = [] then Inr (total, 0)
     else bindE (queueCounter (st_queueCounts st) (queueOwnerCounterKey owner)) (\<lambda>owned.
          Inr (total, owned)))"

section \<open>Put and delete\<close>

definition putQueueEntry :: "job \<Rightarrow> store \<Rightarrow> store result" where
  "putQueueEntry job st =
     (let key = queueKey job; value = QEntry (queueEntryOf job) in
      bindE
        (case bget (st_queueJobIndex st) (job_ID job) of
           Some previousKey \<Rightarrow>
             (case bget (st_queue st) previousKey of
                None \<Rightarrow> Inl (ErrText ''queue job index points to a missing entry'')
              | Some previousValue \<Rightarrow>
                  bindE (queueEntryFromValue (st_jobs st) previousValue) (\<lambda>previous.
                  let st = (if previousKey \<noteq> key then st\<lparr>st_queue := bdelete previousKey (st_queue st)\<rparr> else st)
                  in if qe_OwnerSubject previous \<noteq> job_OwnerSubject job
                     then bindE (adjustQueueCounter (queueOwnerCounterKey (qe_OwnerSubject previous)) (- 1) (st_queueCounts st))
                            (\<lambda>counts. bindE (adjustQueueCounter (queueOwnerCounterKey (job_OwnerSubject job)) 1 counts)
                            (\<lambda>counts. Inr (st\<lparr>st_queueCounts := counts\<rparr>)))
                     else Inr st))
         | None \<Rightarrow>
             bindE (adjustQueueCounter queueTotalCounterKey 1 (st_queueCounts st)) (\<lambda>counts.
             bindE (adjustQueueCounter (queueOwnerCounterKey (job_OwnerSubject job)) 1 counts) (\<lambda>counts.
             Inr (st\<lparr>st_queueCounts := counts\<rparr>))))
        (\<lambda>st. Inr (st\<lparr>st_queue := bput key value (st_queue st),
                      st_queueJobIndex := bput (job_ID job) key (st_queueJobIndex st)\<rparr>)))"

text \<open>An index entry whose queue value is missing reads as the empty byte string, that is as a legacy
  value with an empty job id.\<close>

definition deleteQueueEntry :: "string \<Rightarrow> store \<Rightarrow> store result" where
  "deleteQueueEntry jobID st =
     (case bget (st_queueJobIndex st) jobID of
        None \<Rightarrow> Inr st
      | Some key \<Rightarrow>
          bindE (queueEntryFromValue (st_jobs st)
                   (case bget (st_queue st) key of None \<Rightarrow> QLegacy [] | Some v \<Rightarrow> v)) (\<lambda>entry.
          if qe_JobID entry \<noteq> jobID then Inl (ErrText ''queue job index does not match its entry'')
          else bindE (adjustQueueCounter queueTotalCounterKey (- 1) (st_queueCounts st)) (\<lambda>counts.
               bindE (adjustQueueCounter (queueOwnerCounterKey (qe_OwnerSubject entry)) (- 1) counts) (\<lambda>counts.
               Inr (st\<lparr>st_queue := bdelete key (st_queue st),
                       st_queueJobIndex := bdelete jobID (st_queueJobIndex st),
                       st_queueCounts := counts\<rparr>)))))"

section \<open>Repair at start-up\<close>

text \<open>One entry of the queue during \<open>ensureQueueIndex\<close>: kept with the projection of its job when
  that job exists and is queued, dropped otherwise.\<close>

definition migrateQueueEntry :: "job cell bucket \<Rightarrow> string \<times> queueValue \<Rightarrow> queueValue bucket \<Rightarrow> queueValue bucket result" where
  "migrateQueueEntry jobs kv acc =
     bindE (case snd kv of QGarbled \<Rightarrow> Inl ErrDecode | QEntry e \<Rightarrow> Inr (qe_JobID e) | QLegacy jobID \<Rightarrow> Inr jobID)
       (\<lambda>entryID. case bget jobs entryID of
          None \<Rightarrow> Inr acc
        | Some raw \<Rightarrow> bindE (queueEntryFromJob raw) (\<lambda>(entry, status).
            Inr (if status \<noteq> JobQueued then acc else bput (fst kv) (QEntry entry) acc)))"

definition indexQueueEntry :: "string \<times> queueValue \<Rightarrow> store \<Rightarrow> store result" where
  "indexQueueEntry kv st =
     bindE (queueEntryFromValue (st_jobs st) (snd kv)) (\<lambda>entry.
     bindE (adjustQueueCounter queueTotalCounterKey 1 (st_queueCounts st)) (\<lambda>counts.
     bindE (adjustQueueCounter (queueOwnerCounterKey (qe_OwnerSubject entry)) 1 counts) (\<lambda>counts.
     Inr (st\<lparr>st_queueJobIndex := bput (qe_JobID entry) (fst kv) (st_queueJobIndex st),
             st_queueCounts := counts\<rparr>))))"

definition ensureQueueIndex :: "bool \<Rightarrow> store \<Rightarrow> store result" where
  "ensureQueueIndex current st =
     (if current then Inr st
      else bindE (foldE (migrateQueueEntry (st_jobs st)) (st_queue st) []) (\<lambda>queue.
           foldE indexQueueEntry queue
             (st\<lparr>st_queue := queue, st_queueJobIndex := [], st_queueCounts := []\<rparr>)))"

section \<open>Agreement of the three buckets\<close>

abbreviation queueSize :: "(queueEntry \<Rightarrow> bool) \<Rightarrow> store \<Rightarrow> nat" where
  "queueSize p st \<equiv> bolt.countE (\<lambda>_ v. case v of QEntry e \<Rightarrow> p e | _ \<Rightarrow> False) (st_queue st)"

definition counterOK :: "u64 cell bucket \<Rightarrow> string \<Rightarrow> nat \<Rightarrow> bool" where
  "counterOK b key n \<longleftrightarrow> n \<le> 1000000 \<and> bget b key = (if n = 0 then None else Some (Val (of_nat n)))"

text \<open>The id at the end of a queue key.\<close>

definition keyJobID :: "string \<Rightarrow> string" where
  "keyJobID key = rev (takeWhile (\<lambda>c. c \<noteq> CHR '':'') (rev key))"

definition goodEntry :: "queueEntry \<Rightarrow> bool" where
  "goodEntry e \<longleftrightarrow> validJobID (qe_JobID e) \<and> - 100 \<le> qe_Priority e \<and> qe_Priority e \<le> 100"

definition queueFiled :: "store \<Rightarrow> string \<Rightarrow> queueValue \<Rightarrow> bool" where
  "queueFiled st k v =
     (case v of
        QEntry e \<Rightarrow> goodEntry e \<and> keyJobID k = qe_JobID e \<and> bget (st_queueJobIndex st) (qe_JobID e) = Some k
      | _ \<Rightarrow> False)"

definition queueIndexed :: "store \<Rightarrow> string \<Rightarrow> string \<Rightarrow> bool" where
  "queueIndexed st i k = (case bget (st_queue st) k of Some (QEntry e) \<Rightarrow> qe_JobID e = i | _ \<Rightarrow> False)"

definition queueInv :: "store \<Rightarrow> bool" where
  "queueInv st \<longleftrightarrow>
     bordered (st_queue st) \<and> bordered (st_queueJobIndex st) \<and> bordered (st_queueCounts st)
     \<and> (\<forall>k v. bget (st_queue st) k = Some v \<longrightarrow> queueFiled st k v)
     \<and> (\<forall>i k. bget (st_queueJobIndex st) i = Some k \<longrightarrow> queueIndexed st i k)
     \<and> counterOK (st_queueCounts st) queueTotalCounterKey (queueSize (\<lambda>_. True) st)
     \<and> (\<forall>owner. counterOK (st_queueCounts st) (queueOwnerCounterKey owner)
          (queueSize (\<lambda>e. qe_OwnerSubject e = owner) st))"

text \<open>The queue as the index shows it: the entry filed under a job id.\<close>

definition queuedEntry :: "store \<Rightarrow> string \<Rightarrow> (string \<times> queueEntry) option" where
  "queuedEntry st i =
     (case bget (st_queueJobIndex st) i of
        None \<Rightarrow> None
      | Some k \<Rightarrow> (case bget (st_queue st) k of Some (QEntry e) \<Rightarrow> Some (k, e) | _ \<Rightarrow> None))"

section \<open>Keys\<close>

lemma validJobID_no_colon: "validJobID s \<Longrightarrow> CHR '':'' \<notin> set s"
proof
  assume v: "validJobID s" and c: "CHR '':'' \<in> set s"
  have s: "s \<noteq> []" using v by (auto simp: validJobID_def)
  then have "hd s \<noteq> CHR '':''"
    using v by (auto simp: validJobID_def alphaNumeric_def)
  moreover have "CHR '':'' \<notin> set (tl s)"
    using v by (auto simp: validJobID_def alphaNumeric_def list_all_iff)
  ultimately show False using c s by (metis list.collapse set_ConsD)
qed

lemma keyJobID_queueKey: "validJobID (job_ID j) \<Longrightarrow> keyJobID (queueKey j) = job_ID j"
proof -
  assume "validJobID (job_ID j)"
  then have nc: "CHR '':'' \<notin> set (rev (job_ID j))" by (simp add: validJobID_no_colon)
  define pre where "pre = padDecimal 3 (wrap64 (100 - job_Priority j)) @ '':'' @
     padDecimal 20 (unixNano (job_CreatedAt j))"
  have "rev (queueKey j) = rev (job_ID j) @ CHR '':'' # rev pre"
    by (simp add: queueKey_def pre_def)
  moreover have "takeWhile (\<lambda>c. c \<noteq> CHR '':'') (rev (job_ID j) @ CHR '':'' # rev pre) = rev (job_ID j)"
    using nc by (subst takeWhile_append2) auto
  ultimately show ?thesis by (simp add: keyJobID_def)
qed

lemma counter_keys_differ [simp]:
  "queueOwnerCounterKey a \<noteq> queueTotalCounterKey" "queueTotalCounterKey \<noteq> queueOwnerCounterKey a"
  by (simp_all add: queueOwnerCounterKey_def queueTotalCounterKey_def)

lemma queueOwnerCounterKey_inj [simp]: "queueOwnerCounterKey a = queueOwnerCounterKey b \<longleftrightarrow> a = b"
  by (simp add: queueOwnerCounterKey_def)

section \<open>Counters\<close>

lemma queueCounter_OK: "counterOK b key n \<Longrightarrow> queueCounter b key = Inr (int n)"
proof -
  assume ok: "counterOK b key n"
  then have n: "n \<le> 1000000" by (simp add: counterOK_def)
  have u: "unat (of_nat n :: u64) = n"
    using n by (simp add: unsigned_of_nat take_bit_nat_eq_self)
  then have "\<not> (1000000 :: u64) < of_nat n" using n by (simp add: word_less_nat_alt)
  moreover have "uint (of_nat n :: u64) = int n" using u by (metis uint_nat)
  ultimately show ?thesis using ok by (simp add: counterOK_def queueCounter_def)
qed

lemma adjust_up:
  assumes "counterOK b key n" and "adjustQueueCounter key 1 b = Inr b'"
  shows "counterOK b' key (Suc n) \<and> (\<forall>k. k \<noteq> key \<longrightarrow> bget b' k = bget b k) \<and> (bordered b \<longrightarrow> bordered b')"
  using assms queueCounter_OK [OF assms(1)]
  by (auto simp: adjustQueueCounter_def Let_def counterOK_def bucket_simps toUint64_def bucket_ordered
      split: if_splits)

lemma adjust_up_ok:
  "counterOK b key n \<Longrightarrow> n < 1000000 \<Longrightarrow> \<exists>b'. adjustQueueCounter key 1 b = Inr b'"
  by (simp add: adjustQueueCounter_def queueCounter_OK Let_def)

lemma adjust_down:
  assumes "counterOK b key (Suc n)"
  shows "\<exists>b'. adjustQueueCounter key (- 1) b = Inr b' \<and> counterOK b' key n
    \<and> (\<forall>k. k \<noteq> key \<longrightarrow> bget b' k = bget b k) \<and> (bordered b \<longrightarrow> bordered b')"
  using assms queueCounter_OK [OF assms]
  by (auto simp: adjustQueueCounter_def Let_def counterOK_def bucket_simps toUint64_def bucket_ordered)

lemma counterOK_cong: "bget b k = bget b' k \<Longrightarrow> counterOK b k n = counterOK b' k n"
  by (simp add: counterOK_def)

section \<open>Reading an entry\<close>

lemma checkQueueEntry_good: "checkQueueEntry e = (if goodEntry e then Inr e else Inl (ErrText ''queue entry is invalid''))"
  by (auto simp: checkQueueEntry_def goodEntry_def)

lemma goodEntry_queueEntryOf:
  "goodEntry (queueEntryOf j) \<longleftrightarrow> validJobID (job_ID j) \<and> - 100 \<le> job_Priority j \<and> job_Priority j \<le> 100"
  by (simp add: goodEntry_def queueEntryOf_def)

lemma queueEntryOf_fields [simp]:
  "qe_JobID (queueEntryOf j) = job_ID j"
  "qe_OwnerSubject (queueEntryOf j) = job_OwnerSubject j"
  "qe_Priority (queueEntryOf j) = job_Priority j"
  by (simp_all add: queueEntryOf_def)

lemma queueInv_entry:
  "queueInv st \<Longrightarrow> bget (st_queue st) k = Some v \<Longrightarrow>
   \<exists>e. v = QEntry e \<and> goodEntry e \<and> keyJobID k = qe_JobID e \<and> bget (st_queueJobIndex st) (qe_JobID e) = Some k"
proof -
  assume "queueInv st" "bget (st_queue st) k = Some v"
  then have "queueFiled st k v" unfolding queueInv_def by blast
  then show ?thesis by (cases v) (simp_all add: queueFiled_def)
qed

lemma queueInv_index:
  "queueInv st \<Longrightarrow> bget (st_queueJobIndex st) i = Some k \<Longrightarrow>
   \<exists>e. bget (st_queue st) k = Some (QEntry e) \<and> qe_JobID e = i \<and> goodEntry e \<and> keyJobID k = i"
proof -
  assume inv: "queueInv st" and "bget (st_queueJobIndex st) i = Some k"
  then have "queueIndexed st i k" unfolding queueInv_def by blast
  then obtain e where "bget (st_queue st) k = Some (QEntry e)" "qe_JobID e = i"
    by (auto simp: queueIndexed_def split: option.splits queueValue.splits)
  with queueInv_entry [OF inv, of k] show ?thesis by auto
qed

lemma queuedEntry_index:
  "queueInv st \<Longrightarrow> queuedEntry st i = None \<longleftrightarrow> bget (st_queueJobIndex st) i = None"
  by (auto simp: queuedEntry_def dest: queueInv_index split: option.splits queueValue.splits)

section \<open>The two operations\<close>

text \<open>Filing a job that has no entry: the common step of \<open>putQueueEntry\<close> and of the repair.\<close>

lemma queueInv_file:
  assumes inv: "queueInv st" and good: "goodEntry e" and kid: "keyJobID key = qe_JobID e"
    and new: "bget (st_queueJobIndex st) (qe_JobID e) = None"
    and c1: "adjustQueueCounter queueTotalCounterKey 1 (st_queueCounts st) = Inr c1"
    and c2: "adjustQueueCounter (queueOwnerCounterKey (qe_OwnerSubject e)) 1 c1 = Inr c2"
  shows "queueInv (st\<lparr>st_queueCounts := c2, st_queue := bput key (QEntry e) (st_queue st),
        st_queueJobIndex := bput (qe_JobID e) key (st_queueJobIndex st)\<rparr>)"
proof -
  let ?o = "queueOwnerCounterKey (qe_OwnerSubject e)"
  define st' where st': "st' = st\<lparr>st_queueCounts := c2, st_queue := bput key (QEntry e) (st_queue st),
        st_queueJobIndex := bput (qe_JobID e) key (st_queueJobIndex st)\<rparr>"
  have free: "bget (st_queue st) key = None"
    using queueInv_entry [OF inv, of key] kid new
    by (cases "bget (st_queue st) key") auto
  have ord: "bordered (st_queue st)" "bordered (st_queueJobIndex st)" "bordered (st_queueCounts st)"
    using inv by (simp_all add: queueInv_def)
  have size: "queueSize p st' = queueSize p st + (if p e then 1 else 0)" for p
    using bolt.count_put_new [OF ord(1) free] by (simp add: st')
  have total: "counterOK (st_queueCounts st) queueTotalCounterKey (queueSize (\<lambda>_. True) st)"
    and owned: "\<And>owner. counterOK (st_queueCounts st) (queueOwnerCounterKey owner)
          (queueSize (\<lambda>d. qe_OwnerSubject d = owner) st)"
    using inv by (simp_all add: queueInv_def)
  note up1 = adjust_up [OF total c1]
  have owned1: "counterOK c1 ?o (queueSize (\<lambda>d. qe_OwnerSubject d = qe_OwnerSubject e) st)"
    using owned [of "qe_OwnerSubject e"] up1 by (simp add: counterOK_cong [of c1 _ "st_queueCounts st"])
  note up2 = adjust_up [OF owned1 c2]
  have "counterOK c2 queueTotalCounterKey (queueSize (\<lambda>_. True) st')"
    using up1 up2 by (simp add: size counterOK_cong [of c2 _ c1])
  moreover have "counterOK c2 (queueOwnerCounterKey owner) (queueSize (\<lambda>d. qe_OwnerSubject d = owner) st')" for owner
  proof (cases "owner = qe_OwnerSubject e")
    case True
    show ?thesis unfolding True using up2 by (simp add: size)
  next
    case False
    then have "bget c2 (queueOwnerCounterKey owner) = bget (st_queueCounts st) (queueOwnerCounterKey owner)"
      using up1 up2 by simp
    then show ?thesis using owned [of owner] False by (auto simp: size counterOK_def)
  qed
  moreover have "bordered c2" using up1 up2 ord(3) by simp
  moreover have "bget (st_queue st') x = Some v \<Longrightarrow> queueFiled st' x v" for x v
    using queueInv_entry [OF inv, of x v] good new kid
    by (auto simp: queueFiled_def st' bucket_simps split: if_splits)
  moreover have "bget (st_queueJobIndex st') x = Some y \<Longrightarrow> queueIndexed st' x y" for x y
    using queueInv_index [OF inv, of x y] free
    by (auto simp: queueIndexed_def st' bucket_simps split: if_splits)
  ultimately have "queueInv st'"
    using ord unfolding queueInv_def by (simp add: st' bucket_ordered)
  then show ?thesis by (simp add: st')
qed

lemma putQueueEntry_new:
  assumes inv: "queueInv st" and good: "goodEntry (queueEntryOf job)"
    and new: "bget (st_queueJobIndex st) (job_ID job) = None"
    and put: "putQueueEntry job st = Inr st'"
  shows "queueInv st' \<and> st_queue st' = bput (queueKey job) (QEntry (queueEntryOf job)) (st_queue st)
    \<and> st_queueJobIndex st' = bput (job_ID job) (queueKey job) (st_queueJobIndex st)"
proof -
  from put new obtain c1 c2 where
    c1: "adjustQueueCounter queueTotalCounterKey 1 (st_queueCounts st) = Inr c1" and
    c2: "adjustQueueCounter (queueOwnerCounterKey (job_OwnerSubject job)) 1 c1 = Inr c2" and
    st': "st' = st\<lparr>st_queueCounts := c2, st_queue := bput (queueKey job) (QEntry (queueEntryOf job)) (st_queue st),
        st_queueJobIndex := bput (job_ID job) (queueKey job) (st_queueJobIndex st)\<rparr>"
    by (auto simp: putQueueEntry_def Let_def result_simps)
  have kid: "keyJobID (queueKey job) = job_ID job"
    using good by (simp add: keyJobID_queueKey goodEntry_queueEntryOf)
  show ?thesis
    using queueInv_file [OF inv good _ _ c1, of "queueKey job" c2] kid new c2 by (simp add: st')
qed

lemma deleteQueueEntry_absent:
  "bget (st_queueJobIndex st) i = None \<Longrightarrow> deleteQueueEntry i st = Inr st"
  by (simp add: deleteQueueEntry_def)

lemma deleteQueueEntry_present:
  assumes inv: "queueInv st" and idx: "bget (st_queueJobIndex st) i = Some k"
  shows "\<exists>counts. deleteQueueEntry i st = Inr (st\<lparr>st_queue := bdelete k (st_queue st),
      st_queueJobIndex := bdelete i (st_queueJobIndex st), st_queueCounts := counts\<rparr>)
    \<and> queueInv (st\<lparr>st_queue := bdelete k (st_queue st),
      st_queueJobIndex := bdelete i (st_queueJobIndex st), st_queueCounts := counts\<rparr>)"
proof -
  from queueInv_index [OF inv idx] obtain e where e: "bget (st_queue st) k = Some (QEntry e)"
    "qe_JobID e = i" "goodEntry e" by auto
  let ?o = "queueOwnerCounterKey (qe_OwnerSubject e)"
  have ord: "bordered (st_queue st)" "bordered (st_queueJobIndex st)" "bordered (st_queueCounts st)"
    using inv by (simp_all add: queueInv_def)
  let ?q = "st\<lparr>st_queue := bdelete k (st_queue st)\<rparr>"
  have size: "queueSize p ?q + (if p e then 1 else 0) = queueSize p st" for p
    using bolt.count_delete [OF ord(1) e(1), of "\<lambda>_ v. case v of QEntry e \<Rightarrow> p e | _ \<Rightarrow> False"] by simp
  have total: "counterOK (st_queueCounts st) queueTotalCounterKey (Suc (queueSize (\<lambda>_. True) ?q))"
    using inv size [of "\<lambda>_. True"] by (simp add: queueInv_def)
  from adjust_down [OF total] obtain c1 where
    c1: "adjustQueueCounter queueTotalCounterKey (- 1) (st_queueCounts st) = Inr c1"
    "counterOK c1 queueTotalCounterKey (queueSize (\<lambda>_. True) ?q)"
    "\<forall>x. x \<noteq> queueTotalCounterKey \<longrightarrow> bget c1 x = bget (st_queueCounts st) x" "bordered c1"
    using ord(3) by auto
  have owned: "counterOK (st_queueCounts st) (queueOwnerCounterKey owner)
      (queueSize (\<lambda>x. qe_OwnerSubject x = owner) st)" for owner
    using inv by (simp add: queueInv_def)
  have "counterOK c1 ?o (Suc (queueSize (\<lambda>x. qe_OwnerSubject x = qe_OwnerSubject e) ?q))"
    using owned [of "qe_OwnerSubject e"] size [of "\<lambda>x. qe_OwnerSubject x = qe_OwnerSubject e"] c1(3)
    by (simp add: counterOK_cong [of c1 _ "st_queueCounts st"])
  from adjust_down [OF this] obtain c2 where
    c2: "adjustQueueCounter ?o (- 1) c1 = Inr c2"
    "counterOK c2 ?o (queueSize (\<lambda>x. qe_OwnerSubject x = qe_OwnerSubject e) ?q)"
    "\<forall>x. x \<noteq> ?o \<longrightarrow> bget c2 x = bget c1 x" "bordered c2"
    using c1(4) by auto
  let ?st = "st\<lparr>st_queue := bdelete k (st_queue st),
      st_queueJobIndex := bdelete i (st_queueJobIndex st), st_queueCounts := c2\<rparr>"
  have "deleteQueueEntry i st = Inr ?st"
    using idx e c1(1) c2(1)
    by (simp add: deleteQueueEntry_def queueEntryFromValue_def checkQueueEntry_good)
  moreover have "counterOK c2 queueTotalCounterKey (queueSize (\<lambda>_. True) ?q)"
    using c1(2) c2(3) by (simp add: counterOK_cong [of c2 _ c1])
  moreover have "counterOK c2 (queueOwnerCounterKey owner) (queueSize (\<lambda>x. qe_OwnerSubject x = owner) ?q)" for owner
  proof (cases "owner = qe_OwnerSubject e")
    case True
    show ?thesis unfolding True using c2(2) by simp
  next
    case False
    then have "bget c2 (queueOwnerCounterKey owner) = bget (st_queueCounts st) (queueOwnerCounterKey owner)"
      using c1(3) c2(3) by simp
    then show ?thesis
      using owned [of owner] size [of "\<lambda>x. qe_OwnerSubject x = owner"] False by (simp add: counterOK_def)
  qed
  moreover have "bget (st_queue ?st) x = Some v \<Longrightarrow> queueFiled ?st x v" for x v
    using queueInv_entry [OF inv, of x v] idx e
    by (auto simp: queueFiled_def bucket_simps split: if_splits)
  moreover have "bget (st_queueJobIndex ?st) x = Some y \<Longrightarrow> queueIndexed ?st x y" for x y
    using queueInv_index [OF inv, of x y] e
    by (auto simp: queueIndexed_def bucket_simps split: if_splits)
  ultimately have "queueInv ?st"
    using ord c2(4) unfolding queueInv_def by (simp add: bucket_ordered)
  with \<open>deleteQueueEntry i st = Inr ?st\<close> show ?thesis by blast
qed


text \<open>A job that is already filed is filed anew under its current key; its owner's counters follow.\<close>

lemma putQueueEntry_existing:
  assumes inv: "queueInv st" and good: "goodEntry (queueEntryOf job)"
    and idx: "bget (st_queueJobIndex st) (job_ID job) = Some k"
    and put: "putQueueEntry job st = Inr st'"
  shows "queueInv st' \<and> queuedEntry st' (job_ID job) = Some (queueKey job, queueEntryOf job)"
proof -
  from queueInv_index [OF inv idx] obtain e where e: "bget (st_queue st) k = Some (QEntry e)"
    "qe_JobID e = job_ID job" "goodEntry e" "keyJobID k = job_ID job" by auto
  have kid: "keyJobID (queueKey job) = job_ID job"
    using good by (simp add: keyJobID_queueKey goodEntry_queueEntryOf)
  have ord: "bordered (st_queue st)" "bordered (st_queueJobIndex st)" "bordered (st_queueCounts st)"
    using inv by (simp_all add: queueInv_def)
  let ?rest = "bdelete k (st_queue st)"
  let ?fin = "bput (queueKey job) (QEntry (queueEntryOf job)) ?rest"
  have others: "bget (st_queue st) (queueKey job) = Some v \<Longrightarrow> queueKey job = k" for v
    using queueInv_entry [OF inv, of "queueKey job" v] kid idx by auto
  have free: "bget ?rest (queueKey job) = None"
  proof (cases "queueKey job = k")
    case True
    show ?thesis unfolding True by (simp add: bget_bdelete)
  next
    case False
    then have "bget (st_queue st) (queueKey job) = None"
      using others by (cases "bget (st_queue st) (queueKey job)") blast+
    then show ?thesis by (simp add: bget_bdelete)
  qed
  from put idx e obtain counts where
    st': "st' = st\<lparr>st_queue := bput (queueKey job) (QEntry (queueEntryOf job))
             (if k \<noteq> queueKey job then ?rest else st_queue st),
        st_queueJobIndex := bput (job_ID job) (queueKey job) (st_queueJobIndex st),
        st_queueCounts := counts\<rparr>" and
    counts: "(if qe_OwnerSubject e \<noteq> job_OwnerSubject job
       then bindE (adjustQueueCounter (queueOwnerCounterKey (qe_OwnerSubject e)) (- 1) (st_queueCounts st))
              (adjustQueueCounter (queueOwnerCounterKey (job_OwnerSubject job)) 1)
       else Inr (st_queueCounts st)) = Inr counts"
    by (auto simp: putQueueEntry_def Let_def result_simps queueEntryFromValue_def checkQueueEntry_good
        split: if_splits)
  have same: "bget (st_queue st') x = bget ?fin x" for x
    by (auto simp: st' bucket_simps)
  have size0: "queueSize p st = bolt.countE (\<lambda>_ v. case v of QEntry e \<Rightarrow> p e | _ \<Rightarrow> False) ?rest + (if p e then 1 else 0)" for p
    using bolt.count_delete [OF ord(1) e(1), of "\<lambda>_ v. case v of QEntry e \<Rightarrow> p e | _ \<Rightarrow> False"] by simp
  have size1: "queueSize p st' = bolt.countE (\<lambda>_ v. case v of QEntry e \<Rightarrow> p e | _ \<Rightarrow> False) ?rest + (if p (queueEntryOf job) then 1 else 0)" for p
    using bolt.count_put_new [OF bordered_bdelete [OF ord(1)] free, of "\<lambda>_ v. case v of QEntry e \<Rightarrow> p e | _ \<Rightarrow> False" "QEntry (queueEntryOf job)"]
    by (simp add: bolt.countE_def same)
  have total: "counterOK (st_queueCounts st) queueTotalCounterKey (queueSize (\<lambda>_. True) st)"
    and owned: "\<And>owner. counterOK (st_queueCounts st) (queueOwnerCounterKey owner)
          (queueSize (\<lambda>e. qe_OwnerSubject e = owner) st)"
    using inv by (simp_all add: queueInv_def)
  have cnt: "counterOK counts queueTotalCounterKey (queueSize (\<lambda>_. True) st') \<and>
      (\<forall>owner. counterOK counts (queueOwnerCounterKey owner) (queueSize (\<lambda>e. qe_OwnerSubject e = owner) st'))
      \<and> bordered counts"
  proof (cases "qe_OwnerSubject e = job_OwnerSubject job")
    case True
    then have "counts = st_queueCounts st" using counts by simp
    then show ?thesis using total owned ord(3) True by (simp add: size0 size1)
  next
    case False
    let ?a = "qe_OwnerSubject e" and ?b = "job_OwnerSubject job"
    have down: "counterOK (st_queueCounts st) (queueOwnerCounterKey ?a)
        (Suc (bolt.countE (\<lambda>_ v. case v of QEntry d \<Rightarrow> qe_OwnerSubject d = ?a | _ \<Rightarrow> False) ?rest))"
      using owned [of ?a] by (simp add: size0)
    from adjust_down [OF down] counts False ord(3) obtain c1 where
      c1: "counterOK c1 (queueOwnerCounterKey ?a)
          (bolt.countE (\<lambda>_ v. case v of QEntry d \<Rightarrow> qe_OwnerSubject d = ?a | _ \<Rightarrow> False) ?rest)"
        "\<forall>x. x \<noteq> queueOwnerCounterKey ?a \<longrightarrow> bget c1 x = bget (st_queueCounts st) x" "bordered c1"
      and c2: "adjustQueueCounter (queueOwnerCounterKey ?b) 1 c1 = Inr counts" by auto
    have "counterOK c1 (queueOwnerCounterKey ?b)
        (bolt.countE (\<lambda>_ v. case v of QEntry d \<Rightarrow> qe_OwnerSubject d = ?b | _ \<Rightarrow> False) ?rest)"
      using owned [of ?b] c1(2) False by (simp add: size0 counterOK_def)
    from adjust_up [OF this c2] have
      up: "counterOK counts (queueOwnerCounterKey ?b)
          (Suc (bolt.countE (\<lambda>_ v. case v of QEntry d \<Rightarrow> qe_OwnerSubject d = ?b | _ \<Rightarrow> False) ?rest))"
        "\<forall>x. x \<noteq> queueOwnerCounterKey ?b \<longrightarrow> bget counts x = bget c1 x" "bordered counts"
      using c1(3) by auto
    have "counterOK counts (queueOwnerCounterKey owner) (queueSize (\<lambda>e. qe_OwnerSubject e = owner) st')" for owner
    proof -
      consider "owner = ?b" | "owner = ?a" | "owner \<noteq> ?a" "owner \<noteq> ?b" by blast
      then show ?thesis
      proof cases
        case 1
        show ?thesis unfolding 1 using up(1) by (simp add: size1)
      next
        case 2
        show ?thesis unfolding 2 using c1(1) up(2) False by (simp add: size1 counterOK_def)
      next
        case 3
        then show ?thesis using owned [of owner] c1(2) up(2) by (simp add: size0 size1 counterOK_def)
      qed
    qed
    moreover have "counterOK counts queueTotalCounterKey (queueSize (\<lambda>_. True) st')"
      using total c1(2) up(2) by (simp add: size0 size1 counterOK_def)
    ultimately show ?thesis using up(3) by simp
  qed
  have "bget (st_queue st') x = Some v \<Longrightarrow> queueFiled st' x v" for x v
    using queueInv_entry [OF inv, of x v] idx good kid
    by (auto simp: queueFiled_def same, auto simp: st' bucket_simps split: if_splits)
  moreover have "bget (st_queueJobIndex st') x = Some y \<Longrightarrow> queueIndexed st' x y" for x y
    using queueInv_index [OF inv, of x y] e(1,2) kid
    by (auto simp: queueIndexed_def same, auto simp: st' bucket_simps split: if_splits)
  ultimately have "queueInv st'"
    using cnt ord unfolding queueInv_def by (simp add: st' bucket_ordered)
  moreover have "queuedEntry st' (job_ID job) = Some (queueKey job, queueEntryOf job)"
    by (simp add: queuedEntry_def st' bucket_simps)
  ultimately show ?thesis by blast
qed

lemma putQueueEntry_new_ok:
  assumes "queueInv st" and "bget (st_queueJobIndex st) (job_ID job) = None"
    and "queueSize (\<lambda>_. True) st < 1000000"
    and "queueSize (\<lambda>e. qe_OwnerSubject e = job_OwnerSubject job) st < 1000000"
  shows "\<exists>st'. putQueueEntry job st = Inr st'"
proof -
  have total: "counterOK (st_queueCounts st) queueTotalCounterKey (queueSize (\<lambda>_. True) st)"
    and owned: "counterOK (st_queueCounts st) (queueOwnerCounterKey (job_OwnerSubject job))
          (queueSize (\<lambda>e. qe_OwnerSubject e = job_OwnerSubject job) st)"
    using assms(1) by (simp_all add: queueInv_def)
  from adjust_up_ok [OF total assms(3)] obtain c1 where
    c1: "adjustQueueCounter queueTotalCounterKey 1 (st_queueCounts st) = Inr c1" by blast
  have "counterOK c1 (queueOwnerCounterKey (job_OwnerSubject job))
          (queueSize (\<lambda>e. qe_OwnerSubject e = job_OwnerSubject job) st)"
    using owned adjust_up [OF total c1] by (simp add: counterOK_def)
  from adjust_up_ok [OF this assms(4)] c1 assms(2) show ?thesis
    by (auto simp: putQueueEntry_def Let_def)
qed

lemma queueCounts_exact:
  "queueInv st \<Longrightarrow> owner \<noteq> [] \<Longrightarrow> queueCounts st owner =
     Inr (int (queueSize (\<lambda>_. True) st), int (queueSize (\<lambda>e. qe_OwnerSubject e = owner) st))"
proof -
  assume inv: "queueInv st" and named: "owner \<noteq> []"
  from inv have "counterOK (st_queueCounts st) queueTotalCounterKey (queueSize (\<lambda>_. True) st)"
    "counterOK (st_queueCounts st) (queueOwnerCounterKey owner) (queueSize (\<lambda>e. qe_OwnerSubject e = owner) st)"
    by (simp_all add: queueInv_def)
  then show ?thesis using named by (simp add: queueCounts_def queueCounter_OK)
qed

section \<open>The contract of the queue\<close>

text \<open>What the job operations rely on: a map from job ids to filed entries that a put updates and
  a delete clears, an invariant both keep, and exact totals.\<close>

locale durable_queue =
  fixes inv :: "'s \<Rightarrow> bool"
    and look :: "'s \<Rightarrow> 'i \<Rightarrow> 'e option"
    and put :: "'j \<Rightarrow> 's \<Rightarrow> 's result"
    and del :: "'i \<Rightarrow> 's \<Rightarrow> 's result"
    and fileable :: "'j \<Rightarrow> bool"
    and jid :: "'j \<Rightarrow> 'i"
    and filed :: "'j \<Rightarrow> 'e"
  assumes put_look: "inv s \<Longrightarrow> fileable j \<Longrightarrow> put j s = Inr s' \<Longrightarrow>
      inv s' \<and> look s' = (look s)(jid j \<mapsto> filed j)"
    and del_look: "inv s \<Longrightarrow> \<exists>s'. del i s = Inr s' \<and> inv s' \<and> look s' = (look s)(i := None)"
begin

lemma del_inv: "inv s \<Longrightarrow> del i s = Inr s' \<Longrightarrow> inv s' \<and> look s' = (look s)(i := None)"
  using del_look [of s i] by auto

lemma del_not_error: "inv s \<Longrightarrow> del i s \<noteq> Inl e"
  using del_look [of s i] by auto

text \<open>Filing a job and removing it leaves the other jobs as they were.\<close>

lemma put_then_del:
  assumes "inv s" and "fileable j" and "put j s = Inr t"
  shows "\<exists>u. del (jid j) t = Inr u \<and> inv u \<and> look u = (look s)(jid j := None)"
  using put_look [OF assms] del_look [of t "jid j"] by auto

end

lemma putQueueEntry_look:
  assumes "queueInv st" and "goodEntry (queueEntryOf job)" and "putQueueEntry job st = Inr st'"
  shows "queueInv st' \<and> queuedEntry st' = (queuedEntry st)(job_ID job \<mapsto> (queueKey job, queueEntryOf job))"
proof (cases "bget (st_queueJobIndex st) (job_ID job)")
  case None
  from putQueueEntry_new [OF assms(1,2) None assms(3)] have inv: "queueInv st'"
    and q: "st_queue st' = bput (queueKey job) (QEntry (queueEntryOf job)) (st_queue st)"
    and ix: "st_queueJobIndex st' = bput (job_ID job) (queueKey job) (st_queueJobIndex st)" by auto
  have kid: "keyJobID (queueKey job) = job_ID job"
    using assms(2) by (simp add: keyJobID_queueKey goodEntry_queueEntryOf)
  have "queuedEntry st' i = ((queuedEntry st)(job_ID job \<mapsto> (queueKey job, queueEntryOf job))) i" for i
  proof (cases "bget (st_queueJobIndex st) i")
    case None
    then show ?thesis by (auto simp: queuedEntry_def q ix bucket_simps)
  next
    case (Some k)
    with queueInv_index [OF assms(1) Some] \<open>bget (st_queueJobIndex st) (job_ID job) = None\<close> kid
    show ?thesis by (auto simp: queuedEntry_def q ix bucket_simps)
  qed
  with inv show ?thesis by blast
next
  case (Some k)
  note idx = Some
  from putQueueEntry_existing [OF assms(1,2) Some assms(3)] have inv: "queueInv st'"
    and new: "queuedEntry st' (job_ID job) = Some (queueKey job, queueEntryOf job)" by auto
  have kid: "keyJobID (queueKey job) = job_ID job"
    using assms(2) by (simp add: keyJobID_queueKey goodEntry_queueEntryOf)
  have shape: "st_queueJobIndex st' = bput (job_ID job) (queueKey job) (st_queueJobIndex st)
    \<and> (\<forall>x. x \<noteq> k \<longrightarrow> x \<noteq> queueKey job \<longrightarrow> bget (st_queue st') x = bget (st_queue st) x)"
    using assms(3) idx
    by (auto simp: putQueueEntry_def Let_def result_simps bucket_simps
        split: option.splits if_splits)
  have "i \<noteq> job_ID job \<Longrightarrow> queuedEntry st' i = queuedEntry st i" for i
  proof (cases "bget (st_queueJobIndex st) i")
    case None
    then show "i \<noteq> job_ID job \<Longrightarrow> ?thesis" using shape by (simp add: queuedEntry_def bucket_simps)
  next
    case (Some y)
    assume ne: "i \<noteq> job_ID job"
    with queueInv_index [OF assms(1) Some] queueInv_index [OF assms(1) idx] kid
    have "y \<noteq> k" "y \<noteq> queueKey job" by auto
    with shape ne Some show ?thesis by (simp add: queuedEntry_def bucket_simps)
  qed
  with new inv show ?thesis by (auto simp: fun_eq_iff)
qed

lemma deleteQueueEntry_look:
  assumes "queueInv st"
  shows "\<exists>st'. deleteQueueEntry i st = Inr st' \<and> queueInv st' \<and> queuedEntry st' = (queuedEntry st)(i := None)"
proof (cases "bget (st_queueJobIndex st) i")
  case None
  then show ?thesis
    using assms by (simp add: deleteQueueEntry_absent queuedEntry_def fun_eq_iff)
next
  case (Some k)
  define after where "after counts = st\<lparr>st_queue := bdelete k (st_queue st),
      st_queueJobIndex := bdelete i (st_queueJobIndex st), st_queueCounts := counts\<rparr>" for counts
  from deleteQueueEntry_present [OF assms Some] obtain counts where
    del: "deleteQueueEntry i st = Inr (after counts)" and inv: "queueInv (after counts)"
    unfolding after_def by blast
  have "queuedEntry (after counts) x = ((queuedEntry st)(i := None)) x" for x
  proof (cases "bget (st_queueJobIndex st) x")
    case None
    then show ?thesis by (simp add: queuedEntry_def after_def bucket_simps)
  next
    case y: (Some y)
    with queueInv_index [OF assms y] queueInv_index [OF assms Some]
    show ?thesis by (auto simp: queuedEntry_def after_def bucket_simps)
  qed
  with del inv show ?thesis by blast
qed

interpretation jq: durable_queue queueInv queuedEntry putQueueEntry deleteQueueEntry
  "\<lambda>j. goodEntry (queueEntryOf j)" job_ID "\<lambda>j. (queueKey j, queueEntryOf j)"
  by unfold_locales (use putQueueEntry_look deleteQueueEntry_look in blast)+

lemma queueInv_empty: "queueInv emptyStore"
  by (simp add: queueInv_def emptyStore_def bucket_simps bolt.countE_def counterOK_def)

section \<open>The order of the keys\<close>

lemma length_natDigits: "0 < w \<Longrightarrow> n < 10 ^ w \<Longrightarrow> length (natDigits n) \<le> w"
proof (induction w arbitrary: n)
  case 0
  then show ?case by simp
next
  case (Suc w)
  show ?case
  proof (cases "n < 10")
    case True
    then show ?thesis by (simp add: natDigits.simps [of n])
  next
    case False
    then have "w \<noteq> 0" using Suc.prems by (cases w) auto
    moreover have "n div 10 < 10 ^ w" using Suc.prems by (simp add: less_mult_imp_div_less mult.commute)
    ultimately have "length (natDigits (n div 10)) \<le> w" using Suc.IH by blast
    then show ?thesis using False by (simp add: natDigits.simps [of n])
  qed
qed

text \<open>Fixed-width decimals compare as the numbers do.\<close>

fun digits :: "nat \<Rightarrow> nat \<Rightarrow> string" where
  "digits 0 n = []"
| "digits (Suc w) n = digits w (n div 10) @ [byteChar (48 + n mod 10)]"

lemma length_digits [simp]: "length (digits w n) = w"
  by (induction w arbitrary: n) auto

lemma digits_zero: "digits w 0 = replicate w (CHR ''0'')"
proof (induction w)
  case 0
  show ?case by simp
next
  case (Suc w)
  have "byteChar 48 = CHR ''0''" by (simp add: char_of_eq_iff)
  with Suc show ?case by (simp add: replicate_append_same del: char_of_def)
qed

lemma digits_natDigits:
  "0 < w \<Longrightarrow> n < 10 ^ w \<Longrightarrow> digits w n = replicate (w - length (natDigits n)) (CHR ''0'') @ natDigits n"
proof (induction w arbitrary: n)
  case 0
  then show ?case by simp
next
  case (Suc w)
  show ?case
  proof (cases "n < 10")
    case True
    then show ?thesis by (simp add: natDigits.simps [of n] digits_zero)
  next
    case False
    then have w: "0 < w" using Suc.prems by (cases w) auto
    have lt: "n div 10 < 10 ^ w" using Suc.prems by (simp add: less_mult_imp_div_less mult.commute)
    show ?thesis
      using Suc.IH [OF w lt] False by (simp add: natDigits.simps [of n])
  qed
qed

lemma padDecimal_digits: "0 < w \<Longrightarrow> 0 \<le> n \<Longrightarrow> n < 10 ^ w \<Longrightarrow> padDecimal w n = digits w (nat n)"
proof -
  assume "0 < w" "0 \<le> n" "n < 10 ^ w"
  moreover have "nat n < 10 ^ w" using \<open>0 \<le> n\<close> \<open>n < 10 ^ w\<close> by (metis nat_less_numeral_power_cancel_iff zero_less_numeral)
  ultimately show ?thesis by (simp add: padDecimal_def Let_def digits_natDigits)
qed

lemma list_less_append_same: "length xs = length ys \<Longrightarrow>
   (xs @ us < ys @ vs) \<longleftrightarrow> (xs < ys \<or> (xs = ys \<and> us < (vs :: 'a::order list)))"
  by (induction xs ys rule: list_induct2) auto

lemma digit_less: "a < 10 \<Longrightarrow> b < 10 \<Longrightarrow> byteChar (48 + a) < byteChar (48 + b) \<longleftrightarrow> a < (b :: nat)"
  by (simp add: less_char_def)

lemma digit_eq: "a < 10 \<Longrightarrow> b < 10 \<Longrightarrow> byteChar (48 + a) = byteChar (48 + b) \<longleftrightarrow> a = (b :: nat)"
  using digit_less [of a b] digit_less [of b a] by (metis less_irrefl linorder_neqE_nat)

lemma list_less_single: "[a] < [b] \<longleftrightarrow> a < (b :: char)"
  by simp

lemma base_ten_less:
  fixes a b r s :: nat
  shows "r < 10 \<Longrightarrow> s < 10 \<Longrightarrow> a * 10 + r < b * 10 + s \<longleftrightarrow> a < b \<or> a = b \<and> r < s"
  by auto

lemma digits_less:
  "m < 10 ^ w \<Longrightarrow> n < 10 ^ w \<Longrightarrow> digits w m < digits w n \<longleftrightarrow> m < n"
  "m < 10 ^ w \<Longrightarrow> n < 10 ^ w \<Longrightarrow> digits w m = digits w n \<longleftrightarrow> m = n"
proof (induction w arbitrary: m n)
  case 0
  { case 1 then show ?case by simp }
  { case 2 then show ?case by simp }
next
  case (Suc w)
  have d: "m div 10 < 10 ^ w" "n div 10 < 10 ^ w" if "m < 10 ^ Suc w" "n < 10 ^ Suc w" for m n :: nat
    using that by (simp_all add: less_mult_imp_div_less mult.commute)
  have e: "m < n \<longleftrightarrow> m div 10 < n div 10 \<or> m div 10 = n div 10 \<and> m mod 10 < n mod 10" for m n :: nat
    using base_ten_less [of "m mod 10" "n mod 10" "m div 10" "n div 10"] by simp
  have eq: "m = n \<longleftrightarrow> m div 10 = n div 10 \<and> m mod 10 = n mod 10" for m n :: nat
    by (metis div_mult_mod_eq)
  { case 1
    note h = Suc.IH [OF d [OF 1]]
    have "m mod 10 < 10" "n mod 10 < 10" by simp_all
    with h digit_less [of "m mod 10" "n mod 10"] show ?case
      by (simp only: e [of m n] digits.simps list_less_append_same length_digits list_less_single) }
  { case 2
    note h = Suc.IH(2) [OF d [OF 2]]
    have "m mod 10 < 10" "n mod 10 < 10" by simp_all
    with h digit_eq [of "m mod 10" "n mod 10"] show ?case
      by (simp only: eq [of m n] digits.simps append1_eq_conv) }
qed


text \<open>the byte order of the queue bucket is the dispatch order: higher priority first, then older
  creation time, then job id.\<close>

theorem queue_key_order:
  assumes "goodEntry (queueEntryOf a)" and "goodEntry (queueEntryOf b)"
    and "0 \<le> unixNano (job_CreatedAt a)" and "0 \<le> unixNano (job_CreatedAt b)"
  shows "queueKey a < queueKey b \<longleftrightarrow>
    job_Priority b < job_Priority a \<or>
    job_Priority a = job_Priority b \<and>
      (unixNano (job_CreatedAt a) < unixNano (job_CreatedAt b) \<or>
       unixNano (job_CreatedAt a) = unixNano (job_CreatedAt b) \<and> job_ID a < job_ID b)"
proof -
  have key: "queueKey j = digits 3 (nat (100 - job_Priority j)) @ '':'' @
      digits 20 (nat (unixNano (job_CreatedAt j))) @ '':'' @ job_ID j
      \<and> nat (100 - job_Priority j) < 10 ^ 3 \<and> nat (unixNano (job_CreatedAt j)) < 10 ^ 20"
    if "goodEntry (queueEntryOf j)" "0 \<le> unixNano (job_CreatedAt j)" for j
  proof -
    have "wrap64 (100 - job_Priority j) = 100 - job_Priority j"
      using that by (intro wrap64_id) (auto simp: goodEntry_queueEntryOf minInt64_def maxInt64_def)
    moreover have "unixNano (job_CreatedAt j) < 10 ^ 20"
      using wrap64_range [of "job_CreatedAt j - 62135596800 * 1000000000"]
      by (simp add: unixNano_def maxInt64_def)
    ultimately show ?thesis
      using that by (auto simp: queueKey_def padDecimal_digits goodEntry_queueEntryOf)
  qed
  note ka = key [OF assms(1,3)] and kb = key [OF assms(2,4)]
  have pa: "nat (100 - job_Priority a) < nat (100 - job_Priority b) \<longleftrightarrow> job_Priority b < job_Priority a"
    "nat (100 - job_Priority a) = nat (100 - job_Priority b) \<longleftrightarrow> job_Priority a = job_Priority b"
    using assms(1,2) by (auto simp: goodEntry_queueEntryOf)
  have ca: "nat (unixNano (job_CreatedAt a)) < nat (unixNano (job_CreatedAt b)) \<longleftrightarrow>
      unixNano (job_CreatedAt a) < unixNano (job_CreatedAt b)"
    "nat (unixNano (job_CreatedAt a)) = nat (unixNano (job_CreatedAt b)) \<longleftrightarrow>
      unixNano (job_CreatedAt a) = unixNano (job_CreatedAt b)"
    using assms(3,4) by auto
  note dl = digits_less [of "nat (100 - job_Priority a)" 3 "nat (100 - job_Priority b)"]
    and dr = digits_less [of "nat (unixNano (job_CreatedAt a))" 20 "nat (unixNano (job_CreatedAt b))"]
  show ?thesis
    using ka kb dl dr
    by (simp only: list_less_append_same length_digits pa ca append_eq_append_conv same_append_eq
        HOL.simp_thms less_list_code list_less_single length_Cons list.size)
      (auto simp: pa ca)
qed

section \<open>The repair\<close>

lemma queueInv_cong:
  assumes "queueInv s" and same: "st_queue t = st_queue s" "st_queueJobIndex t = st_queueJobIndex s"
    "st_queueCounts t = st_queueCounts s"
  shows "queueInv t"
  using assms(1) unfolding queueInv_def queueFiled_def queueIndexed_def same .

lemma queuedEntry_cong:
  assumes same: "st_queue t = st_queue s" "st_queueJobIndex t = st_queueJobIndex s"
  shows "queuedEntry t = queuedEntry s"
  unfolding queuedEntry_def same ..

lemma queuedEntry_iff:
  assumes "queueInv st"
  shows "queuedEntry st i = Some (k, e) \<longleftrightarrow> bget (st_queue st) k = Some (QEntry e) \<and> qe_JobID e = i"
proof
  assume "queuedEntry st i = Some (k, e)"
  then have "bget (st_queueJobIndex st) i = Some k" "bget (st_queue st) k = Some (QEntry e)"
    by (auto simp: queuedEntry_def split: option.splits queueValue.splits)
  with queueInv_index [OF assms, of i k] show "bget (st_queue st) k = Some (QEntry e) \<and> qe_JobID e = i"
    by auto
next
  assume e: "bget (st_queue st) k = Some (QEntry e) \<and> qe_JobID e = i"
  with queueInv_entry [OF assms, of k "QEntry e"] show "queuedEntry st i = Some (k, e)"
    by (auto simp: queuedEntry_def)
qed

fun queueValueID :: "queueValue \<Rightarrow> string" where
  "queueValueID (QEntry e) = qe_JobID e"
| "queueValueID (QLegacy i) = i"
| "queueValueID QGarbled = []"

text \<open>What the repair keeps of a queue value: the entry of its job when that job is queued.\<close>

definition repairedEntry :: "job cell bucket \<Rightarrow> queueValue \<Rightarrow> queueEntry option" where
  "repairedEntry jobs v =
     (case bget jobs (queueValueID v) of
        Some (Val job) \<Rightarrow> (if job_Status job = JobQueued then Some (queueEntryOf job) else None)
      | _ \<Rightarrow> None)"

lemma migrateQueueEntry_step:
  "migrateQueueEntry jobs (k, v) acc = Inr acc' \<Longrightarrow>
   acc' = (case repairedEntry jobs v of None \<Rightarrow> acc | Some e \<Rightarrow> bput k (QEntry e) acc)"
  by (auto simp: migrateQueueEntry_def repairedEntry_def queueEntryFromJob_def result_simps
      split: queueValue.splits option.splits cell.splits if_splits)

lemma migrate_fold:
  assumes "foldE (migrateQueueEntry jobs) xs acc = Inr acc'" and "bordered acc"
  shows "bordered acc' \<and> (\<forall>k w. bget acc' k = Some w \<longrightarrow>
    bget acc k = Some w \<or> (\<exists>v e. (k, v) \<in> set xs \<and> repairedEntry jobs v = Some e \<and> w = QEntry e))"
  using assms
proof (induction xs arbitrary: acc)
  case Nil
  then show ?case by simp
next
  case (Cons x xs)
  obtain k v where x: "x = (k, v)" by force
  from Cons.prems x obtain mid where mid: "migrateQueueEntry jobs (k, v) acc = Inr mid"
    "foldE (migrateQueueEntry jobs) xs mid = Inr acc'" by (auto simp: result_simps)
  have "bordered mid"
    using migrateQueueEntry_step [OF mid(1)] Cons.prems(2)
    by (simp add: bucket_ordered split: option.splits)
  note ih = Cons.IH [OF mid(2) this]
  have "bget mid key = Some w \<Longrightarrow> bget acc key = Some w \<or>
      key = k \<and> (\<exists>e. repairedEntry jobs v = Some e \<and> w = QEntry e)" for key w
    using migrateQueueEntry_step [OF mid(1)] by (auto simp: bucket_simps split: option.splits if_splits)
  with ih show ?case by (simp add: x) blast
qed

lemma migrate_fold_keeps:
  assumes "foldE (migrateQueueEntry jobs) xs acc = Inr acc'" and "distinct (map fst xs)"
    and "\<forall>k \<in> fst ` set xs. bget acc k = None"
    and "(k, v) \<in> set xs" and "repairedEntry jobs v = Some e"
  shows "bget acc' k = Some (QEntry e)"
proof -
  have stays: "foldE (migrateQueueEntry jobs) ys a = Inr b \<Longrightarrow> k \<notin> fst ` set ys \<Longrightarrow> bget b k = bget a k" for ys a b
  proof (induction ys arbitrary: a)
    case (Cons y ys)
    obtain ky vy where y: "y = (ky, vy)" by force
    from Cons.prems y obtain mid where mid: "migrateQueueEntry jobs (ky, vy) a = Inr mid"
      "foldE (migrateQueueEntry jobs) ys mid = Inr b" by (auto simp: result_simps)
    with Cons.IH [OF mid(2)] Cons.prems(2) migrateQueueEntry_step [OF mid(1)] y show ?case
      by (auto simp: bucket_simps split: option.splits)
  qed simp
  from assms(4) obtain us vs where xs: "xs = us @ (k, v) # vs" by (metis split_list)
  from assms(1) obtain a b where b: "migrateQueueEntry jobs (k, v) a = Inr b"
    "foldE (migrateQueueEntry jobs) vs b = Inr acc'" by (auto simp: xs foldE_append result_simps)
  have "k \<notin> fst ` set vs" using assms(2) by (auto simp: xs)
  from stays [OF b(2) this] migrateQueueEntry_step [OF b(1)] assms(5) show ?thesis
    by (simp add: bucket_simps)
qed

lemma bput_last: "\<forall>x \<in> fst ` set b. x < k \<Longrightarrow> bput k v b = b @ [(k, v)]"
  by (induction b) auto

lemma index_fold:
  assumes "foldE indexQueueEntry xs s = Inr s'" and "bordered (done @ xs)"
    and "queueInv (s\<lparr>st_queue := done\<rparr>)"
    and "\<forall>(k, v) \<in> set xs. \<exists>e. v = QEntry e \<and> keyJobID k = qe_JobID e"
    and "distinct (map (keyJobID \<circ> fst) (done @ xs))"
  shows "queueInv (s'\<lparr>st_queue := done @ xs\<rparr>) \<and> st_jobs s' = st_jobs s \<and> st_queue s' = st_queue s"
  using assms
proof (induction xs arbitrary: s "done")
  case Nil
  then show ?case by simp
next
  case (Cons x xs)
  obtain k v where x: "x = (k, v)" by force
  with Cons.prems(4) obtain e where v: "v = QEntry e" and kid: "keyJobID k = qe_JobID e" by auto
  from Cons.prems(1) obtain t where step: "indexQueueEntry (k, QEntry e) s = Inr t" and
    rest: "foldE indexQueueEntry xs t = Inr s'" by (auto simp: x v result_simps)
  from step obtain c1 c2 where
    c1: "adjustQueueCounter queueTotalCounterKey 1 (st_queueCounts s) = Inr c1" and
    c2: "adjustQueueCounter (queueOwnerCounterKey (qe_OwnerSubject e)) 1 c1 = Inr c2" and
    good: "goodEntry e" and
    t: "t = s\<lparr>st_queueJobIndex := bput (qe_JobID e) k (st_queueJobIndex s), st_queueCounts := c2\<rparr>"
    by (auto simp: indexQueueEntry_def result_simps queueEntryFromValue_def checkQueueEntry_good
        split: if_splits)
  have after: "\<forall>y \<in> fst ` set done. y < k"
    using Cons.prems(2) by (auto simp: bordered_def sorted_wrt_append x)
  have ordD: "bordered done" using Cons.prems(2) by (simp add: bordered_def sorted_wrt_append)
  have fresh: "bget (st_queueJobIndex s) (qe_JobID e) = None"
  proof (rule ccontr)
    assume "bget (st_queueJobIndex s) (qe_JobID e) \<noteq> None"
    then obtain y where "bget (st_queueJobIndex s) (qe_JobID e) = Some y" by auto
    with queueInv_index [OF Cons.prems(3), of "qe_JobID e" y] obtain d where
      "bget done y = Some (QEntry d)" "keyJobID y = qe_JobID e" by auto
    then have "(y, QEntry d) \<in> set done" using bordered_get [OF ordD] by blast
    then have "keyJobID y \<in> set (map (keyJobID \<circ> fst) done)" by force
    with Cons.prems(5) \<open>keyJobID y = qe_JobID e\<close> kid show False by (auto simp: x)
  qed
  have "queueInv (t\<lparr>st_queue := done @ [(k, QEntry e)]\<rparr>)"
    by (rule queueInv_cong [OF queueInv_file [OF Cons.prems(3) good kid, of c1 c2]])
      (simp_all add: t fresh c1 c2 bput_last [OF after])
  from Cons.IH [OF rest _ this] Cons.prems(2,4,5) x v show ?case by (simp add: t)
qed

lemma migrated_queue:
  assumes ord: "bordered old" and q: "foldE (migrateQueueEntry jobs) old [] = Inr q"
  shows "bordered q"
    and "bget q k = Some w \<longleftrightarrow>
      (\<exists>v e. bget old k = Some v \<and> repairedEntry jobs v = Some e \<and> w = QEntry e)"
proof -
  note mf = migrate_fold [OF q bordered_Nil]
  then show "bordered q" by simp
  show "bget q k = Some w \<longleftrightarrow>
      (\<exists>v e. bget old k = Some v \<and> repairedEntry jobs v = Some e \<and> w = QEntry e)"
    using mf migrate_fold_keeps [OF q bolt.entries_distinct [OF ord], of k] bordered_get [OF ord]
    by (auto simp: bget_Nil)
qed

text \<open>When the keys end in the ids of their entries, and each id at most once, the rebuilt index and
  counters agree with the migrated queue.\<close>

lemma rebuilt_index:
  assumes "bordered q" and "\<forall>k w. bget q k = Some w \<longrightarrow> (\<exists>e. w = QEntry e \<and> keyJobID k = qe_JobID e)"
    and "inj_on keyJobID (fst ` set q)"
    and ix: "foldE indexQueueEntry q (st\<lparr>st_queue := q, st_queueJobIndex := [], st_queueCounts := []\<rparr>) = Inr st'"
  shows "queueInv st' \<and> st_queue st' = q"
proof -
  have keyed: "\<exists>e. v = QEntry e \<and> keyJobID k = qe_JobID e" if "(k, v) \<in> set q" for k v
    using that assms(2) bordered_get [OF assms(1)] by blast
  have "distinct (map keyJobID (map fst q))"
    using bolt.entries_distinct [OF assms(1)] assms(3) by (simp add: distinct_map comp_inj_on)
  then have dist: "distinct (map (keyJobID \<circ> fst) q)" by simp
  have inv0: "queueInv (st\<lparr>st_queue := [], st_queueJobIndex := [], st_queueCounts := []\<rparr>)"
    by (simp add: queueInv_def bucket_simps bolt.countE_def counterOK_def)
  have "queueInv (st'\<lparr>st_queue := [] @ q\<rparr>) \<and> st_jobs st' = st_jobs st \<and> st_queue st' = q"
    using index_fold [OF ix, of "[]"] assms(1) keyed dist queueInv_cong [OF inv0] by auto
  then show ?thesis by (auto intro: queueInv_cong)
qed

text \<open>C31: the start-up repair rebuilds the index and the counters from the queue and the jobs: when
  it succeeds, the three buckets agree, and the entries are exactly those of the queued jobs that the
  old queue listed.\<close>

theorem queue_repair_establishes_index:
  assumes "bordered (st_queue st)"
    and "\<forall>k v. bget (st_queue st) k = Some v \<longrightarrow> queueValueID v = keyJobID k"
    and "distinct (map (keyJobID \<circ> fst) (st_queue st))"
    and "\<forall>i job. bget (st_jobs st) i = Some (Val job) \<longrightarrow> job_ID job = i"
    and "ensureQueueIndex False st = Inr st'"
  shows "queueInv st' \<and> (\<forall>i k e. queuedEntry st' i = Some (k, e) \<longleftrightarrow>
    (\<exists>v job. bget (st_queue st) k = Some v \<and> queueValueID v = i \<and> bget (st_jobs st) i = Some (Val job)
       \<and> job_Status job = JobQueued \<and> e = queueEntryOf job))"
proof -
  from assms(5) obtain q where
    q: "foldE (migrateQueueEntry (st_jobs st)) (st_queue st) [] = Inr q" and
    ix: "foldE indexQueueEntry q (st\<lparr>st_queue := q, st_queueJobIndex := [], st_queueCounts := []\<rparr>) = Inr st'"
    by (auto simp: ensureQueueIndex_def result_simps)
  note ord = migrated_queue(1) [OF assms(1) q] and look = migrated_queue(2) [OF assms(1) q]
  have entry: "repairedEntry (st_jobs st) v = Some e \<longleftrightarrow> (\<exists>job. bget (st_jobs st) (queueValueID v) = Some (Val job)
      \<and> job_Status job = JobQueued \<and> e = queueEntryOf job)" for v e
    by (auto simp: repairedEntry_def split: option.splits cell.splits)
  have id: "qe_JobID e = queueValueID v" if "repairedEntry (st_jobs st) v = Some e" for v e
    using that assms(4) by (auto simp: entry)
  have "fst ` set q \<subseteq> fst ` set (st_queue st)"
    using look bordered_get [OF assms(1)] bordered_get [OF ord] by (force simp: image_iff)
  moreover have "inj_on keyJobID (fst ` set (st_queue st))"
    using assms(3) by (auto simp: distinct_map inj_on_def)
  ultimately have "inj_on keyJobID (fst ` set q)" by (rule inj_on_subset [rotated])
  moreover have "\<forall>k w. bget q k = Some w \<longrightarrow> (\<exists>e. w = QEntry e \<and> keyJobID k = qe_JobID e)"
    using look id assms(2) by fastforce
  ultimately have inv: "queueInv st'" and qst: "st_queue st' = q"
    using rebuilt_index [OF ord _ _ ix] by auto
  have "queuedEntry st' i = Some (k, e) \<longleftrightarrow>
      (\<exists>v. bget (st_queue st) k = Some v \<and> queueValueID v = i \<and> repairedEntry (st_jobs st) v = Some e)" for i k e
    unfolding queuedEntry_iff [OF inv] qst look using id by auto
  then show ?thesis using inv by (auto simp: entry)
qed

text \<open>C29: filing a job updates the queue at its id and nowhere else, and keeps the buckets in
  agreement.\<close>

theorem queue_put_refines_map_update:
  assumes "queueInv st" and "goodEntry (queueEntryOf job)" and "putQueueEntry job st = Inr st'"
  shows "queueInv st' \<and>
    queuedEntry st' = (queuedEntry st)(job_ID job \<mapsto> (queueKey job, queueEntryOf job))"
  using assms by (rule jq.put_look)

text \<open>C30: removing a job from the queue never fails on an agreeing index, and removes that job
  only.\<close>

theorem queue_delete_refines_map_removal:
  assumes "queueInv st"
  shows "\<exists>st'. deleteQueueEntry jobID st = Inr st' \<and> queueInv st' \<and>
    queuedEntry st' = (queuedEntry st)(jobID := None)"
  using assms by (rule jq.del_look)

text \<open>The counters that admission reads are exact: the total is the number of queue entries, and
  a named producer's counter the number of its entries.\<close>

theorem queue_counts_are_exact:
  assumes "queueInv st" and "owner \<noteq> []"
  shows "queueCounts st owner = Inr
    (int (card {k. \<exists>e. bget (st_queue st) k = Some (QEntry e)}),
     int (card {k. \<exists>e. bget (st_queue st) k = Some (QEntry e) \<and> qe_OwnerSubject e = owner}))"
proof -
  have "{k. \<exists>v. bget (st_queue st) k = Some v \<and> (case v of QEntry e \<Rightarrow> p e | _ \<Rightarrow> False)} =
      {k. \<exists>e. bget (st_queue st) k = Some (QEntry e) \<and> p e}" for p
    by (auto split: queueValue.splits) (metis queueValue.exhaust)
  then show ?thesis using queueCounts_exact [OF assms] by (simp add: bolt.countE_def)
qed

section \<open>Witnesses\<close>

definition witnessJob :: job where
  "witnessJob = zeroJob\<lparr>job_ID := ''job-1'', job_OwnerSubject := ''alice'', job_Status := JobQueued,
     job_Priority := 5, job_CreatedAt := 64000000000 * second\<rparr>"

lemma witnessJob_good: "goodEntry (queueEntryOf witnessJob)"
  by (simp add: goodEntry_queueEntryOf witnessJob_def validJobID_def alphaNumeric_def sublist_code)

lemma witness_filed: "\<exists>st. putQueueEntry witnessJob emptyStore = Inr st"
  by (rule putQueueEntry_new_ok [OF queueInv_empty]) (simp_all add: emptyStore_def bucket_simps bolt.countE_def)

theorem queue_put_refines_map_update_witness:
  "\<exists>st. putQueueEntry witnessJob emptyStore = Inr st \<and> queueInv st \<and>
     queuedEntry st = (queuedEntry emptyStore)(''job-1'' \<mapsto> (queueKey witnessJob, queueEntryOf witnessJob))"
  using witness_filed queue_put_refines_map_update [OF queueInv_empty witnessJob_good]
  by (auto simp: witnessJob_def)

theorem queue_delete_refines_map_removal_witness:
  "\<exists>st st'. putQueueEntry witnessJob emptyStore = Inr st \<and> queuedEntry st ''job-1'' \<noteq> None \<and>
     deleteQueueEntry ''job-1'' st = Inr st' \<and> queuedEntry st' = queuedEntry emptyStore"
proof -
  obtain st where st: "putQueueEntry witnessJob emptyStore = Inr st" using witness_filed by blast
  have "job_ID witnessJob = ''job-1''" by (simp add: witnessJob_def)
  with jq.put_look [OF queueInv_empty witnessJob_good st] have inv: "queueInv st" and
    look: "queuedEntry st = (queuedEntry emptyStore)(''job-1'' \<mapsto> (queueKey witnessJob, queueEntryOf witnessJob))"
    by auto
  have none: "queuedEntry emptyStore ''job-1'' = None" by (simp add: queuedEntry_def emptyStore_def bucket_simps)
  from queue_delete_refines_map_removal [OF inv, of "''job-1''"] obtain st' where
    "deleteQueueEntry ''job-1'' st = Inr st'" "queuedEntry st' = (queuedEntry st)(''job-1'' := None)" by blast
  with st look none show ?thesis by (metis fun_upd_same fun_upd_triv fun_upd_upd option.distinct(1))
qed

theorem queue_counts_are_exact_witness:
  "queueInv emptyStore \<and> queueCounts emptyStore ''alice'' = Inr (0, 0)"
  using queue_counts_are_exact [OF queueInv_empty, of "''alice''"] queueInv_empty
  by (simp add: emptyStore_def bucket_simps)

theorem queue_key_order_witness:
  "queueKey witnessJob < queueKey (witnessJob\<lparr>job_Priority := 4, job_CreatedAt := 63000000000 * second\<rparr>)"
proof -
  have good: "goodEntry (queueEntryOf (witnessJob\<lparr>job_Priority := 4, job_CreatedAt := 63000000000 * second\<rparr>))"
    using witnessJob_good by (simp add: goodEntry_queueEntryOf)
  show ?thesis
    by (subst queue_key_order [OF witnessJob_good good])
      (simp_all add: witnessJob_def unixNano_def wrap64_def second_def)
qed

definition legacyStore :: store where
  "legacyStore = emptyStore\<lparr>st_jobs := [(''job-1'', Val witnessJob)],
     st_queue := [(queueKey witnessJob, QLegacy ''job-1'')]\<rparr>"

theorem queue_repair_establishes_index_witness:
  "\<exists>st. ensureQueueIndex False legacyStore = Inr st \<and> queueInv st \<and>
     queuedEntry st ''job-1'' = Some (queueKey witnessJob, queueEntryOf witnessJob)"
proof -
  have good: "validJobID ''job-1''" using witnessJob_good by (simp add: goodEntry_queueEntryOf witnessJob_def)
  have id: "keyJobID (queueKey witnessJob) = ''job-1''"
    using keyJobID_queueKey [of witnessJob] good by (simp add: witnessJob_def)
  have job: "job_Status witnessJob = JobQueued" "job_ID witnessJob = ''job-1''" by (simp_all add: witnessJob_def)
  have "\<exists>st. ensureQueueIndex False legacyStore = Inr st"
    using witnessJob_good
    by (simp add: ensureQueueIndex_def legacyStore_def emptyStore_def migrateQueueEntry_def bget_def job
        queueEntryFromJob_def indexQueueEntry_def queueEntryFromValue_def checkQueueEntry_good
        adjustQueueCounter_def queueCounter_def queueOwnerCounterKey_def queueTotalCounterKey_def)
  then obtain st where st: "ensureQueueIndex False legacyStore = Inr st" by blast
  have "queueInv st \<and> (\<forall>i k e. queuedEntry st i = Some (k, e) \<longleftrightarrow>
    (\<exists>v job. bget (st_queue legacyStore) k = Some v \<and> queueValueID v = i \<and> bget (st_jobs legacyStore) i = Some (Val job)
       \<and> job_Status job = JobQueued \<and> e = queueEntryOf job))"
    by (rule queue_repair_establishes_index [OF _ _ _ _ st])
      (auto simp: legacyStore_def bordered_def bget_def id job split: if_splits)
  then show ?thesis using st job by (auto simp: legacyStore_def bget_def)
qed

end
