(* ===== verification/Fair_Queue.thy ===== *)
theory Fair_Queue
  imports Job_Queue "HOL-Library.Multiset"
begin

text \<open>
  The dispatch scan of the queue (\<open>internal/cluster/store.go\<close>, \<open>QueuedJobs\<close> to
  \<open>appendFairPriorityTier\<close>): a bounded window of the queue is read from a cursor that wraps
  once, and its jobs are offered tier by tier in decreasing priority, the producers of a tier taking
  turns from the one after the producer served last. The lemmas give the closed form of both loops:
  the window is a prefix of the queue read cyclically from the cursor, and a tier is the round robin
  of its producers' queues.
\<close>

section \<open>Reading the queue\<close>

definition scanLimitOf :: "int \<Rightarrow> int" where
  "scanLimitOf limit = (if limit \<le> 0 \<or> limit > 5000 then 100 else limit)"

fun queuedJobsLoop :: "job cell bucket \<Rightarrow> nat \<Rightarrow> queueValue bucket \<Rightarrow> job list \<Rightarrow> job list result" where
  "queuedJobsLoop jobs limit [] queued = Inr queued"
| "queuedJobsLoop jobs limit ((_, value) # rest) queued =
     (if \<not> length queued < limit then Inr queued
      else bindE (queueEntryFromValue jobs value) (\<lambda>entry.
           bindE (getJSON jobs (qe_JobID entry)) (\<lambda>job.
           queuedJobsLoop jobs limit rest (if job_Status job = JobQueued then queued @ [job] else queued))))"

definition QueuedJobs :: "int \<Rightarrow> store \<Rightarrow> job list result" where
  "QueuedJobs limit st = queuedJobsLoop (st_jobs st) (nat (scanLimitOf limit)) (st_queue st) []"

definition boundedQueueScanSize :: "int \<Rightarrow> int \<Rightarrow> int" where
  "boundedQueueScanSize limit totalCount =
     (let scan = wrap64 (limit * 4);
          scan = (if scan < 256 then 256 else scan);
          scan = (if scan > 20000 then 20000 else scan)
      in if totalCount \<ge> 0 \<and> scan > totalCount then totalCount else scan)"

text \<open>A cursor is the part of the queue it has not passed.\<close>

definition queueCursorAfter :: "queueValue bucket \<Rightarrow> string \<Rightarrow> queueValue bucket" where
  "queueCursorAfter queue afterKey =
     (if afterKey = [] then queue
      else let rest = dropWhile (\<lambda>e. fst e < afterKey) queue;
               rest = (case rest of [] \<Rightarrow> [] | e # later \<Rightarrow> if fst e = afterKey then later else rest)
           in if rest = [] then queue else rest)"

record fairQueueItem =
  item_key :: string
  item_job :: job

definition projectEntry :: "queueEntry \<Rightarrow> job" where
  "projectEntry entry = zeroJob\<lparr>job_ID := qe_JobID entry, job_OwnerSubject := qe_OwnerSubject entry,
     job_Priority := qe_Priority entry, job_Requirements := qe_Requirements entry,
     job_PolicyDecision := qe_PolicyDecision entry, job_AssignedNode := qe_AssignedNode entry,
     job_SealedPayload := (if qe_Sealed entry
        then Some \<lparr>env_Algorithm = [], env_EphemeralPublic = [], env_Nonce = [], env_Ciphertext = []\<rparr> else None),
     job_PoolAuthorization := (if qe_PoolAuthorized entry
        then Some \<lparr>pja_ContractVersion = [], pja_PoolID = [], pja_ExpiresAt = 0, pja_Signature = []\<rparr> else None)\<rparr>"

text \<open>The loop of \<open>collectFairQueueWindow\<close>: the number counts the places left in the window.\<close>

fun collectLoop ::
  "job cell bucket \<Rightarrow> queueValue bucket \<Rightarrow> string \<Rightarrow> string \<Rightarrow> bool \<Rightarrow> nat \<Rightarrow> queueValue bucket \<Rightarrow> fairQueueItem list result" where
  "collectLoop jobs queue start stopAfter wrapped 0 rest = Inr []"
| "collectLoop jobs queue start stopAfter wrapped (Suc n) [] = Inr []"
| "collectLoop jobs queue start stopAfter wrapped (Suc n) ((key, value) # rest) =
     bindE (queueEntryFromValue jobs value) (\<lambda>entry.
       let item = \<lparr>item_key = key, item_job = projectEntry entry\<rparr>;
           wraps = (rest = [] \<and> \<not> wrapped);
           cursor = (if wraps then queue else rest);
           wrapped = (wrapped \<or> wraps)
       in case cursor of
            [] \<Rightarrow> Inr [item]
          | (next, _) # _ \<Rightarrow>
              (if next = start \<or> (wrapped \<and> stopAfter \<noteq> [] \<and> stopAfter < next) then Inr [item]
               else bindE (collectLoop jobs queue start stopAfter wrapped n cursor) (\<lambda>window. Inr (item # window))))"

definition collectFairQueueWindow ::
  "store \<Rightarrow> queueValue bucket \<Rightarrow> int \<Rightarrow> string \<Rightarrow> fairQueueItem list result" where
  "collectFairQueueWindow st cursor scanLimit stopAfter =
     (case cursor of
        [] \<Rightarrow> Inr []
      | (start, _) # _ \<Rightarrow> collectLoop (st_jobs st) (st_queue st) start stopAfter False (nat scanLimit) cursor)"

section \<open>The fair order\<close>

text \<open>The distinct values of a list in the order of their first occurrence.\<close>

fun seenInOrder :: "'a list \<Rightarrow> 'a list \<Rightarrow> 'a list" where
  "seenInOrder seen [] = seen"
| "seenInOrder seen (x # xs) = seenInOrder (if x \<in> set seen then seen else seen @ [x]) xs"

definition rotateOwners :: "string \<Rightarrow> string list \<Rightarrow> string list" where
  "rotateOwners afterOwner owners =
     (if afterOwner \<noteq> [] \<and> length owners > 1
      then (case findIndex (\<lambda>o'. o' = afterOwner) owners of
              None \<Rightarrow> owners
            | Some index \<Rightarrow> drop (index + 1) owners @ take (index + 1) owners)
      else owners)"

fun tierRound :: "nat \<Rightarrow> string list \<Rightarrow> job list \<Rightarrow> (string \<Rightarrow> job list) \<Rightarrow> job list \<times> (string \<Rightarrow> job list)" where
  "tierRound limit [] target byOwner = (target, byOwner)"
| "tierRound limit (owner # owners) target byOwner =
     (case byOwner owner of
        [] \<Rightarrow> tierRound limit owners target byOwner
      | j # js \<Rightarrow>
          (if length (target @ [j]) \<ge> limit then (target @ [j], byOwner(owner := js))
           else tierRound limit owners (target @ [j]) (byOwner(owner := js))))"

text \<open>The outer loop of \<open>appendFairPriorityTier\<close>; \<open>None\<close> when the fuel runs out, which
  \<open>tierLoop_rounds\<close> excludes for the fuel that is given.\<close>

fun tierLoop :: "nat \<Rightarrow> nat \<Rightarrow> string list \<Rightarrow> nat \<Rightarrow> job list \<Rightarrow> (string \<Rightarrow> job list) \<Rightarrow> job list option" where
  "tierLoop fuel limit owners remaining target byOwner =
     (if remaining > 0 \<and> length target < limit
      then (case fuel of
              0 \<Rightarrow> None
            | Suc fuel \<Rightarrow>
                (let (target', byOwner') = tierRound limit owners target byOwner
                 in tierLoop fuel limit owners (remaining - (length target' - length target)) target' byOwner'))
      else Some target)"

declare tierLoop.simps [simp del]

definition appendFairPriorityTier :: "job list \<Rightarrow> job list \<Rightarrow> nat \<Rightarrow> string \<Rightarrow> job list option" where
  "appendFairPriorityTier target tier limit afterOwner =
     (let owners = seenInOrder [] (map job_OwnerSubject tier);
          byOwner = (\<lambda>owner. filter (\<lambda>j. job_OwnerSubject j = owner) tier)
      in tierLoop (length tier) limit (rotateOwners afterOwner owners) (length tier) target byOwner)"

fun fairTiers :: "job list \<Rightarrow> nat \<Rightarrow> (int \<Rightarrow> string) \<Rightarrow> int list \<Rightarrow> job list \<Rightarrow> job list option" where
  "fairTiers window limit afterOwner [] result = Some result"
| "fairTiers window limit afterOwner (priority # priorities) result =
     (case appendFairPriorityTier result (filter (\<lambda>j. job_Priority j = priority) window) limit (afterOwner priority) of
        None \<Rightarrow> None
      | Some result \<Rightarrow> (if length result = limit then Some result
                        else fairTiers window limit afterOwner priorities result))"

definition fairQueueWindow :: "job list \<Rightarrow> nat \<Rightarrow> (int \<Rightarrow> string) \<Rightarrow> job list option" where
  "fairQueueWindow window limit afterOwner =
     (if window = [] \<or> limit = 0 then Some []
      else fairTiers window limit afterOwner (rev (sort (seenInOrder [] (map job_Priority window)))) [])"

section \<open>The three scans\<close>

text \<open>Go's remainder by a positive total, brought into range as the code does it.\<close>

definition normalizedOffset :: "int \<Rightarrow> int \<Rightarrow> int" where
  "normalizedOffset offset totalCount =
     (let r = (if offset < 0 then - ((- offset) mod totalCount) else offset mod totalCount)
      in if r < 0 then r + totalCount else r)"

definition fairResult :: "job list option \<Rightarrow> job list result" where
  "fairResult r = (case r of None \<Rightarrow> Inl (ErrText ''scan does not end'') | Some jobs \<Rightarrow> Inr jobs)"

definition QueuedJobsFairPage :: "int \<Rightarrow> int \<Rightarrow> (int \<Rightarrow> string) \<Rightarrow> store \<Rightarrow> (job list \<times> int \<times> int) result" where
  "QueuedJobsFairPage limit offset afterOwner st =
     (let limit = scanLimitOf limit in
      bindE (queueCounter (st_queueCounts st) queueTotalCounterKey) (\<lambda>totalCount.
      if totalCount = 0 then Inr ([], 0, 0)
      else let normalized = normalizedOffset offset totalCount in
        bindE (collectFairQueueWindow st (drop (nat normalized) (st_queue st)) (min limit totalCount) []) (\<lambda>window.
        bindE (fairResult (fairQueueWindow (map item_job window) (nat limit) afterOwner)) (\<lambda>result.
        Inr (result, totalCount, (normalized + int (length window)) mod totalCount)))))"

definition QueuedJobsFairAfter :: "int \<Rightarrow> (int \<Rightarrow> string) \<Rightarrow> store \<Rightarrow> job list result" where
  "QueuedJobsFairAfter limit afterOwner st =
     (let limit = scanLimitOf limit;
          selectionLimit = boundedQueueScanSize limit (- 1);
          selectionLimit = (if selectionLimit > 5000 then 5000 else selectionLimit)
      in bindE (QueuedJobsFairPage selectionLimit 0 afterOwner st) (\<lambda>(jobs, _, _). Inr (take (nat limit) jobs)))"

definition QueuedJobsFairWindow :: "int \<Rightarrow> string \<Rightarrow> (int \<Rightarrow> string) \<Rightarrow> store \<Rightarrow> (job list \<times> string) result" where
  "QueuedJobsFairWindow limit afterKey afterOwner st =
     (let limit = scanLimitOf limit in
      bindE (collectFairQueueWindow st (queueCursorAfter (st_queue st) afterKey) limit afterKey) (\<lambda>window.
      bindE (fairResult (fairQueueWindow (map item_job window) (nat limit) afterOwner)) (\<lambda>result.
      Inr (result, if window = [] then [] else item_key (last window)))))"

section \<open>A tier is a round robin\<close>

fun rounds :: "nat \<Rightarrow> string list \<Rightarrow> (string \<Rightarrow> job list) \<Rightarrow> job list" where
  "rounds 0 owners f = []"
| "rounds (Suc n) owners f = concat (map (\<lambda>o'. take 1 (f o')) owners) @ rounds n owners (\<lambda>o'. drop 1 (f o'))"

lemma tierRound_spec:
  assumes "length target < limit" and "distinct owners"
  shows "fst (tierRound limit owners target f) =
      target @ take (limit - length target) (concat (map (\<lambda>o'. take 1 (f o')) owners))
    \<and> (length (fst (tierRound limit owners target f)) < limit \<longrightarrow>
        snd (tierRound limit owners target f) = (\<lambda>o'. if o' \<in> set owners then drop 1 (f o') else f o'))"
  using assms
proof (induction owners arbitrary: target f)
  case Nil
  then show ?case by simp
next
  case (Cons a owners)
  show ?case
  proof (cases "f a")
    case Nil
    with Cons show ?thesis by (auto simp: fun_eq_iff)
  next
    case (Cons j js)
    define g where "g = f(a := js)"
    have other: "map (\<lambda>o'. take 1 (g o')) owners = map (\<lambda>o'. take 1 (f o')) owners"
      using Cons.prems(2) by (auto simp: g_def)
    show ?thesis
    proof (cases "length (target @ [j]) \<ge> limit")
      case True
      with Cons Cons.prems have "limit - length target = 1" by simp
      with True Cons show ?thesis by simp
    next
      case False
      then have lt: "length (target @ [j]) < limit" by simp
      then have m: "limit - length target = Suc (limit - length (target @ [j]))" by simp
      have step: "tierRound limit (a # owners) target f = tierRound limit owners (target @ [j]) g"
        using False Cons by (simp add: g_def)
      have ga: "(if x \<in> set owners then drop 1 (g x) else g x) = (if x \<in> set (a # owners) then drop 1 (f x) else f x)" for x
        using Cons Cons.prems(2) by (auto simp: g_def)
      have shape: "concat (map (\<lambda>o'. take 1 (f o')) (a # owners)) = j # concat (map (\<lambda>o'. take 1 (f o')) owners)"
        using Cons by simp
      from Cons.IH [OF lt, of g] Cons.prems(2) show ?thesis
        unfolding step other shape m ga by simp
    qed
  qed
qed

lemma rounds_cong: "(\<And>o'. o' \<in> set owners \<Longrightarrow> f o' = g o') \<Longrightarrow> rounds n owners f = rounds n owners g"
proof (induction n arbitrary: f g)
  case (Suc n)
  have "map (\<lambda>o'. take 1 (f o')) owners = map (\<lambda>o'. take 1 (g o')) owners" using Suc.prems by simp
  moreover have "rounds n owners (\<lambda>o'. drop 1 (f o')) = rounds n owners (\<lambda>o'. drop 1 (g o'))"
    by (rule Suc.IH) (simp add: Suc.prems)
  ultimately show ?case by (simp only: rounds.simps)
qed simp

lemma rounds_empty: "\<forall>o' \<in> set owners. f o' = [] \<Longrightarrow> rounds n owners f = []"
  by (induction n arbitrary: f) (auto simp: concat_eq_Nil_conv)

lemma length_row: "length (concat (map (\<lambda>o'. take 1 (f o')) owners)) + length (concat (map (\<lambda>o'. drop 1 (f o')) owners)) =
    length (concat (map f owners))"
  by (induction owners) auto

lemma row_empty: "concat (map (\<lambda>o'. take 1 (f o')) owners) = [] \<Longrightarrow> concat (map f owners) = []"
  by (induction owners) auto

lemma tierLoop_rounds:
  assumes "length (concat (map f owners)) = remaining" and "remaining \<le> fuel" and "distinct owners"
    and "\<forall>o' \<in> set owners. length (f o') \<le> n"
  shows "tierLoop fuel limit owners remaining target f = Some (target @ take (limit - length target) (rounds n owners f))"
  using assms
proof (induction fuel arbitrary: remaining target f n)
  case 0
  then show ?case by (simp add: tierLoop.simps rounds_empty)
next
  case (Suc fuel)
  show ?case
  proof (cases "remaining > 0 \<and> length target < limit")
    case False
    then show ?thesis using Suc.prems(1) by (auto simp: tierLoop.simps rounds_empty)
  next
    case True
    let ?row = "concat (map (\<lambda>o'. take 1 (f o')) owners)"
    have "n \<noteq> 0"
    proof
      assume "n = 0"
      then have "concat (map f owners) = []" using Suc.prems(4) by (simp add: concat_eq_Nil_conv)
      then show False using Suc.prems(1) True by (metis list.size(3) less_irrefl)
    qed
    then obtain n' where n: "n = Suc n'" by (cases n) auto
    obtain target' g where tr: "tierRound limit owners target f = (target', g)" by force
    note sp = tierRound_spec [of target limit owners f, OF conjunct2 [OF True] Suc.prems(3)]
    have t': "target' = target @ take (limit - length target) ?row" using sp tr by simp
    have loop: "tierLoop (Suc fuel) limit owners remaining target f =
        tierLoop fuel limit owners (remaining - (length target' - length target)) target' g"
      using True tr by (simp add: tierLoop.simps [of "Suc fuel"])
    show ?thesis
    proof (cases "length target' < limit")
      case False
      then have "tierLoop fuel limit owners (remaining - (length target' - length target)) target' g = Some target'"
        by (simp add: tierLoop.simps [of fuel])
      moreover have "limit - length target \<le> length ?row" using False t' by (simp split: if_splits)
      ultimately show ?thesis using loop t' n by simp
    next
      case lt: True
      then have fits: "length ?row \<le> limit - length target" using t' by (auto simp: min_def split: if_splits)
      then have row: "target' = target @ ?row" using t' by simp
      have whole: "take (limit - length target) ?row = ?row" using fits by (rule take_all)
      have g: "g = (\<lambda>o'. if o' \<in> set owners then drop 1 (f o') else f o')" using sp tr lt by simp
      have gmap: "map g owners = map (\<lambda>o'. drop 1 (f o')) owners" by (simp add: g)
      have "?row \<noteq> []" using row_empty [of f owners] Suc.prems(1) True by (metis list.size(3) less_irrefl)
      then have pos: "0 < length ?row" by (rule length_greater_0_conv [THEN iffD2])
      have sum: "length ?row + length (concat (map g owners)) = remaining"
        unfolding gmap using length_row [of f owners] Suc.prems(1) by (simp only:)
      have "length target' - length target = length ?row" by (simp add: row)
      then have rem: "remaining - (length target' - length target) = length (concat (map g owners))"
        "remaining - (length target' - length target) \<le> fuel"
        using sum pos Suc.prems(2) by linarith+
      have "\<forall>o' \<in> set owners. length (g o') \<le> n'" using Suc.prems(4) n by (auto simp: g)
      from Suc.IH [OF rem(1) [symmetric] rem(2) Suc.prems(3) this]
      have "tierLoop fuel limit owners (remaining - (length target' - length target)) target' g =
        Some (target' @ take (limit - length target') (rounds n' owners g))" .
      moreover have "rounds n' owners g = rounds n' owners (\<lambda>o'. drop 1 (f o'))"
        by (rule rounds_cong) (simp add: g)
      ultimately show ?thesis using loop row n whole by (simp add: diff_diff_add)
    qed
  qed
qed

lemma seenInOrder_set: "set (seenInOrder seen xs) = set seen \<union> set xs"
  by (induction xs arbitrary: seen) auto

lemma seenInOrder_distinct: "distinct seen \<Longrightarrow> distinct (seenInOrder seen xs)"
  by (induction xs arbitrary: seen) auto

lemma rotateOwners_mset: "mset (rotateOwners a os) = mset os"
proof (cases "findIndex (\<lambda>x. x = a) os")
  case (Some i)
  have "mset (drop (i + 1) os @ take (i + 1) os) = mset (take (i + 1) os @ drop (i + 1) os)"
    by (simp only: mset_append add.commute)
  then have "mset (drop (i + 1) os @ take (i + 1) os) = mset os" by (simp only: append_take_drop_id)
  then show ?thesis using Some by (simp add: rotateOwners_def)
qed (simp add: rotateOwners_def)

lemma rotateOwners_set [simp]: "set (rotateOwners a os) = set os"
  by (rule mset_eq_setD [OF rotateOwners_mset])

lemma rotateOwners_distinct [simp]: "distinct (rotateOwners a os) = distinct os"
  by (rule mset_eq_imp_distinct_iff [OF rotateOwners_mset])

text \<open>The producers of a tier, in the order in which they take turns, and their jobs.\<close>

definition tierOwners :: "string \<Rightarrow> job list \<Rightarrow> string list" where
  "tierOwners afterOwner tier = rotateOwners afterOwner (seenInOrder [] (map job_OwnerSubject tier))"

definition ownerJobs :: "job list \<Rightarrow> string \<Rightarrow> job list" where
  "ownerJobs tier owner = filter (\<lambda>j. job_OwnerSubject j = owner) tier"

definition roundRobin :: "string \<Rightarrow> job list \<Rightarrow> job list" where
  "roundRobin afterOwner tier = rounds (length tier) (tierOwners afterOwner tier) (ownerJobs tier)"

lemma tierOwners_facts:
  "distinct (tierOwners a tier)" "set (tierOwners a tier) = job_OwnerSubject ` set tier"
  by (simp_all add: tierOwners_def seenInOrder_distinct seenInOrder_set)

lemma filters_partition:
  assumes "distinct os" and "\<forall>j \<in> set xs. g j \<in> set os"
  shows "mset (concat (map (\<lambda>o'. filter (\<lambda>j. g j = o') xs) os)) = mset xs"
  using assms
proof (induction os arbitrary: xs)
  case Nil
  then show ?case by (cases xs) auto
next
  case (Cons a os)
  let ?rest = "filter (\<lambda>j. g j \<noteq> a) xs"
  have "map (\<lambda>o'. filter (\<lambda>j. g j = o') xs) os = map (\<lambda>o'. filter (\<lambda>j. g j = o') ?rest) os"
    using Cons.prems(1) by (auto intro!: filter_cong)
  then have "mset (concat (map (\<lambda>o'. filter (\<lambda>j. g j = o') xs) os)) =
      mset (concat (map (\<lambda>o'. filter (\<lambda>j. g j = o') ?rest) os))" by (simp only:)
  also have "\<dots> = mset ?rest" using Cons.prems by (intro Cons.IH) auto
  finally have r: "mset (concat (map (\<lambda>o'. filter (\<lambda>j. g j = o') xs) os)) = mset ?rest" .
  have "mset (filter (\<lambda>j. g j = a) xs) + mset ?rest = mset xs" by (induction xs) auto
  with r show ?case by (simp only: list.map concat.simps mset_append)
qed

lemma appendFairPriorityTier_closed:
  "appendFairPriorityTier target tier limit afterOwner =
     Some (target @ take (limit - length target) (roundRobin afterOwner tier))"
proof -
  have "length (concat (map (ownerJobs tier) (tierOwners afterOwner tier))) = length tier"
    using filters_partition [OF tierOwners_facts(1) [of afterOwner tier], of tier job_OwnerSubject]
    by (metis (no_types, lifting) ext image_eqI ownerJobs_def size_mset tierOwners_facts(2))
  moreover have "\<forall>o' \<in> set (tierOwners afterOwner tier). length (ownerJobs tier o') \<le> length tier"
    by (simp add: ownerJobs_def)
  ultimately have "tierLoop (length tier) limit (tierOwners afterOwner tier) (length tier) target (ownerJobs tier) =
      Some (target @ take (limit - length target) (roundRobin afterOwner tier))"
    unfolding roundRobin_def by (intro tierLoop_rounds) (simp_all add: tierOwners_facts)
  moreover have "(\<lambda>owner. filter (\<lambda>j. job_OwnerSubject j = owner) tier) = ownerJobs tier"
    by (simp add: ownerJobs_def fun_eq_iff)
  ultimately show ?thesis
    by (simp add: appendFairPriorityTier_def Let_def tierOwners_def)
qed

lemma rounds_mset:
  "\<forall>o' \<in> set owners. length (f o') \<le> n \<Longrightarrow> mset (rounds n owners f) = mset (concat (map f owners))"
proof (induction n arbitrary: f)
  case 0
  then have "concat (map f owners) = []" by (simp add: concat_eq_Nil_conv)
  then show ?case by simp
next
  case (Suc n)
  have "mset (rounds n owners (\<lambda>o'. drop 1 (f o'))) = mset (concat (map (\<lambda>o'. drop 1 (f o')) owners))"
    using Suc.prems by (intro Suc.IH) auto
  moreover have "mset (concat (map (\<lambda>o'. take 1 (f o')) owners)) + mset (concat (map (\<lambda>o'. drop 1 (f o')) owners)) =
      mset (concat (map f owners))"
  proof (induction owners)
    case (Cons a owners)
    have "mset (take 1 (f a)) + mset (drop 1 (f a)) = mset (f a)"
      by (metis append_take_drop_id mset_append)
    with Cons show ?case by (simp add: ac_simps)
  qed simp
  ultimately show ?case by simp
qed

lemma roundRobin_mset: "mset (roundRobin a tier) = mset tier"
proof -
  have "mset (roundRobin a tier) = mset (concat (map (ownerJobs tier) (tierOwners a tier)))"
    unfolding roundRobin_def by (rule rounds_mset) (simp add: ownerJobs_def)
  also have "map (ownerJobs tier) (tierOwners a tier) = map (\<lambda>o'. filter (\<lambda>j. job_OwnerSubject j = o') tier) (tierOwners a tier)"
    by (simp add: ownerJobs_def)
  also have "mset (concat \<dots>) = mset tier"
    by (rule filters_partition) (simp_all add: tierOwners_facts)
  finally show ?thesis .
qed

text \<open>The jobs of one producer keep their order.\<close>

lemma filter_owner_row:
  assumes "distinct owners" and "\<forall>o' \<in> set owners. \<forall>j \<in> set (f o'). job_OwnerSubject j = o'"
  shows "filter (\<lambda>j. job_OwnerSubject j = a) (concat (map (\<lambda>o'. take 1 (f o')) owners)) =
    (if a \<in> set owners then take 1 (f a) else [])"
  using assms
proof (induction owners)
  case (Cons b owners)
  have "\<forall>j \<in> set (take 1 (f b)). job_OwnerSubject j = b"
    using Cons.prems(2) by (auto dest: in_set_takeD)
  then have "filter (\<lambda>j. job_OwnerSubject j = a) (take 1 (f b)) = (if a = b then take 1 (f b) else [])"
    by (auto simp: filter_id_conv filter_empty_conv)
  with Cons show ?case by auto
qed simp

lemma filter_owner_rounds:
  assumes "distinct owners" and "\<forall>o' \<in> set owners. \<forall>j \<in> set (f o'). job_OwnerSubject j = o'"
  shows "filter (\<lambda>j. job_OwnerSubject j = a) (rounds n owners f) = (if a \<in> set owners then take n (f a) else [])"
  using assms
proof (induction n arbitrary: f)
  case (Suc n)
  have "filter (\<lambda>j. job_OwnerSubject j = a) (rounds n owners (\<lambda>o'. drop 1 (f o'))) =
      (if a \<in> set owners then take n (drop 1 (f a)) else [])"
    using Suc.prems by (intro Suc.IH) (auto dest: in_set_dropD)
  moreover have "take 1 (f a) @ take n (drop 1 (f a)) = take (Suc n) (f a)" by (cases "f a") auto
  ultimately show ?case using filter_owner_row [OF Suc.prems] by simp
qed simp

definition ownerCount :: "string \<Rightarrow> job list \<Rightarrow> nat" where
  "ownerCount a js = length (filter (\<lambda>j. job_OwnerSubject j = a) js)"

lemma ownerCount_append [simp]: "ownerCount a (xs @ ys) = ownerCount a xs + ownerCount a ys"
  by (simp add: ownerCount_def)

lemma ownerCount_take: "ownerCount a (take m xs) \<le> ownerCount a xs"
  by (metis append_take_drop_id le_add1 ownerCount_append)

text \<open>However the rounds are cut off, two producers differ by at most one job, unless the one
  behind has none left.\<close>

lemma rounds_fair:
  assumes "distinct owners" and "\<forall>o' \<in> set owners. \<forall>j \<in> set (f o'). job_OwnerSubject j = o'"
    and "a \<in> set owners" and "b \<in> set owners"
  shows "ownerCount b (take m (rounds n owners f)) \<le> Suc (ownerCount a (take m (rounds n owners f)))
    \<or> ownerCount a (take m (rounds n owners f)) = length (f a)"
  using assms
proof (induction n arbitrary: f m)
  case 0
  then show ?case by (simp add: ownerCount_def)
next
  case (Suc n)
  let ?row = "concat (map (\<lambda>o'. take 1 (f o')) owners)" and ?f = "\<lambda>o'. drop 1 (f o')"
  have row: "ownerCount x ?row = min 1 (length (f x))" if "x \<in> set owners" for x
    using filter_owner_row [OF Suc.prems(1,2), of x] that by (simp add: ownerCount_def min.commute)
  show ?case
  proof (cases "m \<le> length ?row")
    case True
    then have "ownerCount b (take m (rounds (Suc n) owners f)) \<le> 1"
      using row [OF Suc.prems(4)] ownerCount_take [of b m ?row] by simp
    then show ?thesis by linarith
  next
    case False
    let ?rest = "take (m - length ?row) (rounds n owners ?f)"
    have cut: "take m (rounds (Suc n) owners f) = ?row @ ?rest" using False by simp
    have "ownerCount b ?rest \<le> Suc (ownerCount a ?rest) \<or> ownerCount a ?rest = length (?f a)"
      using Suc.prems by (intro Suc.IH) (auto dest: in_set_dropD)
    moreover have "ownerCount a (rounds n owners ?f) \<le> length (?f a)"
    proof -
      have "\<forall>o' \<in> set owners. \<forall>j \<in> set (?f o'). job_OwnerSubject j = o'"
        using Suc.prems(2) by (auto dest: in_set_dropD)
      from filter_owner_rounds [OF Suc.prems(1) this, of a n] Suc.prems(3) show ?thesis
        by (simp add: ownerCount_def)
    qed
    then have "ownerCount a ?rest \<le> length (?f a)" using ownerCount_take le_trans by blast
    ultimately show ?thesis
      unfolding cut ownerCount_append row [OF Suc.prems(3)] row [OF Suc.prems(4)]
      by (cases "f a") auto
  qed
qed

section \<open>All tiers\<close>

definition tierOrder :: "job list \<Rightarrow> (int \<Rightarrow> string) \<Rightarrow> int \<Rightarrow> job list" where
  "tierOrder window afterOwner p = roundRobin (afterOwner p) (filter (\<lambda>j. job_Priority j = p) window)"

definition windowPriorities :: "job list \<Rightarrow> int list" where
  "windowPriorities window = rev (sort (seenInOrder [] (map job_Priority window)))"

lemma fairTiers_closed:
  "length result \<le> limit \<Longrightarrow> fairTiers window limit afterOwner ps result =
     Some (result @ take (limit - length result) (concat (map (tierOrder window afterOwner) ps)))"
proof (induction ps arbitrary: result)
  case Nil
  then show ?case by simp
next
  case (Cons p ps)
  let ?r = "result @ take (limit - length result) (tierOrder window afterOwner p)"
  have app: "appendFairPriorityTier result (filter (\<lambda>j. job_Priority j = p) window) limit (afterOwner p) = Some ?r"
    by (simp add: appendFairPriorityTier_closed tierOrder_def)
  have le: "length ?r \<le> limit" using Cons.prems by simp
  show ?case
  proof (cases "length ?r = limit")
    case True
    then have "limit - length result \<le> length (tierOrder window afterOwner p)" using Cons.prems by simp
    then show ?thesis using True app by simp
  next
    case False
    then have all: "?r = result @ tierOrder window afterOwner p"
      and lt: "length (tierOrder window afterOwner p) < limit - length result"
      using le by (auto simp: min_def split: if_splits)
    show ?thesis using Cons.IH [OF le] app False lt by (simp add: all diff_diff_add)
  qed
qed

lemma fairQueueWindow_closed:
  "fairQueueWindow window limit afterOwner =
     Some (take limit (concat (map (tierOrder window afterOwner) (windowPriorities window))))"
proof (cases "window = [] \<or> limit = 0")
  case True
  then show ?thesis by (auto simp: fairQueueWindow_def windowPriorities_def)
next
  case False
  then show ?thesis
    using fairTiers_closed [of "[]" limit window afterOwner "windowPriorities window"]
    by (simp add: fairQueueWindow_def windowPriorities_def)
qed

lemma windowPriorities_facts:
  "distinct (windowPriorities w)" "set (windowPriorities w) = job_Priority ` set w"
  "sorted_wrt (\<lambda>p q. q \<le> p) (windowPriorities w)"
  by (simp_all add: windowPriorities_def seenInOrder_distinct seenInOrder_set sorted_wrt_rev)

lemma tierOrder_set: "set (tierOrder w ao p) = {j \<in> set w. job_Priority j = p}"
  using mset_eq_setD [OF roundRobin_mset, of "ao p"] by (auto simp: tierOrder_def)

lemma tiers_mset: "mset (concat (map (tierOrder w ao) (windowPriorities w))) = mset w"
proof -
  have "mset (concat (map (tierOrder w ao) ps)) = mset (concat (map (\<lambda>p. filter (\<lambda>j. job_Priority j = p) w) ps))" for ps
    by (induction ps) (simp_all add: tierOrder_def roundRobin_mset)
  also have "mset (concat (map (\<lambda>p. filter (\<lambda>j. job_Priority j = p) w) (windowPriorities w))) = mset w"
    by (rule filters_partition) (simp_all add: windowPriorities_facts)
  finally show ?thesis .
qed

lemma tiers_sorted:
  "sorted_wrt (\<lambda>p q. q \<le> p) ps \<Longrightarrow>
   sorted_wrt (\<lambda>i j. job_Priority j \<le> job_Priority i) (concat (map (tierOrder w ao) ps))"
proof (induction ps)
  case (Cons p ps)
  have "sorted_wrt (\<lambda>i j. job_Priority j \<le> job_Priority i) (tierOrder w ao p)"
    by (rule sorted_wrt_mono_rel [of _ "\<lambda>_ _. True"]) (auto simp: tierOrder_set sorted_wrt_true)
  with Cons show ?case by (auto simp: sorted_wrt_append tierOrder_set)
qed simp

text \<open>The part of the offer that belongs to one tier is a prefix of the tier's round robin.\<close>

lemma tier_of_window:
  assumes "distinct ps" and "p \<in> set ps"
  shows "\<exists>k. filter (\<lambda>j. job_Priority j = p) (take m (concat (map (tierOrder w ao) ps))) = take k (tierOrder w ao p)"
  using assms
proof (induction ps arbitrary: m)
  case (Cons q ps)
  have q: "filter (\<lambda>j. job_Priority j = p) (take m (tierOrder w ao q)) = (if p = q then take m (tierOrder w ao q) else [])"
    by (auto simp: filter_id_conv filter_empty_conv tierOrder_set dest!: in_set_takeD)
  show ?case
  proof (cases "p = q")
    case True
    have "filter (\<lambda>j. job_Priority j = p) (take (m - length (tierOrder w ao q)) (concat (map (tierOrder w ao) ps))) = []"
      using Cons.prems(1) True by (auto simp: filter_empty_conv tierOrder_set dest!: in_set_takeD)
    with q True show ?thesis by auto
  next
    case False
    with Cons q show ?thesis by auto
  qed
qed simp

section \<open>The window is a cyclic scan\<close>

fun valueEntry :: "queueValue \<Rightarrow> queueEntry" where
  "valueEntry (QEntry e) = e"
| "valueEntry _ = bareQueueEntry []"

definition scanItem :: "string \<times> queueValue \<Rightarrow> fairQueueItem" where
  "scanItem kv = \<lparr>item_key = fst kv, item_job = projectEntry (valueEntry (snd kv))\<rparr>"

definition readable :: "queueValue bucket \<Rightarrow> bool" where
  "readable q \<longleftrightarrow> (\<forall>(k, v) \<in> set q. \<exists>e. v = QEntry e \<and> goodEntry e)"

lemma readable_Cons: "readable ((k, v) # q) \<longleftrightarrow> (\<exists>e. v = QEntry e \<and> goodEntry e) \<and> readable q"
  by (auto simp: readable_def)

lemma readable_append: "readable (p @ q) \<longleftrightarrow> readable p \<and> readable q"
  by (simp add: readable_def ball_Un)

lemma queueInv_readable: "queueInv st \<Longrightarrow> readable (st_queue st)"
proof -
  assume inv: "queueInv st"
  then have ord: "bordered (st_queue st)" by (simp add: queueInv_def)
  show ?thesis
    unfolding readable_def using queueInv_entry [OF inv] bordered_get [OF ord] by fast
qed

lemma collectLoop_wrapped:
  assumes "readable us" and "us \<noteq> []" and "start \<notin> fst ` set us"
    and "\<forall>k \<in> fst ` set us. stop = [] \<or> k \<le> stop" and "cursor = (start, x) # later"
  shows "collectLoop jobs queue start stop True n (us @ cursor) = Inr (map scanItem (take n us))"
  using assms
proof (induction us arbitrary: n)
  case (Cons u us)
  obtain k e where u: "u = (k, QEntry e)" "goodEntry e"
    using Cons.prems(1) by (cases u) (auto simp: readable_Cons)
  show ?case
  proof (cases n)
    case (Suc m)
    show ?thesis
    proof (cases us)
      case Nil
      then show ?thesis
        using Suc u Cons.prems(5)
        by (simp add: queueEntryFromValue_def checkQueueEntry_good scanItem_def)
    next
      case (Cons w ws)
      have "collectLoop jobs queue start stop True m (us @ cursor) = Inr (map scanItem (take m us))"
        using Cons.IH [of m] Cons Cons.prems u by (simp add: readable_Cons)
      moreover have "fst w \<noteq> start" "stop = [] \<or> \<not> stop < fst w" using Cons.prems(3,4) Cons by auto
      ultimately show ?thesis
        using Suc u Cons
        by (cases w) (auto simp: queueEntryFromValue_def checkQueueEntry_good scanItem_def)
    qed
  qed simp
qed simp

lemma collectLoop_scan:
  assumes "readable vs" and "readable before" and "vs \<noteq> []"
    and "start \<notin> fst ` set (tl vs)" and "start \<notin> fst ` set before"
    and "\<forall>k \<in> fst ` set before. stop = [] \<or> k \<le> stop" and "cursor = (start, x) # later"
  shows "collectLoop jobs (before @ cursor) start stop False n vs = Inr (map scanItem (take n (vs @ before)))"
  using assms(1,3,4)
proof (induction vs arbitrary: n)
  case (Cons u us)
  obtain k e where u: "u = (k, QEntry e)" "goodEntry e"
    using Cons.prems(1) by (cases u) (auto simp: readable_Cons)
  show ?case
  proof (cases n)
    case (Suc m)
    show ?thesis
    proof (cases us)
      case Nil
      show ?thesis
      proof (cases before)
        case b: Nil
        then show ?thesis
          using Suc u Nil assms(7) by (simp add: queueEntryFromValue_def checkQueueEntry_good scanItem_def)
      next
        case b: (Cons w ws)
        have "collectLoop jobs (before @ cursor) start stop True m (before @ cursor) = Inr (map scanItem (take m before))"
          using assms by (intro collectLoop_wrapped) (auto simp: b)
        moreover have "fst w \<noteq> start" "stop = [] \<or> \<not> stop < fst w" using assms(5,6) b by auto
        ultimately show ?thesis
          using Suc u Nil
          by (cases w) (auto simp: b queueEntryFromValue_def checkQueueEntry_good scanItem_def)
      qed
    next
      case (Cons w ws)
      have "collectLoop jobs (before @ cursor) start stop False m us = Inr (map scanItem (take m (us @ before)))"
        using Cons.IH [of m] Cons Cons.prems u by (simp add: readable_Cons)
      moreover have "fst w \<noteq> start" using Cons.prems(3) Cons by auto
      ultimately show ?thesis
        using Suc u Cons
        by (cases w) (auto simp: queueEntryFromValue_def checkQueueEntry_good scanItem_def)
    qed
  qed simp
qed simp

lemma collectFairQueueWindow_scan:
  assumes "queueInv st" and "st_queue st = before @ cursor"
    and "\<forall>k \<in> fst ` set before. stop = [] \<or> k \<le> stop" and "cursor = [] \<Longrightarrow> before = []"
  shows "collectFairQueueWindow st cursor limit stop = Inr (map scanItem (take (nat limit) (cursor @ before)))"
proof (cases cursor)
  case Nil
  then show ?thesis using assms(4) by (simp add: collectFairQueueWindow_def)
next
  case (Cons c later)
  obtain start x where c: "c = (start, x)" by force
  have "bordered (st_queue st)" using assms(1) by (simp add: queueInv_def)
  then have "distinct (map fst (st_queue st))" by (rule bolt.entries_distinct)
  then have "distinct (map fst (before @ cursor))" by (simp only: assms(2))
  then have fresh: "start \<notin> fst ` set later" "start \<notin> fst ` set before" by (auto simp: Cons c)
  have "readable cursor" "readable before"
    using queueInv_readable [OF assms(1)] assms(2) by (auto simp: readable_append)
  then show ?thesis
    using collectLoop_scan [of cursor before start stop cursor x later "st_jobs st" "nat limit"] fresh assms(2,3)
    by (simp add: collectFairQueueWindow_def Cons c)
qed

text \<open>The queue read cyclically from the key after \<open>afterKey\<close>.\<close>

definition cyclicFrom :: "string \<Rightarrow> queueValue bucket \<Rightarrow> queueValue bucket" where
  "cyclicFrom afterKey queue =
     filter (\<lambda>e. afterKey < fst e) queue @ filter (\<lambda>e. fst e \<le> afterKey) queue"

lemma sorted_split:
  assumes "bordered (q :: 'v bucket)"
  shows "q = filter (\<lambda>e. fst e \<le> k) q @ filter (\<lambda>e. k < fst e) q"
    and "dropWhile (\<lambda>e. fst e < k) q = filter (\<lambda>e. k \<le> fst e) q"
proof -
  show "q = filter (\<lambda>e. fst e \<le> k) q @ filter (\<lambda>e. k < fst e) q"
    using assms
  proof (induction q)
    case (Cons e q)
    then have ord: "bordered q" and gt: "\<forall>x \<in> set q. fst e < fst x" by (auto simp: bordered_def)
    show ?case
    proof (cases "fst e \<le> k")
      case True
      with Cons.IH [OF ord] show ?thesis by auto
    next
      case False
      then have "filter (\<lambda>e. fst e \<le> k) q = []" "filter (\<lambda>e. k < fst e) q = q"
        using gt by (fastforce simp: filter_empty_conv filter_id_conv)+
      with False show ?thesis by auto
    qed
  qed simp
  show "dropWhile (\<lambda>e. fst e < k) q = filter (\<lambda>e. k \<le> fst e) q"
    using assms
  proof (induction q)
    case (Cons e q)
    then have ord: "bordered q" and gt: "\<forall>x \<in> set q. fst e < fst x" by (auto simp: bordered_def)
    show ?case
    proof (cases "fst e < k")
      case True
      with Cons.IH [OF ord] show ?thesis by auto
    next
      case False
      then have "filter (\<lambda>e. k \<le> fst e) q = q" using gt by (fastforce simp: filter_id_conv)
      with False show ?thesis by auto
    qed
  qed simp
qed

lemma queueCursorAfter_split:
  assumes "bordered queue" and "\<forall>e \<in> set queue. fst e \<noteq> []"
  shows "\<exists>before. queue = before @ queueCursorAfter queue afterKey
    \<and> (\<forall>k \<in> fst ` set before. afterKey = [] \<or> k \<le> afterKey)
    \<and> (queueCursorAfter queue afterKey = [] \<longrightarrow> before = [])
    \<and> queueCursorAfter queue afterKey @ before = cyclicFrom afterKey queue"
proof (cases "afterKey = []")
  case True
  have "\<forall>e \<in> set queue. [] < fst e" using assms(2) by (metis less_list_code(1,2) neq_Nil_conv)
  then have "filter (\<lambda>e. [] < fst e) queue = queue" "filter (\<lambda>e. fst e \<le> []) queue = []"
    using assms(2) by (auto simp: filter_id_conv filter_empty_conv)
  then show ?thesis using True by (simp add: queueCursorAfter_def cyclicFrom_def)
next
  case False
  let ?gt = "filter (\<lambda>e. afterKey < fst e) queue" and ?le = "filter (\<lambda>e. fst e \<le> afterKey) queue"
  have rest: "(case filter (\<lambda>e. afterKey \<le> fst e) queue of [] \<Rightarrow> []
      | e # later \<Rightarrow> if fst e = afterKey then later else filter (\<lambda>e. afterKey \<le> fst e) queue) = ?gt"
    using assms(1)
  proof (induction queue)
    case (Cons e q)
    then have ord: "bordered q" and gt: "\<forall>x \<in> set q. fst e < fst x" by (auto simp: bordered_def)
    consider "fst e < afterKey" | "fst e = afterKey" | "afterKey < fst e" by fastforce
    then show ?case
    proof cases
      case 1
      then have "filter (\<lambda>e. afterKey \<le> fst e) (e # q) = filter (\<lambda>e. afterKey \<le> fst e) q"
        "filter (\<lambda>e. afterKey < fst e) (e # q) = filter (\<lambda>e. afterKey < fst e) q" by auto
      then show ?thesis using Cons.IH [OF ord] by (simp only:)
    next
      case 2
      have "filter (\<lambda>e. afterKey \<le> fst e) q = q" "filter (\<lambda>e. afterKey < fst e) q = q"
        using gt 2 by (auto simp: filter_id_conv)
      then show ?thesis using 2 by simp
    next
      case 3
      then have "filter (\<lambda>e. afterKey \<le> fst e) q = q" "filter (\<lambda>e. afterKey < fst e) q = q"
        using gt by (fastforce simp: filter_id_conv)+
      then show ?thesis using 3 by auto
    qed
  qed simp
  have cur: "queueCursorAfter queue afterKey = (if ?gt = [] then queue else ?gt)"
    using False rest by (simp add: queueCursorAfter_def sorted_split(2) [OF assms(1)] Let_def)
  note split = sorted_split(1) [OF assms(1), of afterKey]
  show ?thesis
  proof (cases "?gt = []")
    case True
    then have "?le = queue" using split by simp
    with True show ?thesis by (simp add: cur cyclicFrom_def)
  next
    case gt: False
    then have c: "queueCursorAfter queue afterKey = ?gt" by (simp only: cur if_False)
    show ?thesis
      by (rule exI [of _ ?le]) (use split gt False in \<open>auto simp only: c cyclicFrom_def set_filter\<close>)
  qed
qed

lemma queueInv_keys: "queueInv st \<Longrightarrow> \<forall>e \<in> set (st_queue st). fst e \<noteq> []"
proof
  fix e assume inv: "queueInv st" and e: "e \<in> set (st_queue st)"
  obtain k v where kv: "e = (k, v)" by force
  have "bordered (st_queue st)" using inv by (simp add: queueInv_def)
  then have "bget (st_queue st) k = Some v" using e kv bordered_get [of "st_queue st" k v] by simp
  from queueInv_entry [OF inv this] obtain q where "goodEntry q" "keyJobID k = qe_JobID q" by blast
  then show "fst e \<noteq> []" by (auto simp: kv keyJobID_def goodEntry_def validJobID_def)
qed

text \<open>C33: the dispatch scan reads the queue cyclically: it starts at the first entry after the key
  it stopped at last time, offers exactly the entries of the next window, and hands back the key of the
  last one, so that no entry is skipped between two scans.\<close>

theorem dispatch_scan_is_cyclic:
  fixes limit :: int and afterKey :: string
  assumes "queueInv st"
  defines "window \<equiv> take (nat (scanLimitOf limit)) (cyclicFrom afterKey (st_queue st))"
  shows "\<exists>jobs. QueuedJobsFairWindow limit afterKey afterOwner st =
      Inr (jobs, if window = [] then [] else fst (last window))
    \<and> mset jobs = mset (map (\<lambda>kv. projectEntry (valueEntry (snd kv))) window)"
proof -
  have ord: "bordered (st_queue st)" using assms(1) by (simp add: queueInv_def)
  let ?cur = "queueCursorAfter (st_queue st) afterKey" and ?n = "nat (scanLimitOf limit)"
  from queueCursorAfter_split [OF ord queueInv_keys [OF assms(1)], of afterKey] obtain before where
    b: "st_queue st = before @ ?cur" "\<forall>k \<in> fst ` set before. afterKey = [] \<or> k \<le> afterKey"
    "?cur = [] \<longrightarrow> before = []" "?cur @ before = cyclicFrom afterKey (st_queue st)" by blast
  have scan: "collectFairQueueWindow st ?cur (scanLimitOf limit) afterKey = Inr (map scanItem window)"
    using collectFairQueueWindow_scan [OF assms(1) b(1,2), of "scanLimitOf limit"] b(3,4) by (simp add: window_def)
  have len: "length window \<le> ?n" by (simp add: window_def)
  define jobs where "jobs = take ?n (concat (map (tierOrder (map item_job (map scanItem window)) afterOwner)
      (windowPriorities (map item_job (map scanItem window)))))"
  have "length (concat (map (tierOrder (map item_job (map scanItem window)) afterOwner)
      (windowPriorities (map item_job (map scanItem window))))) = length window"
    using tiers_mset [of "map item_job (map scanItem window)" afterOwner] by (metis length_map size_mset)
  then have "mset jobs = mset (map item_job (map scanItem window))"
    using len tiers_mset [of "map item_job (map scanItem window)" afterOwner] by (simp add: jobs_def)
  moreover have "fairQueueWindow (map item_job (map scanItem window)) ?n afterOwner = Some jobs"
    unfolding jobs_def by (rule fairQueueWindow_closed)
  ultimately show ?thesis
    using scan by (auto simp: QueuedJobsFairWindow_def Let_def fairResult_def scanItem_def last_map comp_def)
qed

text \<open>The fair order always ends and offers as many jobs of the window as the limit allows, each
  once, in non-increasing priority.\<close>

theorem fair_window_by_priority:
  "\<exists>jobs. fairQueueWindow window limit afterOwner = Some jobs
    \<and> mset jobs \<subseteq># mset window \<and> length jobs = min limit (length window)
    \<and> sorted_wrt (\<lambda>i j. job_Priority j \<le> job_Priority i) jobs"
proof -
  let ?all = "concat (map (tierOrder window afterOwner) (windowPriorities window))"
  have m: "mset ?all = mset window" by (rule tiers_mset)
  then have "length ?all = length window" by (metis size_mset)
  moreover have "mset (take limit ?all) \<subseteq># mset ?all"
    by (metis append_take_drop_id mset_append mset_subset_eq_add_left)
  moreover have "sorted_wrt (\<lambda>i j. job_Priority j \<le> job_Priority i) ?all"
    by (rule tiers_sorted [OF windowPriorities_facts(3)])
  ultimately show ?thesis
    using m by (auto simp: fairQueueWindow_closed min.commute intro: sorted_wrt_take)
qed


lemma rotateOwners_hd:
  assumes "distinct os" and "x \<in> set os" and "x \<noteq> a" and "a \<noteq> []"
  shows "rotateOwners a os \<noteq> [] \<and> hd (rotateOwners a os) \<noteq> a"
proof (cases "findIndex (\<lambda>y. y = a) os")
  case None
  then have "a \<notin> set os" by (auto simp: findIndex_None)
  moreover have "rotateOwners a os \<noteq> []" using assms(2) rotateOwners_set [of a os] by (metis empty_iff list.set(1))
  ultimately show ?thesis using rotateOwners_set [of a os] by (metis hd_in_set)
next
  case (Some i)
  from findIndex_Some [OF Some] have i: "i < length os" "os ! i = a" by auto
  have "length os > 1"
    using assms(2,3) i by (metis in_set_conv_nth less_one linorder_neqE_nat not_less_zero order_less_trans nth_mem)
  then have rot: "rotateOwners a os = drop (i + 1) os @ take (i + 1) os"
    using Some assms(4) by (simp add: rotateOwners_def)
  show ?thesis
  proof (cases "i + 1 < length os")
    case True
    then have "hd (rotateOwners a os) = os ! (i + 1)" by (simp add: rot hd_append hd_drop_conv_nth)
    then show ?thesis using assms(1) i True rot by (auto simp: nth_eq_iff_index_eq)
  next
    case False
    then have "rotateOwners a os = os" using i rot by simp
    moreover have "hd os = os ! 0" using i by (cases os) auto
    moreover have "0 \<noteq> i" using i False \<open>length os > 1\<close> by auto
    ultimately show ?thesis using assms(1) i \<open>length os > 1\<close> by (metis length_0_conv nth_eq_iff_index_eq not_less_zero less_trans zero_less_one)
  qed
qed

text \<open>the producer that was served last waits: when another producer has work of the same
  priority, the first job offered is not the last-served producer's.\<close>

theorem last_served_producer_waits:
  assumes "afterOwner \<noteq> []" and "\<exists>j \<in> set tier. job_OwnerSubject j \<noteq> afterOwner" and "0 < limit"
  shows "\<exists>first rest. appendFairPriorityTier [] tier limit afterOwner = Some (first # rest)
    \<and> job_OwnerSubject first \<noteq> afterOwner"
proof -
  let ?os = "tierOwners afterOwner tier"
  obtain j where j: "j \<in> set tier" "job_OwnerSubject j \<noteq> afterOwner" using assms(2) by blast
  have "?os \<noteq> [] \<and> hd ?os \<noteq> afterOwner"
    unfolding tierOwners_def using j assms(1)
    by (intro rotateOwners_hd [of _ "job_OwnerSubject j"]) (auto simp: seenInOrder_distinct seenInOrder_set)
  then obtain x xs where os: "?os = x # xs" "x \<noteq> afterOwner" by (cases ?os) auto
  have "x \<in> job_OwnerSubject ` set tier" using tierOwners_facts(2) [of afterOwner tier] os(1) by (metis list.set_intros(1))
  then have "ownerJobs tier x \<noteq> []" by (auto simp: ownerJobs_def filter_empty_conv)
  then obtain f fs where f: "ownerJobs tier x = f # fs" by (cases "ownerJobs tier x") auto
  then have "f \<in> set (ownerJobs tier x)" by simp
  then have own: "job_OwnerSubject f = x" by (simp add: ownerJobs_def)
  obtain n where n: "length tier = Suc n" using j(1) by (cases tier) auto
  have "roundRobin afterOwner tier = f # (concat (map (\<lambda>o'. take 1 (ownerJobs tier o')) xs) @
      rounds n ?os (\<lambda>o'. drop 1 (ownerJobs tier o')))"
    by (simp add: roundRobin_def n os f)
  moreover obtain m where "limit = Suc m" using assms(3) by (cases limit) auto
  ultimately show ?thesis using own os(2) by (auto simp: appendFairPriorityTier_closed)
qed

section \<open>Witnesses\<close>

theorem dispatch_scan_is_cyclic_witness:
  "\<exists>st jobs. putQueueEntry witnessJob emptyStore = Inr st \<and>
     QueuedJobsFairWindow 10 [] (\<lambda>_. []) st = Inr (jobs, queueKey witnessJob) \<and> length jobs = 1"
proof -
  obtain st where st: "putQueueEntry witnessJob emptyStore = Inr st" using witness_filed by blast
  have new: "bget (st_queueJobIndex emptyStore) (job_ID witnessJob) = None" by (simp add: emptyStore_def bucket_simps)
  from putQueueEntry_new [OF queueInv_empty witnessJob_good new st] have inv: "queueInv st"
    and q: "st_queue st = [(queueKey witnessJob, QEntry (queueEntryOf witnessJob))]" by (auto simp: emptyStore_def)
  have "queueKey witnessJob \<noteq> []" by (simp add: queueKey_def)
  then have cyc: "cyclicFrom [] (st_queue st) = [(queueKey witnessJob, QEntry (queueEntryOf witnessJob))]"
    by (cases "queueKey witnessJob") (auto simp: cyclicFrom_def q)
  from dispatch_scan_is_cyclic [OF inv, of 10 "[]" "\<lambda>_. []"] obtain jobs where
    "QueuedJobsFairWindow 10 [] (\<lambda>_. []) st = Inr (jobs, queueKey witnessJob)"
    "jobs = [projectEntry (queueEntryOf witnessJob)]"
    unfolding cyc by (auto simp: scanLimitOf_def)
  then show ?thesis using st by auto
qed

definition rivalJobs :: "job list" where
  "rivalJobs = [witnessJob, witnessJob\<lparr>job_ID := ''job-2''\<rparr>, witnessJob\<lparr>job_ID := ''job-3'', job_OwnerSubject := ''bob''\<rparr>]"


theorem last_served_producer_waits_witness:
  "\<exists>first rest. appendFairPriorityTier [] rivalJobs 1 ''alice'' = Some (first # rest)
     \<and> job_OwnerSubject first \<noteq> ''alice''"
  by (rule last_served_producer_waits) (simp_all add: rivalJobs_def witnessJob_def)

end
