(* ===== verification/Routing_Health.thy ===== *)
theory Routing_Health
  imports Failure_Codes
begin

text \<open>
  The per-route circuit breaker (\<open>internal/cluster/routing_health.go\<close>): a node carries a bounded
  list of records, one per producer scope and opaque route key. A tracked failure advances a record's
  streak (\<open>applyRoutingFailure\<close>); from the third failure on the circuit opens with an
  exponentially growing, capped cooldown; afterwards the route is in probation and one job may
  probe it (\<open>claimRoutingRecoveryProbe\<close>). \<open>recordRoutingOutcomeForOwnerRoute\<close> books the
  outcome of a job. Pointer updates of a record are functions on records, in-place slices are
  list functions.
\<close>

definition MaximumRoutingHealthRecords :: nat where "MaximumRoutingHealthRecords = 64"
definition MaximumRoutingHealthRecordsPerOwner :: nat where "MaximumRoutingHealthRecordsPerOwner = 8"
definition routingFailureThreshold :: u32 where "routingFailureThreshold = 3"
definition routingFailureWindow :: duration where "routingFailureWindow = 10 * minute"
definition routingInitialCooldown :: duration where "routingInitialCooldown = 30 * second"
definition routingMaximumCooldown :: duration where "routingMaximumCooldown = 15 * minute"

section \<open>Route identity\<close>

definition normalizedRoutingHealthLabel :: "goLib \<Rightarrow> string \<Rightarrow> string" where
  "normalizedRoutingHealthLabel L value =
     (let value = toLower L (trimSpace value)
      in if value = [] \<or> value = ''auto'' then ''*'' else cleanLabel value 200)"

definition opaqueRoutingHealthLabel :: "string \<Rightarrow> string" where
  "opaqueRoutingHealthLabel value = (let value = cleanLabel value 200 in if value = [] then ''*'' else value)"

definition canonicalSessionID :: "string \<Rightarrow> string" where
  "canonicalSessionID session = (let session = trimSpace session in if session = [] then ''default'' else session)"

definition routingHealthParts :: "goLib \<Rightarrow> requirements \<Rightarrow> string list" where
  "routingHealthParts L r =
     (let provider = normalizedRoutingHealthLabel L (req_Provider r) in
      [''contextbridge-routing-health-route-v2'', provider,
       normalizedRoutingHealthLabel L (req_Model r), normalizedRoutingHealthLabel L (req_Task r),
       normalizedRoutingHealthLabel L (req_Reasoning r)]
      @ (if provider = ''adapter'' then
           [normalizedRoutingHealthLabel L (req_AdapterProfile r), itoa (req_AdapterEndpointID r),
            opaqueRoutingHealthLabel (req_AdapterPrincipal r),
            opaqueRoutingHealthLabel (canonicalSessionID (req_SessionID r)),
            formatBool (req_AdapterFreshSession r), formatBool (req_AdapterEphemeralSession r),
            formatBool (req_AdapterSessionRecovery r)]
         else []))"

definition routingHealthKey :: "goLib \<Rightarrow> requirements \<Rightarrow> string \<times> string \<times> string" where
  "routingHealthKey L r =
     (sha256Hex L (joinWith nulByte (routingHealthParts L r)),
      normalizedRoutingHealthLabel L (req_Provider r), normalizedRoutingHealthLabel L (req_Model r))"

definition routingHealthOwnerScope :: "goLib \<Rightarrow> string \<Rightarrow> string" where
  "routingHealthOwnerScope L ownerSubject =
     (let ownerSubject = trimSpace ownerSubject in
      if ownerSubject = [] then []
      else sha256Hex L (''contextbridge-routing-health-owner-v1'' @ nulByte @ ownerSubject))"

definition validRoutingHealthRouteKey :: "string \<Rightarrow> bool" where
  "validRoutingHealthRouteKey value \<longleftrightarrow> length value = 64 \<and> hexDecodes value"

section \<open>Reading the records\<close>

definition routingHealthState :: "routingHealth \<Rightarrow> gotime \<Rightarrow> nat" where
  "routingHealthState health now =
     (if h_CircuitOpenUntil health > now then 3
      else if h_ConsecutiveFailures health \<ge> routingFailureThreshold \<and> h_CircuitOpenUntil health \<noteq> zeroTime then 2
      else if h_LastFailureAt health \<noteq> zeroTime \<and> \<not> now < h_LastFailureAt health
              \<and> timeSub now (h_LastFailureAt health) \<le> routingFailureWindow then 1
      else 0)"

definition routingHealthMoreSevere :: "routingHealth \<Rightarrow> nat \<Rightarrow> routingHealth \<Rightarrow> nat \<Rightarrow> bool" where
  "routingHealthMoreSevere candidate candidateState selected selectedState =
     (if candidateState \<noteq> selectedState then candidateState > selectedState
      else if candidateState \<ge> 2 \<and> h_CircuitOpenUntil candidate \<noteq> h_CircuitOpenUntil selected
      then h_CircuitOpenUntil candidate > h_CircuitOpenUntil selected
      else if h_ConsecutiveFailures candidate \<noteq> h_ConsecutiveFailures selected
      then h_ConsecutiveFailures candidate > h_ConsecutiveFailures selected
      else h_LastFailureAt candidate > h_LastFailureAt selected)"

fun selectRoutingHealth ::
  "string \<Rightarrow> string \<Rightarrow> gotime \<Rightarrow> routingHealth list \<Rightarrow> routingHealth option \<Rightarrow> routingHealth option" where
  "selectRoutingHealth routeKey ownerScope now [] selected = selected"
| "selectRoutingHealth routeKey ownerScope now (health # rest) selected =
     (if h_RouteKey health = [] \<or> h_RouteKey health \<noteq> routeKey
         \<or> (h_OwnerScope health \<noteq> [] \<and> (ownerScope = [] \<or> h_OwnerScope health \<noteq> ownerScope))
         \<or> routingHealthState health now = 0
      then selectRoutingHealth routeKey ownerScope now rest selected
      else selectRoutingHealth routeKey ownerScope now rest
        (case selected of
           None \<Rightarrow> Some health
         | Some s \<Rightarrow> if routingHealthMoreSevere health (routingHealthState health now) s (routingHealthState s now)
                     then Some health else Some s))"

definition routingHealthForOwnerAt ::
  "goLib \<Rightarrow> node \<Rightarrow> requirements \<Rightarrow> string \<Rightarrow> gotime \<Rightarrow> routingHealth option" where
  "routingHealthForOwnerAt L node requirements ownerSubject now =
     map_option (\<lambda>h. h\<lparr>h_OwnerScope := []\<rparr>)
       (selectRoutingHealth (fst (routingHealthKey L requirements))
          (routingHealthOwnerScope L ownerSubject) now (node_RoutingHealth node) None)"

definition trackRoutingFailure :: "string \<Rightarrow> bool" where
  "trackRoutingFailure code \<longleftrightarrow> code \<in>
     {FailureAdapterRateLimited, FailureAdapterTimeout, FailureAdapterAutomation,
      FailureProviderRouteUnavailable, FailureWorkerExecutionTimeout, FailureWorkerExecution,
      FailureWorkerResultRejected, FailureExecutionStateAmbiguous, FailureExecutionTimeoutAmbiguous}"

section \<open>Failures and cooldown\<close>

text \<open>The loop that doubles the cooldown; \<open>shift\<close> is the streak beyond the threshold.\<close>

fun cooldownLoop :: "nat \<Rightarrow> duration \<Rightarrow> duration" where
  "cooldownLoop 0 cooldown = cooldown"
| "cooldownLoop (Suc shift) cooldown =
     (if cooldown < routingMaximumCooldown then cooldownLoop shift (cooldown * 2) else cooldown)"

definition routingCooldown :: "u32 \<Rightarrow> duration" where
  "routingCooldown failures =
     (let cooldown = cooldownLoop (unat (failures - routingFailureThreshold)) routingInitialCooldown
      in if cooldown > routingMaximumCooldown then routingMaximumCooldown else cooldown)"

definition failureStreak :: "routingHealth \<Rightarrow> gotime \<Rightarrow> u32" where
  "failureStreak health now =
     (let streak = (if h_LastFailureAt health = zeroTime
                       \<or> timeSub now (h_LastFailureAt health) > routingFailureWindow
                       \<or> now < h_LastFailureAt health
                    then 0 else h_ConsecutiveFailures health)
      in if streak < - 1 then streak + 1 else streak)"

definition applyRoutingFailure :: "routingHealth \<Rightarrow> string \<Rightarrow> gotime \<Rightarrow> routingHealth" where
  "applyRoutingFailure health failureCode now =
     (let streak = failureStreak health now;
          health = health\<lparr>h_ConsecutiveFailures := streak, h_LastFailureCode := failureCode,
                          h_LastFailureAt := now\<rparr>
      in if streak \<ge> routingFailureThreshold
         then health\<lparr>h_CircuitOpenUntil := now + routingCooldown streak\<rparr> else health)"

definition refreshFailureWindow :: "routingHealth \<Rightarrow> gotime \<Rightarrow> routingHealth" where
  "refreshFailureWindow health now =
     (if h_LastFailureAt health = zeroTime \<or> now < h_LastFailureAt health
         \<or> timeSub now (h_LastFailureAt health) > routingFailureWindow
      then health\<lparr>h_LastFailureAt := now\<rparr> else health)"

definition applyRoutingProbeFailure :: "routingHealth \<Rightarrow> string \<Rightarrow> gotime \<Rightarrow> routingHealth" where
  "applyRoutingProbeFailure health failureCode now =
     applyRoutingFailure (refreshFailureWindow health now) failureCode now"

section \<open>Bounded storage\<close>

definition routingHealthScopeCount :: "routingHealth list \<Rightarrow> string \<Rightarrow> nat" where
  "routingHealthScopeCount records ownerScope =
     length (filter (\<lambda>r. h_OwnerScope r = ownerScope) records)"

fun oldestLoop :: "(routingHealth \<Rightarrow> bool) \<Rightarrow> routingHealth list \<Rightarrow> nat \<Rightarrow> (nat \<times> gotime) option \<Rightarrow> nat option" where
  "oldestLoop p [] i best = map_option fst best"
| "oldestLoop p (r # rs) i best =
     oldestLoop p rs (Suc i)
       (if p r \<and> (case best of None \<Rightarrow> True | Some (_, t) \<Rightarrow> h_LastFailureAt r < t)
        then Some (i, h_LastFailureAt r) else best)"

definition oldestRoutingHealthForScope :: "routingHealth list \<Rightarrow> string \<Rightarrow> nat option" where
  "oldestRoutingHealthForScope records ownerScope =
     oldestLoop (\<lambda>r. h_OwnerScope r = ownerScope \<and> h_ProbeJobID r = []) records 0 None"

definition oldestOwnerScopedRoutingHealth :: "routingHealth list \<Rightarrow> nat option" where
  "oldestOwnerScopedRoutingHealth records =
     oldestLoop (\<lambda>r. h_OwnerScope r \<noteq> [] \<and> h_ProbeJobID r = []) records 0 None"

definition boundedRoutingHealth :: "routingHealth list \<Rightarrow> routingHealth list" where
  "boundedRoutingHealth records =
     (if length records > MaximumRoutingHealthRecords
      then drop (length records - MaximumRoutingHealthRecords) records else records)"

section \<open>Booking an outcome\<close>

definition resolveOwnProbe ::
  "string \<Rightarrow> string \<Rightarrow> string \<Rightarrow> bool \<Rightarrow> string \<Rightarrow> gotime \<Rightarrow> routingHealth \<Rightarrow> routingHealth" where
  "resolveOwnProbe routeKey ownerScope jobID success failureCode now health =
     (let matchingOwnerProbe = (h_OwnerScope health = ownerScope);
          matchingGlobalProbe = (h_OwnerScope health = [] \<and> h_ProbeOwnerScope health = ownerScope);
          failedProbe = (\<not> success \<and> trackRoutingFailure failureCode)
      in if h_RouteKey health \<noteq> routeKey \<or> h_ProbeJobID health = [] \<or> h_ProbeJobID health \<noteq> jobID
            \<or> (\<not> matchingOwnerProbe \<and> \<not> matchingGlobalProbe)
         then health
         else let health = health\<lparr>h_ProbeJobID := [], h_ProbeOwnerScope := []\<rparr>;
                  health = (if failedProbe then refreshFailureWindow health now else health)
              in if failedProbe \<and> matchingGlobalProbe \<and> ownerScope \<noteq> []
                 then applyRoutingFailure health failureCode now else health)"

definition clearedBySuccess :: "string \<Rightarrow> string \<Rightarrow> string \<Rightarrow> routingHealth \<Rightarrow> bool" where
  "clearedBySuccess routeKey ownerScope jobID health \<longleftrightarrow>
     h_RouteKey health = routeKey
     \<and> (h_OwnerScope health = ownerScope \<or> (ownerScope \<noteq> [] \<and> h_OwnerScope health = []))
     \<and> (h_ProbeJobID health = [] \<or> h_ProbeJobID health = jobID)"

text \<open>Making room for a new record: the producer's own oldest unprobed record at its bound of eight,
  then, at the global bound, the producer's oldest, or for node-wide evidence any producer's oldest
  and at last the oldest node-wide one. \<open>None\<close> is the early return that drops the new evidence.\<close>

definition evictForOwner :: "string \<Rightarrow> routingHealth list \<Rightarrow> routingHealth list option" where
  "evictForOwner ownerScope records =
     (if ownerScope \<noteq> [] \<and> routingHealthScopeCount records ownerScope \<ge> MaximumRoutingHealthRecordsPerOwner
      then map_option (\<lambda>i. removeAt i records) (oldestRoutingHealthForScope records ownerScope)
      else Some records)"

definition evictForTotal :: "string \<Rightarrow> routingHealth list \<Rightarrow> routingHealth list option" where
  "evictForTotal ownerScope records =
     (if length records \<ge> MaximumRoutingHealthRecords
      then map_option (\<lambda>i. removeAt i records)
             (if ownerScope = []
              then (case oldestOwnerScopedRoutingHealth records of
                      None \<Rightarrow> oldestRoutingHealthForScope records []
                    | Some i \<Rightarrow> Some i)
              else oldestRoutingHealthForScope records ownerScope)
      else Some records)"

definition bookRoutingOutcome ::
  "string \<Rightarrow> string \<Rightarrow> string \<Rightarrow> string \<Rightarrow> string \<Rightarrow> bool \<Rightarrow> string \<Rightarrow> gotime
   \<Rightarrow> routingHealth list \<Rightarrow> routingHealth list" where
  "bookRoutingOutcome routeKey provider model ownerScope jobID success failureCode now before =
     (let index = findIndex (\<lambda>h. h_OwnerScope h = ownerScope \<and> h_RouteKey h = routeKey) before;
          records = map (resolveOwnProbe routeKey ownerScope jobID success failureCode now) before
      in if success then filter (\<lambda>h. \<not> clearedBySuccess routeKey ownerScope jobID h) records
         else if \<not> trackRoutingFailure failureCode then records
         else case index of
           Some i \<Rightarrow> records[i := applyRoutingFailure (records ! i) failureCode now]
         | None \<Rightarrow>
             (case evictForOwner ownerScope records of
                None \<Rightarrow> records
              | Some records \<Rightarrow>
                  (case evictForTotal ownerScope records of
                     None \<Rightarrow> records
                   | Some records \<Rightarrow> records @
                       [applyRoutingFailure (zeroHealth\<lparr>h_OwnerScope := ownerScope, h_RouteKey := routeKey,
                          h_Provider := provider, h_Model := model\<rparr>) failureCode now])))"

text \<open>The route key: the one admitted with the assignment, else the one of the requirements.\<close>

definition effectiveRouteKey :: "goLib \<Rightarrow> requirements \<Rightarrow> string \<Rightarrow> string" where
  "effectiveRouteKey L requirements admittedRouteKey =
     (if validRoutingHealthRouteKey admittedRouteKey then admittedRouteKey
      else fst (routingHealthKey L requirements))"

definition recordRoutingOutcomeForOwnerRoute ::
  "goLib \<Rightarrow> node \<Rightarrow> requirements \<Rightarrow> string \<Rightarrow> string \<Rightarrow> string \<Rightarrow> bool \<Rightarrow> string \<Rightarrow> gotime \<Rightarrow> node" where
  "recordRoutingOutcomeForOwnerRoute L node requirements ownerSubject admittedRouteKey jobID success failureCode now =
     node\<lparr>node_RoutingHealth :=
       bookRoutingOutcome (effectiveRouteKey L requirements admittedRouteKey)
         (fst (snd (routingHealthKey L requirements))) (snd (snd (routingHealthKey L requirements)))
         (routingHealthOwnerScope L ownerSubject) jobID success failureCode now
         (node_RoutingHealth node)\<rparr>"

section \<open>The recovery probe\<close>

text \<open>\<open>claimRoutingRecoveryProbeTx\<close>: every record of the route in probation, node-wide or of this
  producer, is claimed for the job, unless another job that still exists holds one of them. The
  result is the node with its claims and whether there was any; a job record that cannot be
  decoded is an error as in the code.\<close>

definition inProbation :: "string \<Rightarrow> string \<Rightarrow> gotime \<Rightarrow> routingHealth \<Rightarrow> bool" where
  "inProbation routeKey ownerScope now health \<longleftrightarrow>
     h_RouteKey health = routeKey \<and> (h_OwnerScope health = [] \<or> h_OwnerScope health = ownerScope)
     \<and> routingHealthState health now = 2"

fun claimLoop ::
  "job cell bucket \<Rightarrow> string \<Rightarrow> string \<Rightarrow> string \<Rightarrow> gotime \<Rightarrow> routingHealth list \<Rightarrow> routingHealth list result" where
  "claimLoop jobs routeKey ownerScope jobID now [] = Inr []"
| "claimLoop jobs routeKey ownerScope jobID now (health # rest) =
     (if \<not> inProbation routeKey ownerScope now health
      then bindE (claimLoop jobs routeKey ownerScope jobID now rest) (\<lambda>rest. Inr (health # rest))
      else bindE
        (if h_ProbeJobID health \<noteq> [] \<and> h_ProbeJobID health \<noteq> jobID
         then (case getJSON jobs (h_ProbeJobID health) of
                 Inr _ \<Rightarrow> Inl ErrRouteProbeInFlight
               | Inl e \<Rightarrow> failWhen (e \<noteq> ErrNotExist) e)
         else Inr ())
        (\<lambda>_. bindE (claimLoop jobs routeKey ownerScope jobID now rest)
           (\<lambda>rest. Inr (health\<lparr>h_ProbeJobID := jobID, h_ProbeOwnerScope := ownerScope\<rparr> # rest))))"

definition claimRoutingRecoveryProbeTx ::
  "goLib \<Rightarrow> store \<Rightarrow> node \<Rightarrow> requirements \<Rightarrow> string \<Rightarrow> string \<Rightarrow> string \<Rightarrow> gotime \<Rightarrow> (bool \<times> node) result" where
  "claimRoutingRecoveryProbeTx L st node requirements ownerSubject jobID admittedRouteKey now =
     (if node_ID node = [] then Inr (False, node)
      else let routeKey = effectiveRouteKey L requirements admittedRouteKey;
               ownerScope = routingHealthOwnerScope L ownerSubject
           in bindE (claimLoop (st_jobs st) routeKey ownerScope jobID now (node_RoutingHealth node))
                (\<lambda>records. Inr (list_ex (inProbation routeKey ownerScope now) (node_RoutingHealth node),
                                node\<lparr>node_RoutingHealth := records\<rparr>)))"

definition resolveProbe :: "string \<Rightarrow> string \<Rightarrow> gotime \<Rightarrow> routingHealth \<Rightarrow> routingHealth" where
  "resolveProbe jobID failureCode now health =
     (if h_ProbeJobID health \<noteq> jobID then health
      else let health = health\<lparr>h_ProbeJobID := [], h_ProbeOwnerScope := []\<rparr>
           in if trackRoutingFailure failureCode then applyRoutingProbeFailure health failureCode now else health)"

definition resolveRoutingRecoveryProbeTx ::
  "store \<Rightarrow> string \<Rightarrow> string \<Rightarrow> string \<Rightarrow> gotime \<Rightarrow> (bool \<times> store) result" where
  "resolveRoutingRecoveryProbeTx st nodeID jobID failureCode now =
     (if trimSpace nodeID = [] \<or> trimSpace jobID = [] then Inr (False, st)
      else case getJSON (st_nodes st) nodeID of
        Inl e \<Rightarrow> (if e = ErrNotExist then Inr (False, st) else Inl e)
      | Inr node \<Rightarrow>
          (if \<not> list_ex (\<lambda>h. h_ProbeJobID h = jobID) (node_RoutingHealth node) then Inr (False, st)
           else Inr (True, putNode (node_ID node)
                  (node\<lparr>node_RoutingHealth := map (resolveProbe jobID failureCode now) (node_RoutingHealth node)\<rparr>) st)))"

definition routingRecoveryProbeExistsTx :: "store \<Rightarrow> string \<Rightarrow> string \<Rightarrow> bool result" where
  "routingRecoveryProbeExistsTx st nodeID jobID =
     (if trimSpace nodeID = [] \<or> trimSpace jobID = [] then Inr False
      else case getJSON (st_nodes st) nodeID of
        Inl e \<Rightarrow> (if e = ErrNotExist then Inr False else Inl e)
      | Inr node \<Rightarrow> Inr (list_ex (\<lambda>h. h_ProbeJobID h = jobID) (node_RoutingHealth node)))"

definition recordNodeRoutingOutcomeTx ::
  "goLib \<Rightarrow> store \<Rightarrow> string \<Rightarrow> requirements \<Rightarrow> string \<Rightarrow> string \<Rightarrow> string \<Rightarrow> bool \<Rightarrow> string \<Rightarrow> gotime \<Rightarrow> store result" where
  "recordNodeRoutingOutcomeTx L st nodeID requirements ownerSubject admittedRouteKey jobID success failureCode now =
     (if trimSpace nodeID = [] then Inr st
      else case getJSON (st_nodes st) nodeID of
        Inl e \<Rightarrow> (if e = ErrNotExist then Inr st else Inl e)
      | Inr node \<Rightarrow>
          (let node = recordRoutingOutcomeForOwnerRoute L node requirements ownerSubject admittedRouteKey
                        jobID success failureCode now
           in Inr (putNode (node_ID node) node st)))"

section \<open>Cooldown and bounds\<close>


lemma routingMaximumCooldown_val: "routingMaximumCooldown = 900000000000"
  and routingInitialCooldown_val: "routingInitialCooldown = 30000000000"
  and routingFailureWindow_val: "routingFailureWindow = 600000000000"
  by (simp_all add: routingMaximumCooldown_def routingInitialCooldown_def routingFailureWindow_def
      minute_def second_def)

lemma cooldownLoop_min:
  "0 < c \<Longrightarrow> min (cooldownLoop n c) routingMaximumCooldown = min (c * 2 ^ n) routingMaximumCooldown"
proof (induction n arbitrary: c)
  case 0
  then show ?case by simp
next
  case (Suc n)
  show ?case
  proof (cases "c < routingMaximumCooldown")
    case True
    with Suc.IH [of "c * 2"] Suc.prems show ?thesis by (simp add: mult.assoc)
  next
    case False
    have "1 \<le> (2 :: int) ^ n" by simp
    then have "c * 1 \<le> c * (2 * 2 ^ n)" using Suc.prems by (intro mult_left_mono) linarith+
    then have "routingMaximumCooldown \<le> c * 2 ^ Suc n" using False by simp
    with False show ?thesis by (simp add: min_absorb2)
  qed
qed

lemma routingCooldown_closed:
  "routingCooldown f = min (routingInitialCooldown * 2 ^ unat (f - routingFailureThreshold)) routingMaximumCooldown"
  using cooldownLoop_min [of routingInitialCooldown "unat (f - routingFailureThreshold)"]
  by (simp add: routingCooldown_def Let_def routingInitialCooldown_val min_def split: if_splits)

lemma routingCooldown_bounds:
  "routingInitialCooldown \<le> routingCooldown f \<and> routingCooldown f \<le> routingMaximumCooldown"
proof -
  have "routingInitialCooldown * 1 \<le> routingInitialCooldown * 2 ^ unat (f - routingFailureThreshold)"
    by (intro mult_left_mono) (auto simp: routingInitialCooldown_val)
  then show ?thesis
    by (simp add: routingCooldown_closed routingInitialCooldown_val routingMaximumCooldown_val)
qed

lemma oldestLoop_Some:
  "oldestLoop p rs i best = Some k \<Longrightarrow>
   (\<exists>t. best = Some (k, t)) \<or> (i \<le> k \<and> k < i + length rs \<and> p (rs ! (k - i)))"
proof (induction rs arbitrary: i best)
  case Nil
  then show ?case by auto
next
  case (Cons r rs)
  let ?best = "if p r \<and> (case best of None \<Rightarrow> True | Some (_, t) \<Rightarrow> h_LastFailureAt r < t)
      then Some (i, h_LastFailureAt r) else best"
  from Cons.prems have "oldestLoop p rs (Suc i) ?best = Some k" by simp
  from Cons.IH [OF this] show ?case
  proof
    assume "\<exists>t. ?best = Some (k, t)"
    then show ?thesis by (auto split: if_splits)
  next
    assume *: "Suc i \<le> k \<and> k < Suc i + length rs \<and> p (rs ! (k - Suc i))"
    then have "(r # rs) ! (k - i) = rs ! (k - Suc i)"
      by (metis Suc_diff_Suc Suc_le_lessD nth_Cons_Suc)
    with * show ?thesis by auto
  qed
qed

lemma oldest_scope:
  "oldestRoutingHealthForScope rs s = Some k \<Longrightarrow>
   k < length rs \<and> h_OwnerScope (rs ! k) = s \<and> h_ProbeJobID (rs ! k) = []"
  by (auto simp: oldestRoutingHealthForScope_def dest: oldestLoop_Some)

lemma oldest_owner_scoped:
  "oldestOwnerScopedRoutingHealth rs = Some k \<Longrightarrow> k < length rs \<and> h_ProbeJobID (rs ! k) = []"
  by (auto simp: oldestOwnerScopedRoutingHealth_def dest: oldestLoop_Some)

definition healthBounded :: "routingHealth list \<Rightarrow> bool" where
  "healthBounded rs \<longleftrightarrow> length rs \<le> MaximumRoutingHealthRecords
     \<and> (\<forall>s. s \<noteq> [] \<longrightarrow> routingHealthScopeCount rs s \<le> MaximumRoutingHealthRecordsPerOwner)"

lemma refreshFailureWindow_scope [simp]:
  "h_OwnerScope (refreshFailureWindow h now) = h_OwnerScope h"
  "h_RouteKey (refreshFailureWindow h now) = h_RouteKey h"
  "h_ProbeJobID (refreshFailureWindow h now) = h_ProbeJobID h"
  by (simp_all add: refreshFailureWindow_def)

lemma applyRoutingFailure_scope [simp]:
  "h_OwnerScope (applyRoutingFailure h c now) = h_OwnerScope h"
  "h_RouteKey (applyRoutingFailure h c now) = h_RouteKey h"
  "h_ProbeJobID (applyRoutingFailure h c now) = h_ProbeJobID h"
  by (simp_all add: applyRoutingFailure_def Let_def)

lemma resolveOwnProbe_scope [simp]:
  "h_OwnerScope (resolveOwnProbe k s j ok c now h) = h_OwnerScope h"
  "h_RouteKey (resolveOwnProbe k s j ok c now h) = h_RouteKey h"
  by (simp_all add: resolveOwnProbe_def Let_def)

lemma scopeCount_append [simp]:
  "routingHealthScopeCount (xs @ [h]) s = routingHealthScopeCount xs s + (if h_OwnerScope h = s then 1 else 0)"
  by (simp add: routingHealthScopeCount_def)

lemma scopeCount_map:
  "(\<And>h. h_OwnerScope (f h) = h_OwnerScope h) \<Longrightarrow>
   routingHealthScopeCount (map f rs) s = routingHealthScopeCount rs s"
  by (simp add: routingHealthScopeCount_def filter_map comp_def)

lemma scopeCount_update:
  "h_OwnerScope x = h_OwnerScope (rs ! i) \<Longrightarrow>
   routingHealthScopeCount (rs[i := x]) s = routingHealthScopeCount rs s"
proof -
  assume same: "h_OwnerScope x = h_OwnerScope (rs ! i)"
  have "map h_OwnerScope (rs[i := x]) = map h_OwnerScope rs"
  proof (cases "i < length rs")
    case True
    then have "(map h_OwnerScope rs)[i := map h_OwnerScope rs ! i] = map h_OwnerScope rs"
      by (simp only: list_update_id)
    with True show ?thesis by (simp add: map_update same)
  next
    case False
    then show ?thesis by (simp add: list_update_beyond)
  qed
  then have "length (filter (\<lambda>o'. o' = s) (map h_OwnerScope (rs[i := x]))) =
    length (filter (\<lambda>o'. o' = s) (map h_OwnerScope rs))" by simp
  then show ?thesis by (simp add: routingHealthScopeCount_def filter_map comp_def)
qed

lemma scopeCount_removeAt:
  "i < length rs \<Longrightarrow> routingHealthScopeCount (removeAt i rs) s =
     routingHealthScopeCount rs s - (if h_OwnerScope (rs ! i) = s then 1 else 0)"
  by (simp add: routingHealthScopeCount_def filter_removeAt)

lemma evictForOwner_bounded:
  assumes "healthBounded rs" and "evictForOwner s rs = Some rs'"
  shows "healthBounded rs' \<and> length rs' \<le> length rs
    \<and> (s \<noteq> [] \<longrightarrow> routingHealthScopeCount rs' s < MaximumRoutingHealthRecordsPerOwner)"
proof (cases "s \<noteq> [] \<and> routingHealthScopeCount rs s \<ge> MaximumRoutingHealthRecordsPerOwner")
  case True
  with assms(2) obtain k where k: "oldestRoutingHealthForScope rs s = Some k"
    and rs': "rs' = removeAt k rs" by (auto simp: evictForOwner_def)
  from oldest_scope [OF k] have kl: "k < length rs" and ks: "h_OwnerScope (rs ! k) = s" by auto
  have le: "routingHealthScopeCount rs' t \<le> routingHealthScopeCount rs t" for t
    using kl by (simp add: rs' scopeCount_removeAt)
  have "routingHealthScopeCount rs' s = routingHealthScopeCount rs s - 1"
    using kl ks by (simp add: rs' scopeCount_removeAt)
  moreover have "routingHealthScopeCount rs s \<le> MaximumRoutingHealthRecordsPerOwner"
    using assms(1) True by (simp add: healthBounded_def)
  ultimately show ?thesis
    using assms(1) kl le True
    by (auto simp: healthBounded_def rs' length_removeAt MaximumRoutingHealthRecordsPerOwner_def
        intro: order_trans)
next
  case False
  with assms show ?thesis by (auto simp: evictForOwner_def)
qed

lemma evictForTotal_bounded:
  assumes "healthBounded rs" and "evictForTotal s rs = Some rs'"
  shows "length rs' < MaximumRoutingHealthRecords
    \<and> (\<forall>t. routingHealthScopeCount rs' t \<le> routingHealthScopeCount rs t)"
proof (cases "length rs \<ge> MaximumRoutingHealthRecords")
  case True
  with assms(2) obtain k where "k < length rs" and rs': "rs' = removeAt k rs"
    by (auto simp: evictForTotal_def dest!: oldest_scope oldest_owner_scoped
        split: if_splits option.splits)
  with assms(1) True show ?thesis
    by (auto simp: healthBounded_def length_removeAt scopeCount_removeAt
        MaximumRoutingHealthRecords_def)
next
  case False
  with assms(2) show ?thesis by (simp add: evictForTotal_def)
qed

lemma healthBounded_map:
  "(\<And>h. h_OwnerScope (f h) = h_OwnerScope h) \<Longrightarrow> healthBounded (map f rs) = healthBounded rs"
  by (simp add: healthBounded_def scopeCount_map)

lemma healthBounded_filter: "healthBounded rs \<Longrightarrow> healthBounded (filter p rs)"
proof -
  have "routingHealthScopeCount (filter p rs) s \<le> routingHealthScopeCount rs s" for s
    by (induction rs) (auto simp: routingHealthScopeCount_def)
  then show "healthBounded rs \<Longrightarrow> healthBounded (filter p rs)"
    by (auto simp: healthBounded_def intro: order_trans length_filter_le)
qed

lemma healthBounded_update:
  "h_OwnerScope x = h_OwnerScope (rs ! i) \<Longrightarrow> healthBounded (rs[i := x]) = healthBounded rs"
  by (simp add: healthBounded_def scopeCount_update)

lemma bookRoutingOutcome_bounded:
  assumes "healthBounded before"
  shows "healthBounded (bookRoutingOutcome rk provider model s jobID ok code now before)"
proof -
  define rs where "rs = map (resolveOwnProbe rk s jobID ok code now) before"
  have rs: "healthBounded rs"
    using assms by (simp add: rs_def healthBounded_map)
  have new: "healthBounded (rs2 @ [x])"
    if 1: "evictForOwner s rs = Some rs1" and 2: "evictForTotal s rs1 = Some rs2"
      and x: "h_OwnerScope x = s" for rs1 rs2 x
  proof -
    from evictForOwner_bounded [OF rs 1] have b1: "healthBounded rs1"
      and c1: "s \<noteq> [] \<longrightarrow> routingHealthScopeCount rs1 s < MaximumRoutingHealthRecordsPerOwner" by auto
    from evictForTotal_bounded [OF b1 2] have l2: "length rs2 < MaximumRoutingHealthRecords"
      and c2: "\<And>t. routingHealthScopeCount rs2 t \<le> routingHealthScopeCount rs1 t" by auto
    have "routingHealthScopeCount (rs2 @ [x]) t \<le> MaximumRoutingHealthRecordsPerOwner" if "t \<noteq> []" for t
      using c1 c2 [of t] b1 that x by (auto simp: healthBounded_def intro: order_trans Suc_leI)
    with l2 show ?thesis by (simp add: healthBounded_def)
  qed
  show ?thesis
    unfolding bookRoutingOutcome_def Let_def rs_def [symmetric]
    using rs new evictForOwner_bounded [OF rs]
    by (simp add: healthBounded_filter healthBounded_update split: option.splits)
qed

lemma record_bounded:
  "healthBounded (node_RoutingHealth n) \<Longrightarrow>
   healthBounded (node_RoutingHealth
    (recordRoutingOutcomeForOwnerRoute L n r owner key jobID ok code now))"
  by (simp add: recordRoutingOutcomeForOwnerRoute_def bookRoutingOutcome_bounded)

section \<open>The circuit\<close>

lemma applyRoutingFailure_streak:
  "h_ConsecutiveFailures (applyRoutingFailure h c now) = failureStreak h now"
  "h_LastFailureAt (applyRoutingFailure h c now) = now"
  by (simp_all add: applyRoutingFailure_def Let_def)

lemma failureStreak_within:
  assumes "h_LastFailureAt h \<noteq> 0" and "h_LastFailureAt h \<le> now"
    and "now - h_LastFailureAt h \<le> routingFailureWindow"
  shows "unat (failureStreak h now) = min (unat (h_ConsecutiveFailures h) + 1) (2 ^ 32 - 1)"
proof -
  have "timeSub now (h_LastFailureAt h) \<le> routingFailureWindow"
    using assms(3) by (simp add: timeSub_le_iff routingFailureWindow_val maxInt64_def)
  then have s: "failureStreak h now =
      (if h_ConsecutiveFailures h < - 1 then h_ConsecutiveFailures h + 1 else h_ConsecutiveFailures h)"
    using assms(1,2) by (simp add: failureStreak_def Let_def)
  have m: "unat (- 1 :: u32) = 2 ^ 32 - 1"
    by (simp add: unsigned_minus_1_eq_mask mask_eq_exp_minus_1)
  have b: "unat (h_ConsecutiveFailures h) < 2 ^ 32"
    using unsigned_less [of "h_ConsecutiveFailures h"] by simp
  show ?thesis
  proof (cases "h_ConsecutiveFailures h < - 1")
    case True
    then have "unat (h_ConsecutiveFailures h) < 2 ^ 32 - 1"
      using m by (simp add: word_less_nat_alt)
    then show ?thesis using True by (simp add: s unat_word_ariths)
  next
    case False
    then have "unat (h_ConsecutiveFailures h) = 2 ^ 32 - 1"
      using m b by (simp add: word_less_nat_alt)
    then show ?thesis using False by (simp add: s)
  qed
qed

lemma failureStreak_fresh:
  "h_LastFailureAt h = 0 \<or> routingFailureWindow < now - h_LastFailureAt h \<or> now < h_LastFailureAt h
   \<Longrightarrow> failureStreak h now = 1"
proof -
  have "(0 :: u32) < - 1" by (simp add: word_neq_0_conv [symmetric])
  then show "h_LastFailureAt h = 0 \<or> routingFailureWindow < now - h_LastFailureAt h \<or> now < h_LastFailureAt h
     \<Longrightarrow> failureStreak h now = 1"
    by (auto simp: failureStreak_def Let_def timeSub_def routingFailureWindow_val minInt64_def maxInt64_def)
qed

text \<open>Once the streak reaches the threshold, the circuit is open for exactly the cooldown and the
  route is in probation afterwards.\<close>

lemma applyRoutingFailure_circuit:
  assumes "routingFailureThreshold \<le> failureStreak h now" and "0 < now"
  shows "routingHealthState (applyRoutingFailure h c now) t =
    (if t < now + routingCooldown (failureStreak h now) then 3 else 2)"
  using assms routingCooldown_bounds [of "failureStreak h now"]
  by (auto simp: routingHealthState_def applyRoutingFailure_def Let_def routingInitialCooldown_val)

lemma threshold_iff: "routingFailureThreshold \<le> f \<longleftrightarrow> 3 \<le> unat f"
  by (simp add: routingFailureThreshold_def word_le_nat_alt)

section \<open>What the scheduler reads\<close>

definition healthMatches :: "string \<Rightarrow> string \<Rightarrow> gotime \<Rightarrow> routingHealth \<Rightarrow> bool" where
  "healthMatches routeKey ownerScope now h \<longleftrightarrow>
     h_RouteKey h \<noteq> [] \<and> h_RouteKey h = routeKey
     \<and> (h_OwnerScope h = [] \<or> (ownerScope \<noteq> [] \<and> h_OwnerScope h = ownerScope))
     \<and> routingHealthState h now \<noteq> 0"

lemma moreSevere_state:
  "\<not> routingHealthMoreSevere h a s b \<Longrightarrow> a \<le> b"
  "routingHealthMoreSevere h a s b \<Longrightarrow> b \<le> a"
  by (auto simp: routingHealthMoreSevere_def split: if_splits)

lemma selectRoutingHealth_spec:
  "selectRoutingHealth k s now rs sel = res \<Longrightarrow>
   (\<forall>x. res = Some x \<longrightarrow> (\<exists>y. sel = Some y \<and> x = y) \<or> (x \<in> set rs \<and> healthMatches k s now x)) \<and>
   (\<forall>h. (sel = Some h \<or> (h \<in> set rs \<and> healthMatches k s now h)) \<longrightarrow>
      (\<exists>x. res = Some x \<and> routingHealthState h now \<le> routingHealthState x now))"
proof (induction rs arbitrary: sel)
  case Nil
  then show ?case by auto
next
  case (Cons r rs)
  show ?case
  proof (cases "healthMatches k s now r")
    case False
    then have "selectRoutingHealth k s now rs sel = res"
      using Cons.prems by (auto simp: healthMatches_def split: if_splits)
    from Cons.IH [OF this] False show ?thesis by auto
  next
    case True
    define sel' where "sel' = (case sel of None \<Rightarrow> Some r
      | Some y \<Rightarrow> if routingHealthMoreSevere r (routingHealthState r now) y (routingHealthState y now)
                  then Some r else Some y)"
    have step: "selectRoutingHealth k s now rs sel' = res"
      using Cons.prems True by (auto simp: healthMatches_def sel'_def split: if_splits)
    have from_sel: "sel' = Some x \<Longrightarrow> x = r \<or> sel = Some x" for x
      by (auto simp: sel'_def split: option.splits if_splits)
    have ge: "\<exists>x. sel' = Some x \<and> routingHealthState h now \<le> routingHealthState x now"
      if "h = r \<or> sel = Some h" for h
      using that moreSevere_state
      by (auto simp: sel'_def split: option.splits)
    from Cons.IH [OF step] show ?thesis
      using from_sel ge True by (metis (no_types, lifting) list.set_intros(1,2) order_trans set_ConsD)
  qed
qed

lemma routingHealthForOwnerAt_max:
  assumes "h \<in> set (node_RoutingHealth n)"
    and "healthMatches (fst (routingHealthKey L r)) (routingHealthOwnerScope L owner) now h"
  shows "\<exists>x. routingHealthForOwnerAt L n r owner now = Some x
    \<and> routingHealthState h now \<le> routingHealthState x now"
proof -
  obtain x where x: "selectRoutingHealth (fst (routingHealthKey L r)) (routingHealthOwnerScope L owner)
      now (node_RoutingHealth n) None = Some x"
    and le: "routingHealthState h now \<le> routingHealthState x now"
    using selectRoutingHealth_spec [OF refl] assms by blast
  have "routingHealthState (x\<lparr>h_OwnerScope := []\<rparr>) now = routingHealthState x now"
    by (simp add: routingHealthState_def)
  with x le show ?thesis by (simp add: routingHealthForOwnerAt_def)
qed

section \<open>Claims of the recovery probe\<close>

lemma claimLoop_spec:
  "claimLoop jobs k s j now rs = Inr rs' \<Longrightarrow>
   rs' = map (\<lambda>h. if inProbation k s now h then h\<lparr>h_ProbeJobID := j, h_ProbeOwnerScope := s\<rparr> else h) rs
   \<and> (\<forall>h \<in> set rs. inProbation k s now h \<longrightarrow>
        h_ProbeJobID h = [] \<or> h_ProbeJobID h = j \<or> bget jobs (h_ProbeJobID h) = None)"
proof (induction rs arbitrary: rs')
  case Nil
  then show ?case by simp
next
  case (Cons h rs)
  then show ?case
    by (auto simp: result_simps getJSON_def split: if_splits sum.splits option.splits cell.splits)
      (metis option.distinct(1))+
qed

lemma claimLoop_in_flight:
  assumes "h \<in> set rs" and "inProbation k s now h" and "h_ProbeJobID h = other"
    and "other \<noteq> []" and "other \<noteq> j" and "bget jobs other = Some v"
  shows "\<exists>e. claimLoop jobs k s j now rs = Inl e"
proof (cases "claimLoop jobs k s j now rs")
  case (Inr rs')
  from claimLoop_spec [OF this] assms show ?thesis by auto
qed simp

section \<open>Properties\<close>

text \<open>a tracked failure on a route whose streak already counts two recent failures opens the
  circuit: at every moment of the following initial cooldown the record that the scheduler reads for
  that producer and route has its circuit open, so the route is rejected.\<close>

theorem tracked_failure_opens_circuit:
  assumes idx: "findIndex (\<lambda>h. h_OwnerScope h = routingHealthOwnerScope L owner
                  \<and> h_RouteKey h = fst (routingHealthKey L r)) (node_RoutingHealth n) = Some i"
    and key: "h_RouteKey (node_RoutingHealth n ! i) \<noteq> []"
    and probe: "h_ProbeJobID (node_RoutingHealth n ! i) = []"
    and recent: "0 < h_LastFailureAt (node_RoutingHealth n ! i)"
      "h_LastFailureAt (node_RoutingHealth n ! i) \<le> now"
      "now - h_LastFailureAt (node_RoutingHealth n ! i) \<le> routingFailureWindow"
    and streak: "2 \<le> unat (h_ConsecutiveFailures (node_RoutingHealth n ! i))"
    and code: "trackRoutingFailure code"
    and t: "now \<le> t" "t < now + routingInitialCooldown"
  shows "\<exists>x. routingHealthForOwnerAt L
      (recordRoutingOutcomeForOwnerRoute L n r owner [] jobID False code now) r owner t = Some x
    \<and> t < h_CircuitOpenUntil x"
proof -
  let ?s = "routingHealthOwnerScope L owner" and ?k = "fst (routingHealthKey L r)"
  let ?h = "node_RoutingHealth n ! i"
  let ?n = "recordRoutingOutcomeForOwnerRoute L n r owner [] jobID False code now"
  have i: "i < length (node_RoutingHealth n)" "h_OwnerScope ?h = ?s" "h_RouteKey ?h = ?k"
    using findIndex_Some [OF idx] by auto
  let ?x = "applyRoutingFailure ?h code now"
  have same: "resolveOwnProbe k s jobID False code now ?h = ?h" for k s
    using probe by (simp add: resolveOwnProbe_def)
  have "?x \<in> set (node_RoutingHealth ?n)"
    using i(1) code idx same
    by (simp add: recordRoutingOutcomeForOwnerRoute_def bookRoutingOutcome_def effectiveRouteKey_def
        validRoutingHealthRouteKey_def set_update_memI)
  moreover have "routingFailureThreshold \<le> failureStreak ?h now"
    using failureStreak_within [of ?h now] recent streak by (simp add: threshold_iff)
  then have st: "routingHealthState ?x t = 3"
    using applyRoutingFailure_circuit [of ?h now code t] recent t
      routingCooldown_bounds [of "failureStreak ?h now"] by simp
  then have "healthMatches ?k ?s t ?x"
    using i key by (auto simp: healthMatches_def)
  ultimately obtain x where x: "routingHealthForOwnerAt L ?n r owner t = Some x"
    and le: "routingHealthState ?x t \<le> routingHealthState x t"
    using routingHealthForOwnerAt_max by blast
  then have "t < h_CircuitOpenUntil x"
    using st by (auto simp: routingHealthState_def split: if_splits)
  with x show ?thesis by blast
qed

definition witnessHealth :: routingHealth where
  "witnessHealth = zeroHealth\<lparr>h_RouteKey := hexEncode (replicate 32 (CHR ''0'')),
     h_ConsecutiveFailures := 2, h_LastFailureAt := 1000\<rparr>"

theorem tracked_failure_opens_circuit_witness:
  "\<exists>x. routingHealthForOwnerAt plainLib
      (recordRoutingOutcomeForOwnerRoute plainLib (zeroNode\<lparr>node_RoutingHealth := [witnessHealth]\<rparr>)
        zeroRequirements [] [] ''job'' False FailureWorkerExecution 2000) zeroRequirements [] 3000 = Some x
    \<and> 3000 < h_CircuitOpenUntil x"
  by (rule tracked_failure_opens_circuit [where i = 0])
    (simp_all add: zero_defs witnessHealth_def plainLib_def routingHealthKey_def sha256Hex_def
      routingHealthOwnerScope_def trackRoutingFailure_def routingFailureWindow_val
      routingInitialCooldown_val hexEncode_def)

text \<open>A successful job clears the route: unless another job still probes it, the scheduler
  afterwards finds no health record for that producer and route, at any time.\<close>

theorem success_clears_route:
  assumes "\<forall>h \<in> set (node_RoutingHealth n). h_RouteKey h = fst (routingHealthKey L r) \<longrightarrow>
      h_ProbeJobID h = [] \<or> h_ProbeJobID h = jobID"
  shows "routingHealthForOwnerAt L
    (recordRoutingOutcomeForOwnerRoute L n r owner [] jobID True code now) r owner t = None"
proof (rule ccontr)
  let ?s = "routingHealthOwnerScope L owner" and ?k = "fst (routingHealthKey L r)"
  let ?n = "recordRoutingOutcomeForOwnerRoute L n r owner [] jobID True code now"
  assume "routingHealthForOwnerAt L ?n r owner t \<noteq> None"
  then obtain x where "selectRoutingHealth ?k ?s t (node_RoutingHealth ?n) None = Some x"
    by (auto simp: routingHealthForOwnerAt_def)
  from selectRoutingHealth_spec [OF this] have x: "x \<in> set (node_RoutingHealth ?n)"
    and m: "healthMatches ?k ?s t x" by auto
  from x obtain h where h: "h \<in> set (node_RoutingHealth n)"
    and xh: "x = resolveOwnProbe ?k ?s jobID True code now h"
    and kept: "\<not> clearedBySuccess ?k ?s jobID x"
    by (auto simp: recordRoutingOutcomeForOwnerRoute_def bookRoutingOutcome_def effectiveRouteKey_def
        validRoutingHealthRouteKey_def)
  have "h_RouteKey h = ?k" using m xh by (simp add: healthMatches_def)
  with assms h have "h_ProbeJobID h = [] \<or> h_ProbeJobID h = jobID" by blast
  then have "h_ProbeJobID x = [] \<or> h_ProbeJobID x = jobID"
    by (auto simp: xh resolveOwnProbe_def Let_def)
  with m kept show False by (auto simp: healthMatches_def clearedBySuccess_def)
qed

theorem success_clears_route_witness:
  "routingHealthForOwnerAt plainLib
     (recordRoutingOutcomeForOwnerRoute plainLib (zeroNode\<lparr>node_RoutingHealth := [witnessHealth]\<rparr>)
        zeroRequirements [] [] ''job'' True [] 2000) zeroRequirements [] 3000 = None"
  by (rule success_clears_route) (simp add: zero_defs witnessHealth_def)

text \<open>A recovery probe that ends in a tracked failure reopens the circuit at once, for at least
  the initial cooldown and however long ago the previous failure was, and releases the claim.\<close>

theorem failed_probe_reopens_circuit:
  assumes "inProbation k s now h" and "h_ProbeJobID h = jobID" and "trackRoutingFailure code" and "0 < now"
  shows "routingHealthState (resolveProbe jobID code now h) now = 3
    \<and> h_ProbeJobID (resolveProbe jobID code now h) = []
    \<and> now + routingInitialCooldown \<le> h_CircuitOpenUntil (resolveProbe jobID code now h)"
proof -
  define g where "g = refreshFailureWindow (h\<lparr>h_ProbeJobID := [], h_ProbeOwnerScope := []\<rparr>) now"
  have three: "3 \<le> unat (h_ConsecutiveFailures h)"
    using assms(1) by (auto simp: inProbation_def routingHealthState_def threshold_iff split: if_splits)
  have "h_LastFailureAt g \<noteq> 0 \<and> h_LastFailureAt g \<le> now \<and> now - h_LastFailureAt g \<le> routingFailureWindow
      \<and> h_ConsecutiveFailures g = h_ConsecutiveFailures h"
    using assms(4)
    by (auto simp: g_def refreshFailureWindow_def timeSub_le_iff not_less not_le routingFailureWindow_val
        maxInt64_def)
  then have "routingFailureThreshold \<le> failureStreak g now"
    using failureStreak_within [of g now] three by (simp add: threshold_iff)
  then show ?thesis
    using applyRoutingFailure_circuit [of g now code now] assms
      routingCooldown_bounds [of "failureStreak g now"]
    by (auto simp: resolveProbe_def g_def applyRoutingProbeFailure_def routingInitialCooldown_val)
      (simp add: applyRoutingFailure_def Let_def)
qed

theorem failed_probe_reopens_circuit_witness:
  "routingHealthState (resolveProbe ''job'' FailureWorkerExecution (10 ^ 15)
     (witnessHealth\<lparr>h_ConsecutiveFailures := 3, h_CircuitOpenUntil := 2000, h_ProbeJobID := ''job''\<rparr>)) (10 ^ 15) = 3"
  using failed_probe_reopens_circuit [of "h_RouteKey witnessHealth" "[]" "10 ^ 15"
      "witnessHealth\<lparr>h_ConsecutiveFailures := 3, h_CircuitOpenUntil := 2000, h_ProbeJobID := ''job''\<rparr>"
      "''job''" FailureWorkerExecution]
  by (simp add: inProbation_def witnessHealth_def zero_defs routingHealthState_def trackRoutingFailure_def
      routingFailureThreshold_def)

lemma inProbation_probe [simp]:
  "inProbation k s now (h\<lparr>h_ProbeJobID := j, h_ProbeOwnerScope := o'\<rparr>) = inProbation k s now h"
  by (simp add: inProbation_def routingHealthState_def)

lemma inProbation_later:
  "inProbation k s now h \<Longrightarrow> now \<le> now' \<Longrightarrow> inProbation k s now' h"
  by (auto simp: inProbation_def routingHealthState_def split: if_splits)

text \<open>the recovery probe is single-flight: once a job holds the claim of a route in probation,
  every later claim by another job of the same producer and route is refused for as long as the
  first job is in the store.\<close>

theorem recovery_probe_single_flight:
  assumes first: "claimRoutingRecoveryProbeTx L st n r owner a key now = Inr (True, claimed)"
    and same: "node_RoutingHealth stored = node_RoutingHealth claimed" "node_ID stored = node_ID claimed"
    and alive: "a \<noteq> []" "bget (st_jobs st') a = Some c"
    and second: "b \<noteq> a" "now \<le> now'"
  shows "\<exists>e. claimRoutingRecoveryProbeTx L st' stored r owner b key now' = Inl e"
proof -
  let ?k = "effectiveRouteKey L r key" and ?s = "routingHealthOwnerScope L owner"
  have id: "node_ID n \<noteq> []" and loop: "claimLoop (st_jobs st) ?k ?s a now (node_RoutingHealth n) =
      Inr (node_RoutingHealth claimed)" and id1: "node_ID claimed = node_ID n"
    and ex: "list_ex (inProbation ?k ?s now) (node_RoutingHealth n)"
    using first by (auto simp: claimRoutingRecoveryProbeTx_def Let_def result_simps split: if_splits)
  from ex obtain h where h: "h \<in> set (node_RoutingHealth n)" "inProbation ?k ?s now h"
    by (auto simp: list_ex_iff)
  let ?h = "h\<lparr>h_ProbeJobID := a, h_ProbeOwnerScope := ?s\<rparr>"
  have "?h \<in> set (node_RoutingHealth stored)"
    using claimLoop_spec [OF loop] h same(1) by auto
  moreover have "inProbation ?k ?s now' ?h"
    using inProbation_later [OF h(2) second(2)] by simp
  ultimately have "\<exists>e. claimLoop (st_jobs st') ?k ?s b now' (node_RoutingHealth stored) = Inl e"
    by (rule claimLoop_in_flight [where other = a]) (use alive second in auto)
  with same(2) id id1 show ?thesis by (auto simp: claimRoutingRecoveryProbeTx_def Let_def)
qed

definition witnessProbed :: node where
  "witnessProbed = zeroNode\<lparr>node_ID := ''n'', node_RoutingHealth :=
     [witnessHealth\<lparr>h_ConsecutiveFailures := 3, h_CircuitOpenUntil := 2000\<rparr>]\<rparr>"

theorem recovery_probe_single_flight_witness:
  "\<exists>e. claimRoutingRecoveryProbeTx plainLib (emptyStore\<lparr>st_jobs := [(''a'', Val zeroJob)]\<rparr>)
     (witnessProbed\<lparr>node_RoutingHealth := [witnessHealth\<lparr>h_ConsecutiveFailures := 3,
        h_CircuitOpenUntil := 2000, h_ProbeJobID := ''a''\<rparr>]\<rparr>)
     zeroRequirements [] ''b'' [] 4000 = Inl e"
  by (rule recovery_probe_single_flight [where a = "''a''" and st = emptyStore and n = witnessProbed
        and now = 3000 and c = "Val zeroJob" and claimed = "witnessProbed\<lparr>node_RoutingHealth :=
          [witnessHealth\<lparr>h_ConsecutiveFailures := 3, h_CircuitOpenUntil := 2000, h_ProbeJobID := ''a''\<rparr>]\<rparr>"])
    (simp_all add: claimRoutingRecoveryProbeTx_def witnessProbed_def zero_defs witnessHealth_def plainLib_def
      routingHealthKey_def sha256Hex_def routingHealthOwnerScope_def inProbation_def routingHealthState_def
      effectiveRouteKey_def validRoutingHealthRouteKey_def hexEncode_def hexDigit_def routingFailureThreshold_def
      bget_def emptyStore_def)

text \<open>booking any outcome keeps a node's evidence bounded: at most 64 records, and at most 8 for
  each producer scope.\<close>

theorem routing_health_bounded:
  assumes "healthBounded (node_RoutingHealth n)"
  shows "healthBounded (node_RoutingHealth
    (recordRoutingOutcomeForOwnerRoute L n r owner key jobID ok code now))"
  using assms by (rule record_bounded)

theorem routing_health_bounded_witness:
  "healthBounded (node_RoutingHealth (recordRoutingOutcomeForOwnerRoute plainLib witnessProbed
     zeroRequirements ''o'' [] ''b'' False FailureWorkerExecution 5000))"
  by (rule routing_health_bounded)
    (simp add: healthBounded_def witnessProbed_def zero_defs MaximumRoutingHealthRecords_def
      MaximumRoutingHealthRecordsPerOwner_def routingHealthScopeCount_def)

text \<open>C39: the cooldown doubles with every failure after the third and is capped: 30 seconds times
  two to the number of further failures, at most 15 minutes.\<close>

theorem routing_cooldown_exponential_capped:
  "routingCooldown f = min (30 * second * 2 ^ unat (f - 3)) (15 * minute)"
  using routingCooldown_closed [of f]
  by (simp add: routingInitialCooldown_def routingMaximumCooldown_def routingFailureThreshold_def)

end
