(* ===== verification/Routing_Performance.thy ===== *)
theory Routing_Performance
  imports Routing_Health
begin

text \<open>
  Learned execution times (\<open>internal/cluster/routing_performance.go\<close>). A node keeps, per route,
  an exponentially weighted estimate of the compute time of its successful jobs, once for the route,
  once per load class and once per workload profile, each with its most recent samples. All these
  tables are bounded; a new entry of a full table replaces the one that completed longest ago. The
  load class of a node is computed in the scheduling theories. \<open>float64\<close> weights of the policy are
  reals.
\<close>

definition MaximumRoutingPerformanceRecords :: nat where "MaximumRoutingPerformanceRecords = 64"
definition MaximumRoutingLoadProfilesPerRoute :: nat where "MaximumRoutingLoadProfilesPerRoute = 12"
definition MaximumRuntimeProfilesPerRoute :: nat where "MaximumRuntimeProfilesPerRoute = 16"
definition MaximumRoutingDurationSamples :: nat where "MaximumRoutingDurationSamples = 32"
definition routingPerformanceEWMAWeight :: u64 where "routingPerformanceEWMAWeight = 8"
definition routingPerformanceSourceContext :: string where "routingPerformanceSourceContext = ''load_context''"
definition routingPerformanceSourceRouteBaseline :: string where "routingPerformanceSourceRouteBaseline = ''route_baseline''"
definition runtimeProfileRouteWorkloadLoad :: string where "runtimeProfileRouteWorkloadLoad = ''node_route_load_workload''"
definition runtimeProfilePipelineStepWorkloadLoad :: string where
  "runtimeProfilePipelineStepWorkloadLoad = ''node_route_pipeline_step_load_workload''"

lemmas performance_limits = MaximumRoutingPerformanceRecords_def MaximumRoutingLoadProfilesPerRoute_def
  MaximumRuntimeProfilesPerRoute_def MaximumRoutingDurationSamples_def

record runtimeProfileIdentity =
  rpi_key :: string
  rpi_kind :: string

record placementPolicy =
  pp_PerformanceLearning :: bool
  pp_MinimumSamples :: u32
  pp_HistoryTTL :: duration
  pp_LatencyWeight :: real
  pp_MaxLatencyPenalty :: real

record routingPerformanceEstimate =
  est_Samples :: u32
  est_EWMAComputeMS :: u64
  est_LastCompletedAt :: gotime
  est_Source :: string

definition DefaultPlacementPolicy :: placementPolicy where
  "DefaultPlacementPolicy = \<lparr>pp_PerformanceLearning = True, pp_MinimumSamples = 3, pp_HistoryTTL = 7 * 24 * hour,
     pp_LatencyWeight = 12, pp_MaxLatencyPenalty = 60\<rparr>"

definition normalizePlacementPolicy :: "placementPolicy \<Rightarrow> placementPolicy" where
  "normalizePlacementPolicy policy =
     (let defaults = DefaultPlacementPolicy in
      policy\<lparr>pp_MinimumSamples := (if pp_MinimumSamples policy = 0 then pp_MinimumSamples defaults else pp_MinimumSamples policy),
             pp_HistoryTTL := (if pp_HistoryTTL policy \<le> 0 then pp_HistoryTTL defaults else pp_HistoryTTL policy),
             pp_LatencyWeight := (if pp_LatencyWeight policy \<le> 0 then pp_LatencyWeight defaults else pp_LatencyWeight policy),
             pp_MaxLatencyPenalty := (if pp_MaxLatencyPenalty policy \<le> 0 then pp_MaxLatencyPenalty defaults
                                      else pp_MaxLatencyPenalty policy)\<rparr>)"

definition validRoutingPerformanceContext :: "string \<Rightarrow> bool" where
  "validRoutingPerformanceContext value \<longleftrightarrow>
     list_ex (\<lambda>loadClass. list_ex (\<lambda>warmth. value = loadClass @ '':'' @ warmth) [''warm'', ''cold'', ''unknown''])
       [''idle'', ''light'', ''moderate'', ''high'']"

section \<open>Samples\<close>

definition boundedDurationSamples :: "u64 list \<Rightarrow> u64 list" where
  "boundedDurationSamples values = rev (take MaximumRoutingDurationSamples (filter (\<lambda>v. v \<noteq> 0) (rev values)))"

definition appendBoundedDuration :: "u64 list \<Rightarrow> u64 \<Rightarrow> u64 list" where
  "appendBoundedDuration existing value =
     (let existing = boundedDurationSamples existing in
      if value = 0 then existing
      else if length existing = MaximumRoutingDurationSamples then tl existing @ [value]
      else existing @ [value])"

definition boundedRoutingDurationSamples :: "routingDurationSample list \<Rightarrow> routingDurationSample list" where
  "boundedRoutingDurationSamples values =
     rev (take MaximumRoutingDurationSamples
            (filter (\<lambda>s. \<not> (smp_ComputeMS s = 0 \<or> smp_CompletedAt s = 0)) (rev values)))"

definition appendBoundedDurationSample :: "routingDurationSample list \<Rightarrow> u64 \<Rightarrow> gotime \<Rightarrow> routingDurationSample list" where
  "appendBoundedDurationSample existing computeMS completedAt =
     (let existing = boundedRoutingDurationSamples existing;
          sample = \<lparr>smp_ComputeMS = computeMS, smp_CompletedAt = completedAt\<rparr> in
      if computeMS = 0 \<or> completedAt = 0 then existing
      else if length existing = MaximumRoutingDurationSamples then tl existing @ [sample]
      else existing @ [sample])"

definition freshRoutingDurationSamples :: "routingDurationSample list \<Rightarrow> duration \<Rightarrow> gotime \<Rightarrow> routingDurationSample list" where
  "freshRoutingDurationSamples values ttl now =
     sort_key smp_CompletedAt
       (filter (\<lambda>s. \<not> (timeSub now (smp_CompletedAt s) < 0 \<or> timeSub now (smp_CompletedAt s) > ttl))
          (boundedRoutingDurationSamples values))"

text \<open>\<open>updateRoutingPerformanceSample\<close> on the values it points to: samples, estimate, last time and
  its date.\<close>

definition clampedObservation :: "u32 \<Rightarrow> u64 \<Rightarrow> u64 \<Rightarrow> u64" where
  "clampedObservation samples estimate computeMS =
     (if samples \<ge> 3
      then let upper = (if estimate > - 1 div 4 then - 1 else estimate * 4);
               lower = estimate div 4
           in if computeMS > upper then upper else if computeMS < lower then lower else computeMS
      else computeMS)"

definition updateRoutingPerformanceSample ::
  "u32 \<times> u64 \<times> u64 \<times> gotime \<Rightarrow> u64 \<Rightarrow> gotime \<Rightarrow> u32 \<times> u64 \<times> u64 \<times> gotime" where
  "updateRoutingPerformanceSample state computeMS completedAt =
     (case state of (samples, estimate, _, _) \<Rightarrow>
       let estimate' =
         (if samples = 0 \<or> estimate = 0 then computeMS
          else let observation = clampedObservation samples estimate computeMS in
               if observation \<ge> estimate
               then let delta = observation - estimate;
                        step = delta div routingPerformanceEWMAWeight;
                        step = (if delta mod routingPerformanceEWMAWeight \<noteq> 0 then step + 1 else step)
                    in estimate + step
               else estimate - (estimate - observation) div routingPerformanceEWMAWeight);
           samples' = (if samples < - 1 then samples + 1 else samples)
       in (samples', estimate', computeMS, completedAt))"

section \<open>Bounded tables\<close>

text \<open>The scan for the entry that completed longest ago, first of equals.\<close>

fun oldestScan :: "nat \<Rightarrow> nat \<Rightarrow> gotime \<Rightarrow> gotime list \<Rightarrow> nat" where
  "oldestScan i oldest best [] = oldest"
| "oldestScan i oldest best (t # rest) =
     (if t < best then oldestScan (Suc i) i t rest else oldestScan (Suc i) oldest best rest)"

definition oldestIndex :: "gotime list \<Rightarrow> nat" where
  "oldestIndex dates = (case dates of [] \<Rightarrow> 0 | t # rest \<Rightarrow> oldestScan 1 0 t rest)"

text \<open>Find the entry and change it; a missing entry is appended, after the oldest one of a full table
  was dropped.\<close>

definition upsertBounded :: "('a \<Rightarrow> bool) \<Rightarrow> ('a \<Rightarrow> gotime) \<Rightarrow> nat \<Rightarrow> 'a \<Rightarrow> ('a \<Rightarrow> 'a) \<Rightarrow> 'a list \<Rightarrow> 'a list" where
  "upsertBounded wanted completedAt limit fresh change xs =
     (case findIndex wanted xs of
        Some i \<Rightarrow> xs[i := change (xs ! i)]
      | None \<Rightarrow> (if length xs \<ge> limit then removeAt (oldestIndex (map completedAt xs)) xs else xs) @ [change fresh])"

section \<open>Workload profiles\<close>

definition boundedDurationClass :: "int \<Rightarrow> string" where
  "boundedDurationClass milliseconds =
     (if milliseconds \<le> 0 then ''0'' else if milliseconds \<le> 5000 then ''xs'' else if milliseconds \<le> 30000 then ''s''
      else if milliseconds \<le> 120000 then ''m'' else ''l'')"

definition boundedByteClass :: "int \<Rightarrow> string" where
  "boundedByteClass value =
     (if value \<le> 0 then ''0'' else if value \<le> 4 * 2 ^ 10 then ''xs'' else if value \<le> 64 * 2 ^ 10 then ''sm''
      else if value \<le> 2 ^ 20 then ''md'' else ''lg'')"

definition boundedImageCountClass :: "int \<Rightarrow> string" where
  "boundedImageCountClass value =
     (if value \<le> 0 then ''0'' else if value = 1 then ''1'' else if value \<le> 4 then ''2-4'' else ''5+'')"

definition runtimeWorkloadClass :: "job \<Rightarrow> string" where
  "runtimeWorkloadClass job =
     (let (payloadMode, payloadBytes) =
            (if job_Payload job \<noteq> [] then (''plain'', int (length (job_Payload job)))
             else case job_SealedPayload job of
               Some env \<Rightarrow> (if env_Ciphertext env \<noteq> [] then (''sealed'', int (length (env_Ciphertext env))) else (''none'', 0))
             | None \<Rightarrow> (''none'', 0));
          r = job_Requirements job
      in joinWith '':'' [payloadMode, boundedByteClass payloadBytes, boundedImageCountClass (req_InputImageCount r),
           boundedByteClass (req_InputImageBytes r), boundedByteClass (req_InputAudioBytes r),
           boundedDurationClass (req_InputAudioDurationMS r)])"

definition newRuntimeProfileIdentity :: "goLib \<Rightarrow> string \<Rightarrow> string list \<Rightarrow> runtimeProfileIdentity" where
  "newRuntimeProfileIdentity L kind parts = \<lparr>rpi_key = sha256Hex L (kind @ nulByte @ joinWith nulByte parts), rpi_kind = kind\<rparr>"

definition validRuntimeProfileIdentity :: "runtimeProfileIdentity \<Rightarrow> bool" where
  "validRuntimeProfileIdentity identity \<longleftrightarrow>
     (rpi_kind identity = runtimeProfileRouteWorkloadLoad \<or> rpi_kind identity = runtimeProfilePipelineStepWorkloadLoad)
     \<and> length (rpi_key identity) = 64
     \<and> list_all (\<lambda>c. (48 \<le> byte c \<and> byte c \<le> 57) \<or> (97 \<le> byte c \<and> byte c \<le> 102)) (rpi_key identity)"

definition runtimeProfileIdentities :: "goLib \<Rightarrow> job \<Rightarrow> string \<Rightarrow> runtimeProfileIdentity list" where
  "runtimeProfileIdentities L job contextClass =
     (if \<not> validRoutingPerformanceContext contextClass then []
      else let workload = runtimeWorkloadClass job;
               identities = [newRuntimeProfileIdentity L runtimeProfileRouteWorkloadLoad [contextClass, workload]];
               pipeline = trimSpace (job_Pipeline job);
               stepID = trimSpace (job_Step job)
           in if pipeline \<noteq> [] \<and> stepID \<noteq> []
              then newRuntimeProfileIdentity L runtimeProfilePipelineStepWorkloadLoad [pipeline, stepID, contextClass, workload] # identities
              else identities)"

section \<open>Recording\<close>

definition zeroLoadPerformance :: "string \<Rightarrow> routingLoadPerformance" where
  "zeroLoadPerformance contextClass = \<lparr>ld_ContextClass = contextClass, ld_Samples = 0, ld_EWMAComputeMS = 0,
     ld_LastComputeMS = 0, ld_LastCompletedAt = 0, ld_RecentSuccessMS = [], ld_RecentSuccessSamples = []\<rparr>"

definition updateLoadProfile :: "u64 \<Rightarrow> gotime \<Rightarrow> routingLoadPerformance \<Rightarrow> routingLoadPerformance" where
  "updateLoadProfile computeMS completedAt profile =
     (case updateRoutingPerformanceSample
             (ld_Samples profile, ld_EWMAComputeMS profile, ld_LastComputeMS profile, ld_LastCompletedAt profile) computeMS completedAt of
        (n, estimate, lastMS, lastAt) \<Rightarrow>
          profile\<lparr>ld_Samples := n, ld_EWMAComputeMS := estimate, ld_LastComputeMS := lastMS, ld_LastCompletedAt := lastAt,
            ld_RecentSuccessMS := appendBoundedDuration (ld_RecentSuccessMS profile) computeMS,
            ld_RecentSuccessSamples := appendBoundedDurationSample (ld_RecentSuccessSamples profile) computeMS completedAt\<rparr>)"

definition updateRuntimeProfile :: "u64 \<Rightarrow> gotime \<Rightarrow> routingRuntimePerformance \<Rightarrow> routingRuntimePerformance" where
  "updateRuntimeProfile computeMS completedAt profile =
     profile\<lparr>rt_Samples := (if rt_Samples profile < - 1 then rt_Samples profile + 1 else rt_Samples profile),
       rt_LastCompletedAt := completedAt,
       rt_RecentSuccessSamples := appendBoundedDurationSample (rt_RecentSuccessSamples profile) computeMS completedAt\<rparr>"

definition recordRuntimeProfile ::
  "u64 \<Rightarrow> gotime \<Rightarrow> runtimeProfileIdentity \<Rightarrow> routingRuntimePerformance list \<Rightarrow> routingRuntimePerformance list" where
  "recordRuntimeProfile computeMS completedAt identity profiles =
     (if \<not> validRuntimeProfileIdentity identity then profiles
      else upsertBounded (\<lambda>p. rt_ProfileKey p = rpi_key identity \<and> rt_Kind p = rpi_kind identity) rt_LastCompletedAt
             MaximumRuntimeProfilesPerRoute
             \<lparr>rt_ProfileKey = rpi_key identity, rt_Kind = rpi_kind identity, rt_Samples = 0, rt_LastCompletedAt = 0,
              rt_RecentSuccessSamples = []\<rparr>
             (updateRuntimeProfile computeMS completedAt) profiles)"

definition updateRoutingRecord ::
  "u64 \<Rightarrow> gotime \<Rightarrow> string \<Rightarrow> runtimeProfileIdentity list \<Rightarrow> routingPerformance \<Rightarrow> routingPerformance" where
  "updateRoutingRecord computeMS completedAt contextClass runtimeProfiles record' =
     (case updateRoutingPerformanceSample
             (perf_Samples record', perf_EWMAComputeMS record', perf_LastComputeMS record', perf_LastCompletedAt record')
             computeMS completedAt of
        (n, estimate, lastMS, lastAt) \<Rightarrow>
          let record' = record'\<lparr>perf_Samples := n, perf_EWMAComputeMS := estimate, perf_LastComputeMS := lastMS,
                perf_LastCompletedAt := lastAt,
                perf_RecentSuccessMS := appendBoundedDuration (perf_RecentSuccessMS record') computeMS,
                perf_RecentSuccessSamples := appendBoundedDurationSample (perf_RecentSuccessSamples record') computeMS completedAt\<rparr>
          in if \<not> validRoutingPerformanceContext contextClass then record'
             else record'\<lparr>
               perf_LoadProfiles := upsertBounded (\<lambda>p. ld_ContextClass p = contextClass) ld_LastCompletedAt
                 MaximumRoutingLoadProfilesPerRoute (zeroLoadPerformance contextClass) (updateLoadProfile computeMS completedAt)
                 (perf_LoadProfiles record'),
               perf_RuntimeProfiles := foldl (\<lambda>profiles identity. recordRuntimeProfile computeMS completedAt identity profiles)
                 (perf_RuntimeProfiles record') runtimeProfiles\<rparr>)"

definition recordRoutingPerformanceWithProfiles ::
  "goLib \<Rightarrow> node \<Rightarrow> requirements \<Rightarrow> string \<Rightarrow> u64 \<Rightarrow> gotime \<Rightarrow> string \<Rightarrow> runtimeProfileIdentity list \<Rightarrow> node" where
  "recordRoutingPerformanceWithProfiles L node requirements admittedRouteKey computeMS completedAt contextClass runtimeProfiles =
     (if computeMS = 0 \<or> completedAt = 0 then node
      else case routingHealthKey L requirements of (_, provider, model) \<Rightarrow>
        let routeKey = effectiveRouteKey L requirements admittedRouteKey in
        node\<lparr>node_RoutingPerformance :=
          upsertBounded (\<lambda>p. perf_RouteKey p = routeKey) perf_LastCompletedAt MaximumRoutingPerformanceRecords
            \<lparr>perf_RouteKey = routeKey, perf_Provider = provider, perf_Model = model, perf_Samples = 0,
             perf_EWMAComputeMS = 0, perf_LastComputeMS = 0, perf_LastCompletedAt = 0, perf_RecentSuccessMS = [],
             perf_RecentSuccessSamples = [], perf_LoadProfiles = [], perf_RuntimeProfiles = []\<rparr>
            (updateRoutingRecord computeMS completedAt contextClass runtimeProfiles) (node_RoutingPerformance node)\<rparr>)"

definition recordRoutingPerformance :: "goLib \<Rightarrow> node \<Rightarrow> requirements \<Rightarrow> string \<Rightarrow> u64 \<Rightarrow> gotime \<Rightarrow> string \<Rightarrow> node" where
  "recordRoutingPerformance L node requirements admittedRouteKey computeMS completedAt contextClass =
     recordRoutingPerformanceWithProfiles L node requirements admittedRouteKey computeMS completedAt contextClass []"

definition jobRoutingHealthRouteKey :: "job \<Rightarrow> string" where
  "jobRoutingHealthRouteKey job =
     (case job_RoutingDecision job of
        Some d \<Rightarrow> (if validRoutingHealthRouteKey (dec_RouteKey d) then dec_RouteKey d else [])
      | None \<Rightarrow> [])"

definition jobRoutingPerformanceContext :: "job \<Rightarrow> string" where
  "jobRoutingPerformanceContext job =
     (case job_RoutingDecision job of
        None \<Rightarrow> []
      | Some d \<Rightarrow>
          (if dec_SelectedNodeID d = [] \<or> dec_SelectedNodeID d \<noteq> job_AssignedNode job then []
           else case List.find (\<lambda>c. cand_NodeID c = job_AssignedNode job \<and> cand_Eligible c
                                     \<and> validRoutingPerformanceContext (cand_PerformanceContext c)) (dec_Candidates d) of
             None \<Rightarrow> [] | Some c \<Rightarrow> cand_PerformanceContext c))"

definition recordJobRoutingPerformance :: "goLib \<Rightarrow> node \<Rightarrow> job \<Rightarrow> u64 \<Rightarrow> gotime \<Rightarrow> node" where
  "recordJobRoutingPerformance L node job computeMS completedAt =
     (let contextClass = jobRoutingPerformanceContext job in
      recordRoutingPerformanceWithProfiles L node (job_Requirements job) (jobRoutingHealthRouteKey job) computeMS completedAt
        contextClass (runtimeProfileIdentities L job contextClass))"

definition routingObservedComputeMS :: "job \<Rightarrow> u64" where
  "routingObservedComputeMS job =
     (if job_StartedAt job = 0 \<or> job_FinishedAt job = 0 \<or> \<not> job_StartedAt job < job_FinishedAt job then 0
      else nonNegativeDurationMilliseconds (timeSub (job_FinishedAt job) (job_StartedAt job)))"

section \<open>Estimates\<close>

definition routingPerformanceEstimateFromSamples ::
  "routingDurationSample list \<Rightarrow> placementPolicy \<Rightarrow> gotime \<Rightarrow> string \<Rightarrow> routingPerformanceEstimate option" where
  "routingPerformanceEstimateFromSamples values policy now source =
     (if unat (pp_MinimumSamples policy) > MaximumRoutingDurationSamples then None
      else let values = freshRoutingDurationSamples values (pp_HistoryTTL policy) now in
           if length values < unat (pp_MinimumSamples policy) then None
           else case foldl (\<lambda>state s. updateRoutingPerformanceSample state (smp_ComputeMS s) (smp_CompletedAt s)) (0, 0, 0, 0) values of
             (samples, estimate, _, completedAt) \<Rightarrow>
               (if samples < pp_MinimumSamples policy \<or> estimate = 0 \<or> completedAt = 0 then None
                else Some \<lparr>est_Samples = samples, est_EWMAComputeMS = estimate, est_LastCompletedAt = completedAt,
                           est_Source = source\<rparr>))"

text \<open>The first result of a list of attempts.\<close>

fun firstSome :: "('a \<Rightarrow> 'b option) \<Rightarrow> 'a list \<Rightarrow> 'b option" where
  "firstSome f [] = None"
| "firstSome f (x # xs) = (case f x of Some y \<Rightarrow> Some y | None \<Rightarrow> firstSome f xs)"

definition routingPerformanceEstimateFor ::
  "goLib \<Rightarrow> node \<Rightarrow> requirements \<Rightarrow> string \<Rightarrow> placementPolicy \<Rightarrow> gotime \<Rightarrow> routingPerformanceEstimate option" where
  "routingPerformanceEstimateFor L node requirements contextClass policy now =
     (if \<not> pp_PerformanceLearning policy then None
      else let policy = normalizePlacementPolicy policy;
               routeKey = fst (routingHealthKey L requirements)
           in firstSome (\<lambda>record'.
                if perf_RouteKey record' \<noteq> routeKey then None
                else case (if validRoutingPerformanceContext contextClass
                           then firstSome (\<lambda>profile. if ld_ContextClass profile = contextClass
                                  then routingPerformanceEstimateFromSamples (ld_RecentSuccessSamples profile) policy now
                                         routingPerformanceSourceContext
                                  else None) (perf_LoadProfiles record')
                           else None) of
                       Some e \<Rightarrow> Some e
                     | None \<Rightarrow> routingPerformanceEstimateFromSamples (perf_RecentSuccessSamples record') policy now
                                 routingPerformanceSourceRouteBaseline) (node_RoutingPerformance node))"

section \<open>Reading back a stored table\<close>

text \<open>The first entry of each key among the acceptable ones, up to a limit.\<close>

fun dedupeBounded :: "('a \<Rightarrow> bool) \<Rightarrow> ('a \<Rightarrow> string) \<Rightarrow> ('a \<Rightarrow> 'a) \<Rightarrow> nat \<Rightarrow> string list \<Rightarrow> 'a list \<Rightarrow> 'a list" where
  "dedupeBounded ok key clean 0 seen xs = []"
| "dedupeBounded ok key clean (Suc n) seen [] = []"
| "dedupeBounded ok key clean (Suc n) seen (x # xs) =
     (if \<not> ok x \<or> key x \<in> set seen then dedupeBounded ok key clean (Suc n) seen xs
      else clean x # dedupeBounded ok key clean n (key x # seen) xs)"

definition boundedRoutingPerformanceRecord :: "routingPerformance \<Rightarrow> routingPerformance" where
  "boundedRoutingPerformanceRecord record' =
     record'\<lparr>perf_RecentSuccessMS := boundedDurationSamples (perf_RecentSuccessMS record'),
       perf_RecentSuccessSamples := boundedRoutingDurationSamples (perf_RecentSuccessSamples record'),
       perf_LoadProfiles := dedupeBounded (\<lambda>p. validRoutingPerformanceContext (ld_ContextClass p)) ld_ContextClass
         (\<lambda>p. p\<lparr>ld_RecentSuccessMS := boundedDurationSamples (ld_RecentSuccessMS p),
                ld_RecentSuccessSamples := boundedRoutingDurationSamples (ld_RecentSuccessSamples p)\<rparr>)
         MaximumRoutingLoadProfilesPerRoute [] (perf_LoadProfiles record'),
       perf_RuntimeProfiles := dedupeBounded
         (\<lambda>p. validRuntimeProfileIdentity \<lparr>rpi_key = rt_ProfileKey p, rpi_kind = rt_Kind p\<rparr>)
         (\<lambda>p. rt_Kind p @ '':'' @ rt_ProfileKey p)
         (\<lambda>p. p\<lparr>rt_RecentSuccessSamples := boundedRoutingDurationSamples (rt_RecentSuccessSamples p)\<rparr>)
         MaximumRuntimeProfilesPerRoute [] (perf_RuntimeProfiles record')\<rparr>"

definition boundedRoutingPerformance :: "routingPerformance list \<Rightarrow> routingPerformance list" where
  "boundedRoutingPerformance records =
     (let records = (if length records > MaximumRoutingPerformanceRecords
                     then drop (length records - MaximumRoutingPerformanceRecords) records else records)
      in map boundedRoutingPerformanceRecord records)"

section \<open>The tables stay bounded\<close>

definition loadBounded :: "routingLoadPerformance \<Rightarrow> bool" where
  "loadBounded p \<longleftrightarrow> length (ld_RecentSuccessMS p) \<le> 32 \<and> length (ld_RecentSuccessSamples p) \<le> 32"

definition runtimeBounded :: "routingRuntimePerformance \<Rightarrow> bool" where
  "runtimeBounded p \<longleftrightarrow> length (rt_RecentSuccessSamples p) \<le> 32"

definition recordBounded :: "routingPerformance \<Rightarrow> bool" where
  "recordBounded r \<longleftrightarrow> length (perf_RecentSuccessMS r) \<le> 32 \<and> length (perf_RecentSuccessSamples r) \<le> 32
     \<and> length (perf_LoadProfiles r) \<le> 12 \<and> list_all loadBounded (perf_LoadProfiles r)
     \<and> length (perf_RuntimeProfiles r) \<le> 16 \<and> list_all runtimeBounded (perf_RuntimeProfiles r)"

definition performanceBounded :: "routingPerformance list \<Rightarrow> bool" where
  "performanceBounded records \<longleftrightarrow> length records \<le> 64 \<and> list_all recordBounded records"

lemma oldestScan_bound: "oldest < i \<Longrightarrow> oldestScan i oldest best ts < i + length ts"
proof (induction i oldest best ts rule: oldestScan.induct)
  case (2 i oldest best t rest)
  then show ?case by (cases "t < best") fastforce+
qed simp

lemma oldestIndex_bound: "ts \<noteq> [] \<Longrightarrow> oldestIndex ts < length ts"
  using oldestScan_bound [of 0 1 "hd ts" "tl ts"] by (cases ts) (auto simp: oldestIndex_def)

text \<open>An insertion that keeps the bound of a table and a property of its entries.\<close>

lemma upsertBounded_keeps:
  assumes "length xs \<le> limit" and "0 < limit" and "list_all P xs" and "P (change fresh)" and "\<And>x. P x \<Longrightarrow> P (change x)"
  shows "length (upsertBounded wanted tm limit fresh change xs) \<le> limit
    \<and> list_all P (upsertBounded wanted tm limit fresh change xs)"
proof (cases "findIndex wanted xs")
  case (Some i)
  then have "i < length xs" using findIndex_Some by blast
  then show ?thesis using assms Some by (auto simp: upsertBounded_def list_all_length nth_list_update)
next
  case None
  let ?i = "oldestIndex (map tm xs)"
  have "limit \<le> length xs \<Longrightarrow> ?i < length xs" using oldestIndex_bound [of "map tm xs"] assms(2) by fastforce
  then have "limit \<le> length xs \<Longrightarrow> length (removeAt ?i xs) < limit" using assms(1,2) by (simp add: length_removeAt)
  moreover have "list_all P (removeAt ?i xs)" using assms(3) set_removeAt [of ?i xs] by (auto simp: list_all_iff)
  ultimately show ?thesis using None assms by (auto simp: upsertBounded_def)
qed

lemma bounded_lengths:
  "length (boundedDurationSamples xs) \<le> 32" "length (boundedRoutingDurationSamples ys) \<le> 32"
  by (simp_all add: boundedDurationSamples_def boundedRoutingDurationSamples_def MaximumRoutingDurationSamples_def)

lemma append_lengths:
  "length (appendBoundedDuration xs v) \<le> 32" "length (appendBoundedDurationSample ys v t) \<le> 32"
  using bounded_lengths(1) [of xs] bounded_lengths(2) [of ys]
  by (auto simp: appendBoundedDuration_def appendBoundedDurationSample_def MaximumRoutingDurationSamples_def Let_def)

lemma updateLoadProfile_bounded: "loadBounded (updateLoadProfile ms tm p)"
  by (simp add: loadBounded_def updateLoadProfile_def append_lengths split: prod.splits)

lemma recordRuntimeProfile_bounded:
  assumes "length ps \<le> 16 \<and> list_all runtimeBounded ps"
  shows "length (recordRuntimeProfile ms tm i ps) \<le> 16 \<and> list_all runtimeBounded (recordRuntimeProfile ms tm i ps)"
proof (cases "validRuntimeProfileIdentity i")
  case True
  have "runtimeBounded (updateRuntimeProfile ms tm p)" for p
    by (simp add: runtimeBounded_def updateRuntimeProfile_def append_lengths)
  then show ?thesis
    unfolding recordRuntimeProfile_def MaximumRuntimeProfilesPerRoute_def
    using upsertBounded_keeps [of ps 16 runtimeBounded "updateRuntimeProfile ms tm"] assms True by simp
qed (use assms in \<open>simp add: recordRuntimeProfile_def\<close>)

lemma runtimeProfiles_bounded:
  "length ps \<le> 16 \<and> list_all runtimeBounded ps \<Longrightarrow>
   length (foldl (\<lambda>ps i. recordRuntimeProfile ms tm i ps) ps ids) \<le> 16
   \<and> list_all runtimeBounded (foldl (\<lambda>ps i. recordRuntimeProfile ms tm i ps) ps ids)"
proof (induction ids arbitrary: ps)
  case (Cons i ids)
  show ?case using Cons.IH [OF recordRuntimeProfile_bounded [OF Cons.prems]] by simp
qed simp

lemma updateRoutingRecord_bounded:
  assumes "recordBounded r"
  shows "recordBounded (updateRoutingRecord ms tm ctx ids r)"
proof -
  have load: "length (upsertBounded w ld_LastCompletedAt 12 z (updateLoadProfile ms tm) (perf_LoadProfiles r)) \<le> 12
      \<and> list_all loadBounded (upsertBounded w ld_LastCompletedAt 12 z (updateLoadProfile ms tm) (perf_LoadProfiles r))" for w z
    by (rule upsertBounded_keeps) (use assms in \<open>simp_all add: recordBounded_def updateLoadProfile_bounded\<close>)
  have run: "length (perf_RuntimeProfiles r) \<le> 16 \<and> list_all runtimeBounded (perf_RuntimeProfiles r)"
    using assms by (simp add: recordBounded_def)
  show ?thesis
    using assms load runtimeProfiles_bounded [OF run, of ms tm ids]
    by (simp add: recordBounded_def updateRoutingRecord_def append_lengths Let_def MaximumRoutingLoadProfilesPerRoute_def split: prod.splits)
qed

lemma dedupeBounded_length: "length (dedupeBounded ok key clean n seen xs) \<le> n"
  by (induction ok key clean n seen xs rule: dedupeBounded.induct) auto

lemma dedupeBounded_all: "(\<And>x. P (clean x)) \<Longrightarrow> list_all P (dedupeBounded ok key clean n seen xs)"
  by (induction ok key clean n seen xs rule: dedupeBounded.induct) auto

text \<open>The learned tables of a node are bounded: recording a completion keeps at most 64 routes, per
  route at most 12 load classes and 16 workload profiles, and 32 samples in each; and whatever table
  is read back from disk is cut to these bounds.\<close>

theorem performance_tables_bounded:
  "(performanceBounded (node_RoutingPerformance n) \<longrightarrow>
     performanceBounded (node_RoutingPerformance (recordJobRoutingPerformance L n job computeMS completedAt)))
   \<and> performanceBounded (boundedRoutingPerformance records)"
proof (intro conjI impI)
  assume b: "performanceBounded (node_RoutingPerformance n)"
  have "length (upsertBounded w perf_LastCompletedAt 64 z (updateRoutingRecord ms tm ctx ids) (node_RoutingPerformance n)) \<le> 64
      \<and> list_all recordBounded (upsertBounded w perf_LastCompletedAt 64 z (updateRoutingRecord ms tm ctx ids) (node_RoutingPerformance n))"
    if "recordBounded z" for w z ms tm ctx ids
    by (rule upsertBounded_keeps) (use b that in \<open>simp_all add: performanceBounded_def updateRoutingRecord_bounded\<close>)
  then show "performanceBounded (node_RoutingPerformance (recordJobRoutingPerformance L n job computeMS completedAt))"
    using b by (auto simp: recordJobRoutingPerformance_def recordRoutingPerformanceWithProfiles_def Let_def performanceBounded_def
        recordBounded_def MaximumRoutingPerformanceRecords_def split: prod.splits)
next
  have "recordBounded (boundedRoutingPerformanceRecord r)" for r
    by (auto simp: recordBounded_def boundedRoutingPerformanceRecord_def bounded_lengths loadBounded_def runtimeBounded_def
        MaximumRoutingLoadProfilesPerRoute_def MaximumRuntimeProfilesPerRoute_def intro!: dedupeBounded_length dedupeBounded_all)
  then show "performanceBounded (boundedRoutingPerformance records)"
    by (auto simp: performanceBounded_def boundedRoutingPerformance_def Let_def list_all_iff MaximumRoutingPerformanceRecords_def)
qed

section \<open>One outlier cannot move an estimate far\<close>

lemma unat_quarter_max: "unat ((- 1 :: u64) div 4) = (2 ^ 64 - 1) div 4"
  by (simp add: unat_div unat_minus_one_word_u64)

lemma clampedObservation_bounds:
  assumes "3 \<le> samples"
  shows "unat (clampedObservation samples estimate ms) \<le> 4 * unat estimate
    \<and> unat estimate div 4 \<le> unat (clampedObservation samples estimate ms)"
proof -
  define upper where "upper = (if estimate > - 1 div 4 then - 1 else estimate * 4)"
  have lower: "unat (estimate div 4) = unat estimate div 4" by (simp add: unat_div)
  have upper: "unat upper \<le> 4 * unat estimate \<and> unat estimate \<le> unat upper"
  proof (cases "estimate > - 1 div 4")
    case True
    then have "(2 ^ 64 - 1) div 4 < unat estimate" using unat_quarter_max by (simp add: word_less_nat_alt)
    moreover have "unat estimate < 2 ^ 64" using unsigned_less [of estimate] by simp
    ultimately show ?thesis using True by (simp add: upper_def unat_minus_one_word_u64)
  next
    case False
    then have "unat estimate \<le> (2 ^ 64 - 1) div 4" using unat_quarter_max by (simp add: word_less_nat_alt)
    then have "unat (estimate * 4) = unat estimate * 4" by (simp add: unat_word_ariths)
    then show ?thesis using False by (simp add: upper_def)
  qed
  have obs: "clampedObservation samples estimate ms =
      (if ms > upper then upper else if ms < estimate div 4 then estimate div 4 else ms)"
    using assms by (simp add: clampedObservation_def Let_def upper_def)
  have "ms > upper \<longleftrightarrow> unat upper < unat ms" "ms < estimate div 4 \<longleftrightarrow> unat ms < unat estimate div 4"
    using lower by (simp_all add: word_less_nat_alt)
  then show ?thesis using upper lower by (simp add: obs) linarith
qed

lemma ceil_step:
  fixes d :: u64
  defines "s \<equiv> (if d mod 8 \<noteq> 0 then d div 8 + 1 else d div 8)"
  shows "unat s = (unat d + 7) div 8"
proof -
  have "unat (d mod 8) = unat d mod 8" by (simp add: unat_mod)
  then have m: "d mod 8 \<noteq> 0 \<longleftrightarrow> unat d mod 8 \<noteq> 0" using unat_eq_0 [of "d mod 8"] by argo
  have "unat d < 2 ^ 64" using unsigned_less [of d] by simp
  then have "unat d div 8 < 2 ^ 61" by (intro less_mult_imp_div_less) simp
  then have "unat d div 8 + 1 < 2 ^ 64" by simp
  then have "unat (d div 8 + 1) = unat d div 8 + 1" by (simp add: unat_word_ariths unat_div)
  then show ?thesis using m unfolding s_def by (simp add: unat_div) presburger
qed

text \<open>an observation moves an estimate an eighth of the way towards it: the new estimate lies
  between the old one and the (clamped) observation, without wrap-around, and after three samples one
  completion, however long or short, raises it by no more than three eighths and lowers it by no more
  than an eighth.\<close>

theorem performance_estimate_is_damped:
  assumes "samples \<noteq> 0" and "estimate \<noteq> 0"
    and "updateRoutingPerformanceSample (samples, estimate, lastMS, lastAt) computeMS completedAt = (n, e, l, t)"
  defines "observed \<equiv> unat (clampedObservation samples estimate computeMS)"
  shows "min (unat estimate) observed \<le> unat e \<and> unat e \<le> max (unat estimate) observed
    \<and> (3 \<le> samples \<longrightarrow> 8 * unat e \<le> 11 * unat estimate + 7 \<and> 7 * unat estimate \<le> 8 * unat e)
    \<and> unat n = min (Suc (unat samples)) (2 ^ 32 - 1) \<and> l = computeMS \<and> t = completedAt"
proof -
  let ?o = "clampedObservation samples estimate computeMS"
  have n: "unat n = min (Suc (unat samples)) (2 ^ 32 - 1)"
  proof -
    have top: "unat (- 1 :: u32) = 2 ^ 32 - 1" by (simp add: unsigned_minus_1_eq_mask mask_eq_exp_minus_1)
    have "n = (if samples < - 1 then samples + 1 else samples)" using assms(3) by (simp add: updateRoutingPerformanceSample_def Let_def)
    moreover have "unat samples < 2 ^ 32" using unsigned_less [of samples] by simp
    moreover have "samples < - 1 \<longleftrightarrow> unat samples < 2 ^ 32 - 1" using top by (simp add: word_less_nat_alt)
    ultimately show ?thesis by (auto simp: unat_word_ariths)
  qed
  have new: "e = fst (snd (updateRoutingPerformanceSample (samples, estimate, lastMS, lastAt) computeMS completedAt))"
    using assms(3) by simp
  have e: "unat e = (if unat estimate \<le> observed then unat estimate + (observed - unat estimate + 7) div 8
      else unat estimate - (unat estimate - observed) div 8)"
  proof (cases "?o \<ge> estimate")
    case True
    let ?d = "?o - estimate"
    have d: "unat ?d = observed - unat estimate" using True by (simp add: unat_sub observed_def)
    have "e = estimate + (if ?d mod 8 \<noteq> 0 then ?d div 8 + 1 else ?d div 8)"
      unfolding new using assms(1,2) True
      by (simp add: updateRoutingPerformanceSample_def Let_def routingPerformanceEWMAWeight_def split del: if_split)
    moreover have "unat estimate + (observed - unat estimate + 7) div 8 < 2 ^ 64"
    proof -
      have "unat estimate \<le> observed" using True by (simp add: observed_def word_le_nat_alt)
      then have "unat estimate + (observed - unat estimate + 7) div 8 \<le> observed" by linarith
      moreover have "observed < 2 ^ 64" using unsigned_less [of ?o] by (simp add: observed_def)
      ultimately show ?thesis by linarith
    qed
    ultimately show ?thesis using True ceil_step [of ?d] d by (simp add: observed_def word_le_nat_alt unat_word_ariths)
  next
    case False
    then have "e = estimate - (estimate - ?o) div 8"
      using assms(1-3) by (auto simp: updateRoutingPerformanceSample_def Let_def routingPerformanceEWMAWeight_def)
    moreover have "unat (estimate - ?o) = unat estimate - observed" using False by (simp add: unat_sub observed_def)
    moreover have "(estimate - ?o) div 8 \<le> estimate"
      using calculation(2) by (simp add: word_le_nat_alt unat_div)
    ultimately show ?thesis using False by (simp add: unat_sub unat_div observed_def word_le_nat_alt)
  qed
  have "3 \<le> samples \<Longrightarrow> observed \<le> 4 * unat estimate \<and> unat estimate div 4 \<le> observed"
    using clampedObservation_bounds by (simp add: observed_def)
  moreover have "l = computeMS \<and> t = completedAt" using assms(3) by (simp add: updateRoutingPerformanceSample_def Let_def)
  ultimately show ?thesis using n e by auto
qed

section \<open>Witnesses\<close>

theorem performance_tables_bounded_witness:
  "performanceBounded (node_RoutingPerformance (recordJobRoutingPerformance plainLib zeroNode zeroJob 5 7))"
proof -
  have "performanceBounded (node_RoutingPerformance zeroNode)" by (simp add: zeroNode_def performanceBounded_def)
  with performance_tables_bounded [of zeroNode plainLib zeroJob 5 7 "[]"] show ?thesis by blast
qed

theorem performance_estimate_is_damped_witness:
  "\<exists>n e l t. updateRoutingPerformanceSample (3, 100, 100, 1) 1000000 2 = (n, e, l, t) \<and> 8 * unat e \<le> 1107 \<and> 700 \<le> 8 * unat e"
proof -
  obtain n e l t where u: "updateRoutingPerformanceSample (3, 100, 100, 1) 1000000 2 = (n, e, l, t)"
    by (metis prod_cases4)
  have "(3 :: u32) \<noteq> 0" "(100 :: u64) \<noteq> 0" by simp_all
  from performance_estimate_is_damped [OF this u] have "8 * unat e \<le> 11 * unat (100 :: u64) + 7" "7 * unat (100 :: u64) \<le> 8 * unat e"
    by simp_all
  with u show ?thesis by auto
qed

end
