(* ===== verification/Execution_Policy.thy ===== *)
theory Execution_Policy
  imports Store_State
begin

text \<open>
  The execution policy (\<open>internal/cluster/execution_policy.go\<close>): exact-match rules that decide,
  before a job is queued, whether its tenant, group, provider, egress class and cost budget are
  admissible, and the durable decision record that later stages validate. A Go map is the list of its
  entries in iteration order. The JSON text of a configuration, which only the fingerprint digests, is
  the argument \<open>J\<close>. A \<open>float64\<close> amount is a real, so the checks for NaN and infinities have
  no counterpart.
\<close>

definition PolicyDecisionV1 :: string where "PolicyDecisionV1 = ''contextbridge.policy-decision.v1''"
definition PolicyCodeAllowed :: string where "PolicyCodeAllowed = ''policy.allowed''"
definition PolicyCodeDisabled :: string where "PolicyCodeDisabled = ''policy.disabled''"
definition PolicyCodeCostExceeded :: string where "PolicyCodeCostExceeded = ''policy.cost_budget_exceeded''"
definition PolicyCodeCostRequired :: string where "PolicyCodeCostRequired = ''policy.cost_budget_required''"
definition PolicyCodeCostUnverifiable :: string where "PolicyCodeCostUnverifiable = ''policy.cost_unverifiable''"
definition PolicyCodeEgressDenied :: string where "PolicyCodeEgressDenied = ''policy.egress_denied''"
definition PolicyCodeGroupDenied :: string where "PolicyCodeGroupDenied = ''policy.group_denied''"
definition PolicyCodeProviderDenied :: string where "PolicyCodeProviderDenied = ''policy.provider_denied''"
definition PolicyCodeTenantDenied :: string where "PolicyCodeTenantDenied = ''policy.tenant_denied''"
definition PolicyCodeTenantRequired :: string where "PolicyCodeTenantRequired = ''policy.tenant_required''"

lemmas policy_code_defs = PolicyCodeAllowed_def PolicyCodeDisabled_def PolicyCodeCostExceeded_def
  PolicyCodeCostRequired_def PolicyCodeCostUnverifiable_def PolicyCodeEgressDenied_def PolicyCodeGroupDenied_def
  PolicyCodeProviderDenied_def PolicyCodeTenantDenied_def PolicyCodeTenantRequired_def

definition maximumPolicyCostUSD :: real where "maximumPolicyCostUSD = 1000000"

record executionPolicyRule =
  rule_Denied :: bool
  rule_Egress :: string
  rule_AllowedProviders :: "string list"
  rule_AllowedGroups :: "string list"
  rule_RequireCostBudget :: bool
  rule_MaxCostUSD :: real

record executionPolicyConfig =
  epc_Enabled :: bool
  epc_TenantMode :: string
  epc_RequireTenant :: bool
  epc_LocalProviders :: "string list"
  epc_RemoteProviders :: "string list"
  epc_AdapterProfileClassifications :: "(string \<times> string) list"
  epc_CostBoundedProviders :: "string list"
  epc_Default :: executionPolicyRule
  epc_Tenants :: "(string \<times> executionPolicyRule) list"

section \<open>Validation of the configuration\<close>

definition validRoutingLabel :: "goLib \<Rightarrow> string \<Rightarrow> int \<Rightarrow> bool" where
  "validRoutingLabel L value maximum \<longleftrightarrow>
     value \<noteq> [] \<and> validUTF8 value \<and> int (length value) \<le> maximum \<and> trimSpace value = value
     \<and> \<not> list_ex (\<lambda>r. r < 32 \<or> (127 \<le> r \<and> r \<le> 159) \<or> unicodeHidden L r) (runes value)"

definition containsFold :: "goLib \<Rightarrow> string list \<Rightarrow> string \<Rightarrow> bool" where
  "containsFold L values wanted \<longleftrightarrow> list_ex (\<lambda>v. equalFold L v wanted) values"

fun policyLabelsLoop :: "goLib \<Rightarrow> string \<Rightarrow> string list \<Rightarrow> string list \<Rightarrow> unit result" where
  "policyLabelsLoop L name seen [] = Inr ()"
| "policyLabelsLoop L name seen (value # rest) =
     (if \<not> validRoutingLabel L value 160
      then Inl (ErrText (''execution policy '' @ name @ '' entries must be bounded routing labels''))
      else if toLower L value \<in> set seen
      then Inl (ErrText (''execution policy '' @ name @ '' contains duplicate ''))
      else policyLabelsLoop L name (toLower L value # seen) rest)"

definition validatePolicyLabels :: "goLib \<Rightarrow> string \<Rightarrow> string list \<Rightarrow> unit result" where
  "validatePolicyLabels L name values = policyLabelsLoop L name [] values"

definition validateExecutionPolicyRule :: "goLib \<Rightarrow> string \<Rightarrow> executionPolicyRule \<Rightarrow> unit result" where
  "validateExecutionPolicyRule L name rule =
     bindE (failWhen (rule_Egress rule \<notin> {[], ''any'', ''local_only'', ''remote_only''})
              (ErrText (name @ '' egress must be any, local_only, or remote_only''))) (\<lambda>_.
     bindE (validatePolicyLabels L (name @ '' allowed_providers'') (rule_AllowedProviders rule)) (\<lambda>_.
     bindE (validatePolicyLabels L (name @ '' allowed_groups'') (rule_AllowedGroups rule)) (\<lambda>_.
     failWhen (rule_MaxCostUSD rule < 0 \<or> rule_MaxCostUSD rule > maximumPolicyCostUSD)
       (ErrText (name @ '' max_cost_usd must be a finite value'')))))"

fun profileLoop :: "goLib \<Rightarrow> string list \<Rightarrow> (string \<times> string) list \<Rightarrow> unit result" where
  "profileLoop L seen [] = Inr ()"
| "profileLoop L seen ((profile, classification) # rest) =
     (if \<not> validRoutingLabel L profile 80
      then Inl (ErrText ''adapter profile keys must be bounded routing labels'')
      else if toLower L profile \<in> set seen
      then Inl (ErrText ''adapter profile keys are case-insensitively ambiguous'')
      else if toLower L (trimSpace classification) \<notin> {''local'', ''remote''}
      then Inl (ErrText ''adapter profile classification must be local or remote'')
      else profileLoop L (toLower L profile # seen) rest)"

fun tenantLoop :: "goLib \<Rightarrow> string list \<Rightarrow> (string \<times> executionPolicyRule) list \<Rightarrow> unit result" where
  "tenantLoop L seen [] = Inr ()"
| "tenantLoop L seen ((tenant, rule) # rest) =
     (if \<not> validRoutingLabel L tenant 200
      then Inl (ErrText ''tenant keys must be bounded routing labels'')
      else if toLower L tenant \<in> set seen
      then Inl (ErrText ''tenant keys are case-insensitively ambiguous'')
      else bindE (validateExecutionPolicyRule L ''tenant rule'' rule) (\<lambda>_.
           tenantLoop L (toLower L tenant # seen) rest))"

definition Validate :: "goLib \<Rightarrow> executionPolicyConfig \<Rightarrow> unit result" where
  "Validate L cfg =
     bindE (failWhen (epc_TenantMode cfg \<notin> {[], ''open'', ''listed_only''})
              (ErrText ''tenant_mode must be open or listed_only'')) (\<lambda>_.
     bindE (validatePolicyLabels L ''local_providers'' (epc_LocalProviders cfg)) (\<lambda>_.
     bindE (validatePolicyLabels L ''remote_providers'' (epc_RemoteProviders cfg)) (\<lambda>_.
     bindE (validatePolicyLabels L ''cost_bounded_providers'' (epc_CostBoundedProviders cfg)) (\<lambda>_.
     bindE (failWhen (list_ex (containsFold L (epc_RemoteProviders cfg)) (epc_LocalProviders cfg))
              (ErrText ''provider cannot be both local and remote'')) (\<lambda>_.
     bindE (foldE (\<lambda>p _. if \<not> containsFold L (epc_RemoteProviders cfg) p
                          then Inl (ErrText ''cost-bounded provider must also be classified remote'')
                          else failWhen (equalFold L p ''adapter'') (ErrText ''cannot mark adapter as cost-bounded''))
              (epc_CostBoundedProviders cfg) ()) (\<lambda>_.
     bindE (failWhen (length (epc_AdapterProfileClassifications cfg) > 128)
              (ErrText ''adapter_profile_classifications cannot contain more than 128 profiles'')) (\<lambda>_.
     bindE (profileLoop L [] (epc_AdapterProfileClassifications cfg)) (\<lambda>_.
     bindE (validateExecutionPolicyRule L ''default'' (epc_Default cfg)) (\<lambda>_.
     tenantLoop L [] (epc_Tenants cfg))))))))))"

definition validateExecutionPolicyRequirements :: "requirements \<Rightarrow> unit result" where
  "validateExecutionPolicyRequirements r =
     bindE (failWhen (req_Egress r \<notin> {[], ''local_only'', ''remote_allowed''})
              (ErrText ''requirements.egress must be local_only or remote_allowed'')) (\<lambda>_.
     failWhen (req_MaxCostUSD r < 0 \<or> req_MaxCostUSD r > maximumPolicyCostUSD)
       (ErrText ''requirements.max_cost_usd must be a finite value''))"

section \<open>Normal form and merging\<close>

definition normalizedPolicyList :: "goLib \<Rightarrow> string list \<Rightarrow> string list" where
  "normalizedPolicyList L values = sort_key (toLower L) values"

definition normalizeExecutionPolicyRule :: "goLib \<Rightarrow> executionPolicyRule \<Rightarrow> executionPolicyRule" where
  "normalizeExecutionPolicyRule L rule =
     rule\<lparr>rule_Egress := (if rule_Egress rule = [] then ''any'' else rule_Egress rule),
          rule_AllowedProviders := normalizedPolicyList L (rule_AllowedProviders rule),
          rule_AllowedGroups := normalizedPolicyList L (rule_AllowedGroups rule)\<rparr>"

definition normalizeExecutionPolicyConfig :: "goLib \<Rightarrow> executionPolicyConfig \<Rightarrow> executionPolicyConfig" where
  "normalizeExecutionPolicyConfig L cfg =
     cfg\<lparr>epc_TenantMode := (if epc_TenantMode cfg = [] then ''open'' else epc_TenantMode cfg),
         epc_LocalProviders := normalizedPolicyList L (epc_LocalProviders cfg),
         epc_RemoteProviders := normalizedPolicyList L (epc_RemoteProviders cfg),
         epc_CostBoundedProviders := normalizedPolicyList L (epc_CostBoundedProviders cfg),
         epc_AdapterProfileClassifications :=
           map (\<lambda>(p, c). (toLower L (trimSpace p), toLower L (trimSpace c))) (epc_AdapterProfileClassifications cfg),
         epc_Default := normalizeExecutionPolicyRule L (epc_Default cfg),
         epc_Tenants := map (\<lambda>(t, r). (t, normalizeExecutionPolicyRule L r)) (epc_Tenants cfg)\<rparr>"

definition intersectPolicyLists :: "goLib \<Rightarrow> string list \<Rightarrow> string list \<Rightarrow> string list" where
  "intersectPolicyLists L base tenant =
     (if base = [] then tenant else if tenant = [] then base else filter (containsFold L tenant) base)"

definition mergeExecutionPolicyRules :: "goLib \<Rightarrow> executionPolicyRule \<Rightarrow> executionPolicyRule \<Rightarrow> executionPolicyRule" where
  "mergeExecutionPolicyRules L base tenant =
     (let narrows = (rule_Egress tenant \<noteq> [] \<and> rule_Egress tenant \<noteq> ''any'');
          agree = (rule_Egress base = [] \<or> rule_Egress base = ''any'' \<or> rule_Egress base = rule_Egress tenant);
          providers = intersectPolicyLists L (rule_AllowedProviders base) (rule_AllowedProviders tenant);
          groups = intersectPolicyLists L (rule_AllowedGroups base) (rule_AllowedGroups tenant)
      in \<lparr>rule_Denied = (rule_Denied base \<or> rule_Denied tenant \<or> (narrows \<and> \<not> agree)
            \<or> (rule_AllowedProviders base \<noteq> [] \<and> rule_AllowedProviders tenant \<noteq> [] \<and> providers = [])
            \<or> (rule_AllowedGroups base \<noteq> [] \<and> rule_AllowedGroups tenant \<noteq> [] \<and> groups = [])),
          rule_Egress = (if narrows \<and> agree then rule_Egress tenant else rule_Egress base),
          rule_AllowedProviders = providers,
          rule_AllowedGroups = groups,
          rule_RequireCostBudget = (rule_RequireCostBudget base \<or> rule_RequireCostBudget tenant),
          rule_MaxCostUSD = (if rule_MaxCostUSD base = 0 \<or> (0 < rule_MaxCostUSD tenant \<and> rule_MaxCostUSD tenant < rule_MaxCostUSD base)
                             then rule_MaxCostUSD tenant else rule_MaxCostUSD base)\<rparr>)"

section \<open>Evaluation\<close>

definition classifyPolicyProvider :: "goLib \<Rightarrow> executionPolicyConfig \<Rightarrow> string \<Rightarrow> string" where
  "classifyPolicyProvider L cfg provider =
     (let provider = trimSpace provider
      in if provider = [] then ''unknown''
         else if containsFold L (epc_LocalProviders cfg) provider then ''local''
         else if containsFold L (epc_RemoteProviders cfg) provider then ''remote''
         else ''unknown'')"

definition classifyPolicyExecution :: "goLib \<Rightarrow> executionPolicyConfig \<Rightarrow> requirements \<Rightarrow> string" where
  "classifyPolicyExecution L cfg r =
     (let provider = trimSpace (req_Provider r); profile = trimSpace (req_AdapterProfile r)
      in case (if equalFold L provider ''adapter'' \<and> profile \<noteq> []
               then map_of (epc_AdapterProfileClassifications cfg) (toLower L profile) else None) of
           Some classification \<Rightarrow> classification
         | None \<Rightarrow> classifyPolicyProvider L cfg provider)"

definition executionPolicyFingerprint :: "goLib \<Rightarrow> (executionPolicyConfig \<Rightarrow> string) \<Rightarrow> executionPolicyConfig \<Rightarrow> string" where
  "executionPolicyFingerprint L J cfg = ''sha256:'' @ sha256Hex L (J cfg)"

definition policyTenantRuleID :: "goLib \<Rightarrow> string \<Rightarrow> string" where
  "policyTenantRuleID L tenant = ''tenant:sha256:'' @ sha256Hex L tenant"

type_synonym violation = "(string \<times> string) option"

definition deniedPolicy :: "policyDecision \<Rightarrow> string \<Rightarrow> string \<Rightarrow> policyDecision \<times> violation" where
  "deniedPolicy decision code message =
     (decision\<lparr>pol_Outcome := ''deny'', pol_ReasonCodes := [code],
        pol_CostEnforcement := (if pol_CostEnforcement decision = [] then ''not_evaluated'' else pol_CostEnforcement decision)\<rparr>,
      Some (code, message))"

text \<open>The checks against the effective rule, from \<open>if rule.Denied\<close> to the end.\<close>

definition applyPolicyRule ::
  "goLib \<Rightarrow> string list \<Rightarrow> executionPolicyRule \<Rightarrow> requirements \<Rightarrow> policyDecision \<Rightarrow> policyDecision \<times> violation" where
  "applyPolicyRule L costBounded rule r decision =
     (let egress = pol_EgressClass decision; budget = req_MaxCostUSD r in
      if rule_Denied rule
      then deniedPolicy decision PolicyCodeTenantDenied ''execution policy denies this tenant''
      else if rule_AllowedGroups rule \<noteq> [] \<and> \<not> containsFold L (rule_AllowedGroups rule) (req_Group r)
      then deniedPolicy decision PolicyCodeGroupDenied ''execution policy denies the requested group''
      else if rule_AllowedProviders rule \<noteq> [] \<and> \<not> containsFold L (rule_AllowedProviders rule) (req_Provider r)
      then deniedPolicy decision PolicyCodeProviderDenied ''execution policy denies the requested provider''
      else if egress = ''unknown''
      then deniedPolicy decision PolicyCodeEgressDenied ''execution policy cannot classify the requested provider as local or remote''
      else if req_Egress r = ''local_only'' \<and> egress \<noteq> ''local''
      then deniedPolicy decision PolicyCodeEgressDenied ''job requires local-only execution but the provider is not classified local''
      else if rule_Egress rule = ''local_only'' \<and> egress \<noteq> ''local''
      then deniedPolicy decision PolicyCodeEgressDenied ''execution policy permits only local providers''
      else if rule_Egress rule = ''remote_only'' \<and> egress \<noteq> ''remote''
      then deniedPolicy decision PolicyCodeEgressDenied ''execution policy permits only remote providers''
      else if egress = ''remote'' \<and> (rule_RequireCostBudget rule \<or> rule_MaxCostUSD rule > 0) \<and> budget = 0
      then deniedPolicy decision PolicyCodeCostRequired ''execution policy requires max_cost_usd''
      else if egress = ''remote'' \<and> rule_MaxCostUSD rule > 0 \<and> budget > rule_MaxCostUSD rule
      then deniedPolicy decision PolicyCodeCostExceeded ''requested cost budget exceeds the execution policy ceiling''
      else if budget = 0 \<and> egress = ''remote''
      then (decision\<lparr>pol_CostEnforcement := ''unbounded_unknown'', pol_ReasonCodes := [PolicyCodeAllowed]\<rparr>, None)
      else if budget = 0
      then (decision\<lparr>pol_CostEnforcement := ''not_requested'', pol_ReasonCodes := [PolicyCodeAllowed]\<rparr>, None)
      else if egress = ''local''
      then (decision\<lparr>pol_CostEnforcement := ''not_applicable_local'', pol_ReasonCodes := [PolicyCodeAllowed]\<rparr>, None)
      else if egress = ''remote'' \<and> containsFold L costBounded (req_Provider r)
      then (decision\<lparr>pol_CostEnforcement := ''worker_upper_bound'', pol_ReasonCodes := [PolicyCodeAllowed]\<rparr>, None)
      else deniedPolicy decision PolicyCodeCostUnverifiable
             ''the requested provider has no operator-reviewed cost upper-bound enforcement'')"

definition initialDecision ::
  "goLib \<Rightarrow> (executionPolicyConfig \<Rightarrow> string) \<Rightarrow> executionPolicyConfig \<Rightarrow> requirements \<Rightarrow> gotime \<Rightarrow> policyDecision" where
  "initialDecision L J normalized r now =
     (let classification = classifyPolicyExecution L normalized r
      in \<lparr>pol_Schema = PolicyDecisionV1, pol_Outcome = ''allow'', pol_ReasonCodes = [], pol_RuleID = ''default'',
          pol_PolicyFingerprint = executionPolicyFingerprint L J normalized, pol_EgressClass = classification,
          pol_CostBudgetUSD = req_MaxCostUSD r, pol_CostEnforcement = [], pol_EvaluatedAt = now,
          pol_ProviderClassification = classification\<rparr>)"

definition EvaluateExecutionPolicy ::
  "goLib \<Rightarrow> (executionPolicyConfig \<Rightarrow> string) \<Rightarrow> executionPolicyConfig \<Rightarrow> string \<Rightarrow> requirements \<Rightarrow> gotime \<Rightarrow>
   policyDecision \<times> violation" where
  "EvaluateExecutionPolicy L J cfg tenantID r now =
     (let normalized = normalizeExecutionPolicyConfig L cfg;
          decision = initialDecision L J normalized r now;
          tenant = trimSpace tenantID;
          tenantRule = map_of (epc_Tenants normalized) tenant
      in if \<not> epc_Enabled normalized
         then (decision\<lparr>pol_ReasonCodes := [PolicyCodeDisabled], pol_CostEnforcement := ''not_configured''\<rparr>, None)
         else if epc_RequireTenant normalized \<and> tenant = []
         then deniedPolicy decision PolicyCodeTenantRequired ''execution policy requires tenant_id''
         else if epc_TenantMode normalized = ''listed_only'' \<and> (tenant = [] \<or> tenantRule = None)
         then deniedPolicy decision PolicyCodeTenantDenied ''execution policy does not allow this tenant''
         else case tenantRule of
                None \<Rightarrow> applyPolicyRule L (epc_CostBoundedProviders normalized) (epc_Default normalized) r decision
              | Some tr \<Rightarrow> applyPolicyRule L (epc_CostBoundedProviders normalized)
                             (mergeExecutionPolicyRules L (epc_Default normalized) tr) r
                             (decision\<lparr>pol_RuleID := policyTenantRuleID L tenant\<rparr>))"

section \<open>The decision record\<close>

text \<open>\<open>hex.DecodeString\<close> accepts the digest and it has the 32 bytes of SHA-256.\<close>

definition hexDigest :: "string \<Rightarrow> bool" where
  "hexDigest s \<longleftrightarrow> hexDecodes s \<and> length s div 2 = 32"

definition validPolicyRuleID :: "string \<Rightarrow> bool" where
  "validPolicyRuleID ruleID \<longleftrightarrow>
     ruleID = ''default'' \<or> (hasPrefix ruleID ''tenant:sha256:'' \<and> hexDigest (trimPrefix ruleID ''tenant:sha256:''))"

definition ValidateAllowed :: "policyDecision \<Rightarrow> unit result" where
  "ValidateAllowed d =
     (let cost = pol_CostEnforcement d; class' = pol_ProviderClassification d; budget = pol_CostBudgetUSD d in
      if pol_Schema d = [] then Inr ()
      else if pol_Schema d \<noteq> PolicyDecisionV1 \<or> pol_Outcome d \<noteq> ''allow''
      then Inl (ErrText ''policy decision must be an allowed Policy Decision v1'')
      else if pol_ReasonCodes d \<noteq> [PolicyCodeAllowed] \<and> pol_ReasonCodes d \<noteq> [PolicyCodeDisabled]
      then Inl (ErrText ''allowed policy decision has an invalid reason code'')
      else if \<not> validPolicyRuleID (pol_RuleID d) \<or> \<not> hasPrefix (pol_PolicyFingerprint d) ''sha256:''
              \<or> \<not> hexDigest (trimPrefix (pol_PolicyFingerprint d) ''sha256:'')
      then Inl (ErrText ''policy decision identity is incomplete'')
      else if class' \<notin> {''local'', ''remote'', ''unknown''}
      then Inl (ErrText ''policy decision provider classification is invalid'')
      else if pol_EgressClass d \<noteq> class' \<or> pol_EvaluatedAt d = 0
      then Inl (ErrText ''policy decision evidence is incomplete'')
      else bindE
        (if cost = ''not_configured''
         then failWhen (pol_ReasonCodes d \<noteq> [PolicyCodeDisabled])
                (ErrText ''policy decision has contradictory disabled cost evidence'')
         else if cost \<in> {''not_requested'', ''not_applicable_local'', ''unbounded_unknown'', ''worker_upper_bound''}
         then failWhen (pol_ReasonCodes d = [PolicyCodeDisabled] \<or> class' = ''unknown'')
                (ErrText ''policy decision has contradictory enabled cost evidence'')
         else Inl (ErrText ''policy decision cost enforcement is invalid'')) (\<lambda>_.
      if cost = ''worker_upper_bound'' \<and> (class' \<noteq> ''remote'' \<or> budget \<le> 0)
      then Inl (ErrText ''policy decision cost upper-bound evidence is incomplete'')
      else if cost = ''not_requested'' \<and> (class' \<noteq> ''local'' \<or> budget \<noteq> 0)
      then Inl (ErrText ''policy decision no-budget evidence is contradictory'')
      else if cost = ''not_applicable_local'' \<and> (class' \<noteq> ''local'' \<or> budget \<le> 0)
      then Inl (ErrText ''policy decision local cost evidence is contradictory'')
      else if cost = ''unbounded_unknown'' \<and> (class' \<noteq> ''remote'' \<or> budget \<noteq> 0)
      then Inl (ErrText ''policy decision unbounded cost evidence is contradictory'')
      else failWhen (budget < 0 \<or> budget > maximumPolicyCostUSD) (ErrText ''policy decision cost budget is invalid'')))"

text \<open>Two decisions with the same JSON but for the evaluation time.\<close>

definition EquivalentAuthorization :: "policyDecision \<Rightarrow> policyDecision \<Rightarrow> bool" where
  "EquivalentAuthorization d e \<longleftrightarrow> d\<lparr>pol_EvaluatedAt := 0\<rparr> = e\<lparr>pol_EvaluatedAt := 0\<rparr>"

section \<open>What is allowed\<close>

lemma deniedPolicy_violation [simp]: "snd (deniedPolicy d c m) = Some (c, m)"
  by (simp add: deniedPolicy_def)

lemma deniedPolicy_not_allowed [simp]: "deniedPolicy d c m \<noteq> (e, None)"
  by (simp add: deniedPolicy_def)

text \<open>The conditions under which a rule admits a job, and the evidence it then records.\<close>

definition ruleAdmits :: "goLib \<Rightarrow> string list \<Rightarrow> executionPolicyRule \<Rightarrow> requirements \<Rightarrow> string \<Rightarrow> bool" where
  "ruleAdmits L costBounded rule r egress \<longleftrightarrow>
     \<not> rule_Denied rule
     \<and> (rule_AllowedGroups rule \<noteq> [] \<longrightarrow> containsFold L (rule_AllowedGroups rule) (req_Group r))
     \<and> (rule_AllowedProviders rule \<noteq> [] \<longrightarrow> containsFold L (rule_AllowedProviders rule) (req_Provider r))
     \<and> egress \<noteq> ''unknown'' \<and> (req_Egress r = ''local_only'' \<longrightarrow> egress = ''local'')
     \<and> (rule_Egress rule = ''local_only'' \<longrightarrow> egress = ''local'')
     \<and> (rule_Egress rule = ''remote_only'' \<longrightarrow> egress = ''remote'')
     \<and> (egress = ''remote'' \<and> (rule_RequireCostBudget rule \<or> rule_MaxCostUSD rule > 0) \<longrightarrow> req_MaxCostUSD r \<noteq> 0)
     \<and> (egress = ''remote'' \<and> rule_MaxCostUSD rule > 0 \<longrightarrow> req_MaxCostUSD r \<le> rule_MaxCostUSD rule)
     \<and> (req_MaxCostUSD r \<noteq> 0 \<longrightarrow> egress = ''local'' \<or> (egress = ''remote'' \<and> containsFold L costBounded (req_Provider r)))"

definition costEvidence :: "requirements \<Rightarrow> string \<Rightarrow> string" where
  "costEvidence r egress =
     (if req_MaxCostUSD r = 0 \<and> egress = ''remote'' then ''unbounded_unknown''
      else if req_MaxCostUSD r = 0 then ''not_requested''
      else if egress = ''local'' then ''not_applicable_local'' else ''worker_upper_bound'')"

lemma applyPolicyRule_allows:
  "applyPolicyRule L cb rule r d = (e, None) \<longleftrightarrow>
     ruleAdmits L cb rule r (pol_EgressClass d)
     \<and> e = d\<lparr>pol_CostEnforcement := costEvidence r (pol_EgressClass d), pol_ReasonCodes := [PolicyCodeAllowed]\<rparr>"
  by (auto simp: applyPolicyRule_def ruleAdmits_def costEvidence_def Let_def split: if_splits)

lemma profileLoop_classes:
  "profileLoop L seen xs = Inr () \<Longrightarrow> (p, c) \<in> set xs \<Longrightarrow> toLower L (trimSpace c) \<in> {''local'', ''remote''}"
  by (induction L seen xs rule: profileLoop.induct) (auto split: if_splits)

lemma classification_known:
  assumes "Validate L cfg = Inr ()"
  shows "classifyPolicyExecution L (normalizeExecutionPolicyConfig L cfg) r \<in> {''local'', ''remote'', ''unknown''}"
proof -
  have prof: "profileLoop L [] (epc_AdapterProfileClassifications cfg) = Inr ()"
    using assms by (auto simp: Validate_def result_simps)
  have "c \<in> {''local'', ''remote''}"
    if "map_of (epc_AdapterProfileClassifications (normalizeExecutionPolicyConfig L cfg)) k = Some c" for k c
  proof -
    from map_of_SomeD [OF that] obtain p c0 where "(p, c0) \<in> set (epc_AdapterProfileClassifications cfg)"
      "c = toLower L (trimSpace c0)" by (auto simp: normalizeExecutionPolicyConfig_def)
    with profileLoop_classes [OF prof] show ?thesis by blast
  qed
  then show ?thesis
    by (auto simp: classifyPolicyExecution_def classifyPolicyProvider_def Let_def split: option.splits if_splits)
qed

lemma hexDigest_sha: "length (sha256 L s) = 32 \<Longrightarrow> hexDigest (sha256Hex L s)"
  by (simp add: hexDigest_def sha256Hex_def hexDecodes_hexEncode)

lemma trimPrefix_append [simp]: "trimPrefix (p @ s) p = s"
  by (simp add: trimPrefix_def)

text \<open>An allowed decision is the initial one with the evidence of its rule.\<close>

lemma evaluate_disabled:
  "\<not> epc_Enabled cfg \<Longrightarrow> EvaluateExecutionPolicy L J cfg tenantID r now =
     ((initialDecision L J (normalizeExecutionPolicyConfig L cfg) r now)\<lparr>pol_ReasonCodes := [PolicyCodeDisabled],
        pol_CostEnforcement := ''not_configured''\<rparr>, None)"
  by (simp add: EvaluateExecutionPolicy_def Let_def normalizeExecutionPolicyConfig_def)

lemma evaluate_enabled:
  assumes "EvaluateExecutionPolicy L J cfg tenantID r now = (d, None)" and "epc_Enabled cfg"
  obtains ruleID where "ruleID = ''default'' \<or> ruleID = policyTenantRuleID L (trimSpace tenantID)"
    and "d = (initialDecision L J (normalizeExecutionPolicyConfig L cfg) r now)\<lparr>pol_RuleID := ruleID,
      pol_CostEnforcement := costEvidence r (classifyPolicyExecution L (normalizeExecutionPolicyConfig L cfg) r),
      pol_ReasonCodes := [PolicyCodeAllowed]\<rparr>"
    and "ruleAdmits L (epc_CostBoundedProviders (normalizeExecutionPolicyConfig L cfg))
      (case map_of (epc_Tenants (normalizeExecutionPolicyConfig L cfg)) (trimSpace tenantID) of
         None \<Rightarrow> epc_Default (normalizeExecutionPolicyConfig L cfg)
       | Some tr \<Rightarrow> mergeExecutionPolicyRules L (epc_Default (normalizeExecutionPolicyConfig L cfg)) tr)
      r (classifyPolicyExecution L (normalizeExecutionPolicyConfig L cfg) r)"
proof -
  define n where "n = normalizeExecutionPolicyConfig L cfg"
  define class' where "class' = classifyPolicyExecution L n r"
  have en: "epc_Enabled n" using assms(2) by (simp add: n_def normalizeExecutionPolicyConfig_def)
  have init: "pol_EgressClass (initialDecision L J n r now) = class'"
    by (simp add: initialDecision_def class'_def Let_def)
  have def': "(initialDecision L J n r now)\<lparr>pol_RuleID := ''default''\<rparr> = initialDecision L J n r now"
    by (simp add: initialDecision_def Let_def)
  show thesis
  proof (cases "map_of (epc_Tenants n) (trimSpace tenantID)")
    case None
    then have "applyPolicyRule L (epc_CostBoundedProviders n) (epc_Default n) r (initialDecision L J n r now) = (d, None)"
      using assms(1) en by (auto simp: EvaluateExecutionPolicy_def n_def [symmetric] Let_def split: if_splits)
    then show thesis
      using None init def' by (intro that [of "''default''"]) (simp_all add: applyPolicyRule_allows n_def class'_def)
  next
    case (Some tr)
    then have "applyPolicyRule L (epc_CostBoundedProviders n) (mergeExecutionPolicyRules L (epc_Default n) tr) r
        ((initialDecision L J n r now)\<lparr>pol_RuleID := policyTenantRuleID L (trimSpace tenantID)\<rparr>) = (d, None)"
      using assms(1) en by (auto simp: EvaluateExecutionPolicy_def n_def [symmetric] Let_def split: if_splits)
    then show thesis
      using Some init
      by (intro that [of "policyTenantRuleID L (trimSpace tenantID)"]) (simp_all add: applyPolicyRule_allows n_def class'_def)
  qed
qed

definition denies :: "policyDecision \<times> violation \<Rightarrow> bool" where
  "denies p \<longleftrightarrow> (snd p \<noteq> None \<longrightarrow> pol_Outcome (fst p) = ''deny'' \<and> pol_Schema (fst p) = PolicyDecisionV1)"

lemma denies_simps [simp]:
  "denies (deniedPolicy d c m) \<longleftrightarrow> pol_Schema d = PolicyDecisionV1"
  "denies (e, None)"
  by (simp_all add: denies_def deniedPolicy_def)

lemma applyPolicyRule_denies: "pol_Schema d = PolicyDecisionV1 \<Longrightarrow> denies (applyPolicyRule L cb rule r d)"
  by (simp add: applyPolicyRule_def Let_def if_distrib [of denies] cong: if_cong)

lemma evaluate_denied: "denies (EvaluateExecutionPolicy L J cfg tenantID r now)"
proof -
  have init: "pol_Schema (initialDecision L J n r now) = PolicyDecisionV1" for n
    by (simp add: initialDecision_def Let_def)
  show ?thesis
    by (cases "map_of (epc_Tenants (normalizeExecutionPolicyConfig L cfg)) (trimSpace tenantID)")
      (simp_all add: EvaluateExecutionPolicy_def Let_def init if_distrib [of denies] applyPolicyRule_denies cong: if_cong)
qed

text \<open>The combinations of class, budget and enforcement that the evidence may show.\<close>

definition costConsistent :: "string \<Rightarrow> string \<Rightarrow> real \<Rightarrow> bool" where
  "costConsistent cost class' budget \<longleftrightarrow>
     (cost = ''worker_upper_bound'' \<and> class' = ''remote'' \<and> 0 < budget)
     \<or> (cost = ''not_requested'' \<and> class' = ''local'' \<and> budget = 0)
     \<or> (cost = ''not_applicable_local'' \<and> class' = ''local'' \<and> 0 < budget)
     \<or> (cost = ''unbounded_unknown'' \<and> class' = ''remote'' \<and> budget = 0)"

lemma ValidateAllowed_consistent:
  assumes "pol_Schema d = PolicyDecisionV1" and "pol_Outcome d = ''allow''" and "validPolicyRuleID (pol_RuleID d)"
    and "hasPrefix (pol_PolicyFingerprint d) ''sha256:''" and "hexDigest (trimPrefix (pol_PolicyFingerprint d) ''sha256:'')"
    and "pol_ProviderClassification d \<in> {''local'', ''remote'', ''unknown''}"
    and "pol_EgressClass d = pol_ProviderClassification d" and "pol_EvaluatedAt d \<noteq> 0"
    and "0 \<le> pol_CostBudgetUSD d" and "pol_CostBudgetUSD d \<le> maximumPolicyCostUSD"
    and "(pol_ReasonCodes d = [PolicyCodeDisabled] \<and> pol_CostEnforcement d = ''not_configured'')
      \<or> (pol_ReasonCodes d = [PolicyCodeAllowed] \<and>
         costConsistent (pol_CostEnforcement d) (pol_ProviderClassification d) (pol_CostBudgetUSD d))"
  shows "ValidateAllowed d = Inr ()"
proof -
  have schema: "pol_Schema d \<noteq> []" using assms(1) by (simp add: PolicyDecisionV1_def)
  have codes: "PolicyCodeAllowed \<noteq> PolicyCodeDisabled" by (simp add: policy_code_defs)
  show ?thesis
    using assms(11)
  proof
    assume "pol_ReasonCodes d = [PolicyCodeDisabled] \<and> pol_CostEnforcement d = ''not_configured''"
    then show ?thesis using assms(1-10) schema by (simp add: ValidateAllowed_def Let_def)
  next
    assume a: "pol_ReasonCodes d = [PolicyCodeAllowed] \<and>
         costConsistent (pol_CostEnforcement d) (pol_ProviderClassification d) (pol_CostBudgetUSD d)"
    then show ?thesis
      using assms(1-10) schema codes unfolding costConsistent_def
      by (elim conjE disjE) (simp_all add: ValidateAllowed_def Let_def)
  qed
qed

lemma costEvidence_consistent:
  "ruleAdmits L cb rule r class' \<Longrightarrow> class' \<in> {''local'', ''remote'', ''unknown''} \<Longrightarrow> 0 \<le> req_MaxCostUSD r \<Longrightarrow>
   costConsistent (costEvidence r class') class' (req_MaxCostUSD r)"
  by (auto simp: ruleAdmits_def costEvidence_def costConsistent_def)

text \<open>the two halves of the policy agree: every decision the evaluator allows under a validated
  configuration is accepted by \<open>ValidateAllowed\<close> when the job is admitted, and a denied decision
  never is. SHA-256 digests have 32 bytes.\<close>

theorem policy_decisions_validate:
  assumes "Validate L cfg = Inr ()" and "validateExecutionPolicyRequirements r = Inr ()" and "now \<noteq> 0"
    and "\<forall>s. length (sha256 L s) = 32"
    and "EvaluateExecutionPolicy L J cfg tenantID r now = (d, violation)"
  shows "ValidateAllowed d = Inr () \<longleftrightarrow> violation = None"
proof
  assume none: "violation = None"
  let ?n = "normalizeExecutionPolicyConfig L cfg"
  let ?cls = "classifyPolicyExecution L ?n r"
  have cls: "?cls \<in> {''local'', ''remote'', ''unknown''}" by (rule classification_known [OF assms(1)])
  have cost: "0 \<le> req_MaxCostUSD r" "req_MaxCostUSD r \<le> maximumPolicyCostUSD"
    using assms(2) by (auto simp: validateExecutionPolicyRequirements_def result_simps)
  have rid: "validPolicyRuleID x" if "x = ''default'' \<or> x = policyTenantRuleID L (trimSpace tenantID)" for x
    using that assms(4) by (auto simp: validPolicyRuleID_def policyTenantRuleID_def hexDigest_sha trimPrefix_def)
  have fp: "hasPrefix (executionPolicyFingerprint L J ?n) ''sha256:''"
    "hexDigest (trimPrefix (executionPolicyFingerprint L J ?n) ''sha256:'')"
    using assms(4) by (simp_all add: executionPolicyFingerprint_def hexDigest_sha trimPrefix_def)
  note init = initialDecision_def [of L J ?n r now, unfolded Let_def]
  show "ValidateAllowed d = Inr ()"
  proof (cases "epc_Enabled cfg")
    case True
    have e: "EvaluateExecutionPolicy L J cfg tenantID r now = (d, None)" using assms(5) none by simp
    from evaluate_enabled [OF e True] obtain ruleID rule where
      id: "ruleID = ''default'' \<or> ruleID = policyTenantRuleID L (trimSpace tenantID)" and
      d: "d = (initialDecision L J ?n r now)\<lparr>pol_RuleID := ruleID, pol_CostEnforcement := costEvidence r ?cls,
        pol_ReasonCodes := [PolicyCodeAllowed]\<rparr>" and adm: "ruleAdmits L (epc_CostBoundedProviders ?n) rule r ?cls" by metis
    from costEvidence_consistent [OF adm cls cost(1)] show ?thesis
      using cls cost rid [OF id] fp assms(3) by (intro ValidateAllowed_consistent) (simp_all add: d init)
  next
    case False
    then have "d = (initialDecision L J ?n r now)\<lparr>pol_ReasonCodes := [PolicyCodeDisabled], pol_CostEnforcement := ''not_configured''\<rparr>"
      using evaluate_disabled [OF False, of L J tenantID r now] assms(5) by simp
    then show ?thesis
      using cls cost fp assms(3) rid [of "''default''"] by (intro ValidateAllowed_consistent) (simp_all add: init)
  qed
next
  assume ok: "ValidateAllowed d = Inr ()"
  show "violation = None"
  proof (rule ccontr)
    assume "violation \<noteq> None"
    then have "pol_Outcome d = ''deny'' \<and> pol_Schema d = PolicyDecisionV1"
      using evaluate_denied [of L J cfg tenantID r now] assms(5) by (simp add: denies_def)
    then show False using ok by (simp add: ValidateAllowed_def PolicyDecisionV1_def)
  qed
qed

section \<open>Tenant rules only restrict\<close>

lemma containsFold_sort [simp]: "containsFold L (normalizedPolicyList L xs) = containsFold L xs"
  by (auto simp: containsFold_def normalizedPolicyList_def list_ex_iff fun_eq_iff)

lemma intersect_restricts:
  "intersectPolicyLists L base tenant \<noteq> [] \<Longrightarrow> base \<noteq> [] \<Longrightarrow> containsFold L (intersectPolicyLists L base tenant) w \<Longrightarrow>
   containsFold L base w"
  by (auto simp: intersectPolicyLists_def containsFold_def list_ex_iff split: if_splits)

lemma intersect_nonempty:
  "base \<noteq> [] \<Longrightarrow> tenant = [] \<or> intersectPolicyLists L base tenant \<noteq> [] \<Longrightarrow> intersectPolicyLists L base tenant \<noteq> []"
  by (auto simp: intersectPolicyLists_def)

lemma merge_restricts:
  assumes "ruleAdmits L cb (mergeExecutionPolicyRules L base tenant) r egress"
  shows "ruleAdmits L cb base r egress"
proof -
  let ?m = "mergeExecutionPolicyRules L base tenant"
  have nd: "\<not> rule_Denied ?m" using assms by (simp add: ruleAdmits_def)
  have groups: "rule_AllowedGroups base \<noteq> [] \<longrightarrow> containsFold L (rule_AllowedGroups base) (req_Group r)"
  proof
    assume b: "rule_AllowedGroups base \<noteq> []"
    then have ne: "rule_AllowedGroups ?m \<noteq> []" using nd intersect_nonempty [OF b]
      by (auto simp: mergeExecutionPolicyRules_def Let_def)
    then have "containsFold L (rule_AllowedGroups ?m) (req_Group r)" using assms by (simp add: ruleAdmits_def)
    then show "containsFold L (rule_AllowedGroups base) (req_Group r)"
      using ne b by (auto simp: mergeExecutionPolicyRules_def Let_def intro: intersect_restricts)
  qed
  have providers: "rule_AllowedProviders base \<noteq> [] \<longrightarrow> containsFold L (rule_AllowedProviders base) (req_Provider r)"
  proof
    assume b: "rule_AllowedProviders base \<noteq> []"
    then have ne: "rule_AllowedProviders ?m \<noteq> []" using nd intersect_nonempty [OF b]
      by (auto simp: mergeExecutionPolicyRules_def Let_def)
    then have "containsFold L (rule_AllowedProviders ?m) (req_Provider r)" using assms by (simp add: ruleAdmits_def)
    then show "containsFold L (rule_AllowedProviders base) (req_Provider r)"
      using ne b by (auto simp: mergeExecutionPolicyRules_def Let_def intro: intersect_restricts)
  qed
  have eg: "rule_Egress base = x \<Longrightarrow> x \<noteq> [] \<Longrightarrow> x \<noteq> ''any'' \<Longrightarrow> rule_Egress ?m = x" for x
    using nd by (auto simp: mergeExecutionPolicyRules_def Let_def split: if_splits)
  have local: "rule_Egress base = ''local_only'' \<longrightarrow> rule_Egress ?m = ''local_only''"
    and remote: "rule_Egress base = ''remote_only'' \<longrightarrow> rule_Egress ?m = ''remote_only''"
    using eg by simp_all
  have open': "\<not> rule_Denied base" using nd by (simp add: mergeExecutionPolicyRules_def Let_def)
  have budget: "rule_RequireCostBudget base \<longrightarrow> rule_RequireCostBudget ?m"
    by (simp add: mergeExecutionPolicyRules_def Let_def)
  have ceiling: "0 < rule_MaxCostUSD base \<longrightarrow> 0 < rule_MaxCostUSD ?m \<and> rule_MaxCostUSD ?m \<le> rule_MaxCostUSD base"
    by (simp add: mergeExecutionPolicyRules_def Let_def)
  note a = assms [unfolded ruleAdmits_def]
  have "egress = ''remote'' \<and> 0 < rule_MaxCostUSD base \<longrightarrow> req_MaxCostUSD r \<le> rule_MaxCostUSD base"
    using a ceiling order_trans by blast
  moreover have "egress = ''remote'' \<and> (rule_RequireCostBudget base \<or> rule_MaxCostUSD base > 0) \<longrightarrow> req_MaxCostUSD r \<noteq> 0"
    using a ceiling budget by blast
  ultimately show ?thesis
    unfolding ruleAdmits_def using a open' groups providers local remote by argo
qed

text \<open>a tenant rule can only restrict: whatever a listed tenant is allowed, the default rule alone
  allows as well, with the same evidence but for the rule named in it.\<close>

theorem tenant_rule_never_relaxes:
  assumes "EvaluateExecutionPolicy L J cfg tenantID r now = (d, None)"
  shows "\<exists>e. EvaluateExecutionPolicy L J (cfg\<lparr>epc_Tenants := [], epc_TenantMode := ''open''\<rparr>) tenantID r now = (e, None)
    \<and> pol_CostEnforcement e = pol_CostEnforcement d \<and> pol_EgressClass e = pol_EgressClass d"
proof -
  let ?open = "cfg\<lparr>epc_Tenants := [], epc_TenantMode := ''open''\<rparr>"
  let ?n = "normalizeExecutionPolicyConfig L cfg" and ?o = "normalizeExecutionPolicyConfig L ?open"
  let ?cls = "classifyPolicyExecution L ?n r"
  have same: "epc_Enabled ?o = epc_Enabled cfg" "epc_RequireTenant ?o = epc_RequireTenant cfg" "epc_TenantMode ?o = ''open''"
    "epc_Tenants ?o = []" "epc_Default ?o = epc_Default ?n" "epc_CostBoundedProviders ?o = epc_CostBoundedProviders ?n"
    by (simp_all add: normalizeExecutionPolicyConfig_def)
  have cls: "classifyPolicyExecution L ?o r = ?cls"
  proof -
    have f: "epc_AdapterProfileClassifications ?o = epc_AdapterProfileClassifications ?n"
      "epc_LocalProviders ?o = epc_LocalProviders ?n" "epc_RemoteProviders ?o = epc_RemoteProviders ?n"
      by (simp_all add: normalizeExecutionPolicyConfig_def)
    show ?thesis unfolding classifyPolicyExecution_def classifyPolicyProvider_def f ..
  qed
  have init: "pol_EgressClass (initialDecision L J ?o r now) = ?cls" "pol_EgressClass (initialDecision L J ?n r now) = ?cls"
    by (simp_all add: initialDecision_def Let_def cls)
  have adm: "pol_CostEnforcement d = costEvidence r ?cls \<and> pol_EgressClass d = ?cls
      \<and> ruleAdmits L (epc_CostBoundedProviders ?n) (epc_Default ?n) r ?cls" if on: "epc_Enabled cfg"
    by (rule evaluate_enabled [OF assms on]) (auto simp: init split: option.splits intro: merge_restricts)
  have req: "epc_Enabled cfg \<Longrightarrow> epc_RequireTenant cfg \<Longrightarrow> trimSpace tenantID \<noteq> []"
    using assms by (auto simp: EvaluateExecutionPolicy_def Let_def normalizeExecutionPolicyConfig_def)
  show ?thesis
  proof (cases "epc_Enabled cfg")
    case False
    then have "epc_Enabled ?open = False" by simp
    then show ?thesis
      using evaluate_disabled [of ?open L J tenantID r now] evaluate_disabled [OF False, of L J tenantID r now] assms
      by (simp add: init del: executionPolicyConfig.update_convs)
  next
    case True
    have "EvaluateExecutionPolicy L J ?open tenantID r now =
        applyPolicyRule L (epc_CostBoundedProviders ?n) (epc_Default ?n) r (initialDecision L J ?o r now)"
      using True same req by (auto simp: EvaluateExecutionPolicy_def Let_def)
    moreover have "applyPolicyRule L (epc_CostBoundedProviders ?n) (epc_Default ?n) r (initialDecision L J ?o r now) =
        ((initialDecision L J ?o r now)\<lparr>pol_CostEnforcement := costEvidence r ?cls, pol_ReasonCodes := [PolicyCodeAllowed]\<rparr>, None)"
      using adm [OF True] by (subst applyPolicyRule_allows) (simp add: init)
    ultimately show ?thesis using adm [OF True] by (simp add: init)
  qed
qed

text \<open>An enabled policy fails closed: a job it allows has a known egress class, stays local when it
  or the default rule asks for it, uses an allowed provider and group of the default rule, and, when it
  leaves the machine under a rule with a ceiling, carries a positive budget within the ceiling for a
  provider whose cost is bounded.\<close>

theorem allowed_execution_is_within_default_rule:
  assumes "EvaluateExecutionPolicy L J cfg tenantID r now = (d, None)" and "epc_Enabled cfg"
    and "validateExecutionPolicyRequirements r = Inr ()"
  shows "pol_EgressClass d \<noteq> ''unknown''
    \<and> (req_Egress r = ''local_only'' \<or> rule_Egress (epc_Default cfg) = ''local_only'' \<longrightarrow> pol_EgressClass d = ''local'')
    \<and> (rule_AllowedProviders (epc_Default cfg) \<noteq> [] \<longrightarrow> containsFold L (rule_AllowedProviders (epc_Default cfg)) (req_Provider r))
    \<and> (rule_AllowedGroups (epc_Default cfg) \<noteq> [] \<longrightarrow> containsFold L (rule_AllowedGroups (epc_Default cfg)) (req_Group r))
    \<and> (pol_EgressClass d = ''remote'' \<and> 0 < rule_MaxCostUSD (epc_Default cfg) \<longrightarrow>
         0 < req_MaxCostUSD r \<and> req_MaxCostUSD r \<le> rule_MaxCostUSD (epc_Default cfg)
         \<and> containsFold L (epc_CostBoundedProviders cfg) (req_Provider r))"
proof -
  let ?n = "normalizeExecutionPolicyConfig L cfg"
  let ?cls = "classifyPolicyExecution L ?n r"
  have init: "pol_EgressClass (initialDecision L J ?n r now) = ?cls" by (simp add: initialDecision_def Let_def)
  have both: "pol_EgressClass d = ?cls \<and> ruleAdmits L (epc_CostBoundedProviders ?n) (epc_Default ?n) r ?cls"
    by (rule evaluate_enabled [OF assms(1,2)]) (auto simp: init split: option.splits intro: merge_restricts)
  then have cls: "pol_EgressClass d = ?cls" and adm: "ruleAdmits L (epc_CostBoundedProviders ?n) (epc_Default ?n) r ?cls"
    by blast+
  have cost: "0 \<le> req_MaxCostUSD r"
    using assms(3) by (auto simp: validateExecutionPolicyRequirements_def result_simps)
  have def': "epc_Default ?n = normalizeExecutionPolicyRule L (epc_Default cfg)"
    "containsFold L (epc_CostBoundedProviders ?n) = containsFold L (epc_CostBoundedProviders cfg)"
    by (simp_all add: normalizeExecutionPolicyConfig_def)
  have ne: "normalizedPolicyList L xs = [] \<longleftrightarrow> xs = []" for xs
    by (metis length_0_conv length_sort normalizedPolicyList_def)
  show ?thesis
    using adm cost unfolding cls ruleAdmits_def def' normalizeExecutionPolicyRule_def
    by (auto simp: ne)
qed

section \<open>Witnesses\<close>

definition openRule :: executionPolicyRule where
  "openRule = \<lparr>rule_Denied = False, rule_Egress = [], rule_AllowedProviders = [], rule_AllowedGroups = [],
     rule_RequireCostBudget = False, rule_MaxCostUSD = 0\<rparr>"

definition localPolicy :: executionPolicyConfig where
  "localPolicy = \<lparr>epc_Enabled = True, epc_TenantMode = [], epc_RequireTenant = False, epc_LocalProviders = [''llama''],
     epc_RemoteProviders = [], epc_AdapterProfileClassifications = [], epc_CostBoundedProviders = [],
     epc_Default = openRule\<lparr>rule_Egress := ''local_only''\<rparr>, epc_Tenants = [(''acme'', openRule)]\<rparr>"

definition llamaReq :: requirements where
  "llamaReq = zeroRequirements\<lparr>req_Provider := ''llama''\<rparr>"

lemma localPolicy_valid: "Validate plainLib localPolicy = Inr ()"
  by code_simp

lemma llamaReq_valid: "validateExecutionPolicyRequirements llamaReq = Inr ()"
  by (simp add: validateExecutionPolicyRequirements_def llamaReq_def zeroRequirements_def maximumPolicyCostUSD_def)

lemma llama_evaluates:
  "\<exists>d. EvaluateExecutionPolicy plainLib (\<lambda>_. ''{}'') localPolicy ''acme'' llamaReq 7 = (d, None)"
proof -
  let ?n = "normalizeExecutionPolicyConfig plainLib localPolicy"
  have "trimSpace ''acme'' = ''acme''" "trimSpace ''llama'' = ''llama''" "trimSpace [] = []" by code_simp+
  moreover have "equalFold plainLib ''llama'' ''llama''" "\<not> equalFold plainLib ''llama'' ''adapter''" by code_simp+
  ultimately have cls: "classifyPolicyExecution plainLib ?n llamaReq = ''local''"
    and t: "map_of (epc_Tenants ?n) (trimSpace ''acme'') = Some (normalizeExecutionPolicyRule plainLib openRule)"
    by (simp_all add: classifyPolicyExecution_def classifyPolicyProvider_def normalizeExecutionPolicyConfig_def localPolicy_def
        llamaReq_def zeroRequirements_def containsFold_def normalizedPolicyList_def Let_def)
  have "ruleAdmits plainLib (epc_CostBoundedProviders ?n) (mergeExecutionPolicyRules plainLib (epc_Default ?n)
      (normalizeExecutionPolicyRule plainLib openRule)) llamaReq ''local''"
    by (simp add: ruleAdmits_def mergeExecutionPolicyRules_def normalizeExecutionPolicyRule_def normalizeExecutionPolicyConfig_def
        localPolicy_def openRule_def intersectPolicyLists_def normalizedPolicyList_def llamaReq_def zeroRequirements_def Let_def)
  then have "\<exists>e. applyPolicyRule plainLib (epc_CostBoundedProviders ?n) (mergeExecutionPolicyRules plainLib (epc_Default ?n)
      (normalizeExecutionPolicyRule plainLib openRule)) llamaReq
      ((initialDecision plainLib (\<lambda>_. ''{}'') ?n llamaReq 7)\<lparr>pol_RuleID := policyTenantRuleID plainLib (trimSpace ''acme'')\<rparr>) = (e, None)"
    by (simp add: applyPolicyRule_allows initialDecision_def cls Let_def)
  moreover have "epc_Enabled ?n" "\<not> epc_RequireTenant ?n" "epc_TenantMode ?n = ''open''"
    by (simp_all add: normalizeExecutionPolicyConfig_def localPolicy_def)
  ultimately show ?thesis using t by (simp add: EvaluateExecutionPolicy_def Let_def)
qed

theorem policy_decisions_validate_witness:
  "\<exists>d. EvaluateExecutionPolicy plainLib (\<lambda>_. ''{}'') localPolicy ''acme'' llamaReq 7 = (d, None) \<and> ValidateAllowed d = Inr ()"
proof -
  obtain d where d: "EvaluateExecutionPolicy plainLib (\<lambda>_. ''{}'') localPolicy ''acme'' llamaReq 7 = (d, None)"
    using llama_evaluates by blast
  have "ValidateAllowed d = Inr () \<longleftrightarrow> (None :: violation) = None"
    by (rule policy_decisions_validate [OF localPolicy_valid llamaReq_valid _ _ d]) (simp_all add: plainLib_def)
  with d show ?thesis by blast
qed

theorem tenant_rule_never_relaxes_witness:
  "\<exists>e. EvaluateExecutionPolicy plainLib (\<lambda>_. ''{}'') (localPolicy\<lparr>epc_Tenants := [], epc_TenantMode := ''open''\<rparr>) ''acme'' llamaReq 7 = (e, None)"
proof -
  obtain d where d: "EvaluateExecutionPolicy plainLib (\<lambda>_. ''{}'') localPolicy ''acme'' llamaReq 7 = (d, None)"
    using llama_evaluates by blast
  from tenant_rule_never_relaxes [OF d] show ?thesis by blast
qed

theorem allowed_execution_is_within_default_rule_witness:
  "\<exists>d. EvaluateExecutionPolicy plainLib (\<lambda>_. ''{}'') localPolicy ''acme'' llamaReq 7 = (d, None) \<and> pol_EgressClass d = ''local''"
proof -
  obtain d where d: "EvaluateExecutionPolicy plainLib (\<lambda>_. ''{}'') localPolicy ''acme'' llamaReq 7 = (d, None)"
    using llama_evaluates by blast
  from allowed_execution_is_within_default_rule [OF d _ llamaReq_valid] d show ?thesis by (auto simp: localPolicy_def)
qed

end
