(* ===== verification/Capability_Match.thy ===== *)
theory Capability_Match
  imports Routing_Performance Execution_Policy
begin

text \<open>
  Which node can run a job (\<open>internal/cluster/scheduler.go\<close>, \<open>routingConstraintReasons\<close> to
  \<open>containsFold\<close>): the models and tasks a worker reports, its adapter sessions, its memory. The
  scheduler decides with \<open>matchesNode\<close> and explains with \<open>routingConstraintReasons\<close>, two
  pieces of code that are shown to agree. \<open>selectReadyAdapterSession\<close> picks the endpoint of an
  adapter request. \<open>AutomaticTasks\<close> is a Go map: its entries are listed here in the order in which
  the loop meets them.
\<close>

section \<open>Labels\<close>

definition adapterModelEqual :: "goLib \<Rightarrow> string \<Rightarrow> string \<Rightarrow> bool" where
  "adapterModelEqual L a b \<longleftrightarrow> equalFold L (joinWith '' '' (Go_Strings.fields a)) (joinWith '' '' (Go_Strings.fields b))"

definition containsAdapterModel :: "goLib \<Rightarrow> string list \<Rightarrow> string \<Rightarrow> bool" where
  "containsAdapterModel L values wanted \<longleftrightarrow> list_ex (\<lambda>v. adapterModelEqual L v wanted) values"

definition adapterReasoningKey :: "goLib \<Rightarrow> string \<Rightarrow> string" where
  "adapterReasoningKey L value =
     (let normalized = toLower L (joinWith '' '' (Go_Strings.fields value)) in
      if normalized \<in> {''instant'', ''sofort'', ''fast'', ''schnell''} then ''instant''
      else if normalized \<in> {''low'', ''niedrig''} then ''low''
      else if normalized \<in> {''medium'', ''mittel''} then ''medium''
      else if normalized \<in> {''high'', ''hoch''} then ''high''
      else if normalized \<in> {''xhigh'', ''very high'', ''sehr hoch''} then ''xhigh''
      else if normalized \<in> {''maximum'', ''max'', ''maximal''} then ''max''
      else normalized)"

definition adapterReasoningEqual :: "goLib \<Rightarrow> string \<Rightarrow> string \<Rightarrow> bool" where
  "adapterReasoningEqual L a b \<longleftrightarrow> adapterReasoningKey L a = adapterReasoningKey L b"

definition containsAdapterReasoning :: "goLib \<Rightarrow> string list \<Rightarrow> string \<Rightarrow> bool" where
  "containsAdapterReasoning L values wanted \<longleftrightarrow> list_ex (\<lambda>v. adapterReasoningEqual L v wanted) values"

definition cleanAdapterSessionKey :: "string \<Rightarrow> string" where
  "cleanAdapterSessionKey value =
     (if length value \<noteq> 67 \<or> \<not> hasPrefix value ''cb:'' then []
      else if list_all (\<lambda>c. 48 \<le> byte c \<and> byte c \<le> 57 \<or> 97 \<le> byte c \<and> byte c \<le> 102) (drop 3 value) then value
      else [])"

section \<open>Models\<close>

definition modelMatchesProvider :: "goLib \<Rightarrow> modelCapability \<Rightarrow> string \<Rightarrow> bool" where
  "modelMatchesProvider L model provider \<longleftrightarrow> provider = [] \<or> equalFold L (model_Provider model) provider"

definition modelMeetsHardRequirements :: "goLib \<Rightarrow> modelCapability \<Rightarrow> requirements \<Rightarrow> bool" where
  "modelMeetsHardRequirements L model r \<longleftrightarrow>
     \<not> (req_Vision r \<and> \<not> model_Vision model \<or> req_Embedding r \<and> \<not> model_Embedding model)
     \<and> \<not> (req_InputImageCount r > 0
          \<and> (\<not> model_Vision model \<or> \<not> model_CapabilitiesVerified model
             \<or> model_MaxInputImages model > 0 \<and> req_InputImageCount r > model_MaxInputImages model))
     \<and> \<not> (req_InputImageBytes r > 0 \<and> model_MaxTotalImageBytes model > 0 \<and> req_InputImageBytes r > model_MaxTotalImageBytes model)
     \<and> \<not> (req_InputImageMaxBytes r > 0 \<and> model_MaxImageBytes model > 0 \<and> req_InputImageMaxBytes r > model_MaxImageBytes model)
     \<and> \<not> (req_InputImageMediaTypes r \<noteq> [] \<and> model_ImageMediaTypes model \<noteq> []
          \<and> list_ex (\<lambda>t. \<not> containsFold L (model_ImageMediaTypes model) t) (req_InputImageMediaTypes r))"

definition isAutomaticOllamaRequest :: "goLib \<Rightarrow> requirements \<Rightarrow> bool" where
  "isAutomaticOllamaRequest L r \<longleftrightarrow> equalFold L (trimSpace (req_Provider r)) ''ollama''
     \<and> (trimSpace (req_Model r) = [] \<or> equalFold L (trimSpace (req_Model r)) ''auto'')"

definition modelSupports :: "goLib \<Rightarrow> modelCapability list \<Rightarrow> requirements \<Rightarrow> bool" where
  "modelSupports L models r \<longleftrightarrow> list_ex (\<lambda>model.
     \<not> (isAutomaticOllamaRequest L r \<and> (\<not> model_Available model \<or> \<not> model_CapabilitiesVerified model))
     \<and> modelMatchesProvider L model (req_Provider r) \<and> (req_Task r = [] \<or> containsFold L (model_Tasks model) (req_Task r))
     \<and> modelMeetsHardRequirements L model r) models"

definition hasLoadedAutomaticModel :: "goLib \<Rightarrow> modelCapability list \<Rightarrow> requirements \<Rightarrow> bool" where
  "hasLoadedAutomaticModel L models r \<longleftrightarrow> isAutomaticOllamaRequest L r \<and> list_ex (\<lambda>model.
     \<not> (\<not> model_Loaded model \<or> \<not> model_Available model \<or> \<not> model_CapabilitiesVerified model
        \<or> \<not> modelMatchesProvider L model (req_Provider r))
     \<and> \<not> (req_Task r \<noteq> [] \<and> \<not> containsFold L (model_Tasks model) (req_Task r)) \<and> modelMeetsHardRequirements L model r) models"

definition hasProviderModelInventory :: "goLib \<Rightarrow> modelCapability list \<Rightarrow> string \<Rightarrow> bool" where
  "hasProviderModelInventory L models provider \<longleftrightarrow> trimSpace provider \<noteq> []
     \<and> list_ex (\<lambda>model. trimSpace (model_Provider model) \<noteq> [] \<and> equalFold L (model_Provider model) provider) models"

text \<open>A model name matches exactly up to case, an adapter label also up to white space.\<close>

definition modelNamed :: "goLib \<Rightarrow> string \<Rightarrow> string \<Rightarrow> modelCapability \<Rightarrow> bool" where
  "modelNamed L provider name model =
     (if equalFold L provider ''adapter'' then adapterModelEqual L (model_Name model) name else equalFold L (model_Name model) name)"

fun selectedModelSupports :: "goLib \<Rightarrow> modelCapability list \<Rightarrow> requirements \<Rightarrow> bool" where
  "selectedModelSupports L [] r = False"
| "selectedModelSupports L (model # models) r =
     (if \<not> modelMatchesProvider L model (req_Provider r) \<or> \<not> modelNamed L (req_Provider r) (req_Model r) model
      then selectedModelSupports L models r
      else if equalFold L (req_Provider r) ''ollama'' \<and> \<not> model_CapabilitiesVerified model
              \<and> equalFold L (trimSpace (model_CapabilitySource model)) ''name_inference''
      then model_Available model \<and> \<not> req_Vision r \<and> \<not> req_Embedding r \<and> req_InputImageCount r = 0
      else if (req_Task r = [] \<or> containsFold L (model_Tasks model) (req_Task r)) \<and> modelMeetsHardRequirements L model r then True
      else selectedModelSupports L models r)"

definition modelFeature :: "goLib \<Rightarrow> modelCapability list \<Rightarrow> string \<Rightarrow> string \<Rightarrow> bool \<Rightarrow> bool \<Rightarrow> bool" where
  "modelFeature L models name provider vision embedding \<longleftrightarrow> list_ex (\<lambda>model.
     modelMatchesProvider L model provider \<and> (name = [] \<or> modelNamed L provider name model)
     \<and> modelMeetsHardRequirements L model (zeroRequirements\<lparr>req_Vision := vision, req_Embedding := embedding\<rparr>)) models"

definition modelRejectedByKnownInputLimits :: "goLib \<Rightarrow> modelCapability list \<Rightarrow> requirements \<Rightarrow> bool" where
  "modelRejectedByKnownInputLimits L models r \<longleftrightarrow> req_InputImageCount r \<noteq> 0 \<and> list_ex (\<lambda>model.
     \<not> (\<not> modelMatchesProvider L model (req_Provider r) \<or> \<not> model_Available model \<or> \<not> model_Vision model
        \<or> \<not> model_CapabilitiesVerified model)
     \<and> \<not> (req_Model r \<noteq> [] \<and> \<not> equalFold L (req_Model r) ''auto'' \<and> \<not> modelNamed L (req_Provider r) (req_Model r) model)
     \<and> \<not> (req_Task r \<noteq> [] \<and> \<not> containsFold L (model_Tasks model) (req_Task r))
     \<and> (model_MaxInputImages model > 0 \<and> req_InputImageCount r > model_MaxInputImages model
        \<or> model_MaxTotalImageBytes model > 0 \<and> req_InputImageBytes r > model_MaxTotalImageBytes model
        \<or> model_MaxImageBytes model > 0 \<and> req_InputImageMaxBytes r > model_MaxImageBytes model
        \<or> model_ImageMediaTypes model \<noteq> []
          \<and> list_ex (\<lambda>t. \<not> containsFold L (model_ImageMediaTypes model) t) (req_InputImageMediaTypes r))) models"

section \<open>Memory and load\<close>

definition boundedFreeMemory :: "u64 \<Rightarrow> u64 \<Rightarrow> u64" where
  "boundedFreeMemory free count = (if count > 0 \<and> free > count then count else free)"

definition boundedMemoryPressure :: "u64 \<Rightarrow> u64 \<Rightarrow> real" where
  "boundedMemoryPressure free count = (if count = 0 \<or> free \<ge> count then 0 else 1 - real (unat free) / real (unat count))"

definition boundedUtilization :: "int \<Rightarrow> real" where
  "boundedUtilization value = (if value \<le> 0 then 0 else if value \<ge> 100 then 1 else real_of_int value / 100)"

definition boundedRatio :: "int \<Rightarrow> int \<Rightarrow> real" where
  "boundedRatio numerator denominator =
     (if numerator \<le> 0 \<or> denominator \<le> 0 then 0
      else if numerator \<ge> denominator then 1 else real_of_int numerator / real_of_int denominator)"

definition hasVRAM :: "node \<Rightarrow> u64 \<Rightarrow> bool" where
  "hasVRAM node required \<longleftrightarrow>
     list_ex (\<lambda>gpu. boundedFreeMemory (gpu_MemoryFree gpu) (gpu_MemoryTotal gpu) \<ge> required) (cap_GPUs (node_Capabilities node))"

text \<open>The largest free share, and the smallest utilization and memory pressure, over the GPUs that fit.\<close>

definition bestVRAMHeadroom :: "node \<Rightarrow> u64 \<Rightarrow> real" where
  "bestVRAMHeadroom node required = foldl (\<lambda>best gpu.
     let free = boundedFreeMemory (gpu_MemoryFree gpu) (gpu_MemoryTotal gpu) in
     if gpu_MemoryTotal gpu = 0 \<or> free < required then best
     else let headroom = real (unat (free - required)) / real (unat (gpu_MemoryTotal gpu)) in
          if headroom > best then headroom else best) 0 (cap_GPUs (node_Capabilities node))"

definition leastOf :: "('a \<Rightarrow> real option) \<Rightarrow> 'a list \<Rightarrow> real" where
  "leastOf value xs =
     (case foldl (\<lambda>best x. case value x of
                    None \<Rightarrow> best
                  | Some v \<Rightarrow> (case best of None \<Rightarrow> Some v | Some b \<Rightarrow> if v < b then Some v else Some b)) None xs of
        None \<Rightarrow> 0 | Some b \<Rightarrow> b)"

definition bestGPUUtilization :: "node \<Rightarrow> u64 \<Rightarrow> real" where
  "bestGPUUtilization node required = leastOf (\<lambda>gpu.
     if boundedFreeMemory (gpu_MemoryFree gpu) (gpu_MemoryTotal gpu) < required then None
     else Some (boundedUtilization (gpu_Utilization gpu))) (cap_GPUs (node_Capabilities node))"

definition bestGPUMemoryPressure :: "node \<Rightarrow> u64 \<Rightarrow> real" where
  "bestGPUMemoryPressure node required = leastOf (\<lambda>gpu.
     let free = boundedFreeMemory (gpu_MemoryFree gpu) (gpu_MemoryTotal gpu) in
     if gpu_MemoryTotal gpu = 0 \<or> free < required then None
     else Some (1 - real (unat free) / real (unat (gpu_MemoryTotal gpu)))) (cap_GPUs (node_Capabilities node))"

definition nodeCapacity :: "node \<Rightarrow> int" where
  "nodeCapacity node = (if cap_MaxConcurrent (node_Capabilities node) \<le> 0 then 1 else cap_MaxConcurrent (node_Capabilities node))"

fun warmthLoop :: "(modelCapability \<Rightarrow> bool) \<Rightarrow> modelCapability list \<Rightarrow> bool \<Rightarrow> string" where
  "warmthLoop suits [] found = (if found then ''cold'' else ''unknown'')"
| "warmthLoop suits (model # models) found =
     (if \<not> suits model then warmthLoop suits models found
      else if model_Loaded model then ''warm'' else warmthLoop suits models True)"

definition routingModelWarmth :: "goLib \<Rightarrow> modelCapability list \<Rightarrow> requirements \<Rightarrow> string" where
  "routingModelWarmth L models r =
     (let wanted = trimSpace (req_Model r);
          automatic = (wanted = [] \<or> equalFold L wanted ''auto'')
      in warmthLoop (\<lambda>model. modelMatchesProvider L model (req_Provider r)
           \<and> (if \<not> automatic then modelNamed L (req_Provider r) wanted model
              else \<not> (req_Task r \<noteq> [] \<and> \<not> containsFold L (model_Tasks model) (req_Task r) \<or> \<not> modelMeetsHardRequirements L model r)))
           models False)"

definition routingPressure :: "node \<Rightarrow> u64 \<Rightarrow> real" where
  "routingPressure node placementVRAM =
     (let c = node_Capabilities node; capacity = nodeCapacity node;
          pressure = boundedRatio (cap_Running c) capacity;
          pressure = max pressure (boundedRatio (cap_QueueDepth c) capacity);
          pressure = max pressure (boundedMemoryPressure (cap_MemoryFree c) (cap_MemoryTotal c));
          pressure = max pressure (boundedUtilization (cap_CPUUtilization c));
          pressure = (if cap_GPUs c \<noteq> []
                      then max (max pressure (bestGPUUtilization node placementVRAM)) (bestGPUMemoryPressure node placementVRAM)
                      else pressure)
      in if cap_AdapterEndpoints c > 0 then max pressure (boundedRatio (cap_AdapterBusy c) (cap_AdapterEndpoints c)) else pressure)"

definition routingPerformanceContext :: "goLib \<Rightarrow> node \<Rightarrow> requirements \<Rightarrow> u64 \<Rightarrow> string" where
  "routingPerformanceContext L node r placementVRAM =
     (let pressure = routingPressure node placementVRAM;
          loadClass = (if pressure < 0.20 then ''idle'' else if pressure < 0.45 then ''light''
                       else if pressure < 0.70 then ''moderate'' else ''high'')
      in loadClass @ '':'' @ routingModelWarmth L (cap_Models (node_Capabilities node)) r)"

section \<open>Adapter sessions\<close>

definition wantedAdapterModel :: "goLib \<Rightarrow> requirements \<Rightarrow> string" where
  "wantedAdapterModel L r = (if equalFold L (trimSpace (req_Model r)) ''auto'' then [] else trimSpace (req_Model r))"

definition adapterSessionSelectionMatches :: "goLib \<Rightarrow> adapterSessionCapability \<Rightarrow> requirements \<Rightarrow> string \<Rightarrow> string \<Rightarrow> bool" where
  "adapterSessionSelectionMatches L session r wantedModel wantedReasoning \<longleftrightarrow>
     \<not> (req_AdapterPrincipal r \<noteq> [] \<and> ses_Principal session \<noteq> req_AdapterPrincipal r)
     \<and> \<not> (req_AdapterProfile r \<noteq> [] \<and> \<not> equalFold L (trimSpace (ses_Profile session)) (trimSpace (req_AdapterProfile r)))
     \<and> \<not> (wantedModel \<noteq> [] \<and> \<not> adapterModelEqual L (ses_CurrentModel session) wantedModel
          \<and> \<not> containsAdapterModel L (ses_ModelChoices session) wantedModel)
     \<and> \<not> (wantedReasoning \<noteq> [] \<and> \<not> adapterReasoningEqual L (ses_CurrentReasoning session) wantedReasoning
          \<and> \<not> containsAdapterReasoning L (ses_ReasoningLevels session) wantedReasoning)"

text \<open>The sessions that count as evidence for the requested logical session.\<close>

definition sessionEvidence :: "goLib \<Rightarrow> requirements \<Rightarrow> adapterSessionCapability \<Rightarrow> bool" where
  "sessionEvidence L r session \<longleftrightarrow>
     \<not> (ses_EndpointID session \<le> 0
        \<or> req_AdapterProfile r \<noteq> [] \<and> \<not> equalFold L (trimSpace (ses_Profile session)) (trimSpace (req_AdapterProfile r)))
     \<and> \<not> (req_AdapterPrincipal r \<noteq> [] \<and> ses_Principal session \<noteq> req_AdapterPrincipal r)"

definition sessionKeySupported :: "goLib \<Rightarrow> adapterSessionCapability list \<Rightarrow> requirements \<Rightarrow> bool" where
  "sessionKeySupported L sessions r \<longleftrightarrow> list_ex (\<lambda>s. sessionEvidence L r s \<and> ses_SessionKeySupported s) sessions"

definition sessionKeyMatches :: "goLib \<Rightarrow> adapterSessionCapability list \<Rightarrow> requirements \<Rightarrow> nat" where
  "sessionKeyMatches L sessions r =
     (let wanted = cleanAdapterSessionKey (req_AdapterSessionKey r) in
      length (filter (\<lambda>s. sessionEvidence L r s \<and> wanted \<noteq> [] \<and> ses_SessionKey s = wanted) sessions))"

definition authoritativeSessionMatch :: "goLib \<Rightarrow> adapterSessionCapability list \<Rightarrow> requirements \<Rightarrow> bool" where
  "authoritativeSessionMatch L sessions r \<longleftrightarrow> cleanAdapterSessionKey (req_AdapterSessionKey r) \<noteq> []
     \<and> sessionKeySupported L sessions r \<and> sessionKeyMatches L sessions r = 1"

text \<open>A recovering session must not be resumed on an endpoint that belongs to another logical session.\<close>

definition foreignRecovery :: "goLib \<Rightarrow> adapterSessionCapability list \<Rightarrow> requirements \<Rightarrow> adapterSessionCapability \<Rightarrow> bool" where
  "foreignRecovery L sessions r session \<longleftrightarrow>
     sessionKeySupported L sessions r \<and> cleanAdapterSessionKey (req_AdapterSessionKey r) \<noteq> [] \<and> req_AdapterSessionRecovery r
     \<and> ses_SessionKey session \<noteq> cleanAdapterSessionKey (req_AdapterSessionKey r)"

definition requiredEndpointMatchesSelection :: "goLib \<Rightarrow> adapterSessionCapability list \<Rightarrow> requirements \<Rightarrow> bool" where
  "requiredEndpointMatchesSelection L sessions r \<longleftrightarrow> req_AdapterEndpointID r > 0 \<and> list_ex (\<lambda>s.
     ses_EndpointID s = req_AdapterEndpointID r
     \<and> adapterSessionSelectionMatches L s r (wantedAdapterModel L r) (trimSpace (req_Reasoning r))
     \<and> (\<not> authoritativeSessionMatch L sessions r \<or> ses_SessionKey s = cleanAdapterSessionKey (req_AdapterSessionKey r))
     \<and> \<not> foreignRecovery L sessions r s) sessions"

definition sessionKeyMatch where
  "sessionKeyMatch L sessions r s \<longleftrightarrow>
     authoritativeSessionMatch L sessions r \<and> ses_SessionKey s = cleanAdapterSessionKey (req_AdapterSessionKey r)"

definition exactEndpoint where
  "exactEndpoint L sessions r s \<longleftrightarrow> req_AdapterEndpointID r > 0 \<and> ses_EndpointID s = req_AdapterEndpointID r
     \<and> \<not> foreignRecovery L sessions r s"

definition allowRecoveryEndpoint where
  "allowRecoveryEndpoint L sessions r \<longleftrightarrow> req_AdapterSessionRecovery r
     \<and> (req_AdapterEndpointID r = 0 \<or> \<not> requiredEndpointMatchesSelection L sessions r)"

definition freshLauncher where
  "freshLauncher L sessions r s \<longleftrightarrow> \<not> sessionKeyMatch L sessions r s \<and> req_AdapterEndpointID r = 0 \<and> ses_CanCreateSession s
     \<and> (req_AdapterFreshSession r \<or> ses_DefaultNewSession s)"

text \<open>The state in which an endpoint is usable, by the reason for which it is considered.\<close>

definition sessionStateReady where
  "sessionStateReady L sessions r s =
     (let state = trimSpace (ses_State s); waiting = equalFold L state ''waiting''; bound = equalFold L state ''session_bound'' in
      if sessionKeyMatch L sessions r s then waiting \<or> bound
      else if exactEndpoint L sessions r s then waiting \<or> bound
      else if allowRecoveryEndpoint L sessions r then waiting \<or> freshLauncher L sessions r s \<and> bound
      else if waiting then \<not> ((req_AdapterFreshSession r \<or> ses_DefaultNewSession s) \<and> \<not> freshLauncher L sessions r s)
      else freshLauncher L sessions r s \<and> bound)"

definition sessionUsable where
  "sessionUsable L sessions r s \<longleftrightarrow>
     \<not> (authoritativeSessionMatch L sessions r \<and> \<not> sessionKeyMatch L sessions r s)
     \<and> adapterSessionSelectionMatches L s r (wantedAdapterModel L r) (trimSpace (req_Reasoning r))
     \<and> \<not> (req_AdapterEndpointID r > 0 \<and> \<not> exactEndpoint L sessions r s \<and> \<not> allowRecoveryEndpoint L sessions r
          \<and> \<not> sessionKeyMatch L sessions r s)
     \<and> sessionStateReady L sessions r s"

definition sessionScore :: "goLib \<Rightarrow> adapterSessionCapability list \<Rightarrow> requirements \<Rightarrow> adapterSessionCapability \<Rightarrow> int" where
  "sessionScore L sessions r s =
     (let wantedModel = wantedAdapterModel L r; wantedReasoning = trimSpace (req_Reasoning r) in
      (if sessionKeyMatch L sessions r s then 1000 else 0) + (if exactEndpoint L sessions r s then 100 else 0)
      + (if equalFold L (trimSpace (ses_State s)) ''waiting'' then 10 else 0)
      + (if wantedModel \<noteq> [] \<and> adapterModelEqual L (ses_CurrentModel s) wantedModel then 2 else 0)
      + (if wantedReasoning \<noteq> [] \<and> adapterReasoningEqual L (ses_CurrentReasoning s) wantedReasoning then 1 else 0))"

definition betterSession where
  "betterSession L sessions r best s =
     (if \<not> sessionUsable L sessions r s then best
      else let score = sessionScore L sessions r s in
           case best of (selected, selectedScore) \<Rightarrow>
             (if selectedScore < score \<or> selectedScore = score
                   \<and> (ses_EndpointID selected = 0 \<or> ses_EndpointID s < ses_EndpointID selected)
              then (s, score) else best))"

definition zeroSession :: adapterSessionCapability where
  "zeroSession = \<lparr>ses_EndpointID = 0, ses_Profile = [], ses_Principal = [], ses_State = [], ses_SessionKey = [],
     ses_SessionKeySupported = False, ses_CanCreateSession = False, ses_DefaultNewSession = False, ses_CurrentModel = [],
     ses_CurrentReasoning = [], ses_ModelChoices = [], ses_ReasoningLevels = []\<rparr>"

definition selectReadyAdapterSession ::
  "goLib \<Rightarrow> adapterSessionCapability list \<Rightarrow> requirements \<Rightarrow> adapterSessionCapability option" where
  "selectReadyAdapterSession L sessions r =
     (if sessionKeyMatches L sessions r > 1 then None
      else case foldl (betterSession L sessions r) (zeroSession, -1) sessions of
        (selected, score) \<Rightarrow> if score \<ge> 0 then Some selected else None)"

section \<open>Matching and explaining\<close>

definition providerTaskSupported :: "goLib \<Rightarrow> (string \<times> string list) list option \<Rightarrow> string \<Rightarrow> string \<Rightarrow> bool" where
  "providerTaskSupported L tasks provider task =
     (case tasks of
        None \<Rightarrow> False
      | Some entries \<Rightarrow> (case find (\<lambda>(name, _). equalFold L (trimSpace name) (trimSpace provider)) entries of
                          None \<Rightarrow> False | Some (_, advertised) \<Rightarrow> containsFold L advertised task))"

definition explicitModel :: "goLib \<Rightarrow> requirements \<Rightarrow> bool" where
  "explicitModel L r \<longleftrightarrow> trimSpace (req_Model r) \<noteq> [] \<and> \<not> equalFold L (trimSpace (req_Model r)) ''auto''"

definition needsAdapterSession :: "goLib \<Rightarrow> capabilities \<Rightarrow> requirements \<Rightarrow> bool" where
  "needsAdapterSession L c r \<longleftrightarrow> equalFold L (req_Provider r) ''adapter'' \<and> cap_AdapterSessions c \<noteq> []
     \<and> (req_AdapterProfile r \<noteq> [] \<or> explicitModel L r \<or> trimSpace (req_Reasoning r) \<noteq> [] \<or> req_AdapterEndpointID r > 0)"

definition adapterSlotsBusy :: "goLib \<Rightarrow> capabilities \<Rightarrow> requirements \<Rightarrow> bool" where
  "adapterSlotsBusy L c r \<longleftrightarrow> equalFold L (req_Provider r) ''adapter''
     \<and> (cap_AdapterEndpoints c > 0 \<and> cap_AdapterBusy c \<ge> cap_AdapterEndpoints c \<or> cap_AutomaticTasks c \<noteq> None \<and> cap_AdapterEndpoints c \<le> 0)"

definition automaticTasksAreAuthoritative :: "goLib \<Rightarrow> capabilities \<Rightarrow> requirements \<Rightarrow> bool" where
  "automaticTasksAreAuthoritative L c r \<longleftrightarrow> trimSpace (req_Provider r) \<noteq> [] \<and> (cap_AutomaticTasks c \<noteq> None \<or> isAutomaticOllamaRequest L r)"

definition matchesTask :: "goLib \<Rightarrow> capabilities \<Rightarrow> requirements \<Rightarrow> bool" where
  "matchesTask L c r =
     (let authoritative = automaticTasksAreAuthoritative L c r;
          modelsAreAuthoritative = hasProviderModelInventory L (cap_Models c) (req_Provider r)
      in if authoritative \<and> \<not> providerTaskSupported L (cap_AutomaticTasks c) (req_Provider r) (req_Task r) then False
         else if isAutomaticOllamaRequest L r \<and> \<not> modelSupports L (cap_Models c) r then False
         else if modelsAreAuthoritative \<and> \<not> modelSupports L (cap_Models c) r then False
         else if \<not> modelsAreAuthoritative \<and> (req_Vision r \<or> req_Embedding r) \<and> \<not> modelSupports L (cap_Models c) r then False
         else \<not> (\<not> authoritative \<and> \<not> modelsAreAuthoritative \<and> \<not> req_Vision r \<and> \<not> req_Embedding r
                 \<and> \<not> containsFold L (cap_Tasks c) (req_Task r) \<and> \<not> modelSupports L (cap_Models c) r))"

definition matchesSession :: "goLib \<Rightarrow> capabilities \<Rightarrow> requirements \<Rightarrow> bool" where
  "matchesSession L c r =
     (if needsAdapterSession L c r then selectReadyAdapterSession L (cap_AdapterSessions c) r \<noteq> None
      else \<not> (req_AdapterProfile r \<noteq> [] \<or> req_AdapterEndpointID r > 0))"

definition matchesModel :: "goLib \<Rightarrow> capabilities \<Rightarrow> requirements \<Rightarrow> bool" where
  "matchesModel L c r =
     (if explicitModel L r then selectedModelSupports L (cap_Models c) r
      else if req_Task r \<noteq> [] then matchesTask L c r
      else if req_Vision r \<or> req_Embedding r
      then (if isAutomaticOllamaRequest L r then modelSupports L (cap_Models c) r
            else modelFeature L (cap_Models c) (req_Model r) (req_Provider r) (req_Vision r) (req_Embedding r))
      else True)"

definition matchesNode :: "goLib \<Rightarrow> node \<Rightarrow> requirements \<Rightarrow> bool" where
  "matchesNode L node r =
     (let c = node_Capabilities node in
      if req_RouteBinding r \<noteq> [] \<and> req_RouteBinding r \<notin> set (cap_RouteBindings c) then False
      else if req_Group r \<noteq> [] \<and> \<not> containsFold L (cap_Groups c) (req_Group r) then False
      else if list_ex (\<lambda>tag. \<not> containsFold L (cap_Tags c) tag) (req_RequiredTags r) then False
      else if req_Provider r \<noteq> [] \<and> \<not> containsFold L (cap_Providers c) (req_Provider r) then False
      else if req_AdapterProfile r \<noteq> [] \<and> \<not> equalFold L (req_Provider r) ''adapter'' then False
      else if \<not> matchesSession L c r then False
      else if adapterSlotsBusy L c r then False
      else if \<not> matchesModel L c r then False
      else \<not> (req_MinFreeVRAM r > 0
              \<and> \<not> list_ex (\<lambda>gpu. boundedFreeMemory (gpu_MemoryFree gpu) (gpu_MemoryTotal gpu) \<ge> req_MinFreeVRAM r) (cap_GPUs c)))"

definition appendUniqueReason :: "string list \<Rightarrow> string \<Rightarrow> string list" where
  "appendUniqueReason reasons reason = (if reason \<in> set reasons then reasons else reasons @ [reason])"

definition addWhen :: "bool \<Rightarrow> string \<Rightarrow> string list \<Rightarrow> string list" where
  "addWhen b reason reasons = (if b then reasons @ [reason] else reasons)"

definition addUniqueWhen :: "bool \<Rightarrow> string \<Rightarrow> string list \<Rightarrow> string list" where
  "addUniqueWhen b reason reasons = (if b then appendUniqueReason reasons reason else reasons)"

definition modelReason :: "goLib \<Rightarrow> capabilities \<Rightarrow> requirements \<Rightarrow> string" where
  "modelReason L c r =
     (if modelRejectedByKnownInputLimits L (cap_Models c) r then ''model_input_limit_exceeded'' else ''model_not_available'')"

definition taskReasons :: "goLib \<Rightarrow> capabilities \<Rightarrow> requirements \<Rightarrow> string list \<Rightarrow> string list" where
  "taskReasons L c r reasons =
     (let authoritative = automaticTasksAreAuthoritative L c r;
          modelsAreAuthoritative = hasProviderModelInventory L (cap_Models c) (req_Provider r);
          supported = modelSupports L (cap_Models c) r;
          reasons = addWhen (authoritative \<and> \<not> providerTaskSupported L (cap_AutomaticTasks c) (req_Provider r) (req_Task r))
                      ''task_not_verified'' reasons;
          reasons = addUniqueWhen (isAutomaticOllamaRequest L r \<and> \<not> supported) (modelReason L c r) reasons;
          reasons = addUniqueWhen (modelsAreAuthoritative \<and> \<not> supported) ''task_not_verified'' reasons;
          reasons = addWhen (\<not> modelsAreAuthoritative \<and> (req_Vision r \<or> req_Embedding r) \<and> \<not> supported) ''capability_not_available'' reasons
      in addUniqueWhen (\<not> authoritative \<and> \<not> modelsAreAuthoritative \<and> \<not> req_Vision r \<and> \<not> req_Embedding r
           \<and> \<not> containsFold L (cap_Tasks c) (req_Task r) \<and> \<not> supported) ''task_not_verified'' reasons)"

definition sessionReasons :: "goLib \<Rightarrow> capabilities \<Rightarrow> requirements \<Rightarrow> string list \<Rightarrow> string list" where
  "sessionReasons L c r reasons =
     (if needsAdapterSession L c r
      then addWhen (selectReadyAdapterSession L (cap_AdapterSessions c) r = None) ''adapter_session_not_ready'' reasons
      else addWhen (req_AdapterProfile r \<noteq> [] \<or> req_AdapterEndpointID r > 0) ''adapter_session_evidence_unavailable'' reasons)"

definition modelReasons :: "goLib \<Rightarrow> capabilities \<Rightarrow> requirements \<Rightarrow> string list \<Rightarrow> string list" where
  "modelReasons L c r reasons =
     (if explicitModel L r then addWhen (\<not> selectedModelSupports L (cap_Models c) r) (modelReason L c r) reasons
      else if req_Task r \<noteq> [] then taskReasons L c r reasons
      else if req_Vision r \<or> req_Embedding r
      then (if isAutomaticOllamaRequest L r
            then addWhen (\<not> modelSupports L (cap_Models c) r) ''capability_not_available'' reasons
            else addWhen (\<not> modelFeature L (cap_Models c) (req_Model r) (req_Provider r) (req_Vision r) (req_Embedding r))
                   ''capability_not_available'' reasons)
      else reasons)"

definition routingConstraintReasons :: "goLib \<Rightarrow> node \<Rightarrow> requirements \<Rightarrow> string list" where
  "routingConstraintReasons L node r =
     (let c = node_Capabilities node;
          reasons = addWhen (req_RouteBinding r \<noteq> [] \<and> req_RouteBinding r \<notin> set (cap_RouteBindings c)) ''route_binding_unavailable'' [];
          reasons = addWhen (req_Group r \<noteq> [] \<and> \<not> containsFold L (cap_Groups c) (req_Group r)) ''group_scope_unavailable'' reasons;
          reasons = foldl (\<lambda>reasons tag. addUniqueWhen (\<not> containsFold L (cap_Tags c) tag) ''required_tag_unavailable'' reasons)
                      reasons (req_RequiredTags r);
          reasons = addWhen (req_Provider r \<noteq> [] \<and> \<not> containsFold L (cap_Providers c) (req_Provider r)) ''provider_not_available'' reasons;
          reasons = addWhen (req_AdapterProfile r \<noteq> [] \<and> \<not> equalFold L (req_Provider r) ''adapter'')
                      ''adapter_profile_requires_adapter'' reasons;
          reasons = sessionReasons L c r reasons;
          reasons = addWhen (adapterSlotsBusy L c r) ''adapter_slots_busy'' reasons;
          reasons = modelReasons L c r reasons
      in addWhen (req_MinFreeVRAM r > 0 \<and> \<not> hasVRAM node (req_MinFreeVRAM r)) ''insufficient_vram'' reasons)"

section \<open>The explanation agrees with the decision\<close>

lemma addWhen_empty [simp]: "addWhen b reason reasons = [] \<longleftrightarrow> reasons = [] \<and> \<not> b"
  by (simp add: addWhen_def)

lemma addUniqueWhen_empty [simp]: "addUniqueWhen b reason reasons = [] \<longleftrightarrow> reasons = [] \<and> \<not> b"
  by (auto simp: addUniqueWhen_def appendUniqueReason_def)

lemma fold_tags_empty:
  "foldl (\<lambda>reasons tag. addUniqueWhen (p tag) reason reasons) reasons tags = [] \<longleftrightarrow> reasons = [] \<and> \<not> list_ex p tags"
  by (induction tags arbitrary: reasons) auto

lemma taskReasons_empty: "taskReasons L c r reasons = [] \<longleftrightarrow> reasons = [] \<and> matchesTask L c r"
  by (auto simp: taskReasons_def matchesTask_def Let_def)

lemma sessionReasons_empty: "sessionReasons L c r reasons = [] \<longleftrightarrow> reasons = [] \<and> matchesSession L c r"
  by (auto simp: sessionReasons_def matchesSession_def)

lemma modelReasons_empty: "modelReasons L c r reasons = [] \<longleftrightarrow> reasons = [] \<and> matchesModel L c r"
  by (auto simp: modelReasons_def matchesModel_def taskReasons_empty)

text \<open>the explanation never contradicts the decision: a node satisfies the requirements of a job exactly
  when the list of its constraint violations is empty, so that every rejected node is rejected for a
  stated reason and no eligible node carries one.\<close>

theorem match_explained:
  "matchesNode L node r \<longleftrightarrow> routingConstraintReasons L node r = []"
  unfolding matchesNode_def routingConstraintReasons_def Let_def hasVRAM_def
  by (simp add: fold_tags_empty sessionReasons_empty modelReasons_empty)

section \<open>The choice of an adapter session\<close>

lemma better_fold:
  assumes "foldl (betterSession L S r) (sel0, sc0) xs = (sel, sc)"
  shows "sc0 \<le> sc \<and> ((sel, sc) = (sel0, sc0) \<or> sel \<in> set xs \<and> sessionUsable L S r sel \<and> sc = sessionScore L S r sel)
    \<and> (\<forall>x \<in> set xs. sessionUsable L S r x \<longrightarrow> sessionScore L S r x \<le> sc)"
  using assms
proof (induction xs arbitrary: sel0 sc0)
  case (Cons x xs)
  obtain sel1 sc1 where step: "betterSession L S r (sel0, sc0) x = (sel1, sc1)" by force
  then have rest: "foldl (betterSession L S r) (sel1, sc1) xs = (sel, sc)" using Cons.prems by simp
  have one: "sc0 \<le> sc1 \<and> ((sel1, sc1) = (sel0, sc0) \<or> sel1 = x \<and> sessionUsable L S r x \<and> sc1 = sessionScore L S r x)
      \<and> (sessionUsable L S r x \<longrightarrow> sessionScore L S r x \<le> sc1)"
    using step by (auto simp: betterSession_def Let_def split: if_splits)
  from Cons.IH [OF rest] one show ?case by auto
qed simp

lemma sessionScore_nonneg: "0 \<le> sessionScore L S r s"
  by (simp add: sessionScore_def Let_def)

lemma select_spec:
  "selectReadyAdapterSession L sessions r = Some s \<Longrightarrow> s \<in> set sessions \<and> sessionUsable L sessions r s
     \<and> sessionKeyMatches L sessions r \<le> 1 \<and> (\<forall>t \<in> set sessions. sessionUsable L sessions r t \<longrightarrow> sessionScore L sessions r t \<le> sessionScore L sessions r s)"
  "selectReadyAdapterSession L sessions r = None \<longleftrightarrow> sessionKeyMatches L sessions r > 1 \<or> \<not> list_ex (sessionUsable L sessions r) sessions"
proof -
  obtain sel sc where fold: "foldl (betterSession L sessions r) (zeroSession, -1) sessions = (sel, sc)" by force
  note b = better_fold [OF fold]
  show "selectReadyAdapterSession L sessions r = Some s \<Longrightarrow> s \<in> set sessions \<and> sessionUsable L sessions r s
     \<and> sessionKeyMatches L sessions r \<le> 1 \<and> (\<forall>t \<in> set sessions. sessionUsable L sessions r t \<longrightarrow> sessionScore L sessions r t \<le> sessionScore L sessions r s)"
    using b fold by (auto simp: selectReadyAdapterSession_def split: if_splits)
  have "sc \<ge> 0 \<longleftrightarrow> list_ex (sessionUsable L sessions r) sessions"
  proof
    show "sc \<ge> 0 \<Longrightarrow> list_ex (sessionUsable L sessions r) sessions" using b by (auto simp: list_ex_iff)
    assume "list_ex (sessionUsable L sessions r) sessions"
    then obtain x where "x \<in> set sessions" "sessionUsable L sessions r x" by (auto simp: list_ex_iff)
    then have "sessionScore L sessions r x \<le> sc" using b by blast
    then show "sc \<ge> 0" using sessionScore_nonneg [of L sessions r x] by linarith
  qed
  then show "selectReadyAdapterSession L sessions r = None \<longleftrightarrow>
      sessionKeyMatches L sessions r > 1 \<or> \<not> list_ex (sessionUsable L sessions r) sessions"
    by (auto simp: selectReadyAdapterSession_def fold)
qed

lemma usable_session_fits:
  assumes "sessionUsable L sessions r s"
  shows "(req_AdapterPrincipal r \<noteq> [] \<longrightarrow> ses_Principal s = req_AdapterPrincipal r)
      \<and> (req_AdapterProfile r \<noteq> [] \<longrightarrow> equalFold L (trimSpace (ses_Profile s)) (trimSpace (req_AdapterProfile r)))
      \<and> (wantedAdapterModel L r \<noteq> [] \<longrightarrow> adapterModelEqual L (ses_CurrentModel s) (wantedAdapterModel L r)
           \<or> containsAdapterModel L (ses_ModelChoices s) (wantedAdapterModel L r))
      \<and> (trimSpace (req_Reasoning r) \<noteq> [] \<longrightarrow> adapterReasoningEqual L (ses_CurrentReasoning s) (trimSpace (req_Reasoning r))
           \<or> containsAdapterReasoning L (ses_ReasoningLevels s) (trimSpace (req_Reasoning r)))"
    and "equalFold L (trimSpace (ses_State s)) ''waiting'' \<or> equalFold L (trimSpace (ses_State s)) ''session_bound''"
    and "authoritativeSessionMatch L sessions r \<longrightarrow> ses_SessionKey s = cleanAdapterSessionKey (req_AdapterSessionKey r)"
    and "0 < req_AdapterEndpointID r \<and> ses_EndpointID s \<noteq> req_AdapterEndpointID r \<longrightarrow>
           authoritativeSessionMatch L sessions r \<or> req_AdapterSessionRecovery r"
proof -
  have ready: "sessionStateReady L sessions r s" and fits: "adapterSessionSelectionMatches L s r (wantedAdapterModel L r) (trimSpace (req_Reasoning r))"
    and key: "authoritativeSessionMatch L sessions r \<Longrightarrow> sessionKeyMatch L sessions r s"
    and ends: "req_AdapterEndpointID r > 0 \<Longrightarrow> exactEndpoint L sessions r s \<or> allowRecoveryEndpoint L sessions r \<or> sessionKeyMatch L sessions r s"
    using assms by (auto simp: sessionUsable_def)
  show "equalFold L (trimSpace (ses_State s)) ''waiting'' \<or> equalFold L (trimSpace (ses_State s)) ''session_bound''"
    using ready by (auto simp: sessionStateReady_def Let_def split: if_splits)
  show "authoritativeSessionMatch L sessions r \<longrightarrow> ses_SessionKey s = cleanAdapterSessionKey (req_AdapterSessionKey r)"
    using key by (auto simp: sessionKeyMatch_def)
  show "0 < req_AdapterEndpointID r \<and> ses_EndpointID s \<noteq> req_AdapterEndpointID r \<longrightarrow>
           authoritativeSessionMatch L sessions r \<or> req_AdapterSessionRecovery r"
    using ends by (auto simp: exactEndpoint_def allowRecoveryEndpoint_def sessionKeyMatch_def)
qed (use assms in \<open>auto simp: sessionUsable_def adapterSessionSelectionMatches_def\<close>)

text \<open>the adapter session that is chosen fits the request. It is one of the reported sessions, has the
  requested principal and profile and offers the requested model and reasoning level, is waiting or bound
  to a session, and scores at least as well as every other usable one. When the logical session is known
  on exactly one endpoint the choice carries its key; another endpoint than the requested one is taken
  only for that key or in a recovery. There is no choice exactly when two endpoints claim the logical
  session or none is usable.\<close>

theorem adapter_session_choice:
  "(selectReadyAdapterSession L sessions r = None \<longleftrightarrow>
      sessionKeyMatches L sessions r > 1 \<or> \<not> list_ex (sessionUsable L sessions r) sessions)
   \<and> (selectReadyAdapterSession L sessions r = Some s \<longrightarrow>
      s \<in> set sessions
      \<and> (\<forall>t \<in> set sessions. sessionUsable L sessions r t \<longrightarrow> sessionScore L sessions r t \<le> sessionScore L sessions r s)
      \<and> (req_AdapterPrincipal r \<noteq> [] \<longrightarrow> ses_Principal s = req_AdapterPrincipal r)
      \<and> (req_AdapterProfile r \<noteq> [] \<longrightarrow> equalFold L (trimSpace (ses_Profile s)) (trimSpace (req_AdapterProfile r)))
      \<and> (wantedAdapterModel L r \<noteq> [] \<longrightarrow> adapterModelEqual L (ses_CurrentModel s) (wantedAdapterModel L r)
           \<or> containsAdapterModel L (ses_ModelChoices s) (wantedAdapterModel L r))
      \<and> (trimSpace (req_Reasoning r) \<noteq> [] \<longrightarrow> adapterReasoningEqual L (ses_CurrentReasoning s) (trimSpace (req_Reasoning r))
           \<or> containsAdapterReasoning L (ses_ReasoningLevels s) (trimSpace (req_Reasoning r)))
      \<and> (equalFold L (trimSpace (ses_State s)) ''waiting'' \<or> equalFold L (trimSpace (ses_State s)) ''session_bound'')
      \<and> (authoritativeSessionMatch L sessions r \<longrightarrow> ses_SessionKey s = cleanAdapterSessionKey (req_AdapterSessionKey r))
      \<and> (0 < req_AdapterEndpointID r \<and> ses_EndpointID s \<noteq> req_AdapterEndpointID r \<longrightarrow>
           authoritativeSessionMatch L sessions r \<or> req_AdapterSessionRecovery r))"
  using select_spec usable_session_fits [of L sessions r s] by blast

section \<open>Endpoints without a number\<close>

definition sharedKey :: string where "sharedKey = ''cb:'' @ replicate 64 (CHR ''a'')"

definition numberedSession :: adapterSessionCapability where
  "numberedSession = zeroSession\<lparr>ses_EndpointID := 5, ses_State := ''session_bound'', ses_SessionKey := sharedKey, ses_SessionKeySupported := True\<rparr>"

definition unnumberedSession :: adapterSessionCapability where
  "unnumberedSession = zeroSession\<lparr>ses_State := ''waiting'', ses_SessionKey := sharedKey, ses_SessionKeySupported := True\<rparr>"

lemma label_facts:
  "trimSpace [] = [] \<and> cleanAdapterSessionKey sharedKey = sharedKey \<and> sharedKey \<noteq> [] \<and> \<not> equalFold plainLib [] ''auto''
   \<and> equalFold plainLib (trimSpace ''waiting'') ''waiting'' \<and> equalFold plainLib (trimSpace ''session_bound'') ''session_bound''
   \<and> \<not> equalFold plainLib (trimSpace ''session_bound'') ''waiting''"
proof -
  have "cleanAdapterSessionKey sharedKey = sharedKey"
    by (simp add: cleanAdapterSessionKey_def sharedKey_def list_all_iff)
  then show ?thesis by (simp add: trimSpace_word equalFold_ascii asciiLower_def) (simp add: sharedKey_def)
qed

abbreviation sharedRequest :: requirements where
  "sharedRequest \<equiv> zeroRequirements\<lparr>req_AdapterSessionKey := sharedKey\<rparr>"

lemma sharedRequest_fields:
  "req_AdapterSessionKey sharedRequest = sharedKey" "req_AdapterPrincipal sharedRequest = []" "req_AdapterProfile sharedRequest = []"
  "req_Model sharedRequest = []" "req_Reasoning sharedRequest = []" "req_AdapterEndpointID sharedRequest = 0"
  "\<not> req_AdapterSessionRecovery sharedRequest" "\<not> req_AdapterFreshSession sharedRequest"
  by (simp_all add: zeroRequirements_def)

lemma shared_fields:
  "ses_EndpointID numberedSession = 5" "ses_SessionKey numberedSession = sharedKey" "ses_SessionKeySupported numberedSession"
  "ses_State numberedSession = ''session_bound''" "ses_EndpointID unnumberedSession = 0" "ses_SessionKey unnumberedSession = sharedKey"
  "ses_State unnumberedSession = ''waiting''"
  by (simp_all add: numberedSession_def unnumberedSession_def zeroSession_def)

lemma shared_sessions:
  assumes "S = [numberedSession] \<or> S = [numberedSession, unnumberedSession]" and "s = numberedSession \<or> s = unnumberedSession"
  shows "sessionKeyMatches plainLib S sharedRequest = 1" "sessionUsable plainLib S sharedRequest s"
    "sessionScore plainLib S sharedRequest s = (if s = numberedSession then 1000 else 1010)"
proof -
  note f = sharedRequest_fields shared_fields label_facts
  show one: "sessionKeyMatches plainLib S sharedRequest = 1"
    using assms(1) by (auto simp: sessionKeyMatches_def sessionEvidence_def f Let_def)
  have auth: "authoritativeSessionMatch plainLib S sharedRequest"
    using one assms(1) by (auto simp: authoritativeSessionMatch_def sessionKeySupported_def sessionEvidence_def f)
  have match: "sessionKeyMatch plainLib S sharedRequest s" using auth assms(2) by (auto simp: sessionKeyMatch_def f)
  have wanted: "wantedAdapterModel plainLib sharedRequest = []" by (simp add: wantedAdapterModel_def f)
  show "sessionUsable plainLib S sharedRequest s"
    using match auth assms(2) by (auto simp: sessionUsable_def adapterSessionSelectionMatches_def sessionStateReady_def wanted f Let_def)
  have "numberedSession \<noteq> unnumberedSession" using shared_fields(1,5) by auto
  then show "sessionScore plainLib S sharedRequest s = (if s = numberedSession then 1000 else 1010)"
    using match assms(2) by (auto simp: sessionScore_def exactEndpoint_def wanted f Let_def)
qed

text \<open>the guard against two endpoints that claim one logical session does not see endpoints without a
  number. A report in which a numbered endpoint and an unnumbered one both carry the key of the requested
  session is accepted, and the unnumbered endpoint, which no assignment can name, is chosen when it is the
  one that waits.\<close>

theorem unnumbered_endpoint_evades_guard:
  "selectReadyAdapterSession plainLib [numberedSession, unnumberedSession] sharedRequest = Some unnumberedSession
   \<and> ses_SessionKey numberedSession = ses_SessionKey unnumberedSession \<and> ses_EndpointID unnumberedSession = 0"
proof -
  have "numberedSession \<noteq> unnumberedSession" using shared_fields(1,5) by auto
  then have "foldl (betterSession plainLib [numberedSession, unnumberedSession] sharedRequest) (zeroSession, -1)
      [numberedSession, unnumberedSession] = (unnumberedSession, 1010)"
    using shared_sessions [of "[numberedSession, unnumberedSession]"] by (simp add: betterSession_def)
  then show ?thesis
    using shared_sessions(1) [of "[numberedSession, unnumberedSession]" numberedSession] shared_fields by (simp add: selectReadyAdapterSession_def)
qed

theorem adapter_session_choice_witness:
  "selectReadyAdapterSession plainLib [numberedSession] sharedRequest = Some numberedSession
   \<and> ses_SessionKey numberedSession = cleanAdapterSessionKey sharedKey"
proof -
  have sel: "selectReadyAdapterSession plainLib [numberedSession] sharedRequest = Some numberedSession"
    using shared_sessions [of "[numberedSession]" numberedSession] by (simp add: selectReadyAdapterSession_def betterSession_def)
  moreover have "authoritativeSessionMatch plainLib [numberedSession] sharedRequest"
    using shared_sessions(1) [of "[numberedSession]" numberedSession]
    by (simp add: authoritativeSessionMatch_def sessionKeySupported_def sessionEvidence_def sharedRequest_fields shared_fields label_facts)
  ultimately show ?thesis
    using adapter_session_choice [of plainLib "[numberedSession]" sharedRequest numberedSession] by (simp add: sharedRequest_fields)
qed

end
