(* ===== verification/Scheduler.thy ===== *)
theory Scheduler
  imports Capability_Match "HOL-Library.Multiset"
begin

text \<open>
  Ranking the nodes for a job (\<open>internal/cluster/scheduler.go\<close>, \<open>Rank\<close> to
  \<open>appendUniqueReason\<close>). Every node gets a decision record: the reasons for which it is rejected, or
  its score with the components that add up to it. The eligible nodes are sorted by score, near-equal
  scores by node id, and the first one is selected. \<open>sort.Slice\<close> and \<open>sort.SliceStable\<close> are
  modelled by the insertion sort that Go runs on short slices; on an ordering that is a strict weak
  order every stable sort gives the same result. float64 is \<open>real\<close>.
\<close>

section \<open>Sorting\<close>

definition insertFromRight :: "('a \<Rightarrow> 'a \<Rightarrow> bool) \<Rightarrow> 'a list \<Rightarrow> 'a \<Rightarrow> 'a list" where
  "insertFromRight lt pre x =
     rev (dropWhile (lt x) (rev pre)) @ x # rev (takeWhile (lt x) (rev pre))"

definition sortSlice :: "('a \<Rightarrow> 'a \<Rightarrow> bool) \<Rightarrow> 'a list \<Rightarrow> 'a list" where
  "sortSlice lt xs = foldl (insertFromRight lt) [] xs"

section \<open>Evaluating a node\<close>

record candidate =
  cd_Node :: node
  cd_Score :: real

definition MaximumRoutingDecisionCandidates :: nat where "MaximumRoutingDecisionCandidates = 128"

definition NodeFreshnessWindow :: duration where "NodeFreshnessWindow = 30 * second"

definition routingFailureScore :: real where "routingFailureScore = 18"

definition zeroComponents :: routingScoreComponents where
  "zeroComponents = \<lparr>sc_ActiveLoad = 0, sc_QueueDepth = 0, sc_MemoryPressure = 0, sc_CPUPressure = 0, sc_GPUPressure = 0,
     sc_VRAMHeadroom = 0, sc_AdapterPressure = 0, sc_LoadedModel = 0, sc_EstimatedVRAMFit = 0, sc_PreferredNode = 0,
     sc_RecentFailures = 0, sc_HistoricalLatency = 0\<rparr>"

definition zeroCandidateDecision :: routingCandidateDecision where
  "zeroCandidateDecision = \<lparr>cand_ReservedSlots = 0, cand_ReservationOutcome = [], cand_NodeID = [], cand_NodeName = [],
     cand_Eligible = False, cand_RejectionReasons = [], cand_Score = 0, cand_ScoreComponents = zeroComponents, cand_EvidenceAgeMS = 0,
     cand_FailureStreak = 0, cand_CircuitOpenUntil = 0, cand_RecoveryProbation = False, cand_PerformanceSamples = 0,
     cand_EstimatedComputeMS = 0, cand_PerformanceAgeMS = 0, cand_PerformanceContext = [], cand_PerformanceSource = []\<rparr>"

definition nonNegativeAge :: "gotime \<Rightarrow> gotime \<Rightarrow> duration" where
  "nonNegativeAge now t = (if timeSub now t < 0 then 0 else timeSub now t)"

definition rejectionReasons :: "goLib \<Rightarrow> gotime \<Rightarrow> requirements \<Rightarrow> string \<Rightarrow> node \<Rightarrow> string list" where
  "rejectionReasons L now r ownerSubject node =
     (let reasons = addWhen (\<not> node_Connected node) ''worker_not_connected'' [];
          reasons = addWhen (node_Draining node) ''worker_draining'' reasons;
          reasons = addWhen (nonNegativeAge now (node_LastSeen node) > NodeFreshnessWindow) ''worker_telemetry_stale'' reasons;
          reasons = (if matchesNode L node r then reasons
                     else let reasons = reasons @ routingConstraintReasons L node r in
                          if reasons = [] then [''requirements_not_satisfied''] else reasons);
          reasons = addUniqueWhen (cap_Running (node_Capabilities node) \<ge> nodeCapacity node) ''worker_at_capacity'' reasons
      in case routingHealthForOwnerAt L node r ownerSubject now of
           None \<Rightarrow> reasons
         | Some health \<Rightarrow> addUniqueWhen (h_CircuitOpenUntil health > now) ''route_circuit_open'' reasons)"

definition placementVRAM :: "requirements \<Rightarrow> u64 \<Rightarrow> u64" where
  "placementVRAM r estimatedVRAM = (if req_MinFreeVRAM r = 0 then estimatedVRAM else req_MinFreeVRAM r)"

text \<open>The weight of a preference by its position.\<close>

fun preferredWeight :: "node \<Rightarrow> nat \<Rightarrow> string list \<Rightarrow> real" where
  "preferredWeight node index [] = 0"
| "preferredWeight node index (preferred # rest) =
     (if preferred = node_ID node \<or> preferred = node_Name node then - max 10 (30 - real index * 3)
      else preferredWeight node (Suc index) rest)"

definition recentFailures :: "gotime \<Rightarrow> routingHealth option \<Rightarrow> real" where
  "recentFailures now health =
     (case health of
        None \<Rightarrow> 0
      | Some h \<Rightarrow> (if timeSub now (h_LastFailureAt h) \<ge> 0 \<and> timeSub now (h_LastFailureAt h) \<le> routingFailureWindow
                   then min (real (unat (h_ConsecutiveFailures h)) * routingFailureScore)
                          (routingFailureScore * real (unat routingFailureThreshold))
                   else 0))"

definition historicalLatency :: "placementPolicy \<Rightarrow> u64 \<Rightarrow> routingPerformanceEstimate option \<Rightarrow> real" where
  "historicalLatency placement fastest performance =
     (case performance of
        None \<Rightarrow> 0
      | Some p \<Rightarrow> (if fastest > 0 \<and> est_EWMAComputeMS p > fastest
                   then min (log 2 (real (unat (est_EWMAComputeMS p)) / real (unat fastest)) * pp_LatencyWeight placement)
                          (pp_MaxLatencyPenalty placement)
                   else 0))"

definition scoreComponents ::
  "goLib \<Rightarrow> gotime \<Rightarrow> placementPolicy \<Rightarrow> u64 \<Rightarrow> requirements \<Rightarrow> u64 \<Rightarrow> routingHealth option \<Rightarrow> routingPerformanceEstimate option \<Rightarrow>
   node \<Rightarrow> routingScoreComponents" where
  "scoreComponents L now placement fastest r estimatedVRAM health performance node =
     (let c = node_Capabilities node; capacity = nodeCapacity node; vram = placementVRAM r estimatedVRAM in
      \<lparr>sc_ActiveLoad = real_of_int (cap_Running c) / real_of_int capacity * 60,
       sc_QueueDepth = real_of_int (cap_QueueDepth c) / real_of_int capacity * 20,
       sc_MemoryPressure = boundedMemoryPressure (cap_MemoryFree c) (cap_MemoryTotal c) * 10,
       sc_CPUPressure = boundedUtilization (cap_CPUUtilization c) * 10,
       sc_GPUPressure = bestGPUUtilization node vram * 15,
       sc_VRAMHeadroom = - bestVRAMHeadroom node vram * 12,
       sc_AdapterPressure = (if equalFold L (req_Provider r) ''adapter'' \<and> cap_AdapterEndpoints c > 0
          then real_of_int (cap_AdapterBusy c) / real_of_int (cap_AdapterEndpoints c) * 40 else 0),
       sc_LoadedModel = (if isAutomaticOllamaRequest L r \<and> hasLoadedAutomaticModel L (cap_Models c) r then - 6 else 0),
       sc_EstimatedVRAMFit = (if req_MinFreeVRAM r = 0 \<and> estimatedVRAM > 0 then (if hasVRAM node estimatedVRAM then - 10 else 8) else 0),
       sc_PreferredNode = preferredWeight node 0 (req_PreferredNodes r),
       sc_RecentFailures = recentFailures now health,
       sc_HistoricalLatency = historicalLatency placement fastest performance\<rparr>)"

definition totalScore :: "routingScoreComponents \<Rightarrow> real" where
  "totalScore c = sc_ActiveLoad c + sc_QueueDepth c + sc_MemoryPressure c + sc_CPUPressure c + sc_GPUPressure c + sc_VRAMHeadroom c
     + sc_AdapterPressure c + sc_LoadedModel c + sc_EstimatedVRAMFit c + sc_PreferredNode c + sc_RecentFailures c + sc_HistoricalLatency c"

definition evaluateNode ::
  "goLib \<Rightarrow> gotime \<Rightarrow> placementPolicy \<Rightarrow> u64 \<Rightarrow> requirements \<Rightarrow> u64 \<Rightarrow> string \<Rightarrow> node \<Rightarrow> routingCandidateDecision \<times> candidate option" where
  "evaluateNode L now placement fastest r estimatedVRAM ownerSubject node =
     (let health = routingHealthForOwnerAt L node r ownerSubject now;
          decision = zeroCandidateDecision\<lparr>cand_NodeID := node_ID node, cand_NodeName := node_Name node,
            cand_EvidenceAgeMS := nonNegativeAge now (node_LastSeen node) div millisecond\<rparr>;
          decision = (case health of
                        None \<Rightarrow> decision
                      | Some h \<Rightarrow>
                          (let decision = decision\<lparr>cand_FailureStreak := h_ConsecutiveFailures h\<rparr> in
                           if h_CircuitOpenUntil h > now then decision\<lparr>cand_CircuitOpenUntil := h_CircuitOpenUntil h\<rparr>
                           else if routingHealthState h now = 2 then decision\<lparr>cand_RecoveryProbation := True\<rparr>
                           else decision));
          reasons = rejectionReasons L now r ownerSubject node
      in if reasons \<noteq> [] then (decision\<lparr>cand_RejectionReasons := reasons\<rparr>, None)
         else let performanceContext = routingPerformanceContext L node r (placementVRAM r estimatedVRAM);
                  performance = routingPerformanceEstimateFor L node r performanceContext placement now;
                  components = scoreComponents L now placement fastest r estimatedVRAM health performance node;
                  decision = decision\<lparr>cand_Eligible := True, cand_PerformanceContext := performanceContext\<rparr>;
                  decision = (case performance of
                                None \<Rightarrow> decision
                              | Some p \<Rightarrow> decision\<lparr>cand_PerformanceSamples := est_Samples p, cand_EstimatedComputeMS := est_EWMAComputeMS p,
                                  cand_PerformanceSource := est_Source p,
                                  cand_PerformanceAgeMS := nonNegativeAge now (est_LastCompletedAt p) div millisecond\<rparr>)
              in (decision\<lparr>cand_Score := totalScore components, cand_ScoreComponents := components\<rparr>,
                  Some \<lparr>cd_Node = node, cd_Score = totalScore components\<rparr>))"

section \<open>Ranking\<close>

definition fastestEligibleHistoricalRuntime ::
  "goLib \<Rightarrow> node list \<Rightarrow> requirements \<Rightarrow> u64 \<Rightarrow> string \<Rightarrow> gotime \<Rightarrow> placementPolicy \<Rightarrow> u64" where
  "fastestEligibleHistoricalRuntime L nodes r estimatedVRAM ownerSubject now placement =
     (if \<not> pp_PerformanceLearning placement then 0
      else foldl (\<lambda>fastest node.
        if \<not> node_Connected node \<or> node_Draining node \<or> nonNegativeAge now (node_LastSeen node) > NodeFreshnessWindow
           \<or> \<not> matchesNode L node r \<or> cap_Running (node_Capabilities node) \<ge> nodeCapacity node then fastest
        else if (case routingHealthForOwnerAt L node r ownerSubject now of None \<Rightarrow> False | Some h \<Rightarrow> h_CircuitOpenUntil h > now) then fastest
        else case routingPerformanceEstimateFor L node r (routingPerformanceContext L node r (placementVRAM r estimatedVRAM)) placement now of
               None \<Rightarrow> fastest
             | Some p \<Rightarrow> (if fastest = 0 \<or> est_EWMAComputeMS p < fastest then est_EWMAComputeMS p else fastest)) 0 nodes)"

definition candidateLess :: "candidate \<Rightarrow> candidate \<Rightarrow> bool" where
  "candidateLess a b =
     (if \<bar>cd_Score a - cd_Score b\<bar> > 0.0001 then cd_Score a < cd_Score b else node_ID (cd_Node a) < node_ID (cd_Node b))"

definition decisionLess :: "routingCandidateDecision \<Rightarrow> routingCandidateDecision \<Rightarrow> bool" where
  "decisionLess a b =
     (if cand_Eligible a \<noteq> cand_Eligible b then cand_Eligible a
      else if cand_Eligible a \<and> \<bar>cand_Score a - cand_Score b\<bar> > 0.0001 then cand_Score a < cand_Score b
      else cand_NodeID a < cand_NodeID b)"

definition sortRoutingCandidateDecisions :: "routingCandidateDecision list \<Rightarrow> routingCandidateDecision list" where
  "sortRoutingCandidateDecisions candidates = sortSlice decisionLess candidates"

definition rankWithDecisionForOwnerPolicy ::
  "goLib \<Rightarrow> node list \<Rightarrow> requirements \<Rightarrow> u64 \<Rightarrow> string \<Rightarrow> gotime \<Rightarrow> placementPolicy \<Rightarrow> candidate list \<times> routingDecision" where
  "rankWithDecisionForOwnerPolicy L nodes r estimatedVRAM ownerSubject now placement =
     (let placement = normalizePlacementPolicy placement;
          fastest = fastestEligibleHistoricalRuntime L nodes r estimatedVRAM ownerSubject now placement;
          evaluated = map (evaluateNode L now placement fastest r estimatedVRAM ownerSubject) nodes;
          candidates = sortSlice candidateLess (List.map_filter snd evaluated);
          decisions = sortRoutingCandidateDecisions (map fst evaluated)
      in (candidates,
          \<lparr>dec_ID = [], dec_JobID = [], dec_Preview = False, dec_Requirements = r, dec_RouteKey = fst (routingHealthKey L r),
           dec_PolicyDecision = None, dec_EstimatedVRAMBytes = estimatedVRAM, dec_Candidates = decisions,
           dec_CandidateCount = int (length decisions), dec_CandidatesTruncated = 0,
           dec_SelectedNodeID = (case candidates of [] \<Rightarrow> [] | c # _ \<Rightarrow> node_ID (cd_Node c)),
           dec_SelectedNodeName = (case candidates of [] \<Rightarrow> [] | c # _ \<Rightarrow> node_Name (cd_Node c)), dec_CreatedAt = now\<rparr>))"

definition rankWithDecisionForOwner where
  "rankWithDecisionForOwner L nodes r estimatedVRAM ownerSubject now =
     rankWithDecisionForOwnerPolicy L nodes r estimatedVRAM ownerSubject now DefaultPlacementPolicy"

definition rankWithDecision where
  "rankWithDecision L nodes r estimatedVRAM now = rankWithDecisionForOwner L nodes r estimatedVRAM [] now"

definition rankWithOwnerEstimate where
  "rankWithOwnerEstimate L nodes r estimatedVRAM ownerSubject now =
     fst (rankWithDecisionForOwnerPolicy L nodes r estimatedVRAM ownerSubject now DefaultPlacementPolicy)"

definition RankWithEstimate where
  "RankWithEstimate L now nodes r estimatedVRAM = fst (rankWithDecision L nodes r estimatedVRAM now)"

definition Rank where
  "Rank L now nodes r = RankWithEstimate L now nodes r 0"

definition boundRoutingDecision :: "routingDecision \<Rightarrow> routingDecision" where
  "boundRoutingDecision d =
     (let count = (if dec_CandidateCount d < int (length (dec_Candidates d)) then int (length (dec_Candidates d)) else dec_CandidateCount d);
          candidates = (if length (dec_Candidates d) > MaximumRoutingDecisionCandidates
                        then take MaximumRoutingDecisionCandidates (dec_Candidates d) else dec_Candidates d)
      in d\<lparr>dec_CandidateCount := count, dec_Candidates := candidates, dec_CandidatesTruncated := count - int (length candidates)\<rparr>)"

definition ExplainRouting where
  "ExplainRouting L now nodes r estimatedVRAM = boundRoutingDecision (snd (rankWithDecision L nodes r estimatedVRAM now))"

section \<open>The sort\<close>

lemma insertFromRight_mset: "mset (insertFromRight lt pre x) = mset (pre @ [x])"
proof -
  have "mset (dropWhile (lt x) (rev pre)) + mset (takeWhile (lt x) (rev pre)) = mset pre"
    by (metis mset_append mset_rev takeWhile_dropWhile_id add.commute)
  then show ?thesis by (simp add: insertFromRight_def)
qed

lemma sortSlice_mset: "mset (sortSlice lt xs) = mset xs"
proof -
  have "mset (foldl (insertFromRight lt) acc xs) = mset acc + mset xs" for acc
    by (induction xs arbitrary: acc) (simp_all add: insertFromRight_mset)
  then show ?thesis by (simp add: sortSlice_def)
qed

lemma sortSlice_set [simp]: "set (sortSlice lt xs) = set xs"
  by (metis set_mset_mset sortSlice_mset)

lemma sortSlice_length [simp]: "length (sortSlice lt xs) = length xs"
  by (metis size_mset sortSlice_mset)

text \<open>With a strict weak order on the elements the result is sorted.\<close>

definition weakOrderOn :: "('a \<Rightarrow> 'a \<Rightarrow> bool) \<Rightarrow> 'a set \<Rightarrow> bool" where
  "weakOrderOn lt A \<longleftrightarrow> (\<forall>a \<in> A. \<forall>b \<in> A. lt a b \<longrightarrow> \<not> lt b a)
     \<and> (\<forall>a \<in> A. \<forall>b \<in> A. \<forall>c \<in> A. \<not> lt a b \<longrightarrow> \<not> lt b c \<longrightarrow> \<not> lt a c)"

lemma weakOrder_asym: "weakOrderOn lt A \<Longrightarrow> a \<in> A \<Longrightarrow> b \<in> A \<Longrightarrow> lt a b \<Longrightarrow> \<not> lt b a"
  unfolding weakOrderOn_def by (elim conjE) (drule bspec, assumption, drule bspec, assumption, erule mp)

lemma weakOrder_trans:
  "weakOrderOn lt A \<Longrightarrow> a \<in> A \<Longrightarrow> b \<in> A \<Longrightarrow> c \<in> A \<Longrightarrow> \<not> lt a b \<Longrightarrow> \<not> lt b c \<Longrightarrow> \<not> lt a c"
  unfolding weakOrderOn_def by metis

lemma insertFromRight_sorted:
  assumes ord: "weakOrderOn lt A" and sub: "set pre \<subseteq> A" "x \<in> A" and srt: "sorted_wrt (\<lambda>a b. \<not> lt b a) pre"
  shows "sorted_wrt (\<lambda>a b. \<not> lt b a) (insertFromRight lt pre x)"
proof -
  define hi where "hi = rev (takeWhile (lt x) (rev pre))"
  define lo where "lo = rev (dropWhile (lt x) (rev pre))"
  have split: "pre = lo @ hi" unfolding lo_def hi_def by (metis rev_append rev_rev_ident takeWhile_dropWhile_id)
  have parts: "sorted_wrt (\<lambda>a b. \<not> lt b a) lo" "sorted_wrt (\<lambda>a b. \<not> lt b a) hi" "\<forall>a \<in> set lo. \<forall>b \<in> set hi. \<not> lt b a"
    using srt unfolding split sorted_wrt_append by auto
  have mem: "set lo \<subseteq> A" "set hi \<subseteq> A" using sub(1) unfolding split by auto
  have hi: "lt x b" if "b \<in> set hi" for b using that unfolding hi_def by (auto dest: set_takeWhileD)
  have last: "lo = [] \<or> \<not> lt x (last lo)"
    unfolding lo_def using hd_dropWhile [of "lt x" "rev pre"] by (auto simp: last_rev)
  have below: "\<not> lt x a" if "a \<in> set lo" for a
  proof (cases "a = last lo")
    case False
    from that have ne: "lo \<noteq> []" by auto
    then have "a \<in> set (butlast lo)" using that False by (metis append_butlast_last_id in_set_conv_decomp rotate1.simps(2) set_ConsD set_rotate1)
    then have "\<not> lt (last lo) a" using parts(1) ne by (metis append_butlast_last_id sorted_wrt_append list.set_intros(1))
    moreover have "\<not> lt x (last lo)" using last ne by simp
    ultimately show ?thesis using weakOrder_trans [OF ord sub(2)] mem(1) that ne by (meson last_in_set subsetD)
  qed (use last that in auto)
  have "\<not> lt b x" if "b \<in> set hi" for b by (rule weakOrder_asym [OF ord sub(2) subsetD [OF mem(2) that] hi [OF that]])
  then have "sorted_wrt (\<lambda>a b. \<not> lt b a) (x # hi)" using parts(2) by simp
  moreover have "\<forall>a \<in> set lo. \<forall>b \<in> set (x # hi). \<not> lt b a" using parts(3) below by simp
  ultimately have "sorted_wrt (\<lambda>a b. \<not> lt b a) (lo @ x # hi)" unfolding sorted_wrt_append using parts(1) by simp
  then show ?thesis by (simp add: insertFromRight_def lo_def hi_def)
qed

lemma sortSlice_sorted:
  assumes "weakOrderOn lt (set xs)"
  shows "sorted_wrt (\<lambda>a b. \<not> lt b a) (sortSlice lt xs)"
proof -
  have "sorted_wrt (\<lambda>a b. \<not> lt b a) (foldl (insertFromRight lt) acc ys)"
    if "set ys \<subseteq> set xs" "set acc \<subseteq> set xs" "sorted_wrt (\<lambda>a b. \<not> lt b a) acc" for acc ys
    using that
  proof (induction ys arbitrary: acc)
    case (Cons y ys)
    have "set (insertFromRight lt acc y) = insert y (set acc)"
      using insertFromRight_mset [of lt acc y] by (metis list.set(2) mset_append mset_rev rev.simps(2) rev_append rev_rev_ident set_mset_mset append_Cons append_Nil set_append Un_insert_right sup_bot_right empty_set)
    then show ?case using Cons insertFromRight_sorted [OF assms, of acc y] by simp
  qed simp
  from this [of xs "[]"] show ?thesis by (simp add: sortSlice_def)
qed

section \<open>Eligibility\<close>

definition eligibleNode :: "goLib \<Rightarrow> gotime \<Rightarrow> requirements \<Rightarrow> string \<Rightarrow> node \<Rightarrow> bool" where
  "eligibleNode L now r ownerSubject node \<longleftrightarrow> node_Connected node \<and> \<not> node_Draining node
     \<and> nonNegativeAge now (node_LastSeen node) \<le> NodeFreshnessWindow \<and> matchesNode L node r
     \<and> cap_Running (node_Capabilities node) < nodeCapacity node
     \<and> (\<forall>h. routingHealthForOwnerAt L node r ownerSubject now = Some h \<longrightarrow> h_CircuitOpenUntil h \<le> now)"

lemma reasons_empty: "rejectionReasons L now r owner node = [] \<longleftrightarrow> eligibleNode L now r owner node"
  unfolding rejectionReasons_def eligibleNode_def Let_def
  by (auto split: option.splits)

lemma evaluate_rejected:
  assumes "\<not> eligibleNode L now r owner node"
  shows "\<exists>d. evaluateNode L now placement fastest r e owner node = (d, None) \<and> cand_NodeID d = node_ID node
    \<and> \<not> cand_Eligible d \<and> cand_RejectionReasons d \<noteq> []"
  using assms unfolding reasons_empty [symmetric]
  by (simp add: evaluateNode_def zeroCandidateDecision_def Let_def split: option.splits)

lemma evaluate_eligible:
  assumes "eligibleNode L now r owner node"
  shows "\<exists>d sc. evaluateNode L now placement fastest r e owner node = (d, Some \<lparr>cd_Node = node, cd_Score = totalScore sc\<rparr>)
    \<and> cand_NodeID d = node_ID node \<and> cand_Eligible d \<and> cand_RejectionReasons d = []
    \<and> cand_ScoreComponents d = sc \<and> cand_Score d = totalScore sc
    \<and> sc = scoreComponents L now placement fastest r e (routingHealthForOwnerAt L node r owner now)
        (routingPerformanceEstimateFor L node r (routingPerformanceContext L node r (placementVRAM r e)) placement now) node"
  using assms unfolding reasons_empty [symmetric]
  by (simp add: evaluateNode_def zeroCandidateDecision_def Let_def split: option.splits)

lemma evaluate_spec:
  assumes "evaluateNode L now placement fastest r e owner node = (d, c)"
  shows "cand_NodeID d = node_ID node \<and> cand_Eligible d = eligibleNode L now r owner node
    \<and> (cand_Eligible d \<longleftrightarrow> cand_RejectionReasons d = []) \<and> (c \<noteq> None \<longleftrightarrow> cand_Eligible d)
    \<and> (\<forall>x. c = Some x \<longrightarrow> cd_Node x = node \<and> cd_Score x = cand_Score d \<and> cand_Score d = totalScore (cand_ScoreComponents d)
        \<and> (\<exists>health performance. cand_ScoreComponents d = scoreComponents L now placement fastest r e health performance node))"
proof (cases "eligibleNode L now r owner node")
  case True
  from evaluate_eligible [OF this, of placement fastest e] assms True show ?thesis by auto
next
  case False
  from evaluate_rejected [OF this, of placement fastest e] assms False show ?thesis by auto
qed

lemma candidates_of_nodes:
  "map cd_Node (List.map_filter snd (map (evaluateNode L now placement fastest r e owner) nodes)) = filter (eligibleNode L now r owner) nodes"
proof (induction nodes)
  case (Cons node nodes)
  obtain d c where ev: "evaluateNode L now placement fastest r e owner node = (d, c)" by force
  from evaluate_spec [OF ev] Cons ev show ?case by (cases c) (auto simp: map_filter_simps)
qed (simp add: map_filter_simps)

lemma decisions_of_nodes:
  "map (\<lambda>d. (cand_NodeID d, cand_Eligible d)) (map fst (map (evaluateNode L now placement fastest r e owner) nodes)) =
   map (\<lambda>n. (node_ID n, eligibleNode L now r owner n)) nodes"
proof -
  have "cand_NodeID (fst (evaluateNode L now placement fastest r e owner n)) = node_ID n
      \<and> cand_Eligible (fst (evaluateNode L now placement fastest r e owner n)) = eligibleNode L now r owner n" for n
    using evaluate_spec [of L now placement fastest r e owner n] by (cases "evaluateNode L now placement fastest r e owner n") auto
  then show ?thesis by simp
qed

lemma ranking_candidates:
  assumes "rankWithDecisionForOwnerPolicy L nodes r e owner now placement = (cands, d)"
  shows "mset (map cd_Node cands) = mset (filter (eligibleNode L now r owner) nodes)"
proof -
  have "cands = sortSlice candidateLess (List.map_filter snd (map (evaluateNode L now (normalizePlacementPolicy placement)
      (fastestEligibleHistoricalRuntime L nodes r e owner now (normalizePlacementPolicy placement)) r e owner) nodes))"
    using assms by (simp add: rankWithDecisionForOwnerPolicy_def Let_def)
  then show ?thesis unfolding mset_map sortSlice_mset by (metis candidates_of_nodes mset_map sortSlice_mset)
qed

text \<open>C18: the ranking considers every node and places work only where it may run. The candidates are
  exactly the eligible nodes: connected, not draining, with fresh telemetry, satisfying the requirements,
  below capacity and with a closed circuit for this owner. Every node appears once in the explanation,
  either eligible with a score that is the sum of its components or with at least one reason; the
  selected node is eligible, and there is one whenever a node is eligible.\<close>

theorem ranking_selects_eligible:
  assumes "rankWithDecisionForOwnerPolicy L nodes r e owner now placement = (cands, d)"
  shows "mset (map cd_Node cands) = mset (filter (eligibleNode L now r owner) nodes)
    \<and> mset (map (\<lambda>c. (cand_NodeID c, cand_Eligible c)) (dec_Candidates d)) = mset (map (\<lambda>n. (node_ID n, eligibleNode L now r owner n)) nodes)
    \<and> (\<forall>c \<in> set (dec_Candidates d). (cand_Eligible c \<longleftrightarrow> cand_RejectionReasons c = [])
         \<and> (cand_Eligible c \<longrightarrow> cand_Score c = totalScore (cand_ScoreComponents c)))
    \<and> dec_CandidateCount d = int (length nodes)
    \<and> (if list_ex (eligibleNode L now r owner) nodes
       then \<exists>n \<in> set nodes. eligibleNode L now r owner n \<and> dec_SelectedNodeID d = node_ID n
         \<and> cands \<noteq> [] \<and> n = cd_Node (hd cands)
       else dec_SelectedNodeID d = [] \<and> cands = [])"
proof -
  let ?p = "normalizePlacementPolicy placement"
  let ?f = "fastestEligibleHistoricalRuntime L nodes r e owner now ?p"
  let ?ev = "map (evaluateNode L now ?p ?f r e owner) nodes"
  have dcs: "dec_Candidates d = sortSlice decisionLess (map fst ?ev)" "dec_CandidateCount d = int (length nodes)"
    and sel: "dec_SelectedNodeID d = (case cands of [] \<Rightarrow> [] | c # _ \<Rightarrow> node_ID (cd_Node c))"
    using assms by (auto simp: rankWithDecisionForOwnerPolicy_def sortRoutingCandidateDecisions_def Let_def)
  have m: "mset (map cd_Node cands) = mset (filter (eligibleNode L now r owner) nodes)"
    by (rule ranking_candidates [OF assms])
  moreover have "mset (map (\<lambda>c. (cand_NodeID c, cand_Eligible c)) (dec_Candidates d)) = mset (map (\<lambda>n. (node_ID n, eligibleNode L now r owner n)) nodes)"
    using arg_cong [OF decisions_of_nodes, of mset L now ?p ?f r e owner nodes] unfolding dcs mset_map sortSlice_mset .
  moreover have "(cand_Eligible c \<longleftrightarrow> cand_RejectionReasons c = []) \<and> (cand_Eligible c \<longrightarrow> cand_Score c = totalScore (cand_ScoreComponents c))"
    if "c \<in> set (dec_Candidates d)" for c
  proof -
    from that obtain n where c: "c = fst (evaluateNode L now ?p ?f r e owner n)" by (auto simp: dcs)
    from evaluate_spec [OF prod.collapse [symmetric], of L now ?p ?f r e owner n] show ?thesis unfolding c [symmetric]
      by (metis option.collapse)
  qed
  moreover have "if list_ex (eligibleNode L now r owner) nodes
       then \<exists>n \<in> set nodes. eligibleNode L now r owner n \<and> dec_SelectedNodeID d = node_ID n \<and> cands \<noteq> [] \<and> n = cd_Node (hd cands)
       else dec_SelectedNodeID d = [] \<and> cands = []"
  proof (cases cands)
    case Nil
    then have "filter (eligibleNode L now r owner) nodes = []" using m by simp
    then show ?thesis using Nil sel by (auto simp: list_ex_iff filter_empty_conv)
  next
    case (Cons c rest)
    then have "cd_Node c \<in> set (filter (eligibleNode L now r owner) nodes)" using m by (metis list.set_intros(1) list.simps(9) mset_eq_setD)
    then show ?thesis using Cons sel by (auto simp: list_ex_iff)
  qed
  ultimately show ?thesis using dcs(2) by blast
qed

text \<open>the ranking goes by score. When no two scores lie within the tolerance without being equal, the
  candidates come in ascending score and equal scores in the order of their node ids, so that the
  selected node has the least score of all eligible nodes.\<close>

theorem ranking_ordered_by_score:
  assumes "rankWithDecisionForOwnerPolicy L nodes r e owner now placement = (cands, d)"
    and "\<forall>a \<in> set cands. \<forall>b \<in> set cands. cd_Score a = cd_Score b \<or> \<bar>cd_Score a - cd_Score b\<bar> > 0.0001"
  shows "sorted_wrt (\<lambda>a b. cd_Score a < cd_Score b \<or> cd_Score a = cd_Score b \<and> node_ID (cd_Node a) \<le> node_ID (cd_Node b)) cands
    \<and> (\<forall>c \<in> set cands. cd_Score (hd cands) \<le> cd_Score c)"
proof -
  from assms(1) obtain xs where cands: "cands = sortSlice candidateLess xs"
    by (auto simp: rankWithDecisionForOwnerPolicy_def Let_def)
  have less: "candidateLess a b \<longleftrightarrow> cd_Score a < cd_Score b \<or> cd_Score a = cd_Score b \<and> node_ID (cd_Node a) < node_ID (cd_Node b)"
    if "a \<in> set xs" "b \<in> set xs" for a b
  proof -
    have "cd_Score a = cd_Score b \<or> \<bar>cd_Score a - cd_Score b\<bar> > 0.0001" using assms(2) that by (simp add: cands)
    then show ?thesis by (auto simp: candidateLess_def)
  qed
  have "weakOrderOn candidateLess (set xs)"
    unfolding weakOrderOn_def by (auto simp: less)
  from sortSlice_sorted [OF this] have srt: "sorted_wrt (\<lambda>a b. \<not> candidateLess b a) cands" by (simp add: cands)
  have "sorted_wrt (\<lambda>a b. cd_Score a < cd_Score b \<or> cd_Score a = cd_Score b \<and> node_ID (cd_Node a) \<le> node_ID (cd_Node b)) cands"
    by (rule sorted_wrt_mono_rel [OF _ srt]) (auto simp: less cands)
  moreover from this have "\<forall>c \<in> set cands. cd_Score (hd cands) \<le> cd_Score c"
    by (cases cands) auto
  ultimately show ?thesis by blast
qed

text \<open>the comparison is no order on near ties: with a tolerance of 0.0001 three candidates can each come
  before the next and the last before the first, so that the outcome of the sort depends on the order in
  which the nodes were listed.\<close>

theorem near_ties_form_a_cycle:
  fixes n :: node
  defines "a \<equiv> \<lparr>cd_Node = n\<lparr>node_ID := ''c''\<rparr>, cd_Score = 0\<rparr>" and "b \<equiv> \<lparr>cd_Node = n\<lparr>node_ID := ''b''\<rparr>, cd_Score = 0.00006\<rparr>"
    and "c \<equiv> \<lparr>cd_Node = n\<lparr>node_ID := ''a''\<rparr>, cd_Score = 0.00012\<rparr>"
  shows "candidateLess a c \<and> candidateLess c b \<and> candidateLess b a"
  by (simp add: candidateLess_def a_def b_def c_def)

text \<open>An explanation is bounded: at most 128 candidates are kept, from the front of the list, and the
  number of omitted ones is stated, so that kept and omitted add up to the number of nodes considered.\<close>

theorem explanation_bounded:
  "length (dec_Candidates (boundRoutingDecision d)) \<le> 128
   \<and> dec_Candidates (boundRoutingDecision d) = take 128 (dec_Candidates d)
   \<and> 0 \<le> dec_CandidatesTruncated (boundRoutingDecision d)
   \<and> int (length (dec_Candidates (boundRoutingDecision d))) + dec_CandidatesTruncated (boundRoutingDecision d)
       = max (dec_CandidateCount d) (int (length (dec_Candidates d)))
   \<and> boundRoutingDecision (boundRoutingDecision d) = boundRoutingDecision d"
  by (auto simp: boundRoutingDecision_def MaximumRoutingDecisionCandidates_def Let_def)

section \<open>The range of a score\<close>

lemma boundedMemoryPressure_range: "0 \<le> boundedMemoryPressure free ttl \<and> boundedMemoryPressure free ttl \<le> 1"
proof -
  have "unat free < unat ttl" if "\<not> free \<ge> ttl" using that by (simp add: word_less_nat_alt not_le)
  then show ?thesis by (auto simp: boundedMemoryPressure_def divide_simps simp del: of_nat_unat)
qed

lemma boundedUtilization_range: "0 \<le> boundedUtilization value \<and> boundedUtilization value \<le> 1"
  by (auto simp: boundedUtilization_def)

lemma bestVRAMHeadroom_range: "0 \<le> bestVRAMHeadroom node required \<and> bestVRAMHeadroom node required \<le> 1"
proof -
  let ?step = "\<lambda>best gpu. let free = boundedFreeMemory (gpu_MemoryFree gpu) (gpu_MemoryTotal gpu) in
     if gpu_MemoryTotal gpu = 0 \<or> free < required then best
     else let headroom = real (unat (free - required)) / real (unat (gpu_MemoryTotal gpu)) in
          if headroom > best then headroom else best"
  have step: "?step best gpu \<le> 1 \<and> 0 \<le> ?step best gpu" if "0 \<le> best" "best \<le> 1" for best gpu
  proof -
    let ?free = "boundedFreeMemory (gpu_MemoryFree gpu) (gpu_MemoryTotal gpu)"
    have "unat (?free - required) \<le> unat (gpu_MemoryTotal gpu)" if "\<not> ?free < required" "gpu_MemoryTotal gpu \<noteq> 0"
    proof -
      have "unat (?free - required) = unat ?free - unat required" using that(1) by (simp add: unat_sub not_less)
      moreover have "unat ?free \<le> unat (gpu_MemoryTotal gpu)"
        using that(2) by (auto simp: boundedFreeMemory_def word_le_nat_alt word_less_nat_alt unat_gt_0)
      ultimately show ?thesis by simp
    qed
    then show ?thesis using that by (auto simp: Let_def divide_le_eq_1 simp del: of_nat_unat)
  qed
  have "0 \<le> foldl ?step best gpus \<and> foldl ?step best gpus \<le> 1" if "0 \<le> best" "best \<le> 1" for best gpus
    using that
  proof (induction gpus arbitrary: best)
    case (Cons gpu gpus)
    with step [OF Cons.prems] show ?case unfolding foldl_Cons by blast
  qed simp
  from this [of 0] show ?thesis unfolding bestVRAMHeadroom_def by simp
qed

lemma leastOf_range:
  assumes "\<And>x v. value x = Some v \<Longrightarrow> 0 \<le> v \<and> v \<le> (1::real)"
  shows "0 \<le> leastOf value xs \<and> leastOf value xs \<le> 1"
proof -
  let ?step = "\<lambda>best x. case value x of
       None \<Rightarrow> best | Some v \<Rightarrow> (case best of None \<Rightarrow> Some v | Some b \<Rightarrow> if v < b then Some v else Some b)"
  have "pred_option (\<lambda>v. 0 \<le> v \<and> v \<le> 1) (foldl ?step best xs)" if "pred_option (\<lambda>v. 0 \<le> v \<and> v \<le> 1) best" for best
    using that
  proof (induction xs arbitrary: best)
    case (Cons x xs)
    have "pred_option (\<lambda>v. 0 \<le> v \<and> v \<le> 1) (?step best x)"
      using Cons.prems assms [of x] by (auto split: option.splits)
    from Cons.IH [OF this] show ?case by simp
  qed simp
  from this [of None] show ?thesis by (auto simp: leastOf_def split: option.splits)
qed

lemma bestGPUUtilization_range: "0 \<le> bestGPUUtilization node required \<and> bestGPUUtilization node required \<le> 1"
  unfolding bestGPUUtilization_def by (rule leastOf_range) (auto simp: boundedUtilization_range split: if_splits)

lemma preferredWeight_range: "- 30 \<le> preferredWeight node index preferred \<and> preferredWeight node index preferred \<le> 0"
  by (induction node index preferred rule: preferredWeight.induct) auto

lemma recentFailures_range: "0 \<le> recentFailures now health \<and> recentFailures now health \<le> 54"
  by (auto simp: recentFailures_def routingFailureScore_def routingFailureThreshold_def simp del: of_nat_unat split: option.splits)

lemma historicalLatency_range:
  "0 \<le> historicalLatency (normalizePlacementPolicy p) fastest perf
   \<and> historicalLatency (normalizePlacementPolicy p) fastest perf \<le> pp_MaxLatencyPenalty (normalizePlacementPolicy p)"
proof -
  let ?p = "normalizePlacementPolicy p"
  have pos: "0 < pp_LatencyWeight ?p" "0 < pp_MaxLatencyPenalty ?p"
    by (auto simp: normalizePlacementPolicy_def DefaultPlacementPolicy_def Let_def)
  have "0 \<le> log 2 (real (unat v) / real (unat fastest))" if "0 < fastest" "fastest < v" for v
    using that by (simp add: word_less_nat_alt del: of_nat_unat)
  then show ?thesis using pos by (auto simp: historicalLatency_def simp del: of_nat_unat split: option.splits)
qed

lemma nodeCapacity_pos: "0 < nodeCapacity node"
  by (simp add: nodeCapacity_def)

lemma score_range:
  assumes "eligibleNode L now r owner node"
    and nonneg: "0 \<le> cap_Running (node_Capabilities node)" "0 \<le> cap_QueueDepth (node_Capabilities node)"
      "0 \<le> cap_AdapterBusy (node_Capabilities node)"
    and busy: "cap_AdapterBusy (node_Capabilities node) \<le> cap_AdapterEndpoints (node_Capabilities node)"
    and sc_def: "sc = scoreComponents L now (normalizePlacementPolicy p) fastest r e health perf node"
  shows "- 58 \<le> totalScore sc"
    and "totalScore sc < 197 + 20 * real_of_int (cap_QueueDepth (node_Capabilities node)) + pp_MaxLatencyPenalty (normalizePlacementPolicy p)"
proof -
  let ?c = "node_Capabilities node"
  have cap: "1 \<le> nodeCapacity node" using nodeCapacity_pos [of node] by linarith
  have active: "0 \<le> sc_ActiveLoad sc \<and> sc_ActiveLoad sc < 60"
    using assms(1) nonneg(1) cap by (simp add: sc_def scoreComponents_def eligibleNode_def Let_def divide_simps)
  have "real_of_int (cap_QueueDepth ?c) / real_of_int (nodeCapacity node) * 20 \<le> real_of_int (cap_QueueDepth ?c) / 1 * 20"
    by (rule mult_right_mono [OF divide_left_mono]) (use cap nonneg(2) in auto)
  then have queue: "0 \<le> sc_QueueDepth sc \<and> sc_QueueDepth sc \<le> 20 * real_of_int (cap_QueueDepth ?c)"
    using nonneg(2) cap by (simp add: sc_def scoreComponents_def Let_def mult.commute)
  have adapter: "0 \<le> sc_AdapterPressure sc \<and> sc_AdapterPressure sc \<le> 40"
    using nonneg(3) busy by (simp add: sc_def scoreComponents_def Let_def divide_le_eq)
  have hints: "0 \<le> sc_MemoryPressure sc \<and> sc_MemoryPressure sc \<le> 10" "0 \<le> sc_CPUPressure sc \<and> sc_CPUPressure sc \<le> 10"
    "0 \<le> sc_GPUPressure sc \<and> sc_GPUPressure sc \<le> 15" "- 12 \<le> sc_VRAMHeadroom sc \<and> sc_VRAMHeadroom sc \<le> 0"
    using boundedMemoryPressure_range [of "cap_MemoryFree ?c" "cap_MemoryTotal ?c"] boundedUtilization_range [of "cap_CPUUtilization ?c"]
      bestGPUUtilization_range [of node "placementVRAM r e"] bestVRAMHeadroom_range [of node "placementVRAM r e"]
    by (simp_all add: sc_def scoreComponents_def Let_def)
  have fit: "- 6 \<le> sc_LoadedModel sc \<and> sc_LoadedModel sc \<le> 0" "- 10 \<le> sc_EstimatedVRAMFit sc \<and> sc_EstimatedVRAMFit sc \<le> 8"
    "- 30 \<le> sc_PreferredNode sc \<and> sc_PreferredNode sc \<le> 0" "0 \<le> sc_RecentFailures sc \<and> sc_RecentFailures sc \<le> 54"
    "0 \<le> sc_HistoricalLatency sc \<and> sc_HistoricalLatency sc \<le> pp_MaxLatencyPenalty (normalizePlacementPolicy p)"
    using preferredWeight_range [of node 0 "req_PreferredNodes r"] recentFailures_range [of now health] historicalLatency_range [of p fastest perf]
    by (simp_all add: sc_def scoreComponents_def Let_def)
  from active queue adapter hints fit show "- 58 \<le> totalScore sc" unfolding totalScore_def by linarith
  from active queue adapter hints fit
  show "totalScore sc < 197 + 20 * real_of_int (cap_QueueDepth ?c) + pp_MaxLatencyPenalty (normalizePlacementPolicy p)"
    unfolding totalScore_def by linarith
qed

section \<open>Witnesses\<close>

definition idleWorker :: node where
  "idleWorker = zeroNode\<lparr>node_ID := ''b'', node_Connected := True, node_LastSeen := 100\<rparr>"

definition drainingWorker :: node where
  "drainingWorker = zeroNode\<lparr>node_ID := ''a'', node_Connected := True, node_Draining := True, node_LastSeen := 100\<rparr>"

lemma idle_eligible: "eligibleNode plainLib 100 zeroRequirements [] idleWorker"
proof -
  have "matchesNode plainLib idleWorker zeroRequirements"
    by (simp add: matchesNode_def matchesSession_def matchesModel_def needsAdapterSession_def adapterSlotsBusy_def explicitModel_def
        zeroRequirements_def equalFold_ascii asciiLower_def Let_def)
  moreover have "routingHealthForOwnerAt plainLib idleWorker zeroRequirements [] 100 = None"
    by (simp add: routingHealthForOwnerAt_def idleWorker_def zeroNode_def)
  moreover have "nonNegativeAge 100 (node_LastSeen idleWorker) \<le> NodeFreshnessWindow"
    by (simp add: idleWorker_def nonNegativeAge_def NodeFreshnessWindow_def timeSub_def second_def millisecond_def)
  moreover have "cap_Running (node_Capabilities idleWorker) < nodeCapacity idleWorker"
    by (simp add: idleWorker_def zeroNode_def zeroCapabilities_def nodeCapacity_def)
  moreover have "node_Connected idleWorker \<and> \<not> node_Draining idleWorker" by (simp add: idleWorker_def zeroNode_def)
  ultimately show ?thesis unfolding eligibleNode_def by simp
qed

lemma draining_rejected: "\<not> eligibleNode plainLib 100 zeroRequirements [] drainingWorker"
  by (simp add: eligibleNode_def drainingWorker_def)

lemma witness_ranking:
  assumes "rankWithDecisionForOwnerPolicy plainLib [drainingWorker, idleWorker] zeroRequirements 0 [] 100 DefaultPlacementPolicy = (cands, d)"
  shows "\<exists>c. cands = [c]"
  using ranking_candidates [OF assms] idle_eligible draining_rejected by (cases cands) auto

theorem ranking_selects_eligible_witness:
  "dec_SelectedNodeID (snd (rankWithDecisionForOwnerPolicy plainLib [drainingWorker, idleWorker] zeroRequirements 0 [] 100 DefaultPlacementPolicy)) = ''b''"
proof -
  obtain cands d where eq: "rankWithDecisionForOwnerPolicy plainLib [drainingWorker, idleWorker] zeroRequirements 0 [] 100 DefaultPlacementPolicy = (cands, d)"
    by fastforce
  from ranking_selects_eligible [OF eq] idle_eligible draining_rejected have "dec_SelectedNodeID d = node_ID idleWorker"
    by (auto split: if_splits)
  with eq show ?thesis by (simp add: idleWorker_def)
qed

theorem ranking_ordered_by_score_witness:
  "\<exists>cands d. rankWithDecisionForOwnerPolicy plainLib [drainingWorker, idleWorker] zeroRequirements 0 [] 100 DefaultPlacementPolicy = (cands, d)
     \<and> cands \<noteq> [] \<and> (\<forall>c \<in> set cands. cd_Score (hd cands) \<le> cd_Score c)"
proof -
  obtain cands d where eq: "rankWithDecisionForOwnerPolicy plainLib [drainingWorker, idleWorker] zeroRequirements 0 [] 100 DefaultPlacementPolicy = (cands, d)"
    by fastforce
  from witness_ranking [OF eq] obtain c where c: "cands = [c]" by blast
  from ranking_ordered_by_score [OF eq] c have "\<forall>c \<in> set cands. cd_Score (hd cands) \<le> cd_Score c" by simp
  with eq c show ?thesis by blast
qed

end
