(* ===== verification/Pipeline_Graph.thy ===== *)
theory Pipeline_Graph
  imports Store_State
begin

text \<open>
  The plan of a configured pipeline (\<open>internal/cluster/pipeline_graph.go\<close>). A linear pipeline runs in
  declaration order; a graph is checked (names, fan, edges, placeholders) and cut into layers, each layer
  the steps whose dependencies all lie in earlier ones. The index maps, the two counters per step and the
  layer loop are those of \<open>PlanPipelineGraph\<close>; the loop is total because every round places at
  least one step or stops.
\<close>

section \<open>Pipelines\<close>

record pipelineStep =
  step_Name :: string
  step_DependsOn :: "string list"
  step_Route :: string
  step_Requirements :: requirements
  step_Input :: string
  step_OutputMode :: string
  step_Retries :: int
  step_TimeoutSeconds :: int
  step_ContinuePath :: string
  step_ContinueEquals :: string
  step_MaxIterations :: int

record pipeline =
  pl_Mode :: string
  pl_MaxParallel :: int
  pl_MaxRuntimeSeconds :: int
  pl_MaxIterations :: int
  pl_TenantID :: string
  pl_Steps :: "pipelineStep list"

record pipelineGraphPlan =
  plan_Mode :: string
  plan_MaxParallel :: int
  plan_EdgeCount :: int
  plan_Order :: "string list"
  plan_Layers :: "string list list"

definition PipelineModeLinear :: string where "PipelineModeLinear = ''linear''"
definition PipelineModeDAG :: string where "PipelineModeDAG = ''dag''"
definition MaximumPipelineParallelism :: int where "MaximumPipelineParallelism = 16"
definition MaximumPipelineDependencyFan :: nat where "MaximumPipelineDependencyFan = 32"
definition MaximumPipelineDependencyEdges :: int where "MaximumPipelineDependencyEdges = 1024"

definition EffectivePipelineMode :: "goLib \<Rightarrow> pipeline \<Rightarrow> string" where
  "EffectivePipelineMode L pipeline =
     (let mode = toLower L (trimSpace (pl_Mode pipeline)) in if mode = [] then PipelineModeLinear else mode)"

section \<open>Placeholders\<close>

text \<open>\<open>strings.Index(s, "${")\<close> with the text after it, and the text up to and after the next
  \<open>'}'\<close>.\<close>

fun afterOpen :: "string \<Rightarrow> string option" where
  "afterOpen (a # b # rest) = (if a = CHR ''$'' \<and> b = CHR ''{'' then Some rest else afterOpen (b # rest))"
| "afterOpen _ = None"

fun splitClose :: "string \<Rightarrow> (string \<times> string) option" where
  "splitClose [] = None"
| "splitClose (c # cs) = (if c = CHR ''}'' then Some ([], cs) else map_option (\<lambda>(key, rest). (c # key, rest)) (splitClose cs))"

lemma afterOpen_shorter: "afterOpen s = Some t \<Longrightarrow> length t < length s"
  by (induction s rule: afterOpen.induct) (auto split: if_splits)

lemma splitClose_shorter: "splitClose s = Some (key, rest) \<Longrightarrow> length rest < length s"
  by (induction s arbitrary: key) (fastforce split: if_splits)+

definition hasSuffix :: "string \<Rightarrow> string \<Rightarrow> bool" where "hasSuffix s t = suffix t s"

definition trimSuffix :: "string \<Rightarrow> string \<Rightarrow> string" where
  "trimSuffix s t = (if hasSuffix s t then take (length s - length t) s else s)"

definition checkPlaceholder :: "pipelineStep \<Rightarrow> string set \<Rightarrow> string \<Rightarrow> unit result" where
  "checkPlaceholder step dependencies key =
     (if key = ''input'' then Inr ()
      else if key = ''previous'' then Inl (ErrText (''DAG step '' @ step_Name step @ '' input must not reference previous''))
      else if \<not> hasPrefix key ''steps.'' \<or> \<not> hasSuffix key ''.output''
      then Inl (ErrText (''DAG step '' @ step_Name step @ '' input contains unsupported placeholder '' @ key))
      else let dependency = trimSuffix (trimPrefix key ''steps.'') ''.output'' in
           failWhen (dependency \<notin> dependencies)
             (ErrText (''DAG step '' @ step_Name step @ '' input references '' @ dependency @ '' without a direct dependency'')))"

function templateLoop :: "pipelineStep \<Rightarrow> string set \<Rightarrow> string \<Rightarrow> unit result" where
  "templateLoop step dependencies template =
     (case afterOpen template of
        None \<Rightarrow> Inr ()
      | Some template' \<Rightarrow>
          (case splitClose template' of
             None \<Rightarrow> Inl (ErrText (''DAG step '' @ step_Name step @ '' input contains an unresolved placeholder''))
           | Some (key, rest) \<Rightarrow>
               (case checkPlaceholder step dependencies key of
                  Inl e \<Rightarrow> Inl e
                | Inr _ \<Rightarrow> templateLoop step dependencies rest)))"
  by pat_completeness auto
termination
  by (relation "measure (\<lambda>(_, _, template). length template)")
    (auto dest!: afterOpen_shorter splitClose_shorter)

declare templateLoop.simps [simp del]

definition validateDAGTemplate :: "pipelineStep \<Rightarrow> string set \<Rightarrow> unit result" where
  "validateDAGTemplate step dependencies =
     (let template = trimSpace (step_Input step) in
      if template = [] then Inl (ErrText (''DAG step '' @ step_Name step @ '' must set input explicitly; implicit previous is unavailable''))
      else templateLoop step dependencies template)"

section \<open>The checks of a graph\<close>

definition ordinaryStep :: "pipelineStep \<Rightarrow> bool" where
  "ordinaryStep step \<longleftrightarrow> \<not> (step_MaxIterations step \<noteq> 0 \<or> trimSpace (step_ContinuePath step) \<noteq> [] \<or> trimSpace (step_ContinueEquals step) \<noteq> [])"

fun indexLoop :: "nat \<Rightarrow> pipelineStep list \<Rightarrow> (string \<rightharpoonup> nat) \<Rightarrow> (string \<rightharpoonup> nat) result" where
  "indexLoop index [] indexByName = Inr indexByName"
| "indexLoop index (step # steps) indexByName =
     (let name = trimSpace (step_Name step) in
      bindE (failWhen (name = []) (ErrText ''DAG pipeline contains an empty step name'')) (\<lambda>_.
      bindE (failWhen (indexByName name \<noteq> None) (ErrText (''DAG pipeline repeats step name '' @ name))) (\<lambda>_.
      bindE (failWhen (\<not> ordinaryStep step) (ErrText (''DAG step '' @ name @ '' must not use iteration or continue fields''))) (\<lambda>_.
      indexLoop (Suc index) steps (indexByName(name \<mapsto> index))))))"

record edgeState =
  es_indegree :: "int list"
  es_children :: "nat list list"
  es_edges :: int

definition addEdge :: "nat \<Rightarrow> nat \<Rightarrow> edgeState \<Rightarrow> edgeState" where
  "addEdge index dependencyIndex es =
     es\<lparr>es_indegree := (es_indegree es)[index := es_indegree es ! index + 1],
        es_children := (es_children es)[dependencyIndex := es_children es ! dependencyIndex @ [index]],
        es_edges := es_edges es + 1\<rparr>"

fun dependencyLoop ::
  "(string \<rightharpoonup> nat) \<Rightarrow> pipelineStep \<Rightarrow> nat \<Rightarrow> string list \<Rightarrow> string set \<Rightarrow> edgeState \<Rightarrow> (string set \<times> edgeState) result" where
  "dependencyLoop indexByName step index [] seen es = Inr (seen, es)"
| "dependencyLoop indexByName step index (raw # rest) seen es =
     (let dependency = trimSpace raw in
      case indexByName dependency of
        None \<Rightarrow> Inl (ErrText (''DAG step '' @ step_Name step @ '' references unknown dependency '' @ dependency))
      | Some dependencyIndex \<Rightarrow>
          bindE (failWhen (dependencyIndex = index) (ErrText (''DAG step '' @ step_Name step @ '' depends on itself''))) (\<lambda>_.
          bindE (failWhen (dependency \<in> seen) (ErrText (''DAG step '' @ step_Name step @ '' repeats dependency '' @ dependency))) (\<lambda>_.
          (let es = addEdge index dependencyIndex es in
           bindE (failWhen (es_edges es > MaximumPipelineDependencyEdges) (ErrText ''DAG has more than 1024 dependency edges'')) (\<lambda>_.
           bindE (failWhen (length (es_children es ! dependencyIndex) > MaximumPipelineDependencyFan)
             (ErrText (''DAG step '' @ dependency @ '' has more than 32 dependants''))) (\<lambda>_.
           dependencyLoop indexByName step index rest (insert dependency seen) es))))))"

fun edgeLoop :: "(string \<rightharpoonup> nat) \<Rightarrow> nat \<Rightarrow> pipelineStep list \<Rightarrow> edgeState \<Rightarrow> edgeState result" where
  "edgeLoop indexByName index [] es = Inr es"
| "edgeLoop indexByName index (step # steps) es =
     bindE (failWhen (length (step_DependsOn step) > MaximumPipelineDependencyFan)
       (ErrText (''DAG step '' @ step_Name step @ '' has more than 32 dependencies''))) (\<lambda>_.
     bindE (dependencyLoop indexByName step index (step_DependsOn step) {} es) (\<lambda>(seen, es).
     bindE (validateDAGTemplate step seen) (\<lambda>_.
     edgeLoop indexByName (Suc index) steps es)))"

section \<open>Layers\<close>

definition releaseChildren :: "nat list list \<Rightarrow> nat \<Rightarrow> int list \<Rightarrow> int list" where
  "releaseChildren children index remaining = fold (\<lambda>child r. r[child := r ! child - 1]) (children ! index) remaining"

lemma round_progress: "a < n \<Longrightarrow> xs \<noteq> [] \<Longrightarrow> n - (a + length xs) < n - (a :: nat)"
  by (cases xs) auto

function layerLoop ::
  "pipelineStep list \<Rightarrow> nat list list \<Rightarrow> bool list \<Rightarrow> int list \<Rightarrow> string list \<Rightarrow> string list list \<Rightarrow> (string list \<times> string list list) result" where
  "layerLoop steps children processed remaining order layers =
     (if length order < length steps
      then let ready = filter (\<lambda>index. \<not> processed ! index \<and> remaining ! index = 0) [0..<length steps] in
           if ready = [] then Inl (ErrText ''DAG contains a dependency cycle'')
           else let layer = map (\<lambda>index. step_Name (steps ! index)) ready in
                layerLoop steps children (fold (\<lambda>index p. p[index := True]) ready processed)
                  (fold (releaseChildren children) ready remaining) (order @ layer) (layers @ [layer])
      else Inr (order, layers))"
  by pat_completeness auto
termination
  by (relation "measure (\<lambda>(steps, _, _, _, order, _). length steps - length order)") (auto simp: Let_def intro: round_progress)

declare layerLoop.simps [simp del]

definition dagEdges :: "pipelineStep list \<Rightarrow> edgeState result" where
  "dagEdges steps =
     bindE (indexLoop 0 steps Map.empty) (\<lambda>indexByName.
     edgeLoop indexByName 0 steps \<lparr>es_indegree = replicate (length steps) 0, es_children = replicate (length steps) [], es_edges = 0\<rparr>)"

definition planDAG :: "pipeline \<Rightarrow> pipelineGraphPlan result" where
  "planDAG pl =
     (let steps = pl_Steps pl in
      bindE (dagEdges steps) (\<lambda>es.
      bindE (layerLoop steps (es_children es) (replicate (length steps) False) (es_indegree es) [] []) (\<lambda>(order, layers).
      Inr \<lparr>plan_Mode = PipelineModeDAG, plan_MaxParallel = pl_MaxParallel pl, plan_EdgeCount = es_edges es,
           plan_Order = order, plan_Layers = layers\<rparr>)))"

fun linearLoop :: "pipelineStep list \<Rightarrow> pipelineGraphPlan \<Rightarrow> pipelineGraphPlan result" where
  "linearLoop [] plan = Inr plan"
| "linearLoop (step # steps) plan =
     bindE (failWhen (step_DependsOn step \<noteq> []) (ErrText (''linear pipeline step '' @ step_Name step @ '' must not set depends_on''))) (\<lambda>_.
     linearLoop steps (plan\<lparr>plan_Order := plan_Order plan @ [step_Name step], plan_Layers := plan_Layers plan @ [[step_Name step]]\<rparr>))"

definition PlanPipelineGraph :: "goLib \<Rightarrow> pipeline \<Rightarrow> pipelineGraphPlan result" where
  "PlanPipelineGraph L pl =
     (let mode = EffectivePipelineMode L pl in
      bindE (failWhen (mode \<noteq> PipelineModeLinear \<and> mode \<noteq> PipelineModeDAG) (ErrText ''pipeline mode must be \"linear\" or \"dag\"'')) (\<lambda>_.
      bindE (failWhen (pl_Steps pl = []) (ErrText ''pipeline requires at least one step'')) (\<lambda>_.
      if mode = PipelineModeLinear
      then bindE (failWhen (pl_MaxParallel pl \<noteq> 0) (ErrText ''linear pipeline must not set max_parallel'')) (\<lambda>_.
           linearLoop (pl_Steps pl) \<lparr>plan_Mode = mode, plan_MaxParallel = 1, plan_EdgeCount = 0, plan_Order = [], plan_Layers = []\<rparr>)
      else bindE (failWhen (pl_MaxParallel pl < 1 \<or> pl_MaxParallel pl > MaximumPipelineParallelism)
             (ErrText ''DAG max_parallel must be between 1 and 16'')) (\<lambda>_.
           bindE (failWhen (pl_MaxIterations pl \<noteq> 0) (ErrText ''DAG pipeline must not set max_iterations'')) (\<lambda>_.
           planDAG pl)))))"

section \<open>The graph behind the counters\<close>

text \<open>The steps that step \<open>i\<close> waits for, read off the declaration.\<close>

definition stepDeps :: "pipelineStep list \<Rightarrow> nat \<Rightarrow> nat set" where
  "stepDeps steps i = {j. j < length steps \<and> trimSpace (step_Name (steps ! j)) \<in> trimSpace ` set (step_DependsOn (steps ! i))}"

definition waitsFor :: "pipelineStep list \<Rightarrow> (nat \<times> nat) set" where
  "waitsFor steps = {(j, i). i < length steps \<and> j \<in> stepDeps steps i}"

lemma indexLoop_spec:
  assumes "indexLoop k steps m = Inr m'"
  shows "\<forall>name i. m' name = Some i \<longleftrightarrow>
      m name = Some i \<or> (k \<le> i \<and> i < k + length steps \<and> trimSpace (step_Name (steps ! (i - k))) = name \<and> m name = None)"
    and "distinct (map (\<lambda>s. trimSpace (step_Name s)) steps)" and "\<forall>s\<in>set steps. trimSpace (step_Name s) \<noteq> [] \<and> ordinaryStep s \<and> m (trimSpace (step_Name s)) = None"
  using assms
proof (induction steps arbitrary: k m)
  case (Cons s steps)
  let ?name = "trimSpace (step_Name s)"
  {
    case 1
    then have rest: "indexLoop (Suc k) steps (m(?name \<mapsto> k)) = Inr m'" and new: "m ?name = None"
      by (auto simp: Let_def result_simps)
    note out = Cons.IH(3) [OF rest]
    show ?case
    proof (intro allI)
      fix name i
      show "m' name = Some i \<longleftrightarrow>
        m name = Some i \<or> (k \<le> i \<and> i < k + length (s # steps) \<and> trimSpace (step_Name ((s # steps) ! (i - k))) = name \<and> m name = None)"
      proof (cases "i \<le> k")
        case True
        then show ?thesis using Cons.IH(1) [OF rest, rule_format, of name i] new by (cases "i = k") auto
      next
        case False
        then obtain d where i: "i = Suc (k + d)" by (metis add_Suc_right less_iff_Suc_add not_le)
        have "name \<noteq> ?name" if "d < length steps" "trimSpace (step_Name (steps ! d)) = name"
          using out that nth_mem by fastforce
        then show ?thesis using Cons.IH(1) [OF rest, rule_format, of name i] new by (auto simp: i)
      qed
    qed
  next
    case 2
    then have rest: "indexLoop (Suc k) steps (m(?name \<mapsto> k)) = Inr m'" by (auto simp: Let_def result_simps)
    then show ?case using Cons.IH(2,3) [OF rest] by auto
  next
    case 3
    then have rest: "indexLoop (Suc k) steps (m(?name \<mapsto> k)) = Inr m'" and "m ?name = None" "?name \<noteq> []" "ordinaryStep s"
      by (auto simp: Let_def result_simps)
    then show ?case using Cons.IH(3) [OF rest] by (auto split: if_splits)
  }
qed auto

text \<open>The counters and child lists of a graph whose step \<open>i\<close> waits for \<open>D i\<close>.\<close>

definition edgesOf :: "nat \<Rightarrow> (nat \<Rightarrow> nat set) \<Rightarrow> edgeState \<Rightarrow> bool" where
  "edgesOf n D es \<longleftrightarrow> length (es_indegree es) = n \<and> length (es_children es) = n
     \<and> (\<forall>i<n. finite (D i) \<and> es_indegree es ! i = int (card (D i)))
     \<and> (\<forall>j<n. distinct (es_children es ! j) \<and> set (es_children es ! j) = {i. i < n \<and> j \<in> D i})
     \<and> es_edges es = (\<Sum>i<n. int (card (D i)))"

lemma edgesOf_addEdge:
  assumes "edgesOf n D es" and "i < n" and "j < n" and "j \<notin> D i"
  shows "edgesOf n (D(i := insert j (D i))) (addEdge i j es)"
proof -
  have sum: "(\<Sum>k<n. int (card ((D(i := insert j (D i))) k))) = (\<Sum>k<n. int (card (D k))) + 1"
  proof -
    have "(\<Sum>k<n. int (card ((D(i := insert j (D i))) k))) = (\<Sum>k\<in>{..<n} - {i}. int (card (D k))) + int (card (insert j (D i)))"
      using assms(2) by (subst sum.remove [of _ i]) (auto intro: sum.cong)
    also have "int (card (insert j (D i))) = int (card (D i)) + 1" using assms by (simp add: edgesOf_def)
    finally show ?thesis using assms(2) by (simp add: sum.remove [of "{..<n}" i])
  qed
  have ch: "distinct (es_children (addEdge i j es) ! k) \<and> set (es_children (addEdge i j es) ! k) = {x. x < n \<and> k \<in> (D(i := insert j (D i))) x}"
    if "k < n" for k
    using assms that by (cases "k = j") (auto simp: edgesOf_def addEdge_def)
  show ?thesis using assms sum ch unfolding edgesOf_def
    by (auto simp: addEdge_def nth_list_update)
qed

definition edgeLimits :: "edgeState \<Rightarrow> bool" where
  "edgeLimits es \<longleftrightarrow> es_edges es \<le> MaximumPipelineDependencyEdges
     \<and> list_all (\<lambda>c. length c \<le> MaximumPipelineDependencyFan) (es_children es)"

lemma edgeLimits_addEdge:
  assumes "edgeLimits es" and "es_edges (addEdge i j es) \<le> MaximumPipelineDependencyEdges"
    and "length (es_children (addEdge i j es) ! j) \<le> MaximumPipelineDependencyFan"
  shows "edgeLimits (addEdge i j es)"
  using assms by (cases "j < length (es_children es)") (auto simp: edgeLimits_def addEdge_def list_all_length nth_list_update)

lemma dependencyLoop_spec:
  assumes "dependencyLoop m step i raws seen es = Inr (seen', es')"
    and "edgesOf n D es" and "edgeLimits es" and D: "D i = {k. \<exists>name\<in>seen. m name = Some k}" and i: "i < n"
    and m: "\<forall>name k. m name = Some k \<longrightarrow> k < n" and inj: "\<forall>a b k. m a = Some k \<longrightarrow> m b = Some k \<longrightarrow> a = b"
  shows "seen' = seen \<union> trimSpace ` set raws \<and> seen \<inter> trimSpace ` set raws = {} \<and> distinct (map trimSpace raws)
    \<and> (\<forall>raw\<in>set raws. m (trimSpace raw) \<noteq> None \<and> m (trimSpace raw) \<noteq> Some i)
    \<and> edgesOf n (D(i := {k. \<exists>name\<in>seen'. m name = Some k})) es' \<and> edgeLimits es'"
  using assms(1-4)
proof (induction raws arbitrary: seen es D)
  case Nil
  then have "D(i := {k. \<exists>name\<in>seen. m name = Some k}) = D" by (intro fun_upd_idem)
  then show ?case using Nil by simp
next
  case (Cons raw raws)
  let ?d = "trimSpace raw"
  from Cons.prems(1) obtain j where j: "m ?d = Some j" "j \<noteq> i" "?d \<notin> seen"
    and lim: "es_edges (addEdge i j es) \<le> MaximumPipelineDependencyEdges" "length (es_children (addEdge i j es) ! j) \<le> MaximumPipelineDependencyFan"
    and rest: "dependencyLoop m step i raws (insert ?d seen) (addEdge i j es) = Inr (seen', es')"
    by (auto simp: Let_def result_simps split: option.splits)
  have "j \<notin> D i" using j inj Cons.prems(4) by auto
  moreover have "j < n" using m j by blast
  ultimately have e: "edgesOf n (D(i := insert j (D i))) (addEdge i j es)" using edgesOf_addEdge Cons.prems(2) i by blast
  have l: "edgeLimits (addEdge i j es)" using edgeLimits_addEdge Cons.prems(3) lim by blast
  have d: "(D(i := insert j (D i))) i = {k. \<exists>name\<in>insert ?d seen. m name = Some k}" using j Cons.prems(4) by auto
  have upd: "(D(i := insert j (D i)))(i := x) = D(i := x)" for x by simp
  note ih = Cons.IH [OF rest e l d, unfolded upd]
  have "seen' = seen \<union> trimSpace ` set (raw # raws) \<and> seen \<inter> trimSpace ` set (raw # raws) = {} \<and> distinct (map trimSpace (raw # raws))
    \<and> (\<forall>r\<in>set (raw # raws). m (trimSpace r) \<noteq> None \<and> m (trimSpace r) \<noteq> Some i)" using ih j by auto
  with ih show ?case by blast
qed

lemma edgeLoop_spec:
  assumes "edgeLoop m k steps es = Inr es'" and "edgesOf n D es" and "edgeLimits es" and "k + length steps = n"
    and m: "\<forall>name i. m name = Some i \<longrightarrow> i < n" and inj: "\<forall>a b i. m a = Some i \<longrightarrow> m b = Some i \<longrightarrow> a = b"
    and "\<forall>i. k \<le> i \<longrightarrow> D i = {}"
  shows "edgesOf n (\<lambda>i. if k \<le> i \<and> i < n then {j. \<exists>raw\<in>set (step_DependsOn (steps ! (i - k))). m (trimSpace raw) = Some j} else D i) es'
    \<and> edgeLimits es'
    \<and> (\<forall>i<length steps. length (step_DependsOn (steps ! i)) \<le> MaximumPipelineDependencyFan \<and> distinct (map trimSpace (step_DependsOn (steps ! i)))
        \<and> (\<forall>raw\<in>set (step_DependsOn (steps ! i)). m (trimSpace raw) \<noteq> None \<and> m (trimSpace raw) \<noteq> Some (k + i)))"
  using assms(1-4,7)
proof (induction steps arbitrary: k es D)
  case Nil
  then have "(\<lambda>i. if k \<le> i \<and> i < n then {j. \<exists>raw\<in>set (step_DependsOn ([] ! (i - k))). m (trimSpace raw) = Some j} else D i) = D"
    using Nil.prems(4) by (intro ext) auto
  then show ?case using Nil.prems(1-3) by (metis edgeLoop.simps(1) length_0_conv less_nat_zero_code list.size(3) sum.inject(2))
next
  case (Cons s steps)
  from Cons.prems(1) obtain seen es1 where fan: "length (step_DependsOn s) \<le> MaximumPipelineDependencyFan"
    and dep: "dependencyLoop m s k (step_DependsOn s) {} es = Inr (seen, es1)" and rest: "edgeLoop m (Suc k) steps es1 = Inr es'"
    by (auto simp: result_simps)
  have kn: "k < n" using Cons.prems(4) by simp
  have "D k = {j. \<exists>name\<in>{}. m name = Some j}" using Cons.prems(5) by simp
  note one = dependencyLoop_spec [OF dep Cons.prems(2,3) this kn m inj]
  let ?D = "D(k := {j. \<exists>name\<in>seen. m name = Some j})"
  have later: "\<forall>i. Suc k \<le> i \<longrightarrow> ?D i = {}" using Cons.prems(5) by simp
  have len: "Suc k + length steps = n" using Cons.prems(4) by simp
  have "edgesOf n ?D es1" "edgeLimits es1" using one by blast+
  from Cons.IH [OF rest this len later] have ih:
    "edgesOf n (\<lambda>i. if Suc k \<le> i \<and> i < n then {j. \<exists>raw\<in>set (step_DependsOn (steps ! (i - Suc k))). m (trimSpace raw) = Some j} else ?D i) es'"
    "edgeLimits es'"
    "\<forall>i<length steps. length (step_DependsOn (steps ! i)) \<le> MaximumPipelineDependencyFan \<and> distinct (map trimSpace (step_DependsOn (steps ! i)))
        \<and> (\<forall>raw\<in>set (step_DependsOn (steps ! i)). m (trimSpace raw) \<noteq> None \<and> m (trimSpace raw) \<noteq> Some (Suc k + i))"
    by blast+
  have "(\<lambda>i. if Suc k \<le> i \<and> i < n then {j. \<exists>raw\<in>set (step_DependsOn (steps ! (i - Suc k))). m (trimSpace raw) = Some j} else ?D i)
      = (\<lambda>i. if k \<le> i \<and> i < n then {j. \<exists>raw\<in>set (step_DependsOn ((s # steps) ! (i - k))). m (trimSpace raw) = Some j} else D i)"
  proof
    fix i
    show "(if Suc k \<le> i \<and> i < n then {j. \<exists>raw\<in>set (step_DependsOn (steps ! (i - Suc k))). m (trimSpace raw) = Some j} else ?D i)
      = (if k \<le> i \<and> i < n then {j. \<exists>raw\<in>set (step_DependsOn ((s # steps) ! (i - k))). m (trimSpace raw) = Some j} else D i)"
      using one kn by (cases "i = k") (auto simp: nth_Cons' Suc_le_eq)
  qed
  with ih(1,2) have "edgesOf n (\<lambda>i. if k \<le> i \<and> i < n then {j. \<exists>raw\<in>set (step_DependsOn ((s # steps) ! (i - k))). m (trimSpace raw) = Some j} else D i) es'
    \<and> edgeLimits es'" by simp
  moreover have "\<forall>i<length (s # steps). length (step_DependsOn ((s # steps) ! i)) \<le> MaximumPipelineDependencyFan
      \<and> distinct (map trimSpace (step_DependsOn ((s # steps) ! i)))
      \<and> (\<forall>raw\<in>set (step_DependsOn ((s # steps) ! i)). m (trimSpace raw) \<noteq> None \<and> m (trimSpace raw) \<noteq> Some (k + i))"
    using ih(3) one fan by (auto simp: less_Suc_eq_0_disj)
  ultimately show ?case by blast
qed

text \<open>What the checks guarantee: the counters are those of the declared graph, and every limit holds.\<close>

lemma dagEdges_spec:
  assumes "dagEdges steps = Inr es"
  shows "edgesOf (length steps) (stepDeps steps) es \<and> edgeLimits es \<and> distinct (map (\<lambda>s. trimSpace (step_Name s)) steps)
    \<and> (\<forall>i<length steps. trimSpace (step_Name (steps ! i)) \<noteq> [] \<and> i \<notin> stepDeps steps i
        \<and> length (step_DependsOn (steps ! i)) \<le> MaximumPipelineDependencyFan \<and> distinct (map trimSpace (step_DependsOn (steps ! i)))
        \<and> trimSpace ` set (step_DependsOn (steps ! i)) \<subseteq> (\<lambda>s. trimSpace (step_Name s)) ` set steps)"
proof -
  let ?n = "length steps"
  let ?es = "\<lparr>es_indegree = replicate ?n 0, es_children = replicate ?n [], es_edges = 0\<rparr>"
  from assms obtain m where ix: "indexLoop 0 steps Map.empty = Inr m" and loop: "edgeLoop m 0 steps ?es = Inr es"
    by (auto simp: dagEdges_def bindE_eq_Inr)
  have m: "m name = Some i \<longleftrightarrow> i < ?n \<and> trimSpace (step_Name (steps ! i)) = name" for name i
    using indexLoop_spec(1) [OF ix] by simp
  note names = indexLoop_spec(2,3) [OF ix]
  have e0: "edgesOf ?n (\<lambda>_. {}) ?es" by (simp add: edgesOf_def)
  have l0: "edgeLimits ?es" by (simp add: edgeLimits_def MaximumPipelineDependencyEdges_def list_all_iff)
  have m': "\<forall>name i. m name = Some i \<longrightarrow> i < ?n" "\<forall>a b i. m a = Some i \<longrightarrow> m b = Some i \<longrightarrow> a = b" by (auto simp: m)
  have same: "{j. \<exists>raw\<in>set (step_DependsOn (steps ! i)). m (trimSpace raw) = Some j} = stepDeps steps i" for i
    by (auto simp: stepDeps_def m image_iff)
  have "0 + ?n = ?n" "\<forall>i\<ge>0. ({} :: nat set) = {}" for i :: nat by simp_all
  from edgeLoop_spec [OF loop e0 l0 this(1) m' this(2)] have
    "edgesOf ?n (\<lambda>i. if 0 \<le> i \<and> i < ?n then {j. \<exists>raw\<in>set (step_DependsOn (steps ! (i - 0))). m (trimSpace raw) = Some j} else {}) es"
    and lim: "edgeLimits es"
    and each: "\<forall>i<?n. length (step_DependsOn (steps ! i)) \<le> MaximumPipelineDependencyFan \<and> distinct (map trimSpace (step_DependsOn (steps ! i)))
        \<and> (\<forall>raw\<in>set (step_DependsOn (steps ! i)). m (trimSpace raw) \<noteq> None \<and> m (trimSpace raw) \<noteq> Some (0 + i))"
    by blast+
  then have sp: "edgesOf ?n (\<lambda>i. if 0 \<le> i \<and> i < ?n then stepDeps steps i else {}) es" unfolding diff_zero same by simp
  have "edgesOf ?n (stepDeps steps) es" using sp unfolding edgesOf_def by (simp cong: conj_cong)
  moreover have "i \<notin> stepDeps steps i" if "i < ?n" for i using each that unfolding same [symmetric] by auto
  moreover have "trimSpace ` set (step_DependsOn (steps ! i)) \<subseteq> (\<lambda>s. trimSpace (step_Name s)) ` set steps" if i: "i < ?n" for i
  proof
    fix d assume "d \<in> trimSpace ` set (step_DependsOn (steps ! i))"
    then obtain j where "m d = Some j" using each i by auto
    then show "d \<in> (\<lambda>s. trimSpace (step_Name s)) ` set steps" unfolding m by force
  qed
  ultimately show ?thesis using lim each names by auto
qed

section \<open>The layers\<close>

lemma nth_update_at: "j < length xs \<Longrightarrow> xs[a := v] ! j = (if a = j then v else xs ! j)"
  by (cases "a = j") auto

lemma mark_nth: "i < length p \<Longrightarrow> fold (\<lambda>index p. p[index := True]) xs p ! i \<longleftrightarrow> p ! i \<or> i \<in> set xs"
  by (induction xs arbitrary: p) (auto simp: nth_update_at)

lemma mark_length [simp]: "length (fold (\<lambda>index p. p[index := True]) xs p) = length p"
  by (induction xs arbitrary: p) auto

lemma release_length [simp]: "length (releaseChildren children index remaining) = length remaining"
proof -
  have "length (fold (\<lambda>child r. r[child := r ! child - 1]) cs r) = length r" for cs and r :: "int list"
    by (induction cs arbitrary: r) auto
  then show ?thesis by (simp add: releaseChildren_def)
qed

lemma release_nth:
  assumes "distinct (children ! index)" and "i < length remaining"
  shows "releaseChildren children index remaining ! i = remaining ! i - (if i \<in> set (children ! index) then 1 else 0)"
proof -
  have "fold (\<lambda>child r. r[child := r ! child - 1]) cs r ! i = r ! i - (if i \<in> set cs then 1 else 0)"
    if "distinct cs" "i < length r" for cs and r :: "int list"
    using that by (induction cs arbitrary: r) (auto simp: nth_update_at)
  then show ?thesis using assms by (simp add: releaseChildren_def)
qed

lemma release_all_length [simp]: "length (fold (releaseChildren children) ready remaining) = length remaining"
  by (induction ready arbitrary: remaining) auto

lemma release_all_nth:
  assumes "edgesOf n D es" and "distinct ready" and "set ready \<subseteq> {..<n}" and "i < n" and "length remaining = n"
  shows "fold (releaseChildren (es_children es)) ready remaining ! i = remaining ! i - int (card (D i \<inter> set ready))"
  using assms(2,3,5)
proof (induction ready arbitrary: remaining)
  case (Cons j ready)
  have fin: "finite (D i)" and ch: "distinct (es_children es ! j)" "set (es_children es ! j) = {i. i < n \<and> j \<in> D i}"
    using assms(1,4) Cons.prems(2) by (auto simp: edgesOf_def)
  have "card (D i \<inter> set (j # ready)) = card (D i \<inter> set ready) + (if j \<in> D i then 1 else 0)"
    using fin Cons.prems(1) by auto
  moreover have "fold (releaseChildren (es_children es)) (j # ready) remaining ! i
      = releaseChildren (es_children es) j remaining ! i - int (card (D i \<inter> set ready))"
    using Cons.IH [of "releaseChildren (es_children es) j remaining"] Cons.prems by simp
  ultimately show ?case using release_nth [OF ch(1), of i remaining] Cons.prems(3) assms(4) ch(2) by simp
qed simp

text \<open>Each layer holds exactly the steps that are not placed yet and wait only for placed ones.\<close>

definition earliestLayers :: "nat \<Rightarrow> (nat \<Rightarrow> nat set) \<Rightarrow> nat list list \<Rightarrow> bool" where
  "earliestLayers n D ls \<longleftrightarrow> distinct (concat ls) \<and> (\<forall>k<length ls. ls ! k \<noteq> [] \<and>
     set (ls ! k) = {i. i < n \<and> i \<notin> set (concat (take k ls)) \<and> D i \<subseteq> set (concat (take k ls))})"

lemma earliestLayers_snoc:
  assumes "earliestLayers n D ls" and "distinct l" and "l \<noteq> []"
    and "set l = {i. i < n \<and> i \<notin> set (concat ls) \<and> D i \<subseteq> set (concat ls)}"
  shows "earliestLayers n D (ls @ [l])"
proof -
  have "distinct (concat (ls @ [l]))" using assms(1,2,4) by (auto simp: earliestLayers_def)
  moreover have "(ls @ [l]) ! k \<noteq> [] \<and> set ((ls @ [l]) ! k)
      = {i. i < n \<and> i \<notin> set (concat (take k (ls @ [l]))) \<and> D i \<subseteq> set (concat (take k (ls @ [l])))}" if "k < length (ls @ [l])" for k
  proof (cases "k = length ls")
    case True
    then show ?thesis using assms(3,4) by simp
  next
    case False
    then have "k < length ls" using that by simp
    then show ?thesis using assms(1) unfolding earliestLayers_def by (simp add: nth_append)
  qed
  ultimately show ?thesis by (simp add: earliestLayers_def)
qed

lemma layerLoop_spec:
  assumes edges: "edgesOf (length steps) D es" and "\<forall>i<length steps. D i \<subseteq> {..<length steps}"
    and "length processed = length steps" and "length remaining = length steps"
    and "order = map (\<lambda>i. step_Name (steps ! i)) (concat ls)" and "layers = map (map (\<lambda>i. step_Name (steps ! i))) ls"
    and "earliestLayers (length steps) D ls" and "set (concat ls) = {i. i < length steps \<and> processed ! i}"
    and "\<forall>i<length steps. remaining ! i = int (card (D i - set (concat ls)))"
  shows "case layerLoop steps (es_children es) processed remaining order layers of
      Inr (order', layers') \<Rightarrow> \<exists>ls'. order' = concat layers' \<and> layers' = map (map (\<lambda>i. step_Name (steps ! i))) ls'
        \<and> earliestLayers (length steps) D ls' \<and> set (concat ls') = {..<length steps}
    | Inl e \<Rightarrow> e = ErrText ''DAG contains a dependency cycle'' \<and>
        (\<exists>U. U \<noteq> {} \<and> U \<subseteq> {..<length steps} \<and> (\<forall>i\<in>U. D i \<inter> U \<noteq> {}))"
  using assms
proof (induction steps "es_children es" processed remaining order layers arbitrary: ls rule: layerLoop.induct)
  case (1 steps processed remaining order layers)
  let ?n = "length steps" and ?P = "set (concat ls)" and ?name = "\<lambda>i. step_Name (steps ! i)"
  define ready where "ready = filter (\<lambda>index. \<not> processed ! index \<and> remaining ! index = 0) [0..<?n]"
  have fin: "finite (D i)" if "i < ?n" for i using 1(2) that by (simp add: edgesOf_def)
  have rs: "set ready = {i. i < ?n \<and> i \<notin> ?P \<and> D i \<subseteq> ?P}"
    using 1(9,10) fin by (auto simp: ready_def)
  have rd: "distinct ready" by (simp add: ready_def)
  have len: "length order = card ?P" using 1(6,8) distinct_card by (metis earliestLayers_def length_map)
  have P: "?P \<subseteq> {..<?n}" using 1(9) by auto
  show ?case
  proof (cases "length order < ?n")
    case False
    then have "?P = {..<?n}" using P len card_seteq [of "{..<?n}" ?P] by simp
    moreover have "layerLoop steps (es_children es) processed remaining order layers = Inr (order, layers)"
      using False by (subst layerLoop.simps) simp
    moreover have "order = concat layers" using 1(6,7) by (simp add: map_concat)
    ultimately show ?thesis using 1(7,8) by auto
  next
    case less: True
    show ?thesis
    proof (cases "ready = []")
      case True
      then have loop: "layerLoop steps (es_children es) processed remaining order layers = Inl (ErrText ''DAG contains a dependency cycle'')"
        using less by (subst layerLoop.simps) (simp add: ready_def)
      let ?U = "{..<?n} - ?P"
      have "?U \<noteq> {}" using less len P by (metis card_lessThan card_mono finite_set Diff_eq_empty_iff leD)
      moreover have "D i \<inter> ?U \<noteq> {}" if "i \<in> ?U" for i
      proof -
        have "\<not> D i \<subseteq> ?P" using rs True that by auto
        moreover have "D i \<subseteq> {..<?n}" using 1(3) that by blast
        ultimately show ?thesis by blast
      qed
      ultimately have "\<exists>U. U \<noteq> {} \<and> U \<subseteq> {..<?n} \<and> (\<forall>i\<in>U. D i \<inter> U \<noteq> {})" by (intro exI [of _ ?U]) blast
      then show ?thesis unfolding loop by simp
    next
      case False
      define processed' where "processed' = fold (\<lambda>index p. p[index := True]) ready processed"
      define remaining' where "remaining' = fold (releaseChildren (es_children es)) ready remaining"
      have step: "layerLoop steps (es_children es) processed remaining order layers
        = layerLoop steps (es_children es) processed' remaining' (order @ map ?name ready) (layers @ [map ?name ready])"
        using less False by (subst layerLoop.simps) (simp add: ready_def processed'_def remaining'_def Let_def)
      have nonempty: "filter (\<lambda>index. \<not> processed ! index \<and> remaining ! index = 0) [0..<?n] \<noteq> []" using False by (simp add: ready_def)
      have rem: "\<forall>i<?n. remaining' ! i = int (card (D i - set (concat (ls @ [ready]))))"
      proof (intro allI impI)
        fix i assume i: "i < ?n"
        have "D i - set (concat (ls @ [ready])) = (D i - ?P) - (D i \<inter> set ready)" by auto
        moreover have "D i \<inter> set ready \<subseteq> D i - ?P" using rs by auto
        ultimately have "int (card (D i - set (concat (ls @ [ready])))) = int (card (D i - ?P)) - int (card (D i \<inter> set ready))"
          using fin [OF i] by (simp add: card_Diff_subset card_mono finite_Diff finite_Int of_nat_diff)
        moreover have "remaining' ! i = remaining ! i - int (card (D i \<inter> set ready))"
          unfolding remaining'_def by (rule release_all_nth [OF 1(2) rd _ i 1(5)]) (use rs in auto)
        ultimately show "remaining' ! i = int (card (D i - set (concat (ls @ [ready]))))" using 1(10) i by simp
      qed
      have "set (concat (ls @ [ready])) = {i. i < ?n \<and> processed' ! i}"
        using 1(4,9) by (auto simp: processed'_def mark_nth ready_def)
      moreover have "earliestLayers ?n D (ls @ [ready])" by (rule earliestLayers_snoc [OF 1(8) rd False rs])
      moreover have "length processed' = ?n" "length remaining' = ?n" using 1(4,5) by (simp_all add: processed'_def remaining'_def)
      moreover have "order @ map ?name ready = map ?name (concat (ls @ [ready]))" "layers @ [map ?name ready] = map (map ?name) (ls @ [ready])"
        using 1(6,7) by simp_all
      ultimately show ?thesis unfolding step
        using 1(1) [OF less refl nonempty refl, of "ls @ [ready]"] 1(2,3) rem
        unfolding ready_def [symmetric] processed'_def [symmetric] remaining'_def [symmetric] by blast
    qed
  qed
qed

lemma acyclic_layers:
  assumes "earliestLayers n D ls" and "set (concat ls) = {..<n}"
  shows "acyclic {(j, i). i < n \<and> j \<in> D i}"
proof -
  define rank where "rank i = (LEAST k. i \<in> set (concat (take (Suc k) ls)))" for i
  have "rank j < rank i" if "i < n" "j \<in> D i" for i j
  proof -
    have "i \<in> set (concat ls)" using that(1) assms(2) by blast
    then obtain l where "l \<in> set ls" "i \<in> set l" by auto
    then obtain k where k: "k < length ls" "i \<in> set (ls ! k)" by (auto simp: in_set_conv_nth [of l ls])
    then have "i \<in> set (concat (take (Suc k) ls))" by (auto simp: take_Suc_conv_app_nth)
    then have "i \<in> set (concat (take (Suc (rank i)) ls))" unfolding rank_def by (rule LeastI)
    moreover have "rank i \<le> k" unfolding rank_def by (rule Least_le) fact
    then have ri: "rank i < length ls" using k by simp
    moreover have "i \<notin> set (concat (take (rank i) ls))"
    proof (cases "rank i")
      case (Suc r)
      then have "r < rank i" by simp
      then have "i \<notin> set (concat (take (Suc r) ls))" unfolding rank_def by (rule not_less_Least)
      then show ?thesis unfolding Suc .
    qed simp
    ultimately have "i \<in> set (ls ! rank i)" by (auto simp: take_Suc_conv_app_nth)
    then have "j \<in> set (concat (take (rank i) ls))" using assms(1) ri that(2) unfolding earliestLayers_def by blast
    moreover from this obtain r where "rank i = Suc r" by (cases "rank i") auto
    ultimately have "rank j \<le> r" unfolding rank_def [of j] by (intro Least_le) simp
    then show ?thesis using \<open>rank i = Suc r\<close> by simp
  qed
  then have "{(j, i). i < n \<and> j \<in> D i} \<subseteq> measure rank" by auto
  then show ?thesis using wf_acyclic wf_measure wf_subset by metis
qed

lemma closed_set_cyclic:
  assumes "U \<noteq> {}" and "U \<subseteq> {..<n :: nat}" and "\<forall>i\<in>U. D i \<inter> U \<noteq> {}" and "\<forall>i<n. D i \<subseteq> {..<n}"
  shows "\<not> acyclic {(j, i). i < n \<and> j \<in> D i}"
proof
  assume "acyclic {(j, i). i < n \<and> j \<in> D i}"
  moreover have "{(j, i). i < n \<and> j \<in> D i} \<subseteq> {..<n} \<times> {..<n}" using assms(4) by auto
  then have "finite {(j, i). i < n \<and> j \<in> D i}" by (rule finite_subset) simp
  ultimately have wf: "wf {(j, i). i < n \<and> j \<in> D i}" by (rule finite_acyclic_wf [rotated])
  obtain x where "x \<in> U" using assms(1) by blast
  from wfE_min [OF wf this] obtain z where z: "z \<in> U" "\<And>y. (y, z) \<in> {(j, i). i < n \<and> j \<in> D i} \<Longrightarrow> y \<notin> U" by blast
  from z(1) assms(2,3) obtain y where "y \<in> D z" "y \<in> U" "z < n" by blast
  then show False using z(2) by blast
qed

section \<open>Plans\<close>

lemma stepDeps_bound: "\<forall>i<length steps. stepDeps steps i \<subseteq> {..<length steps}"
  by (auto simp: stepDeps_def)

lemma planDAG_cases:
  assumes "dagEdges (pl_Steps pl) = Inr es"
  shows "if acyclic (waitsFor (pl_Steps pl))
    then \<exists>order layers ls. planDAG pl = Inr \<lparr>plan_Mode = PipelineModeDAG, plan_MaxParallel = pl_MaxParallel pl, plan_EdgeCount = es_edges es,
             plan_Order = order, plan_Layers = layers\<rparr>
           \<and> order = concat layers \<and> layers = map (map (\<lambda>i. step_Name (pl_Steps pl ! i))) ls
           \<and> earliestLayers (length (pl_Steps pl)) (stepDeps (pl_Steps pl)) ls \<and> set (concat ls) = {..<length (pl_Steps pl)}
    else planDAG pl = Inl (ErrText ''DAG contains a dependency cycle'')"
proof -
  let ?steps = "pl_Steps pl" let ?n = "length ?steps" let ?D = "stepDeps ?steps"
  let ?run = "layerLoop ?steps (es_children es) (replicate ?n False) (es_indegree es) [] []"
  have edges: "edgesOf ?n ?D es" using dagEdges_spec [OF assms] by blast
  have spec: "case ?run of
      Inr (order', layers') \<Rightarrow> \<exists>ls'. order' = concat layers' \<and> layers' = map (map (\<lambda>i. step_Name (?steps ! i))) ls'
        \<and> earliestLayers ?n ?D ls' \<and> set (concat ls') = {..<?n}
    | Inl e \<Rightarrow> e = ErrText ''DAG contains a dependency cycle'' \<and> (\<exists>U. U \<noteq> {} \<and> U \<subseteq> {..<?n} \<and> (\<forall>i\<in>U. ?D i \<inter> U \<noteq> {}))"
    by (rule layerLoop_spec [OF edges stepDeps_bound, where ls = "[]"]) (use edges in \<open>simp_all add: edgesOf_def earliestLayers_def\<close>)
  have rel: "waitsFor ?steps = {(j, i). i < ?n \<and> j \<in> ?D i}" by (simp add: waitsFor_def)
  show ?thesis
  proof (cases ?run)
    case (Inl e)
    with spec have "\<not> acyclic (waitsFor ?steps)" "e = ErrText ''DAG contains a dependency cycle''"
      unfolding rel using closed_set_cyclic [OF _ _ _ stepDeps_bound] by auto
    then show ?thesis using Inl assms by (simp add: planDAG_def)
  next
    case (Inr p)
    obtain order layers where p: "p = (order, layers)" by fastforce
    with spec Inr obtain ls where ls: "order = concat layers" "layers = map (map (\<lambda>i. step_Name (?steps ! i))) ls"
      "earliestLayers ?n ?D ls" "set (concat ls) = {..<?n}" by auto
    then have "acyclic (waitsFor ?steps)" unfolding rel using acyclic_layers by blast
    moreover have "planDAG pl = Inr \<lparr>plan_Mode = PipelineModeDAG, plan_MaxParallel = pl_MaxParallel pl, plan_EdgeCount = es_edges es,
             plan_Order = order, plan_Layers = layers\<rparr>" using Inr assms by (simp add: planDAG_def p)
    ultimately show ?thesis using ls by auto
  qed
qed

lemma plan_dag:
  assumes "PlanPipelineGraph L pl = Inr plan" and "EffectivePipelineMode L pl = PipelineModeDAG"
  shows "planDAG pl = Inr plan \<and> pl_Steps pl \<noteq> [] \<and> 1 \<le> pl_MaxParallel pl \<and> pl_MaxParallel pl \<le> MaximumPipelineParallelism"
proof -
  have "PipelineModeDAG \<noteq> PipelineModeLinear" by (simp add: PipelineModeDAG_def PipelineModeLinear_def)
  then show ?thesis using assms by (auto simp: PlanPipelineGraph_def Let_def result_simps)
qed

lemma planDAG_edges:
  assumes "planDAG pl = Inr plan"
  shows "\<exists>es ls. dagEdges (pl_Steps pl) = Inr es \<and> plan_EdgeCount plan = es_edges es \<and> plan_MaxParallel plan = pl_MaxParallel pl
    \<and> plan_Mode plan = PipelineModeDAG
    \<and> plan_Order plan = concat (plan_Layers plan) \<and> plan_Layers plan = map (map (\<lambda>i. step_Name (pl_Steps pl ! i))) ls
    \<and> earliestLayers (length (pl_Steps pl)) (stepDeps (pl_Steps pl)) ls \<and> set (concat ls) = {..<length (pl_Steps pl)}"
proof -
  from assms obtain es where es: "dagEdges (pl_Steps pl) = Inr es" by (auto simp: planDAG_def Let_def bindE_eq_Inr)
  from planDAG_cases [OF this] assms es show ?thesis by (auto split: if_splits)
qed

text \<open>C21: a graph plan runs every step once, after everything it waits for and as early as possible. The
  order is the layers one after another, the layers place each declared step exactly once, and a layer
  holds precisely the steps not placed before whose dependencies were all placed before.\<close>

theorem plan_places_steps_in_order:
  assumes "PlanPipelineGraph L pl = Inr plan" and "EffectivePipelineMode L pl = PipelineModeDAG"
  shows "\<exists>ls. plan_Layers plan = map (map (\<lambda>i. step_Name (pl_Steps pl ! i))) ls \<and> plan_Order plan = concat (plan_Layers plan)
    \<and> distinct (concat ls) \<and> set (concat ls) = {..<length (pl_Steps pl)}
    \<and> (\<forall>k<length ls. set (ls ! k) = {i. i < length (pl_Steps pl) \<and> i \<notin> set (concat (take k ls))
          \<and> stepDeps (pl_Steps pl) i \<subseteq> set (concat (take k ls))})"
proof -
  have "planDAG pl = Inr plan" using plan_dag [OF assms] by blast
  from planDAG_edges [OF this] obtain ls where "plan_Order plan = concat (plan_Layers plan)"
    "plan_Layers plan = map (map (\<lambda>i. step_Name (pl_Steps pl ! i))) ls"
    "earliestLayers (length (pl_Steps pl)) (stepDeps (pl_Steps pl)) ls" "set (concat ls) = {..<length (pl_Steps pl)}" by blast
  then show ?thesis unfolding earliestLayers_def by (intro exI [of _ ls]) blast
qed

text \<open>C22: planning rejects a graph for a cycle exactly when it has one. Once the checks on names, limits
  and placeholders have passed, the plan exists if no step waits for itself through others, and the cycle
  error is the answer otherwise; the layer loop always ends.\<close>

theorem plan_fails_only_on_cycles:
  assumes "EffectivePipelineMode L pl = PipelineModeDAG" and "1 \<le> pl_MaxParallel pl" and "pl_MaxParallel pl \<le> MaximumPipelineParallelism"
    and "pl_MaxIterations pl = 0" and "pl_Steps pl \<noteq> []" and "dagEdges (pl_Steps pl) = Inr es"
  shows "if acyclic (waitsFor (pl_Steps pl)) then \<exists>plan. PlanPipelineGraph L pl = Inr plan
    else PlanPipelineGraph L pl = Inl (ErrText ''DAG contains a dependency cycle'')"
proof -
  have "PipelineModeDAG \<noteq> PipelineModeLinear" by (simp add: PipelineModeDAG_def PipelineModeLinear_def)
  then have "PlanPipelineGraph L pl = planDAG pl" using assms(1-5) by (simp add: PlanPipelineGraph_def)
  then show ?thesis using planDAG_cases [OF assms(6)] by (auto split: if_splits)
qed

section \<open>Witnesses\<close>

definition sampleStep :: "string \<Rightarrow> string list \<Rightarrow> string \<Rightarrow> pipelineStep" where
  "sampleStep name deps input = \<lparr>step_Name = name, step_DependsOn = deps, step_Route = [], step_Requirements = zeroRequirements, step_Input = input,
     step_OutputMode = [], step_Retries = 0, step_TimeoutSeconds = 0, step_ContinuePath = [], step_ContinueEquals = [], step_MaxIterations = 0\<rparr>"

text \<open>Step \<open>b\<close>, declared first, reads the output of step \<open>a\<close>.\<close>

definition samplePipeline :: pipeline where
  "samplePipeline = \<lparr>pl_Mode = ''dag'', pl_MaxParallel = 2, pl_MaxRuntimeSeconds = 0, pl_MaxIterations = 0, pl_TenantID = [],
     pl_Steps = [sampleStep ''b'' [''a''] ''${steps.a.output}'', sampleStep ''a'' [] ''${input}'']\<rparr>"

lemma sample_mode: "EffectivePipelineMode plainLib samplePipeline = PipelineModeDAG"
  by code_simp

lemma sample_template:
  "validateDAGTemplate (sampleStep ''b'' [''a''] ''${steps.a.output}'') {''a''} = Inr ()"
  "validateDAGTemplate (sampleStep ''a'' [] ''${input}'') {} = Inr ()"
  by (simp_all add: validateDAGTemplate_def sampleStep_def trimSpace_word templateLoop.simps checkPlaceholder_def hasSuffix_def trimPrefix_def
      trimSuffix_def suffix_def)

lemma sample_edges:
  "dagEdges (pl_Steps samplePipeline) = Inr \<lparr>es_indegree = [1, 0], es_children = [[], [0]], es_edges = 1\<rparr>"
  using sample_template
  by (simp add: dagEdges_def samplePipeline_def Let_def trimSpace_word ordinaryStep_def addEdge_def MaximumPipelineDependencyFan_def
      MaximumPipelineDependencyEdges_def) (simp add: sampleStep_def trimSpace_word ordinaryStep_def
      Let_def addEdge_def MaximumPipelineDependencyFan_def MaximumPipelineDependencyEdges_def)

lemma sample_plan:
  "PlanPipelineGraph plainLib samplePipeline
     = Inr \<lparr>plan_Mode = PipelineModeDAG, plan_MaxParallel = 2, plan_EdgeCount = 1, plan_Order = [''a'', ''b''], plan_Layers = [[''a''], [''b'']]\<rparr>"
proof -
  have steps: "pl_Steps samplePipeline = [sampleStep ''b'' [''a''] ''${steps.a.output}'', sampleStep ''a'' [] ''${input}'']"
    by (simp add: samplePipeline_def)
  have "layerLoop (pl_Steps samplePipeline) [[], [0]] [False, False] [1, 0] [] [] = Inr ([''a'', ''b''], [[''a''], [''b'']])"
    by (simp add: layerLoop.simps steps sampleStep_def releaseChildren_def Let_def)
  then have "planDAG samplePipeline
     = Inr \<lparr>plan_Mode = PipelineModeDAG, plan_MaxParallel = 2, plan_EdgeCount = 1, plan_Order = [''a'', ''b''], plan_Layers = [[''a''], [''b'']]\<rparr>"
    unfolding planDAG_def Let_def sample_edges by (simp add: steps) (simp add: samplePipeline_def)
  moreover have "PipelineModeDAG \<noteq> PipelineModeLinear" by (simp add: PipelineModeDAG_def PipelineModeLinear_def)
  ultimately show ?thesis using sample_mode
    by (simp add: PlanPipelineGraph_def Let_def MaximumPipelineParallelism_def) (simp add: samplePipeline_def)
qed

theorem plan_places_steps_in_order_witness:
  "\<exists>ls. [[''a''], [''b'']] = map (map (\<lambda>i. step_Name (pl_Steps samplePipeline ! i))) ls \<and> set (concat ls) = {..<2}"
proof -
  have len: "length (pl_Steps samplePipeline) = 2" by (simp add: samplePipeline_def)
  from plan_places_steps_in_order [OF sample_plan sample_mode, unfolded pipelineGraphPlan.simps len] show ?thesis
  proof (elim exE conjE)
    fix ls assume "[[''a''], [''b'']] = map (map (\<lambda>i. step_Name (pl_Steps samplePipeline ! i))) ls" "set (concat ls) = {..<2}"
    then show ?thesis by (intro exI [of _ ls] conjI)
  qed
qed

theorem plan_fails_only_on_cycles_witness:
  "if acyclic (waitsFor (pl_Steps samplePipeline)) then \<exists>plan. PlanPipelineGraph plainLib samplePipeline = Inr plan
    else PlanPipelineGraph plainLib samplePipeline = Inl (ErrText ''DAG contains a dependency cycle'')"
  by (rule plan_fails_only_on_cycles [OF sample_mode _ _ _ _ sample_edges])
    (simp_all add: samplePipeline_def MaximumPipelineParallelism_def)

end
