(* ===== verification/Session_Locks.thy ===== *)
theory Session_Locks
  imports Routing_Health
begin

text \<open>
  Adapter sessions (\<open>internal/cluster/store.go\<close>, \<open>RecentSessionPlacementBinding\<close> to
  \<open>putSessionPlacement\<close>). A logical session of a producer is pinned to the endpoint of its last
  turn, and the lock bucket keeps two executions out of one session. A lock lives under a key made of
  the session's digest, its profile scope, the kind of its holder and the holder's id; the scope
  \<open>"*"\<close> conflicts with every scope. \<open>sessionExclusive\<close> says that active conflicting locks of
  one session belong to one holder; acquiring keeps it, and refuses exactly when another holder is
  active.
\<close>

section \<open>Keys and scopes\<close>

definition isAdapter :: "goLib \<Rightarrow> requirements \<Rightarrow> bool" where
  "isAdapter L r \<longleftrightarrow> equalFold L (trimSpace (req_Provider r)) ''adapter''"

definition sameSessionPlacementScope :: "goLib \<Rightarrow> requirements \<Rightarrow> requirements \<Rightarrow> bool" where
  "sameSessionPlacementScope L previous current \<longleftrightarrow>
     (if isAdapter L previous \<or> isAdapter L current
      then isAdapter L previous \<and> isAdapter L current \<and>
           equalFold L (trimSpace (req_AdapterProfile previous)) (trimSpace (req_AdapterProfile current))
      else True)"

definition sessionPlacementKey :: "goLib \<Rightarrow> string \<Rightarrow> requirements \<Rightarrow> string" where
  "sessionPlacementKey L owner requirements =
     (let scope = (if isAdapter L requirements
                   then ''adapter'' @ nulByte @ toLower L (trimSpace (req_AdapterProfile requirements)) else ''node'')
      in sha256Hex L (owner @ nulByte @ canonicalSessionID (req_SessionID requirements) @ nulByte @ scope))"

definition adapterSessionLockAssignment :: string where "adapterSessionLockAssignment = ''assignment''"
definition adapterSessionLockJob :: string where "adapterSessionLockJob = ''job''"

definition adapterSessionLockEligible :: "goLib \<Rightarrow> requirements \<Rightarrow> bool" where
  "adapterSessionLockEligible L requirements \<longleftrightarrow>
     (let provider = trimSpace (req_Provider requirements)
      in \<not> req_AdapterEphemeralSession requirements \<and> (equalFold L provider ''adapter'' \<or> provider = []))"

definition adapterSessionNeedsLockTx :: "goLib \<Rightarrow> requirements \<Rightarrow> string \<Rightarrow> bool" where
  "adapterSessionNeedsLockTx L requirements nodeID = adapterSessionLockEligible L requirements"

definition adapterSessionLockBase :: "goLib \<Rightarrow> string \<Rightarrow> requirements \<Rightarrow> string" where
  "adapterSessionLockBase L owner requirements =
     sha256Hex L (cleanLabel owner 120 @ nulByte @ canonicalSessionID (req_SessionID requirements) @ nulByte
       @ ''adapter-session-lock-v1'')"

definition adapterSessionLockScope :: "goLib \<Rightarrow> requirements \<Rightarrow> string" where
  "adapterSessionLockScope L requirements =
     (let profile = toLower L (trimSpace (req_AdapterProfile requirements))
      in if isAdapter L requirements \<and> profile \<noteq> [] then ''profile:'' @ profile else ''*'')"

definition adapterSessionLockPrefix :: "goLib \<Rightarrow> string \<Rightarrow> requirements \<Rightarrow> string" where
  "adapterSessionLockPrefix L owner requirements =
     adapterSessionLockBase L owner requirements @ nulByte @ adapterSessionLockScope L requirements @ nulByte"

definition adapterSessionLockKey :: "goLib \<Rightarrow> string \<Rightarrow> requirements \<Rightarrow> string \<Rightarrow> string \<Rightarrow> string" where
  "adapterSessionLockKey L owner requirements kind holderID =
     adapterSessionLockPrefix L owner requirements @ kind @ nulByte @ holderID"

definition adapterSessionLockActive :: "adapterSessionLock \<Rightarrow> gotime \<Rightarrow> bool" where
  "adapterSessionLockActive lock now \<longleftrightarrow> lock_ExpiresAt lock = 0 \<or> now < lock_ExpiresAt lock"

section \<open>Locks\<close>

type_synonym lockBucket = "adapterSessionLock cell bucket"

text \<open>The entries that \<open>Seek(prefix)\<close> and \<open>Next\<close> visit while the prefix holds.\<close>

definition prefixScan :: "string \<Rightarrow> 'v bucket \<Rightarrow> 'v bucket" where
  "prefixScan p b = takeWhile (\<lambda>e. hasPrefix (fst e) p) (dropWhile (\<lambda>e. fst e < p) b)"

definition scopesConflict :: "string \<Rightarrow> string \<Rightarrow> bool" where
  "scopesConflict wanted held \<longleftrightarrow> wanted = ''*'' \<or> held = ''*'' \<or> held = wanted"

text \<open>The scan of \<open>adapterSessionBusyTx\<close>: expired locks are deleted on the way to the first
  conflicting one.\<close>

fun busyLoop :: "string \<Rightarrow> string \<Rightarrow> string \<Rightarrow> gotime \<Rightarrow> lockBucket \<Rightarrow> lockBucket \<Rightarrow> (bool \<times> lockBucket) result" where
  "busyLoop wanted excludeKind excludeID now [] locks = Inr (False, locks)"
| "busyLoop wanted excludeKind excludeID now ((_, Garbled) # rest) locks = Inl ErrDecode"
| "busyLoop wanted excludeKind excludeID now ((key, Val lock) # rest) locks =
     (if \<not> adapterSessionLockActive lock now
      then busyLoop wanted excludeKind excludeID now rest (bdelete key locks)
      else if \<not> scopesConflict wanted (lock_Scope lock)
      then busyLoop wanted excludeKind excludeID now rest locks
      else if lock_Kind lock = excludeKind \<and> lock_HolderID lock = excludeID
      then busyLoop wanted excludeKind excludeID now rest locks
      else Inr (True, locks))"

definition adapterSessionBusyTx ::
  "goLib \<Rightarrow> string \<Rightarrow> requirements \<Rightarrow> string \<Rightarrow> string \<Rightarrow> gotime \<Rightarrow> store \<Rightarrow> (bool \<times> store) result" where
  "adapterSessionBusyTx L owner requirements excludeKind excludeID now st =
     (if \<not> adapterSessionLockEligible L requirements then Inr (False, st)
      else bindE (busyLoop (adapterSessionLockScope L requirements) excludeKind excludeID now
                   (prefixScan (adapterSessionLockBase L owner requirements @ nulByte) (st_sessionLocks st))
                   (st_sessionLocks st))
             (\<lambda>(busy, locks). Inr (busy, st\<lparr>st_sessionLocks := locks\<rparr>)))"

definition putLock :: "goLib \<Rightarrow> string \<Rightarrow> requirements \<Rightarrow> string \<Rightarrow> string \<Rightarrow> gotime \<Rightarrow> store \<Rightarrow> store" where
  "putLock L owner requirements kind holderID expiresAt st =
     st\<lparr>st_sessionLocks := putJSON (adapterSessionLockKey L owner requirements kind holderID)
          \<lparr>lock_Kind = kind, lock_HolderID = holderID, lock_Scope = adapterSessionLockScope L requirements,
           lock_ExpiresAt = expiresAt\<rparr> (st_sessionLocks st)\<rparr>"

definition acquireAdapterSessionLockTx ::
  "goLib \<Rightarrow> string \<Rightarrow> requirements \<Rightarrow> string \<Rightarrow> string \<Rightarrow> gotime \<Rightarrow> gotime \<Rightarrow> bool \<Rightarrow> store \<Rightarrow> store result" where
  "acquireAdapterSessionLockTx L owner requirements kind holderID expiresAt now required st =
     (if \<not> required then Inr st
      else bindE (adapterSessionBusyTx L owner requirements kind holderID now st) (\<lambda>(busy, st).
           if busy then Inl ErrAdapterSessionBusy
           else Inr (putLock L owner requirements kind holderID expiresAt st)))"

definition releaseAdapterSessionLockTx :: "goLib \<Rightarrow> string \<Rightarrow> requirements \<Rightarrow> string \<Rightarrow> string \<Rightarrow> store \<Rightarrow> store" where
  "releaseAdapterSessionLockTx L owner requirements kind holderID st =
     (if \<not> adapterSessionLockEligible L requirements then st
      else st\<lparr>st_sessionLocks := bdelete (adapterSessionLockKey L owner requirements kind holderID) (st_sessionLocks st)\<rparr>)"

definition promoteAdapterSessionLockTx :: "goLib \<Rightarrow> reservation \<Rightarrow> job \<Rightarrow> gotime \<Rightarrow> store \<Rightarrow> store result" where
  "promoteAdapterSessionLockTx L saved job now st =
     (let asg = rsv_Assignment saved;
          key = adapterSessionLockKey L (rsv_OwnerSubject saved) (asg_Requirements asg) adapterSessionLockAssignment (asg_ID asg);
          locked = (bget (st_sessionLocks st) key \<noteq> None)
      in if \<not> locked \<and> \<not> adapterSessionNeedsLockTx L (job_Requirements job) (job_AssignedNode job) then Inr st
         else acquireAdapterSessionLockTx L (job_OwnerSubject job) (job_Requirements job) adapterSessionLockJob (job_ID job) 0 now True
                (releaseAdapterSessionLockTx L (rsv_OwnerSubject saved) (asg_Requirements asg) adapterSessionLockAssignment (asg_ID asg) st))"

fun gcLocksLoop :: "gotime \<Rightarrow> lockBucket \<Rightarrow> lockBucket \<times> int \<Rightarrow> (lockBucket \<times> int) result" where
  "gcLocksLoop now [] acc = Inr acc"
| "gcLocksLoop now ((_, Garbled) # rest) acc = Inl ErrDecode"
| "gcLocksLoop now ((key, Val lock) # rest) (locks, removed) =
     (if adapterSessionLockActive lock now then gcLocksLoop now rest (locks, removed)
      else gcLocksLoop now rest (bdelete key locks, removed + 1))"

definition garbageCollectAdapterSessionLocks :: "gotime \<Rightarrow> store \<Rightarrow> (int \<times> store) result" where
  "garbageCollectAdapterSessionLocks now st =
     bindE (gcLocksLoop now (st_sessionLocks st) (st_sessionLocks st, 0)) (\<lambda>(locks, removed).
     Inr (removed, st\<lparr>st_sessionLocks := locks\<rparr>))"

definition jobHoldsSession :: "job \<Rightarrow> bool" where
  "jobHoldsSession job \<longleftrightarrow> job_Status job = JobAssigned \<or> job_Status job = JobRunning
     \<or> (job_Status job = JobQueued \<and> job_SealedPayload job \<noteq> None \<and> job_AssignedNode job \<noteq> [])"

fun rebuildAssignmentLock :: "goLib \<Rightarrow> gotime \<Rightarrow> string \<times> reservation cell \<Rightarrow> store \<Rightarrow> store result" where
  "rebuildAssignmentLock L now (_, Garbled) st = Inl ErrDecode"
| "rebuildAssignmentLock L now (_, Val saved) st =
     (let asg = rsv_Assignment saved
      in if \<not> now < asg_ExpiresAt asg \<or> \<not> adapterSessionNeedsLockTx L (asg_Requirements asg) (asg_NodeID asg) then Inr st
         else Inr (putLock L (rsv_OwnerSubject saved) (asg_Requirements asg) adapterSessionLockAssignment (asg_ID asg)
                     (asg_ExpiresAt asg) st))"

fun rebuildJobLock :: "goLib \<Rightarrow> string \<times> job cell \<Rightarrow> store \<Rightarrow> store result" where
  "rebuildJobLock L (_, Garbled) st = Inl ErrDecode"
| "rebuildJobLock L (_, Val job) st =
     (if \<not> jobHoldsSession job \<or> \<not> adapterSessionNeedsLockTx L (job_Requirements job) (job_AssignedNode job) then Inr st
      else Inr (putLock L (job_OwnerSubject job) (job_Requirements job) adapterSessionLockJob (job_ID job) 0 st))"

definition rebuildAdapterSessionLocks :: "goLib \<Rightarrow> gotime \<Rightarrow> store \<Rightarrow> store result" where
  "rebuildAdapterSessionLocks L now st =
     bindE (foldE (rebuildAssignmentLock L now) (st_assignments st) (st\<lparr>st_sessionLocks := []\<rparr>))
       (foldE (rebuildJobLock L) (st_jobs st))"

definition AdapterSessionBusy :: "goLib \<Rightarrow> string \<Rightarrow> requirements \<Rightarrow> string \<Rightarrow> gotime \<Rightarrow> store \<Rightarrow> bool result \<times> store" where
  "AdapterSessionBusy L owner requirements excludeJobID now st =
     (if \<not> adapterSessionLockEligible L requirements then (Inr False, st)
      else update (adapterSessionBusyTx L owner requirements adapterSessionLockJob excludeJobID now) st)"

definition ReleaseAdapterSessionJobLock :: "goLib \<Rightarrow> string \<Rightarrow> store \<Rightarrow> bool result \<times> store" where
  "ReleaseAdapterSessionJobLock L jobID = update (\<lambda>st.
     bindE (getJSON (st_jobs st) jobID) (\<lambda>job.
     let key = adapterSessionLockKey L (job_OwnerSubject job) (job_Requirements job) adapterSessionLockJob (job_ID job) in
     if \<not> adapterSessionLockEligible L (job_Requirements job) then Inr (False, st)
     else if bget (st_sessionLocks st) key = None then Inr (False, st)
     else Inr (True, st\<lparr>st_sessionLocks := bdelete key (st_sessionLocks st)\<rparr>)))"

definition adapterSessionJobLockExistsTx :: "goLib \<Rightarrow> store \<Rightarrow> job \<Rightarrow> bool" where
  "adapterSessionJobLockExistsTx L st job \<longleftrightarrow>
     adapterSessionLockEligible L (job_Requirements job) \<and>
     bget (st_sessionLocks st) (adapterSessionLockKey L (job_OwnerSubject job) (job_Requirements job) adapterSessionLockJob (job_ID job)) \<noteq> None"

section \<open>Placements\<close>

definition putSessionPlacement :: "string \<Rightarrow> sessionPlacement \<Rightarrow> store \<Rightarrow> store" where
  "putSessionPlacement key placement st =
     (if plc_NodeID placement = [] \<or> plc_UpdatedAt placement = 0 then st
      else if (case getJSON (st_sessionPlacements st) key of
                 Inr current \<Rightarrow> \<not> plc_UpdatedAt current < plc_UpdatedAt placement
               | Inl _ \<Rightarrow> False) then st
      else st\<lparr>st_sessionPlacements := putJSON key placement (st_sessionPlacements st)\<rparr>)"

definition placementCandidate :: "goLib \<Rightarrow> string \<Rightarrow> requirements \<Rightarrow> job \<Rightarrow> bool" where
  "placementCandidate L owner requirements job \<longleftrightarrow>
     job_OwnerSubject job = owner
     \<and> canonicalSessionID (req_SessionID (job_Requirements job)) = canonicalSessionID (req_SessionID requirements)
     \<and> job_AssignedNode job \<noteq> [] \<and> terminalJobStatus (job_Status job)
     \<and> sameSessionPlacementScope L (job_Requirements job) requirements
     \<and> \<not> (isAdapter L requirements \<and> (job_ExecutedAdapterEndpointID job \<le> 0 \<or> job_EphemeralAdapterEndpoint job))"

fun latestJob :: "(job \<Rightarrow> bool) \<Rightarrow> job \<Rightarrow> job list \<Rightarrow> job" where
  "latestJob p selected [] = selected"
| "latestJob p selected (job # rest) =
     latestJob p (if p job \<and> (job_ID selected = [] \<or> job_UpdatedAt selected < job_UpdatedAt job) then job else selected) rest"

definition fallbackPlacement ::
  "goLib \<Rightarrow> string \<Rightarrow> requirements \<Rightarrow> string \<Rightarrow> store \<Rightarrow> (string \<times> int \<times> string \<times> bool) \<times> store" where
  "fallbackPlacement L owner requirements key st =
     (let selected = latestJob (placementCandidate L owner requirements) zeroJob (map snd (decoded (st_jobs st)))
      in if job_AssignedNode selected = [] then (([], 0, [], False), st)
         else ((job_AssignedNode selected, job_ExecutedAdapterEndpointID selected,
                req_AdapterPrincipal (job_Requirements selected), True),
               putSessionPlacement key
                 \<lparr>plc_NodeID = job_AssignedNode selected, plc_AdapterEndpointID = job_ExecutedAdapterEndpointID selected,
                  plc_AdapterPrincipal = req_AdapterPrincipal (job_Requirements selected),
                  plc_UpdatedAt = job_UpdatedAt selected\<rparr> st))"

definition RecentSessionPlacementBinding ::
  "goLib \<Rightarrow> string \<Rightarrow> requirements \<Rightarrow> store \<Rightarrow> (string \<times> int \<times> string \<times> bool) \<times> store" where
  "RecentSessionPlacementBinding L owner requirements st =
     (let owner = cleanLabel owner 120;
          key = sessionPlacementKey L owner requirements
      in case getJSON (st_sessionPlacements st) key of
           Inr placement \<Rightarrow>
             (if plc_NodeID placement \<noteq> []
              then ((plc_NodeID placement, plc_AdapterEndpointID placement, plc_AdapterPrincipal placement, True), st)
              else fallbackPlacement L owner requirements key st)
         | Inl _ \<Rightarrow> fallbackPlacement L owner requirements key st)"

definition RecentSessionPlacement :: "goLib \<Rightarrow> string \<Rightarrow> requirements \<Rightarrow> store \<Rightarrow> (string \<times> int \<times> bool) \<times> store" where
  "RecentSessionPlacement L owner requirements st =
     (case RecentSessionPlacementBinding L owner requirements st of
        ((node, endpoint, _, ok), st') \<Rightarrow> ((node, endpoint, ok), st'))"

definition RecentSessionNode :: "goLib \<Rightarrow> string \<Rightarrow> string \<Rightarrow> store \<Rightarrow> (string \<times> bool) \<times> store" where
  "RecentSessionNode L owner session st =
     (case RecentSessionPlacement L owner (zeroRequirements\<lparr>req_SessionID := session\<rparr>) st of
        ((node, _, ok), st') \<Rightarrow> ((node, ok), st'))"

section \<open>Prefix scans\<close>

lemma prefix_le: "prefix p s \<Longrightarrow> p \<le> (s :: string)"
proof (induction p arbitrary: s)
  case (Cons a p)
  then obtain t where "s = a # t" "prefix p t" by (cases s) auto
  then show ?case using Cons.IH by auto
qed simp

lemma no_prefix_above:
  assumes "p < s" and "\<not> prefix p s" and "s \<le> (t :: string)"
  shows "\<not> prefix p t"
  using assms
proof (induction p arbitrary: s t)
  case (Cons a p)
  show ?case
  proof
    assume "prefix (a # p) t"
    then obtain u where t: "t = a # u" "prefix p u" by (cases t) auto
    from Cons.prems obtain b w where s: "s = b # w" by (cases s) auto
    have "a = b" using Cons.prems(1,3) s t by auto
    then have "p < w" "\<not> prefix p w" "w \<le> u" using Cons.prems s t by auto
    from Cons.IH [OF this] t show False by simp
  qed
qed simp

lemma prefixScan_filter: "bordered b \<Longrightarrow> prefixScan p b = filter (\<lambda>e. prefix p (fst e)) b"
proof (induction b)
  case (Cons e b)
  then have ord: "bordered b" and gt: "\<forall>x \<in> set b. fst e < fst x" by (auto simp: bordered_def)
  show ?case
  proof (cases "fst e < p")
    case True
    then have "\<not> prefix p (fst e)" using prefix_le by (meson leD)
    with True Cons.IH [OF ord] show ?thesis by (simp add: prefixScan_def)
  next
    case ge: False
    have drop: "dropWhile (\<lambda>x. fst x < p) b = b"
      using ge gt by (cases b) auto
    show ?thesis
    proof (cases "prefix p (fst e)")
      case True
      with ge drop Cons.IH [OF ord] show ?thesis by (simp add: prefixScan_def)
    next
      case False
      then have "p < fst e" using ge by (metis linorder_neqE prefix_order.refl)
      then have "\<forall>x \<in> set b. \<not> prefix p (fst x)" using False gt no_prefix_above less_imp_le by blast
      with False ge show ?thesis by (auto simp: prefixScan_def filter_empty_conv)
    qed
  qed
qed (simp add: prefixScan_def)

section \<open>Mutual exclusion\<close>

definition lockBaseOf :: "string \<Rightarrow> string" where
  "lockBaseOf key = takeWhile (\<lambda>c. c \<noteq> char_of (0 :: nat)) key"

definition lockFiled :: "string \<Rightarrow> adapterSessionLock cell \<Rightarrow> bool" where
  "lockFiled key c =
     (case c of
        Val lock \<Rightarrow> key = lockBaseOf key @ nulByte @ lock_Scope lock @ nulByte @ lock_Kind lock @ nulByte @ lock_HolderID lock
      | Garbled \<Rightarrow> False)"

definition locksWF :: "lockBucket \<Rightarrow> bool" where
  "locksWF locks \<longleftrightarrow> bordered locks \<and> (\<forall>k c. bget locks k = Some c \<longrightarrow> lockFiled k c)"

text \<open>At time \<open>now\<close>, two active locks of one session whose scopes conflict have one holder.\<close>

definition sessionExclusive :: "gotime \<Rightarrow> lockBucket \<Rightarrow> bool" where
  "sessionExclusive now locks \<longleftrightarrow>
     (\<forall>k k' l l'. bget locks k = Some (Val l) \<longrightarrow> bget locks k' = Some (Val l') \<longrightarrow> lockBaseOf k = lockBaseOf k' \<longrightarrow>
        adapterSessionLockActive l now \<longrightarrow> adapterSessionLockActive l' now \<longrightarrow>
        scopesConflict (lock_Scope l) (lock_Scope l') \<longrightarrow>
        lock_Kind l = lock_Kind l' \<and> lock_HolderID l = lock_HolderID l')"

lemma scopesConflict_sym: "scopesConflict a b = scopesConflict b a"
  by (auto simp: scopesConflict_def)

lemma active_later: "adapterSessionLockActive l t \<Longrightarrow> now \<le> t \<Longrightarrow> adapterSessionLockActive l now"
  by (auto simp: adapterSessionLockActive_def)

text \<open>Locks only expire, so exclusion lasts.\<close>

lemma sessionExclusive_later: "sessionExclusive now locks \<Longrightarrow> now \<le> t \<Longrightarrow> sessionExclusive t locks"
  unfolding sessionExclusive_def using active_later by blast

lemma sessionExclusive_sub:
  "sessionExclusive now locks \<Longrightarrow> (\<And>k c. bget locks' k = Some c \<Longrightarrow> bget locks k = Some c) \<Longrightarrow> sessionExclusive now locks'"
  unfolding sessionExclusive_def by blast

lemma locksWF_sub:
  "locksWF locks \<Longrightarrow> bordered locks' \<Longrightarrow> (\<And>k c. bget locks' k = Some c \<Longrightarrow> bget locks k = Some c) \<Longrightarrow> locksWF locks'"
  unfolding locksWF_def by blast

text \<open>What the scan reports and what it deletes.\<close>

definition lockBlocks :: "string \<Rightarrow> string \<Rightarrow> string \<Rightarrow> gotime \<Rightarrow> adapterSessionLock \<Rightarrow> bool" where
  "lockBlocks wanted ek ei now l \<longleftrightarrow> adapterSessionLockActive l now \<and> scopesConflict wanted (lock_Scope l)
     \<and> \<not> (lock_Kind l = ek \<and> lock_HolderID l = ei)"

text \<open>A bucket pruned of expired locks.\<close>

definition pruned :: "gotime \<Rightarrow> lockBucket \<Rightarrow> lockBucket \<Rightarrow> bool" where
  "pruned now locks locks' \<longleftrightarrow> (bordered locks \<longrightarrow> bordered locks')
     \<and> (\<forall>k c. bget locks' k = Some c \<longrightarrow> bget locks k = Some c)
     \<and> (\<forall>k l. bget locks k = Some (Val l) \<longrightarrow> adapterSessionLockActive l now \<longrightarrow> bget locks' k = Some (Val l))"

lemma pruned_refl: "pruned now locks locks"
  by (simp add: pruned_def)

lemma pruned_trans: "pruned now a b \<Longrightarrow> pruned now b c \<Longrightarrow> pruned now a c"
  unfolding pruned_def by blast

lemma pruned_delete:
  "bget locks k = Some (Val l) \<Longrightarrow> \<not> adapterSessionLockActive l now \<Longrightarrow> pruned now locks (bdelete k locks)"
  by (auto simp: pruned_def bget_bdelete bordered_bdelete split: if_splits)

lemma pruned_wf: "locksWF locks \<Longrightarrow> pruned now locks locks' \<Longrightarrow> locksWF locks'"
  unfolding locksWF_def pruned_def by blast

lemma busyLoop_spec:
  assumes "busyLoop w ek ei now xs locks = Inr (busy, locks')"
    and "\<forall>(k, c) \<in> set xs. bget locks k = Some c" and "distinct (map fst xs)"
  shows "(busy \<longleftrightarrow> (\<exists>k l. (k, Val l) \<in> set xs \<and> lockBlocks w ek ei now l)) \<and> pruned now locks locks'"
  using assms
proof (induction w ek ei now xs locks rule: busyLoop.induct)
  case (1 w ek ei now locks)
  then show ?case by (simp add: pruned_refl)
next
  case (2 w ek ei now k rest locks)
  then show ?case by simp
next
  case (3 w ek ei now key lock rest locks)
  have keep: "\<forall>(k, c) \<in> set rest. bget (bdelete key locks) k = Some c"
  proof clarify
    fix k c assume mem: "(k, c) \<in> set rest"
    then have "k \<noteq> key" using "3.prems"(3) by force
    moreover have "bget locks k = Some c" using "3.prems"(2) mem by auto
    ultimately show "bget (bdelete key locks) k = Some c" by (simp add: bget_bdelete)
  qed
  have keep': "\<forall>(k, c) \<in> set rest. bget locks k = Some c" using "3.prems"(2) by simp
  have dist: "distinct (map fst rest)" using "3.prems"(3) by simp
  have here: "bget locks key = Some (Val lock)" using "3.prems"(2) by simp
  have step: "(\<exists>k l. (k, Val l) \<in> set ((key, Val lock) # rest) \<and> P l) \<longleftrightarrow> P lock \<or> (\<exists>k l. (k, Val l) \<in> set rest \<and> P l)" for P
    by auto
  show ?case
  proof (cases "adapterSessionLockActive lock now")
    case False
    then have run: "busyLoop w ek ei now rest (bdelete key locks) = Inr (busy, locks')" using "3.prems"(1) by simp
    have "pruned now locks (bdelete key locks)" using here False by (rule pruned_delete)
    with "3.IH"(1) [OF False run keep dist] show ?thesis
      unfolding step using False pruned_trans by (auto simp: lockBlocks_def)
  next
    case act: True
    show ?thesis
    proof (cases "lockBlocks w ek ei now lock")
      case True
      then have "busy" "locks' = locks" using "3.prems"(1) act by (auto simp: lockBlocks_def split: if_splits)
      then show ?thesis unfolding step using True by (simp add: pruned_refl)
    next
      case False
      then have run: "busyLoop w ek ei now rest locks = Inr (busy, locks')"
        using "3.prems"(1) act by (auto simp: lockBlocks_def split: if_splits)
      have "(busy \<longleftrightarrow> (\<exists>k l. (k, Val l) \<in> set rest \<and> lockBlocks w ek ei now l)) \<and> pruned now locks locks'"
      proof (cases "scopesConflict w (lock_Scope lock)")
        case True
        then show ?thesis using "3.IH"(3) [OF _ _ _ run keep' dist] act False by (auto simp: lockBlocks_def)
      next
        case False
        then show ?thesis using "3.IH"(2) [OF _ _ run keep' dist] act by auto
      qed
      then show ?thesis unfolding step using False by simp
    qed
  qed
qed

lemma base_no_nul: "char_of (0 :: nat) \<notin> set (sha256Hex L s)"
proof
  assume "char_of (0 :: nat) \<in> set (sha256Hex L s)"
  then have "isHexByte (byte (char_of (0 :: nat)))"
    using hexDecodes_hexEncode [of "sha256 L s"] by (auto simp: hexDecodes_def list_all_iff sha256Hex_def)
  then show False by (simp add: isHexByte_def)
qed

lemma lockBaseOf_append: "char_of (0 :: nat) \<notin> set b \<Longrightarrow> lockBaseOf (b @ nulByte @ rest) = b"
  unfolding lockBaseOf_def by (subst takeWhile_append2) auto

lemma lockBaseOf_key: "lockBaseOf (adapterSessionLockKey L o' r kind holder) = adapterSessionLockBase L o' r"
  unfolding adapterSessionLockKey_def adapterSessionLockPrefix_def append_assoc
  by (rule lockBaseOf_append) (simp add: adapterSessionLockBase_def base_no_nul)

lemma lockKey_prefix:
  assumes "locksWF locks" and "bget locks k = Some c"
  shows "prefix (adapterSessionLockBase L o' r @ nulByte) k \<longleftrightarrow> lockBaseOf k = adapterSessionLockBase L o' r"
proof
  assume "prefix (adapterSessionLockBase L o' r @ nulByte) k"
  then obtain t where "k = adapterSessionLockBase L o' r @ nulByte @ t" by (auto simp: prefix_def)
  then show "lockBaseOf k = adapterSessionLockBase L o' r"
    by (simp only:) (rule lockBaseOf_append, simp add: adapterSessionLockBase_def base_no_nul)
next
  assume b: "lockBaseOf k = adapterSessionLockBase L o' r"
  have "lockFiled k c" using assms unfolding locksWF_def by blast
  then obtain t where "k = lockBaseOf k @ nulByte @ t" by (auto simp: lockFiled_def split: cell.splits)
  then show "prefix (adapterSessionLockBase L o' r @ nulByte) k" unfolding b [symmetric] by (metis append_assoc prefixI)
qed

lemma busy_spec:
  assumes wf: "locksWF (st_sessionLocks st)" and el: "adapterSessionLockEligible L r"
    and run: "adapterSessionBusyTx L o' r ek ei now st = Inr (busy, st')"
  shows "busy \<longleftrightarrow> (\<exists>k l. bget (st_sessionLocks st) k = Some (Val l) \<and> lockBaseOf k = adapterSessionLockBase L o' r
            \<and> lockBlocks (adapterSessionLockScope L r) ek ei now l)"
    and "\<exists>locks. st' = st\<lparr>st_sessionLocks := locks\<rparr> \<and> pruned now (st_sessionLocks st) locks"
proof -
  have ord: "bordered (st_sessionLocks st)" using wf by (simp add: locksWF_def)
  let ?p = "adapterSessionLockBase L o' r @ nulByte"
  let ?xs = "filter (\<lambda>e. prefix ?p (fst e)) (st_sessionLocks st)"
  obtain locks where loop: "busyLoop (adapterSessionLockScope L r) ek ei now ?xs (st_sessionLocks st) = Inr (busy, locks)"
    and st': "st' = st\<lparr>st_sessionLocks := locks\<rparr>"
    using run el by (auto simp: adapterSessionBusyTx_def result_simps prefixScan_filter [OF ord])
  have mem: "(k, c) \<in> set ?xs \<longleftrightarrow> bget (st_sessionLocks st) k = Some c \<and> lockBaseOf k = adapterSessionLockBase L o' r" for k c
    using bordered_get [OF ord, of k c] lockKey_prefix [OF wf, of k c L o' r] by auto
  have dist: "distinct (map fst ?xs)"
    using bolt.entries_distinct [OF ord] by (simp add: distinct_map_filter)
  have "\<forall>(k, c) \<in> set ?xs. bget (st_sessionLocks st) k = Some c" using mem by blast
  note sp = busyLoop_spec [OF loop this dist]
  show "busy \<longleftrightarrow> (\<exists>k l. bget (st_sessionLocks st) k = Some (Val l) \<and> lockBaseOf k = adapterSessionLockBase L o' r
            \<and> lockBlocks (adapterSessionLockScope L r) ek ei now l)"
    using sp by (simp only: mem conj_assoc)
  show "\<exists>locks. st' = st\<lparr>st_sessionLocks := locks\<rparr> \<and> pruned now (st_sessionLocks st) locks"
    using sp st' by blast
qed

lemma lockFiled_key:
  "lockFiled (adapterSessionLockKey L o' r kind holder)
     (Val \<lparr>lock_Kind = kind, lock_HolderID = holder, lock_Scope = adapterSessionLockScope L r, lock_ExpiresAt = e\<rparr>)"
  using lockBaseOf_key [of L o' r kind holder]
  by (simp add: lockFiled_def adapterSessionLockKey_def adapterSessionLockPrefix_def)

lemma putLock_wf: "locksWF (st_sessionLocks st) \<Longrightarrow> locksWF (st_sessionLocks (putLock L o' r kind holder e st))"
  by (auto simp: locksWF_def putLock_def bordered_putJSON bget_putJSON lockFiled_key)

lemma acquire_exclusive:
  assumes "locksWF (st_sessionLocks st)" and "sessionExclusive now (st_sessionLocks st)"
    and "adapterSessionLockEligible L r"
    and "acquireAdapterSessionLockTx L owner r kind holder expires now True st = Inr st'"
  shows "locksWF (st_sessionLocks st') \<and> (\<forall>t \<ge> now. sessionExclusive t (st_sessionLocks st'))
    \<and> bget (st_sessionLocks st') (adapterSessionLockKey L owner r kind holder) =
        Some (Val \<lparr>lock_Kind = kind, lock_HolderID = holder, lock_Scope = adapterSessionLockScope L r,
                   lock_ExpiresAt = expires\<rparr>)"
proof -
  from assms(4) obtain mid where busy: "adapterSessionBusyTx L owner r kind holder now st = Inr (False, mid)"
    and st': "st' = putLock L owner r kind holder expires mid"
    by (auto simp: acquireAdapterSessionLockTx_def result_simps split: if_splits)
  from busy_spec(2) [OF assms(1,3) busy] obtain locks where
    mid: "mid = st\<lparr>st_sessionLocks := locks\<rparr>" and pr: "pruned now (st_sessionLocks st) locks" by blast
  have wf: "locksWF locks" using assms(1) pr by (rule pruned_wf)
  have sub: "bget locks k = Some c \<Longrightarrow> bget (st_sessionLocks st) k = Some c" for k c
    using pr unfolding pruned_def by blast
  have ex: "sessionExclusive now locks" by (rule sessionExclusive_sub [OF assms(2) sub])
  let ?new = "\<lparr>lock_Kind = kind, lock_HolderID = holder, lock_Scope = adapterSessionLockScope L r, lock_ExpiresAt = expires\<rparr>"
  let ?key = "adapterSessionLockKey L owner r kind holder"
  have free: "lock_Kind l = kind \<and> lock_HolderID l = holder"
    if "bget locks k = Some (Val l)" "lockBaseOf k = lockBaseOf ?key" "adapterSessionLockActive l now"
      "scopesConflict (lock_Scope ?new) (lock_Scope l)" for k l
  proof -
    have "bget (st_sessionLocks st) k = Some (Val l)" using that(1) by (rule sub)
    then show ?thesis
      using busy_spec(1) [OF assms(1,3) busy] that(2,3,4) by (auto simp: lockBlocks_def lockBaseOf_key)
  qed
  have "sessionExclusive now (st_sessionLocks st')"
    unfolding sessionExclusive_def
  proof (intro allI impI)
    fix k k' l l'
    assume l: "bget (st_sessionLocks st') k = Some (Val l)" and l': "bget (st_sessionLocks st') k' = Some (Val l')"
      and base: "lockBaseOf k = lockBaseOf k'" and act: "adapterSessionLockActive l now" "adapterSessionLockActive l' now"
      and sc: "scopesConflict (lock_Scope l) (lock_Scope l')"
    have cases: "(k = ?key \<and> l = ?new) \<or> bget locks k = Some (Val l)" "(k' = ?key \<and> l' = ?new) \<or> bget locks k' = Some (Val l')"
      using l l' by (auto simp: st' mid putLock_def bget_putJSON split: if_splits)
    from cases show "lock_Kind l = lock_Kind l' \<and> lock_HolderID l = lock_HolderID l'"
    proof (elim disjE conjE)
      assume "bget locks k = Some (Val l)" "bget locks k' = Some (Val l')"
      then show ?thesis using ex base act sc unfolding sessionExclusive_def by blast
    next
      assume "k = ?key" "l = ?new" "bget locks k' = Some (Val l')"
      then show ?thesis using free [of k' l'] base act sc by simp
    next
      assume "bget locks k = Some (Val l)" "k' = ?key" "l' = ?new"
      then show ?thesis using free [of k l] base act sc by (simp add: scopesConflict_sym)
    qed simp
  qed
  then have "\<forall>t \<ge> now. sessionExclusive t (st_sessionLocks st')" using sessionExclusive_later by blast
  moreover have "locksWF (st_sessionLocks st')" using wf by (simp add: st' mid putLock_wf)
  ultimately show ?thesis by (simp add: st' mid putLock_def bget_putJSON)
qed

text \<open>C27: one logical session never has two executions. Acquiring a lock succeeds only when no other
  holder has an active lock of a conflicting scope, keeps the lock table exclusive from then on, and
  leaves the lock held.\<close>

theorem session_lock_exclusive:
  assumes "locksWF (st_sessionLocks st)" and "sessionExclusive now (st_sessionLocks st)"
    and "adapterSessionLockEligible L r"
    and "acquireAdapterSessionLockTx L owner r kind holder expires now True st = Inr st'"
  shows "locksWF (st_sessionLocks st') \<and> (\<forall>t \<ge> now. sessionExclusive t (st_sessionLocks st'))
    \<and> bget (st_sessionLocks st') (adapterSessionLockKey L owner r kind holder) =
        Some (Val \<lparr>lock_Kind = kind, lock_HolderID = holder, lock_Scope = adapterSessionLockScope L r,
                   lock_ExpiresAt = expires\<rparr>)"
  using assms by (rule acquire_exclusive)

lemma busyLoop_total:
  "list_all (\<lambda>e. snd e \<noteq> Garbled) xs \<Longrightarrow> \<exists>b m. busyLoop w ek ei now xs locks = Inr (b, m)"
  by (induction w ek ei now xs locks rule: busyLoop.induct) auto

lemma busy_total:
  assumes "locksWF (st_sessionLocks st)"
  shows "\<exists>busy mid. adapterSessionBusyTx L owner r kind holder now st = Inr (busy, mid)"
proof (cases "adapterSessionLockEligible L r")
  case True
  have ord: "bordered (st_sessionLocks st)" using assms by (simp add: locksWF_def)
  have "snd e \<noteq> Garbled" if "e \<in> set (st_sessionLocks st)" for e
  proof -
    have "bget (st_sessionLocks st) (fst e) = Some (snd e)"
      using that bordered_get [OF ord, of "fst e" "snd e"] by simp
    then have "lockFiled (fst e) (snd e)" using assms unfolding locksWF_def by blast
    then show ?thesis by (cases "snd e") (simp_all add: lockFiled_def)
  qed
  then have "list_all (\<lambda>e. snd e \<noteq> Garbled) (prefixScan (adapterSessionLockBase L owner r @ nulByte) (st_sessionLocks st))"
    unfolding prefixScan_filter [OF ord] list_all_iff by simp
  from busyLoop_total [OF this, of "adapterSessionLockScope L r" kind holder now "st_sessionLocks st"] True
  show ?thesis by (auto simp: adapterSessionBusyTx_def)
qed (auto simp: adapterSessionBusyTx_def)

text \<open>While another holder's lock on the session is active and its scope conflicts, acquiring is
  refused with \<open>ErrAdapterSessionBusy\<close>.\<close>

theorem session_lock_refused_while_held:
  assumes "locksWF (st_sessionLocks st)" and "adapterSessionLockEligible L r"
    and "bget (st_sessionLocks st) k = Some (Val l)" and "lockBaseOf k = adapterSessionLockBase L owner r"
    and "adapterSessionLockActive l now" and "scopesConflict (adapterSessionLockScope L r) (lock_Scope l)"
    and "(lock_Kind l, lock_HolderID l) \<noteq> (kind, holder)"
  shows "acquireAdapterSessionLockTx L owner r kind holder expires now True st = Inl ErrAdapterSessionBusy"
proof -
  from busy_total [OF assms(1), of L owner r kind holder now] obtain busy mid where
    run: "adapterSessionBusyTx L owner r kind holder now st = Inr (busy, mid)" by blast
  have "busy" using busy_spec(1) [OF assms(1,2) run] assms(3-7) by (auto simp: lockBlocks_def)
  then show ?thesis using run by (simp add: acquireAdapterSessionLockTx_def)
qed

section \<open>Rebuilding after a restart\<close>

definition lockKeys :: "store \<Rightarrow> string set" where
  "lockKeys st = {k. bget (st_sessionLocks st) k \<noteq> None}"

lemma lockKeys_put: "lockKeys (putLock L o' r kind holder e st) = insert (adapterSessionLockKey L o' r kind holder) (lockKeys st)"
  by (auto simp: lockKeys_def putLock_def bget_putJSON)

lemma rebuildJobLock_step:
  "rebuildJobLock L (k, Val job) st = Inr st' \<Longrightarrow> lockKeys st \<subseteq> lockKeys st'
     \<and> (jobHoldsSession job \<longrightarrow> adapterSessionLockEligible L (job_Requirements job) \<longrightarrow>
        adapterSessionLockKey L (job_OwnerSubject job) (job_Requirements job) adapterSessionLockJob (job_ID job) \<in> lockKeys st')"
  by (auto simp: adapterSessionNeedsLockTx_def lockKeys_put split: if_splits)

lemma rebuildJobLock_fold:
  "foldE (rebuildJobLock L) xs st = Inr st' \<Longrightarrow> lockKeys st \<subseteq> lockKeys st'
     \<and> (\<forall>k job. (k, Val job) \<in> set xs \<longrightarrow> jobHoldsSession job \<longrightarrow> adapterSessionLockEligible L (job_Requirements job) \<longrightarrow>
        adapterSessionLockKey L (job_OwnerSubject job) (job_Requirements job) adapterSessionLockJob (job_ID job) \<in> lockKeys st')"
proof (induction xs arbitrary: st)
  case (Cons x xs)
  then obtain mid where mid: "rebuildJobLock L x st = Inr mid" "foldE (rebuildJobLock L) xs mid = Inr st'"
    by (auto simp: result_simps)
  obtain k c where x: "x = (k, c)" by force
  with mid(1) obtain job where c: "c = Val job" by (cases c) auto
  have step: "rebuildJobLock L (k, Val job) st = Inr mid" using mid(1) x c by simp
  show ?case using Cons.IH [OF mid(2)] rebuildJobLock_step [OF step] x c by auto
qed simp

definition outsideLocks :: "store \<Rightarrow> store" where
  "outsideLocks st = st\<lparr>st_sessionLocks := []\<rparr>"

lemma outsideLocks_put [simp]: "outsideLocks (putLock L o' r kind holder e st) = outsideLocks st"
  by (simp add: outsideLocks_def putLock_def)

lemma rebuildAssignmentLock_inv:
  "rebuildAssignmentLock L now x s = Inr s' \<Longrightarrow> locksWF (st_sessionLocks s) \<Longrightarrow>
   locksWF (st_sessionLocks s') \<and> outsideLocks s' = outsideLocks s"
  by (cases "(L, now, x, s)" rule: rebuildAssignmentLock.cases) (auto simp: Let_def putLock_wf split: if_splits)

lemma rebuildJobLock_inv:
  "rebuildJobLock L x s = Inr s' \<Longrightarrow> locksWF (st_sessionLocks s) \<Longrightarrow>
   locksWF (st_sessionLocks s') \<and> outsideLocks s' = outsideLocks s"
  by (cases "(L, x, s)" rule: rebuildJobLock.cases) (auto simp: putLock_wf split: if_splits)

lemma rebuild_inv:
  assumes "rebuildAdapterSessionLocks L now st = Inr st'"
  shows "locksWF (st_sessionLocks st') \<and> outsideLocks st' = outsideLocks st"
proof -
  let ?P = "\<lambda>s. locksWF (st_sessionLocks s) \<and> outsideLocks s = outsideLocks st"
  from assms obtain mid where
    a: "foldE (rebuildAssignmentLock L now) (st_assignments st) (st\<lparr>st_sessionLocks := []\<rparr>) = Inr mid" and
    b: "foldE (rebuildJobLock L) (st_jobs st) mid = Inr st'"
    by (auto simp: rebuildAdapterSessionLocks_def result_simps)
  have "?P (st\<lparr>st_sessionLocks := []\<rparr>)" by (auto simp: locksWF_def bget_Nil outsideLocks_def)
  then have "?P mid" by (rule foldE_invariant [OF a]) (use rebuildAssignmentLock_inv in metis)
  then show ?thesis by (rule foldE_invariant [OF b]) (use rebuildJobLock_inv in metis)
qed

text \<open>the lock table is derived state: rebuilding it at start-up locks the session of every job
  that is assigned, running, or sealed to a node, and changes nothing else.\<close>

theorem rebuilt_locks_cover_active_jobs:
  assumes "bordered (st_jobs st)" and "rebuildAdapterSessionLocks L now st = Inr st'"
    and "bget (st_jobs st) jobID = Some (Val job)" and "jobHoldsSession job"
    and "adapterSessionLockEligible L (job_Requirements job)"
  shows "adapterSessionJobLockExistsTx L st' job \<and> locksWF (st_sessionLocks st')
    \<and> outsideLocks st' = outsideLocks st"
proof -
  from assms(2) obtain mid where "foldE (rebuildJobLock L) (st_jobs st) mid = Inr st'"
    by (auto simp: rebuildAdapterSessionLocks_def result_simps)
  from rebuildJobLock_fold [OF this] assms(3,4,5) bordered_get [OF assms(1)]
  have "adapterSessionLockKey L (job_OwnerSubject job) (job_Requirements job) adapterSessionLockJob (job_ID job) \<in> lockKeys st'"
    by blast
  then show ?thesis
    using rebuild_inv [OF assms(2)] assms(5) by (auto simp: adapterSessionJobLockExistsTx_def lockKeys_def)
qed

section \<open>Witnesses\<close>

definition sessionReq :: requirements where
  "sessionReq = zeroRequirements\<lparr>req_SessionID := ''s1''\<rparr>"

lemma sessionReq_eligible: "adapterSessionLockEligible plainLib sessionReq"
  by (simp add: adapterSessionLockEligible_def sessionReq_def zeroRequirements_def)

lemma empty_locks: "locksWF (st_sessionLocks emptyStore)" "sessionExclusive now (st_sessionLocks emptyStore)"
  by (simp_all add: locksWF_def sessionExclusive_def emptyStore_def bget_Nil)

lemma witness_acquired:
  "\<exists>st. acquireAdapterSessionLockTx plainLib ''alice'' sessionReq ''job'' ''job-1'' 0 10 True emptyStore = Inr st"
  by (simp add: acquireAdapterSessionLockTx_def adapterSessionBusyTx_def sessionReq_eligible emptyStore_def prefixScan_def)

theorem session_lock_exclusive_witness:
  "\<exists>st. acquireAdapterSessionLockTx plainLib ''alice'' sessionReq ''job'' ''job-1'' 0 10 True emptyStore = Inr st
     \<and> sessionExclusive 99 (st_sessionLocks st)"
proof -
  obtain st where st: "acquireAdapterSessionLockTx plainLib ''alice'' sessionReq ''job'' ''job-1'' 0 10 True emptyStore = Inr st"
    using witness_acquired by blast
  from session_lock_exclusive [OF empty_locks(1) empty_locks(2) sessionReq_eligible st] st show ?thesis by auto
qed

theorem session_lock_refused_while_held_witness:
  "acquireAdapterSessionLockTx plainLib ''alice'' sessionReq ''job'' ''job-2'' 0 11 True
     (putLock plainLib ''alice'' sessionReq ''job'' ''job-1'' 0 emptyStore) = Inl ErrAdapterSessionBusy"
  by (rule session_lock_refused_while_held [where k = "adapterSessionLockKey plainLib ''alice'' sessionReq ''job'' ''job-1''"
        and l = "\<lparr>lock_Kind = ''job'', lock_HolderID = ''job-1'', lock_Scope = adapterSessionLockScope plainLib sessionReq, lock_ExpiresAt = 0\<rparr>"])
    (simp add: putLock_wf empty_locks,
     simp_all add: sessionReq_eligible putLock_def bget_putJSON lockBaseOf_key
      adapterSessionLockActive_def scopesConflict_def)

definition runningStore :: store where
  "runningStore = emptyStore\<lparr>st_jobs := [(''job-1'', Val (zeroJob\<lparr>job_ID := ''job-1'', job_OwnerSubject := ''alice'',
     job_Status := JobRunning, job_Requirements := sessionReq\<rparr>))]\<rparr>"

theorem rebuilt_locks_cover_active_jobs_witness:
  "\<exists>st. rebuildAdapterSessionLocks plainLib 5 runningStore = Inr st \<and>
     adapterSessionJobLockExistsTx plainLib st (zeroJob\<lparr>job_ID := ''job-1'', job_OwnerSubject := ''alice'',
       job_Status := JobRunning, job_Requirements := sessionReq\<rparr>)"
proof -
  let ?j = "zeroJob\<lparr>job_ID := ''job-1'', job_OwnerSubject := ''alice'', job_Status := JobRunning, job_Requirements := sessionReq\<rparr>"
  have h: "jobHoldsSession ?j" by (simp add: jobHoldsSession_def)
  have e: "adapterSessionLockEligible plainLib (job_Requirements ?j)" using sessionReq_eligible by simp
  have "\<exists>st. rebuildAdapterSessionLocks plainLib 5 runningStore = Inr st"
    by (simp add: rebuildAdapterSessionLocks_def runningStore_def emptyStore_def h)
  then obtain st where st: "rebuildAdapterSessionLocks plainLib 5 runningStore = Inr st" by blast
  have "bordered (st_jobs runningStore)" "bget (st_jobs runningStore) ''job-1'' = Some (Val ?j)"
    by (simp_all add: runningStore_def bordered_def bget_def)
  from rebuilt_locks_cover_active_jobs [OF this(1) st this(2) h e] st show ?thesis by blast
qed

end
