(* ===== verification/Event_Log.thy ===== *)
theory Event_Log
  imports Job_Queue
begin

text \<open>
  The per-job and per-run event logs (\<open>internal/cluster/store.go\<close>, \<open>jobEventKey\<close> to
  \<open>listExecutionEvents\<close>). A log numbers its events from 1, keeps the last 256 of them and at
  most 64 advisory progress reports of a worker; a client resumes reading after the last number it
  saw and is told when numbers it missed are gone. \<open>logInv\<close> states the retained window exactly.
  The test hook of the store (nil outside tests) is not modelled.
\<close>

definition maximumRetainedJobEvents :: u64 where "maximumRetainedJobEvents = 256"
definition maximumAdvisoryProgressEventsPerJob :: u64 where "maximumAdvisoryProgressEventsPerJob = 64"
definition JobEventSchemaV1 :: string where "JobEventSchemaV1 = ''contextbridge.event.v1''"

datatype eventRoot = JobEventsRoot | PipelineEventsRoot

fun eventLogs :: "eventRoot \<Rightarrow> store \<Rightarrow> eventLog bucket" where
  "eventLogs JobEventsRoot st = st_jobEvents st"
| "eventLogs PipelineEventsRoot st = st_pipelineEvents st"

fun putEventLog :: "eventRoot \<Rightarrow> string \<Rightarrow> eventLog \<Rightarrow> store \<Rightarrow> store" where
  "putEventLog JobEventsRoot scope elog st = st\<lparr>st_jobEvents := bput scope elog (st_jobEvents st)\<rparr>"
| "putEventLog PipelineEventsRoot scope elog st = st\<lparr>st_pipelineEvents := bput scope elog (st_pipelineEvents st)\<rparr>"

definition emptyLog :: eventLog where
  "emptyLog = \<lparr>log_Sequence = 0, log_ProgressCount = 0, log_Events = []\<rparr>"

definition scopeLog :: "eventRoot \<Rightarrow> string \<Rightarrow> store \<Rightarrow> eventLog" where
  "scopeLog rootName scope st = (case bget (eventLogs rootName st) scope of None \<Rightarrow> emptyLog | Some elog \<Rightarrow> elog)"

section \<open>Appending\<close>

text \<open>The work on one log; \<open>now\<close> dates an event that carries no time.\<close>

definition appendToLog :: "gotime \<Rightarrow> jobEvent \<Rightarrow> eventLog \<Rightarrow> eventLog result" where
  "appendToLog now event elog =
     (if log_Sequence elog = - 1 then Inl (ErrText ''job event sequence exhausted'')
      else let sequence = log_Sequence elog + 1;
               event = event\<lparr>ev_Sequence := sequence, ev_Time := (if ev_Time event = 0 then now else ev_Time event)\<rparr>;
               events = bput sequence (Val event) (log_Events elog)
           in Inr (elog\<lparr>log_Sequence := sequence,
                       log_Events := (if sequence > maximumRetainedJobEvents
                                      then bdelete (sequence - maximumRetainedJobEvents) events else events)\<rparr>))"

text \<open>\<open>CreateBucketIfNotExists\<close> refuses an empty bucket name.\<close>

definition appendExecutionEventTx :: "gotime \<Rightarrow> eventRoot \<Rightarrow> string \<Rightarrow> jobEvent \<Rightarrow> store \<Rightarrow> store result" where
  "appendExecutionEventTx now rootName scopeID event st =
     bindE (failWhen (scopeID = []) (ErrText ''bucket name required'')) (\<lambda>_.
     bindE (appendToLog now event (scopeLog rootName scopeID st)) (\<lambda>elog.
     Inr (putEventLog rootName scopeID elog st)))"

definition relayEvent :: "string \<Rightarrow> string \<Rightarrow> string \<Rightarrow> gotime \<Rightarrow> int \<Rightarrow> string \<Rightarrow> string \<Rightarrow> jobEvent" where
  "relayEvent jobID runID eventType time attempt nodeID stepID =
     \<lparr>ev_Schema = JobEventSchemaV1, ev_JobID = jobID, ev_RunID = runID, ev_Sequence = 0,
      ev_Type = eventType, ev_Source = ''relay'', ev_Authority = ''authoritative'', ev_Time = time,
      ev_Attempt = attempt, ev_NodeID = nodeID, ev_StepID = stepID, ev_Progress = None\<rparr>"

definition authoritativeJobEvents :: "string list" where
  "authoritativeJobEvents = [''job.accepted'', ''job.queued'', ''route.selected'', ''worker.assigned'',
     ''execution.started'', ''job.retrying'', ''job.completed'', ''job.failed'', ''job.cancelled'',
     ''job.ambiguous'']"

definition appendAuthoritativeJobEventTx :: "gotime \<Rightarrow> job \<Rightarrow> string \<Rightarrow> store \<Rightarrow> store result" where
  "appendAuthoritativeJobEventTx now job eventType st =
     bindE (failWhen (eventType \<notin> set authoritativeJobEvents) (ErrText ''unsupported authoritative job event'')) (\<lambda>_.
     let timestamp = (if job_UpdatedAt job = 0 then now else job_UpdatedAt job) in
     appendExecutionEventTx now JobEventsRoot (job_ID job)
       (relayEvent (job_ID job) [] eventType timestamp (job_Attempt job) (job_AssignedNode job) (job_Step job)) st)"

definition progressEvent :: "job \<Rightarrow> jobProgress \<Rightarrow> jobEvent" where
  "progressEvent job progress =
     \<lparr>ev_Schema = JobEventSchemaV1, ev_JobID = job_ID job, ev_RunID = [], ev_Sequence = 0,
      ev_Type = ''execution.progress'', ev_Source = ''worker'', ev_Authority = ''advisory'',
      ev_Time = prog_UpdatedAt progress, ev_Attempt = job_Attempt job, ev_NodeID = job_AssignedNode job,
      ev_StepID = job_Step job,
      ev_Progress = Some \<lparr>evp_ReportedSequence = prog_Sequence progress, evp_Phase = prog_Phase progress,
        evp_Percent = prog_Percent progress, evp_Busy = prog_Busy progress\<rparr>\<rparr>"

definition appendAdvisoryJobProgressEventTx :: "gotime \<Rightarrow> job \<Rightarrow> jobProgress \<Rightarrow> store \<Rightarrow> store result" where
  "appendAdvisoryJobProgressEventTx now job progress st =
     bindE (failWhen (job_ID job = []) (ErrText ''bucket name required'')) (\<lambda>_.
     let count = log_ProgressCount (scopeLog JobEventsRoot (job_ID job) st) in
     if count \<ge> maximumAdvisoryProgressEventsPerJob
     then Inr (putEventLog JobEventsRoot (job_ID job) (scopeLog JobEventsRoot (job_ID job) st) st)
     else bindE (appendExecutionEventTx now JobEventsRoot (job_ID job) (progressEvent job progress) st) (\<lambda>st.
          Inr (putEventLog JobEventsRoot (job_ID job)
                ((scopeLog JobEventsRoot (job_ID job) st)\<lparr>log_ProgressCount := count + 1\<rparr>) st)))"

definition appendPipelineEventTx :: "gotime \<Rightarrow> pipelineRun \<Rightarrow> string \<Rightarrow> store \<Rightarrow> store result" where
  "appendPipelineEventTx now run eventType st =
     bindE (failWhen (eventType \<notin> {''pipeline.started'', ''pipeline.completed'', ''pipeline.failed'', ''pipeline.cancelled''})
              (ErrText ''unsupported authoritative pipeline event'')) (\<lambda>_.
     let timestamp = (if run_FinishedAt run \<noteq> 0 then run_FinishedAt run else run_CreatedAt run) in
     appendExecutionEventTx now PipelineEventsRoot (run_ID run)
       (relayEvent [] (run_ID run) eventType timestamp 0 [] []) st)"

definition appendPipelineStepEventTx :: "gotime \<Rightarrow> job \<Rightarrow> string \<Rightarrow> store \<Rightarrow> store result" where
  "appendPipelineStepEventTx now job eventType st =
     (if job_ParentID job = [] \<or> job_Step job = [] then Inr st
      else bindE (failWhen (eventType \<notin> {''pipeline.step.queued'', ''pipeline.step.started'', ''pipeline.step.completed'',
                     ''pipeline.step.failed'', ''pipeline.step.cancelled'', ''pipeline.step.ambiguous''})
              (ErrText ''unsupported authoritative pipeline step event'')) (\<lambda>_.
           appendExecutionEventTx now PipelineEventsRoot (job_ParentID job)
             (relayEvent (job_ID job) (job_ParentID job) eventType (job_UpdatedAt job) (job_Attempt job)
                (job_AssignedNode job) (job_Step job)) st))"

definition appendPipelineNodeCheckpointEventTx ::
  "gotime \<Rightarrow> pipelineRun \<Rightarrow> pipelineNodeCheckpoint \<Rightarrow> string \<Rightarrow> store \<Rightarrow> store result" where
  "appendPipelineNodeCheckpointEventTx now run node eventType st =
     bindE (failWhen (eventType \<notin> {''pipeline.step.ready'', ''pipeline.step.blocked''})
              (ErrText ''unsupported authoritative pipeline checkpoint event'')) (\<lambda>_.
     appendExecutionEventTx now PipelineEventsRoot (run_ID run)
       (relayEvent [] (run_ID run) eventType (pnc_UpdatedAt node) 0 [] (pnc_Step node)) st)"

section \<open>Reading\<close>

record jobEventPage =
  page_Events :: "jobEvent list"
  page_After :: u64
  page_Next :: u64
  page_OldestRetained :: u64
  page_Newest :: u64
  page_Gap :: bool

fun collectEvent :: "u64 \<times> jobEvent cell \<Rightarrow> jobEventPage \<Rightarrow> jobEventPage result" where
  "collectEvent (_, Garbled) page = Inl ErrDecode"
| "collectEvent (_, Val event) page =
     Inr (page\<lparr>page_Events := page_Events page @ [event], page_Next := ev_Sequence event\<rparr>)"

definition readLog :: "eventLog \<Rightarrow> u64 \<Rightarrow> nat \<Rightarrow> jobEventPage result" where
  "readLog elog after limit =
     (let empty = \<lparr>page_Events = [], page_After = after, page_Next = after, page_OldestRetained = 0,
                   page_Newest = log_Sequence elog, page_Gap = False\<rparr>;
          page = (case filter (\<lambda>e. 1 \<le> fst e) (log_Events elog) of
                    [] \<Rightarrow> empty
                  | first # _ \<Rightarrow> empty\<lparr>page_OldestRetained := fst first,
                                        page_Gap := (after \<noteq> - 1 \<and> after + 1 < fst first)\<rparr>)
      in if after = - 1 then Inr page
         else foldE collectEvent (take limit (filter (\<lambda>e. after + 1 \<le> fst e) (log_Events elog))) page)"

definition pageLimit :: "int \<Rightarrow> nat" where
  "pageLimit limit = (if limit \<le> 0 \<or> limit > 500 then 100 else nat limit)"

definition listExecutionEvents :: "eventRoot \<Rightarrow> string \<Rightarrow> u64 \<Rightarrow> int \<Rightarrow> store \<Rightarrow> jobEventPage result" where
  "listExecutionEvents rootName scopeID after limit st =
     bindE (failWhen (\<not> validJobID scopeID) (ErrText ''invalid execution id'')) (\<lambda>_.
     case bget (eventLogs rootName st) scopeID of
       None \<Rightarrow> Inr \<lparr>page_Events = [], page_After = after, page_Next = after, page_OldestRetained = 0,
                    page_Newest = 0, page_Gap = False\<rparr>
     | Some elog \<Rightarrow> readLog elog after (pageLimit limit))"

section \<open>The retained window\<close>

text \<open>A log that has numbered \<open>n\<close> events holds exactly the numbers from \<open>n - 255\<close> (or 1)
  to \<open>n\<close>, each under its own number, and at most as many worker reports as it counted.\<close>

definition retained :: "nat \<Rightarrow> u64 list" where
  "retained n = map of_nat [Suc (n - 256) ..< Suc n]"

fun advisoryCell :: "u64 \<times> jobEvent cell \<Rightarrow> bool" where
  "advisoryCell (_, Val event) = (ev_Authority event = ''advisory'')"
| "advisoryCell (_, Garbled) = False"

fun numbered :: "u64 \<times> jobEvent cell \<Rightarrow> bool" where
  "numbered (s, Val event) = (ev_Sequence event = s)"
| "numbered (s, Garbled) = False"

definition logInv :: "eventLog \<Rightarrow> bool" where
  "logInv elog \<longleftrightarrow> map fst (log_Events elog) = retained (unat (log_Sequence elog))
     \<and> list_all numbered (log_Events elog)
     \<and> length (filter advisoryCell (log_Events elog)) \<le> unat (log_ProgressCount elog)
     \<and> log_ProgressCount elog \<le> maximumAdvisoryProgressEventsPerJob"

lemma logInv_empty: "logInv emptyLog"
  by (simp add: logInv_def emptyLog_def retained_def)

lemma unat_of_nat_u64: "n < 2 ^ 64 \<Longrightarrow> unat (of_nat n :: u64) = n"
  by (simp add: unsigned_of_nat take_bit_nat_eq_self)

lemma of_nat_u64_eq: "m < 2 ^ 64 \<Longrightarrow> n < 2 ^ 64 \<Longrightarrow> (of_nat m :: u64) = of_nat n \<longleftrightarrow> m = n"
  by (metis unat_of_nat_u64)

lemma of_nat_u64_less: "m < 2 ^ 64 \<Longrightarrow> n < 2 ^ 64 \<Longrightarrow> (of_nat m :: u64) < of_nat n \<longleftrightarrow> m < n"
  by (simp add: word_less_nat_alt unat_of_nat_u64)

lemma unat_u64_bound: "unat (x :: u64) < 2 ^ 64"
  using unsigned_less [of x] by simp

lemma unat_succ_u64: "(x :: u64) \<noteq> - 1 \<Longrightarrow> unat (x + 1) = Suc (unat x)"
proof -
  assume "x \<noteq> - 1"
  then have "unat x \<noteq> 2 ^ 64 - 1" using unat_minus_one_word_u64 by (metis unsigned_word_eqI)
  then have "unat x + 1 < 2 ^ 64" using unat_u64_bound [of x] by linarith
  then show ?thesis by (simp add: unat_word_ariths)
qed

lemma retained_window:
  "Suc n < 2 ^ 64 \<Longrightarrow> s \<in> set (retained n) \<longleftrightarrow> n - 256 < unat s \<and> unat s \<le> n"
  by (force simp: retained_def unat_of_nat_u64 image_iff intro: exI [of _ "unat s"])

lemma map_fst_bdelete: "map fst (bdelete k b) = filter (\<lambda>x. x \<noteq> k) (map fst b)"
  by (simp add: bdelete_def filter_map comp_def)

lemma advisory_bdelete:
  "length (filter advisoryCell (bdelete k b)) \<le> length (filter advisoryCell b)"
proof -
  have "filter advisoryCell (bdelete k b) = filter (\<lambda>e. fst e \<noteq> k) (filter advisoryCell b)"
    by (simp add: bdelete_def conj_commute)
  then show ?thesis by (metis length_filter_le)
qed

lemma retained_step:
  assumes "Suc n < 2 ^ 64"
  shows "retained (Suc n) = (if 256 < Suc n then filter (\<lambda>x. x \<noteq> of_nat (Suc n - 256)) (retained n @ [of_nat (Suc n)])
     else retained n @ [of_nat (Suc n)])"
proof (cases "256 < Suc n")
  case True
  define lo where "lo = Suc (n - 256)"
  have lo: "Suc n - 256 = lo" "lo < Suc n" using True by (auto simp: lo_def)
  have r: "retained n = of_nat lo # map of_nat [Suc lo ..< Suc n]"
    using lo(2) by (simp add: retained_def lo_def upt_conv_Cons del: of_nat_Suc upt_Suc)
  have r': "retained (Suc n) = map of_nat [Suc lo ..< Suc n] @ [of_nat (Suc n)]"
    using lo by (simp add: retained_def del: of_nat_Suc upt_Suc) (simp add: del: of_nat_Suc)
  have ne: "i \<in> set [Suc lo ..< Suc (Suc n)] \<Longrightarrow> (of_nat i :: u64) \<noteq> of_nat lo" for i
    using assms by (auto simp: of_nat_u64_eq simp del: of_nat_Suc)
  have "filter (\<lambda>x. x \<noteq> of_nat lo) (map (of_nat :: nat \<Rightarrow> u64) [Suc lo ..< Suc n]) = map of_nat [Suc lo ..< Suc n]"
    using ne by (intro filter_True) auto
  moreover have "(of_nat (Suc n) :: u64) \<noteq> of_nat lo" using ne [of "Suc n"] lo(2) by simp
  ultimately show ?thesis
    using True by (simp only: lo(1) r r' if_True append_Cons filter_append filter.simps simp_thms if_False)
next
  case False
  then show ?thesis by (simp add: retained_def)
qed

lemma appendToLog_step:
  assumes inv: "logInv elog" and app: "appendToLog now event elog = Inr elog'"
  shows "unat (log_Sequence elog') = Suc (unat (log_Sequence elog))
    \<and> map fst (log_Events elog') = retained (unat (log_Sequence elog')) \<and> list_all numbered (log_Events elog')
    \<and> log_ProgressCount elog' = log_ProgressCount elog
    \<and> length (filter advisoryCell (log_Events elog')) \<le> length (filter advisoryCell (log_Events elog)) +
        (if ev_Authority event = ''advisory'' then 1 else 0)
    \<and> last (log_Events elog') = (log_Sequence elog', Val (event\<lparr>ev_Sequence := log_Sequence elog',
         ev_Time := if ev_Time event = 0 then now else ev_Time event\<rparr>))"
proof -
  let ?n = "unat (log_Sequence elog)" and ?s = "log_Sequence elog + 1"
  let ?e = "event\<lparr>ev_Sequence := ?s, ev_Time := if ev_Time event = 0 then now else ev_Time event\<rparr>"
  from app have ns: "log_Sequence elog \<noteq> - 1" by (auto simp: appendToLog_def split: if_splits)
  have un: "unat ?s = Suc ?n" using unat_succ_u64 [OF ns] .
  have lim: "Suc ?n < 2 ^ 64" using unat_u64_bound [of ?s] un by simp
  have keys: "map fst (log_Events elog) = retained ?n" using inv by (simp add: logInv_def)
  have sn: "of_nat (Suc ?n) = ?s" by (simp add: add.commute)
  have "\<forall>x \<in> fst ` set (log_Events elog). x < ?s"
  proof
    fix x assume "x \<in> fst ` set (log_Events elog)"
    then have "x \<in> set (retained ?n)" using keys by (metis list.set_map)
    then show "x < ?s" using retained_window [OF lim] un by (simp add: word_less_nat_alt)
  qed
  then have put: "bput ?s (Val ?e) (log_Events elog) = log_Events elog @ [(?s, Val ?e)]" by (rule bput_last)
  have gt: "?s > maximumRetainedJobEvents \<longleftrightarrow> 256 < Suc ?n"
    using un by (simp add: word_less_nat_alt maximumRetainedJobEvents_def)
  have sub: "256 < Suc ?n \<Longrightarrow> ?s - maximumRetainedJobEvents = of_nat (Suc ?n - 256)"
    using sn by (simp add: maximumRetainedJobEvents_def of_nat_diff del: of_nat_Suc)
  define evs where "evs = (if ?s > maximumRetainedJobEvents
      then bdelete (?s - maximumRetainedJobEvents) (log_Events elog @ [(?s, Val ?e)]) else log_Events elog @ [(?s, Val ?e)])"
  have elog': "elog' = elog\<lparr>log_Sequence := ?s, log_Events := evs\<rparr>"
    using app ns put by (auto simp: appendToLog_def Let_def evs_def)
  have "map fst evs = retained (Suc ?n)"
    unfolding retained_step [OF lim] evs_def gt
    by (cases "256 < Suc ?n") (simp_all only: if_True if_False sub map_fst_bdelete map_append keys sn list.map fst_conv)
  moreover have sub_evs: "set evs \<subseteq> set (log_Events elog @ [(?s, Val ?e)])"
    by (auto simp: evs_def bdelete_def)
  have "list_all numbered evs"
    using inv sub_evs by (auto simp: logInv_def list_all_iff)
  moreover have "length (filter advisoryCell evs) \<le> length (filter advisoryCell (log_Events elog @ [(?s, Val ?e)]))"
    unfolding evs_def using advisory_bdelete by (auto simp del: filter_append)
  moreover have "last evs = (?s, Val ?e)"
    by (simp add: evs_def bdelete_def maximumRetainedJobEvents_def)
  ultimately show ?thesis using un by (simp add: elog' split: if_splits)
qed

section \<open>The logs of the store\<close>

definition eventsInv :: "store \<Rightarrow> bool" where
  "eventsInv st \<longleftrightarrow> (\<forall>rootName scope. logInv (scopeLog rootName scope st))"

lemma eventLogs_put:
  "eventLogs r (putEventLog r' scope elog st) =
     (if r = r' then bput scope elog (eventLogs r st) else eventLogs r st)"
  by (cases r; cases r') auto

lemma scopeLog_put:
  "scopeLog r s (putEventLog r' s' elog st) = (if r = r' \<and> s = s' then elog else scopeLog r s st)"
  by (auto simp: scopeLog_def eventLogs_put bucket_simps)

lemma putEventLog_frame [store_frame]:
  "st_jobs (putEventLog r s elog st) = st_jobs st"
  "st_jobIndex (putEventLog r s elog st) = st_jobIndex st"
  "st_jobOwnerIndex (putEventLog r s elog st) = st_jobOwnerIndex st"
  "st_jobOwnerLookup (putEventLog r s elog st) = st_jobOwnerLookup st"
  "st_queue (putEventLog r s elog st) = st_queue st"
  "st_queueJobIndex (putEventLog r s elog st) = st_queueJobIndex st"
  "st_queueCounts (putEventLog r s elog st) = st_queueCounts st"
  "st_idempotency (putEventLog r s elog st) = st_idempotency st"
  "st_idempotencyByJob (putEventLog r s elog st) = st_idempotencyByJob st"
  "st_rateWindows (putEventLog r s elog st) = st_rateWindows st"
  "st_nodes (putEventLog r s elog st) = st_nodes st"
  "st_tokens (putEventLog r s elog st) = st_tokens st"
  "st_pipelineRuns (putEventLog r s elog st) = st_pipelineRuns st"
  "st_sessionPlacements (putEventLog r s elog st) = st_sessionPlacements st"
  "st_sessionLocks (putEventLog r s elog st) = st_sessionLocks st"
  "st_assignments (putEventLog r s elog st) = st_assignments st"
  by (cases r; simp)+

declare eventLogs.simps [simp del] putEventLog.simps [simp del]

text \<open>Everything outside the logs.\<close>

definition outsideLogs :: "store \<Rightarrow> store" where
  "outsideLogs st = st\<lparr>st_jobEvents := [], st_pipelineEvents := []\<rparr>"

lemma outsideLogs_put [simp]: "outsideLogs (putEventLog r s elog st) = outsideLogs st"
  by (cases r) (simp_all add: outsideLogs_def putEventLog.simps)

lemma appendExecutionEventTx_spec:
  assumes "appendExecutionEventTx now r scope event st = Inr st'"
  shows "\<exists>elog. appendToLog now event (scopeLog r scope st) = Inr elog \<and> st' = putEventLog r scope elog st \<and> scope \<noteq> []"
  using assms by (auto simp: appendExecutionEventTx_def result_simps)

lemma appendExecutionEventTx_inv:
  assumes "appendExecutionEventTx now r scope event st = Inr st'" and "eventsInv st"
    and "ev_Authority event \<noteq> ''advisory''"
  shows "eventsInv st' \<and> outsideLogs st' = outsideLogs st"
proof -
  from appendExecutionEventTx_spec [OF assms(1)] obtain elog where
    app: "appendToLog now event (scopeLog r scope st) = Inr elog" and st': "st' = putEventLog r scope elog st" by auto
  have inv: "logInv (scopeLog r scope st)" using assms(2) by (simp add: eventsInv_def)
  have "logInv elog" using appendToLog_step [OF inv app] inv assms(3) by (simp add: logInv_def)
  then show ?thesis using assms(2) by (simp add: eventsInv_def st' scopeLog_put)
qed

lemma relayEvent_authority [simp]: "ev_Authority (relayEvent a b c d e f g) = ''authoritative''"
  by (simp add: relayEvent_def)

lemma append_events_inv:
  "eventsInv st \<Longrightarrow> appendAuthoritativeJobEventTx now job t st = Inr st' \<Longrightarrow> eventsInv st' \<and> outsideLogs st' = outsideLogs st"
  "eventsInv st \<Longrightarrow> appendPipelineEventTx now run t st = Inr st' \<Longrightarrow> eventsInv st' \<and> outsideLogs st' = outsideLogs st"
  "eventsInv st \<Longrightarrow> appendPipelineStepEventTx now job t st = Inr st' \<Longrightarrow> eventsInv st' \<and> outsideLogs st' = outsideLogs st"
  "eventsInv st \<Longrightarrow> appendPipelineNodeCheckpointEventTx now run n t st = Inr st' \<Longrightarrow>
     eventsInv st' \<and> outsideLogs st' = outsideLogs st"
  by (auto simp: appendAuthoritativeJobEventTx_def appendPipelineEventTx_def appendPipelineStepEventTx_def
      appendPipelineNodeCheckpointEventTx_def result_simps Let_def
      dest: appendExecutionEventTx_inv split: if_splits)

lemma append_outside:
  "appendExecutionEventTx now r scope event st = Inr st' \<Longrightarrow> outsideLogs st' = outsideLogs st"
  "appendAuthoritativeJobEventTx now job t st = Inr st' \<Longrightarrow> outsideLogs st' = outsideLogs st"
  "appendPipelineStepEventTx now job t st = Inr st' \<Longrightarrow> outsideLogs st' = outsideLogs st"
  "appendPipelineEventTx now run t st = Inr st' \<Longrightarrow> outsideLogs st' = outsideLogs st"
  "appendPipelineNodeCheckpointEventTx now run n t st = Inr st' \<Longrightarrow> outsideLogs st' = outsideLogs st"
  "appendAdvisoryJobProgressEventTx now job p st = Inr st' \<Longrightarrow> outsideLogs st' = outsideLogs st"
  by (auto simp: appendAuthoritativeJobEventTx_def appendPipelineEventTx_def appendPipelineStepEventTx_def
      appendPipelineNodeCheckpointEventTx_def appendAdvisoryJobProgressEventTx_def appendExecutionEventTx_def
      result_simps Let_def split: if_splits)

lemma outsideLogs_sel:
  "st_jobs (outsideLogs st) = st_jobs st"
  "st_jobIndex (outsideLogs st) = st_jobIndex st"
  "st_jobOwnerIndex (outsideLogs st) = st_jobOwnerIndex st"
  "st_jobOwnerLookup (outsideLogs st) = st_jobOwnerLookup st"
  "st_queue (outsideLogs st) = st_queue st"
  "st_queueJobIndex (outsideLogs st) = st_queueJobIndex st"
  "st_queueCounts (outsideLogs st) = st_queueCounts st"
  "st_idempotency (outsideLogs st) = st_idempotency st"
  "st_idempotencyByJob (outsideLogs st) = st_idempotencyByJob st"
  "st_rateWindows (outsideLogs st) = st_rateWindows st"
  "st_nodes (outsideLogs st) = st_nodes st"
  "st_tokens (outsideLogs st) = st_tokens st"
  "st_pipelineRuns (outsideLogs st) = st_pipelineRuns st"
  "st_sessionPlacements (outsideLogs st) = st_sessionPlacements st"
  "st_sessionLocks (outsideLogs st) = st_sessionLocks st"
  "st_assignments (outsideLogs st) = st_assignments st"
  by (simp_all add: outsideLogs_def)

lemma outsideLogs_fields:
  assumes "outsideLogs st' = outsideLogs st"
  shows "st_jobs st' = st_jobs st"
    "st_jobIndex st' = st_jobIndex st"
    "st_jobOwnerIndex st' = st_jobOwnerIndex st"
    "st_jobOwnerLookup st' = st_jobOwnerLookup st"
    "st_queue st' = st_queue st"
    "st_queueJobIndex st' = st_queueJobIndex st"
    "st_queueCounts st' = st_queueCounts st"
    "st_idempotency st' = st_idempotency st"
    "st_idempotencyByJob st' = st_idempotencyByJob st"
    "st_rateWindows st' = st_rateWindows st"
    "st_nodes st' = st_nodes st"
    "st_tokens st' = st_tokens st"
    "st_pipelineRuns st' = st_pipelineRuns st"
    "st_sessionPlacements st' = st_sessionPlacements st"
    "st_sessionLocks st' = st_sessionLocks st"
    "st_assignments st' = st_assignments st"
  using assms outsideLogs_sel [of st] outsideLogs_sel [of st'] by simp_all

lemma advisory_inv:
  assumes "eventsInv st" and "appendAdvisoryJobProgressEventTx now job progress st = Inr st'"
  shows "eventsInv st'"
proof -
  let ?log = "scopeLog JobEventsRoot (job_ID job) st"
  have inv: "logInv ?log" using assms(1) by (simp add: eventsInv_def)
  show ?thesis
  proof (cases "log_ProgressCount ?log \<ge> maximumAdvisoryProgressEventsPerJob")
    case True
    then have "st' = putEventLog JobEventsRoot (job_ID job) ?log st"
      using assms(2) by (auto simp: appendAdvisoryJobProgressEventTx_def result_simps Let_def)
    then show ?thesis using assms(1) inv by (simp add: eventsInv_def scopeLog_put)
  next
    case False
    then obtain mid where mid: "appendExecutionEventTx now JobEventsRoot (job_ID job) (progressEvent job progress) st = Inr mid"
      and st': "st' = putEventLog JobEventsRoot (job_ID job)
          ((scopeLog JobEventsRoot (job_ID job) mid)\<lparr>log_ProgressCount := log_ProgressCount ?log + 1\<rparr>) mid"
      using assms(2) by (auto simp: appendAdvisoryJobProgressEventTx_def result_simps Let_def)
    from appendExecutionEventTx_spec [OF mid] obtain elog where
      app: "appendToLog now (progressEvent job progress) ?log = Inr elog" and
      m: "mid = putEventLog JobEventsRoot (job_ID job) elog st" by auto
    have below: "unat (log_ProgressCount ?log) < 64"
      using False by (simp add: maximumAdvisoryProgressEventsPerJob_def word_le_nat_alt)
    then have up: "unat (log_ProgressCount ?log + 1) = Suc (unat (log_ProgressCount ?log))"
      by (simp add: unat_word_ariths)
    have "logInv (elog\<lparr>log_ProgressCount := log_ProgressCount ?log + 1\<rparr>)"
      using appendToLog_step [OF inv app] inv below up
      by (auto simp: logInv_def progressEvent_def maximumAdvisoryProgressEventsPerJob_def word_le_nat_alt)
    then show ?thesis using assms(1) by (simp add: eventsInv_def st' m scopeLog_put)
  qed
qed

lemma eventsInv_empty: "eventsInv emptyStore"
proof -
  have "scopeLog r s emptyStore = emptyLog" for r s
    by (cases r) (simp_all add: scopeLog_def emptyStore_def bucket_simps eventLogs.simps)
  then show ?thesis by (simp add: eventsInv_def logInv_empty)
qed

section \<open>Resuming a reader\<close>

lemma collect_fold:
  "list_all numbered xs \<Longrightarrow> \<exists>evs. foldE collectEvent xs page =
     Inr (page\<lparr>page_Events := page_Events page @ evs, page_Next := (if evs = [] then page_Next page else ev_Sequence (last evs))\<rparr>)
     \<and> map ev_Sequence evs = map fst xs \<and> map Val evs = map snd xs"
proof (induction xs arbitrary: page)
  case Nil
  have "page = page\<lparr>page_Events := page_Events page @ [], page_Next := page_Next page\<rparr>" by simp
  then show ?case by (intro exI [of _ "[]"]) simp
next
  case (Cons x xs)
  obtain s c where x: "x = (s, c)" by force
  with Cons.prems obtain ev where c: "c = Val ev" "ev_Sequence ev = s" by (cases c) auto
  let ?p = "page\<lparr>page_Events := page_Events page @ [ev], page_Next := ev_Sequence ev\<rparr>"
  from Cons.IH [of ?p] Cons.prems obtain evs where
    "foldE collectEvent xs ?p = Inr (?p\<lparr>page_Events := page_Events ?p @ evs,
       page_Next := (if evs = [] then page_Next ?p else ev_Sequence (last evs))\<rparr>)"
    "map ev_Sequence evs = map fst xs" "map Val evs = map snd xs" by auto
  then show ?case by (intro exI [of _ "ev # evs"]) (auto simp: x c)
qed

lemma filter_upt_from: "filter (\<lambda>i. m \<le> i) [a ..< b] = [max m a ..< b]"
  by (induction b) (auto simp: max_def)

lemma filter_map_fst: "map fst (filter (\<lambda>e. P (fst e)) xs) = filter P (map fst xs)"
  by (simp add: filter_map comp_def)

lemma retained_after:
  assumes "Suc n \<le> 2 ^ 64" and "after \<noteq> - 1"
  shows "map unat (filter (\<lambda>s. after + 1 \<le> s) (retained n)) = [max (Suc (unat after)) (Suc (n - 256)) ..< Suc n]"
proof -
  have "filter (\<lambda>s. after + 1 \<le> s) (retained n) =
      map of_nat (filter (\<lambda>i. after + 1 \<le> (of_nat i :: u64)) [Suc (n - 256) ..< Suc n])"
    by (simp add: retained_def filter_map comp_def del: upt_Suc)
  also have "filter (\<lambda>i. after + 1 \<le> (of_nat i :: u64)) [Suc (n - 256) ..< Suc n] =
      filter (\<lambda>i. Suc (unat after) \<le> i) [Suc (n - 256) ..< Suc n]"
    using assms by (intro filter_cong) (auto simp: word_le_nat_alt unat_of_nat_u64 unat_succ_u64 simp del: upt_Suc)
  also have "\<dots> = [max (Suc (unat after)) (Suc (n - 256)) ..< Suc n]" by (rule filter_upt_from)
  finally have e: "filter (\<lambda>s. after + 1 \<le> s) (retained n) = map of_nat [max (Suc (unat after)) (Suc (n - 256)) ..< Suc n]" .
  show ?thesis
    unfolding e list.map_comp using assms
    by (intro map_idI) (auto simp: unat_of_nat_u64 simp del: upt_Suc)
qed

lemma retained_hd: "0 < n \<Longrightarrow> \<exists>rest. retained n = of_nat (Suc (n - 256)) # rest"
  by (simp add: retained_def upt_conv_Cons del: upt_Suc of_nat_Suc)

lemma retained_positive:
  assumes "map fst evs = retained n" and "Suc n \<le> 2 ^ 64"
  shows "filter (\<lambda>e. 1 \<le> fst e) evs = evs"
proof (rule filter_True, rule ballI)
  fix e assume "e \<in> set evs"
  then have "fst e \<in> set (retained n)" using assms(1) by (metis in_set_conv_nth length_map nth_map nth_mem)
  then obtain i where i: "i \<in> set [Suc (n - 256) ..< Suc n]" "fst e = of_nat i"
    by (auto simp: retained_def simp del: upt_Suc)
  then have "0 < i" "i \<le> n" by auto
  with i(2) show "1 \<le> fst e" using assms(2) by (simp add: word_le_nat_alt unat_of_nat_u64)
qed

text \<open>C34: a reader that resumes after number \<open>after\<close> receives, in order and without holes, the
  retained events that follow it (up to the page limit), and the page reports a gap exactly when the
  next number it has not seen was dropped.\<close>

theorem event_replay_contiguous:
  assumes "logInv elog" and "after \<noteq> - 1"
  defines "n \<equiv> unat (log_Sequence elog)"
  shows "\<exists>page. readLog elog after limit = Inr page
    \<and> map (unat \<circ> ev_Sequence) (page_Events page) =
        take limit [max (Suc (unat after)) (Suc (n - 256)) ..< Suc n]
    \<and> page_Next page = (if page_Events page = [] then after else ev_Sequence (last (page_Events page)))
    \<and> page_Newest page = log_Sequence elog
    \<and> (page_Gap page \<longleftrightarrow> unat after < n - 256)"
proof -
  let ?xs = "take limit (filter (\<lambda>e. after + 1 \<le> fst e) (log_Events elog))"
  have keys: "map fst (log_Events elog) = retained n" and num: "list_all numbered (log_Events elog)"
    using assms(1) by (simp_all add: logInv_def n_def)
  have lim: "Suc n \<le> 2 ^ 64" using unat_u64_bound [of "log_Sequence elog"] by (simp add: n_def)
  have pos: "filter (\<lambda>e. 1 \<le> fst e) (log_Events elog) = log_Events elog"
    by (rule retained_positive [OF keys lim])
  have num': "list_all numbered ?xs"
    using num by (auto simp: list_all_iff dest: in_set_takeD)
  define start where "start = (case log_Events elog of
       [] \<Rightarrow> \<lparr>page_Events = [], page_After = after, page_Next = after, page_OldestRetained = 0,
                   page_Newest = log_Sequence elog, page_Gap = False\<rparr>
     | first # _ \<Rightarrow> \<lparr>page_Events = [], page_After = after, page_Next = after, page_OldestRetained = fst first,
                   page_Newest = log_Sequence elog, page_Gap = (after \<noteq> - 1 \<and> after + 1 < fst first)\<rparr>)"
  have start: "page_Events start = []" "page_Next start = after" "page_Newest start = log_Sequence elog"
    by (simp_all add: start_def split: list.splits)
  have gap: "page_Gap start \<longleftrightarrow> unat after < n - 256"
  proof (cases "n = 0")
    case True
    then have "log_Events elog = []" using keys by (simp add: retained_def)
    then show ?thesis using True by (simp add: start_def)
  next
    case False
    then obtain rest where "retained n = of_nat (Suc (n - 256)) # rest" using retained_hd by blast
    then obtain f fs where evs: "log_Events elog = f # fs" "fst f = of_nat (Suc (n - 256))"
      using keys by (cases "log_Events elog") auto
    have "unat (of_nat (Suc (n - 256)) :: u64) = Suc (n - 256)" using lim False by (intro unat_of_nat_u64) linarith
    then show ?thesis
      using assms(2) by (simp add: start_def evs word_less_nat_alt unat_succ_u64 del: of_nat_Suc)
  qed
  have read: "readLog elog after limit = foldE collectEvent ?xs start"
    using assms(2) by (simp add: readLog_def pos start_def Let_def split: list.splits)
  from collect_fold [OF num', of start] obtain evs where
    evs: "foldE collectEvent ?xs start = Inr (start\<lparr>page_Events := page_Events start @ evs,
       page_Next := (if evs = [] then page_Next start else ev_Sequence (last evs))\<rparr>)"
    "map ev_Sequence evs = map fst ?xs" by blast
  have "map (unat \<circ> ev_Sequence) evs = take limit (map unat (filter (\<lambda>s. after + 1 \<le> s) (retained n)))"
    using evs(2) keys filter_map_fst [of "\<lambda>s. after + 1 \<le> s" "log_Events elog"]
    by (metis (no_types, lifting) list.map_comp take_map)
  then show ?thesis
    using read evs(1) start gap retained_after [OF lim assms(2)] by auto
qed

text \<open>every relay event extends its log by exactly the next number, keeps the newest 256 events
  and nothing else, and touches no other part of the store.\<close>

theorem job_event_appended:
  assumes "eventsInv st" and "appendAuthoritativeJobEventTx now job eventType st = Inr st'"
  defines "elog \<equiv> scopeLog JobEventsRoot (job_ID job) st"
    and "elog' \<equiv> scopeLog JobEventsRoot (job_ID job) st'"
  shows "eventsInv st' \<and> outsideLogs st' = outsideLogs st
    \<and> unat (log_Sequence elog') = Suc (unat (log_Sequence elog))
    \<and> (\<exists>event. last (log_Events elog') = (log_Sequence elog', Val event) \<and> ev_Type event = eventType
         \<and> ev_Authority event = ''authoritative'' \<and> ev_JobID event = job_ID job)
    \<and> (\<forall>r s. (r, s) \<noteq> (JobEventsRoot, job_ID job) \<longrightarrow> scopeLog r s st' = scopeLog r s st)"
proof -
  define ev where "ev = relayEvent (job_ID job) [] eventType
    (if job_UpdatedAt job = 0 then now else job_UpdatedAt job) (job_Attempt job) (job_AssignedNode job) (job_Step job)"
  from assms(2) have "appendExecutionEventTx now JobEventsRoot (job_ID job) ev st = Inr st'"
    by (simp add: appendAuthoritativeJobEventTx_def result_simps Let_def ev_def)
  from appendExecutionEventTx_spec [OF this] obtain l where
    app: "appendToLog now ev elog = Inr l" and st': "st' = putEventLog JobEventsRoot (job_ID job) l st"
    by (auto simp: elog_def)
  have inv: "logInv elog" using assms(1) by (simp add: eventsInv_def elog_def)
  show ?thesis
    using append_events_inv(1) [OF assms(1,2)] appendToLog_step [OF inv app]
    by (auto simp: elog'_def st' scopeLog_put ev_def relayEvent_def)
qed

text \<open>A worker's progress reports never occupy more than 64 places of a job's log, whatever it
  sends.\<close>

theorem advisory_events_bounded:
  assumes "eventsInv st" and "appendAdvisoryJobProgressEventTx now job progress st = Inr st'"
  shows "eventsInv st' \<and> outsideLogs st' = outsideLogs st
    \<and> length (filter advisoryCell (log_Events (scopeLog JobEventsRoot (job_ID job) st'))) \<le> 64"
proof -
  have inv: "eventsInv st'" using assms by (rule advisory_inv)
  then have "logInv (scopeLog JobEventsRoot (job_ID job) st')" by (simp add: eventsInv_def)
  then have "length (filter advisoryCell (log_Events (scopeLog JobEventsRoot (job_ID job) st'))) \<le> 64"
    by (simp add: logInv_def maximumAdvisoryProgressEventsPerJob_def word_le_nat_alt)
  with inv append_outside(6) [OF assms(2)] show ?thesis by simp
qed

section \<open>Witnesses\<close>

lemma emptyStore_log: "scopeLog r s emptyStore = emptyLog"
  by (cases r) (simp_all add: scopeLog_def emptyStore_def bucket_simps eventLogs.simps)

definition witnessLog :: eventLog where
  "witnessLog = \<lparr>log_Sequence = 2, log_ProgressCount = 0, log_Events =
     [(1, Val ((relayEvent ''job-1'' [] ''job.accepted'' 5 0 [] [])\<lparr>ev_Sequence := 1\<rparr>)),
      (2, Val ((relayEvent ''job-1'' [] ''job.queued'' 5 0 [] [])\<lparr>ev_Sequence := 2\<rparr>))]\<rparr>"

lemma logInv_witnessLog: "logInv witnessLog"
  by (simp add: logInv_def witnessLog_def retained_def relayEvent_def upt_rec)

theorem event_replay_contiguous_witness:
  "\<exists>page. readLog witnessLog 1 100 = Inr page \<and> map (unat \<circ> ev_Sequence) (page_Events page) = [2]
     \<and> \<not> page_Gap page"
  using event_replay_contiguous [OF logInv_witnessLog, of 1 100] by (auto simp: witnessLog_def upt_rec)

theorem job_event_appended_witness:
  "\<exists>st. appendAuthoritativeJobEventTx 1 witnessJob ''job.queued'' emptyStore = Inr st
     \<and> unat (log_Sequence (scopeLog JobEventsRoot ''job-1'' st)) = 1"
proof -
  have id: "job_ID witnessJob = ''job-1''" by (simp add: witnessJob_def)
  have "\<exists>st. appendAuthoritativeJobEventTx 1 witnessJob ''job.queued'' emptyStore = Inr st"
    by (simp add: appendAuthoritativeJobEventTx_def authoritativeJobEvents_def appendExecutionEventTx_def
        emptyStore_log appendToLog_def emptyLog_def id Let_def)
  then obtain st where st: "appendAuthoritativeJobEventTx 1 witnessJob ''job.queued'' emptyStore = Inr st" ..
  with job_event_appended [OF eventsInv_empty st] show ?thesis by (auto simp: id emptyStore_log emptyLog_def)
qed

theorem advisory_events_bounded_witness:
  "\<exists>st. appendAdvisoryJobProgressEventTx 1 witnessJob
       \<lparr>prog_Sequence = 1, prog_Text = [], prog_Phase = ''run'', prog_Detail = [], prog_Percent = 5, prog_Busy = True,
        prog_UpdatedAt = 9\<rparr> emptyStore = Inr st
     \<and> length (filter advisoryCell (log_Events (scopeLog JobEventsRoot ''job-1'' st))) \<le> 64"
proof -
  let ?p = "\<lparr>prog_Sequence = 1, prog_Text = [], prog_Phase = ''run'', prog_Detail = [], prog_Percent = 5, prog_Busy = True,
        prog_UpdatedAt = 9\<rparr>"
  have id: "job_ID witnessJob = ''job-1''" by (simp add: witnessJob_def)
  have "\<exists>st. appendAdvisoryJobProgressEventTx 1 witnessJob ?p emptyStore = Inr st"
    by (simp add: appendAdvisoryJobProgressEventTx_def appendExecutionEventTx_def emptyStore_log
        appendToLog_def emptyLog_def id Let_def maximumAdvisoryProgressEventsPerJob_def)
  then obtain st where st: "appendAdvisoryJobProgressEventTx 1 witnessJob ?p emptyStore = Inr st" ..
  with advisory_events_bounded [OF eventsInv_empty st] show ?thesis by (auto simp: id)
qed

end
