(* ===== verification/Store_Invariant.thy ===== *)
theory Store_Invariant
  imports Session_Locks Event_Log
begin

text \<open>
  The invariant that ties the buckets of the store together, and the rules by which an operation is
  shown to keep it. \<open>storeInv\<close> says that every job is stored under its own valid id with a known
  status, that a job is queued exactly when the queue files it, and then under the key and with the
  projection of the job as it is stored, and that the queue and the event logs are well formed.
  An operation is followed through \<open>storeInvX S\<close>, which leaves the agreement open at the jobs of
  \<open>S\<close>; it is closed again once a job and its queue entry have been written.
\<close>

section \<open>The invariant\<close>

definition jobStatuses :: "string set" where
  "jobStatuses = {JobQueued, JobAssigned, JobRunning, JobCompleted, JobFailed, JobCancelled}"

definition jobWF :: "string \<Rightarrow> job \<Rightarrow> bool" where
  "jobWF i j \<longleftrightarrow> job_ID j = i \<and> validJobID i \<and> - 100 \<le> job_Priority j \<and> job_Priority j \<le> 100
     \<and> job_Status j \<in> jobStatuses \<and> 0 \<le> job_Attempt j \<and> job_Attempt j \<le> job_MaxAttempts j
     \<and> 1 \<le> job_MaxAttempts j \<and> job_MaxAttempts j \<le> maxInt64
     \<and> (job_Status j = JobQueued \<longrightarrow> job_Attempt j < job_MaxAttempts j)
     \<and> (job_Status j = JobAssigned \<or> job_Status j = JobRunning \<longrightarrow> 0 < job_Attempt j)"

definition storedJobsWF :: "store \<Rightarrow> bool" where
  "storedJobsWF st \<longleftrightarrow> bordered (st_jobs st)
     \<and> (\<forall>i c. bget (st_jobs st) i = Some c \<longrightarrow> (\<exists>j. c = Val j \<and> jobWF i j \<and> persistJob j = j))"

text \<open>The queue entry that a stored job calls for.\<close>

definition expectedEntry :: "job cell option \<Rightarrow> (string \<times> queueEntry) option" where
  "expectedEntry c =
     (case c of
        Some (Val j) \<Rightarrow> (if job_Status j = JobQueued then Some (queueKey j, queueEntryOf j) else None)
      | _ \<Rightarrow> None)"

definition agrees :: "store \<Rightarrow> string \<Rightarrow> bool" where
  "agrees st i \<longleftrightarrow> queuedEntry st i = expectedEntry (bget (st_jobs st) i)"

text \<open>The invariant with the agreement left open at the jobs of \<open>S\<close>.\<close>

definition storeInvX :: "string set \<Rightarrow> store \<Rightarrow> bool" where
  "storeInvX S st \<longleftrightarrow> storedJobsWF st \<and> queueInv st \<and> eventsInv st \<and> (\<forall>k. k \<notin> S \<longrightarrow> agrees st k)"

definition storeInv :: "store \<Rightarrow> bool" where
  "storeInv st \<longleftrightarrow> storedJobsWF st \<and> queueInv st \<and> eventsInv st \<and> (\<forall>k. agrees st k)"

lemma storeInv_iff: "storeInv st \<longleftrightarrow> storeInvX {} st"
  by (simp add: storeInv_def storeInvX_def)

lemma storeInvX_mono: "storeInvX S st \<Longrightarrow> S \<subseteq> T \<Longrightarrow> storeInvX T st"
  by (auto simp: storeInvX_def)

lemma storeInv_X: "storeInv st \<Longrightarrow> storeInvX S st"
  by (simp add: storeInv_def storeInvX_def)

lemma storeInvX_close: "storeInvX (insert i S) st \<Longrightarrow> agrees st i \<Longrightarrow> storeInvX S st"
  by (auto simp: storeInvX_def)

lemma storeInv_close: "storeInvX {i} st \<Longrightarrow> agrees st i \<Longrightarrow> storeInv st"
  by (auto simp: storeInv_def storeInvX_def)

lemma storeInv_job:
  "storeInv st \<Longrightarrow> bget (st_jobs st) i = Some (Val j) \<Longrightarrow> jobWF i j \<and> persistJob j = j"
  by (force simp: storeInv_def storedJobsWF_def)

lemma storeInv_get: "storeInv st \<Longrightarrow> getJSON (st_jobs st) i = Inr j \<Longrightarrow> jobWF i j \<and> persistJob j = j"
  by (simp add: storeInv_job getJSON_eq_Inr)

lemma storeInv_no_garbage: "storeInv st \<Longrightarrow> bget (st_jobs st) i \<noteq> Some Garbled"
  by (force simp: storeInv_def storedJobsWF_def)

lemma storeInv_queued:
  "storeInv st \<Longrightarrow> queuedEntry st i = expectedEntry (bget (st_jobs st) i)"
  by (simp add: storeInv_def agrees_def)

lemma jobWF_good: "jobWF i j \<Longrightarrow> goodEntry (queueEntryOf j)"
  by (auto simp: jobWF_def goodEntry_queueEntryOf)

lemma jobWF_persist [simp]: "jobWF i (persistJob j) = jobWF i j"
  by (simp add: jobWF_def)

lemma queueKey_persist [simp]: "queueKey (persistJob j) = queueKey j"
  by (simp add: queueKey_def)

lemma queueEntryOf_persist [simp]: "queueEntryOf (persistJob j) = queueEntryOf j"
  by (simp add: queueEntryOf_def persistJob_def)

lemma storeInv_empty: "storeInv emptyStore"
proof -
  have "bget (st_jobs emptyStore) i = None" "queuedEntry emptyStore i = None" for i
    by (simp_all add: emptyStore_def bget_Nil queuedEntry_def)
  moreover have "bordered (st_jobs emptyStore)" by (simp add: emptyStore_def)
  ultimately show ?thesis
    by (simp add: storeInv_def storedJobsWF_def queueInv_empty eventsInv_empty agrees_def expectedEntry_def)
qed

section \<open>Steps that leave jobs and queue alone\<close>

text \<open>Two stores with the same jobs and the same queue.\<close>

definition sameJobs :: "store \<Rightarrow> store \<Rightarrow> bool" where
  "sameJobs st st' \<longleftrightarrow> st_jobs st' = st_jobs st \<and> st_queue st' = st_queue st
     \<and> st_queueJobIndex st' = st_queueJobIndex st \<and> st_queueCounts st' = st_queueCounts st"

definition sameLogs :: "store \<Rightarrow> store \<Rightarrow> bool" where
  "sameLogs st st' \<longleftrightarrow> st_jobEvents st' = st_jobEvents st \<and> st_pipelineEvents st' = st_pipelineEvents st"

lemma sameJobs_refl [simp]: "sameJobs st st" by (simp add: sameJobs_def)

lemma sameJobs_trans: "sameJobs a b \<Longrightarrow> sameJobs b c \<Longrightarrow> sameJobs a c" by (simp add: sameJobs_def)

lemma sameLogs_refl [simp]: "sameLogs st st" by (simp add: sameLogs_def)

lemma sameLogs_trans: "sameLogs a b \<Longrightarrow> sameLogs b c \<Longrightarrow> sameLogs a c" by (simp add: sameLogs_def)

lemma sameJobs_outsideLogs: "outsideLogs st' = outsideLogs st \<Longrightarrow> sameJobs st st'"
  by (auto simp: sameJobs_def dest: outsideLogs_fields)

lemma sameJobs_queued: "sameJobs st st' \<Longrightarrow> queuedEntry st' = queuedEntry st"
  by (rule queuedEntry_cong) (simp_all add: sameJobs_def)

lemma sameJobs_jobs: "sameJobs st st' \<Longrightarrow> st_jobs st' = st_jobs st"
  by (simp add: sameJobs_def)

lemma scopeLog_sameLogs: "sameLogs st st' \<Longrightarrow> scopeLog r s st' = scopeLog r s st"
  by (cases r) (simp_all add: scopeLog_def sameLogs_def eventLogs.simps)

lemma eventsInv_sameLogs: "sameLogs st st' \<Longrightarrow> eventsInv st \<Longrightarrow> eventsInv st'"
  by (simp add: eventsInv_def scopeLog_sameLogs)

lemma storeInvX_same:
  assumes "storeInvX S st" and same: "sameJobs st st'" and "eventsInv st'"
  shows "storeInvX S st'"
proof -
  have jobs: "st_jobs st' = st_jobs st" using same by (rule sameJobs_jobs)
  have "queueInv st'"
    by (rule queueInv_cong [of st]) (use assms in \<open>simp_all add: storeInvX_def sameJobs_def\<close>)
  then show ?thesis
    using assms(1,3) sameJobs_queued [OF same] unfolding storeInvX_def storedJobsWF_def agrees_def jobs
    by simp
qed

lemma agrees_same: "sameJobs st st' \<Longrightarrow> agrees st' i = agrees st i"
  by (simp add: agrees_def sameJobs_queued sameJobs_jobs)

lemma storeInv_same:
  assumes "storeInv st" and "sameJobs st st'" and "eventsInv st'"
  shows "storeInv st'"
  using assms storeInvX_same unfolding storeInv_iff by blast

lemma storeInvX_frame:
  assumes "storeInvX S st" and "sameJobs st st'" and "sameLogs st st'"
  shows "storeInvX S st'"
  by (rule storeInvX_same [OF assms(1,2)], rule eventsInv_sameLogs [OF assms(3)])
    (use assms(1) in \<open>simp add: storeInvX_def\<close>)

lemma storeInv_frame:
  assumes "storeInv st" and "sameJobs st st'" and "sameLogs st st'"
  shows "storeInv st'"
  by (rule storeInv_same [OF assms(1,2)], rule eventsInv_sameLogs [OF assms(3)])
    (use assms(1) in \<open>simp add: storeInv_def\<close>)

text \<open>Events, session locks and node records are such steps.\<close>

lemma storeInvX_event:
  "storeInvX S st \<Longrightarrow> appendAuthoritativeJobEventTx now job t st = Inr st' \<Longrightarrow> storeInvX S st' \<and> sameJobs st st'"
  "storeInvX S st \<Longrightarrow> appendPipelineStepEventTx now job t st = Inr st' \<Longrightarrow> storeInvX S st' \<and> sameJobs st st'"
  "storeInvX S st \<Longrightarrow> appendPipelineEventTx now run t st = Inr st' \<Longrightarrow> storeInvX S st' \<and> sameJobs st st'"
  "storeInvX S st \<Longrightarrow> appendPipelineNodeCheckpointEventTx now run n t st = Inr st' \<Longrightarrow> storeInvX S st' \<and> sameJobs st st'"
  "storeInvX S st \<Longrightarrow> appendAdvisoryJobProgressEventTx now job p st = Inr st' \<Longrightarrow> storeInvX S st' \<and> sameJobs st st'"
  using append_events_inv append_outside sameJobs_outsideLogs advisory_inv storeInvX_same
  unfolding storeInvX_def by metis+

lemma outsideLocks_fields:
  assumes "outsideLocks st' = outsideLocks st"
  shows "sameJobs st st'" "sameLogs st st'" "st_nodes st' = st_nodes st"
proof -
  have "st_jobs (outsideLocks s) = st_jobs s" "st_queue (outsideLocks s) = st_queue s"
    "st_queueJobIndex (outsideLocks s) = st_queueJobIndex s" "st_queueCounts (outsideLocks s) = st_queueCounts s"
    "st_jobEvents (outsideLocks s) = st_jobEvents s" "st_pipelineEvents (outsideLocks s) = st_pipelineEvents s"
    "st_nodes (outsideLocks s) = st_nodes s" for s
    by (simp_all add: outsideLocks_def)
  with assms show "sameJobs st st'" "sameLogs st st'" "st_nodes st' = st_nodes st"
    unfolding sameJobs_def sameLogs_def by metis+
qed

lemma busy_outside: "adapterSessionBusyTx L owner r ek ei now st = Inr (b, st') \<Longrightarrow> outsideLocks st' = outsideLocks st"
  by (auto simp: adapterSessionBusyTx_def result_simps outsideLocks_def split: if_splits)

lemma release_outside [simp]: "outsideLocks (releaseAdapterSessionLockTx L owner r kind h st) = outsideLocks st"
  by (simp add: releaseAdapterSessionLockTx_def outsideLocks_def)

lemma acquire_outside:
  "acquireAdapterSessionLockTx L owner r kind h e now req st = Inr st' \<Longrightarrow> outsideLocks st' = outsideLocks st"
  by (auto simp: acquireAdapterSessionLockTx_def result_simps dest: busy_outside split: if_splits)

lemma promote_outside: "promoteAdapterSessionLockTx L saved job now st = Inr st' \<Longrightarrow> outsideLocks st' = outsideLocks st"
  by (auto simp: promoteAdapterSessionLockTx_def Let_def dest: acquire_outside split: if_splits)

lemma putNode_same: "sameJobs st (putNode k n st)" "sameLogs st (putNode k n st)"
  by (simp_all add: sameJobs_def sameLogs_def store_frame)

lemma putPlacement_same: "sameJobs st (putSessionPlacement k p st)" "sameLogs st (putSessionPlacement k p st)"
  by (simp_all add: putSessionPlacement_def sameJobs_def sameLogs_def)

section \<open>Steps on one job\<close>

lemma putJob_other: "k \<noteq> i \<Longrightarrow> bget (st_jobs (putJob i j st)) k = bget (st_jobs st) k"
  by (simp add: store_frame bucket_simps)

lemma putJob_here: "bget (st_jobs (putJob i j st)) i = Some (Val (persistJob j))"
  by (simp add: store_frame bucket_simps)

lemma putJob_queued: "queuedEntry (putJob i j st) = queuedEntry st"
  by (rule queuedEntry_cong) (simp_all add: store_frame)

lemma putJob_logs: "sameLogs st (putJob i j st)"
  by (simp add: sameLogs_def store_frame)

lemma storeInvX_putJob:
  assumes "storeInvX S st" and "i \<in> S" and "jobWF i j"
  shows "storeInvX S (putJob i j st)"
proof -
  have "queueInv (putJob i j st)"
    by (rule queueInv_cong [of st]) (use assms in \<open>simp_all add: storeInvX_def store_frame\<close>)
  moreover have "storedJobsWF (putJob i j st)"
    using assms by (auto simp: storeInvX_def storedJobsWF_def store_frame bucket_simps bordered_putJSON)
  moreover have "eventsInv (putJob i j st)"
    by (rule eventsInv_sameLogs [OF putJob_logs]) (use assms in \<open>simp add: storeInvX_def\<close>)
  ultimately show ?thesis
    using assms(1,2) putJob_other [of _ i j st] by (auto simp: storeInvX_def agrees_def putJob_queued) metis
qed

definition outsideQueue :: "store \<Rightarrow> store" where
  "outsideQueue st = st\<lparr>st_queue := [], st_queueJobIndex := [], st_queueCounts := []\<rparr>"

lemma outsideQueue_fields:
  assumes "outsideQueue st' = outsideQueue st"
  shows "st_jobs st' = st_jobs st" "sameLogs st st'" "st_nodes st' = st_nodes st"
    "st_sessionLocks st' = st_sessionLocks st" "st_idempotency st' = st_idempotency st"
proof -
  have "st_jobs (outsideQueue s) = st_jobs s" "st_jobEvents (outsideQueue s) = st_jobEvents s"
    "st_pipelineEvents (outsideQueue s) = st_pipelineEvents s" "st_nodes (outsideQueue s) = st_nodes s"
    "st_sessionLocks (outsideQueue s) = st_sessionLocks s" "st_idempotency (outsideQueue s) = st_idempotency s" for s
    by (simp_all add: outsideQueue_def)
  with assms show "st_jobs st' = st_jobs st" "sameLogs st st'" "st_nodes st' = st_nodes st"
    "st_sessionLocks st' = st_sessionLocks st" "st_idempotency st' = st_idempotency st"
    unfolding sameLogs_def by metis+
qed

lemma putQueueEntry_outside: "putQueueEntry job st = Inr st' \<Longrightarrow> outsideQueue st' = outsideQueue st"
  by (auto simp: putQueueEntry_def Let_def result_simps outsideQueue_def split: option.splits if_splits)

lemma deleteQueueEntry_outside: "deleteQueueEntry i st = Inr st' \<Longrightarrow> outsideQueue st' = outsideQueue st"
  by (auto simp: deleteQueueEntry_def result_simps outsideQueue_def split: option.splits if_splits)

lemma storeInvX_queue:
  assumes "storeInvX S st" and "i \<in> S" and "outsideQueue st' = outsideQueue st" and "queueInv st'"
    and "queuedEntry st' = (queuedEntry st)(i := e)"
  shows "storeInvX S st'"
proof -
  note out = outsideQueue_fields [OF assms(3)]
  have "eventsInv st'" by (rule eventsInv_sameLogs [OF out(2)]) (use assms in \<open>simp add: storeInvX_def\<close>)
  then show ?thesis using assms by (auto simp: storeInvX_def storedJobsWF_def agrees_def out(1))
qed

lemma storeInvX_put:
  assumes "storeInvX S st" and "jobWF i j" and "putQueueEntry j st = Inr st'" and "i \<in> S"
  shows "storeInvX S st' \<and> queuedEntry st' i = Some (queueKey j, queueEntryOf j) \<and> st_jobs st' = st_jobs st"
proof -
  have inv: "queueInv st" using assms(1) by (simp add: storeInvX_def)
  have "job_ID j = i" using assms(2) by (simp add: jobWF_def)
  with jq.put_look [OF inv jobWF_good [OF assms(2)] assms(3)]
  have q: "queueInv st'" "queuedEntry st' = (queuedEntry st)(i \<mapsto> (queueKey j, queueEntryOf j))" by auto
  show ?thesis
    using storeInvX_queue [OF assms(1,4) putQueueEntry_outside [OF assms(3)] q] q(2)
      outsideQueue_fields(1) [OF putQueueEntry_outside [OF assms(3)]] by simp
qed

lemma storeInvX_delete:
  assumes "storeInvX S st" and "deleteQueueEntry i st = Inr st'" and "i \<in> S"
  shows "storeInvX S st' \<and> queuedEntry st' i = None \<and> st_jobs st' = st_jobs st"
proof -
  have inv: "queueInv st" using assms(1) by (simp add: storeInvX_def)
  from jq.del_inv [OF inv assms(2)] have q: "queueInv st'" "queuedEntry st' = (queuedEntry st)(i := None)" by auto
  show ?thesis
    using storeInvX_queue [OF assms(1,3) deleteQueueEntry_outside [OF assms(2)] q] q(2)
      outsideQueue_fields(1) [OF deleteQueueEntry_outside [OF assms(2)]] by simp
qed

lemma storeInvX_delete_total: "storeInvX S st \<Longrightarrow> \<exists>st'. deleteQueueEntry i st = Inr st'"
  using jq.del_look [of st i] by (auto simp: storeInvX_def)

lemma agrees_queued:
  "bget (st_jobs st) i = Some (Val (persistJob j)) \<Longrightarrow> job_Status j = JobQueued \<Longrightarrow>
   queuedEntry st i = Some (queueKey j, queueEntryOf j) \<Longrightarrow> agrees st i"
  by (simp add: agrees_def expectedEntry_def)

lemma agrees_unqueued:
  "bget (st_jobs st) i = Some (Val (persistJob j)) \<Longrightarrow> job_Status j \<noteq> JobQueued \<Longrightarrow>
   queuedEntry st i = None \<Longrightarrow> agrees st i"
  by (simp add: agrees_def expectedEntry_def)

end
