(* ===== verification/Job_Admission.thy ===== *)
theory Job_Admission
  imports Execution_Policy Store_Invariant
begin

text \<open>
  Admission of jobs (\<open>internal/cluster/store.go\<close>, \<open>CreateJob\<close> to \<open>saveIdempotentJobTx\<close>,
  the scope and owner indexes, \<open>SaveJob\<close>; \<open>job_contract.go\<close> for the contract version and the
  reserved task). One transaction checks the producer's limits, resolves an idempotent retry, checks
  capacity and rate, and writes the job, its indexes, its queue entry, its idempotency record and its
  first events. The lemmas show that admission keeps \<open>storeInv\<close>, respects the capacity and rate
  limits, and binds an idempotency key to one job.
\<close>

section \<open>Identifiers and indexes\<close>

text \<open>\<open>randomID\<close> on the 16 bytes read from the random source, or the error of reading them.\<close>

definition randomID :: "string \<Rightarrow> string result \<Rightarrow> string result" where
  "randomID pfx raw = bindE raw (\<lambda>bytes. Inr (pfx @ ''_'' @ hexEncode bytes))"

definition ValidateIdempotencyKey :: "string \<Rightarrow> unit result" where
  "ValidateIdempotencyKey value =
     failWhen (length value < 1 \<or> length value > 200 \<or> list_ex (\<lambda>c. byte c < 33 \<or> byte c > 126) value)
       (ErrText ''idempotency key must contain 1-200 visible ASCII characters'')"

definition scheduledActionTask :: string where "scheduledActionTask = ''scheduled_action''"

definition NormalizeJobContractVersion :: "string \<Rightarrow> string result" where
  "NormalizeJobContractVersion version =
     (if version = [] \<or> version = JobContractV1 then Inr JobContractV1
      else Inl (ErrText ''unsupported job contract version''))"

definition IsRelayReservedTask :: "goLib \<Rightarrow> string \<Rightarrow> bool" where
  "IsRelayReservedTask L task \<longleftrightarrow> equalFold L (trimSpace task) scheduledActionTask"

definition jobIndexKey :: "job \<Rightarrow> string" where
  "jobIndexKey job = padDecimal 20 (unixNano (job_CreatedAt job)) @ '':'' @ job_ID job"

definition jobOwnerIndexPrefix :: "goLib \<Rightarrow> string \<Rightarrow> string" where
  "jobOwnerIndexPrefix L owner = sha256 L owner"

definition jobOwnerIndexKey :: "goLib \<Rightarrow> job \<Rightarrow> string" where
  "jobOwnerIndexKey L job =
     (if job_OwnerSubject job = [] then [] else jobOwnerIndexPrefix L (job_OwnerSubject job) @ jobIndexKey job)"

definition putJobOwnerIndex :: "goLib \<Rightarrow> job \<Rightarrow> store \<Rightarrow> store" where
  "putJobOwnerIndex L job st =
     (if jobOwnerIndexKey L job = [] then st
      else st\<lparr>st_jobOwnerIndex := bput (jobOwnerIndexKey L job) (job_ID job) (st_jobOwnerIndex st)\<rparr>)"

definition deleteJobOwnerIndex :: "goLib \<Rightarrow> job \<Rightarrow> store \<Rightarrow> store" where
  "deleteJobOwnerIndex L job st =
     (if jobOwnerIndexKey L job \<noteq> [] \<and> bget (st_jobOwnerIndex st) (jobOwnerIndexKey L job) = Some (job_ID job)
      then st\<lparr>st_jobOwnerIndex := bdelete (jobOwnerIndexKey L job) (st_jobOwnerIndex st)\<rparr> else st)"

definition putExecutionScopeLookup :: "goLib \<Rightarrow> string \<Rightarrow> string \<Rightarrow> string \<Rightarrow> store \<Rightarrow> store result" where
  "putExecutionScopeLookup L execID owner tenant st =
     bindE (failWhen (execID = []) (ErrText ''execution scope lookup is unavailable'')) (\<lambda>_.
     Inr (st\<lparr>st_jobOwnerLookup := bput execID (sha256 L owner @ sha256 L tenant) (st_jobOwnerLookup st)\<rparr>))"

text \<open>The digests of a missing or misshapen record are 32 zero bytes, and the comparison is kept for
  its length check.\<close>

definition executionScopeLookupMatches :: "goLib \<Rightarrow> store \<Rightarrow> string \<Rightarrow> string \<Rightarrow> string list \<Rightarrow> bool" where
  "executionScopeLookupMatches L st execID owner allowedTenants \<longleftrightarrow>
     (let raw = (case bget (st_jobOwnerLookup st) execID of None \<Rightarrow> [] | Some v \<Rightarrow> v);
          good = (length raw = 64);
          actualOwner = (if good then take 32 raw else replicate 32 (byteChar 0));
          actualTenant = (if good then drop 32 raw else replicate 32 (byteChar 0))
      in good \<and> sha256 L owner = actualOwner
         \<and> (allowedTenants = [] \<or> list_ex (\<lambda>t. sha256 L t = actualTenant) allowedTenants))"

definition tenantAllowed :: "string \<Rightarrow> string list \<Rightarrow> bool" where
  "tenantAllowed tenant allowedTenants \<longleftrightarrow> allowedTenants = [] \<or> tenant \<in> set allowedTenants"

section \<open>Limits and idempotency\<close>

definition producerPriorityAllowed :: "int \<Rightarrow> producerLimits \<Rightarrow> bool" where
  "producerPriorityAllowed priority limits \<longleftrightarrow>
     (case lim_MaxPriority limits of None \<Rightarrow> True | Some m \<Rightarrow> priority \<le> m)"

definition consumeProducerRateLimitTx :: "string \<Rightarrow> int \<Rightarrow> gotime \<Rightarrow> store \<Rightarrow> store result" where
  "consumeProducerRateLimitTx owner maximum now st =
     (if maximum \<le> 0 then Inr st
      else if owner = [] then Inl (ErrText ''producer identity is required for an hourly job limit'')
      else
        let count = (\<lambda>window.
              if win_Count window \<ge> maximum then Inl ErrOwnerRateCapacity
              else Inr (st\<lparr>st_rateWindows := putJSON owner (window\<lparr>win_Count := wrap64 (win_Count window + 1)\<rparr>) (st_rateWindows st)\<rparr>))
        in case getJSON (st_rateWindows st) owner of
             Inl e \<Rightarrow> (if e = ErrNotExist then count \<lparr>win_StartedAt = now, win_Count = 0\<rparr> else Inl e)
           | Inr window \<Rightarrow>
               (if win_StartedAt window = 0 \<or> \<not> now < win_StartedAt window + hour
                then count \<lparr>win_StartedAt = now, win_Count = 0\<rparr>
                else if now < win_StartedAt window then Inl ErrOwnerRateCapacity
                else count window))"

definition jobIdempotencyKey :: "goLib \<Rightarrow> string \<Rightarrow> string \<Rightarrow> string" where
  "jobIdempotencyKey L owner key = sha256Hex L (cleanLabel owner 120 @ nulByte @ key @ nulByte @ ''job-admission-v1'')"

definition lookupIdempotentJobTx :: "goLib \<Rightarrow> string \<Rightarrow> string \<Rightarrow> string \<Rightarrow> store \<Rightarrow> job option result" where
  "lookupIdempotentJobTx L owner key requestHash st =
     (case bget (st_idempotency st) (jobIdempotencyKey L owner key) of
        None \<Rightarrow> Inr None
      | Some Garbled \<Rightarrow> Inl (ErrText ''decode idempotency record'')
      | Some (Val record) \<Rightarrow>
          (if idem_RequestHash record \<noteq> requestHash then Inl ErrIdempotencyConflict
           else case getJSON (st_jobs st) (idem_JobID record) of
             Inl _ \<Rightarrow> Inl (ErrText ''idempotency record references unavailable job'')
           | Inr job \<Rightarrow>
               (if job_OwnerSubject job \<noteq> cleanLabel owner 120
                then Inl (ErrText ''idempotency record owner mismatch'') else Inr (Some job))))"

definition saveIdempotentJobTx :: "goLib \<Rightarrow> string \<Rightarrow> string \<Rightarrow> string \<Rightarrow> string \<Rightarrow> store \<Rightarrow> store result" where
  "saveIdempotentJobTx L owner key requestHash jobID st =
     (let indexKey = jobIdempotencyKey L owner key in
      if bget (st_idempotency st) indexKey \<noteq> None then Inl ErrIdempotencyConflict
      else Inr (st\<lparr>st_idempotency := putJSON indexKey \<lparr>idem_JobID = jobID, idem_RequestHash = requestHash\<rparr> (st_idempotency st),
                   st_idempotencyByJob := bput jobID indexKey (st_idempotencyByJob st)\<rparr>))"

section \<open>Preparing and admitting\<close>

text \<open>The job that \<open>prepareJob\<close> builds from the request.\<close>

definition jobOfRequest :: "submitRequest \<Rightarrow> string \<Rightarrow> string \<Rightarrow> gotime \<Rightarrow> job" where
  "jobOfRequest request jobID contractVersion now =
     (let attempts = (if sub_MaxAttempts request \<le> 0 then 3 else sub_MaxAttempts request);
          attempts = (if attempts > 10 then 10 else attempts)
      in zeroJob\<lparr>job_ID := jobID, job_ContractVersion := contractVersion,
           job_OwnerSubject := cleanLabel (sub_OwnerSubject request) 120,
           job_TenantID := cleanLabel (sub_TenantID request) 200, job_Source := cleanLabel (sub_Source request) 120,
           job_Requirements := sub_Requirements request, job_PolicyDecision := sub_PolicyDecision request,
           job_Payload := sub_Payload request, job_SealedPayload := sub_Sealed request,
           job_PoolAuthorization := sub_PoolAuthorization request, job_Status := JobQueued,
           job_Priority := sub_Priority request, job_MaxAttempts := attempts, job_CreatedAt := now, job_UpdatedAt := now,
           job_Pipeline := cleanLabel (sub_Pipeline request) 128, job_Step := cleanLabel (sub_Step request) 128,
           job_ParentID := cleanLabel (sub_ParentID request) 128\<rparr>)"

definition prepareJob ::
  "goLib \<Rightarrow> string result \<Rightarrow> submitRequest \<Rightarrow> string \<Rightarrow> string \<Rightarrow> gotime \<Rightarrow> job result" where
  "prepareJob L raw request idempotencyKey requestHash now =
     bindE (if sub_scheduledActionInternal request
            then failWhen (req_Task (sub_Requirements request) \<noteq> scheduledActionTask)
                   (ErrText ''internal scheduled-action capability requires the exact scheduled_action task'')
            else failWhen (IsRelayReservedTask L (req_Task (sub_Requirements request))) ErrScheduledActionTaskReserved) (\<lambda>_.
     bindE (ValidateAllowed (sub_PolicyDecision request)) (\<lambda>_.
     bindE (NormalizeJobContractVersion (sub_ContractVersion request)) (\<lambda>contractVersion.
     bindE (if sub_ID request = [] then randomID ''job'' raw
            else bindE (failWhen (\<not> validJobID (sub_ID request))
                          (ErrText ''job id must use 1-128 safe ASCII characters'')) (\<lambda>_. Inr (sub_ID request))) (\<lambda>jobID.
     let job = jobOfRequest request jobID contractVersion now
     in bindE (failWhen (job_Priority job < - 100 \<or> job_Priority job > 100)
                 (ErrText ''priority must be between -100 and 100'')) (\<lambda>_.
        bindE (failWhen (job_Payload job = [] \<and> job_SealedPayload job = None)
                 (ErrText ''payload or sealed_payload is required'')) (\<lambda>_.
        bindE (if idempotencyKey = [] then Inr ()
               else bindE (failWhen (job_OwnerSubject job = [])
                             (ErrText ''authenticated producer is required for idempotency'')) (\<lambda>_.
                    bindE (ValidateIdempotencyKey idempotencyKey) (\<lambda>_.
                    failWhen (length requestHash \<noteq> 64) (ErrText ''idempotency request hash is invalid'')))) (\<lambda>_.
        Inr job)))))))"

definition checkQueueCapacity :: "string \<Rightarrow> int \<Rightarrow> producerLimits \<Rightarrow> store \<Rightarrow> unit result" where
  "checkQueueCapacity owner maxQueued limits st =
     (if maxQueued > 0 \<or> lim_MaxQueuedJobs limits > 0
      then bindE (queueCounts st owner) (\<lambda>(queued, owned).
           bindE (failWhen (maxQueued > 0 \<and> queued \<ge> maxQueued) ErrQueueFull) (\<lambda>_.
           failWhen (lim_MaxQueuedJobs limits > 0 \<and> owned \<ge> lim_MaxQueuedJobs limits) ErrOwnerQueueCapacity))
      else Inr ())"

text \<open>The writes shared by \<open>admitPreparedJobTx\<close> and the promotion of a reservation: the job, its
  indexes, its queue entry, its idempotency record and its first events.\<close>

definition fileNewJobTx :: "goLib \<Rightarrow> job \<Rightarrow> string \<Rightarrow> string \<Rightarrow> string \<Rightarrow> gotime \<Rightarrow> store \<Rightarrow> store result" where
  "fileNewJobTx L job owner idempotencyKey requestHash now st =
     (let st = putJob (job_ID job) job st in
      bindE (putExecutionScopeLookup L (job_ID job) (job_OwnerSubject job) (job_TenantID job) st) (\<lambda>st.
      let st = putJobOwnerIndex L job (st\<lparr>st_jobIndex := bput (jobIndexKey job) (job_ID job) (st_jobIndex st)\<rparr>) in
      bindE (putQueueEntry job st) (\<lambda>st.
      bindE (if idempotencyKey = [] then Inr st
             else saveIdempotentJobTx L owner idempotencyKey requestHash (job_ID job) st) (\<lambda>st.
      bindE (appendAuthoritativeJobEventTx now job ''job.accepted'' st) (\<lambda>st.
      bindE (appendAuthoritativeJobEventTx now job ''job.queued'' st) (\<lambda>st.
      appendPipelineStepEventTx now job ''pipeline.step.queued'' st))))))"

definition admitPreparedJobTx ::
  "goLib \<Rightarrow> job \<Rightarrow> int \<Rightarrow> producerLimits \<Rightarrow> string \<Rightarrow> string \<Rightarrow> gotime \<Rightarrow> store \<Rightarrow> ((job \<times> bool) \<times> store) result" where
  "admitPreparedJobTx L job maxQueued limits idempotencyKey requestHash now st =
     bindE (failWhen (lim_RequireE2EE limits \<and> job_SealedPayload job = None) ErrE2EERequired) (\<lambda>_.
     bindE (failWhen (\<not> producerPriorityAllowed (job_Priority job) limits) ErrPriorityScopeForbidden) (\<lambda>_.
     bindE (failWhen (lim_AllowedTenants limits \<noteq> [] \<and> job_TenantID job \<notin> set (lim_AllowedTenants limits))
              ErrTenantScopeForbidden) (\<lambda>_.
     bindE (if idempotencyKey = [] then Inr None
            else lookupIdempotentJobTx L (job_OwnerSubject job) idempotencyKey requestHash st) (\<lambda>existing.
     case existing of
       Some found \<Rightarrow> Inr ((found, True), st)
     | None \<Rightarrow>
         bindE (failWhen (bget (st_jobs st) (job_ID job) \<noteq> None) ErrExist) (\<lambda>_.
         bindE (checkQueueCapacity (job_OwnerSubject job) maxQueued limits st) (\<lambda>_.
         bindE (consumeProducerRateLimitTx (job_OwnerSubject job) (lim_MaxJobsPerHour limits) now st) (\<lambda>st.
         bindE (fileNewJobTx L job (job_OwnerSubject job) idempotencyKey requestHash now st) (\<lambda>st.
         Inr ((job, False), st)))))))))"

definition createJob ::
  "goLib \<Rightarrow> string result \<Rightarrow> gotime \<Rightarrow> submitRequest \<Rightarrow> int \<Rightarrow> producerLimits \<Rightarrow> string \<Rightarrow> string \<Rightarrow> store \<Rightarrow>
   (job \<times> bool) result \<times> store" where
  "createJob L raw now request maxQueued limits idempotencyKey requestHash st =
     (case prepareJob L raw request idempotencyKey requestHash now of
        Inl e \<Rightarrow> (Inl e, st)
      | Inr job \<Rightarrow> update (admitPreparedJobTx L job maxQueued limits idempotencyKey requestHash now) st)"

definition CreateJob :: "goLib \<Rightarrow> string result \<Rightarrow> gotime \<Rightarrow> submitRequest \<Rightarrow> store \<Rightarrow> job result \<times> store" where
  "CreateJob L raw now request st =
     (case createJob L raw now request 0 zeroLimits [] [] st of (r, st') \<Rightarrow> (bindE r (\<lambda>(job, _). Inr job), st'))"

definition CreateJobAdmitted :: "goLib \<Rightarrow> string result \<Rightarrow> gotime \<Rightarrow> submitRequest \<Rightarrow> int \<Rightarrow> int list \<Rightarrow> store \<Rightarrow> job result \<times> store" where
  "CreateJobAdmitted L raw now request maxQueued maxOwner st =
     (let ownerLimit = (case maxOwner of [] \<Rightarrow> 0 | m # _ \<Rightarrow> m) in
      case createJob L raw now request maxQueued (zeroLimits\<lparr>lim_MaxQueuedJobs := ownerLimit\<rparr>) [] [] st of
        (r, st') \<Rightarrow> (bindE r (\<lambda>(job, _). Inr job), st'))"

definition CreateJobAdmittedGoverned :: "goLib \<Rightarrow> string result \<Rightarrow> gotime \<Rightarrow> submitRequest \<Rightarrow> int \<Rightarrow> producerLimits \<Rightarrow> store \<Rightarrow> job result \<times> store" where
  "CreateJobAdmittedGoverned L raw now request maxQueued limits st =
     (case createJob L raw now request maxQueued limits [] [] st of (r, st') \<Rightarrow> (bindE r (\<lambda>(job, _). Inr job), st'))"

definition CreateJobAdmittedIdempotent ::
  "goLib \<Rightarrow> string result \<Rightarrow> gotime \<Rightarrow> submitRequest \<Rightarrow> int \<Rightarrow> int \<Rightarrow> string \<Rightarrow> string \<Rightarrow> store \<Rightarrow> (job \<times> bool) result \<times> store" where
  "CreateJobAdmittedIdempotent L raw now request maxQueued maxOwner idempotencyKey requestHash =
     createJob L raw now request maxQueued (zeroLimits\<lparr>lim_MaxQueuedJobs := maxOwner\<rparr>) idempotencyKey requestHash"

definition CreateJobAdmittedIdempotentGoverned ::
  "goLib \<Rightarrow> string result \<Rightarrow> gotime \<Rightarrow> submitRequest \<Rightarrow> int \<Rightarrow> producerLimits \<Rightarrow> string \<Rightarrow> string \<Rightarrow> store \<Rightarrow> (job \<times> bool) result \<times> store" where
  "CreateJobAdmittedIdempotentGoverned L raw now request maxQueued limits idempotencyKey requestHash =
     createJob L raw now request maxQueued limits idempotencyKey requestHash"

definition SaveJob :: "goLib \<Rightarrow> gotime \<Rightarrow> job \<Rightarrow> store \<Rightarrow> unit result \<times> store" where
  "SaveJob L now job =
     (let job = job\<lparr>job_UpdatedAt := now\<rparr> in update (\<lambda>st.
      let previous = (case getJSON (st_jobs st) (job_ID job) of Inr p \<Rightarrow> Some p | Inl _ \<Rightarrow> None);
          st = putJob (job_ID job) job st in
      bindE (putExecutionScopeLookup L (job_ID job) (job_OwnerSubject job) (job_TenantID job) st) (\<lambda>st.
      let st = (case previous of
                  Some p \<Rightarrow> (if jobIndexKey p \<noteq> jobIndexKey job
                             then st\<lparr>st_jobIndex := bput (jobIndexKey job) (job_ID job) (bdelete (jobIndexKey p) (st_jobIndex st))\<rparr>
                             else st)
                | None \<Rightarrow> st\<lparr>st_jobIndex := bput (jobIndexKey job) (job_ID job) (st_jobIndex st)\<rparr>);
          st = (case previous of
                  Some p \<Rightarrow> (if jobOwnerIndexKey L p \<noteq> jobOwnerIndexKey L job then deleteJobOwnerIndex L p st else st)
                | None \<Rightarrow> st)
      in Inr ((), putJobOwnerIndex L job st))))"


section \<open>Filing a new job\<close>

lemma hexDigit_alphaNumeric: "n < 16 \<Longrightarrow> alphaNumeric (byte (hexDigit n))"
proof -
  assume "n < 16"
  then have "n \<in> set [0..<16]" by simp
  then show ?thesis by (auto simp: upt_rec hexDigit_def alphaNumeric_def)
qed


lemma randomID_valid:
  assumes "randomID ''job'' (Inr bytes) = Inr jobID" and "length bytes = 16"
  shows "validJobID jobID"
proof -
  have id: "jobID = ''job_'' @ hexEncode bytes" using assms(1) by (simp add: randomID_def)
  have "byte c div 16 < 16" for c using nat_of_char_less_256 [of c] by linarith
  then have hex: "list_all (\<lambda>c. alphaNumeric (byte c)) (hexEncode bytes)"
    by (induction bytes) (auto simp: hexEncode_def hexDigit_alphaNumeric)
  then have "CHR ''.'' \<notin> set jobID" by (auto simp: id list_all_iff alphaNumeric_def)
  then have "\<not> containsStr jobID ''..''"
    using set_mono_sublist [of "''..''" jobID] by auto
  then show ?thesis
    using hex assms(2) by (auto simp: validJobID_def id list_all_iff alphaNumeric_def)
qed

text \<open>What a prepared job looks like: a well-formed queued job that has not been tried.\<close>

lemma jobOfRequest_fields [simp]:
  "job_ID (jobOfRequest request jobID v now) = jobID"
  "job_OwnerSubject (jobOfRequest request jobID v now) = cleanLabel (sub_OwnerSubject request) 120"
  "job_Status (jobOfRequest request jobID v now) = JobQueued"
  "job_Attempt (jobOfRequest request jobID v now) = 0"
  "job_Priority (jobOfRequest request jobID v now) = sub_Priority request"
  "job_UpdatedAt (jobOfRequest request jobID v now) = now"
  by (simp_all add: jobOfRequest_def Let_def zeroJob_def)

lemma jobOfRequest_attempts:
  "1 \<le> job_MaxAttempts (jobOfRequest request jobID v now) \<and> job_MaxAttempts (jobOfRequest request jobID v now) \<le> 10"
  by (simp add: jobOfRequest_def Let_def)

lemma prepared_wf:
  assumes "prepareJob L raw request key hash now = Inr job"
    and "\<And>bytes. raw = Inr bytes \<Longrightarrow> length bytes = 16"
  shows "jobWF (job_ID job) job \<and> job_Status job = JobQueued \<and> job_Attempt job = 0
    \<and> job_OwnerSubject job = cleanLabel (sub_OwnerSubject request) 120"
proof -
  from assms(1) obtain v jobID where
    id: "(if sub_ID request = [] then randomID ''job'' raw
            else bindE (failWhen (\<not> validJobID (sub_ID request))
                          (ErrText ''job id must use 1-128 safe ASCII characters'')) (\<lambda>_. Inr (sub_ID request))) = Inr jobID"
    and job: "job = jobOfRequest request jobID v now" and pr: "- 100 \<le> sub_Priority request" "sub_Priority request \<le> 100"
    unfolding prepareJob_def Let_def bindE_eq_Inr by (auto simp: result_simps)
  have "validJobID jobID"
  proof (cases "sub_ID request = []")
    case True
    then obtain bytes where "raw = Inr bytes" using id by (auto simp: randomID_def result_simps)
    then show ?thesis using True id randomID_valid assms(2) by simp
  qed (use id in \<open>auto simp: result_simps\<close>)
  then show ?thesis
    using pr jobOfRequest_attempts [of request jobID v now]
    by (simp add: job jobWF_def jobStatuses_def status_defs maxInt64_def)
qed

lemma scopeLookup_same:
  "putExecutionScopeLookup L jobID owner tenant st = Inr st' \<Longrightarrow> sameJobs st st' \<and> sameLogs st st'
     \<and> st_idempotency st' = st_idempotency st \<and> st_rateWindows st' = st_rateWindows st"
  by (auto simp: putExecutionScopeLookup_def result_simps sameJobs_def sameLogs_def)

lemma saveIdempotent_same:
  "saveIdempotentJobTx L owner key hash jobID st = Inr st' \<Longrightarrow> sameJobs st st' \<and> sameLogs st st'
     \<and> bget (st_idempotency st) (jobIdempotencyKey L owner key) = None
     \<and> st_idempotency st' = putJSON (jobIdempotencyKey L owner key) \<lparr>idem_JobID = jobID, idem_RequestHash = hash\<rparr> (st_idempotency st)"
  by (auto simp: saveIdempotentJobTx_def Let_def sameJobs_def sameLogs_def split: if_splits)

lemma event_idempotency:
  "outsideLogs st' = outsideLogs st \<Longrightarrow> st_idempotency st' = st_idempotency st"
  by (rule outsideLogs_fields)

text \<open>Filing keeps the store invariant, adds the job and nothing else, and records the key.\<close>

lemma fileNewJobTx_inv:
  assumes inv: "storeInv st" and wf: "jobWF (job_ID job) job" and queued: "job_Status job = JobQueued"
    and filing: "fileNewJobTx L job owner key hash now st = Inr st'"
  shows "storeInv st' \<and> st_jobs st' = putJSON (job_ID job) (persistJob job) (st_jobs st)
    \<and> queuedEntry st' (job_ID job) = Some (queueKey job, queueEntryOf job)
    \<and> st_idempotency st' = (if key = [] then st_idempotency st
        else putJSON (jobIdempotencyKey L owner key) \<lparr>idem_JobID = job_ID job, idem_RequestHash = hash\<rparr> (st_idempotency st))"
proof -
  let ?i = "job_ID job"
  define s1 where "s1 = putJob ?i job st"
  from filing obtain s2 s3 s4 s5 s6 where
    s2: "putExecutionScopeLookup L ?i (job_OwnerSubject job) (job_TenantID job) s1 = Inr s2" and
    s3: "putQueueEntry job (putJobOwnerIndex L job (s2\<lparr>st_jobIndex := bput (jobIndexKey job) ?i (st_jobIndex s2)\<rparr>)) = Inr s3" and
    s4: "(if key = [] then Inr s3 else saveIdempotentJobTx L owner key hash ?i s3) = Inr s4" and
    s5: "appendAuthoritativeJobEventTx now job ''job.accepted'' s4 = Inr s5" and
    s6: "appendAuthoritativeJobEventTx now job ''job.queued'' s5 = Inr s6" and
    s7: "appendPipelineStepEventTx now job ''pipeline.step.queued'' s6 = Inr st'"
    unfolding fileNewJobTx_def Let_def bindE_eq_Inr s1_def by blast
  define s2' where "s2' = putJobOwnerIndex L job (s2\<lparr>st_jobIndex := bput (jobIndexKey job) ?i (st_jobIndex s2)\<rparr>)"
  have x1: "storeInvX {?i} s1" unfolding s1_def by (rule storeInvX_putJob) (simp_all add: storeInv_X inv wf)
  have same2: "sameJobs s1 s2'" "sameLogs s1 s2'" "st_idempotency s2' = st_idempotency s1"
    using scopeLookup_same [OF s2] by (auto simp: s2'_def putJobOwnerIndex_def sameJobs_def sameLogs_def)
  have x2: "storeInvX {?i} s2'" using storeInvX_frame [OF x1 same2(1,2)] .
  have put: "storeInvX {?i} s3 \<and> queuedEntry s3 ?i = Some (queueKey job, queueEntryOf job) \<and> st_jobs s3 = st_jobs s2'"
    by (rule storeInvX_put [OF x2 wf]) (use s3 in \<open>simp_all add: s2'_def\<close>)
  have idem3: "st_idempotency s3 = st_idempotency s2'"
    using outsideQueue_fields(5) [OF putQueueEntry_outside [OF s3]] by (simp add: s2'_def)
  have same4: "sameJobs s3 s4 \<and> sameLogs s3 s4 \<and> st_idempotency s4 = (if key = [] then st_idempotency s3
        else putJSON (jobIdempotencyKey L owner key) \<lparr>idem_JobID = ?i, idem_RequestHash = hash\<rparr> (st_idempotency s3))"
    using s4 saveIdempotent_same [of L owner key hash ?i s3 s4] by (auto split: if_splits)
  have x4: "storeInvX {?i} s4" using put same4 storeInvX_frame by blast
  note x5 = storeInvX_event(1) [OF x4 s5]
  note x6 = storeInvX_event(1) [OF conjunct1 [OF x5] s6]
  note x7 = storeInvX_event(2) [OF conjunct1 [OF x6] s7]
  have same: "sameJobs s3 st'" using same4 x5 x6 x7 sameJobs_trans by blast
  have jobs: "st_jobs st' = putJSON ?i (persistJob job) (st_jobs st)"
    using same put same2(1) by (simp add: sameJobs_def s1_def store_frame)
  have q: "queuedEntry st' ?i = Some (queueKey job, queueEntryOf job)"
    using put sameJobs_queued [OF same] by simp
  have "agrees st' ?i" by (rule agrees_queued [OF _ queued q]) (simp add: jobs bucket_simps)
  with x7 have "storeInv st'" using storeInv_close by blast
  moreover have "st_idempotency st' = st_idempotency s4"
    using append_outside(2) [OF s5] append_outside(2) [OF s6] append_outside(3) [OF s7] event_idempotency by metis
  ultimately show ?thesis using jobs q same4 idem3 same2(3) by (simp add: s1_def store_frame)
qed

lemma rate_same:
  "consumeProducerRateLimitTx owner maximum now st = Inr st' \<Longrightarrow> sameJobs st st' \<and> sameLogs st st'
     \<and> st_idempotency st' = st_idempotency st"
  by (auto simp: consumeProducerRateLimitTx_def Let_def sameJobs_def sameLogs_def split: if_splits sum.splits)

lemma admit_new:
  assumes "admitPreparedJobTx L job maxQueued limits key hash now st = Inr ((found, False), st')"
  shows "found = job \<and> bget (st_jobs st) (job_ID job) = None
    \<and> checkQueueCapacity (job_OwnerSubject job) maxQueued limits st = Inr ()
    \<and> (\<exists>mid. consumeProducerRateLimitTx (job_OwnerSubject job) (lim_MaxJobsPerHour limits) now st = Inr mid
         \<and> fileNewJobTx L job (job_OwnerSubject job) key hash now mid = Inr st')"
proof -
  from assms obtain existing where
    "(case existing of
       Some found \<Rightarrow> Inr ((found, True), st)
     | None \<Rightarrow>
         bindE (failWhen (bget (st_jobs st) (job_ID job) \<noteq> None) ErrExist) (\<lambda>_.
         bindE (checkQueueCapacity (job_OwnerSubject job) maxQueued limits st) (\<lambda>_.
         bindE (consumeProducerRateLimitTx (job_OwnerSubject job) (lim_MaxJobsPerHour limits) now st) (\<lambda>st.
         bindE (fileNewJobTx L job (job_OwnerSubject job) key hash now st) (\<lambda>st.
         Inr ((job, False), st)))))) = Inr ((found, False), st')"
    unfolding admitPreparedJobTx_def bindE_eq_Inr by blast
  then show ?thesis by (cases existing) (auto simp: result_simps)
qed

section \<open>Capacity\<close>

definition queuedJobs :: "store \<Rightarrow> (string \<Rightarrow> bool) \<Rightarrow> string set" where
  "queuedJobs st p = {i. \<exists>j. bget (st_jobs st) i = Some (Val j) \<and> job_Status j = JobQueued \<and> p (job_OwnerSubject j)}"

lemma queuedJobs_entry:
  assumes "storeInv st"
  shows "i \<in> queuedJobs st p \<longleftrightarrow> (\<exists>k e. bget (st_queue st) k = Some (QEntry e) \<and> qe_JobID e = i \<and> p (qe_OwnerSubject e))"
proof -
  have q: "queuedEntry st i = expectedEntry (bget (st_jobs st) i)" using storeInv_queued [OF assms] .
  have inv: "queueInv st" using assms by (simp add: storeInv_def)
  have "i \<in> queuedJobs st p \<longleftrightarrow> (\<exists>k e. queuedEntry st i = Some (k, e) \<and> p (qe_OwnerSubject e))"
    unfolding q by (auto simp: queuedJobs_def expectedEntry_def split: option.splits cell.splits if_splits)
  then show ?thesis using queuedEntry_iff [OF inv, of i] by auto
qed

text \<open>The entries of the queue and the queued jobs are as many.\<close>

lemma queueSize_jobs:
  assumes "storeInv st"
  shows "queueSize (\<lambda>e. p (qe_OwnerSubject e)) st = card (queuedJobs st p)"
proof -
  let ?K = "{k. \<exists>v. bget (st_queue st) k = Some v \<and> (case v of QEntry e \<Rightarrow> p (qe_OwnerSubject e) | _ \<Rightarrow> False)}"
  have inv: "queueInv st" using assms by (simp add: storeInv_def)
  have K: "k \<in> ?K \<longleftrightarrow> (\<exists>e. bget (st_queue st) k = Some (QEntry e) \<and> p (qe_OwnerSubject e))" for k
    by (auto split: queueValue.splits) (metis queueValue.exhaust)
  have entry: "keyJobID k = qe_JobID e \<and> bget (st_queueJobIndex st) (qe_JobID e) = Some k"
    if "bget (st_queue st) k = Some (QEntry e)" for k e
    using queueInv_entry [OF inv that] by auto
  have inj: "inj_on keyJobID ?K"
  proof (rule inj_onI)
    fix x y assume "x \<in> ?K" "y \<in> ?K" and eq: "keyJobID x = keyJobID y"
    then obtain e f where "bget (st_queue st) x = Some (QEntry e)" "bget (st_queue st) y = Some (QEntry f)"
      unfolding K by blast
    from entry [OF this(1)] entry [OF this(2)] eq show "x = y" by auto
  qed
  have img: "keyJobID ` ?K = queuedJobs st p"
  proof (intro set_eqI iffI)
    fix i assume "i \<in> keyJobID ` ?K"
    then obtain k where "k \<in> ?K" "i = keyJobID k" by blast
    then obtain e where "bget (st_queue st) k = Some (QEntry e)" "p (qe_OwnerSubject e)" "i = keyJobID k" unfolding K by blast
    with entry [OF this(1)] show "i \<in> queuedJobs st p" unfolding queuedJobs_entry [OF assms] by metis
  next
    fix i assume "i \<in> queuedJobs st p"
    then obtain k e where e: "bget (st_queue st) k = Some (QEntry e)" "qe_JobID e = i" "p (qe_OwnerSubject e)"
      unfolding queuedJobs_entry [OF assms] by blast
    then have "k \<in> ?K" unfolding K by blast
    then have "keyJobID k \<in> keyJobID ` ?K" by (rule imageI)
    moreover have "keyJobID k = i" using entry [OF e(1)] e(2) by simp
    ultimately show "i \<in> keyJobID ` ?K" by (rule back_subst)
  qed
  have "card ?K = card (queuedJobs st p)" unfolding img [symmetric] by (rule card_image [OF inj, symmetric])
  then show ?thesis by (simp add: bolt.countE_def)
qed

lemma finite_queuedJobs: "storeInv st \<Longrightarrow> finite (queuedJobs st p)"
proof -
  assume "storeInv st"
  then have "bordered (st_jobs st)" by (simp add: storeInv_def storedJobsWF_def)
  from bolt.finite_count [OF this, of "\<lambda>_ _. True"] show ?thesis
    by (rule rev_finite_subset) (auto simp: queuedJobs_def)
qed

lemma capacity_checked:
  assumes inv: "storeInv st" and ok: "checkQueueCapacity owner maxQueued limits st = Inr ()"
  shows "(maxQueued > 0 \<longrightarrow> int (card (queuedJobs st (\<lambda>_. True))) < maxQueued)
    \<and> (lim_MaxQueuedJobs limits > 0 \<longrightarrow> owner \<noteq> [] \<longrightarrow>
         int (card (queuedJobs st (\<lambda>o'. o' = owner))) < lim_MaxQueuedJobs limits)"
proof -
  have q: "queueInv st" using inv by (simp add: storeInv_def)
  have total: "queueSize (\<lambda>_. True) st = card (queuedJobs st (\<lambda>_. True))"
    using queueSize_jobs [OF inv, of "\<lambda>_. True"] by simp
  have owned: "queueSize (\<lambda>e. qe_OwnerSubject e = owner) st = card (queuedJobs st (\<lambda>o'. o' = owner))"
    using queueSize_jobs [OF inv, of "\<lambda>o'. o' = owner"] .
  have "counterOK (st_queueCounts st) queueTotalCounterKey (queueSize (\<lambda>_. True) st)"
    using q by (simp add: queueInv_def)
  then have "\<exists>n. queueCounts st owner = Inr (int (card (queuedJobs st (\<lambda>_. True))), n)
      \<and> (owner \<noteq> [] \<longrightarrow> n = int (card (queuedJobs st (\<lambda>o'. o' = owner))))"
    using queueCounts_exact [OF q, of owner] total owned
    by (cases "owner = []") (auto simp: queueCounts_def queueCounter_OK)
  then obtain n where counts: "queueCounts st owner = Inr (int (card (queuedJobs st (\<lambda>_. True))), n)"
    "owner \<noteq> [] \<longrightarrow> n = int (card (queuedJobs st (\<lambda>o'. o' = owner)))" by blast
  show ?thesis
    using ok counts by (auto simp: checkQueueCapacity_def result_simps split: if_splits)
qed

section \<open>What admission guarantees\<close>

lemma createJob_new:
  assumes inv: "storeInv st" and raw: "\<And>bytes. raw = Inr bytes \<Longrightarrow> length bytes = 16"
    and run: "createJob L raw now request maxQueued limits key hash st = (Inr (job, False), st')"
  shows "storeInv st' \<and> bget (st_jobs st) (job_ID job) = None
    \<and> st_jobs st' = putJSON (job_ID job) (persistJob job) (st_jobs st)
    \<and> job_Status job = JobQueued \<and> job_Attempt job = 0 \<and> jobWF (job_ID job) job
    \<and> queuedEntry st' (job_ID job) = Some (queueKey job, queueEntryOf job)
    \<and> checkQueueCapacity (job_OwnerSubject job) maxQueued limits st = Inr ()
    \<and> (key \<noteq> [] \<longrightarrow> bget (st_idempotency st') (jobIdempotencyKey L (job_OwnerSubject job) key) =
         Some (Val \<lparr>idem_JobID = job_ID job, idem_RequestHash = hash\<rparr>))"
proof -
  from run obtain prepared where prep: "prepareJob L raw request key hash now = Inr prepared"
    and adm: "admitPreparedJobTx L prepared maxQueued limits key hash now st = Inr ((job, False), st')"
    by (auto simp: createJob_def update_Inr split: sum.splits)
  from admit_new [OF adm] have job: "prepared = job" and new: "bget (st_jobs st) (job_ID job) = None"
    and cap: "checkQueueCapacity (job_OwnerSubject job) maxQueued limits st = Inr ()" by auto
  from admit_new [OF adm] obtain mid where
    rate: "consumeProducerRateLimitTx (job_OwnerSubject job) (lim_MaxJobsPerHour limits) now st = Inr mid"
    and filing: "fileNewJobTx L job (job_OwnerSubject job) key hash now mid = Inr st'" by auto
  have wf: "jobWF (job_ID job) job" "job_Status job = JobQueued" "job_Attempt job = 0"
    using prepared_wf [OF prep raw] job by auto
  have same: "sameJobs st mid" "sameLogs st mid" using rate_same [OF rate] by auto
  have "storeInv mid" using storeInv_frame [OF inv same] .
  from fileNewJobTx_inv [OF this wf(1,2) filing] new wf cap same(1) show ?thesis
    by (simp add: sameJobs_def bucket_simps)
qed


text \<open>C28: admission never exceeds the capacity it was given: after it, no more jobs are queued than
  the relay's bound, and no more of the producer's than its own bound.\<close>

theorem admission_respects_capacity:
  assumes "storeInv st" and "\<And>bytes. raw = Inr bytes \<Longrightarrow> length bytes = 16"
    and "createJob L raw now request maxQueued limits key hash st = (Inr (job, False), st')"
  shows "(maxQueued > 0 \<longrightarrow> int (card (queuedJobs st' (\<lambda>_. True))) \<le> maxQueued)
    \<and> (lim_MaxQueuedJobs limits > 0 \<longrightarrow> job_OwnerSubject job \<noteq> [] \<longrightarrow>
         int (card (queuedJobs st' (\<lambda>owner. owner = job_OwnerSubject job))) \<le> lim_MaxQueuedJobs limits)"
proof -
  note new = createJob_new [OF assms]
  have sub: "queuedJobs st' p \<subseteq> insert (job_ID job) (queuedJobs st p)" for p
    using new by (auto simp: queuedJobs_def bucket_simps split: if_splits)
  have "card (queuedJobs st' p) \<le> Suc (card (queuedJobs st p))" for p
  proof -
    have fin: "finite (queuedJobs st p)" using assms(1) by (rule finite_queuedJobs)
    then have "card (queuedJobs st' p) \<le> card (insert (job_ID job) (queuedJobs st p))" using sub by (intro card_mono) simp_all
    also have "\<dots> \<le> Suc (card (queuedJobs st p))" using fin by (simp add: card_insert_if)
    finally show ?thesis .
  qed
  note grow = this [of "\<lambda>_. True"] this [of "\<lambda>owner. owner = job_OwnerSubject job"]
  show ?thesis
    using capacity_checked [OF assms(1), of "job_OwnerSubject job" maxQueued limits] new grow by auto
qed


section \<open>The hourly rate\<close>

text \<open>A sequence of submissions at the given times; a refused one changes nothing.\<close>

fun rateAttempts :: "string \<Rightarrow> int \<Rightarrow> gotime list \<Rightarrow> store \<Rightarrow> nat \<times> store" where
  "rateAttempts owner maximum [] st = (0, st)"
| "rateAttempts owner maximum (now # arrivals) st =
     (case consumeProducerRateLimitTx owner maximum now st of
        Inl _ \<Rightarrow> rateAttempts owner maximum arrivals st
      | Inr st' \<Rightarrow> (case rateAttempts owner maximum arrivals st' of (n, st'') \<Rightarrow> (Suc n, st'')))"

lemma rate_step:
  assumes "0 < maximum" "maximum \<le> maxInt64" "owner \<noteq> []" "s \<noteq> 0" "0 \<le> c" "now < s + hour"
    and "getJSON (st_rateWindows st) owner = Inr \<lparr>win_StartedAt = s, win_Count = c\<rparr>"
  shows "consumeProducerRateLimitTx owner maximum now st =
    (if s \<le> now \<and> c < maximum
     then Inr (st\<lparr>st_rateWindows := putJSON owner \<lparr>win_StartedAt = s, win_Count = c + 1\<rparr> (st_rateWindows st)\<rparr>)
     else Inl ErrOwnerRateCapacity)"
proof -
  have "c < maximum \<Longrightarrow> wrap64 (c + 1) = c + 1"
    using assms(2,5) by (intro wrap64_id) (auto simp: minInt64_def)
  then show ?thesis using assms by (auto simp: consumeProducerRateLimitTx_def Let_def)
qed

text \<open>within the hour of a producer's window exactly as many submissions are admitted as the
  limit leaves, whatever their number and order; a clock that runs backwards before the start of the
  window admits none, and cannot reset it.\<close>

theorem rate_window_is_exact:
  assumes "0 < maximum" "maximum \<le> maxInt64" "owner \<noteq> []" "s \<noteq> 0" "0 \<le> c" "c \<le> maximum"
    and "getJSON (st_rateWindows st) owner = Inr \<lparr>win_StartedAt = s, win_Count = c\<rparr>"
    and "\<forall>t \<in> set arrivals. t < s + hour"
  shows "fst (rateAttempts owner maximum arrivals st) =
    min (length (filter (\<lambda>t. s \<le> t) arrivals)) (nat (maximum - c))"
  using assms(5-8)
proof (induction arrivals arbitrary: st c)
  case Nil
  show ?case by simp
next
  case (Cons now arrivals)
  note step = rate_step [OF assms(1-4) Cons.prems(1) _ Cons.prems(3), of now]
  show ?case
  proof (cases "s \<le> now \<and> c < maximum")
    case True
    let ?st = "st\<lparr>st_rateWindows := putJSON owner \<lparr>win_StartedAt = s, win_Count = c + 1\<rparr> (st_rateWindows st)\<rparr>"
    have "fst (rateAttempts owner maximum arrivals ?st) = min (length (filter (\<lambda>t. s \<le> t) arrivals)) (nat (maximum - (c + 1)))"
      by (rule Cons.IH) (use True Cons.prems in \<open>simp_all add: bucket_simps\<close>)
    moreover have "consumeProducerRateLimitTx owner maximum now st = Inr ?st" using step True Cons.prems(4) by simp
    moreover have "nat (maximum - c) = Suc (nat (maximum - (c + 1)))" using True by arith
    ultimately show ?thesis using True by (simp add: case_prod_beta)
  next
    case False
    then have "consumeProducerRateLimitTx owner maximum now st = Inl ErrOwnerRateCapacity" using step Cons.prems(4) by simp
    then show ?thesis using Cons.IH [OF Cons.prems(1-3)] Cons.prems False by auto
  qed
qed

section \<open>Witnesses\<close>

definition witnessRequest :: submitRequest where
  "witnessRequest = \<lparr>sub_ID = ''job-1'', sub_ContractVersion = [], sub_TenantID = [], sub_Source = [],
     sub_Requirements = zeroRequirements\<lparr>req_Task := ''chat''\<rparr>, sub_Payload = ''{}'', sub_Sealed = None,
     sub_PoolAuthorization = None, sub_AssignmentID = [], sub_AssignmentSecret = [], sub_Priority = 0,
     sub_MaxAttempts = 0, sub_OwnerSubject = ''alice'', sub_PolicyDecision = zeroPolicy, sub_Pipeline = [],
     sub_Step = [], sub_ParentID = [], sub_scheduledActionInternal = False\<rparr>"

definition witnessHash :: string where "witnessHash = replicate 64 (CHR ''a'')"

definition admittedJob :: job where
  "admittedJob = jobOfRequest witnessRequest ''job-1'' JobContractV1 (64000000000 * second)"

lemma alice_clean: "cleanLabel ''alice'' 120 = ''alice''" by code_simp

lemma admittedJob_fields:
  "job_ID admittedJob = ''job-1''" "job_OwnerSubject admittedJob = ''alice''" "job_TenantID admittedJob = []"
  "job_ParentID admittedJob = []" "job_SealedPayload admittedJob = None" "job_Priority admittedJob = 0"
  "job_UpdatedAt admittedJob = 64000000000 * second" "job_Payload admittedJob = ''{}''"
  by (simp_all add: admittedJob_def jobOfRequest_def witnessRequest_def Let_def alice_clean)

lemma witness_prepared:
  "prepareJob plainLib (Inl ErrNotExist) witnessRequest ''k1'' witnessHash (64000000000 * second) = Inr admittedJob"
proof -
  have "\<not> IsRelayReservedTask plainLib ''chat''" by code_simp
  moreover have "ValidateIdempotencyKey ''k1'' = Inr ()" "validJobID ''job-1''" by code_simp+
  moreover have "ValidateAllowed zeroPolicy = Inr ()" by (simp add: ValidateAllowed_def zeroPolicy_def)
  moreover have "NormalizeJobContractVersion [] = Inr JobContractV1" by (simp add: NormalizeJobContractVersion_def)
  moreover have "job_Payload (jobOfRequest witnessRequest ''job-1'' JobContractV1 (64000000000 * second)) = ''{}''"
    using admittedJob_fields by (simp add: admittedJob_def)
  ultimately have "prepareJob plainLib (Inl ErrNotExist) witnessRequest ''k1'' witnessHash (64000000000 * second) =
      Inr (jobOfRequest witnessRequest ''job-1'' JobContractV1 (64000000000 * second))"
    by (simp add: prepareJob_def Let_def witnessHash_def) (simp add: witnessRequest_def alice_clean)
  then show ?thesis by (simp add: admittedJob_def)
qed

lemma event_total:
  "job_ID job \<noteq> [] \<Longrightarrow> t \<in> set authoritativeJobEvents \<Longrightarrow> log_Sequence (scopeLog JobEventsRoot (job_ID job) st) < 1000 \<Longrightarrow>
   \<exists>st'. appendAuthoritativeJobEventTx now job t st = Inr st'
     \<and> log_Sequence (scopeLog JobEventsRoot (job_ID job) st') = log_Sequence (scopeLog JobEventsRoot (job_ID job) st) + 1"
  by (auto simp: appendAuthoritativeJobEventTx_def appendExecutionEventTx_def appendToLog_def Let_def scopeLog_put)

lemma job_event_pipelines:
  "appendAuthoritativeJobEventTx now job t st = Inr st' \<Longrightarrow> scopeLog PipelineEventsRoot s st' = scopeLog PipelineEventsRoot s st"
  by (auto simp: appendAuthoritativeJobEventTx_def appendExecutionEventTx_def result_simps Let_def scopeLog_put)

text \<open>A new job files into a store with an empty queue.\<close>

lemma fileNewJobTx_total:
  assumes "jobWF (job_ID job) job" and "st_queue st = []" "st_queueJobIndex st = []"
    "st_queueCounts st = []" "st_idempotency st = []" and "sameLogs emptyStore st"
  shows "\<exists>st'. fileNewJobTx L job owner key hash now st = Inr st'"
proof -
  let ?i = "job_ID job"
  have id: "?i \<noteq> []" using assms(1) by (auto simp: jobWF_def validJobID_def)
  obtain s2 where s2: "putExecutionScopeLookup L ?i (job_OwnerSubject job) (job_TenantID job) (putJob ?i job st) = Inr s2"
    using id by (simp add: putExecutionScopeLookup_def)
  define s2' where "s2' = putJobOwnerIndex L job (s2\<lparr>st_jobIndex := bput (jobIndexKey job) ?i (st_jobIndex s2)\<rparr>)"
  have e: "st_queue s2' = []" "st_queueJobIndex s2' = []" "st_queueCounts s2' = []" "st_idempotency s2' = []"
    and logs: "sameLogs emptyStore s2'"
    using s2 assms(2-6) by (auto simp: s2'_def putExecutionScopeLookup_def putJobOwnerIndex_def result_simps store_frame sameLogs_def)
  have "queueInv s2'" by (rule queueInv_cong [OF queueInv_empty]) (simp_all add: e emptyStore_def)
  then obtain s3 where s3: "putQueueEntry job s2' = Inr s3"
    using putQueueEntry_new_ok [of s2' job] e by (auto simp: bget_Nil bolt.countE_def)
  have o3: "sameLogs s2' s3" "st_idempotency s3 = []"
    using outsideQueue_fields [OF putQueueEntry_outside [OF s3]] e by auto
  obtain s4 where s4: "(if key = [] then Inr s3 else saveIdempotentJobTx L owner key hash ?i s3) = Inr s4" "sameLogs s3 s4"
    using o3(2) by (cases "key = []") (auto simp: saveIdempotentJobTx_def Let_def bget_Nil sameLogs_def)
  have "sameLogs emptyStore s4" using logs o3(1) s4(2) sameLogs_trans by blast
  then have l4: "scopeLog r s s4 = emptyLog" for r s using scopeLog_sameLogs emptyStore_log by simp
  obtain s5 where s5: "appendAuthoritativeJobEventTx now job ''job.accepted'' s4 = Inr s5" "log_Sequence (scopeLog JobEventsRoot ?i s5) = 1"
    using event_total [OF id, of "''job.accepted''" s4 now] l4 by (auto simp: authoritativeJobEvents_def emptyLog_def)
  obtain s6 where s6: "appendAuthoritativeJobEventTx now job ''job.queued'' s5 = Inr s6"
    using event_total [OF id, of "''job.queued''" s5 now] s5(2) by (auto simp: authoritativeJobEvents_def)
  have "fileNewJobTx L job owner key hash now st = appendPipelineStepEventTx now job ''pipeline.step.queued'' s6"
    unfolding fileNewJobTx_def Let_def s2 bindE_Inr s2'_def [symmetric] s3 s4(1) s5(1) s6 ..
  moreover have "scopeLog PipelineEventsRoot (job_ParentID job) s6 = emptyLog"
    using job_event_pipelines [OF s5(1)] job_event_pipelines [OF s6] l4 by simp
  then have "\<exists>st'. appendPipelineStepEventTx now job ''pipeline.step.queued'' s6 = Inr st'"
    by (simp add: appendPipelineStepEventTx_def appendExecutionEventTx_def appendToLog_def emptyLog_def Let_def)
  ultimately show ?thesis by simp
qed

lemma emptyStore_fields [simp]:
  "st_queue emptyStore = []" "st_queueJobIndex emptyStore = []" "st_queueCounts emptyStore = []" "st_idempotency emptyStore = []"
  "st_sessionLocks emptyStore = []" "st_nodes emptyStore = []" "st_assignments emptyStore = []" "st_jobs emptyStore = []"
  by (simp_all add: emptyStore_def)

lemma witness_admitted:
  "\<exists>st. createJob plainLib (Inl ErrNotExist) (64000000000 * second) witnessRequest 10 zeroLimits ''k1'' witnessHash emptyStore
     = (Inr (admittedJob, False), st)"
proof -
  have wf: "jobWF (job_ID admittedJob) admittedJob" using prepared_wf [OF witness_prepared] by simp
  obtain st where st: "fileNewJobTx plainLib admittedJob ''alice'' ''k1'' witnessHash (64000000000 * second) emptyStore = Inr st"
    using fileNewJobTx_total [OF wf, of emptyStore plainLib "''alice''" "''k1''" witnessHash "64000000000 * second"]
    by auto
  have "queueCounts emptyStore ''alice'' = Inr (0, 0)"
    using queueCounts_exact [OF queueInv_empty, of "''alice''"] by (simp add: emptyStore_def bget_Nil bolt.countE_def)
  moreover have "bget (st_jobs emptyStore) k = None" "bget (st_idempotency emptyStore) k = None" for k
    by (simp_all add: emptyStore_def bget_Nil)
  ultimately have "admitPreparedJobTx plainLib admittedJob 10 zeroLimits ''k1'' witnessHash (64000000000 * second) emptyStore
      = Inr ((admittedJob, False), st)"
    using st by (simp add: admitPreparedJobTx_def zeroLimits_def producerPriorityAllowed_def lookupIdempotentJobTx_def
        checkQueueCapacity_def consumeProducerRateLimitTx_def admittedJob_fields)
  then show ?thesis by (simp add: createJob_def witness_prepared update_def)
qed


theorem admission_respects_capacity_witness:
  "\<exists>st. createJob plainLib (Inl ErrNotExist) (64000000000 * second) witnessRequest 10 zeroLimits ''k1'' witnessHash emptyStore
     = (Inr (admittedJob, False), st) \<and> int (card (queuedJobs st (\<lambda>_. True))) \<le> 10"
proof -
  obtain st where st: "createJob plainLib (Inl ErrNotExist) (64000000000 * second) witnessRequest 10 zeroLimits ''k1'' witnessHash
      emptyStore = (Inr (admittedJob, False), st)" using witness_admitted by blast
  from admission_respects_capacity [OF storeInv_empty _ st] st show ?thesis by auto
qed


theorem rate_window_is_exact_witness:
  "fst (rateAttempts ''alice'' 2 [50, 40, 60, 70, 80]
      (emptyStore\<lparr>st_rateWindows := [(''alice'', Val \<lparr>win_StartedAt = 50, win_Count = 0\<rparr>)]\<rparr>)) = 2"
  using rate_window_is_exact [of 2 "''alice''" 50 0
      "emptyStore\<lparr>st_rateWindows := [(''alice'', Val \<lparr>win_StartedAt = 50, win_Count = 0\<rparr>)]\<rparr>" "[50, 40, 60, 70, 80]"]
  by (simp add: maxInt64_def getJSON_def bget_def duration_units)

end
