(* ===== verification/Job_Lifecycle.thy ===== *)
theory Job_Lifecycle
  imports Job_Admission Routing_Performance
begin

text \<open>
  The life of a job after admission (\<open>internal/cluster/store.go\<close>, \<open>AssignJob\<close> to
  \<open>validateWorkerResult\<close>, and the node switches \<open>SetNodeConnected\<close> and
  \<open>SetNodeDraining\<close>): assignment to a node, start, progress, cancellation and completion by the
  worker that holds it. Every operation is one transaction. A reply of a worker is accepted only from
  the node, the attempt and the fence of the current assignment. \<open>now\<close> is the clock reading of an
  operation and \<open>raw\<close> the bytes of its random source.
\<close>

section \<open>Fences and credentials\<close>

definition relayAuthorityValid :: "goLib \<Rightarrow> relayAuthority \<Rightarrow> bool" where
  "relayAuthorityValid L authority \<longleftrightarrow> validRoutingLabel L (auth_ClusterID authority) 120 \<and> auth_Epoch authority > 0"

definition assignmentFenceValid :: "goLib \<Rightarrow> assignmentFence \<Rightarrow> bool" where
  "assignmentFenceValid L fence \<longleftrightarrow>
     validRoutingLabel L (fence_ClusterID fence) 120 \<and> fence_RelayEpoch fence > 0 \<and> fence_Generation fence > 0"

definition validateAssignmentFence :: "goLib \<Rightarrow> job \<Rightarrow> assignmentFence option \<Rightarrow> unit result" where
  "validateAssignmentFence L job reported =
     (case job_AssignmentFence job of
        None \<Rightarrow> failWhen (reported \<noteq> None) ErrAssignmentFenceMismatch
      | Some fence \<Rightarrow>
          (case reported of
             None \<Rightarrow> Inl ErrAssignmentFenceMismatch
           | Some r \<Rightarrow>
               failWhen (job_Attempt job \<le> 0 \<or> \<not> assignmentFenceValid L fence \<or> \<not> assignmentFenceValid L r \<or> fence \<noteq> r
                         \<or> fence_Generation r \<noteq> toUint64 (job_Attempt job)) ErrAssignmentFenceMismatch))"

definition validNodeCredentialTx :: "store \<Rightarrow> string \<Rightarrow> string \<Rightarrow> gotime \<Rightarrow> bool" where
  "validNodeCredentialTx st hash nodeID now \<longleftrightarrow>
     hash \<noteq> [] \<and> nodeID \<noteq> [] \<and>
     (case getJSON (st_tokens st) hash of
        Inl _ \<Rightarrow> False
      | Inr token \<Rightarrow> tok_Role token = ''node'' \<and> tok_Subject token = nodeID \<and> \<not> tok_Revoked token
                     \<and> (tok_ExpiresAt token = 0 \<or> now < tok_ExpiresAt token))"

section \<open>Assignment\<close>

record adapterAssignment =
  aa_EndpointID :: int
  aa_Principal :: string
  aa_SessionRecovery :: bool

text \<open>The requirements after the selected endpoint has been written into them.\<close>

definition selectAdapter :: "goLib \<Rightarrow> job \<Rightarrow> adapterAssignment option \<Rightarrow> job result" where
  "selectAdapter L job adapter =
     (case adapter of
        None \<Rightarrow> Inr job
      | Some a \<Rightarrow>
          (let r = job_Requirements job in
           bindE (failWhen (\<not> equalFold L (req_Provider r) ''adapter'') (ErrText ''adapter endpoint selection requires provider adapter'')) (\<lambda>_.
           bindE (failWhen (aa_EndpointID a < 0) (ErrText ''adapter endpoint selection is invalid'')) (\<lambda>_.
           bindE (failWhen (job_SealedPayload job \<noteq> None \<and>
                    (aa_EndpointID a \<noteq> req_AdapterEndpointID r \<or> aa_Principal a \<noteq> req_AdapterPrincipal r
                     \<or> aa_SessionRecovery a \<noteq> req_AdapterSessionRecovery r))
                    (ErrText ''sealed adapter assignment cannot change authenticated endpoint requirements'')) (\<lambda>_.
           bindE (failWhen (aa_EndpointID a > 0 \<and> req_AdapterEndpointID r > 0 \<and> req_AdapterEndpointID r \<noteq> aa_EndpointID a)
                    (ErrText ''adapter job is bound to another endpoint'')) (\<lambda>_.
           Inr (job\<lparr>job_Requirements := r\<lparr>req_AdapterEndpointID := aa_EndpointID a, req_AdapterPrincipal := aa_Principal a,
                      req_AdapterSessionRecovery := aa_SessionRecovery a\<rparr>\<rparr>)))))))"

text \<open>The routing decision kept with the job: it must select this node among its eligible candidates.\<close>

definition bindDecision :: "string result \<Rightarrow> job \<Rightarrow> string \<Rightarrow> routingDecision option \<Rightarrow> job result" where
  "bindDecision raw job nodeID decision =
     (case decision of
        None \<Rightarrow> Inr job
      | Some d \<Rightarrow>
          bindE (failWhen (dec_SelectedNodeID d \<noteq> [] \<and> dec_SelectedNodeID d \<noteq> nodeID) (ErrText ''routing decision selects another node'')) (\<lambda>_.
          bindE (failWhen (\<not> list_ex (\<lambda>c. cand_NodeID c = nodeID \<and> cand_Eligible c) (dec_Candidates d))
                   (ErrText ''routing decision does not contain the selected eligible node'')) (\<lambda>_.
          bindE (if dec_ID d = [] then randomID ''route'' raw else Inr (dec_ID d)) (\<lambda>decisionID.
          Inr (job\<lparr>job_RoutingDecision := Some (d\<lparr>dec_Preview := False, dec_JobID := job_ID job, dec_SelectedNodeID := nodeID,
                 dec_Requirements := job_Requirements job, dec_ID := decisionID,
                 dec_CreatedAt := (if dec_CreatedAt d = 0 then job_AssignedAt job else dec_CreatedAt d)\<rparr>)\<rparr>)))))"

definition checkParentRunning :: "store \<Rightarrow> job \<Rightarrow> unit result" where
  "checkParentRunning st job =
     (if job_ParentID job = [] then Inr ()
      else case getJSON (st_pipelineRuns st) (job_ParentID job) of
        Inl _ \<Rightarrow> Inl ErrPipelineParentTerminal
      | Inr parent \<Rightarrow> failWhen (run_Status parent \<noteq> ''running'') ErrPipelineParentTerminal)"

definition nodeForAssignment :: "store \<Rightarrow> string \<Rightarrow> node result" where
  "nodeForAssignment st nodeID =
     (case getJSON (st_nodes st) nodeID of
        Inl e \<Rightarrow> (if e = ErrNotExist then Inr zeroNode else Inl e)
      | Inr node \<Rightarrow> Inr node)"

definition assignedJob :: "string \<Rightarrow> relayAuthority option \<Rightarrow> gotime \<Rightarrow> job \<Rightarrow> job" where
  "assignedJob nodeID authority now job =
     (let attempt = wrap64 (job_Attempt job + 1) in
      job\<lparr>job_Status := JobAssigned, job_AssignedNode := nodeID, job_Attempt := attempt,
          job_AssignmentFence := map_option (\<lambda>a. \<lparr>fence_ClusterID = auth_ClusterID a, fence_RelayEpoch = auth_Epoch a,
            fence_Generation = toUint64 attempt\<rparr>) authority,
          job_Progress := None, job_AssignedAt := now, job_UpdatedAt := now\<rparr>)"

text \<open>The transaction in two parts: the guards with the claims on the route and the session, and the
  transition itself.\<close>

definition claimAssignmentTx ::
  "goLib \<Rightarrow> gotime \<Rightarrow> string \<Rightarrow> string \<Rightarrow> string \<Rightarrow> adapterAssignment option \<Rightarrow> routingDecision option \<Rightarrow> store \<Rightarrow> (job \<times> store) result" where
  "claimAssignmentTx L now jobID nodeID credentialHash adapter decision st =
     bindE (getJSON (st_jobs st) jobID) (\<lambda>job.
     bindE (failWhen (job_Status job \<noteq> JobQueued) (ErrText ''job is no longer queued'')) (\<lambda>_.
     bindE (checkParentRunning st job) (\<lambda>_.
     bindE (failWhen (job_SealedPayload job \<noteq> None \<and> job_AssignedNode job \<noteq> [] \<and> job_AssignedNode job \<noteq> nodeID)
              (ErrText ''sealed job is bound to another node'')) (\<lambda>_.
     bindE (nodeForAssignment st nodeID) (\<lambda>node.
     bindE (failWhen (node_Draining node) ErrNodeDraining) (\<lambda>_.
     bindE (failWhen (credentialHash \<noteq> [] \<and> \<not> validNodeCredentialTx st credentialHash nodeID now) ErrWorkerCredentialInvalid) (\<lambda>_.
     bindE (case decision of
              Some d \<Rightarrow> failWhen (dec_RouteKey d \<noteq> [] \<and>
                          (\<not> validRoutingHealthRouteKey (dec_RouteKey d) \<or> dec_RouteKey d \<noteq> fst (routingHealthKey L (dec_Requirements d))))
                          (ErrText ''routing decision route identity is invalid'')
            | None \<Rightarrow> Inr ()) (\<lambda>_.
     bindE (selectAdapter L job adapter) (\<lambda>job.
     bindE (claimRoutingRecoveryProbeTx L st node (job_Requirements job) (job_OwnerSubject job) (job_ID job)
              (case decision of Some d \<Rightarrow> dec_RouteKey d | None \<Rightarrow> []) now) (\<lambda>(probeClaimed, node).
     bindE (acquireAdapterSessionLockTx L (job_OwnerSubject job) (job_Requirements job) adapterSessionLockJob (job_ID job) 0 now
              (adapterSessionNeedsLockTx L (job_Requirements job) nodeID)
              (if probeClaimed then putNode (node_ID node) node st else st)) (\<lambda>st.
     Inr (job, st))))))))))))"

definition commitAssignmentTx ::
  "string result \<Rightarrow> gotime \<Rightarrow> string \<Rightarrow> string \<Rightarrow> routingDecision option \<Rightarrow> relayAuthority option \<Rightarrow> job \<Rightarrow> store \<Rightarrow> (job \<times> store) result" where
  "commitAssignmentTx raw now jobID nodeID decision authority job st =
     (let job = assignedJob nodeID authority now job in
      bindE (failWhen (job_Attempt job \<le> 0) (ErrText ''assignment generation overflow'')) (\<lambda>_.
      bindE (bindDecision raw job nodeID decision) (\<lambda>job.
      bindE (deleteQueueEntry jobID (putJob jobID job st)) (\<lambda>st.
      bindE (if job_RoutingDecision job \<noteq> None then appendAuthoritativeJobEventTx now job ''route.selected'' st else Inr st) (\<lambda>st.
      bindE (appendAuthoritativeJobEventTx now job ''worker.assigned'' st) (\<lambda>st.
      Inr (job, st)))))))"

definition assignJobTx ::
  "goLib \<Rightarrow> string result \<Rightarrow> gotime \<Rightarrow> string \<Rightarrow> string \<Rightarrow> string \<Rightarrow> adapterAssignment option \<Rightarrow> routingDecision option \<Rightarrow>
   relayAuthority option \<Rightarrow> store \<Rightarrow> (job \<times> store) result" where
  "assignJobTx L raw now jobID nodeID credentialHash adapter decision authority st =
     bindE (claimAssignmentTx L now jobID nodeID credentialHash adapter decision st) (\<lambda>(job, st).
     commitAssignmentTx raw now jobID nodeID decision authority job st)"

definition assignJobAuthorized where
  "assignJobAuthorized L raw now jobID nodeID credentialHash adapter decision authority =
     update (assignJobTx L raw now jobID nodeID credentialHash adapter decision authority)"

definition assignJob where
  "assignJob L raw now jobID nodeID adapter decision authority =
     assignJobAuthorized L raw now jobID nodeID [] adapter decision authority"

definition AssignJob :: "goLib \<Rightarrow> string result \<Rightarrow> gotime \<Rightarrow> string \<Rightarrow> string \<Rightarrow> int list \<Rightarrow> store \<Rightarrow> job result \<times> store" where
  "AssignJob L raw now jobID nodeID selectedAdapterEndpoint st =
     (if length selectedAdapterEndpoint > 1 then (Inl (ErrText ''only one adapter endpoint may be selected''), st)
      else assignJob L raw now jobID nodeID
             (case selectedAdapterEndpoint of
                [endpoint] \<Rightarrow> Some \<lparr>aa_EndpointID = endpoint, aa_Principal = [], aa_SessionRecovery = False\<rparr>
              | _ \<Rightarrow> None) None None st)"

definition AssignJobWithDecision where
  "AssignJobWithDecision L raw now jobID nodeID decision = assignJob L raw now jobID nodeID None (Some decision) None"

definition AssignJobFencedWithDecision where
  "AssignJobFencedWithDecision L raw now jobID nodeID decision authority st =
     (if \<not> relayAuthorityValid L authority then (Inl (ErrText ''valid relay authority is required for fenced assignment''), st)
      else assignJob L raw now jobID nodeID None (Some decision) (Some authority) st)"

definition AssignJobAuthorizedFencedWithDecision where
  "AssignJobAuthorizedFencedWithDecision L raw now jobID nodeID credentialHash decision authority st =
     (if \<not> relayAuthorityValid L authority then (Inl (ErrText ''valid relay authority is required for fenced assignment''), st)
      else assignJobAuthorized L raw now jobID nodeID credentialHash None (Some decision) (Some authority) st)"

definition AssignAdapterJob where
  "AssignAdapterJob L raw now jobID nodeID endpointID sessionRecovery =
     assignJob L raw now jobID nodeID
       (Some \<lparr>aa_EndpointID = endpointID, aa_Principal = [], aa_SessionRecovery = sessionRecovery\<rparr>) None None"

definition AssignAdapterJobWithDecision where
  "AssignAdapterJobWithDecision L raw now jobID nodeID endpointID sessionRecovery decision =
     assignJob L raw now jobID nodeID
       (Some \<lparr>aa_EndpointID = endpointID, aa_Principal = [], aa_SessionRecovery = sessionRecovery\<rparr>) (Some decision) None"

definition AssignAdapterJobFencedWithDecision where
  "AssignAdapterJobFencedWithDecision L raw now jobID nodeID endpointID adapterPrincipal sessionRecovery decision authority st =
     (if \<not> relayAuthorityValid L authority then (Inl (ErrText ''valid relay authority is required for fenced assignment''), st)
      else assignJob L raw now jobID nodeID
             (Some \<lparr>aa_EndpointID = endpointID, aa_Principal = adapterPrincipal, aa_SessionRecovery = sessionRecovery\<rparr>)
             (Some decision) (Some authority) st)"

definition AssignAdapterJobAuthorizedFencedWithDecision where
  "AssignAdapterJobAuthorizedFencedWithDecision L raw now jobID nodeID credentialHash endpointID adapterPrincipal sessionRecovery decision
     authority st =
     (if \<not> relayAuthorityValid L authority then (Inl (ErrText ''valid relay authority is required for fenced assignment''), st)
      else assignJobAuthorized L raw now jobID nodeID credentialHash
             (Some \<lparr>aa_EndpointID = endpointID, aa_Principal = adapterPrincipal, aa_SessionRecovery = sessionRecovery\<rparr>)
             (Some decision) (Some authority) st)"

section \<open>Running\<close>

definition markRunningTx :: "goLib \<Rightarrow> gotime \<Rightarrow> string \<Rightarrow> string \<Rightarrow> int \<Rightarrow> assignmentFence option \<Rightarrow> store \<Rightarrow> (job \<times> store) result" where
  "markRunningTx L now jobID nodeID attempt fence st =
     bindE (getJSON (st_jobs st) jobID) (\<lambda>job.
     bindE (failWhen (job_Status job \<noteq> JobAssigned \<or> job_AssignedNode job \<noteq> nodeID \<or> attempt \<le> 0 \<or> job_Attempt job \<noteq> attempt)
              (ErrText ''job is not assigned to this node and attempt'')) (\<lambda>_.
     bindE (validateAssignmentFence L job fence) (\<lambda>_.
     let job = job\<lparr>job_Status := JobRunning, job_StartedAt := now, job_UpdatedAt := now\<rparr>;
         st = putJob jobID job st in
     bindE (appendAuthoritativeJobEventTx now job ''execution.started'' st) (\<lambda>st.
     bindE (appendPipelineStepEventTx now job ''pipeline.step.started'' st) (\<lambda>st.
     Inr (job, st))))))"

definition markRunning where
  "markRunning L now jobID nodeID attempt fence = update (markRunningTx L now jobID nodeID attempt fence)"

definition MarkRunning where "MarkRunning L now jobID nodeID attempt = markRunning L now jobID nodeID attempt None"
definition MarkRunningFenced where "MarkRunningFenced L now jobID nodeID attempt fence = markRunning L now jobID nodeID attempt fence"

definition updateJobProgressTx ::
  "goLib \<Rightarrow> gotime \<Rightarrow> string \<Rightarrow> string \<Rightarrow> int \<Rightarrow> assignmentFence option \<Rightarrow> jobProgress \<Rightarrow> store \<Rightarrow> (job \<times> store) result" where
  "updateJobProgressTx L now jobID nodeID attempt fence progress st =
     bindE (getJSON (st_jobs st) jobID) (\<lambda>job.
     bindE (failWhen ((job_Status job \<noteq> JobAssigned \<and> job_Status job \<noteq> JobRunning) \<or> job_AssignedNode job \<noteq> nodeID
                      \<or> attempt \<le> 0 \<or> job_Attempt job \<noteq> attempt)
              (ErrText ''job is not running on this node and attempt'')) (\<lambda>_.
     bindE (validateAssignmentFence L job fence) (\<lambda>_.
     bindE (failWhen (job_SealedPayload job \<noteq> None) (ErrText ''plaintext progress is disabled for encrypted jobs'')) (\<lambda>_.
     bindE (failWhen (prog_Sequence progress = 0 \<or> length (prog_Text progress) > 2 ^ 20 \<or> length (prog_Detail progress) > 500
                      \<or> prog_Percent progress < 0 \<or> prog_Percent progress > 100) (ErrText ''invalid job progress'')) (\<lambda>_.
     if (case job_Progress job of Some p \<Rightarrow> prog_Sequence progress \<le> prog_Sequence p | None \<Rightarrow> False) then Inr (job, st)
     else let progress = progress\<lparr>prog_Phase := cleanLabel (prog_Phase progress) 30, prog_Detail := cleanLabel (prog_Detail progress) 500,
                prog_UpdatedAt := now\<rparr>;
              job = job\<lparr>job_Progress := Some progress, job_UpdatedAt := now\<rparr> in
          bindE (appendAdvisoryJobProgressEventTx now job progress (putJob jobID job st)) (\<lambda>st. Inr (job, st)))))))"

definition updateJobProgress where
  "updateJobProgress L now jobID nodeID attempt fence progress = update (updateJobProgressTx L now jobID nodeID attempt fence progress)"

definition UpdateJobProgress where
  "UpdateJobProgress L now jobID nodeID attempt progress = updateJobProgress L now jobID nodeID attempt None progress"
definition UpdateJobProgressFenced where
  "UpdateJobProgressFenced L now jobID nodeID attempt fence progress = updateJobProgress L now jobID nodeID attempt fence progress"

section \<open>Cancellation\<close>

definition cancelledJob :: "gotime \<Rightarrow> job \<Rightarrow> job" where
  "cancelledJob now job =
     (let queued = (job_Status job = JobQueued);
          job = job\<lparr>job_Status := JobCancelled, job_FinishedAt := now, job_UpdatedAt := now\<rparr>
      in if queued then job\<lparr>job_Payload := [], job_SealedPayload := None, job_Result := [], job_SealedResult := None,
                            job_Progress := None\<rparr> else job)"

definition cancelJobTx :: "job \<Rightarrow> gotime \<Rightarrow> store \<Rightarrow> (job \<times> store) result" where
  "cancelJobTx job now st =
     bindE (failWhen (terminalJobStatus (job_Status job)) (ErrText ''job is already final'')) (\<lambda>_.
     let job = cancelledJob now job in
     bindE (deleteQueueEntry (job_ID job) st) (\<lambda>st.
     bindE (appendAuthoritativeJobEventTx now job ''job.cancelled'' (putJob (job_ID job) job st)) (\<lambda>st.
     bindE (appendPipelineStepEventTx now job ''pipeline.step.cancelled'' st) (\<lambda>st.
     Inr (job, st)))))"

definition CancelJobForProducer :: "goLib \<Rightarrow> gotime \<Rightarrow> string \<Rightarrow> string \<Rightarrow> string list \<Rightarrow> store \<Rightarrow> job result \<times> store" where
  "CancelJobForProducer L now jobID owner allowedTenants = update (\<lambda>st.
     bindE (failWhen (owner \<noteq> [] \<and> \<not> executionScopeLookupMatches L st jobID owner allowedTenants) ErrNotExist) (\<lambda>_.
     bindE (getJSON (st_jobs st) jobID) (\<lambda>job.
     bindE (failWhen (owner \<noteq> [] \<and> (job_OwnerSubject job \<noteq> owner \<or> \<not> tenantAllowed (job_TenantID job) allowedTenants)) ErrNotExist) (\<lambda>_.
     cancelJobTx job now st))))"

definition CancelJobOwned where "CancelJobOwned L now jobID owner = CancelJobForProducer L now jobID owner []"
definition CancelJob where "CancelJob L now jobID = CancelJobOwned L now jobID []"

section \<open>Completion\<close>

definition sealedAlgorithm :: string where "sealedAlgorithm = ''X25519-AES-256-GCM''"

definition usageHasNoExecutionEvidence :: "usage \<Rightarrow> bool" where
  "usageHasNoExecutionEvidence u \<longleftrightarrow> use_InputTokens u = 0 \<and> use_OutputTokens u = 0 \<and> use_TotalTokens u = 0
     \<and> use_ComputeMS u = 0 \<and> use_QueueMS u = 0 \<and> use_ReservedCostUSD u = 0 \<and> use_EstimatedCostUSD u = 0
     \<and> use_EquivalentCostUSD u = 0 \<and> use_SavedCostUSD u = 0 \<and> use_PeakVRAMBytes u = 0 \<and> use_PeakRAMBytes u = 0
     \<and> use_PeakGPUUtilization u = 0 \<and> use_ResourceScope u = []"

definition preExecutionRetryAllowed ::
  "goLib \<Rightarrow> job \<Rightarrow> string \<Rightarrow> sealedEnvelope option \<Rightarrow> usage \<Rightarrow> string \<Rightarrow> string \<Rightarrow> string \<Rightarrow> executionMetadata option list \<Rightarrow> bool" where
  "preExecutionRetryAllowed L job result sealed usage jobError reportedFailureCode failureCode execution \<longleftrightarrow>
     \<not> (job_Status job \<noteq> JobAssigned \<or> job_Attempt job \<le> 0 \<or> job_Attempt job \<ge> job_MaxAttempts job \<or> trimSpace jobError = [])
     \<and> \<not> equalFold L (trimSpace (req_Provider (job_Requirements job))) ''adapter''
     \<and> \<not> (reportedFailureCode \<noteq> failureCode \<or> failureCode \<noteq> FailureWorkerCapacity \<and> failureCode \<noteq> FailureWorkerStopping)
     \<and> \<not> (result \<noteq> [] \<or> sealed \<noteq> None \<or> \<not> usageHasNoExecutionEvidence usage)
     \<and> (case execution of
          [] \<Rightarrow> True
        | None # _ \<Rightarrow> True
        | Some e # _ \<Rightarrow> e = \<lparr>exec_AdapterEndpointID = 0, exec_EphemeralAdapterEndpoint = False\<rparr>)"

text \<open>The message of the error, \<open>None\<close> for an acceptable completion.\<close>

definition validateWorkerResult :: "goLib \<Rightarrow> job \<Rightarrow> string \<Rightarrow> sealedEnvelope option \<Rightarrow> string \<Rightarrow> string option" where
  "validateWorkerResult L job result sealed jobError =
     (if trimSpace jobError \<noteq> []
      then (if result \<noteq> [] \<or> sealed \<noteq> None then Some ''failed completion must not include a result'' else None)
      else if job_SealedPayload job = None
      then (if sealed \<noteq> None then Some ''plaintext job returned an encrypted result''
            else if result = [] \<or> int (length result) > MaximumJobResultBytes \<or> \<not> validUTF8 result \<or> \<not> jsonValid L result
            then Some (''plaintext result must be valid JSON up to '' @ itoa MaximumJobResultBytes @ '' bytes'')
            else if \<not> jsonObject L result then Some ''plaintext result must be a JSON object'' else None)
      else case sealed of
        None \<Rightarrow> Some ''encrypted job must return only an encrypted result''
      | Some env \<Rightarrow>
          (if result \<noteq> [] then Some ''encrypted job must return only an encrypted result''
           else if env_Algorithm env \<noteq> sealedAlgorithm \<or> env_EphemeralPublic env \<noteq> []
           then Some ''encrypted result envelope is invalid''
           else if (case base64RawURL L (env_Nonce env) of None \<Rightarrow> True | Some nonce \<Rightarrow> length nonce \<noteq> 12)
           then Some ''encrypted result nonce is invalid''
           else if (case base64RawURL L (env_Ciphertext env) of
                      None \<Rightarrow> True
                    | Some ciphertext \<Rightarrow> length ciphertext < 16 \<or> int (length ciphertext) > MaximumJobResultBytes + 16)
           then Some (''encrypted result ciphertext must represent at most '' @ itoa MaximumJobResultBytes @ '' bytes'')
           else None))"

definition retriedJob :: "gotime \<Rightarrow> job \<Rightarrow> job" where
  "retriedJob now job =
     (let job = job\<lparr>job_Status := JobQueued, job_Error := [], job_FailureCode := [], job_Result := [], job_SealedResult := None,
            job_Usage := zeroUsage, job_Progress := None, job_RoutingDecision := None, job_AssignmentFence := None,
            job_ExecutedAdapterEndpointID := 0, job_EphemeralAdapterEndpoint := False, job_AssignedAt := 0, job_StartedAt := 0,
            job_FinishedAt := 0, job_UpdatedAt := now\<rparr>
      in if job_SealedPayload job = None then job\<lparr>job_AssignedNode := []\<rparr> else job)"

definition retryJobTx :: "gotime \<Rightarrow> string \<Rightarrow> job \<Rightarrow> store \<Rightarrow> (job \<times> store) result" where
  "retryJobTx now jobID job st =
     bindE (resolveRoutingRecoveryProbeTx st (job_AssignedNode job) (job_ID job) [] now) (\<lambda>(_, st).
     let job = retriedJob now job in
     bindE (putQueueEntry job (putJob jobID job st)) (\<lambda>st.
     bindE (appendAuthoritativeJobEventTx now job ''job.retrying'' st) (\<lambda>st.
     bindE (appendAuthoritativeJobEventTx now job ''job.queued'' st) (\<lambda>st.
     Inr (job, st)))))"

text \<open>The endpoint that the worker says it used, and whether that contradicts the job.\<close>

definition reportedEndpoint :: "executionMetadata option list \<Rightarrow> int" where
  "reportedEndpoint execution = (case execution of [Some e] \<Rightarrow> exec_AdapterEndpointID e | _ \<Rightarrow> 0)"

definition reportedEphemeral :: "executionMetadata option list \<Rightarrow> bool" where
  "reportedEphemeral execution = (case execution of Some e # _ \<Rightarrow> exec_EphemeralAdapterEndpoint e | _ \<Rightarrow> False)"

definition completionProblem ::
  "goLib \<Rightarrow> job \<Rightarrow> string \<Rightarrow> sealedEnvelope option \<Rightarrow> string \<Rightarrow> executionMetadata option list \<Rightarrow> string option" where
  "completionProblem L job result sealed jobError execution =
     (let endpoint = reportedEndpoint execution; provider = trimSpace (req_Provider (job_Requirements job)) in
      if endpoint \<noteq> 0 \<and> (endpoint < 1 \<or> provider \<noteq> [] \<and> \<not> equalFold L provider ''adapter'')
      then Some ''adapter execution metadata does not match this job''
      else validateWorkerResult L job result sealed jobError)"

definition finishedJob ::
  "goLib \<Rightarrow> gotime \<Rightarrow> job \<Rightarrow> string \<Rightarrow> sealedEnvelope option \<Rightarrow> usage \<Rightarrow> string \<Rightarrow> string \<Rightarrow> executionMetadata option list \<Rightarrow> job" where
  "finishedJob L now job result sealed usage jobError failureCode execution =
     (let endpoint = reportedEndpoint execution;
          (job, jobError, failureCode) =
            (case completionProblem L job result sealed jobError execution of
               None \<Rightarrow>
                 (let job = job\<lparr>job_Result := result, job_SealedResult := sealed,
                        job_EphemeralAdapterEndpoint := req_AdapterEphemeralSession (job_Requirements job)\<rparr>;
                      job = (if endpoint > 0
                             then job\<lparr>job_ExecutedAdapterEndpointID := endpoint,
                                      job_EphemeralAdapterEndpoint := (job_EphemeralAdapterEndpoint job \<or> reportedEphemeral execution)\<rparr>
                             else job)
                  in (job, jobError, failureCode))
             | Some problem \<Rightarrow> (job\<lparr>job_Result := [], job_SealedResult := None\<rparr>, ''worker result rejected: '' @ problem,
                                FailureWorkerResultRejected));
          usage = (if job_AssignedAt job \<noteq> 0 \<and> job_CreatedAt job < job_AssignedAt job
                   then usage\<lparr>use_QueueMS := nonNegativeDurationMilliseconds (timeSub (job_AssignedAt job) (job_CreatedAt job))\<rparr>
                   else usage);
          job = job\<lparr>job_Usage := usage, job_Error := cleanLabel jobError 500,
                    job_FailureCode := normalizedWorkerFailureCode L failureCode jobError,
                    job_FinishedAt := now, job_UpdatedAt := now\<rparr>
      in if jobError = []
         then job\<lparr>job_FailureCode := [],
                  job_Progress := map_option (\<lambda>p. p\<lparr>prog_Sequence := saturatingUint64Add (prog_Sequence p) 1, prog_Phase := ''final'',
                    prog_Busy := False, prog_UpdatedAt := now\<rparr>) (job_Progress job),
                  job_Status := JobCompleted\<rparr>
         else job\<lparr>job_Status := JobFailed\<rparr>)"

definition placeFinishedSession :: "goLib \<Rightarrow> job \<Rightarrow> store \<Rightarrow> store" where
  "placeFinishedSession L job st =
     (let key = sessionPlacementKey L (job_OwnerSubject job) (job_Requirements job) in
      if isAdapter L (job_Requirements job)
      then (if job_ExecutedAdapterEndpointID job > 0 \<and> \<not> job_EphemeralAdapterEndpoint job
            then putSessionPlacement key \<lparr>plc_NodeID = job_AssignedNode job,
                   plc_AdapterEndpointID = job_ExecutedAdapterEndpointID job,
                   plc_AdapterPrincipal = req_AdapterPrincipal (job_Requirements job), plc_UpdatedAt = job_UpdatedAt job\<rparr> st
            else st)
      else putSessionPlacement key \<lparr>plc_NodeID = job_AssignedNode job,
             plc_AdapterEndpointID = job_ExecutedAdapterEndpointID job, plc_AdapterPrincipal = [],
             plc_UpdatedAt = job_UpdatedAt job\<rparr> st)"

definition creditNode :: "goLib \<Rightarrow> job \<Rightarrow> node \<Rightarrow> node" where
  "creditNode L job node =
     (let u = job_Usage job;
          node = node\<lparr>node_JobsTotal := saturatingUint64Add (node_JobsTotal node) 1,
            node_JobsFailed := (if job_Status job = JobFailed then saturatingUint64Add (node_JobsFailed node) 1 else node_JobsFailed node),
            node_ComputeMS := saturatingUint64Add (node_ComputeMS node) (use_ComputeMS u),
            node_CostUSD := saturatingCostAdd (node_CostUSD node) (use_EstimatedCostUSD u),
            node_CostKnownJobs := saturatingUint64Add (node_CostKnownJobs node) (use_CostKnownJobs u),
            node_CostUnknownJobs := saturatingUint64Add (node_CostUnknownJobs node) (use_CostUnknownJobs u)\<rparr>;
          node = recordRoutingOutcomeForOwnerRoute L node (job_Requirements job) (job_OwnerSubject job)
                   (jobRoutingHealthRouteKey job) (job_ID job) (job_Status job = JobCompleted) (job_FailureCode job) (job_FinishedAt job)
      in if job_Status job = JobCompleted
         then recordJobRoutingPerformance L node job (routingObservedComputeMS job) (job_FinishedAt job) else node)"

text \<open>The writes of a finished job: the job, its session placement, its lock, the statistics of the node.\<close>

definition settleJob :: "goLib \<Rightarrow> string \<Rightarrow> job \<Rightarrow> store \<Rightarrow> store" where
  "settleJob L jobID job st =
     (let st = placeFinishedSession L job (putJob jobID job st);
          st = releaseAdapterSessionLockTx L (job_OwnerSubject job) (job_Requirements job) adapterSessionLockJob (job_ID job) st
      in if job_Status job = JobCompleted \<or> job_Status job = JobFailed
         then case getJSON (st_nodes st) (job_AssignedNode job) of
                Inr node \<Rightarrow> (let node = creditNode L job node in putNode (node_ID node) node st)
              | Inl _ \<Rightarrow> st
         else st)"

definition finishJobTx :: "goLib \<Rightarrow> gotime \<Rightarrow> string \<Rightarrow> job \<Rightarrow> store \<Rightarrow> (job \<times> store) result" where
  "finishJobTx L now jobID job st =
     bindE (appendAuthoritativeJobEventTx now job (if job_Status job = JobFailed then ''job.failed'' else ''job.completed'')
              (settleJob L jobID job st)) (\<lambda>st.
     bindE (appendPipelineStepEventTx now job
              (if job_Status job = JobFailed then ''pipeline.step.failed'' else ''pipeline.step.completed'') st) (\<lambda>st.
     Inr (job, st)))"

text \<open>The job that a worker may complete: the one it holds, at this attempt and under this fence.\<close>

definition heldJobTx :: "goLib \<Rightarrow> string \<Rightarrow> string \<Rightarrow> int \<Rightarrow> assignmentFence option \<Rightarrow> store \<Rightarrow> job result" where
  "heldJobTx L jobID nodeID attempt fence st =
     bindE (getJSON (st_jobs st) jobID) (\<lambda>job.
     bindE (failWhen (job_Status job \<noteq> JobAssigned \<and> job_Status job \<noteq> JobRunning) (ErrText ''job is not assigned'')) (\<lambda>_.
     bindE (failWhen (nodeID = [] \<or> job_AssignedNode job \<noteq> nodeID) (ErrText ''job is not assigned to this node'')) (\<lambda>_.
     bindE (failWhen (attempt \<le> 0 \<or> job_Attempt job \<noteq> attempt) (ErrText ''job result belongs to a stale assignment attempt'')) (\<lambda>_.
     bindE (validateAssignmentFence L job fence) (\<lambda>_.
     Inr job)))))"

text \<open>The error and its code as the relay keeps them: a sealed job's plaintext diagnostics are replaced.\<close>

definition reportedFailure :: "goLib \<Rightarrow> job \<Rightarrow> string \<Rightarrow> string \<Rightarrow> string \<times> string" where
  "reportedFailure L job jobError failureCode =
     (let (jobError, failureCode) =
            (if job_SealedPayload job \<noteq> None \<and> trimSpace jobError \<noteq> []
             then let code = normalizedWorkerFailureCode L failureCode jobError in (sealedJobFailureMessage code, code)
             else (jobError, failureCode))
      in (jobError, normalizedWorkerFailureCode L failureCode jobError))"

definition completeJobTx ::
  "goLib \<Rightarrow> gotime \<Rightarrow> string \<Rightarrow> string \<Rightarrow> int \<Rightarrow> assignmentFence option \<Rightarrow> string \<Rightarrow> sealedEnvelope option \<Rightarrow> usage \<Rightarrow> string \<Rightarrow>
   string \<Rightarrow> executionMetadata option list \<Rightarrow> store \<Rightarrow> (job \<times> store) result" where
  "completeJobTx L now jobID nodeID attempt fence result sealed usage jobError failureCode execution st =
     bindE (heldJobTx L jobID nodeID attempt fence st) (\<lambda>job.
     case reportedFailure L job jobError failureCode of (jobError', failureCode') \<Rightarrow>
       (if preExecutionRetryAllowed L job result sealed usage jobError' failureCode failureCode' execution
        then retryJobTx now jobID job st
        else finishJobTx L now jobID (finishedJob L now job result sealed usage jobError' failureCode' execution) st))"

definition completeJobWithFailure where
  "completeJobWithFailure L now jobID nodeID attempt fence result sealed usage jobError failureCode execution st =
     (if length execution > 1 then (Inl (ErrText ''only one execution metadata record may be reported''), st)
      else update (completeJobTx L now jobID nodeID attempt fence result sealed usage jobError failureCode execution) st)"

definition CompleteJob where
  "CompleteJob L now jobID nodeID attempt result sealed usage jobError execution =
     completeJobWithFailure L now jobID nodeID attempt None result sealed usage jobError [] execution"
definition CompleteJobWithFailure where
  "CompleteJobWithFailure L now jobID nodeID attempt result sealed usage jobError failureCode execution =
     completeJobWithFailure L now jobID nodeID attempt None result sealed usage jobError failureCode execution"
definition CompleteJobWithFailureFenced where
  "CompleteJobWithFailureFenced L now jobID nodeID attempt fence result sealed usage jobError failureCode execution =
     completeJobWithFailure L now jobID nodeID attempt fence result sealed usage jobError failureCode execution"

section \<open>Node switches\<close>

definition SetNodeConnected :: "gotime \<Rightarrow> string \<Rightarrow> bool \<Rightarrow> store \<Rightarrow> unit result \<times> store" where
  "SetNodeConnected now nodeID isConnected = update (\<lambda>st.
     bindE (getJSON (st_nodes st) nodeID) (\<lambda>node.
     let node = node\<lparr>node_Connected := isConnected, node_LastSeen := now\<rparr>;
         node = (if isConnected
                 then node\<lparr>node_State := (if node_Draining node then ''draining'' else ''online''),
                           node_ConnectedAt := (if node_ConnectedAt node = 0 then node_LastSeen node else node_ConnectedAt node)\<rparr>
                 else node\<lparr>node_State := ''offline'', node_Capabilities := (node_Capabilities node)\<lparr>cap_Running := 0\<rparr>\<rparr>)
     in Inr ((), putNode nodeID node st)))"

definition SetNodeDraining :: "string \<Rightarrow> bool \<Rightarrow> store \<Rightarrow> node result \<times> store" where
  "SetNodeDraining nodeID draining = update (\<lambda>st.
     bindE (getJSON (st_nodes st) nodeID) (\<lambda>node.
     let node = node\<lparr>node_Draining := draining\<rparr>;
         node = (if node_Connected node then node\<lparr>node_State := (if draining then ''draining'' else ''online'')\<rparr> else node)
     in Inr (node, putNode nodeID node st)))"

section \<open>Steps of a job\<close>

text \<open>What the life cycle depends on: status, attempt, bound of the attempts.\<close>

type_synonym jobState = "string \<times> int \<times> int"

definition jobState :: "job \<Rightarrow> jobState" where
  "jobState j = (job_Status j, job_Attempt j, job_MaxAttempts j)"

definition jobView :: "store \<Rightarrow> string \<Rightarrow> jobState option" where
  "jobView st i = (case bget (st_jobs st) i of Some (Val j) \<Rightarrow> Some (jobState j) | _ \<Rightarrow> None)"

inductive jobStep :: "jobState option \<Rightarrow> jobState option \<Rightarrow> bool" where
  admit: "jobStep None (Some (JobQueued, 0, m))"
| assign: "a < m \<Longrightarrow> jobStep (Some (JobQueued, a, m)) (Some (JobAssigned, a + 1, m))"
| start: "jobStep (Some (JobAssigned, a, m)) (Some (JobRunning, a, m))"
| retry: "a < m \<Longrightarrow> jobStep (Some (JobAssigned, a, m)) (Some (JobQueued, a, m))"
| complete: "s \<in> {JobAssigned, JobRunning} \<Longrightarrow> jobStep (Some (s, a, m)) (Some (JobCompleted, a, m))"
| fail: "s \<in> {JobQueued, JobAssigned, JobRunning} \<Longrightarrow> jobStep (Some (s, a, m)) (Some (JobFailed, a, m))"
| cancel: "s \<in> {JobQueued, JobAssigned, JobRunning} \<Longrightarrow> jobStep (Some (s, a, m)) (Some (JobCancelled, a, m))"

inductive_cases jobStep_SomeE: "jobStep (Some x) y"
inductive_cases jobStep_runningE: "jobStep (Some (JobRunning, a, m)) y"

text \<open>Every job of a store stays as it is or makes one step.\<close>

definition jobsStep :: "store \<Rightarrow> store \<Rightarrow> bool" where
  "jobsStep st st' \<longleftrightarrow> (\<forall>i. jobView st' i = jobView st i \<or> jobStep (jobView st i) (jobView st' i))"

lemma jobState_persist [simp]: "jobState (persistJob j) = jobState j"
  by (simp add: jobState_def)

lemma jobsStep_put:
  assumes "st_jobs st' = putJSON i (persistJob j') (st_jobs st)" and "bget (st_jobs st) i = Some (Val j)"
    and "jobState j' = jobState j \<or> jobStep (Some (jobState j)) (Some (jobState j'))"
  shows "jobsStep st st'"
  using assms by (auto simp: jobsStep_def jobView_def bucket_simps)

lemma jobsStep_same: "st_jobs st' = st_jobs st \<Longrightarrow> jobsStep st st'"
  by (simp add: jobsStep_def jobView_def)

lemmas status_simps = status_defs

lemma terminal_iff: "terminalJobStatus s \<longleftrightarrow> s \<in> {JobCompleted, JobFailed, JobCancelled}"
  by (auto simp: terminalJobStatus_def)

lemma live_status: "jobWF i j \<Longrightarrow> \<not> terminalJobStatus (job_Status j) \<Longrightarrow> job_Status j \<in> {JobQueued, JobAssigned, JobRunning}"
  by (auto simp: jobWF_def jobStatuses_def terminal_iff)

section \<open>Assignment keeps the invariant\<close>

lemma acquire_same:
  assumes "acquireAdapterSessionLockTx L owner r kind h e now req st = Inr st'"
  shows "sameJobs st st'" "sameLogs st st'"
  using outsideLocks_fields [OF acquire_outside [OF assms]] by auto

lemma selectAdapter_shape:
  "selectAdapter L job adapter = Inr job' \<Longrightarrow> \<exists>r. job' = job\<lparr>job_Requirements := r\<rparr>"
  by (cases adapter) (auto simp: selectAdapter_def Let_def result_simps intro: exI [of _ "job_Requirements job"])

lemma claimAssignment_spec:
  assumes "claimAssignmentTx L now jobID nodeID cred adapter decision st = Inr (job, st')"
  shows "\<exists>j r node mid. getJSON (st_jobs st) jobID = Inr j \<and> job_Status j = JobQueued \<and> job = j\<lparr>job_Requirements := r\<rparr>
    \<and> sameJobs st st' \<and> sameLogs st st' \<and> checkParentRunning st j = Inr ()
    \<and> nodeForAssignment st nodeID = Inr node \<and> \<not> node_Draining node
    \<and> (cred \<noteq> [] \<longrightarrow> validNodeCredentialTx st cred nodeID now)
    \<and> (job_SealedPayload j \<noteq> None \<longrightarrow> job_AssignedNode j = [] \<or> job_AssignedNode j = nodeID)
    \<and> st_sessionLocks mid = st_sessionLocks st
    \<and> acquireAdapterSessionLockTx L (job_OwnerSubject job) r adapterSessionLockJob (job_ID job) 0 now
        (adapterSessionNeedsLockTx L r nodeID) mid = Inr st'"
proof -
  from assms obtain j node probe node' where
    j: "getJSON (st_jobs st) jobID = Inr j" "job_Status j = JobQueued" "checkParentRunning st j = Inr ()"
    and sealed: "\<not> (job_SealedPayload j \<noteq> None \<and> job_AssignedNode j \<noteq> [] \<and> job_AssignedNode j \<noteq> nodeID)"
    and node: "nodeForAssignment st nodeID = Inr node" "\<not> node_Draining node"
    and cred: "\<not> (cred \<noteq> [] \<and> \<not> validNodeCredentialTx st cred nodeID now)"
    and sel: "selectAdapter L j adapter = Inr job"
    and acq: "acquireAdapterSessionLockTx L (job_OwnerSubject job) (job_Requirements job) adapterSessionLockJob (job_ID job) 0 now
        (adapterSessionNeedsLockTx L (job_Requirements job) nodeID) (if probe then putNode (node_ID node') node' st else st) = Inr st'"
    unfolding claimAssignmentTx_def bindE_eq_Inr failWhen_eq_Inr by (auto simp: bindE_eq_Inr)
  define mid where "mid = (if probe then putNode (node_ID node') node' st else st)"
  from selectAdapter_shape [OF sel] obtain r where job: "job = j\<lparr>job_Requirements := r\<rparr>" by blast
  have mid: "sameJobs st mid" "sameLogs st mid" "st_sessionLocks mid = st_sessionLocks st"
    using putNode_same by (auto simp: mid_def store_frame)
  have acq': "acquireAdapterSessionLockTx L (job_OwnerSubject job) r adapterSessionLockJob (job_ID job) 0 now
        (adapterSessionNeedsLockTx L r nodeID) mid = Inr st'" using acq by (simp add: mid_def job)
  have "sameJobs st st'" "sameLogs st st'"
    using acquire_same [OF acq'] mid sameJobs_trans sameLogs_trans by blast+
  then show ?thesis using j node cred sealed job mid(3) acq' by blast
qed

lemma bindDecision_shape:
  "bindDecision raw job nodeID decision = Inr job' \<Longrightarrow> \<exists>d. job' = job\<lparr>job_RoutingDecision := d\<rparr>"
  by (cases decision) (auto simp: bindDecision_def result_simps intro: exI [of _ "job_RoutingDecision job"])

lemma assigned_fields [simp]:
  "job_ID (assignedJob nodeID authority now job) = job_ID job"
  "job_Status (assignedJob nodeID authority now job) = JobAssigned"
  "job_AssignedNode (assignedJob nodeID authority now job) = nodeID"
  "job_Attempt (assignedJob nodeID authority now job) = wrap64 (job_Attempt job + 1)"
  "job_MaxAttempts (assignedJob nodeID authority now job) = job_MaxAttempts job"
  "job_Priority (assignedJob nodeID authority now job) = job_Priority job"
  "job_OwnerSubject (assignedJob nodeID authority now job) = job_OwnerSubject job"
  by (simp_all add: assignedJob_def Let_def)

text \<open>Common to the operations: writing a job that leaves the queue, and one that stays outside it.\<close>

lemma unqueue_inv:
  assumes inv: "storeInv st" and wf: "jobWF i job" and st: "job_Status job \<noteq> JobQueued"
    and del: "deleteQueueEntry i (putJob i job st) = Inr st'"
  shows "storeInv st' \<and> st_jobs st' = putJSON i (persistJob job) (st_jobs st)"
proof -
  have x: "storeInvX {i} (putJob i job st)" by (rule storeInvX_putJob) (simp_all add: inv wf storeInv_X)
  from storeInvX_delete [OF x del] have d: "storeInvX {i} st'" "queuedEntry st' i = None" "st_jobs st' = st_jobs (putJob i job st)"
    by simp_all
  have jobs: "st_jobs st' = putJSON i (persistJob job) (st_jobs st)" using d(3) by (simp add: store_frame)
  have "agrees st' i" by (rule agrees_unqueued [OF _ st d(2)]) (simp add: jobs bucket_simps)
  with d(1) jobs show ?thesis using storeInv_close by blast
qed

lemma storeInv_event:
  "storeInv st \<Longrightarrow> appendAuthoritativeJobEventTx now job t st = Inr st' \<Longrightarrow> storeInv st' \<and> st_jobs st' = st_jobs st"
  "storeInv st \<Longrightarrow> appendPipelineStepEventTx now job t st = Inr st' \<Longrightarrow> storeInv st' \<and> st_jobs st' = st_jobs st"
  "storeInv st \<Longrightarrow> appendAdvisoryJobProgressEventTx now job p st = Inr st' \<Longrightarrow> storeInv st' \<and> st_jobs st' = st_jobs st"
  using storeInvX_event [of "{}"] sameJobs_jobs unfolding storeInv_iff by metis+

lemma attempt_up: "jobWF i j \<Longrightarrow> job_Status j = JobQueued \<Longrightarrow> wrap64 (job_Attempt j + 1) = job_Attempt j + 1"
  by (rule wrap64_id) (auto simp: jobWF_def minInt64_def maxInt64_def)

lemma commitAssignment_spec:
  assumes inv: "storeInv st" and wf: "jobWF i j" and q: "job_Status j = JobQueued"
    and run: "commitAssignmentTx raw now i nodeID decision authority (j\<lparr>job_Requirements := r\<rparr>) st = Inr (job, st')"
  shows "storeInv st' \<and> st_jobs st' = putJSON i (persistJob job) (st_jobs st) \<and> jobWF i job
    \<and> job_Status job = JobAssigned \<and> job_AssignedNode job = nodeID \<and> job_Attempt job = job_Attempt j + 1
    \<and> job_MaxAttempts job = job_MaxAttempts j \<and> job_OwnerSubject job = job_OwnerSubject j
    \<and> job_AssignmentFence job = map_option (\<lambda>a. \<lparr>fence_ClusterID = auth_ClusterID a, fence_RelayEpoch = auth_Epoch a,
            fence_Generation = toUint64 (job_Attempt j + 1)\<rparr>) authority"
proof -
  let ?a = "assignedJob nodeID authority now (j\<lparr>job_Requirements := r\<rparr>)"
  from run obtain mid ev where bound: "bindDecision raw ?a nodeID decision = Inr job"
    and del: "deleteQueueEntry i (putJob i job st) = Inr mid"
    and ev: "(if job_RoutingDecision job \<noteq> None then appendAuthoritativeJobEventTx now job ''route.selected'' mid else Inr mid) = Inr ev"
    and last: "appendAuthoritativeJobEventTx now job ''worker.assigned'' ev = Inr st'"
    unfolding commitAssignmentTx_def Let_def bindE_eq_Inr by auto
  from bindDecision_shape [OF bound] obtain d where job: "job = ?a\<lparr>job_RoutingDecision := d\<rparr>" by blast
  have up: "wrap64 (job_Attempt j + 1) = job_Attempt j + 1" using attempt_up [OF wf q] .
  have fields: "job_Status job = JobAssigned" "job_AssignedNode job = nodeID" "job_Attempt job = job_Attempt j + 1"
    "job_MaxAttempts job = job_MaxAttempts j" "job_OwnerSubject job = job_OwnerSubject j"
    "job_AssignmentFence job = map_option (\<lambda>a. \<lparr>fence_ClusterID = auth_ClusterID a, fence_RelayEpoch = auth_Epoch a,
            fence_Generation = toUint64 (job_Attempt j + 1)\<rparr>) authority"
    by (simp_all add: job up assignedJob_def Let_def)
  have wf': "jobWF i job"
    using wf q by (auto simp: job jobWF_def up jobStatuses_def status_defs)
  have nq: "job_Status job \<noteq> JobQueued" by (simp add: fields status_defs)
  from unqueue_inv [OF inv wf' nq del] have m: "storeInv mid" "st_jobs mid = putJSON i (persistJob job) (st_jobs st)" by auto
  have e: "storeInv ev \<and> st_jobs ev = st_jobs mid" using ev m(1) storeInv_event(1) by (auto split: if_splits)
  from storeInv_event(1) [OF conjunct1 [OF e] last] e m(2) fields wf' show ?thesis by simp
qed

lemma assignJobTx_spec:
  assumes inv: "storeInv st"
    and run: "assignJobTx L raw now i nodeID cred adapter decision authority st = Inr (job, st')"
  shows "\<exists>j. bget (st_jobs st) i = Some (Val j) \<and> job_Status j = JobQueued \<and> storeInv st' \<and> jobWF i job
    \<and> st_jobs st' = putJSON i (persistJob job) (st_jobs st)
    \<and> job_Status job = JobAssigned \<and> job_AssignedNode job = nodeID \<and> job_Attempt job = job_Attempt j + 1
    \<and> job_MaxAttempts job = job_MaxAttempts j \<and> job_OwnerSubject job = job_OwnerSubject j
    \<and> job_AssignmentFence job = map_option (\<lambda>a. \<lparr>fence_ClusterID = auth_ClusterID a, fence_RelayEpoch = auth_Epoch a,
            fence_Generation = toUint64 (job_Attempt j + 1)\<rparr>) authority"
proof -
  from run obtain job1 st1 where claim: "claimAssignmentTx L now i nodeID cred adapter decision st = Inr (job1, st1)"
    and com: "commitAssignmentTx raw now i nodeID decision authority job1 st1 = Inr (job, st')"
    by (auto simp: assignJobTx_def result_simps)
  from claimAssignment_spec [OF claim] obtain j r where j: "getJSON (st_jobs st) i = Inr j" "job_Status j = JobQueued"
    "job1 = j\<lparr>job_Requirements := r\<rparr>" and same: "sameJobs st st1" "sameLogs st st1" by blast
  have wf: "jobWF i j" using storeInv_get [OF inv j(1)] by simp
  have inv1: "storeInv st1" using storeInv_frame [OF inv same] .
  from commitAssignment_spec [OF inv1 wf j(2) com [unfolded j(3)]] j same(1) show ?thesis
    by (auto simp: sameJobs_def result_simps)
qed

section \<open>The other operations keep the invariant\<close>

text \<open>Writing a job that is and stays outside the queue.\<close>

lemma rewrite_inv:
  assumes inv: "storeInv st" and old: "bget (st_jobs st) i = Some (Val j)" "job_Status j \<noteq> JobQueued"
    and wf: "jobWF i job" and new: "job_Status job \<noteq> JobQueued"
  shows "storeInv (putJob i job st)"
proof -
  have x: "storeInvX {i} (putJob i job st)" by (rule storeInvX_putJob) (simp_all add: inv wf storeInv_X)
  have "queuedEntry (putJob i job st) i = None"
    using storeInv_queued [OF inv, of i] old by (simp add: putJob_queued expectedEntry_def)
  then have "agrees (putJob i job st) i" by (rule agrees_unqueued [OF putJob_here new])
  with x show ?thesis by (rule storeInv_close)
qed

lemma markRunningTx_spec:
  assumes inv: "storeInv st" and run: "markRunningTx L now i nodeID attempt fence st = Inr (job, st')"
  shows "\<exists>j. bget (st_jobs st) i = Some (Val j) \<and> job_Status j = JobAssigned \<and> job_AssignedNode j = nodeID
    \<and> job_Attempt j = attempt \<and> validateAssignmentFence L j fence = Inr ()
    \<and> job = j\<lparr>job_Status := JobRunning, job_StartedAt := now, job_UpdatedAt := now\<rparr>
    \<and> storeInv st' \<and> st_jobs st' = putJSON i (persistJob job) (st_jobs st)"
proof -
  from run obtain j ev where j: "bget (st_jobs st) i = Some (Val j)" "job_Status j = JobAssigned" "job_AssignedNode j = nodeID"
    "job_Attempt j = attempt" and fence: "validateAssignmentFence L j fence = Inr ()"
    and job: "job = j\<lparr>job_Status := JobRunning, job_StartedAt := now, job_UpdatedAt := now\<rparr>"
    and e1: "appendAuthoritativeJobEventTx now job ''execution.started'' (putJob i job st) = Inr ev"
    and e2: "appendPipelineStepEventTx now job ''pipeline.step.started'' ev = Inr st'"
    unfolding markRunningTx_def Let_def by (auto simp: result_simps)
  have wf: "jobWF i job" using storeInv_job [OF inv j(1)] j(2) by (auto simp: job jobWF_def jobStatuses_def status_defs)
  have "storeInv (putJob i job st)"
    by (rule rewrite_inv [OF inv j(1) _ wf]) (simp_all add: j(2) job status_defs)
  from storeInv_event(1) [OF this e1] storeInv_event(2) [OF _ e2] j fence job show ?thesis by (simp add: store_frame)
qed

lemma progressTx_spec:
  assumes inv: "storeInv st" and run: "updateJobProgressTx L now i nodeID attempt fence p st = Inr (job, st')"
  shows "\<exists>j. bget (st_jobs st) i = Some (Val j) \<and> job_Status j \<in> {JobAssigned, JobRunning} \<and> job_AssignedNode j = nodeID
    \<and> job_Attempt j = attempt \<and> validateAssignmentFence L j fence = Inr () \<and> job_SealedPayload j = None
    \<and> jobState job = jobState j \<and> storeInv st'
    \<and> (st' = st \<or> st_jobs st' = putJSON i (persistJob job) (st_jobs st)
         \<and> (\<exists>p'. job = j\<lparr>job_Progress := Some p', job_UpdatedAt := now\<rparr> \<and> prog_Sequence p' = prog_Sequence p))"
proof -
  from run obtain j where j: "bget (st_jobs st) i = Some (Val j)" "job_Status j \<in> {JobAssigned, JobRunning}" "job_AssignedNode j = nodeID"
    "job_Attempt j = attempt" and fence: "validateAssignmentFence L j fence = Inr ()" and plain: "job_SealedPayload j = None"
    unfolding updateJobProgressTx_def by (auto simp: result_simps)
  show ?thesis
  proof (cases "case job_Progress j of Some q \<Rightarrow> prog_Sequence p \<le> prog_Sequence q | None \<Rightarrow> False")
    case True
    then have "job = j" "st' = st" using run j by (auto simp: updateJobProgressTx_def result_simps)
    then show ?thesis using j fence plain inv by auto
  next
    case False
    define p' where "p' = p\<lparr>prog_Phase := cleanLabel (prog_Phase p) 30, prog_Detail := cleanLabel (prog_Detail p) 500, prog_UpdatedAt := now\<rparr>"
    from False run j have job: "job = j\<lparr>job_Progress := Some p', job_UpdatedAt := now\<rparr>"
      and ev: "appendAdvisoryJobProgressEventTx now job p' (putJob i job st) = Inr st'"
      by (auto simp: updateJobProgressTx_def Let_def result_simps p'_def)
    have wf: "jobWF i job" using storeInv_job [OF inv j(1)] by (auto simp: job jobWF_def)
    have nq: "job_Status j \<noteq> JobQueued" using j(2) by (auto simp: status_defs)
    have "storeInv (putJob i job st)" by (rule rewrite_inv [OF inv j(1) nq wf]) (simp add: job nq)
    from storeInv_event(3) [OF this ev] j fence plain job show ?thesis by (auto simp: store_frame jobState_def p'_def)
  qed
qed

lemma cancelled_fields [simp]:
  "job_ID (cancelledJob now j) = job_ID j" "job_Status (cancelledJob now j) = JobCancelled"
  "job_Attempt (cancelledJob now j) = job_Attempt j" "job_MaxAttempts (cancelledJob now j) = job_MaxAttempts j"
  "job_Priority (cancelledJob now j) = job_Priority j"
  by (simp_all add: cancelledJob_def Let_def)

lemma cancelJobTx_spec:
  assumes inv: "storeInv st" and old: "bget (st_jobs st) i = Some (Val j)" and run: "cancelJobTx j now st = Inr (job, st')"
  shows "\<not> terminalJobStatus (job_Status j) \<and> job = cancelledJob now j \<and> storeInv st'
    \<and> st_jobs st' = putJSON i (persistJob job) (st_jobs st)"
proof -
  have wf: "jobWF i j" using storeInv_job [OF inv old] by simp
  then have i: "job_ID j = i" by (simp add: jobWF_def)
  from run i obtain mid ev where live: "\<not> terminalJobStatus (job_Status j)" and job: "job = cancelledJob now j"
    and del: "deleteQueueEntry i st = Inr mid"
    and e1: "appendAuthoritativeJobEventTx now job ''job.cancelled'' (putJob i job mid) = Inr ev"
    and e2: "appendPipelineStepEventTx now job ''pipeline.step.cancelled'' ev = Inr st'"
    unfolding cancelJobTx_def Let_def by (auto simp: result_simps)
  have d: "storeInvX {i} mid" "queuedEntry mid i = None" "st_jobs mid = st_jobs st"
    using storeInvX_delete [OF storeInv_X [OF inv, of "{i}"] del] by simp_all
  have wf': "jobWF i job" using wf by (auto simp: job jobWF_def jobStatuses_def status_defs)
  have x: "storeInvX {i} (putJob i job mid)" by (rule storeInvX_putJob [OF d(1) _ wf']) simp
  have "agrees (putJob i job mid) i"
    by (rule agrees_unqueued [OF putJob_here]) (simp_all add: job status_defs putJob_queued d(2))
  with x have "storeInv (putJob i job mid)" by (rule storeInv_close)
  from storeInv_event(1) [OF this e1] storeInv_event(2) [OF _ e2] live job d(3) show ?thesis by (simp add: store_frame)
qed

section \<open>Completion keeps the invariant\<close>

lemma resolveProbe_same:
  "resolveRoutingRecoveryProbeTx st nodeID jobID code now = Inr (b, st') \<Longrightarrow> sameJobs st st' \<and> sameLogs st st'"
  by (auto simp: resolveRoutingRecoveryProbeTx_def putNode_same split: if_splits sum.splits)

lemma recordOutcome_same:
  "recordNodeRoutingOutcomeTx L st nodeID r owner key jobID success code now = Inr st' \<Longrightarrow> sameJobs st st' \<and> sameLogs st st'"
  by (auto simp: recordNodeRoutingOutcomeTx_def putNode_same Let_def split: if_splits sum.splits)

lemma retried_fields [simp]:
  "job_ID (retriedJob now j) = job_ID j" "job_Status (retriedJob now j) = JobQueued"
  "job_Attempt (retriedJob now j) = job_Attempt j" "job_MaxAttempts (retriedJob now j) = job_MaxAttempts j"
  "job_Priority (retriedJob now j) = job_Priority j" "job_SealedPayload (retriedJob now j) = job_SealedPayload j"
  "job_OwnerSubject (retriedJob now j) = job_OwnerSubject j" "job_AssignmentFence (retriedJob now j) = None"
  "job_Result (retriedJob now j) = []" "job_SealedResult (retriedJob now j) = None"
  by (simp_all add: retriedJob_def Let_def)

lemma retryJobTx_spec:
  assumes inv: "storeInv st" and old: "bget (st_jobs st) i = Some (Val j)" and less: "job_Attempt j < job_MaxAttempts j"
    and run: "retryJobTx now i j st = Inr (job, st')"
  shows "job = retriedJob now j \<and> storeInv st' \<and> st_jobs st' = putJSON i (persistJob job) (st_jobs st)"
proof -
  from run obtain b mid mid2 ev where res: "resolveRoutingRecoveryProbeTx st (job_AssignedNode j) (job_ID j) [] now = Inr (b, mid)"
    and job: "job = retriedJob now j" and put: "putQueueEntry job (putJob i job mid) = Inr mid2"
    and e1: "appendAuthoritativeJobEventTx now job ''job.retrying'' mid2 = Inr ev"
    and e2: "appendAuthoritativeJobEventTx now job ''job.queued'' ev = Inr st'"
    unfolding retryJobTx_def Let_def by (auto simp: result_simps)
  have same: "sameJobs st mid" "sameLogs st mid" using resolveProbe_same [OF res] by auto
  have wf: "jobWF i job"
    using storeInv_job [OF inv old] less by (auto simp: job jobWF_def jobStatuses_def status_defs)
  have x: "storeInvX {i} (putJob i job mid)"
    by (rule storeInvX_putJob [OF storeInv_X [OF storeInv_frame [OF inv same]] _ wf]) simp
  from storeInvX_put [OF x wf put] have p: "storeInvX {i} mid2" "queuedEntry mid2 i = Some (queueKey job, queueEntryOf job)"
    "st_jobs mid2 = st_jobs (putJob i job mid)" by simp_all
  have jobs: "st_jobs mid2 = putJSON i (persistJob job) (st_jobs st)" using p(3) same(1) by (simp add: store_frame sameJobs_def)
  have "agrees mid2 i" by (rule agrees_queued [OF _ _ p(2)]) (simp_all add: jobs bucket_simps job)
  with p(1) have "storeInv mid2" by (rule storeInv_close)
  from storeInv_event(1) [OF this e1] storeInv_event(1) [OF _ e2] jobs job show ?thesis by simp
qed

lemma finished_fields:
  fixes L now j result sealed u err code ex
  defines "f \<equiv> finishedJob L now j result sealed u err code ex"
  shows "job_ID f = job_ID j" "job_Status f \<in> {JobCompleted, JobFailed}" "job_Attempt f = job_Attempt j"
    "job_MaxAttempts f = job_MaxAttempts j" "job_Priority f = job_Priority j" "job_OwnerSubject f = job_OwnerSubject j"
    "job_FinishedAt f = now" "job_ParentID f = job_ParentID j"
  by (simp_all add: f_def finishedJob_def Let_def split: option.splits)

lemma placeFinished_same: "sameJobs st (placeFinishedSession L job st)" "sameLogs st (placeFinishedSession L job st)"
  by (simp_all add: placeFinishedSession_def Let_def putPlacement_same)

lemma release_same:
  "sameJobs st (releaseAdapterSessionLockTx L owner r kind h st)" "sameLogs st (releaseAdapterSessionLockTx L owner r kind h st)"
  by (simp_all add: releaseAdapterSessionLockTx_def sameJobs_def sameLogs_def)

lemma settleJob_same:
  "sameJobs (putJob i job st) (settleJob L i job st)" "sameLogs (putJob i job st) (settleJob L i job st)"
proof -
  define s1 where "s1 = releaseAdapterSessionLockTx L (job_OwnerSubject job) (job_Requirements job) adapterSessionLockJob (job_ID job)
      (placeFinishedSession L job (putJob i job st))"
  have "sameJobs (putJob i job st) s1" unfolding s1_def by (rule sameJobs_trans [OF placeFinished_same(1) release_same(1)])
  moreover have "sameLogs (putJob i job st) s1" unfolding s1_def by (rule sameLogs_trans [OF placeFinished_same(2) release_same(2)])
  moreover have "sameJobs s1 (settleJob L i job st)" "sameLogs s1 (settleJob L i job st)"
    by (auto simp: settleJob_def s1_def putNode_same Let_def split: sum.splits)
  ultimately show "sameJobs (putJob i job st) (settleJob L i job st)" "sameLogs (putJob i job st) (settleJob L i job st)"
    using sameJobs_trans sameLogs_trans by blast+
qed

lemma settleJob_inv:
  assumes "storeInv (putJob i job st)"
  shows "storeInv (settleJob L i job st) \<and> st_jobs (settleJob L i job st) = putJSON i (persistJob job) (st_jobs st)"
  using storeInv_frame [OF assms settleJob_same] settleJob_same(1) [of i job st L] by (simp add: sameJobs_def store_frame)

lemma finishJobTx_spec:
  assumes inv: "storeInv st" and old: "bget (st_jobs st) i = Some (Val j)" "job_Status j \<in> {JobAssigned, JobRunning}"
    and wf: "jobWF i job" and fin: "job_Status job \<in> {JobCompleted, JobFailed}"
    and run: "finishJobTx L now i job st = Inr (job', st')"
  shows "job' = job \<and> storeInv st' \<and> st_jobs st' = putJSON i (persistJob job) (st_jobs st)"
proof -
  from run obtain t t' ev where e1: "appendAuthoritativeJobEventTx now job t (settleJob L i job st) = Inr ev"
    and e2: "appendPipelineStepEventTx now job t' ev = Inr st'" and job': "job' = job"
    unfolding finishJobTx_def by (auto simp: result_simps)
  have "storeInv (putJob i job st)"
    by (rule rewrite_inv [OF inv old(1) _ wf]) (use old(2) fin in \<open>auto simp: status_defs\<close>)
  note s = settleJob_inv [OF this, of L]
  from storeInv_event(1) [OF conjunct1 [OF s] e1] storeInv_event(2) [OF _ e2] s job' show ?thesis by simp
qed

lemma heldJob_spec:
  "heldJobTx L i nodeID attempt fence st = Inr j \<longleftrightarrow> bget (st_jobs st) i = Some (Val j) \<and> job_Status j \<in> {JobAssigned, JobRunning}
    \<and> nodeID \<noteq> [] \<and> job_AssignedNode j = nodeID \<and> 0 < attempt \<and> job_Attempt j = attempt \<and> validateAssignmentFence L j fence = Inr ()"
  by (auto simp: heldJobTx_def result_simps)

text \<open>The guards of a completion, and its two outcomes.\<close>

lemma completeJobTx_spec:
  assumes inv: "storeInv st"
    and run: "completeJobTx L now i nodeID attempt fence result sealed u err code ex st = Inr (job, st')"
  shows "\<exists>j. bget (st_jobs st) i = Some (Val j) \<and> job_Status j \<in> {JobAssigned, JobRunning} \<and> nodeID \<noteq> [] \<and> job_AssignedNode j = nodeID
    \<and> 0 < attempt \<and> job_Attempt j = attempt \<and> validateAssignmentFence L j fence = Inr ()
    \<and> storeInv st' \<and> st_jobs st' = putJSON i (persistJob job) (st_jobs st)
    \<and> (job_Status j = JobAssigned \<and> job_Attempt j < job_MaxAttempts j \<and> job = retriedJob now j
         \<and> \<not> isAdapter L (job_Requirements j) \<and> result = [] \<and> sealed = None \<and> usageHasNoExecutionEvidence u
         \<and> code \<in> {FailureWorkerCapacity, FailureWorkerStopping}
       \<or> (\<exists>err' code'. job = finishedJob L now j result sealed u err' code' ex
           \<and> (err' = err \<or> job_SealedPayload j \<noteq> None \<and> trimSpace err \<noteq> [] \<and> (\<exists>c. err' = sealedJobFailureMessage c))))"
proof -
  from run obtain j where held: "heldJobTx L i nodeID attempt fence st = Inr j"
    unfolding completeJobTx_def bindE_eq_Inr by blast
  from held [unfolded heldJob_spec] have j: "bget (st_jobs st) i = Some (Val j)" "job_Status j \<in> {JobAssigned, JobRunning}"
    and node: "nodeID \<noteq> []" "job_AssignedNode j = nodeID" "0 < attempt" "job_Attempt j = attempt"
    and fence: "validateAssignmentFence L j fence = Inr ()" by auto
  obtain err' code' where rep: "reportedFailure L j err code = (err', code')" by force
  have err: "err' = err \<or> job_SealedPayload j \<noteq> None \<and> trimSpace err \<noteq> [] \<and> (\<exists>c. err' = sealedJobFailureMessage c)"
    using rep by (auto simp: reportedFailure_def Let_def split: if_splits)
  have branch: "(if preExecutionRetryAllowed L j result sealed u err' code code' ex then retryJobTx now i j st
      else finishJobTx L now i (finishedJob L now j result sealed u err' code' ex) st) = Inr (job, st')"
    using run by (simp add: completeJobTx_def held rep)
  have wf: "jobWF i j" using storeInv_job [OF inv j(1)] by simp
  show ?thesis
  proof (cases "preExecutionRetryAllowed L j result sealed u err' code code' ex")
    case True
    then have r: "job_Status j = JobAssigned" "job_Attempt j < job_MaxAttempts j" "\<not> isAdapter L (job_Requirements j)"
      "result = []" "sealed = None" "usageHasNoExecutionEvidence u" "code \<in> {FailureWorkerCapacity, FailureWorkerStopping}"
      unfolding preExecutionRetryAllowed_def isAdapter_def by auto
    from retryJobTx_spec [OF inv j(1) r(2)] branch True r j node fence show ?thesis by auto
  next
    case False
    let ?f = "finishedJob L now j result sealed u err' code' ex"
    have "jobWF i ?f"
      using wf finished_fields(1-5) [of L now j result sealed u err' code' ex] by (auto simp: jobWF_def jobStatuses_def status_defs)
    from finishJobTx_spec [OF inv j this finished_fields(2)] branch False
    have "job = ?f \<and> storeInv st' \<and> st_jobs st' = putJSON i (persistJob job) (st_jobs st)" by auto
    then show ?thesis using j node fence err by blast
  qed
qed

section \<open>What the operations guarantee\<close>

text \<open>C7: assigning a job takes it out of the queue exactly once: only a queued job with attempts left is
  assigned, to a node that is not draining and whose credential (when one is asked for) is valid; the
  job is then held by that node at the next attempt, fenced by the relay's epoch and that attempt, and
  no longer in the queue; no other job changes, and a second assignment is refused.\<close>

theorem assignment_takes_queued_job:
  assumes "storeInv st"
    and "assignJobAuthorized L raw now jobID nodeID credentialHash adapter decision authority st = (Inr job, st')"
  shows "storeInv st'
    \<and> (\<exists>j node. getJSON (st_jobs st) jobID = Inr j \<and> job_Status j = JobQueued \<and> job_Attempt job = job_Attempt j + 1
         \<and> job_Attempt job \<le> job_MaxAttempts j \<and> nodeForAssignment st nodeID = Inr node \<and> \<not> node_Draining node)
    \<and> (credentialHash \<noteq> [] \<longrightarrow> validNodeCredentialTx st credentialHash nodeID now)
    \<and> getJSON (st_jobs st') jobID = Inr (persistJob job) \<and> job_Status job = JobAssigned \<and> job_AssignedNode job = nodeID
    \<and> (\<forall>a. authority = Some a \<longrightarrow> job_AssignmentFence job = Some \<lparr>fence_ClusterID = auth_ClusterID a,
          fence_RelayEpoch = auth_Epoch a, fence_Generation = toUint64 (job_Attempt job)\<rparr>)
    \<and> queuedEntry st' jobID = None
    \<and> (\<forall>i. i \<noteq> jobID \<longrightarrow> bget (st_jobs st') i = bget (st_jobs st) i)
    \<and> assignJobAuthorized L raw' now' jobID nodeID' credentialHash' adapter' decision' authority' st' =
        (Inl (ErrText ''job is no longer queued''), st')"
proof -
  from assms(2) have tx: "assignJobTx L raw now jobID nodeID credentialHash adapter decision authority st = Inr (job, st')"
    by (simp add: assignJobAuthorized_def update_Inr)
  from assignJobTx_spec [OF assms(1) tx] obtain j where j: "bget (st_jobs st) jobID = Some (Val j)" "job_Status j = JobQueued"
    and inv: "storeInv st'" and wf: "jobWF jobID job" and jobs: "st_jobs st' = putJSON jobID (persistJob job) (st_jobs st)"
    and f: "job_Status job = JobAssigned" "job_AssignedNode job = nodeID" "job_Attempt job = job_Attempt j + 1"
      "job_MaxAttempts job = job_MaxAttempts j"
      "job_AssignmentFence job = map_option (\<lambda>a. \<lparr>fence_ClusterID = auth_ClusterID a, fence_RelayEpoch = auth_Epoch a,
            fence_Generation = toUint64 (job_Attempt j + 1)\<rparr>) authority" by blast
  from tx obtain job1 st1 where "claimAssignmentTx L now jobID nodeID credentialHash adapter decision st = Inr (job1, st1)"
    by (auto simp: assignJobTx_def result_simps)
  from claimAssignment_spec [OF this] obtain node where node: "nodeForAssignment st nodeID = Inr node" "\<not> node_Draining node"
    and cred: "credentialHash \<noteq> [] \<longrightarrow> validNodeCredentialTx st credentialHash nodeID now" by blast
  have stored: "getJSON (st_jobs st') jobID = Inr (persistJob job)" by (simp add: jobs bucket_simps)
  have "queuedEntry st' jobID = None"
    using storeInv_queued [OF inv, of jobID] by (simp add: jobs bucket_simps expectedEntry_def f(1) status_defs)
  moreover have "claimAssignmentTx L now' jobID nodeID' credentialHash' adapter' decision' st' = Inl (ErrText ''job is no longer queued'')"
    by (simp add: claimAssignmentTx_def stored f(1) status_defs)
  then have "assignJobAuthorized L raw' now' jobID nodeID' credentialHash' adapter' decision' authority' st' =
        (Inl (ErrText ''job is no longer queued''), st')"
    by (simp add: assignJobAuthorized_def assignJobTx_def update_def)
  moreover have "job_Attempt job \<le> job_MaxAttempts j" using wf f(4) by (simp add: jobWF_def)
  moreover have "getJSON (st_jobs st) jobID = Inr j" using j(1) by (simp add: result_simps)
  ultimately show ?thesis using inv j(2) f node cred stored jobs by (auto simp: bucket_simps)
qed

lemma fence_accepted:
  "validateAssignmentFence L j fence = Inr () \<Longrightarrow> fence = job_AssignmentFence j"
  by (auto simp: validateAssignmentFence_def result_simps split: option.splits)

text \<open>C9: only the holder of a job can report on it. A start, a progress report or a result that does not
  come from the node, the attempt and the fence of the job's current assignment (a worker that was
  replaced, an earlier attempt, an earlier relay process) is refused and changes nothing.\<close>

theorem stale_worker_reports_refused:
  assumes "getJSON (st_jobs st) jobID = Inr j"
    and "job_Status j \<notin> {JobAssigned, JobRunning} \<or> job_AssignedNode j \<noteq> nodeID \<or> job_Attempt j \<noteq> attempt
      \<or> job_AssignmentFence j \<noteq> fence"
  shows "(\<exists>e. markRunning L now jobID nodeID attempt fence st = (Inl e, st))
    \<and> (\<exists>e. updateJobProgress L now jobID nodeID attempt fence progress st = (Inl e, st))
    \<and> (\<exists>e. completeJobWithFailure L now jobID nodeID attempt fence result sealed u err code execution st = (Inl e, st))"
proof -
  have "markRunningTx L now jobID nodeID attempt fence st \<noteq> Inr r" for r
    using assms fence_accepted [of L j fence] by (cases r) (auto simp: markRunningTx_def result_simps Let_def)
  then obtain e1 where "markRunningTx L now jobID nodeID attempt fence st = Inl e1" by (meson sum.exhaust)
  moreover have "updateJobProgressTx L now jobID nodeID attempt fence progress st \<noteq> Inr r" for r
    using assms fence_accepted [of L j fence] by (cases r) (auto simp: updateJobProgressTx_def result_simps Let_def)
  then obtain e2 where "updateJobProgressTx L now jobID nodeID attempt fence progress st = Inl e2" by (meson sum.exhaust)
  moreover have "heldJobTx L jobID nodeID attempt fence st \<noteq> Inr r" for r
    using assms fence_accepted [of L j fence] by (auto simp: heldJob_spec result_simps)
  then obtain e3 where "heldJobTx L jobID nodeID attempt fence st = Inl e3" by (meson sum.exhaust)
  ultimately show ?thesis
    by (simp add: markRunning_def updateJobProgress_def completeJobWithFailure_def completeJobTx_def update_def)
qed

text \<open>C8: a result settles a job. A completion that is accepted ends the job as completed or failed and
  takes it out of reach of further reports, except for one case in which nothing can have run: the
  worker refused an assigned job before starting it, for lack of capacity or because it is stopping,
  without any result or usage, on a route that is not an adapter, with attempts left; only then the
  job goes back to the queue, at the same attempt count.\<close>

theorem completion_settles_or_never_ran:
  assumes "storeInv st"
    and "completeJobWithFailure L now jobID nodeID attempt fence result sealed u err code execution st = (Inr job, st')"
  shows "storeInv st' \<and> getJSON (st_jobs st') jobID = Inr (persistJob job)
    \<and> (\<forall>i. i \<noteq> jobID \<longrightarrow> bget (st_jobs st') i = bget (st_jobs st) i)
    \<and> (\<exists>j. getJSON (st_jobs st) jobID = Inr j \<and> job_Attempt job = job_Attempt j
        \<and> (job_Status job \<in> {JobCompleted, JobFailed} \<and> queuedEntry st' jobID = None
           \<or> job_Status job = JobQueued \<and> job_Status j = JobAssigned \<and> job_Attempt j < job_MaxAttempts j
             \<and> \<not> isAdapter L (job_Requirements j) \<and> result = [] \<and> sealed = None \<and> usageHasNoExecutionEvidence u
             \<and> code \<in> {FailureWorkerCapacity, FailureWorkerStopping}
             \<and> queuedEntry st' jobID = Some (queueKey job, queueEntryOf job)))"
proof -
  from assms(2) have tx: "completeJobTx L now jobID nodeID attempt fence result sealed u err code execution st = Inr (job, st')"
    by (simp add: completeJobWithFailure_def update_Inr split: if_splits)
  from completeJobTx_spec [OF assms(1) tx] obtain j where j: "bget (st_jobs st) jobID = Some (Val j)"
    and inv: "storeInv st'" and jobs: "st_jobs st' = putJSON jobID (persistJob job) (st_jobs st)"
    and cases: "job_Status j = JobAssigned \<and> job_Attempt j < job_MaxAttempts j \<and> job = retriedJob now j
         \<and> \<not> isAdapter L (job_Requirements j) \<and> result = [] \<and> sealed = None \<and> usageHasNoExecutionEvidence u
         \<and> code \<in> {FailureWorkerCapacity, FailureWorkerStopping}
       \<or> (\<exists>err' code'. job = finishedJob L now j result sealed u err' code' execution)" by blast
  have q: "queuedEntry st' jobID = (if job_Status job = JobQueued then Some (queueKey job, queueEntryOf job) else None)"
    using storeInv_queued [OF inv, of jobID] by (simp add: jobs bucket_simps expectedEntry_def)
  have get: "getJSON (st_jobs st) jobID = Inr j" using j by (simp add: result_simps)
  from cases show ?thesis
  proof
    assume "job_Status j = JobAssigned \<and> job_Attempt j < job_MaxAttempts j \<and> job = retriedJob now j
         \<and> \<not> isAdapter L (job_Requirements j) \<and> result = [] \<and> sealed = None \<and> usageHasNoExecutionEvidence u
         \<and> code \<in> {FailureWorkerCapacity, FailureWorkerStopping}"
    with inv jobs q get show ?thesis by (auto simp: bucket_simps)
  next
    assume "\<exists>err' code'. job = finishedJob L now j result sealed u err' code' execution"
    then obtain err' code' where "job = finishedJob L now j result sealed u err' code' execution" by blast
    then have "job_Status job \<in> {JobCompleted, JobFailed}" "job_Attempt job = job_Attempt j"
      using finished_fields(2,3) by blast+
    with inv jobs q get show ?thesis by (auto simp: bucket_simps status_defs)
  qed
qed

text \<open>Frames for the session locks: only the lock operations write them.\<close>

lemma event_locks:
  "appendAuthoritativeJobEventTx now job t st = Inr st' \<Longrightarrow> st_sessionLocks st' = st_sessionLocks st"
  using append_outside outsideLogs_fields by metis

lemma commitAssignment_locks:
  assumes "commitAssignmentTx raw now i nodeID decision authority j st = Inr (job, st')"
  shows "st_sessionLocks st' = st_sessionLocks st"
    and "job_OwnerSubject job = job_OwnerSubject j \<and> job_ID job = job_ID j \<and> job_Requirements job = job_Requirements j"
proof -
  let ?a = "assignedJob nodeID authority now j"
  from assms obtain mid ev where bound: "bindDecision raw ?a nodeID decision = Inr job"
    and del: "deleteQueueEntry i (putJob i job st) = Inr mid"
    and ev: "(if job_RoutingDecision job \<noteq> None then appendAuthoritativeJobEventTx now job ''route.selected'' mid else Inr mid) = Inr ev"
    and last: "appendAuthoritativeJobEventTx now job ''worker.assigned'' ev = Inr st'"
    unfolding commitAssignmentTx_def Let_def bindE_eq_Inr by auto
  have "st_sessionLocks mid = st_sessionLocks st"
    using outsideQueue_fields(4) [OF deleteQueueEntry_outside [OF del]] by (simp add: store_frame)
  moreover have "st_sessionLocks ev = st_sessionLocks mid" using ev event_locks by (auto split: if_splits)
  ultimately show "st_sessionLocks st' = st_sessionLocks st" using event_locks [OF last] by simp
  from bindDecision_shape [OF bound]
  show "job_OwnerSubject job = job_OwnerSubject j \<and> job_ID job = job_ID j \<and> job_Requirements job = job_Requirements j"
    by (auto simp: assignedJob_def Let_def)
qed

text \<open>an assignment that may use an adapter session owns that session. Once a job whose requirements
  are eligible for a session lock has been assigned, the lock of its session names the job and never
  expires by itself, and no conflicting active lock of the session belongs to another holder, now or at
  any later time.\<close>

theorem assignment_locks_session:
  assumes "locksWF (st_sessionLocks st)" and "sessionExclusive now (st_sessionLocks st)"
    and "assignJobAuthorized L raw now jobID nodeID credentialHash adapter decision authority st = (Inr job, st')"
    and "adapterSessionLockEligible L (job_Requirements job)"
  shows "locksWF (st_sessionLocks st') \<and> (\<forall>t \<ge> now. sessionExclusive t (st_sessionLocks st'))
    \<and> bget (st_sessionLocks st') (adapterSessionLockKey L (job_OwnerSubject job) (job_Requirements job) adapterSessionLockJob (job_ID job)) =
        Some (Val \<lparr>lock_Kind = adapterSessionLockJob, lock_HolderID = job_ID job,
                   lock_Scope = adapterSessionLockScope L (job_Requirements job), lock_ExpiresAt = 0\<rparr>)"
proof -
  from assms(3) have "assignJobTx L raw now jobID nodeID credentialHash adapter decision authority st = Inr (job, st')"
    by (simp add: assignJobAuthorized_def update_Inr)
  then obtain job1 st1 where claim: "claimAssignmentTx L now jobID nodeID credentialHash adapter decision st = Inr (job1, st1)"
    and com: "commitAssignmentTx raw now jobID nodeID decision authority job1 st1 = Inr (job, st')"
    by (auto simp: assignJobTx_def result_simps)
  note same = commitAssignment_locks [OF com]
  from claimAssignment_spec [OF claim] obtain j r mid where job1: "job1 = j\<lparr>job_Requirements := r\<rparr>"
    and mid: "st_sessionLocks mid = st_sessionLocks st"
    and acq: "acquireAdapterSessionLockTx L (job_OwnerSubject job1) r adapterSessionLockJob (job_ID job1) 0 now
        (adapterSessionNeedsLockTx L r nodeID) mid = Inr st1" by blast
  have r: "job_Requirements job = r" using same(2) job1 by simp
  have "adapterSessionNeedsLockTx L r nodeID" using assms(4) r by (simp add: adapterSessionNeedsLockTx_def)
  with acq have "acquireAdapterSessionLockTx L (job_OwnerSubject job1) r adapterSessionLockJob (job_ID job1) 0 now True mid = Inr st1"
    by simp
  from acquire_exclusive [OF _ _ _ this] show ?thesis using assms(1,2,4) mid same r by simp
qed

lemma finishedJob_result:
  assumes "job_SealedPayload j \<noteq> None"
  shows "job_Result (finishedJob L now j result sealed u err code ex) = []"
proof (cases "completionProblem L j result sealed err ex")
  case None
  then have "result = []" using assms
    by (auto simp: completionProblem_def validateWorkerResult_def Let_def split: if_splits option.splits)
  then show ?thesis using None by (simp add: finishedJob_def Let_def)
next
  case (Some a)
  then show ?thesis by (simp add: finishedJob_def Let_def)
qed


text \<open>C40: the test for an error is not the same everywhere: an error of blanks only passes the validation
  of the result as no error, but is an error for the final status. The job is then failed and keeps the
  result, although a failed completion must not include one.\<close>

theorem blank_error_fails_with_result:
  assumes "getJSON (st_jobs st) jobID = Inr j"
    and "completeJobWithFailure L now jobID nodeID attempt fence result None u err code [] st = (Inr job, st')"
    and "err \<noteq> []" and "trimSpace err = []" and "validateWorkerResult L j result None [] = None"
  shows "job_Status job = JobFailed \<and> job_Result job = result \<and> result \<noteq> []"
proof -
  have tx: "completeJobTx L now jobID nodeID attempt fence result None u err code [] st = Inr (job, st')"
    using assms(2) by (simp add: completeJobWithFailure_def update_Inr)
  then obtain j' where h: "heldJobTx L jobID nodeID attempt fence st = Inr j'" by (auto simp: completeJobTx_def result_simps)
  then have "j' = j" using assms(1) by (simp add: heldJob_spec result_simps)
  with h have held: "heldJobTx L jobID nodeID attempt fence st = Inr j" by simp
  have blank: "trimSpace [] = []" by (simp add: trimSpace_def)
  have plain: "job_SealedPayload j = None" "result \<noteq> []"
    using assms(5) blank by (auto simp: validateWorkerResult_def split: if_splits option.splits)
  have ok: "completionProblem L j result None err [] = None"
    using assms(4,5) blank by (simp add: completionProblem_def reportedEndpoint_def Let_def validateWorkerResult_def)
  have "\<not> preExecutionRetryAllowed L j result None u err code c []" for c
    using assms(4) by (simp add: preExecutionRetryAllowed_def)
  then have "job = finishedJob L now j result None u err (normalizedWorkerFailureCode L code err) []"
    using tx held plain(1) by (auto simp: completeJobTx_def reportedFailure_def finishJobTx_def result_simps)
  then show ?thesis using ok assms(3) plain(2) by (simp add: finishedJob_def Let_def reportedEndpoint_def)
qed

section \<open>Witnesses\<close>

definition heldJob :: job where
  "heldJob = admittedJob\<lparr>job_Status := JobAssigned, job_AssignedNode := ''node-a'', job_Attempt := 1\<rparr>"

definition heldStore :: store where
  "heldStore = putJob ''job-1'' heldJob emptyStore"

lemma admittedJob_wf: "jobWF ''job-1'' admittedJob"
  using prepared_wf [OF witness_prepared] by (simp add: admittedJob_fields)

lemma admittedJob_queued: "job_Status admittedJob = JobQueued" "job_Requirements admittedJob = zeroRequirements\<lparr>req_Task := ''chat''\<rparr>"
  by (simp_all add: admittedJob_def jobOfRequest_def witnessRequest_def Let_def)

lemma heldJob_fields:
  "job_ID heldJob = ''job-1''" "job_Status heldJob = JobAssigned" "job_AssignedNode heldJob = ''node-a''" "job_Attempt heldJob = 1"
  "job_AssignmentFence heldJob = None" "job_SealedPayload heldJob = None" "job_ParentID heldJob = []"
  by (simp_all add: heldJob_def admittedJob_fields)
    (simp add: admittedJob_def jobOfRequest_def witnessRequest_def Let_def zeroJob_def)

lemma heldJob_wf: "jobWF ''job-1'' heldJob"
  using admittedJob_wf admittedJob_queued(1) by (auto simp: heldJob_def jobWF_def jobStatuses_def status_defs)

lemma heldStore_inv: "storeInv heldStore"
proof -
  have "storeInvX {''job-1''} heldStore" unfolding heldStore_def
    by (rule storeInvX_putJob) (simp_all add: storeInv_empty storeInv_X heldJob_wf)
  moreover have "queuedEntry heldStore ''job-1'' = None"
    using storeInv_queued [OF storeInv_empty, of "''job-1''"]
    by (simp add: heldStore_def putJob_queued expectedEntry_def emptyStore_def bget_Nil)
  then have "agrees heldStore ''job-1''"
    unfolding heldStore_def by (rule agrees_unqueued [OF putJob_here, rotated]) (simp add: heldJob_def status_defs)
  ultimately show ?thesis by (rule storeInv_close)
qed

lemma heldStore_get: "getJSON (st_jobs heldStore) ''job-1'' = Inr (persistJob heldJob)"
  by (simp add: heldStore_def store_frame bucket_simps)

text \<open>The same job still queued, in a store with nothing else.\<close>

lemma queued_store:
  "\<exists>st. storeInv st \<and> getJSON (st_jobs st) ''job-1'' = Inr (persistJob admittedJob) \<and> st_nodes st = []
     \<and> st_sessionLocks st = [] \<and> log_Sequence (scopeLog JobEventsRoot ''job-1'' st) < 1000"
proof -
  let ?mid = "putJob ''job-1'' admittedJob emptyStore"
  have x: "storeInvX {''job-1''} ?mid"
    by (rule storeInvX_putJob) (simp_all add: storeInv_empty storeInv_X admittedJob_wf)
  have e: "st_queue ?mid = []" "st_queueJobIndex ?mid = []" "st_queueCounts ?mid = []" "st_nodes ?mid = []"
    "st_sessionLocks ?mid = []"
    by (simp_all add: store_frame emptyStore_def)
  then obtain st where put: "putQueueEntry admittedJob ?mid = Inr st"
    using putQueueEntry_new_ok [of ?mid admittedJob] x by (auto simp: storeInvX_def bget_Nil bolt.countE_def)
  from storeInvX_put [OF x admittedJob_wf put]
  have s: "storeInvX {''job-1''} st" "queuedEntry st ''job-1'' = Some (queueKey admittedJob, queueEntryOf admittedJob)"
    "st_jobs st = st_jobs ?mid" by simp_all
  note out = outsideQueue_fields [OF putQueueEntry_outside [OF put]]
  have job: "bget (st_jobs st) ''job-1'' = Some (Val (persistJob admittedJob))" by (simp add: s(3) putJob_here)
  have "agrees st ''job-1''" by (rule agrees_queued [OF job admittedJob_queued(1) s(2)])
  with s(1) have "storeInv st" by (rule storeInv_close)
  moreover have "sameLogs emptyStore st" using putJob_logs out(2) sameLogs_trans by blast
  then have "log_Sequence (scopeLog JobEventsRoot ''job-1'' st) < 1000"
    using scopeLog_sameLogs [of emptyStore st] by (simp add: emptyStore_log emptyLog_def)
  ultimately show ?thesis using job out(3,4) e(4,5) by (intro exI [of _ st]) (simp add: getJSON_eq_Inr)
qed

lemma witness_assigned:
  assumes inv: "storeInv st" and get: "getJSON (st_jobs st) ''job-1'' = Inr (persistJob admittedJob)"
    and nodes: "st_nodes st = []" and locks: "st_sessionLocks st = []"
    and logs: "log_Sequence (scopeLog JobEventsRoot ''job-1'' st) < 1000"
  shows "\<exists>job st'. assignJobAuthorized plainLib (Inl ErrNotExist) 7 ''job-1'' ''node-a'' [] None None
      (Some \<lparr>auth_ClusterID = ''home'', auth_Epoch = 3\<rparr>) st = (Inr job, st')
    \<and> adapterSessionLockEligible plainLib (job_Requirements job)"
proof -
  let ?auth = "Some \<lparr>auth_ClusterID = ''home'', auth_Epoch = 3\<rparr>"
  let ?job = "persistJob admittedJob"
  have el: "adapterSessionLockEligible plainLib (job_Requirements ?job)"
    by (simp add: adapterSessionLockEligible_def persistJob_def persistRequirements_def admittedJob_queued zeroRequirements_def trimSpace_def)
  obtain mid where acq: "acquireAdapterSessionLockTx plainLib ''alice'' (job_Requirements ?job) adapterSessionLockJob ''job-1'' 0 7 True st
      = Inr mid"
    using el locks by (auto simp: acquireAdapterSessionLockTx_def adapterSessionBusyTx_def prefixScan_def)
  have claim: "claimAssignmentTx plainLib 7 ''job-1'' ''node-a'' [] None None st = Inr (?job, mid)"
    using acq el get nodes
    by (simp add: claimAssignmentTx_def checkParentRunning_def admittedJob_fields admittedJob_queued nodeForAssignment_def
        bget_Nil getJSON_def zeroNode_def selectAdapter_def claimRoutingRecoveryProbeTx_def adapterSessionNeedsLockTx_def)
  have inv': "storeInv mid" and logs': "sameLogs st mid"
    using storeInv_frame [OF inv acquire_same [OF acq]] acquire_same(2) [OF acq] by blast+
  let ?a = "assignedJob ''node-a'' ?auth 7 ?job"
  have x: "storeInvX {''job-1''} (putJob ''job-1'' ?a mid)"
    by (rule storeInvX_putJob) (use heldJob_wf in \<open>simp_all add: inv' storeInv_X jobWF_def assignedJob_def Let_def heldJob_def
        admittedJob_def jobOfRequest_def witnessRequest_def wrap64_def zeroJob_def\<close>)
  from storeInvX_delete_total [OF this] obtain del where del: "deleteQueueEntry ''job-1'' (putJob ''job-1'' ?a mid) = Inr del" by blast
  have "sameLogs st del"
    using outsideQueue_fields(2) [OF deleteQueueEntry_outside [OF del]] putJob_logs logs' sameLogs_trans by blast
  then have l: "log_Sequence (scopeLog JobEventsRoot ''job-1'' del) < 1000" using scopeLog_sameLogs logs by simp
  obtain st' where ev: "appendAuthoritativeJobEventTx 7 ?a ''worker.assigned'' del = Inr st'"
    using event_total [of ?a "''worker.assigned''" del 7] l by (auto simp: authoritativeJobEvents_def admittedJob_fields)
  have "job_RoutingDecision ?a = None" "wrap64 (job_Attempt admittedJob + 1) = 1"
    by (simp_all add: assignedJob_def Let_def persistJob_def admittedJob_def jobOfRequest_def witnessRequest_def zeroJob_def wrap64_def)
  then have "commitAssignmentTx (Inl ErrNotExist) 7 ''job-1'' ''node-a'' None ?auth ?job mid = Inr (?a, st')"
    using del ev by (simp add: commitAssignmentTx_def Let_def bindDecision_def)
  with claim have "assignJobTx plainLib (Inl ErrNotExist) 7 ''job-1'' ''node-a'' [] None None ?auth st = Inr (?a, st')"
    by (simp add: assignJobTx_def)
  moreover have "job_Requirements ?a = job_Requirements ?job" by (simp add: assignedJob_def Let_def)
  ultimately show ?thesis using el by (auto simp: assignJobAuthorized_def update_def)
qed

theorem assignment_takes_queued_job_witness:
  "\<exists>st job st'. assignJobAuthorized plainLib (Inl ErrNotExist) 7 ''job-1'' ''node-a'' [] None None
      (Some \<lparr>auth_ClusterID = ''home'', auth_Epoch = 3\<rparr>) st = (Inr job, st')
    \<and> storeInv st' \<and> job_Status job = JobAssigned \<and> queuedEntry st' ''job-1'' = None"
proof -
  obtain st where st: "storeInv st" "getJSON (st_jobs st) ''job-1'' = Inr (persistJob admittedJob)" "st_nodes st = []"
    "st_sessionLocks st = []" "log_Sequence (scopeLog JobEventsRoot ''job-1'' st) < 1000" using queued_store by blast
  from witness_assigned [OF st] obtain job st' where run: "assignJobAuthorized plainLib (Inl ErrNotExist) 7 ''job-1'' ''node-a'' [] None None
      (Some \<lparr>auth_ClusterID = ''home'', auth_Epoch = 3\<rparr>) st = (Inr job, st')" by blast
  from assignment_takes_queued_job [OF st(1) run] run show ?thesis by blast
qed

theorem assignment_locks_session_witness:
  "\<exists>st job st'. assignJobAuthorized plainLib (Inl ErrNotExist) 7 ''job-1'' ''node-a'' [] None None
      (Some \<lparr>auth_ClusterID = ''home'', auth_Epoch = 3\<rparr>) st = (Inr job, st')
    \<and> sessionExclusive 8 (st_sessionLocks st')"
proof -
  obtain st where st: "storeInv st" "getJSON (st_jobs st) ''job-1'' = Inr (persistJob admittedJob)" "st_nodes st = []"
    "st_sessionLocks st = []" "log_Sequence (scopeLog JobEventsRoot ''job-1'' st) < 1000" using queued_store by blast
  from witness_assigned [OF st] obtain job st' where run: "assignJobAuthorized plainLib (Inl ErrNotExist) 7 ''job-1'' ''node-a'' [] None None
      (Some \<lparr>auth_ClusterID = ''home'', auth_Epoch = 3\<rparr>) st = (Inr job, st')"
    and el: "adapterSessionLockEligible plainLib (job_Requirements job)" by blast
  have "locksWF (st_sessionLocks st)" "sessionExclusive 7 (st_sessionLocks st)"
    by (simp_all add: st(4) locksWF_def sessionExclusive_def bget_Nil)
  from assignment_locks_session [OF this run el] run show ?thesis by force
qed

theorem stale_worker_reports_refused_witness:
  "\<exists>e. completeJobWithFailure plainLib 9 ''job-1'' ''node-b'' 1 None ''{}'' None zeroUsage [] [] [] heldStore = (Inl e, heldStore)"
  using stale_worker_reports_refused [OF heldStore_get, of "''node-b''" 1 None] by (simp add: heldJob_def)

text \<open>The holder reports an outcome; \<open>err\<close> is empty or blank.\<close>

lemma witness_completed:
  assumes "trimSpace err = []"
  shows "\<exists>job st'. completeJobWithFailure plainLib 9 ''job-1'' ''node-a'' 1 None ''{}'' None zeroUsage err [] [] heldStore = (Inr job, st')"
proof -
  let ?j = "persistJob heldJob"
  let ?f = "finishedJob plainLib 9 ?j ''{}'' None zeroUsage err (normalizedWorkerFailureCode plainLib [] err) []"
  let ?t = "if job_Status ?f = JobFailed then ''job.failed'' else ''job.completed''"
  have held: "heldJobTx plainLib ''job-1'' ''node-a'' 1 None heldStore = Inr ?j"
    using heldStore_get by (auto simp: heldJob_spec result_simps heldJob_fields validateAssignmentFence_def)
  have same: "sameLogs emptyStore (settleJob plainLib ''job-1'' ?f heldStore)"
    using settleJob_same(2) putJob_logs sameLogs_trans unfolding heldStore_def by meson
  have l: "log_Sequence (scopeLog JobEventsRoot ''job-1'' (settleJob plainLib ''job-1'' ?f heldStore)) = 0"
    using scopeLog_sameLogs [OF same] emptyStore_log by (simp add: emptyLog_def)
  have f: "job_ID ?f = ''job-1''" "job_ParentID ?f = []"
    using finished_fields by (simp_all add: heldJob_fields)
  have t: "?t \<in> set authoritativeJobEvents" by (cases "job_Status ?f = JobFailed") (simp_all add: authoritativeJobEvents_def)
  obtain st' where "appendAuthoritativeJobEventTx 9 ?f ?t (settleJob plainLib ''job-1'' ?f heldStore) = Inr st'"
    using event_total [of ?f ?t "settleJob plainLib ''job-1'' ?f heldStore" 9] l f t by auto
  then have "finishJobTx plainLib 9 ''job-1'' ?f heldStore = Inr (?f, st')"
    using f(2) by (simp add: finishJobTx_def appendPipelineStepEventTx_def)
  moreover have "job_SealedPayload ?j = None" by (simp add: heldJob_def admittedJob_fields)
  ultimately have "completeJobTx plainLib 9 ''job-1'' ''node-a'' 1 None ''{}'' None zeroUsage err [] [] heldStore = Inr (?f, st')"
    using held assms by (simp add: completeJobTx_def reportedFailure_def preExecutionRetryAllowed_def)
  then show ?thesis by (auto simp: completeJobWithFailure_def update_def)
qed

theorem completion_settles_or_never_ran_witness:
  "\<exists>job st'. completeJobWithFailure plainLib 9 ''job-1'' ''node-a'' 1 None ''{}'' None zeroUsage [] [] [] heldStore = (Inr job, st')
    \<and> storeInv st' \<and> job_Status job \<in> {JobCompleted, JobFailed}"
proof -
  obtain job st' where run: "completeJobWithFailure plainLib 9 ''job-1'' ''node-a'' 1 None ''{}'' None zeroUsage [] [] [] heldStore
      = (Inr job, st')" using witness_completed [of "[]"] by (auto simp: trimSpace_def)
  from completion_settles_or_never_ran [OF heldStore_inv run] run show ?thesis by auto
qed

theorem blank_error_fails_with_result_witness:
  "\<exists>job st'. completeJobWithFailure plainLib 9 ''job-1'' ''node-a'' 1 None ''{}'' None zeroUsage '' '' [] [] heldStore = (Inr job, st')
    \<and> job_Status job = JobFailed \<and> job_Result job = ''{}''"
proof -
  have blank: "trimSpace '' '' = []" by code_simp
  obtain job st' where run: "completeJobWithFailure plainLib 9 ''job-1'' ''node-a'' 1 None ''{}'' None zeroUsage '' '' [] [] heldStore
      = (Inr job, st')" using witness_completed [OF blank] by blast
  have "validUTF8 ''{}''" by code_simp
  then have "validateWorkerResult plainLib (persistJob heldJob) ''{}'' None [] = None"
    by (simp add: validateWorkerResult_def heldJob_fields trimSpace_def MaximumJobResultBytes_def plainLib_def)
  from blank_error_fails_with_result [OF heldStore_get run _ blank this] run show ?thesis by auto
qed


end
