(* ===== verification/Job_Recovery.thy ===== *)
theory Job_Recovery
  imports Job_Lifecycle
begin

text \<open>
  Recovery of jobs whose worker is gone (\<open>internal/cluster/store.go\<close>, \<open>RequeueNode\<close>,
  \<open>RecoverRelayRestart\<close> and \<open>RecoverStaleJobs\<close>). Each walks the jobs bucket in one
  transaction, collects the jobs it closes, and writes them after the walk with their events and the
  routing outcome of the node. The locale \<open>recovery_walk\<close> states what such a walk relies on; it is
  interpreted on the three operations, so that the effect on jobs, queue and session locks is proved
  once.
\<close>

section \<open>Walking the jobs\<close>

text \<open>\<open>ForEach\<close> over the jobs, whose bucket the callback leaves alone; a value that does not decode
  is skipped. The collected changes are written afterwards.\<close>

fun scanJobs :: "(string \<Rightarrow> job \<Rightarrow> store \<Rightarrow> (job option \<times> store) result) \<Rightarrow> (string \<times> job cell) list \<Rightarrow> store \<Rightarrow>
    ((string \<times> job) list \<times> store) result" where
  "scanJobs f [] st = Inr ([], st)"
| "scanJobs f ((key, Garbled) # rest) st = scanJobs f rest st"
| "scanJobs f ((key, Val job) # rest) st =
     bindE (f key job st) (\<lambda>(change, st).
     bindE (scanJobs f rest st) (\<lambda>(changes, st).
     Inr (case change of None \<Rightarrow> changes | Some job \<Rightarrow> (key, job) # changes, st)))"

fun writeChanges :: "(string \<Rightarrow> job \<Rightarrow> store \<Rightarrow> store result) \<Rightarrow> (string \<times> job) list \<Rightarrow> store \<Rightarrow> store result" where
  "writeChanges f [] st = Inr st"
| "writeChanges f ((key, job) # rest) st = bindE (f key job st) (writeChanges f rest)"

definition recoverJobsTx where
  "recoverJobsTx visit commit st =
     bindE (scanJobs visit (st_jobs st) st) (\<lambda>(changes, st).
     bindE (writeChanges commit changes st) (\<lambda>st.
     Inr (map snd changes, st)))"

section \<open>A lost node and a restarted relay\<close>

text \<open>A cancelled job of the node: its recovery probe, if it still owns one, is settled as ambiguous and its
  session lock is given back.\<close>

definition releaseEndedJobTx :: "goLib \<Rightarrow> gotime \<Rightarrow> job \<Rightarrow> store \<Rightarrow> store result" where
  "releaseEndedJobTx L now job st =
     bindE (routingRecoveryProbeExistsTx st (job_AssignedNode job) (job_ID job)) (\<lambda>activeProbe.
     bindE (if activeProbe
            then bindE (recordNodeRoutingOutcomeTx L st (job_AssignedNode job) (job_Requirements job) [] (jobRoutingHealthRouteKey job)
                          (job_ID job) False FailureExecutionStateAmbiguous now) (\<lambda>st.
                 bindE (resolveRoutingRecoveryProbeTx st (job_AssignedNode job) (job_ID job) FailureExecutionStateAmbiguous now) (\<lambda>(_, st).
                 Inr st))
            else Inr st) (\<lambda>st.
     Inr (releaseAdapterSessionLockTx L (job_OwnerSubject job) (job_Requirements job) adapterSessionLockJob (job_ID job) st)))"

definition ambiguousReason :: "string \<Rightarrow> string" where
  "ambiguousReason reason = cleanLabel (reason @ ''; execution state is ambiguous; explicit resubmission required'') 500"

text \<open>An assigned or running job leaves the queue, should it be filed there, and gives its session back.\<close>

definition closeJobTx :: "goLib \<Rightarrow> job \<Rightarrow> store \<Rightarrow> (job option \<times> store) result" where
  "closeJobTx L job st =
     bindE (deleteQueueEntry (job_ID job) st) (\<lambda>st.
     Inr (Some job, releaseAdapterSessionLockTx L (job_OwnerSubject job) (job_Requirements job) adapterSessionLockJob (job_ID job) st))"

definition ambiguousJob :: "gotime \<Rightarrow> string \<Rightarrow> job \<Rightarrow> job" where
  "ambiguousJob now reason job =
     job\<lparr>job_Error := ambiguousReason reason, job_FailureCode := FailureExecutionStateAmbiguous, job_UpdatedAt := now,
         job_Status := JobFailed, job_FinishedAt := now\<rparr>"

definition requeueVisit :: "goLib \<Rightarrow> gotime \<Rightarrow> string \<Rightarrow> string \<Rightarrow> string \<Rightarrow> job \<Rightarrow> store \<Rightarrow> (job option \<times> store) result" where
  "requeueVisit L now nodeID reason key job st =
     (if job_AssignedNode job \<noteq> nodeID then Inr (None, st)
      else if job_Status job = JobCancelled \<or> job_Status job = JobFailed \<and> job_FailureCode job = FailureExecutionTimeoutAmbiguous
      then bindE (releaseEndedJobTx L now job st) (\<lambda>st. Inr (None, st))
      else if job_Status job \<noteq> JobAssigned \<and> job_Status job \<noteq> JobRunning then Inr (None, st)
      else closeJobTx L (ambiguousJob now reason job) st)"

definition writeAmbiguousTx :: "goLib \<Rightarrow> gotime \<Rightarrow> string \<Rightarrow> job \<Rightarrow> store \<Rightarrow> store result" where
  "writeAmbiguousTx L now key job st =
     bindE (appendAuthoritativeJobEventTx now job ''job.ambiguous'' (putJob key job st)) (\<lambda>st.
     bindE (appendPipelineStepEventTx now job ''pipeline.step.ambiguous'' st) (\<lambda>st.
     bindE (recordNodeRoutingOutcomeTx L st (job_AssignedNode job) (job_Requirements job) [] (jobRoutingHealthRouteKey job)
              (job_ID job) False (job_FailureCode job) (job_FinishedAt job)) (\<lambda>st.
     bindE (resolveRoutingRecoveryProbeTx st (job_AssignedNode job) (job_ID job) (job_FailureCode job) (job_FinishedAt job)) (\<lambda>(_, st).
     Inr st))))"

definition RequeueNode :: "goLib \<Rightarrow> gotime \<Rightarrow> string \<Rightarrow> string \<Rightarrow> store \<Rightarrow> job list result \<times> store" where
  "RequeueNode L now nodeID reason = update (recoverJobsTx (requeueVisit L now nodeID reason) (writeAmbiguousTx L now))"

definition offlineNode :: "node \<Rightarrow> node" where
  "offlineNode node = node\<lparr>node_Connected := False, node_State := ''offline'',
     node_Capabilities := (node_Capabilities node)\<lparr>cap_Running := 0\<rparr>\<rparr>"

definition allNodesOffline :: "store \<Rightarrow> store" where
  "allNodesOffline st = st\<lparr>st_nodes := map (\<lambda>(key, value). (key, case value of
     Garbled \<Rightarrow> Garbled | Val node \<Rightarrow> Val (persistNode (offlineNode node)))) (st_nodes st)\<rparr>"

definition restartVisit :: "goLib \<Rightarrow> gotime \<Rightarrow> string \<Rightarrow> string \<Rightarrow> job \<Rightarrow> store \<Rightarrow> (job option \<times> store) result" where
  "restartVisit L now reason key job st =
     (if job_Status job = JobCancelled then bindE (releaseEndedJobTx L now job st) (\<lambda>st. Inr (None, st))
      else if job_Status job \<noteq> JobAssigned \<and> job_Status job \<noteq> JobRunning then Inr (None, st)
      else closeJobTx L ((ambiguousJob now reason job)\<lparr>job_Progress := None\<rparr>) st)"

definition RecoverRelayRestart :: "goLib \<Rightarrow> gotime \<Rightarrow> string \<Rightarrow> store \<Rightarrow> job list result \<times> store" where
  "RecoverRelayRestart L now reason =
     update (\<lambda>st. recoverJobsTx (restartVisit L now reason) (writeAmbiguousTx L now) (allNodesOffline st))"

section \<open>Stale jobs\<close>

definition staleBound :: "gotime \<Rightarrow> duration \<Rightarrow> job \<Rightarrow> bool" where
  "staleBound now sealedWait job \<longleftrightarrow> job_Status job = JobQueued \<and> job_SealedPayload job \<noteq> None \<and> job_AssignedNode job \<noteq> []
     \<and> timeSub now (job_CreatedAt job) > sealedWait"

definition staleExecution :: "gotime \<Rightarrow> duration \<Rightarrow> job \<Rightarrow> bool" where
  "staleExecution now execution job \<longleftrightarrow> (job_Status job = JobAssigned \<or> job_Status job = JobRunning) \<and> job_AssignedAt job \<noteq> 0
     \<and> timeSub now (job_AssignedAt job) > execution"

definition timedOutJob :: "gotime \<Rightarrow> bool \<Rightarrow> job \<Rightarrow> job" where
  "timedOutJob now executing job =
     (let job = job\<lparr>job_UpdatedAt := now, job_Status := JobFailed, job_FinishedAt := now\<rparr> in
      if executing
      then job\<lparr>job_Error := ''worker execution timed out; execution state is ambiguous; explicit resubmission required'',
               job_FailureCode := FailureExecutionTimeoutAmbiguous\<rparr>
      else job\<lparr>job_Error := ''encrypted worker reservation expired; explicit resubmission required'',
               job_FailureCode := FailureEncryptedReservationExpired\<rparr>)"

definition staleVisit :: "goLib \<Rightarrow> gotime \<Rightarrow> duration \<Rightarrow> duration \<Rightarrow> string \<Rightarrow> job \<Rightarrow> store \<Rightarrow> (job option \<times> store) result" where
  "staleVisit L now sealedWait execution key job st =
     (let bound = staleBound now sealedWait job; executing = staleExecution now execution job in
      if \<not> bound \<and> \<not> executing then Inr (None, st)
      else let job = timedOutJob now executing job in
           bindE (deleteQueueEntry (job_ID job) st) (\<lambda>st.
           Inr (Some job,
                if bound then releaseAdapterSessionLockTx L (job_OwnerSubject job) (job_Requirements job) adapterSessionLockJob (job_ID job) st
                else st)))"

text \<open>The event type that a change carries is decided by the failure code that was just written.\<close>

definition writeStaleTx :: "goLib \<Rightarrow> gotime \<Rightarrow> string \<Rightarrow> job \<Rightarrow> store \<Rightarrow> store result" where
  "writeStaleTx L clock key job st =
     (let ambiguous = (job_FailureCode job = FailureExecutionTimeoutAmbiguous) in
      bindE (appendAuthoritativeJobEventTx clock job (if ambiguous then ''job.ambiguous'' else ''job.failed'') (putJob key job st)) (\<lambda>st.
      bindE (appendPipelineStepEventTx clock job (if ambiguous then ''pipeline.step.ambiguous'' else ''pipeline.step.failed'') st) (\<lambda>st.
      if ambiguous
      then recordNodeRoutingOutcomeTx L st (job_AssignedNode job) (job_Requirements job) (job_OwnerSubject job)
             (jobRoutingHealthRouteKey job) (job_ID job) False (job_FailureCode job) (job_FinishedAt job)
      else Inr st)))"

definition RecoverStaleJobs :: "goLib \<Rightarrow> gotime \<Rightarrow> gotime \<Rightarrow> duration \<Rightarrow> duration \<Rightarrow> store \<Rightarrow> job list result \<times> store" where
  "RecoverStaleJobs L clock now sealedWait execution =
     (let sealedWait = (if sealedWait \<le> 0 then 2 * minute else sealedWait);
          execution = (if execution \<le> 0 then 15 * minute else execution)
      in update (recoverJobsTx (staleVisit L now sealedWait execution) (writeStaleTx L clock)))"

section \<open>What a walk does\<close>

definition freed :: "string option \<Rightarrow> lockBucket \<Rightarrow> lockBucket" where
  "freed key locks = (case key of None \<Rightarrow> locks | Some key \<Rightarrow> bdelete key locks)"

lemma freed_None [simp]: "freed None locks = locks"
  by (simp add: freed_def)

lemma bget_freed: "bget (freed key locks) k = (if key = Some k then None else bget locks k)"
  by (auto simp: freed_def bucket_simps split: option.splits)

lemma set_map_filter: "set (List.map_filter f xs) = {y. \<exists>x \<in> set xs. f x = Some y}"
  by (force simp: List.map_filter_def)

locale recovery_walk =
  fixes visit :: "string \<Rightarrow> job \<Rightarrow> store \<Rightarrow> (job option \<times> store) result"
    and commit :: "string \<Rightarrow> job \<Rightarrow> store \<Rightarrow> store result"
    and fate :: "job \<Rightarrow> job option"
    and frees :: "job \<Rightarrow> string option"
  assumes visit_fate: "visit k j st = Inr (r, st') \<Longrightarrow> r = fate j"
    and visit_keeps: "visit k j st = Inr (r, st') \<Longrightarrow> fate j = None \<Longrightarrow> sameJobs st st' \<and> sameLogs st st'"
    and visit_closes: "visit k j st = Inr (r, st') \<Longrightarrow> fate j = Some j' \<Longrightarrow>
      \<exists>mid. deleteQueueEntry (job_ID j) st = Inr mid \<and> sameJobs mid st' \<and> sameLogs mid st'"
    and visit_locks: "visit k j st = Inr (r, st') \<Longrightarrow>
      st_sessionLocks st' = freed (frees j) (st_sessionLocks st)"
    and fate_fails: "fate j = Some j' \<Longrightarrow> jobWF k j \<Longrightarrow>
      jobWF k j' \<and> job_Status j' = JobFailed \<and> \<not> terminalJobStatus (job_Status j) \<and> job_Attempt j' = job_Attempt j
        \<and> job_MaxAttempts j' = job_MaxAttempts j"
    and write_put: "storeInvX S (putJob k j st) \<Longrightarrow> commit k j st = Inr st' \<Longrightarrow>
      storeInvX S st' \<and> sameJobs (putJob k j st) st' \<and> st_sessionLocks st' = st_sessionLocks st"
begin

text \<open>The state of the walk: the jobs in \<open>S\<close> are about to be written and no longer filed.\<close>

definition walking :: "string set \<Rightarrow> store \<Rightarrow> store \<Rightarrow> bool" where
  "walking S st0 st \<longleftrightarrow> storeInvX S st \<and> st_jobs st = st_jobs st0 \<and> (\<forall>k \<in> S. queuedEntry st k = None)"

definition change :: "string \<times> job cell \<Rightarrow> (string \<times> job) option" where
  "change e = (case snd e of Garbled \<Rightarrow> None | Val j \<Rightarrow> map_option (Pair (fst e)) (fate j))"

lemma visit_walking:
  assumes w: "walking S st0 st" and j: "bget (st_jobs st0) k = Some (Val j)" and run: "visit k j st = Inr (r, st')"
  shows "walking (if fate j = None then S else insert k S) st0 st'"
proof (cases "fate j")
  case None
  from visit_keeps [OF run None] have same: "sameJobs st st'" "sameLogs st st'" by auto
  then show ?thesis
    using w None storeInvX_frame [OF _ same, of S] by (simp add: walking_def sameJobs_jobs sameJobs_queued)
next
  case (Some j')
  from visit_closes [OF run Some] obtain mid where del: "deleteQueueEntry (job_ID j) st = Inr mid"
    and same: "sameJobs mid st'" "sameLogs mid st'" by blast
  have wf: "jobWF k j" using w j by (force simp: walking_def storeInvX_def storedJobsWF_def)
  then have "job_ID j = k" by (simp add: jobWF_def)
  with del have del: "deleteQueueEntry k st = Inr mid" by simp
  have x: "storeInvX (insert k S) st" by (rule storeInvX_mono [of S]) (use w in \<open>auto simp: walking_def\<close>)
  from storeInvX_delete [OF x del] have m: "storeInvX (insert k S) mid" "queuedEntry mid k = None" "st_jobs mid = st_jobs st" by auto
  have "queuedEntry mid = (queuedEntry st)(k := None)"
    using jq.del_inv [of st k mid] x del by (simp add: storeInvX_def)
  then have "\<forall>i \<in> insert k S. queuedEntry mid i = None" using w by (auto simp: walking_def)
  moreover have "storeInvX (insert k S) st'" using storeInvX_frame [OF m(1) same] .
  ultimately show ?thesis using w Some m(3) same(1) by (simp add: walking_def sameJobs_jobs sameJobs_queued)
qed

lemma scan_walking:
  assumes "scanJobs visit entries st = Inr (changes, st')" and "walking S st0 st"
    and "\<forall>(k, c) \<in> set entries. bget (st_jobs st0) k = Some c"
  shows "changes = List.map_filter change entries \<and> walking (S \<union> fst ` set changes) st0 st'"
  using assms
proof (induction entries arbitrary: S st changes)
  case Nil
  then show ?case by (simp add: map_filter_simps)
next
  case (Cons e rest)
  obtain key c where e: "e = (key, c)" by force
  show ?case
  proof (cases c)
    case Garbled
    with Cons e show ?thesis by (auto simp: map_filter_simps change_def)
  next
    case (Val job)
    with Cons.prems(1) e obtain r mid changes' where run: "visit key job st = Inr (r, mid)"
      and rest: "scanJobs visit rest mid = Inr (changes', st')"
      and ch: "changes = (case r of None \<Rightarrow> changes' | Some job \<Rightarrow> (key, job) # changes')"
      by (auto simp: bindE_eq_Inr)
    have r: "r = fate job" using visit_fate [OF run] .
    let ?S = "if fate job = None then S else insert key S"
    have get: "bget (st_jobs st0) key = Some (Val job)" and others: "\<forall>(k, c) \<in> set rest. bget (st_jobs st0) k = Some c"
      using Cons.prems(3) e Val by auto
    have "walking ?S st0 mid" by (rule visit_walking [OF Cons.prems(2) get run])
    from Cons.IH [OF rest this others] have ih: "changes' = List.map_filter change rest" "walking (?S \<union> fst ` set changes') st0 st'"
      by auto
    have "change e = map_option (Pair key) (fate job)" by (simp add: e Val change_def)
    then show ?thesis using ih ch r by (cases "fate job") (simp_all add: map_filter_simps)
  qed
qed

text \<open>Writing the changes closes the agreement job by job.\<close>

lemma write_closes:
  assumes "writeChanges commit changes st = Inr st'" and "distinct (map fst changes)"
    and "storeInvX (S \<union> fst ` set changes) st" and "\<forall>(k, j) \<in> set changes. jobWF k j \<and> job_Status j = JobFailed"
    and "\<forall>k \<in> fst ` set changes. queuedEntry st k = None"
  shows "storeInvX S st' \<and> st_sessionLocks st' = st_sessionLocks st
    \<and> (\<forall>i. bget (st_jobs st') i = (case map_of changes i of Some j \<Rightarrow> Some (Val (persistJob j)) | None \<Rightarrow> bget (st_jobs st) i))"
  using assms
proof (induction changes arbitrary: st)
  case (Cons e rest)
  obtain key job where e: "e = (key, job)" by force
  from Cons.prems(1) e obtain mid where w: "commit key job st = Inr mid" and rest: "writeChanges commit rest mid = Inr st'"
    by (auto simp: bindE_eq_Inr)
  let ?T = "S \<union> fst ` set rest"
  have wf: "jobWF key job" "job_Status job = JobFailed" using Cons.prems(4) e by auto
  have x: "storeInvX (insert key ?T) (putJob key job st)"
    by (rule storeInvX_putJob) (use Cons.prems(3) wf e in auto)
  have "agrees (putJob key job st) key"
    by (rule agrees_unqueued [OF putJob_here]) (use wf Cons.prems(5) e in \<open>simp_all add: putJob_queued status_defs\<close>)
  with x have "storeInvX ?T (putJob key job st)" by (rule storeInvX_close)
  from write_put [OF this w] have m: "storeInvX ?T mid" "sameJobs (putJob key job st) mid" "st_sessionLocks mid = st_sessionLocks st"
    by auto
  have q: "queuedEntry mid = queuedEntry st" using sameJobs_queued [OF m(2)] by (simp add: putJob_queued)
  have new: "key \<notin> fst ` set rest" using Cons.prems(2) e by simp
  have "storeInvX S st' \<and> st_sessionLocks st' = st_sessionLocks mid
    \<and> (\<forall>i. bget (st_jobs st') i = (case map_of rest i of Some j \<Rightarrow> Some (Val (persistJob j)) | None \<Rightarrow> bget (st_jobs mid) i))"
    by (rule Cons.IH [OF rest _ m(1)]) (use Cons.prems e q in auto)
  moreover have "bget (st_jobs mid) i = (if i = key then Some (Val (persistJob job)) else bget (st_jobs st) i)" for i
    using sameJobs_jobs [OF m(2)] putJob_here putJob_other by auto
  moreover have "map_of rest key = None" using new by (simp add: map_of_eq_None_iff)
  ultimately show ?case using e m(3) by (auto split: option.splits)
qed simp

lemma scan_locks:
  assumes "scanJobs visit entries st = Inr (changes, st')"
  shows "bget (st_sessionLocks st') key =
    (if \<exists>k j. (k, Val j) \<in> set entries \<and> frees j = Some key then None else bget (st_sessionLocks st) key)"
  using assms
proof (induction entries arbitrary: st changes)
  case (Cons e rest)
  obtain k c where e: "e = (k, c)" by force
  show ?case
  proof (cases c)
    case (Val job)
    with Cons.prems e obtain r mid changes' where run: "visit k job st = Inr (r, mid)"
      and rest: "scanJobs visit rest mid = Inr (changes', st')" by (auto simp: bindE_eq_Inr)
    have "bget (st_sessionLocks mid) key = (if frees job = Some key then None else bget (st_sessionLocks st) key)"
      using visit_locks [OF run] by (simp add: bget_freed)
    with Cons.IH [OF rest] e Val show ?thesis by auto
  qed (use Cons e in auto)
qed simp

text \<open>The whole recovery: every job meets its fate, nothing else changes, and the sessions it frees are free.\<close>

lemma recover_spec:
  assumes inv: "storeInv st" and run: "recoverJobsTx visit commit st = Inr (updated, st')"
  shows "storeInv st'"
    and "bget (st_jobs st') i = (case bget (st_jobs st) i of
        Some (Val j) \<Rightarrow> Some (Val (case fate j of None \<Rightarrow> j | Some j' \<Rightarrow> persistJob j')) | c \<Rightarrow> c)"
    and "updated = map snd (List.map_filter change (st_jobs st))"
    and "bget (st_sessionLocks st') key =
      (if \<exists>i j. bget (st_jobs st) i = Some (Val j) \<and> frees j = Some key then None else bget (st_sessionLocks st) key)"
    and "set updated = {j'. \<exists>i j. bget (st_jobs st) i = Some (Val j) \<and> fate j = Some j'}"
proof -
  from run obtain changes mid where scan: "scanJobs visit (st_jobs st) st = Inr (changes, mid)"
    and wr: "writeChanges commit changes mid = Inr st'" and upd: "updated = map snd changes"
    by (auto simp: recoverJobsTx_def bindE_eq_Inr)
  have ord: "bordered (st_jobs st)" using inv by (simp add: storeInv_def storedJobsWF_def)
  have ents: "(k, c) \<in> set (st_jobs st) \<longleftrightarrow> bget (st_jobs st) k = Some c" for k c using bolt.entries_get [OF ord] .
  have start: "walking {} st st" using inv by (simp add: walking_def storeInv_X)
  from scan_walking [OF scan start] ents have ch: "changes = List.map_filter change (st_jobs st)"
    and walk: "walking (fst ` set changes) st mid" by auto
  have keys: "map fst changes = map fst (filter (\<lambda>e. change e \<noteq> None) (st_jobs st))"
    unfolding ch List.map_filter_def by (auto simp: change_def split: cell.splits)
  have dist: "distinct (map fst changes)"
    unfolding keys using bolt.entries_distinct [OF ord] by (rule distinct_map_filter)
  have mem: "(k, j') \<in> set changes \<longleftrightarrow> (\<exists>j. bget (st_jobs st) k = Some (Val j) \<and> fate j = Some j')" for k j'
  proof -
    have "change e = Some (k, j') \<longleftrightarrow> (\<exists>j. e = (k, Val j) \<and> fate j = Some j')" for e
      by (cases e; cases "snd e") (auto simp: change_def)
    then show ?thesis by (auto simp: ch set_map_filter ents)
  qed
  have wf: "\<forall>(k, j) \<in> set changes. jobWF k j \<and> job_Status j = JobFailed"
    using mem fate_fails storeInv_job [OF inv] by blast
  from write_closes [OF wr dist _ wf, of "{}"] walk
  have fin: "storeInvX {} st'" "st_sessionLocks st' = st_sessionLocks mid"
    "bget (st_jobs st') i = (case map_of changes i of Some j \<Rightarrow> Some (Val (persistJob j)) | None \<Rightarrow> bget (st_jobs mid) i)" for i
    by (auto simp: walking_def)
  show "storeInv st'" using fin(1) by (simp add: storeInv_iff)
  have "map_of changes i = (case bget (st_jobs st) i of Some (Val j) \<Rightarrow> fate j | _ \<Rightarrow> None)"
  proof (cases "map_of changes i")
    case None
    then have "\<And>j'. (i, j') \<notin> set changes" by (force simp: map_of_eq_None_iff)
    then have "bget (st_jobs st) i = Some (Val j) \<Longrightarrow> fate j = None" for j using mem by (cases "fate j") auto
    then show ?thesis using None by (auto split: option.splits cell.splits)
  next
    case (Some j')
    then have "(i, j') \<in> set changes" by (rule map_of_SomeD)
    then show ?thesis using Some mem by auto
  qed
  moreover have "st_jobs mid = st_jobs st" using walk by (simp add: walking_def)
  ultimately show "bget (st_jobs st') i = (case bget (st_jobs st) i of
        Some (Val j) \<Rightarrow> Some (Val (case fate j of None \<Rightarrow> j | Some j' \<Rightarrow> persistJob j')) | c \<Rightarrow> c)"
    using fin(3) [of i] by (auto split: option.splits cell.splits)
  show "updated = map snd (List.map_filter change (st_jobs st))" by (simp add: upd ch)
  have "j' \<in> set updated \<longleftrightarrow> (\<exists>k. (k, j') \<in> set changes)" for j' by (force simp: upd)
  then show "set updated = {j'. \<exists>i j. bget (st_jobs st) i = Some (Val j) \<and> fate j = Some j'}" using mem by blast
  show "bget (st_sessionLocks st') key =
      (if \<exists>i j. bget (st_jobs st) i = Some (Val j) \<and> frees j = Some key then None else bget (st_sessionLocks st) key)"
    using scan_locks [OF scan, of key] fin(2) by (simp add: ents)
qed

lemma recover_steps:
  assumes inv: "storeInv st" and run: "recoverJobsTx visit commit st = Inr (updated, st')"
  shows "jobsStep st st'"
  unfolding jobsStep_def
proof
  fix i
  show "jobView st' i = jobView st i \<or> jobStep (jobView st i) (jobView st' i)"
  proof (cases "\<exists>j j'. bget (st_jobs st) i = Some (Val j) \<and> fate j = Some j'")
    case True
    then obtain j j' where j: "bget (st_jobs st) i = Some (Val j)" "fate j = Some j'" by blast
    have wf: "jobWF i j" using storeInv_job [OF inv j(1)] by simp
    note f = fate_fails [OF j(2) wf]
    have "job_Status j \<in> {JobQueued, JobAssigned, JobRunning}" using live_status [OF wf] f by simp
    then have "jobStep (Some (jobState j)) (Some (jobState j'))" using f by (auto simp: jobState_def intro!: jobStep.fail)
    then show ?thesis using recover_spec(2) [OF assms, of i] j by (simp add: jobView_def)
  next
    case False
    then have "bget (st_jobs st') i = bget (st_jobs st) i"
      using recover_spec(2) [OF assms, of i] by (auto split: option.splits cell.splits)
    then show ?thesis by (simp add: jobView_def)
  qed
qed

end

section \<open>The three walks\<close>

text \<open>The lock that a job may hold.\<close>

definition lockOf :: "goLib \<Rightarrow> job \<Rightarrow> string option" where
  "lockOf L j = (if adapterSessionLockEligible L (job_Requirements j)
     then Some (adapterSessionLockKey L (job_OwnerSubject j) (job_Requirements j) adapterSessionLockJob (job_ID j)) else None)"

definition executing :: "job \<Rightarrow> bool" where
  "executing j \<longleftrightarrow> job_Status j = JobAssigned \<or> job_Status j = JobRunning"

definition requeueFate :: "gotime \<Rightarrow> string \<Rightarrow> string \<Rightarrow> job \<Rightarrow> job option" where
  "requeueFate now nodeID reason j = (if job_AssignedNode j = nodeID \<and> executing j then Some (ambiguousJob now reason j) else None)"

definition requeueFrees :: "goLib \<Rightarrow> string \<Rightarrow> job \<Rightarrow> string option" where
  "requeueFrees L nodeID j = (if job_AssignedNode j = nodeID \<and> (executing j \<or> job_Status j = JobCancelled
     \<or> job_Status j = JobFailed \<and> job_FailureCode j = FailureExecutionTimeoutAmbiguous) then lockOf L j else None)"

definition restartFate :: "gotime \<Rightarrow> string \<Rightarrow> job \<Rightarrow> job option" where
  "restartFate now reason j = (if executing j then Some ((ambiguousJob now reason j)\<lparr>job_Progress := None\<rparr>) else None)"

definition restartFrees :: "goLib \<Rightarrow> job \<Rightarrow> string option" where
  "restartFrees L j = (if executing j \<or> job_Status j = JobCancelled then lockOf L j else None)"

definition staleFate :: "gotime \<Rightarrow> duration \<Rightarrow> duration \<Rightarrow> job \<Rightarrow> job option" where
  "staleFate now sealedWait execution j =
     (if staleBound now sealedWait j \<or> staleExecution now execution j
      then Some (timedOutJob now (staleExecution now execution j) j) else None)"

definition staleFrees :: "goLib \<Rightarrow> gotime \<Rightarrow> duration \<Rightarrow> job \<Rightarrow> string option" where
  "staleFrees L now sealedWait j = (if staleBound now sealedWait j then lockOf L j else None)"

lemma release_locks:
  "st_sessionLocks (releaseAdapterSessionLockTx L (job_OwnerSubject j) (job_Requirements j) adapterSessionLockJob (job_ID j) st) =
     freed (lockOf L j) (st_sessionLocks st)"
  by (simp add: releaseAdapterSessionLockTx_def lockOf_def freed_def)

lemma ambiguous_fields [simp]:
  "job_ID (ambiguousJob now reason j) = job_ID j" "job_Status (ambiguousJob now reason j) = JobFailed"
  "job_Attempt (ambiguousJob now reason j) = job_Attempt j" "job_MaxAttempts (ambiguousJob now reason j) = job_MaxAttempts j"
  "job_Priority (ambiguousJob now reason j) = job_Priority j" "job_OwnerSubject (ambiguousJob now reason j) = job_OwnerSubject j"
  "job_Requirements (ambiguousJob now reason j) = job_Requirements j"
  by (simp_all add: ambiguousJob_def)

lemma timedOut_fields [simp]:
  "job_ID (timedOutJob now x j) = job_ID j" "job_Status (timedOutJob now x j) = JobFailed"
  "job_Attempt (timedOutJob now x j) = job_Attempt j" "job_MaxAttempts (timedOutJob now x j) = job_MaxAttempts j"
  "job_Priority (timedOutJob now x j) = job_Priority j" "job_OwnerSubject (timedOutJob now x j) = job_OwnerSubject j"
  "job_Requirements (timedOutJob now x j) = job_Requirements j"
  by (simp_all add: timedOutJob_def Let_def)

lemma resolveProbe_locks:
  "resolveRoutingRecoveryProbeTx st nodeID jobID code now = Inr (b, st') \<Longrightarrow> st_sessionLocks st' = st_sessionLocks st"
  by (auto simp: resolveRoutingRecoveryProbeTx_def store_frame split: if_splits sum.splits)

lemma recordOutcome_locks:
  "recordNodeRoutingOutcomeTx L st nodeID r owner key jobID success code now = Inr st' \<Longrightarrow> st_sessionLocks st' = st_sessionLocks st"
  by (auto simp: recordNodeRoutingOutcomeTx_def store_frame Let_def split: if_splits sum.splits)

lemma releaseEnded_spec:
  assumes "releaseEndedJobTx L now j st = Inr st'"
  shows "sameJobs st st' \<and> sameLogs st st'
    \<and> st_sessionLocks st' = freed (lockOf L j) (st_sessionLocks st)"
proof -
  from assms obtain probe mid where
    mid: "(if probe
            then bindE (recordNodeRoutingOutcomeTx L st (job_AssignedNode j) (job_Requirements j) [] (jobRoutingHealthRouteKey j)
                          (job_ID j) False FailureExecutionStateAmbiguous now) (\<lambda>st.
                 bindE (resolveRoutingRecoveryProbeTx st (job_AssignedNode j) (job_ID j) FailureExecutionStateAmbiguous now) (\<lambda>(_, st).
                 Inr st))
            else Inr st) = Inr mid"
    and st': "st' = releaseAdapterSessionLockTx L (job_OwnerSubject j) (job_Requirements j) adapterSessionLockJob (job_ID j) mid"
    unfolding releaseEndedJobTx_def bindE_eq_Inr by auto
  have "sameJobs st mid \<and> sameLogs st mid \<and> st_sessionLocks mid = st_sessionLocks st"
  proof (cases probe)
    case True
    then obtain s b where "recordNodeRoutingOutcomeTx L st (job_AssignedNode j) (job_Requirements j) [] (jobRoutingHealthRouteKey j)
                          (job_ID j) False FailureExecutionStateAmbiguous now = Inr s"
      "resolveRoutingRecoveryProbeTx s (job_AssignedNode j) (job_ID j) FailureExecutionStateAmbiguous now = Inr (b, mid)"
      using mid by (auto simp: bindE_eq_Inr)
    from recordOutcome_same [OF this(1)] recordOutcome_locks [OF this(1)] resolveProbe_same [OF this(2)] resolveProbe_locks [OF this(2)]
    show ?thesis using sameJobs_trans sameLogs_trans by metis
  qed (use mid in simp)
  then show ?thesis unfolding st' release_locks using release_same sameJobs_trans sameLogs_trans by metis
qed

lemma closeJob_spec:
  assumes "closeJobTx L j st = Inr (r, st')"
  shows "r = Some j \<and> (\<exists>mid. deleteQueueEntry (job_ID j) st = Inr mid \<and> sameJobs mid st' \<and> sameLogs mid st')
    \<and> st_sessionLocks st' = freed (lockOf L j) (st_sessionLocks st)"
proof -
  from assms obtain mid where del: "deleteQueueEntry (job_ID j) st = Inr mid"
    and st': "r = Some j" "st' = releaseAdapterSessionLockTx L (job_OwnerSubject j) (job_Requirements j) adapterSessionLockJob (job_ID j) mid"
    by (auto simp: closeJobTx_def bindE_eq_Inr)
  then show ?thesis
    using outsideQueue_fields(4) [OF deleteQueueEntry_outside [OF del]] release_same release_locks by auto
qed

lemma step_locks:
  "appendPipelineStepEventTx now job t st = Inr st' \<Longrightarrow> st_sessionLocks st' = st_sessionLocks st"
  using append_outside outsideLogs_fields by metis

lemma putJob_locks: "st_sessionLocks (putJob k j st) = st_sessionLocks st"
  by (simp add: store_frame)

lemma writeAmbiguous_spec:
  assumes x: "storeInvX S (putJob k j st)" and run: "writeAmbiguousTx L now k j st = Inr st'"
  shows "storeInvX S st' \<and> sameJobs (putJob k j st) st' \<and> st_sessionLocks st' = st_sessionLocks st"
proof -
  from run obtain s1 s2 s3 b where e1: "appendAuthoritativeJobEventTx now j ''job.ambiguous'' (putJob k j st) = Inr s1"
    and e2: "appendPipelineStepEventTx now j ''pipeline.step.ambiguous'' s1 = Inr s2"
    and o: "recordNodeRoutingOutcomeTx L s2 (job_AssignedNode j) (job_Requirements j) [] (jobRoutingHealthRouteKey j)
              (job_ID j) False (job_FailureCode j) (job_FinishedAt j) = Inr s3"
    and p: "resolveRoutingRecoveryProbeTx s3 (job_AssignedNode j) (job_ID j) (job_FailureCode j) (job_FinishedAt j) = Inr (b, st')"
    unfolding writeAmbiguousTx_def bindE_eq_Inr by auto
  note i1 = storeInvX_event(1) [OF x e1]
  note i2 = storeInvX_event(2) [OF conjunct1 [OF i1] e2]
  note same = recordOutcome_same [OF o] resolveProbe_same [OF p]
  have "storeInvX S s3" by (rule storeInvX_frame [of S s2]) (use i2 same in auto)
  then have "storeInvX S st'" by (rule storeInvX_frame) (use same in auto)
  moreover have "sameJobs (putJob k j st) st'" using i1 i2 same sameJobs_trans by blast
  moreover have "st_sessionLocks st' = st_sessionLocks st"
    using resolveProbe_locks [OF p] recordOutcome_locks [OF o] step_locks [OF e2] event_locks [OF e1] by (simp add: putJob_locks)
  ultimately show ?thesis by blast
qed

lemma writeStale_spec:
  assumes x: "storeInvX S (putJob k j st)" and run: "writeStaleTx L clock k j st = Inr st'"
  shows "storeInvX S st' \<and> sameJobs (putJob k j st) st' \<and> st_sessionLocks st' = st_sessionLocks st"
proof -
  let ?amb = "job_FailureCode j = FailureExecutionTimeoutAmbiguous"
  from run obtain s1 s2 where
    e1: "appendAuthoritativeJobEventTx clock j (if ?amb then ''job.ambiguous'' else ''job.failed'') (putJob k j st) = Inr s1"
    and e2: "appendPipelineStepEventTx clock j (if ?amb then ''pipeline.step.ambiguous'' else ''pipeline.step.failed'') s1 = Inr s2"
    and last: "(if ?amb then recordNodeRoutingOutcomeTx L s2 (job_AssignedNode j) (job_Requirements j) (job_OwnerSubject j)
             (jobRoutingHealthRouteKey j) (job_ID j) False (job_FailureCode j) (job_FinishedAt j) else Inr s2) = Inr st'"
    unfolding writeStaleTx_def Let_def bindE_eq_Inr by auto
  note i1 = storeInvX_event(1) [OF x e1]
  note i2 = storeInvX_event(2) [OF conjunct1 [OF i1] e2]
  have same: "sameJobs s2 st' \<and> sameLogs s2 st' \<and> st_sessionLocks st' = st_sessionLocks s2"
    using last recordOutcome_same recordOutcome_locks by (cases ?amb) auto
  have "storeInvX S st'" by (rule storeInvX_frame [of S s2]) (use i2 same in auto)
  moreover have "sameJobs (putJob k j st) st'" using i1 i2 same sameJobs_trans by blast
  moreover have "st_sessionLocks st' = st_sessionLocks st"
    using same step_locks [OF e2] event_locks [OF e1] by (simp add: putJob_locks)
  ultimately show ?thesis by blast
qed

text \<open>The effect of a visit in one statement: what it collects, what it does to jobs and logs, and to the locks.\<close>

definition visits :: "(string \<Rightarrow> job \<Rightarrow> store \<Rightarrow> (job option \<times> store) result) \<Rightarrow> (job \<Rightarrow> job option) \<Rightarrow> (job \<Rightarrow> string option) \<Rightarrow> bool" where
  "visits visit fate frees \<longleftrightarrow> (\<forall>k j st r st'. visit k j st = Inr (r, st') \<longrightarrow> r = fate j
     \<and> (if fate j = None then sameJobs st st' \<and> sameLogs st st'
        else \<exists>mid. deleteQueueEntry (job_ID j) st = Inr mid \<and> sameJobs mid st' \<and> sameLogs mid st')
     \<and> st_sessionLocks st' = freed (frees j) (st_sessionLocks st))"

lemma lockOf_ambiguous [simp]:
  "lockOf L (ambiguousJob now reason j) = lockOf L j" "lockOf L ((ambiguousJob now reason j)\<lparr>job_Progress := p\<rparr>) = lockOf L j"
  "lockOf L (timedOutJob now x j) = lockOf L j"
  by (simp_all add: lockOf_def)

lemma requeue_visits: "visits (requeueVisit L now nodeID reason) (requeueFate now nodeID reason) (requeueFrees L nodeID)"
  unfolding visits_def
proof (intro allI impI)
  fix k j st r st'
  assume run: "requeueVisit L now nodeID reason k j st = Inr (r, st')"
  consider (other) "job_AssignedNode j \<noteq> nodeID" | (ended) "job_AssignedNode j = nodeID"
      "job_Status j = JobCancelled \<or> job_Status j = JobFailed \<and> job_FailureCode j = FailureExecutionTimeoutAmbiguous"
    | (idle) "\<not> executing j" "\<not> (job_Status j = JobCancelled \<or> job_Status j = JobFailed \<and> job_FailureCode j = FailureExecutionTimeoutAmbiguous)"
    | (exec) "job_AssignedNode j = nodeID" "executing j" by blast
  then show "r = requeueFate now nodeID reason j
     \<and> (if requeueFate now nodeID reason j = None then sameJobs st st' \<and> sameLogs st st'
        else \<exists>mid. deleteQueueEntry (job_ID j) st = Inr mid \<and> sameJobs mid st' \<and> sameLogs mid st')
     \<and> st_sessionLocks st' = freed (requeueFrees L nodeID j) (st_sessionLocks st)"
  proof cases
    case ended
    then have "\<not> executing j" by (auto simp: executing_def status_defs)
    with ended run show ?thesis
      by (auto simp: requeueVisit_def requeueFate_def requeueFrees_def bindE_eq_Inr dest: releaseEnded_spec)
  next
    case exec
    then have "closeJobTx L (ambiguousJob now reason j) st = Inr (r, st')"
      using run by (auto simp: requeueVisit_def executing_def status_defs split: if_splits)
    from closeJob_spec [OF this] exec show ?thesis by (simp add: requeueFate_def requeueFrees_def)
  qed (use run in \<open>auto simp: requeueVisit_def requeueFate_def requeueFrees_def executing_def split: if_splits\<close>)
qed

lemma restart_visits: "visits (restartVisit L now reason) (restartFate now reason) (restartFrees L)"
  unfolding visits_def
proof (intro allI impI)
  fix k j st r st'
  assume run: "restartVisit L now reason k j st = Inr (r, st')"
  consider (ended) "job_Status j = JobCancelled" | (idle) "\<not> executing j" "job_Status j \<noteq> JobCancelled" | (exec) "executing j" by blast
  then show "r = restartFate now reason j
     \<and> (if restartFate now reason j = None then sameJobs st st' \<and> sameLogs st st'
        else \<exists>mid. deleteQueueEntry (job_ID j) st = Inr mid \<and> sameJobs mid st' \<and> sameLogs mid st')
     \<and> st_sessionLocks st' = freed (restartFrees L j) (st_sessionLocks st)"
  proof cases
    case ended
    then have "\<not> executing j" by (auto simp: executing_def status_defs)
    with ended run show ?thesis
      by (auto simp: restartVisit_def restartFate_def restartFrees_def bindE_eq_Inr dest: releaseEnded_spec)
  next
    case exec
    then have "closeJobTx L ((ambiguousJob now reason j)\<lparr>job_Progress := None\<rparr>) st = Inr (r, st')"
      using run by (auto simp: restartVisit_def executing_def status_defs split: if_splits)
    from closeJob_spec [OF this] exec show ?thesis by (simp add: restartFate_def restartFrees_def)
  qed (use run in \<open>auto simp: restartVisit_def restartFate_def restartFrees_def executing_def\<close>)
qed

lemma stale_visits: "visits (staleVisit L now sealedWait execution) (staleFate now sealedWait execution) (staleFrees L now sealedWait)"
  unfolding visits_def
proof (intro allI impI)
  fix k j st r st'
  assume run: "staleVisit L now sealedWait execution k j st = Inr (r, st')"
  show "r = staleFate now sealedWait execution j
     \<and> (if staleFate now sealedWait execution j = None then sameJobs st st' \<and> sameLogs st st'
        else \<exists>mid. deleteQueueEntry (job_ID j) st = Inr mid \<and> sameJobs mid st' \<and> sameLogs mid st')
     \<and> st_sessionLocks st' = freed (staleFrees L now sealedWait j) (st_sessionLocks st)"
  proof (cases "staleBound now sealedWait j \<or> staleExecution now execution j")
    case False
    with run show ?thesis by (simp add: staleVisit_def staleFate_def staleFrees_def)
  next
    case True
    let ?j = "timedOutJob now (staleExecution now execution j) j"
    from run True obtain mid where del: "deleteQueueEntry (job_ID j) st = Inr mid" and r: "r = Some ?j"
      and st': "st' = (if staleBound now sealedWait j then releaseAdapterSessionLockTx L (job_OwnerSubject ?j) (job_Requirements ?j)
          adapterSessionLockJob (job_ID ?j) mid else mid)"
      by (auto simp: staleVisit_def bindE_eq_Inr Let_def)
    have "sameJobs mid st' \<and> sameLogs mid st'" using release_same st' by simp
    moreover have "st_sessionLocks st' = freed (staleFrees L now sealedWait j) (st_sessionLocks st)"
      using outsideQueue_fields(4) [OF deleteQueueEntry_outside [OF del]] release_locks [of L ?j mid]
      by (cases "staleBound now sealedWait j") (simp_all add: st' staleFrees_def del: timedOut_fields)
    ultimately show ?thesis using True del r by (auto simp: staleFate_def)
  qed
qed

lemma visits_laws:
  assumes "visits visit fate frees" and "visit k j st = Inr (r, st')"
  shows "r = fate j" and "fate j = None \<Longrightarrow> sameJobs st st' \<and> sameLogs st st'"
    and "fate j = Some j' \<Longrightarrow> \<exists>mid. deleteQueueEntry (job_ID j) st = Inr mid \<and> sameJobs mid st' \<and> sameLogs mid st'"
    and "st_sessionLocks st' = freed (frees j) (st_sessionLocks st)"
  using assms unfolding visits_def by (metis option.distinct(1))+

lemma failed_wf:
  "jobWF k j \<Longrightarrow> job_ID j' = job_ID j \<Longrightarrow> job_Status j' = JobFailed \<Longrightarrow> job_Attempt j' = job_Attempt j \<Longrightarrow>
   job_MaxAttempts j' = job_MaxAttempts j \<Longrightarrow> job_Priority j' = job_Priority j \<Longrightarrow> jobWF k j'"
  by (simp add: jobWF_def jobStatuses_def status_defs)

lemma recovery_walkI:
  assumes "visits visit fate frees"
    and "\<And>k j j'. fate j = Some j' \<Longrightarrow> jobWF k j \<Longrightarrow> job_Status j \<in> {JobQueued, JobAssigned, JobRunning} \<and> job_ID j' = job_ID j
      \<and> job_Status j' = JobFailed \<and> job_Attempt j' = job_Attempt j \<and> job_MaxAttempts j' = job_MaxAttempts j
      \<and> job_Priority j' = job_Priority j"
    and "\<And>S k j st st'. storeInvX S (putJob k j st) \<Longrightarrow> commit k j st = Inr st' \<Longrightarrow>
      storeInvX S st' \<and> sameJobs (putJob k j st) st' \<and> st_sessionLocks st' = st_sessionLocks st"
  shows "recovery_walk visit commit fate frees"
proof
  fix j j' k assume "fate j = Some j'" and wf: "jobWF k j"
  note f = assms(2) [OF this]
  have "jobWF k j'" by (rule failed_wf [OF wf]) (use f in auto)
  moreover have "\<not> terminalJobStatus (job_Status j)" using f by (auto simp: terminal_iff status_defs)
  ultimately show "jobWF k j' \<and> job_Status j' = JobFailed \<and> \<not> terminalJobStatus (job_Status j) \<and> job_Attempt j' = job_Attempt j
        \<and> job_MaxAttempts j' = job_MaxAttempts j" using f by simp
qed (fact visits_laws(1) [OF assms(1)] visits_laws(2) [OF assms(1)] visits_laws(3) [OF assms(1)] visits_laws(4) [OF assms(1)] assms(3))+

interpretation requeue: recovery_walk "requeueVisit L now nodeID reason" "writeAmbiguousTx L now" "requeueFate now nodeID reason"
  "requeueFrees L nodeID" for L now nodeID reason
  by (rule recovery_walkI [OF requeue_visits _ writeAmbiguous_spec])
    (auto simp: requeueFate_def executing_def split: if_splits)

interpretation restart: recovery_walk "restartVisit L now reason" "writeAmbiguousTx L now" "restartFate now reason" "restartFrees L"
  for L now reason
  by (rule recovery_walkI [OF restart_visits _ writeAmbiguous_spec])
    (auto simp: restartFate_def executing_def split: if_splits)

interpretation stale: recovery_walk "staleVisit L now sealedWait execution" "writeStaleTx L clock" "staleFate now sealedWait execution"
  "staleFrees L now sealedWait" for L now clock sealedWait execution
  by (rule recovery_walkI [OF stale_visits _ writeStale_spec])
    (auto simp: staleFate_def staleBound_def staleExecution_def split: if_splits)

section \<open>What recovery guarantees\<close>

text \<open>Nothing is filed again: a recovery only takes entries away.\<close>

lemma queue_unchanged:
  assumes "storeInv st" and "storeInv st'"
    and "\<And>i. bget (st_jobs st') i = (case bget (st_jobs st) i of Some (Val j) \<Rightarrow> Some (Val (case f j of None \<Rightarrow> j | Some j' \<Rightarrow> persistJob j')) | c \<Rightarrow> c)"
    and "\<And>j j'. f j = Some j' \<Longrightarrow> job_Status j' = JobFailed"
  shows "queuedEntry st' i = (case bget (st_jobs st) i of Some (Val j) \<Rightarrow> (if f j = None then queuedEntry st i else None) | _ \<Rightarrow> None)"
  unfolding storeInv_queued [OF assms(1)] storeInv_queued [OF assms(2)] assms(3)
  using assms(4) by (auto simp: expectedEntry_def status_defs split: option.splits cell.splits)

text \<open>C35: a lost node never runs a job twice. Every job that the node held, assigned or running, ends as
  failed with an ambiguous execution state and asks for an explicit resubmission; no other job changes,
  the queue stays as it is (nothing is requeued), and the session locks of the jobs that the node held,
  had cancelled or had timed out are given back.\<close>

theorem lost_node_fails_its_jobs:
  assumes "storeInv st" and "RequeueNode L now nodeID reason st = (Inr updated, st')"
  shows "storeInv st'
    \<and> (\<forall>i j. getJSON (st_jobs st) i = Inr j \<longrightarrow> getJSON (st_jobs st') i =
        Inr (if job_AssignedNode j = nodeID \<and> executing j then persistJob (ambiguousJob now reason j) else j))
    \<and> (\<forall>i. bget (st_jobs st) i = None \<longrightarrow> bget (st_jobs st') i = None)
    \<and> (\<forall>i. queuedEntry st' i = queuedEntry st i)
    \<and> (\<forall>i j key. getJSON (st_jobs st) i = Inr j \<and> requeueFrees L nodeID j = Some key \<longrightarrow> bget (st_sessionLocks st') key = None)"
proof -
  have run: "recoverJobsTx (requeueVisit L now nodeID reason) (writeAmbiguousTx L now) st = Inr (updated, st')"
    using assms(2) by (simp add: RequeueNode_def update_Inr)
  note spec = requeue.recover_spec [OF assms(1) run]
  have fails: "requeueFate now nodeID reason j = Some j' \<Longrightarrow> job_Status j' = JobFailed" for j j'
    by (auto simp: requeueFate_def split: if_splits)
  have "queuedEntry st' i = (case bget (st_jobs st) i of
      Some (Val j) \<Rightarrow> (if requeueFate now nodeID reason j = None then queuedEntry st i else None) | _ \<Rightarrow> None)" for i
    by (rule queue_unchanged [OF assms(1) spec(1,2) fails])
  then have "queuedEntry st' i = queuedEntry st i" for i
    using storeInv_queued [OF assms(1), of i]
    by (auto simp: requeueFate_def executing_def expectedEntry_def status_defs split: option.splits cell.splits if_splits)
  then show ?thesis using spec by (auto simp: getJSON_eq_Inr requeueFate_def)
qed

text \<open>The nodes after a restart.\<close>

definition nodesOffline :: "store \<Rightarrow> bool" where
  "nodesOffline st \<longleftrightarrow> (\<forall>k n. bget (st_nodes st) k = Some (Val n) \<longrightarrow>
     \<not> node_Connected n \<and> node_State n = ''offline'' \<and> cap_Running (node_Capabilities n) = 0)"

lemma scan_keeps:
  assumes step: "\<And>k j st r st'. P st \<Longrightarrow> visit k j st = Inr (r, st') \<Longrightarrow> P st'"
  shows "P st \<Longrightarrow> scanJobs visit entries st = Inr (changes, st') \<Longrightarrow> P st'"
proof (induction entries arbitrary: st changes)
  case (Cons e rest)
  obtain k c where e: "e = (k, c)" by force
  show ?case
  proof (cases c)
    case (Val j)
    with Cons.prems e obtain r mid changes' where "visit k j st = Inr (r, mid)" and rest: "scanJobs visit rest mid = Inr (changes', st')"
      by (auto simp: bindE_eq_Inr)
    from step [OF Cons.prems(1) this(1)] show ?thesis by (rule Cons.IH [OF _ rest])
  qed (use Cons e in auto)
qed simp

lemma write_keeps:
  assumes step: "\<And>k j st st'. P st \<Longrightarrow> commit k j st = Inr st' \<Longrightarrow> P st'"
  shows "P st \<Longrightarrow> writeChanges commit changes st = Inr st' \<Longrightarrow> P st'"
proof (induction changes arbitrary: st)
  case (Cons e rest)
  then obtain mid where "commit (fst e) (snd e) st = Inr mid" and rest: "writeChanges commit rest mid = Inr st'"
    by (cases e) (auto simp: bindE_eq_Inr)
  from step [OF Cons.prems(1) this(1)] show ?case by (rule Cons.IH [OF _ rest])
qed simp

lemma recover_keeps:
  assumes visit: "\<And>k j st r st'. P st \<Longrightarrow> visit k j st = Inr (r, st') \<Longrightarrow> P st'"
    and wr: "\<And>k j st st'. P st \<Longrightarrow> commit k j st = Inr st' \<Longrightarrow> P st'"
    and start: "P st" and run: "recoverJobsTx visit commit st = Inr (updated, st')"
  shows "P st'"
proof -
  from run obtain changes mid where scan: "scanJobs visit (st_jobs st) st = Inr (changes, mid)"
    and rest: "writeChanges commit changes mid = Inr st'" by (auto simp: recoverJobsTx_def bindE_eq_Inr)
  have "P mid" by (rule scan_keeps [where P = P and visit = visit, OF visit start scan])
  show ?thesis
  proof (rule write_keeps [where P = P and commit = commit])
    show "\<And>k j st st'. P st \<Longrightarrow> commit k j st = Inr st' \<Longrightarrow> P st'" by (rule wr)
  qed (fact \<open>P mid\<close> rest)+
qed

lemma nodesOffline_put:
  "nodesOffline st \<Longrightarrow> getJSON (st_nodes st) k = Inr n \<Longrightarrow> nodesOffline (putNode k' (n\<lparr>node_RoutingHealth := h\<rparr>) st)"
  by (auto simp: nodesOffline_def store_frame bucket_simps getJSON_eq_Inr persistNode_def split: if_splits)

lemma nodesOffline_same: "st_nodes st' = st_nodes st \<Longrightarrow> nodesOffline st \<Longrightarrow> nodesOffline st'"
  by (simp add: nodesOffline_def)

lemma recordOutcome_offline:
  "nodesOffline st \<Longrightarrow> recordNodeRoutingOutcomeTx L st nodeID r owner key jobID success code now = Inr st' \<Longrightarrow> nodesOffline st'"
  by (auto simp: recordNodeRoutingOutcomeTx_def recordRoutingOutcomeForOwnerRoute_def bookRoutingOutcome_def nodesOffline_put Let_def
      split: if_splits sum.splits)

lemma resolveProbe_offline:
  "nodesOffline st \<Longrightarrow> resolveRoutingRecoveryProbeTx st nodeID jobID code now = Inr (b, st') \<Longrightarrow> nodesOffline st'"
  by (auto simp: resolveRoutingRecoveryProbeTx_def nodesOffline_put Let_def split: if_splits sum.splits)

lemma requeue_rest_offline:
  "nodesOffline st \<Longrightarrow> restartVisit L now reason k j st = Inr (r, st') \<Longrightarrow> nodesOffline st'"
  "nodesOffline st \<Longrightarrow> writeAmbiguousTx L now k j st = Inr st' \<Longrightarrow> nodesOffline st'"
proof -
  assume off: "nodesOffline st"
  have rel: "st_nodes (releaseAdapterSessionLockTx L owner rq kind h s) = st_nodes s" for owner rq kind h s
    by (simp add: releaseAdapterSessionLockTx_def)
  show "restartVisit L now reason k j st = Inr (r, st') \<Longrightarrow> nodesOffline st'"
  proof -
    assume run: "restartVisit L now reason k j st = Inr (r, st')"
    show ?thesis
    proof (cases "job_Status j = JobCancelled")
      case True
      then have "releaseEndedJobTx L now j st = Inr st'" using run by (auto simp: restartVisit_def bindE_eq_Inr)
      then show ?thesis using off
        by (auto simp: releaseEndedJobTx_def bindE_eq_Inr intro!: nodesOffline_same [OF rel]
            dest: recordOutcome_offline resolveProbe_offline split: if_splits)
    next
      case False
      then show ?thesis using run off
        by (auto simp: restartVisit_def closeJobTx_def bindE_eq_Inr intro!: nodesOffline_same [OF rel]
            intro: nodesOffline_same [OF outsideQueue_fields(3) [OF deleteQueueEntry_outside]] split: if_splits)
    qed
  qed
  assume "writeAmbiguousTx L now k j st = Inr st'"
  then obtain s1 s2 s3 b where e1: "appendAuthoritativeJobEventTx now j ''job.ambiguous'' (putJob k j st) = Inr s1"
    and e2: "appendPipelineStepEventTx now j ''pipeline.step.ambiguous'' s1 = Inr s2"
    and o: "recordNodeRoutingOutcomeTx L s2 (job_AssignedNode j) (job_Requirements j) [] (jobRoutingHealthRouteKey j)
              (job_ID j) False (job_FailureCode j) (job_FinishedAt j) = Inr s3"
    and p: "resolveRoutingRecoveryProbeTx s3 (job_AssignedNode j) (job_ID j) (job_FailureCode j) (job_FinishedAt j) = Inr (b, st')"
    unfolding writeAmbiguousTx_def bindE_eq_Inr by auto
  have "st_nodes s1 = st_nodes st" using outsideLogs_fields [OF append_outside(2) [OF e1]] by (simp add: store_frame)
  moreover have "st_nodes s2 = st_nodes s1" using outsideLogs_fields [OF append_outside(3) [OF e2]] by simp
  ultimately have "nodesOffline s2" using off by (simp add: nodesOffline_def)
  with o p show "nodesOffline st'" using recordOutcome_offline resolveProbe_offline by blast
qed

lemma allNodesOffline_spec:
  "nodesOffline (allNodesOffline st)" "sameJobs st (allNodesOffline st)" "sameLogs st (allNodesOffline st)"
proof -
  have "bget (map (\<lambda>(key, value). (key, case value of Garbled \<Rightarrow> Garbled | Val node \<Rightarrow> Val (persistNode (offlineNode node)))) nodes) k
      = Some (Val n) \<Longrightarrow> \<exists>n'. n = persistNode (offlineNode n')" for nodes k n
    by (induction nodes) (auto simp: bget_def split: if_splits cell.splits)
  then show "nodesOffline (allNodesOffline st)"
    by (fastforce simp: nodesOffline_def allNodesOffline_def persistNode_def offlineNode_def)
qed (simp_all add: allNodesOffline_def sameJobs_def sameLogs_def)

text \<open>C10: a relay that restarts starts from a closed state. Every job that was assigned or running under the
  previous process ends as failed with an ambiguous execution state, so that none is left executing and
  none is queued again; queued and finished jobs stay as they are, every node is offline and idle, and
  the sessions of the closed and the cancelled jobs are free.\<close>

theorem restart_closes_every_execution:
  assumes "storeInv st" and "RecoverRelayRestart L now reason st = (Inr updated, st')"
  shows "storeInv st' \<and> nodesOffline st'
    \<and> (\<forall>i j. getJSON (st_jobs st) i = Inr j \<longrightarrow> getJSON (st_jobs st') i =
        Inr (if executing j then persistJob ((ambiguousJob now reason j)\<lparr>job_Progress := None\<rparr>) else j))
    \<and> (\<forall>i j. getJSON (st_jobs st') i = Inr j \<longrightarrow> \<not> executing j)
    \<and> (\<forall>i. queuedEntry st' i = queuedEntry st i)
    \<and> (\<forall>i j key. getJSON (st_jobs st) i = Inr j \<and> restartFrees L j = Some key \<longrightarrow> bget (st_sessionLocks st') key = None)"
proof -
  let ?st = "allNodesOffline st"
  have run: "recoverJobsTx (restartVisit L now reason) (writeAmbiguousTx L now) ?st = Inr (updated, st')"
    using assms(2) by (simp add: RecoverRelayRestart_def update_Inr)
  have inv: "storeInv ?st" by (rule storeInv_frame [OF assms(1) allNodesOffline_spec(2,3)])
  have jobs: "st_jobs ?st = st_jobs st" using allNodesOffline_spec(2) by (rule sameJobs_jobs)
  note spec = restart.recover_spec [OF inv run]
  have fails: "restartFate now reason j = Some j' \<Longrightarrow> job_Status j' = JobFailed" for j j'
    by (auto simp: restartFate_def split: if_splits)
  have "queuedEntry st' i = (case bget (st_jobs ?st) i of
      Some (Val j) \<Rightarrow> (if restartFate now reason j = None then queuedEntry ?st i else None) | _ \<Rightarrow> None)" for i
    by (rule queue_unchanged [OF inv spec(1,2) fails])
  then have "queuedEntry st' i = queuedEntry st i" for i
    using storeInv_queued [OF assms(1), of i] sameJobs_queued [OF allNodesOffline_spec(2), of st]
    by (auto simp: restartFate_def executing_def expectedEntry_def status_defs jobs split: option.splits cell.splits if_splits)
  moreover have "nodesOffline st'"
    by (rule recover_keeps [where P = nodesOffline, OF _ _ allNodesOffline_spec(1) run]) (fact requeue_rest_offline)+
  ultimately show ?thesis
    using spec unfolding getJSON_eq_Inr jobs
    by (auto simp: restartFate_def executing_def status_defs split: option.splits cell.splits if_splits)
qed


section \<open>Witnesses\<close>

lemma heldStore_jobs: "st_jobs heldStore = [(''job-1'', Val (persistJob heldJob))]" "st_nodes heldStore = []"
  by (simp_all add: heldStore_def store_frame emptyStore_def putJSON_def)

text \<open>Closing the only job of a store without nodes.\<close>

lemma witness_closed:
  assumes visit: "\<And>st. visit ''job-1'' (persistJob heldJob) st = closeJobTx plainLib job st"
    and job: "job_ID job = ''job-1''" "job_ParentID job = []" "job_AssignedNode job = ''node-a''"
    and start: "st_jobs st = st_jobs heldStore" "st_nodes st = []" "storeInv st" "sameLogs emptyStore st"
  shows "\<exists>u st'. recoverJobsTx visit (writeAmbiguousTx plainLib now) st = Inr (u, st')"
proof -
  obtain mid where del: "deleteQueueEntry ''job-1'' st = Inr mid" using storeInvX_delete_total [OF storeInv_X [OF start(3)]] by blast
  define mid' where "mid' = releaseAdapterSessionLockTx plainLib (job_OwnerSubject job) (job_Requirements job) adapterSessionLockJob ''job-1'' mid"
  note out = outsideQueue_fields(2,3) [OF deleteQueueEntry_outside [OF del]]
  have n: "st_nodes mid' = []" "sameLogs emptyStore mid'"
    using out(2) start(2) sameLogs_trans [OF sameLogs_trans [OF start(4) out(1)] release_same(2)]
    by (simp_all add: mid'_def releaseAdapterSessionLockTx_def)
  have scan: "scanJobs visit (st_jobs st) st = Inr ([(''job-1'', job)], mid')"
    using del by (simp add: start(1) heldStore_jobs visit closeJobTx_def job(1) mid'_def)
  have "log_Sequence (scopeLog JobEventsRoot ''job-1'' (putJob ''job-1'' job mid')) = 0"
    using scopeLog_sameLogs [OF sameLogs_trans [OF n(2) putJob_logs]] emptyStore_log by (simp add: emptyLog_def)
  then obtain ev where ev: "appendAuthoritativeJobEventTx now job ''job.ambiguous'' (putJob ''job-1'' job mid') = Inr ev"
    using event_total [of job "''job.ambiguous''" "putJob ''job-1'' job mid'" now] job(1) by (auto simp: authoritativeJobEvents_def)
  have "st_nodes ev = []" using outsideLogs_fields [OF append_outside(2) [OF ev]] n(1) by (simp add: store_frame)
  then have "writeAmbiguousTx plainLib now ''job-1'' job mid' = Inr ev"
    using ev job by (simp add: writeAmbiguousTx_def appendPipelineStepEventTx_def recordNodeRoutingOutcomeTx_def
        resolveRoutingRecoveryProbeTx_def getJSON_def bget_Nil)
  then show ?thesis using scan by (simp add: recoverJobsTx_def)
qed

lemma heldStore_logs: "sameLogs emptyStore heldStore"
  unfolding heldStore_def by (rule putJob_logs)

lemma witness_requeue: "\<exists>u st'. RequeueNode plainLib 9 ''node-a'' ''worker lost'' heldStore = (Inr u, st')"
proof -
  have "\<exists>u st'. recoverJobsTx (requeueVisit plainLib 9 ''node-a'' ''worker lost'') (writeAmbiguousTx plainLib 9) heldStore = Inr (u, st')"
    by (rule witness_closed [where job = "ambiguousJob 9 ''worker lost'' (persistJob heldJob)"])
      (simp_all add: requeueVisit_def heldJob_fields status_defs heldStore_jobs heldStore_inv heldStore_logs, simp_all add: ambiguousJob_def heldJob_fields)
  then show ?thesis by (auto simp: RequeueNode_def update_def)
qed

lemma witness_restart: "\<exists>u st'. RecoverRelayRestart plainLib 9 ''relay restarted'' heldStore = (Inr u, st')"
proof -
  have "allNodesOffline heldStore = heldStore" by (simp add: allNodesOffline_def heldStore_jobs)
  moreover have "\<exists>u st'. recoverJobsTx (restartVisit plainLib 9 ''relay restarted'') (writeAmbiguousTx plainLib 9) heldStore = Inr (u, st')"
    by (rule witness_closed [where job = "(ambiguousJob 9 ''relay restarted'' (persistJob heldJob))\<lparr>job_Progress := None\<rparr>"])
      (simp_all add: restartVisit_def heldJob_fields status_defs heldStore_jobs heldStore_inv heldStore_logs, simp_all add: ambiguousJob_def heldJob_fields)
  ultimately show ?thesis by (auto simp: RecoverRelayRestart_def update_def)
qed

theorem lost_node_fails_its_jobs_witness:
  "\<exists>u st'. RequeueNode plainLib 9 ''node-a'' ''worker lost'' heldStore = (Inr u, st')
    \<and> getJSON (st_jobs st') ''job-1'' = Inr (persistJob (ambiguousJob 9 ''worker lost'' (persistJob heldJob)))"
proof -
  obtain u st' where run: "RequeueNode plainLib 9 ''node-a'' ''worker lost'' heldStore = (Inr u, st')"
    using witness_requeue by blast
  from lost_node_fails_its_jobs [OF heldStore_inv run] heldStore_get run show ?thesis
    by (auto simp: heldJob_fields executing_def)
qed

theorem restart_closes_every_execution_witness:
  "\<exists>u st'. RecoverRelayRestart plainLib 9 ''relay restarted'' heldStore = (Inr u, st')
    \<and> (\<forall>i j. getJSON (st_jobs st') i = Inr j \<longrightarrow> \<not> executing j)"
proof -
  obtain u st' where run: "RecoverRelayRestart plainLib 9 ''relay restarted'' heldStore = (Inr u, st')"
    using witness_restart by blast
  from restart_closes_every_execution [OF heldStore_inv run] run show ?thesis by blast
qed


end
