(* ===== verification/Pipeline_Runs.thy ===== *)
theory Pipeline_Runs
  imports Pipeline_Graph Job_Recovery Scheduler
begin

text \<open>
  The durable state of pipeline runs (\<open>internal/cluster/pipeline_graph_state.go\<close>,
  \<open>pipeline_dag_ready_set.go\<close> and the run operations of \<open>store.go\<close>). A run of a graph keeps
  one checkpoint per step and an immutable binding of the graph; every write is validated. The JSON texts
  that the digests cover come from the argument \<open>jsonCodec\<close>. The steps of a run move from
  \<open>not_ready\<close> to \<open>ready\<close>, \<open>queued\<close> and a terminal state as their jobs end.
\<close>

section \<open>Node states\<close>

definition PipelineGraphContractV1 :: string where "PipelineGraphContractV1 = ''contextbridge.pipeline-graph.v1''"
definition PipelineNodeNotReady :: string where "PipelineNodeNotReady = ''not_ready''"
definition PipelineNodeReady :: string where "PipelineNodeReady = ''ready''"
definition PipelineNodeQueued :: string where "PipelineNodeQueued = ''queued''"
definition PipelineNodeRunning :: string where "PipelineNodeRunning = ''running''"
definition PipelineNodeCompleted :: string where "PipelineNodeCompleted = ''completed''"
definition PipelineNodeFailed :: string where "PipelineNodeFailed = ''failed''"
definition PipelineNodeCancelled :: string where "PipelineNodeCancelled = ''cancelled''"
definition PipelineNodeBlockedByDependency :: string where "PipelineNodeBlockedByDependency = ''blocked_by_dependency''"
definition PipelineNodeAmbiguous :: string where "PipelineNodeAmbiguous = ''ambiguous''"

lemmas node_states = PipelineNodeNotReady_def PipelineNodeReady_def PipelineNodeQueued_def PipelineNodeRunning_def
  PipelineNodeCompleted_def PipelineNodeFailed_def PipelineNodeCancelled_def PipelineNodeBlockedByDependency_def
  PipelineNodeAmbiguous_def

lemma node_states_distinct [simp]:
  "PipelineNodeNotReady \<noteq> PipelineNodeReady" "PipelineNodeNotReady \<noteq> PipelineNodeQueued" "PipelineNodeNotReady \<noteq> PipelineNodeRunning" "PipelineNodeNotReady \<noteq> PipelineNodeCompleted" "PipelineNodeNotReady \<noteq> PipelineNodeFailed" "PipelineNodeNotReady \<noteq> PipelineNodeCancelled" "PipelineNodeNotReady \<noteq> PipelineNodeBlockedByDependency" "PipelineNodeNotReady \<noteq> PipelineNodeAmbiguous"
  "PipelineNodeReady \<noteq> PipelineNodeNotReady" "PipelineNodeReady \<noteq> PipelineNodeQueued" "PipelineNodeReady \<noteq> PipelineNodeRunning" "PipelineNodeReady \<noteq> PipelineNodeCompleted" "PipelineNodeReady \<noteq> PipelineNodeFailed" "PipelineNodeReady \<noteq> PipelineNodeCancelled" "PipelineNodeReady \<noteq> PipelineNodeBlockedByDependency" "PipelineNodeReady \<noteq> PipelineNodeAmbiguous"
  "PipelineNodeQueued \<noteq> PipelineNodeNotReady" "PipelineNodeQueued \<noteq> PipelineNodeReady" "PipelineNodeQueued \<noteq> PipelineNodeRunning" "PipelineNodeQueued \<noteq> PipelineNodeCompleted" "PipelineNodeQueued \<noteq> PipelineNodeFailed" "PipelineNodeQueued \<noteq> PipelineNodeCancelled" "PipelineNodeQueued \<noteq> PipelineNodeBlockedByDependency" "PipelineNodeQueued \<noteq> PipelineNodeAmbiguous"
  "PipelineNodeRunning \<noteq> PipelineNodeNotReady" "PipelineNodeRunning \<noteq> PipelineNodeReady" "PipelineNodeRunning \<noteq> PipelineNodeQueued" "PipelineNodeRunning \<noteq> PipelineNodeCompleted" "PipelineNodeRunning \<noteq> PipelineNodeFailed" "PipelineNodeRunning \<noteq> PipelineNodeCancelled" "PipelineNodeRunning \<noteq> PipelineNodeBlockedByDependency" "PipelineNodeRunning \<noteq> PipelineNodeAmbiguous"
  "PipelineNodeCompleted \<noteq> PipelineNodeNotReady" "PipelineNodeCompleted \<noteq> PipelineNodeReady" "PipelineNodeCompleted \<noteq> PipelineNodeQueued" "PipelineNodeCompleted \<noteq> PipelineNodeRunning" "PipelineNodeCompleted \<noteq> PipelineNodeFailed" "PipelineNodeCompleted \<noteq> PipelineNodeCancelled" "PipelineNodeCompleted \<noteq> PipelineNodeBlockedByDependency" "PipelineNodeCompleted \<noteq> PipelineNodeAmbiguous"
  "PipelineNodeFailed \<noteq> PipelineNodeNotReady" "PipelineNodeFailed \<noteq> PipelineNodeReady" "PipelineNodeFailed \<noteq> PipelineNodeQueued" "PipelineNodeFailed \<noteq> PipelineNodeRunning" "PipelineNodeFailed \<noteq> PipelineNodeCompleted" "PipelineNodeFailed \<noteq> PipelineNodeCancelled" "PipelineNodeFailed \<noteq> PipelineNodeBlockedByDependency" "PipelineNodeFailed \<noteq> PipelineNodeAmbiguous"
  "PipelineNodeCancelled \<noteq> PipelineNodeNotReady" "PipelineNodeCancelled \<noteq> PipelineNodeReady" "PipelineNodeCancelled \<noteq> PipelineNodeQueued" "PipelineNodeCancelled \<noteq> PipelineNodeRunning" "PipelineNodeCancelled \<noteq> PipelineNodeCompleted" "PipelineNodeCancelled \<noteq> PipelineNodeFailed" "PipelineNodeCancelled \<noteq> PipelineNodeBlockedByDependency" "PipelineNodeCancelled \<noteq> PipelineNodeAmbiguous"
  "PipelineNodeBlockedByDependency \<noteq> PipelineNodeNotReady" "PipelineNodeBlockedByDependency \<noteq> PipelineNodeReady" "PipelineNodeBlockedByDependency \<noteq> PipelineNodeQueued" "PipelineNodeBlockedByDependency \<noteq> PipelineNodeRunning" "PipelineNodeBlockedByDependency \<noteq> PipelineNodeCompleted" "PipelineNodeBlockedByDependency \<noteq> PipelineNodeFailed" "PipelineNodeBlockedByDependency \<noteq> PipelineNodeCancelled" "PipelineNodeBlockedByDependency \<noteq> PipelineNodeAmbiguous"
  "PipelineNodeAmbiguous \<noteq> PipelineNodeNotReady" "PipelineNodeAmbiguous \<noteq> PipelineNodeReady" "PipelineNodeAmbiguous \<noteq> PipelineNodeQueued" "PipelineNodeAmbiguous \<noteq> PipelineNodeRunning" "PipelineNodeAmbiguous \<noteq> PipelineNodeCompleted" "PipelineNodeAmbiguous \<noteq> PipelineNodeFailed" "PipelineNodeAmbiguous \<noteq> PipelineNodeCancelled" "PipelineNodeAmbiguous \<noteq> PipelineNodeBlockedByDependency"
  by (simp_all add: node_states)

definition validPipelineNodeState :: "string \<Rightarrow> bool" where
  "validPipelineNodeState state \<longleftrightarrow> state \<in> {PipelineNodeNotReady, PipelineNodeReady, PipelineNodeQueued, PipelineNodeRunning,
     PipelineNodeCompleted, PipelineNodeFailed, PipelineNodeCancelled, PipelineNodeBlockedByDependency, PipelineNodeAmbiguous}"

definition pipelineNodeRequiresCompletedDependencies :: "string \<Rightarrow> bool" where
  "pipelineNodeRequiresCompletedDependencies state \<longleftrightarrow> state \<in> {PipelineNodeReady, PipelineNodeQueued, PipelineNodeRunning,
     PipelineNodeCompleted, PipelineNodeFailed, PipelineNodeAmbiguous}"

definition allowedPipelineNodeTransition :: "string \<Rightarrow> string \<Rightarrow> bool" where
  "allowedPipelineNodeTransition before after \<longleftrightarrow>
     (if before = after then True
      else if before = PipelineNodeNotReady then after \<in> {PipelineNodeReady, PipelineNodeBlockedByDependency, PipelineNodeCancelled}
      else if before = PipelineNodeReady
      then after \<in> {PipelineNodeQueued, PipelineNodeFailed, PipelineNodeCancelled, PipelineNodeBlockedByDependency}
      else if before = PipelineNodeQueued
      then after \<in> {PipelineNodeRunning, PipelineNodeCompleted, PipelineNodeFailed, PipelineNodeCancelled, PipelineNodeAmbiguous}
      else if before = PipelineNodeRunning
      then after \<in> {PipelineNodeCompleted, PipelineNodeFailed, PipelineNodeCancelled, PipelineNodeAmbiguous}
      else False)"

definition pipelineNodeBlocksDescendants :: "string \<Rightarrow> bool" where
  "pipelineNodeBlocksDescendants state \<longleftrightarrow> state \<in> {PipelineNodeFailed, PipelineNodeCancelled, PipelineNodeAmbiguous, PipelineNodeBlockedByDependency}"

definition dagNodeStateForTerminalJob :: "job \<Rightarrow> string result" where
  "dagNodeStateForTerminalJob job =
     (if job_Status job = JobCompleted then Inr PipelineNodeCompleted
      else if job_Status job = JobCancelled then Inr PipelineNodeCancelled
      else if job_Status job = JobFailed
      then (if job_FailureCode job = FailureExecutionStateAmbiguous \<or> job_FailureCode job = FailureExecutionTimeoutAmbiguous
            then Inr PipelineNodeAmbiguous else Inr PipelineNodeFailed)
      else Inl (ErrText ''DAG child job is not terminal''))"

section \<open>The binding of a graph\<close>

record jsonCodec =
  marshalPipeline :: "pipeline \<Rightarrow> string"
  marshalGraph :: "pipelineGraphBinding \<Rightarrow> (string \<times> string list) list \<Rightarrow> string"

text \<open>The digest covers every field of the binding but the digest itself, and the steps with their
  dependencies.\<close>

definition pipelineGraphBindingDigest :: "goLib \<Rightarrow> jsonCodec \<Rightarrow> pipelineGraphBinding \<Rightarrow> pipelineNodeCheckpoint list \<Rightarrow> string" where
  "pipelineGraphBindingDigest L J binding nodes =
     hexEncode (sha256 L (marshalGraph J (binding\<lparr>pgb_GraphSHA256 := []\<rparr>) (map (\<lambda>n. (pnc_Step n, pnc_DependsOn n)) nodes)))"

definition validSHA256 :: "string \<Rightarrow> bool" where
  "validSHA256 value \<longleftrightarrow> length value = 64 \<and> hexDecodes value"

definition trimDependencies :: "pipeline \<Rightarrow> pipeline" where
  "trimDependencies pl = pl\<lparr>pl_Mode := PipelineModeDAG,
     pl_Steps := map (\<lambda>s. s\<lparr>step_DependsOn := map trimSpace (step_DependsOn s)\<rparr>) (pl_Steps pl)\<rparr>"

definition initialNode :: "gotime \<Rightarrow> pipelineStep \<Rightarrow> pipelineNodeCheckpoint" where
  "initialNode createdAt step =
     \<lparr>pnc_Step = step_Name step, pnc_DependsOn = step_DependsOn step,
      pnc_State = (if step_DependsOn step = [] then PipelineNodeReady else PipelineNodeNotReady), pnc_JobID = [], pnc_UpdatedAt = createdAt\<rparr>"

definition NewDAGRunCheckpoint ::
  "goLib \<Rightarrow> jsonCodec \<Rightarrow> pipeline \<Rightarrow> gotime \<Rightarrow> (pipelineGraphBinding \<times> pipelineNodeCheckpoint list) result" where
  "NewDAGRunCheckpoint L J pl createdAt =
     bindE (PlanPipelineGraph L pl) (\<lambda>plan.
     bindE (failWhen (plan_Mode plan \<noteq> PipelineModeDAG) (ErrText ''pipeline is not a DAG'')) (\<lambda>_.
     bindE (failWhen (createdAt = 0) (ErrText ''DAG checkpoint requires a creation time'')) (\<lambda>_.
     (let normalized = trimDependencies pl;
          nodes = map (initialNode createdAt) (pl_Steps normalized);
          binding = \<lparr>pgb_ContractVersion = PipelineGraphContractV1, pgb_Mode = PipelineModeDAG,
            pgb_ConfigSHA256 = hexEncode (sha256 L (marshalPipeline J normalized)), pgb_GraphSHA256 = [],
            pgb_MaxParallel = pl_MaxParallel normalized, pgb_StepCount = int (length nodes), pgb_EdgeCount = plan_EdgeCount plan,
            pgb_Order = plan_Order plan\<rparr>
      in Inr (binding\<lparr>pgb_GraphSHA256 := pipelineGraphBindingDigest L J binding nodes\<rparr>, nodes)))))"

section \<open>Validation\<close>

definition checkNode :: "(string \<rightharpoonup> pipelineNodeCheckpoint) \<Rightarrow> (string \<rightharpoonup> string) \<Rightarrow> pipelineNodeCheckpoint \<Rightarrow> unit result" where
  "checkNode nodeByName jobIDs node =
     bindE (failWhen (trimSpace (pnc_Step node) = []) (ErrText ''pipeline graph contains an empty step name'')) (\<lambda>_.
     bindE (failWhen (nodeByName (pnc_Step node) \<noteq> None) (ErrText (''pipeline graph repeats step '' @ pnc_Step node))) (\<lambda>_.
     bindE (failWhen (\<not> validPipelineNodeState (pnc_State node) \<or> pnc_UpdatedAt node = 0)
       (ErrText (''pipeline graph step '' @ pnc_Step node @ '' has an invalid checkpoint''))) (\<lambda>_.
     bindE (failWhen (length (pnc_DependsOn node) > MaximumPipelineDependencyFan)
       (ErrText (''pipeline graph step '' @ pnc_Step node @ '' exceeds dependency fan-in''))) (\<lambda>_.
     bindE (failWhen (pnc_JobID node \<noteq> [] \<and> \<not> validJobID (pnc_JobID node))
       (ErrText (''pipeline graph step '' @ pnc_Step node @ '' has an invalid child job''))) (\<lambda>_.
     bindE (failWhen (pnc_JobID node \<noteq> [] \<and> jobIDs (pnc_JobID node) \<noteq> None)
       (ErrText (''pipeline graph steps share child job '' @ pnc_JobID node))) (\<lambda>_.
     bindE (failWhen ((pnc_State node = PipelineNodeNotReady \<or> pnc_State node = PipelineNodeReady
          \<or> pnc_State node = PipelineNodeBlockedByDependency) \<and> pnc_JobID node \<noteq> [])
       (ErrText (''pipeline graph step '' @ pnc_Step node @ '' has a job before admission''))) (\<lambda>_.
     failWhen ((pnc_State node = PipelineNodeQueued \<or> pnc_State node = PipelineNodeRunning \<or> pnc_State node = PipelineNodeCompleted)
         \<and> \<not> validJobID (pnc_JobID node))
       (ErrText (''pipeline graph step '' @ pnc_Step node @ '' requires a valid child job'')))))))))"

fun nodeLoop ::
  "pipelineNodeCheckpoint list \<Rightarrow> (string \<rightharpoonup> pipelineNodeCheckpoint) \<Rightarrow> (string \<rightharpoonup> string) \<Rightarrow> (string \<rightharpoonup> pipelineNodeCheckpoint) result" where
  "nodeLoop [] nodeByName jobIDs = Inr nodeByName"
| "nodeLoop (node # nodes) nodeByName jobIDs =
     bindE (checkNode nodeByName jobIDs node) (\<lambda>_.
     nodeLoop nodes (nodeByName(pnc_Step node \<mapsto> node))
       (if pnc_JobID node \<noteq> [] then jobIDs(pnc_JobID node \<mapsto> pnc_Step node) else jobIDs))"

record fanState =
  fan_edges :: int
  fan_outgoing :: "string \<Rightarrow> nat"

record waitState =
  wait_seen :: "string list"
  wait_allCompleted :: bool
  wait_blocking :: bool

fun waitLoop ::
  "(string \<rightharpoonup> pipelineNodeCheckpoint) \<Rightarrow> pipelineNodeCheckpoint \<Rightarrow> string list \<Rightarrow> waitState \<Rightarrow> fanState \<Rightarrow> (waitState \<times> fanState) result" where
  "waitLoop nodeByName node [] w f = Inr (w, f)"
| "waitLoop nodeByName node (dependency # rest) w f =
     bindE (failWhen (dependency = pnc_Step node) (ErrText (''pipeline graph step '' @ pnc_Step node @ '' depends on itself''))) (\<lambda>_.
     case nodeByName dependency of
       None \<Rightarrow> Inl (ErrText (''pipeline graph step '' @ pnc_Step node @ '' has unknown dependency '' @ dependency))
     | Some d \<Rightarrow>
         bindE (failWhen (dependency \<in> set (wait_seen w))
           (ErrText (''pipeline graph step '' @ pnc_Step node @ '' repeats dependency '' @ dependency))) (\<lambda>_.
         (let w = \<lparr>wait_seen = dependency # wait_seen w,
                   wait_allCompleted = (if pnc_State d \<noteq> PipelineNodeCompleted then False else wait_allCompleted w),
                   wait_blocking = (if pipelineNodeBlocksDescendants (pnc_State d) then True else wait_blocking w)\<rparr>;
              f = \<lparr>fan_edges = fan_edges f + 1, fan_outgoing = (fan_outgoing f)(dependency := fan_outgoing f dependency + 1)\<rparr>
          in bindE (failWhen (fan_outgoing f dependency > MaximumPipelineDependencyFan \<or> fan_edges f > MaximumPipelineDependencyEdges)
               (ErrText ''pipeline graph exceeds its dependency limits'')) (\<lambda>_.
             waitLoop nodeByName node rest w f))))"

fun stateLoop :: "(string \<rightharpoonup> pipelineNodeCheckpoint) \<Rightarrow> pipelineNodeCheckpoint list \<Rightarrow> fanState \<Rightarrow> fanState result" where
  "stateLoop nodeByName [] f = Inr f"
| "stateLoop nodeByName (node # nodes) f =
     bindE (waitLoop nodeByName node (pnc_DependsOn node) \<lparr>wait_seen = [], wait_allCompleted = True, wait_blocking = False\<rparr> f) (\<lambda>(w, f).
     bindE (failWhen (pipelineNodeRequiresCompletedDependencies (pnc_State node) \<and> \<not> wait_allCompleted w)
       (ErrText (''pipeline graph step '' @ pnc_Step node @ '' became '' @ pnc_State node @ '' before all dependencies completed''))) (\<lambda>_.
     bindE (failWhen (pnc_State node = PipelineNodeBlockedByDependency \<and> \<not> wait_blocking w)
       (ErrText (''pipeline graph step '' @ pnc_Step node @ '' is blocked without a terminal dependency''))) (\<lambda>_.
     stateLoop nodeByName nodes f)))"

fun orderLoop :: "(string \<rightharpoonup> pipelineNodeCheckpoint) \<Rightarrow> nat \<Rightarrow> string list \<Rightarrow> (string \<rightharpoonup> nat) \<Rightarrow> (string \<rightharpoonup> nat) result" where
  "orderLoop nodeByName index [] position = Inr position"
| "orderLoop nodeByName index (step # rest) position =
     bindE (failWhen (nodeByName step = None) (ErrText (''pipeline graph order references unknown step '' @ step))) (\<lambda>_.
     bindE (failWhen (position step \<noteq> None) (ErrText (''pipeline graph order repeats step '' @ step))) (\<lambda>_.
     orderLoop nodeByName (Suc index) rest (position(step \<mapsto> index))))"

definition positionOf :: "(string \<rightharpoonup> nat) \<Rightarrow> string \<Rightarrow> nat" where
  "positionOf position step = (case position step of None \<Rightarrow> 0 | Some i \<Rightarrow> i)"

definition checkGraph :: "goLib \<Rightarrow> jsonCodec \<Rightarrow> pipelineGraphBinding \<Rightarrow> pipelineNodeCheckpoint list \<Rightarrow> unit result" where
  "checkGraph L J binding nodes =
     bindE (nodeLoop nodes Map.empty Map.empty) (\<lambda>nodeByName.
     bindE (stateLoop nodeByName nodes \<lparr>fan_edges = 0, fan_outgoing = (\<lambda>_. 0)\<rparr>) (\<lambda>f.
     bindE (failWhen (fan_edges f \<noteq> pgb_EdgeCount binding) (ErrText ''pipeline graph edge count does not match its binding'')) (\<lambda>_.
     bindE (orderLoop nodeByName 0 (pgb_Order binding) Map.empty) (\<lambda>position.
     bindE (failWhen (list_ex (\<lambda>node. list_ex (\<lambda>d. positionOf position d \<ge> positionOf position (pnc_Step node)) (pnc_DependsOn node)) nodes)
       (ErrText ''pipeline graph order is not topological'')) (\<lambda>_.
     failWhen (pipelineGraphBindingDigest L J binding nodes \<noteq> pgb_GraphSHA256 binding)
       (ErrText ''pipeline graph checkpoint does not match its immutable binding''))))))"

definition validatePipelineRunGraphState :: "goLib \<Rightarrow> jsonCodec \<Rightarrow> pipelineRun \<Rightarrow> unit result" where
  "validatePipelineRunGraphState L J run =
     (case run_Graph run of
        None \<Rightarrow> failWhen (run_NodeStates run \<noteq> []) (ErrText ''pipeline node states require a graph binding'')
      | Some binding \<Rightarrow>
          bindE (failWhen (pgb_ContractVersion binding \<noteq> PipelineGraphContractV1 \<or> pgb_Mode binding \<noteq> PipelineModeDAG)
            (ErrText ''pipeline graph uses an unsupported contract'')) (\<lambda>_.
          bindE (failWhen (\<not> validSHA256 (pgb_ConfigSHA256 binding) \<or> \<not> validSHA256 (pgb_GraphSHA256 binding))
            (ErrText ''pipeline graph requires valid SHA-256 bindings'')) (\<lambda>_.
          bindE (failWhen (pgb_MaxParallel binding < 1 \<or> pgb_MaxParallel binding > MaximumPipelineParallelism)
            (ErrText ''pipeline graph max_parallel is outside the public limit'')) (\<lambda>_.
          bindE (failWhen (pgb_StepCount binding < 1 \<or> pgb_StepCount binding \<noteq> int (length (run_NodeStates run))
              \<or> length (pgb_Order binding) \<noteq> length (run_NodeStates run))
            (ErrText ''pipeline graph step count does not match its checkpoint'')) (\<lambda>_.
          checkGraph L J binding (run_NodeStates run))))))"

definition checkNodeTransition :: "pipelineNodeCheckpoint \<Rightarrow> pipelineNodeCheckpoint \<Rightarrow> unit result" where
  "checkNodeTransition before after =
     bindE (failWhen (pnc_Step before \<noteq> pnc_Step after \<or> pnc_DependsOn before \<noteq> pnc_DependsOn after)
       (ErrText ''pipeline graph node identity is immutable'')) (\<lambda>_.
     bindE (failWhen (pnc_JobID before \<noteq> [] \<and> pnc_JobID before \<noteq> pnc_JobID after)
       (ErrText (''pipeline graph step '' @ pnc_Step before @ '' changed its child job''))) (\<lambda>_.
     bindE (failWhen (pnc_UpdatedAt after < pnc_UpdatedAt before)
       (ErrText (''pipeline graph step '' @ pnc_Step before @ '' moved its checkpoint time backwards''))) (\<lambda>_.
     failWhen (\<not> allowedPipelineNodeTransition (pnc_State before) (pnc_State after))
       (ErrText (''pipeline graph step '' @ pnc_Step before @ '' cannot move from '' @ pnc_State before @ '' to '' @ pnc_State after)))))"

fun transitionLoop :: "pipelineNodeCheckpoint list \<Rightarrow> pipelineNodeCheckpoint list \<Rightarrow> unit result" where
  "transitionLoop (before # bs) (after # as) = bindE (checkNodeTransition before after) (\<lambda>_. transitionLoop bs as)"
| "transitionLoop _ _ = Inr ()"

definition validatePipelineRunGraphTransition :: "pipelineRun \<Rightarrow> pipelineRun \<Rightarrow> unit result" where
  "validatePipelineRunGraphTransition previous nxt =
     (if run_Graph previous = None \<or> run_Graph nxt = None
      then failWhen (run_Graph previous \<noteq> None \<or> run_Graph nxt \<noteq> None \<or> length (run_NodeStates previous) \<noteq> length (run_NodeStates nxt))
             (ErrText ''pipeline graph binding cannot be added or removed after admission'')
      else bindE (failWhen (run_Graph previous \<noteq> run_Graph nxt \<or> length (run_NodeStates previous) \<noteq> length (run_NodeStates nxt))
             (ErrText ''pipeline graph binding is immutable'')) (\<lambda>_.
           transitionLoop (run_NodeStates previous) (run_NodeStates nxt)))"

section \<open>Admission of ready steps\<close>

definition activeNode :: "pipelineNodeCheckpoint \<Rightarrow> bool" where
  "activeNode node \<longleftrightarrow> pnc_State node = PipelineNodeQueued \<or> pnc_State node = PipelineNodeRunning"

definition activeNodes :: "pipelineNodeCheckpoint list \<Rightarrow> int" where
  "activeNodes nodes = int (length (filter activeNode nodes))"

text \<open>The state map that the loops over the checkpoints build: the last checkpoint of a step counts, and a
  missing step reads as the empty string.\<close>

definition stateByStep :: "pipelineNodeCheckpoint list \<Rightarrow> string \<Rightarrow> string" where
  "stateByStep nodes = fold (\<lambda>node m. m(pnc_Step node := pnc_State node)) nodes (\<lambda>_. [])"

definition dagReadySet :: "goLib \<Rightarrow> jsonCodec \<Rightarrow> pipelineRun \<Rightarrow> string list result" where
  "dagReadySet L J run =
     (case run_Graph run of
        None \<Rightarrow> Inl (ErrText ''DAG run is not active'')
      | Some binding \<Rightarrow>
          bindE (failWhen (run_Status run \<noteq> ''running'') (ErrText ''DAG run is not active'')) (\<lambda>_.
          bindE (validatePipelineRunGraphState L J run) (\<lambda>_.
          (let available = pgb_MaxParallel binding - activeNodes (run_NodeStates run) in
           if available \<le> 0 then Inr []
           else Inr (take (nat available) (filter (\<lambda>step. stateByStep (run_NodeStates run) step = PipelineNodeReady) (pgb_Order binding)))))))"

definition persistRun :: "pipelineRun \<Rightarrow> pipelineRun" where
  "persistRun run = run\<lparr>run_Steps := map persistJob (run_Steps run)\<rparr>"

definition putRun :: "string \<Rightarrow> pipelineRun \<Rightarrow> store \<Rightarrow> store" where
  "putRun key run st = st\<lparr>st_pipelineRuns := putJSON key (persistRun run) (st_pipelineRuns st)\<rparr>"

text \<open>The index of the last checkpoint of a step.\<close>

definition lastIndex :: "string \<Rightarrow> pipelineNodeCheckpoint list \<Rightarrow> nat option" where
  "lastIndex step nodes = (case filter (\<lambda>i. pnc_Step (nodes ! i) = step) [0..<length nodes] of [] \<Rightarrow> None | is \<Rightarrow> Some (last is))"

definition admitNode :: "string \<Rightarrow> string \<Rightarrow> gotime \<Rightarrow> nat \<Rightarrow> pipelineNodeCheckpoint list \<Rightarrow> pipelineNodeCheckpoint list" where
  "admitNode state jobID now index nodes =
     nodes[index := (nodes ! index)\<lparr>pnc_State := state, pnc_JobID := jobID, pnc_UpdatedAt := now\<rparr>]"

definition saveGraphRun :: "goLib \<Rightarrow> jsonCodec \<Rightarrow> pipelineRun \<Rightarrow> pipelineRun \<Rightarrow> store \<Rightarrow> store result" where
  "saveGraphRun L J run updated st =
     bindE (validatePipelineRunGraphState L J updated) (\<lambda>_.
     bindE (validatePipelineRunGraphTransition run updated) (\<lambda>_.
     Inr (putRun (run_ID updated) updated st)))"

definition childAdmissible :: "string \<Rightarrow> job \<Rightarrow> pipelineRun \<Rightarrow> pipelineGraphBinding \<Rightarrow> nat result" where
  "childAdmissible step job run binding =
     bindE (failWhen (job_ParentID job \<noteq> run_ID run \<or> job_Pipeline job \<noteq> run_Pipeline run \<or> job_Step job \<noteq> step
         \<or> job_OwnerSubject job \<noteq> run_OwnerSubject run \<or> job_TenantID job \<noteq> run_TenantID run)
       (ErrText ''DAG child job context does not match its run'')) (\<lambda>_.
     case lastIndex step (run_NodeStates run) of
       None \<Rightarrow> Inl (ErrText ''DAG step is not ready for admission'')
     | Some nodeIndex \<Rightarrow>
         bindE (failWhen (pnc_State (run_NodeStates run ! nodeIndex) \<noteq> PipelineNodeReady \<or> pnc_JobID (run_NodeStates run ! nodeIndex) \<noteq> [])
           (ErrText ''DAG step is not ready for admission'')) (\<lambda>_.
         bindE (failWhen (activeNodes (run_NodeStates run) \<ge> pgb_MaxParallel binding) (ErrText ''DAG max_parallel capacity is full'')) (\<lambda>_.
         Inr nodeIndex)))"

definition createDAGChildTx ::
  "goLib \<Rightarrow> jsonCodec \<Rightarrow> gotime \<Rightarrow> string \<Rightarrow> string \<Rightarrow> job \<Rightarrow> int \<Rightarrow> producerLimits \<Rightarrow> store \<Rightarrow> ((pipelineRun \<times> job) \<times> store) result" where
  "createDAGChildTx L J now runID step job maxQueued limits st =
     bindE (getJSON (st_pipelineRuns st) runID) (\<lambda>run.
     case run_Graph run of
       None \<Rightarrow> Inl (ErrText ''DAG run is not active'')
     | Some binding \<Rightarrow>
         bindE (failWhen (run_Status run \<noteq> ''running'') (ErrText ''DAG run is not active'')) (\<lambda>_.
         bindE (validatePipelineRunGraphState L J run) (\<lambda>_.
         bindE (childAdmissible step job run binding) (\<lambda>nodeIndex.
         bindE (admitPreparedJobTx L job maxQueued limits [] [] now st) (\<lambda>((job, replayed), st).
         bindE (failWhen replayed (ErrText ''unexpected DAG child replay'')) (\<lambda>_.
         (let updated = run\<lparr>run_NodeStates := admitNode PipelineNodeQueued (job_ID job) now nodeIndex (run_NodeStates run),
                run_Steps := run_Steps run @ [job]\<rparr>
          in bindE (saveGraphRun L J run updated st) (\<lambda>st. Inr ((updated, job), st)))))))))"

definition CreateDAGChildJobAdmittedGoverned ::
  "goLib \<Rightarrow> jsonCodec \<Rightarrow> string result \<Rightarrow> gotime \<Rightarrow> string \<Rightarrow> string \<Rightarrow> submitRequest \<Rightarrow> int \<Rightarrow> producerLimits \<Rightarrow> store \<Rightarrow>
   (pipelineRun \<times> job) result \<times> store" where
  "CreateDAGChildJobAdmittedGoverned L J raw now runID step request maxQueued limits st =
     (case prepareJob L raw request [] [] now of
        Inl e \<Rightarrow> (Inl e, st)
      | Inr job \<Rightarrow> update (createDAGChildTx L J now runID step job maxQueued limits) st)"

section \<open>Reconciling a terminal step\<close>

definition firstIndex :: "string \<Rightarrow> pipelineNodeCheckpoint list \<Rightarrow> nat option" where
  "firstIndex step nodes = List.find (\<lambda>i. pnc_Step (nodes ! i) = step) [0..<length nodes]"

text \<open>One step of the walk along the order: the states seen so far, the checkpoints, and the indices
  that changed.\<close>

definition settleNode ::
  "gotime \<Rightarrow> (string \<Rightarrow> string) \<Rightarrow> pipelineNodeCheckpoint \<Rightarrow> pipelineNodeCheckpoint" where
  "settleNode checkpointAt states node =
     (if pnc_State node \<noteq> PipelineNodeNotReady \<and> pnc_State node \<noteq> PipelineNodeReady then node
      else let allCompleted = list_all (\<lambda>d. states d = PipelineNodeCompleted) (pnc_DependsOn node);
               blocked = list_ex (\<lambda>d. pipelineNodeBlocksDescendants (states d)) (pnc_DependsOn node);
               nextState = (if blocked then PipelineNodeBlockedByDependency
                            else if allCompleted \<and> pnc_State node = PipelineNodeNotReady then PipelineNodeReady else pnc_State node)
           in if nextState \<noteq> pnc_State node then node\<lparr>pnc_State := nextState, pnc_UpdatedAt := checkpointAt\<rparr> else node)"

fun settleLoop ::
  "gotime \<Rightarrow> string list \<Rightarrow> (string \<Rightarrow> string) \<Rightarrow> pipelineNodeCheckpoint list \<Rightarrow> nat list \<Rightarrow> (pipelineNodeCheckpoint list \<times> nat list) result" where
  "settleLoop checkpointAt [] states nodes changed = Inr (nodes, changed)"
| "settleLoop checkpointAt (step # rest) states nodes changed =
     (case lastIndex step nodes of
        None \<Rightarrow> Inl (ErrText ''DAG graph order references an unavailable checkpoint'')
      | Some index \<Rightarrow>
          (let node = nodes ! index; node' = settleNode checkpointAt states node in
           settleLoop checkpointAt rest (states(pnc_Step node := pnc_State node')) (nodes[index := node'])
             (if pnc_State node' \<noteq> pnc_State node then changed @ [index] else changed)))"

definition replaceStep :: "job \<Rightarrow> job list \<Rightarrow> job list option" where
  "replaceStep job steps =
     (case List.find (\<lambda>i. job_ID (steps ! i) = job_ID job) [0..<length steps] of
        None \<Rightarrow> None | Some i \<Rightarrow> Some (steps[i := job]))"

text \<open>The checkpoint of the step of a terminal job, its time never before the job or the step.\<close>

definition terminalCheckpoint :: "gotime \<Rightarrow> job \<Rightarrow> string \<Rightarrow> pipelineNodeCheckpoint list \<Rightarrow> (pipelineNodeCheckpoint list \<times> gotime) result" where
  "terminalCheckpoint now job targetState nodes =
     (case firstIndex (job_Step job) nodes of
        None \<Rightarrow> Inl (ErrText ''DAG child job is not bound to its step'')
      | Some nodeIndex \<Rightarrow>
          (let before = nodes ! nodeIndex in
           bindE (failWhen (pnc_JobID before \<noteq> job_ID job) (ErrText ''DAG child job is not bound to its step'')) (\<lambda>_.
           bindE (failWhen (pnc_State before \<noteq> PipelineNodeQueued \<and> pnc_State before \<noteq> PipelineNodeRunning \<and> pnc_State before \<noteq> targetState)
             (ErrText (''DAG step '' @ pnc_Step before @ '' cannot reconcile terminal child from '' @ pnc_State before))) (\<lambda>_.
           (let checkpointAt = (if job_UpdatedAt job > now then job_UpdatedAt job else now);
                checkpointAt = (if checkpointAt < pnc_UpdatedAt before then pnc_UpdatedAt before else checkpointAt)
            in Inr (if pnc_State before \<noteq> targetState
                    then nodes[nodeIndex := before\<lparr>pnc_State := targetState, pnc_UpdatedAt := checkpointAt\<rparr>] else nodes,
                    checkpointAt))))))"

fun settledEvents :: "gotime \<Rightarrow> pipelineRun \<Rightarrow> nat list \<Rightarrow> store \<Rightarrow> store result" where
  "settledEvents now run [] st = Inr st"
| "settledEvents now run (index # rest) st =
     (let node = run_NodeStates run ! index;
          eventType = (if pnc_State node = PipelineNodeBlockedByDependency then ''pipeline.step.blocked'' else ''pipeline.step.ready'')
      in bindE (appendPipelineNodeCheckpointEventTx now run node eventType st) (settledEvents now run rest))"

definition reconcileRun :: "gotime \<Rightarrow> job \<Rightarrow> pipelineRun \<Rightarrow> pipelineGraphBinding \<Rightarrow> (pipelineRun \<times> nat list) result" where
  "reconcileRun now job run binding =
     bindE (failWhen (job_ParentID job \<noteq> run_ID run \<or> job_Pipeline job \<noteq> run_Pipeline run \<or> job_OwnerSubject job \<noteq> run_OwnerSubject run
         \<or> job_TenantID job \<noteq> run_TenantID run \<or> trimSpace (job_Step job) = [])
       (ErrText ''DAG child job context does not match its run'')) (\<lambda>_.
     bindE (dagNodeStateForTerminalJob job) (\<lambda>targetState.
     bindE (terminalCheckpoint now job targetState (run_NodeStates run)) (\<lambda>(nodes, checkpointAt).
     case replaceStep job (run_Steps run) of
       None \<Rightarrow> Inl (ErrText ''DAG child job is missing from its run checkpoint'')
     | Some steps \<Rightarrow>
         bindE (settleLoop checkpointAt (pgb_Order binding) (stateByStep nodes) nodes []) (\<lambda>(nodes, changed).
         Inr (run\<lparr>run_NodeStates := nodes, run_Steps := steps\<rparr>, changed)))))"

definition reconcileTx :: "goLib \<Rightarrow> jsonCodec \<Rightarrow> gotime \<Rightarrow> string \<Rightarrow> string \<Rightarrow> store \<Rightarrow> (pipelineRun \<times> store) result" where
  "reconcileTx L J now runID jobID st =
     bindE (getJSON (st_pipelineRuns st) runID) (\<lambda>run.
     case run_Graph run of
       None \<Rightarrow> Inl (ErrText ''DAG run is not active'')
     | Some binding \<Rightarrow>
         bindE (failWhen (run_Status run \<noteq> ''running'') (ErrText ''DAG run is not active'')) (\<lambda>_.
         bindE (validatePipelineRunGraphState L J run) (\<lambda>_.
         bindE (getJSON (st_jobs st) jobID) (\<lambda>job.
         bindE (reconcileRun now job run binding) (\<lambda>(updated, changed).
         bindE (validatePipelineRunGraphState L J updated) (\<lambda>_.
         bindE (validatePipelineRunGraphTransition run updated) (\<lambda>_.
         bindE (settledEvents now updated changed st) (\<lambda>st.
         Inr (updated, putRun (run_ID updated) updated st)))))))))"

definition ReconcileDAGChildTerminal :: "goLib \<Rightarrow> jsonCodec \<Rightarrow> gotime \<Rightarrow> string \<Rightarrow> string \<Rightarrow> store \<Rightarrow> pipelineRun result \<times> store" where
  "ReconcileDAGChildTerminal L J now runID jobID st =
     (let runID = trimSpace runID; jobID = trimSpace jobID in
      if \<not> validJobID runID \<or> \<not> validJobID jobID then (Inl (ErrText ''DAG run and child job IDs are required''), st)
      else update (reconcileTx L J now runID jobID) st)"

section \<open>Runs\<close>

definition putPipelineScopeLookup :: "goLib \<Rightarrow> string \<Rightarrow> string \<Rightarrow> string \<Rightarrow> store \<Rightarrow> store result" where
  "putPipelineScopeLookup L runID owner tenant st =
     bindE (failWhen (runID = []) (ErrText ''execution scope lookup is unavailable'')) (\<lambda>_.
     Inr (st\<lparr>st_pipelineOwnerLookup := bput runID (sha256 L owner @ sha256 L tenant) (st_pipelineOwnerLookup st)\<rparr>))"

definition statusEvent :: "gotime \<Rightarrow> pipelineRun \<Rightarrow> pipelineRun option \<Rightarrow> store \<Rightarrow> store result" where
  "statusEvent now run previous st =
     (if previous = None \<and> run_Status run = ''running'' then appendPipelineEventTx now run ''pipeline.started'' st
      else if map_option run_Status previous = Some (run_Status run) then Inr st
      else if run_Status run = ''completed'' then appendPipelineEventTx now run ''pipeline.completed'' st
      else if run_Status run = ''failed'' then appendPipelineEventTx now run ''pipeline.failed'' st
      else if run_Status run = ''cancelled'' then appendPipelineEventTx now run ''pipeline.cancelled'' st
      else Inr st)"

definition SavePipelineRun :: "goLib \<Rightarrow> jsonCodec \<Rightarrow> gotime \<Rightarrow> pipelineRun \<Rightarrow> store \<Rightarrow> unit result \<times> store" where
  "SavePipelineRun L J now run st =
     (case validatePipelineRunGraphState L J run of
        Inl e \<Rightarrow> (Inl e, st)
      | Inr _ \<Rightarrow> update (\<lambda>st.
          bindE (case getJSON (st_pipelineRuns st) (run_ID run) of
                   Inr previous \<Rightarrow> Inr (Some previous) | Inl e \<Rightarrow> (if e = ErrNotExist then Inr None else Inl e)) (\<lambda>previous.
          bindE (case previous of Some p \<Rightarrow> validatePipelineRunGraphTransition p run | None \<Rightarrow> Inr ()) (\<lambda>_.
          bindE (putPipelineScopeLookup L (run_ID run) (run_OwnerSubject run) (run_TenantID run) (putRun (run_ID run) run st)) (\<lambda>st.
          bindE (statusEvent now run previous st) (\<lambda>st. Inr ((), st)))))) st)"

fun activePipelineCounts :: "string \<Rightarrow> pipelineRun cell bucket \<Rightarrow> (int \<times> int) result" where
  "activePipelineCounts owner [] = Inr (0, 0)"
| "activePipelineCounts owner ((_, Garbled) # rest) = Inl ErrDecode"
| "activePipelineCounts owner ((_, Val run) # rest) =
     bindE (activePipelineCounts owner rest) (\<lambda>(total, owned).
     Inr (if run_Status run \<noteq> ''running'' then (total, owned)
          else (total + 1, if run_OwnerSubject run = owner then owned + 1 else owned)))"

definition CreatePipelineRunAdmitted :: "goLib \<Rightarrow> jsonCodec \<Rightarrow> gotime \<Rightarrow> pipelineRun \<Rightarrow> int \<Rightarrow> int \<Rightarrow> store \<Rightarrow> unit result \<times> store" where
  "CreatePipelineRunAdmitted L J now run maxGlobal maxOwner st =
     update (\<lambda>st.
       bindE (failWhen (run_ID run = [] \<or> \<not> validJobID (run_ID run)) (ErrText ''pipeline run id must use safe ASCII characters'')) (\<lambda>_.
       bindE (failWhen (run_Status run \<noteq> ''running'') (ErrText ''an admitted pipeline run must start in running state'')) (\<lambda>_.
       bindE (validatePipelineRunGraphState L J run) (\<lambda>_.
       bindE (failWhen (bget (st_pipelineRuns st) (run_ID run) \<noteq> None) ErrExist) (\<lambda>_.
       bindE (activePipelineCounts (run_OwnerSubject run) (st_pipelineRuns st)) (\<lambda>(total, owned).
       bindE (failWhen (maxGlobal > 0 \<and> total \<ge> maxGlobal) ErrPipelineCapacity) (\<lambda>_.
       bindE (failWhen (maxOwner > 0 \<and> owned \<ge> maxOwner) ErrOwnerPipelineCapacity) (\<lambda>_.
       bindE (putPipelineScopeLookup L (run_ID run) (run_OwnerSubject run) (run_TenantID run) (putRun (run_ID run) run st)) (\<lambda>st.
       bindE (appendPipelineEventTx now run ''pipeline.started'' st) (\<lambda>st. Inr ((), st))))))))))) st"

fun hasActiveLoop :: "pipelineRun cell bucket \<Rightarrow> bool result" where
  "hasActiveLoop [] = Inr False"
| "hasActiveLoop ((_, Garbled) # rest) = Inl ErrDecode"
| "hasActiveLoop ((_, Val run) # rest) = bindE (hasActiveLoop rest) (\<lambda>active. Inr (run_Status run = ''running'' \<or> active))"

definition HasActivePipelineRuns :: "store \<Rightarrow> bool result" where
  "HasActivePipelineRuns st = hasActiveLoop (st_pipelineRuns st)"

fun failedRuns :: "string \<Rightarrow> gotime \<Rightarrow> pipelineRun cell bucket \<Rightarrow> (string \<times> pipelineRun) list result" where
  "failedRuns reason now [] = Inr []"
| "failedRuns reason now ((_, Garbled) # rest) = Inl ErrDecode"
| "failedRuns reason now ((key, Val run) # rest) =
     bindE (failedRuns reason now rest) (\<lambda>updates.
     Inr (if run_Status run \<noteq> ''running'' then updates
          else (key, run\<lparr>run_Status := ''failed'', run_Error := reason, run_FinishedAt := now\<rparr>) # updates))"

fun writeFailedRuns :: "gotime \<Rightarrow> (string \<times> pipelineRun) list \<Rightarrow> store \<Rightarrow> store result" where
  "writeFailedRuns now [] st = Inr st"
| "writeFailedRuns now ((key, run) # rest) st =
     bindE (appendPipelineEventTx now run ''pipeline.failed'' (putRun key run st)) (writeFailedRuns now rest)"

definition orphanedChildren :: "string \<Rightarrow> gotime \<Rightarrow> string set \<Rightarrow> job cell bucket \<Rightarrow> (string \<times> job) list" where
  "orphanedChildren reason now activeRunIDs jobs =
     map (\<lambda>(key, job). (key, job\<lparr>job_Status := JobFailed, job_Error := reason, job_FailureCode := FailurePipelineParentTerminal,
            job_UpdatedAt := now, job_FinishedAt := now\<rparr>))
       (filter (\<lambda>(_, job). job_Status job = JobQueued \<and> job_ParentID job \<in> activeRunIDs) (decoded jobs))"

fun failChildren :: "goLib \<Rightarrow> gotime \<Rightarrow> (string \<times> job) list \<Rightarrow> store \<Rightarrow> store result" where
  "failChildren L now [] st = Inr st"
| "failChildren L now ((key, job) # rest) st =
     bindE (deleteQueueEntry (job_ID job) st) (\<lambda>st.
     (let st = releaseAdapterSessionLockTx L (job_OwnerSubject job) (job_Requirements job) adapterSessionLockJob (job_ID job) st;
          st = putJob key job st
      in bindE (appendAuthoritativeJobEventTx now job ''job.failed'' st) (\<lambda>st.
         bindE (appendPipelineStepEventTx now job ''pipeline.step.failed'' st) (failChildren L now rest))))"

definition FailActivePipelineRuns :: "goLib \<Rightarrow> gotime \<Rightarrow> string \<Rightarrow> store \<Rightarrow> int result \<times> store" where
  "FailActivePipelineRuns L now reason st =
     (let reason = cleanLabel reason 500;
          reason = (if reason = [] then ''relay restarted before pipeline completion'' else reason)
      in update (\<lambda>st.
        bindE (failedRuns reason now (st_pipelineRuns st)) (\<lambda>updates.
        bindE (writeFailedRuns now updates st) (\<lambda>st.
        if updates = [] then Inr (0, st)
        else bindE (failChildren L now (orphanedChildren reason now (run_ID ` snd ` set updates) (st_jobs st)) st) (\<lambda>st.
             Inr (int (length updates), st))))) st)"

definition GetPipelineRun :: "store \<Rightarrow> string \<Rightarrow> pipelineRun result" where
  "GetPipelineRun st runID = getJSON (st_pipelineRuns st) runID"

definition GetPipelineRunForProducer :: "goLib \<Rightarrow> store \<Rightarrow> string \<Rightarrow> string \<Rightarrow> string list \<Rightarrow> pipelineRun result" where
  "GetPipelineRunForProducer L st runID owner allowedTenants =
     bindE (failWhen (\<not> executionScopeLookupMatches L (st\<lparr>st_jobOwnerLookup := st_pipelineOwnerLookup st\<rparr>) runID owner allowedTenants)
       ErrNotExist) (\<lambda>_.
     bindE (getJSON (st_pipelineRuns st) runID) (\<lambda>run.
     bindE (failWhen (run_OwnerSubject run \<noteq> owner \<or> \<not> tenantAllowed (run_TenantID run) allowedTenants) ErrNotExist) (\<lambda>_.
     Inr run)))"

definition GetPipelineRunForOwner :: "goLib \<Rightarrow> store \<Rightarrow> string \<Rightarrow> string \<Rightarrow> pipelineRun result" where
  "GetPipelineRunForOwner L st runID owner = GetPipelineRunForProducer L st runID owner []"

fun runValuesLoop :: "pipelineRun cell bucket \<Rightarrow> pipelineRun list result" where
  "runValuesLoop [] = Inr []"
| "runValuesLoop ((_, Garbled) # rest) = Inl ErrDecode"
| "runValuesLoop ((_, Val run) # rest) = bindE (runValuesLoop rest) (\<lambda>runs. Inr (run # runs))"

definition ListPipelineRuns :: "int \<Rightarrow> store \<Rightarrow> pipelineRun list result" where
  "ListPipelineRuns limit st =
     (let limit = (if limit \<le> 0 \<or> limit > 500 then 50 else limit) in
      bindE (runValuesLoop (st_pipelineRuns st)) (\<lambda>runs.
      Inr (take (nat limit) (sortSlice (\<lambda>a b. run_CreatedAt a > run_CreatedAt b) runs))))"

section \<open>What validation accepts\<close>

abbreviation nodeMap :: "pipelineNodeCheckpoint list \<Rightarrow> string \<rightharpoonup> pipelineNodeCheckpoint" where
  "nodeMap nodes \<equiv> map_of (map (\<lambda>n. (pnc_Step n, n)) nodes)"

definition nodeOK :: "pipelineNodeCheckpoint \<Rightarrow> bool" where
  "nodeOK n \<longleftrightarrow> trimSpace (pnc_Step n) \<noteq> [] \<and> validPipelineNodeState (pnc_State n) \<and> pnc_UpdatedAt n \<noteq> 0
     \<and> length (pnc_DependsOn n) \<le> MaximumPipelineDependencyFan \<and> (pnc_JobID n = [] \<or> validJobID (pnc_JobID n))
     \<and> (pnc_State n \<in> {PipelineNodeNotReady, PipelineNodeReady, PipelineNodeBlockedByDependency} \<longrightarrow> pnc_JobID n = [])
     \<and> (pnc_State n \<in> {PipelineNodeQueued, PipelineNodeRunning, PipelineNodeCompleted} \<longrightarrow> validJobID (pnc_JobID n))"

abbreviation boundJobs :: "pipelineNodeCheckpoint list \<Rightarrow> string list" where
  "boundJobs nodes \<equiv> filter (\<lambda>j. j \<noteq> []) (map pnc_JobID nodes)"

lemma map_add_fresh: "M s = None \<Longrightarrow> m(s \<mapsto> v) ++ M = m ++ M(s \<mapsto> v)"
  by (auto simp: map_add_def fun_eq_iff split: option.splits)

lemma checkNode_iff: "checkNode m j n = Inr u \<longleftrightarrow> nodeOK n \<and> m (pnc_Step n) = None \<and> (pnc_JobID n \<noteq> [] \<longrightarrow> j (pnc_JobID n) = None)"
  by (auto simp: checkNode_def nodeOK_def result_simps)

lemma nodeLoop_iff:
  "nodeLoop nodes m j = Inr m' \<longleftrightarrow> m' = m ++ nodeMap nodes \<and> distinct (map pnc_Step nodes) \<and> distinct (boundJobs nodes)
     \<and> (\<forall>n\<in>set nodes. nodeOK n \<and> m (pnc_Step n) = None \<and> (pnc_JobID n \<noteq> [] \<longrightarrow> j (pnc_JobID n) = None))"
proof (induction nodes arbitrary: m j)
  case (Cons n nodes)
  let ?m = "m(pnc_Step n \<mapsto> n)" and ?j = "if pnc_JobID n \<noteq> [] then j(pnc_JobID n \<mapsto> pnc_Step n) else j"
  have upd: "?m ++ nodeMap nodes = m ++ nodeMap (n # nodes)" if "pnc_Step n \<notin> pnc_Step ` set nodes"
  proof -
    have "nodeMap nodes (pnc_Step n) = None" using that by (auto simp: map_of_eq_None_iff image_iff)
    then show ?thesis using map_add_fresh [of "nodeMap nodes" "pnc_Step n" m n] by simp
  qed
  have "nodeLoop (n # nodes) m j = Inr m' \<longleftrightarrow> checkNode m j n = Inr () \<and> nodeLoop nodes ?m ?j = Inr m'"
    by (auto simp: bindE_eq_Inr)
  then have step: "nodeLoop (n # nodes) m j = Inr m' \<longleftrightarrow> (nodeOK n \<and> m (pnc_Step n) = None \<and> (pnc_JobID n \<noteq> [] \<longrightarrow> j (pnc_JobID n) = None))
      \<and> m' = ?m ++ nodeMap nodes \<and> distinct (map pnc_Step nodes) \<and> distinct (boundJobs nodes)
      \<and> (\<forall>k\<in>set nodes. nodeOK k \<and> ?m (pnc_Step k) = None \<and> (pnc_JobID k \<noteq> [] \<longrightarrow> ?j (pnc_JobID k) = None))"
    unfolding checkNode_iff Cons.IH .
  show ?case
  proof (cases "pnc_Step n \<in> pnc_Step ` set nodes")
    case True
    then have r: "\<not> distinct (map pnc_Step (n # nodes))" by simp
    obtain k where "k \<in> set nodes" "pnc_Step k = pnc_Step n" using True by auto
    then have l: "\<not> (\<forall>k\<in>set nodes. nodeOK k \<and> ?m (pnc_Step k) = None \<and> (pnc_JobID k \<noteq> [] \<longrightarrow> ?j (pnc_JobID k) = None))"
      by (metis fun_upd_same option.distinct(1))
    show ?thesis unfolding step by (simp only: l r simp_thms)
  next
    case False
    then have m: "?m (pnc_Step k) = m (pnc_Step k)" if "k \<in> set nodes" for k using that by (metis fun_upd_other image_eqI)
    have j: "(pnc_JobID k \<noteq> [] \<longrightarrow> ?j (pnc_JobID k) = None) \<longleftrightarrow> (pnc_JobID k \<noteq> [] \<longrightarrow> j (pnc_JobID k) = None \<and> pnc_JobID k \<noteq> pnc_JobID n)" for k
      by auto
    have d: "distinct (boundJobs (n # nodes)) \<longleftrightarrow> distinct (boundJobs nodes) \<and> (\<forall>k\<in>set nodes. pnc_JobID k \<noteq> [] \<longrightarrow> pnc_JobID k \<noteq> pnc_JobID n)"
      by (auto simp: image_iff)
    have all: "(\<forall>k\<in>set nodes. nodeOK k \<and> ?m (pnc_Step k) = None \<and> (pnc_JobID k \<noteq> [] \<longrightarrow> ?j (pnc_JobID k) = None)) \<longleftrightarrow>
        (\<forall>k\<in>set nodes. nodeOK k \<and> m (pnc_Step k) = None \<and> (pnc_JobID k \<noteq> [] \<longrightarrow> j (pnc_JobID k) = None \<and> pnc_JobID k \<noteq> pnc_JobID n))"
      by (rule ball_cong [OF refl]) (simp only: m j)
    define M where "M = m ++ nodeMap (n # nodes)"
    have steps: "distinct (map pnc_Step (n # nodes)) \<longleftrightarrow> distinct (map pnc_Step nodes)" using False by simp
    show ?thesis unfolding step all upd [OF False] M_def [symmetric] d steps by auto
  qed
qed auto

abbreviation dependencyState :: "(string \<rightharpoonup> pipelineNodeCheckpoint) \<Rightarrow> string \<Rightarrow> string" where
  "dependencyState m d \<equiv> pnc_State (the (m d))"

definition fanOK :: "fanState \<Rightarrow> bool" where
  "fanOK f \<longleftrightarrow> fan_edges f \<le> MaximumPipelineDependencyEdges \<and> (\<forall>d. fan_outgoing f d \<le> MaximumPipelineDependencyFan)"

definition addFan :: "string list \<Rightarrow> fanState \<Rightarrow> fanState" where
  "addFan ds f = \<lparr>fan_edges = fan_edges f + int (length ds), fan_outgoing = (\<lambda>d. fan_outgoing f d + count_list ds d)\<rparr>"

lemma addFan_append: "addFan (xs @ ys) f = addFan ys (addFan xs f)"
  by (simp add: addFan_def fun_eq_iff)

lemma addFan_mono: "fanOK (addFan ds f) \<Longrightarrow> fanOK f"
  unfolding fanOK_def addFan_def by (auto intro: le_trans [OF le_add1])

lemma waitLoop_iff:
  assumes "fanOK f"
  shows "waitLoop m node ds w f = Inr (w', f') \<longleftrightarrow>
     pnc_Step node \<notin> set ds \<and> (\<forall>d\<in>set ds. m d \<noteq> None) \<and> distinct ds \<and> set ds \<inter> set (wait_seen w) = {}
     \<and> f' = addFan ds f \<and> fanOK f'
     \<and> w' = \<lparr>wait_seen = rev ds @ wait_seen w, wait_allCompleted = (wait_allCompleted w \<and> (\<forall>d\<in>set ds. dependencyState m d = PipelineNodeCompleted)),
             wait_blocking = (wait_blocking w \<or> (\<exists>d\<in>set ds. pipelineNodeBlocksDescendants (dependencyState m d)))\<rparr>"
  using assms
proof (induction ds arbitrary: w f)
  case Nil
  then show ?case by (cases w, cases f) (auto simp: addFan_def)
next
  case (Cons d ds)
  let ?f = "addFan [d] f"
  let ?w = "\<lparr>wait_seen = d # wait_seen w, wait_allCompleted = (if dependencyState m d \<noteq> PipelineNodeCompleted then False else wait_allCompleted w),
      wait_blocking = (if pipelineNodeBlocksDescendants (dependencyState m d) then True else wait_blocking w)\<rparr>"
  have f: "\<lparr>fan_edges = fan_edges f + 1, fan_outgoing = (fan_outgoing f)(d := fan_outgoing f d + 1)\<rparr> = ?f"
    by (auto simp: addFan_def)
  have ok: "fanOK ?f \<longleftrightarrow> \<not> (fan_outgoing ?f d > MaximumPipelineDependencyFan \<or> fan_edges ?f > MaximumPipelineDependencyEdges)"
    using Cons.prems by (auto simp: fanOK_def addFan_def)
  have add: "addFan (d # ds) f = addFan ds ?f" using addFan_append [of "[d]" ds f] by simp
  have "waitLoop m node (d # ds) w f = Inr (w', f') \<longleftrightarrow>
      d \<noteq> pnc_Step node \<and> m d \<noteq> None \<and> d \<notin> set (wait_seen w) \<and> fanOK ?f \<and> waitLoop m node ds ?w ?f = Inr (w', f')"
    unfolding ok waitLoop.simps Let_def f by (cases "m d") (auto simp: result_simps)
  also have "\<dots> \<longleftrightarrow> pnc_Step node \<notin> set (d # ds) \<and> (\<forall>d\<in>set (d # ds). m d \<noteq> None) \<and> distinct (d # ds) \<and> set (d # ds) \<inter> set (wait_seen w) = {}
     \<and> f' = addFan (d # ds) f \<and> fanOK f'
     \<and> w' = \<lparr>wait_seen = rev (d # ds) @ wait_seen w, wait_allCompleted = (wait_allCompleted w \<and> (\<forall>d\<in>set (d # ds). dependencyState m d = PipelineNodeCompleted)),
             wait_blocking = (wait_blocking w \<or> (\<exists>d\<in>set (d # ds). pipelineNodeBlocksDescendants (dependencyState m d)))\<rparr>"
    using Cons.IH [of ?f ?w] addFan_mono [of ds ?f] unfolding add by auto
  finally show ?case .
qed

definition waitsOK :: "(string \<rightharpoonup> pipelineNodeCheckpoint) \<Rightarrow> pipelineNodeCheckpoint \<Rightarrow> bool" where
  "waitsOK m n \<longleftrightarrow> pnc_Step n \<notin> set (pnc_DependsOn n) \<and> (\<forall>d\<in>set (pnc_DependsOn n). m d \<noteq> None) \<and> distinct (pnc_DependsOn n)
     \<and> (pipelineNodeRequiresCompletedDependencies (pnc_State n) \<longrightarrow> (\<forall>d\<in>set (pnc_DependsOn n). dependencyState m d = PipelineNodeCompleted))
     \<and> (pnc_State n = PipelineNodeBlockedByDependency \<longrightarrow> (\<exists>d\<in>set (pnc_DependsOn n). pipelineNodeBlocksDescendants (dependencyState m d)))"

abbreviation allDependencies :: "pipelineNodeCheckpoint list \<Rightarrow> string list" where
  "allDependencies nodes \<equiv> concat (map pnc_DependsOn nodes)"

lemma stateLoop_iff:
  assumes "fanOK f"
  shows "stateLoop m nodes f = Inr f' \<longleftrightarrow> list_all (waitsOK m) nodes \<and> f' = addFan (allDependencies nodes) f \<and> fanOK f'"
  using assms
proof (induction nodes arbitrary: f)
  case Nil
  then show ?case by (cases f) (auto simp: addFan_def)
next
  case (Cons n nodes)
  let ?f = "addFan (pnc_DependsOn n) f"
  have "stateLoop m (n # nodes) f = Inr f' \<longleftrightarrow> waitsOK m n \<and> fanOK ?f \<and> stateLoop m nodes ?f = Inr f'"
    by (auto simp: bindE_eq_Inr failWhen_eq_Inr waitLoop_iff [OF Cons.prems] waitsOK_def)
  also have "\<dots> \<longleftrightarrow> list_all (waitsOK m) (n # nodes) \<and> f' = addFan (allDependencies (n # nodes)) f \<and> fanOK f'"
    using Cons.IH [of ?f] addFan_mono [of "allDependencies nodes" ?f] by (auto simp: addFan_append)
  finally show ?case .
qed

lemma orderLoop_iff:
  "orderLoop m k order pos = Inr pos' \<longleftrightarrow> (\<forall>s\<in>set order. m s \<noteq> None \<and> pos s = None) \<and> distinct order
     \<and> pos' = pos ++ map_of (zip order [k..<k + length order])"
proof (induction order arbitrary: k pos)
  case (Cons s order)
  have zip: "zip (s # order) [k..<k + length (s # order)] = (s, k) # zip order [Suc k..<Suc k + length order]"
    by (simp add: upt_conv_Cons del: upt_Suc)
  have upd: "pos(s \<mapsto> k) ++ map_of (zip order [Suc k..<Suc k + length order]) = pos ++ map_of (zip (s # order) [k..<k + length (s # order)])"
    if "s \<notin> set order"
  proof -
    have "map_of (zip order [Suc k..<Suc k + length order]) s = None"
      using that map_of_zip_is_None [of order "[Suc k..<Suc k + length order]" s] by (simp only: length_upt diff_add_inverse) simp
    then show ?thesis unfolding zip map_of.simps fst_conv snd_conv by (rule map_add_fresh)
  qed
  have "orderLoop m k (s # order) pos = Inr pos' \<longleftrightarrow> m s \<noteq> None \<and> pos s = None \<and> orderLoop m (Suc k) order (pos(s \<mapsto> k)) = Inr pos'"
    by (auto simp: result_simps)
  then have step: "orderLoop m k (s # order) pos = Inr pos' \<longleftrightarrow> m s \<noteq> None \<and> pos s = None \<and> (\<forall>t\<in>set order. m t \<noteq> None \<and> (pos(s \<mapsto> k)) t = None)
      \<and> distinct order \<and> pos' = pos(s \<mapsto> k) ++ map_of (zip order [Suc k..<Suc k + length order])" unfolding Cons.IH .
  show ?case
  proof (cases "s \<in> set order")
    case True
    then have "\<not> (\<forall>t\<in>set order. m t \<noteq> None \<and> (pos(s \<mapsto> k)) t = None)" by auto
    then show ?thesis unfolding step using True by simp
  next
    case False
    then have "(\<forall>t\<in>set order. m t \<noteq> None \<and> (pos(s \<mapsto> k)) t = None) \<longleftrightarrow> (\<forall>t\<in>set order. m t \<noteq> None \<and> pos t = None)" by auto
    moreover have "distinct (s # order) \<longleftrightarrow> distinct order" using False by simp
    ultimately show ?thesis unfolding step upd [OF False] by (simp only: list.set ball_simps) blast
  qed
qed auto

text \<open>The declared conditions of a graph checkpoint.\<close>

definition graphOK :: "pipelineGraphBinding \<Rightarrow> pipelineNodeCheckpoint list \<Rightarrow> bool" where
  "graphOK binding nodes \<longleftrightarrow>
     distinct (map pnc_Step nodes) \<and> distinct (boundJobs nodes) \<and> (\<forall>n\<in>set nodes. nodeOK n \<and> waitsOK (nodeMap nodes) n)
     \<and> fanOK (addFan (allDependencies nodes) \<lparr>fan_edges = 0, fan_outgoing = (\<lambda>_. 0)\<rparr>)
     \<and> int (length (allDependencies nodes)) = pgb_EdgeCount binding
     \<and> distinct (pgb_Order binding) \<and> set (pgb_Order binding) \<subseteq> pnc_Step ` set nodes
     \<and> (\<forall>n\<in>set nodes. \<forall>d\<in>set (pnc_DependsOn n). positionOf (map_of (zip (pgb_Order binding) [0..<length (pgb_Order binding)])) d
           < positionOf (map_of (zip (pgb_Order binding) [0..<length (pgb_Order binding)])) (pnc_Step n))"

lemma checkGraph_iff:
  "checkGraph L J binding nodes = Inr u \<longleftrightarrow> graphOK binding nodes \<and> pipelineGraphBindingDigest L J binding nodes = pgb_GraphSHA256 binding"
proof -
  have ok: "fanOK \<lparr>fan_edges = 0, fan_outgoing = (\<lambda>_. 0)\<rparr>" by (simp add: fanOK_def MaximumPipelineDependencyEdges_def)
  have dom: "(\<exists>y. nodeMap nodes s = Some y) \<longleftrightarrow> s \<in> pnc_Step ` set nodes" for s
    using map_of_eq_None_iff [of "map (\<lambda>n. (pnc_Step n, n)) nodes" s] by (auto simp: image_iff)
  show ?thesis
    unfolding checkGraph_def bindE_eq_Inr nodeLoop_iff stateLoop_iff [OF ok] orderLoop_iff failWhen_eq_Inr graphOK_def
    by (auto simp: dom list_all_iff list_ex_iff addFan_def not_le)
qed

lemma validate_graph:
  assumes "run_Graph run = Some b"
  shows "validatePipelineRunGraphState L J run = Inr u \<longleftrightarrow>
    pgb_ContractVersion b = PipelineGraphContractV1 \<and> pgb_Mode b = PipelineModeDAG \<and> validSHA256 (pgb_ConfigSHA256 b) \<and> validSHA256 (pgb_GraphSHA256 b)
    \<and> 1 \<le> pgb_MaxParallel b \<and> pgb_MaxParallel b \<le> MaximumPipelineParallelism \<and> 1 \<le> pgb_StepCount b
    \<and> pgb_StepCount b = int (length (run_NodeStates run)) \<and> length (pgb_Order b) = length (run_NodeStates run)
    \<and> graphOK b (run_NodeStates run) \<and> pipelineGraphBindingDigest L J b (run_NodeStates run) = pgb_GraphSHA256 b"
  using assms by (auto simp: validatePipelineRunGraphState_def checkGraph_iff result_simps Suc_le_eq)

section \<open>Positions\<close>

abbreviation orderPosition :: "string list \<Rightarrow> string \<Rightarrow> nat" where
  "orderPosition order \<equiv> positionOf (map_of (zip order [0..<length order]))"

lemma orderPosition_nth: "distinct order \<Longrightarrow> i < length order \<Longrightarrow> orderPosition order (order ! i) = i"
  by (simp add: positionOf_def map_of_zip_nth)

lemma layers_position:
  assumes "earliestLayers n D ls" and "p < length (concat ls)" and "q < length (concat ls)" and "concat ls ! q \<in> D (concat ls ! p)"
  shows "q < p"
proof -
  let ?ord = "concat ls"
  have dist: "distinct ?ord" using assms(1) by (simp add: earliestLayers_def)
  have "?ord ! p \<in> set ?ord" using assms(2) nth_mem by blast
  then obtain l where "l \<in> set ls" "?ord ! p \<in> set l" by auto
  then obtain k where k: "k < length ls" "?ord ! p \<in> set (ls ! k)" by (auto simp: in_set_conv_nth [of l ls])
  let ?first = "concat (take k ls)"
  have "D (?ord ! p) \<subseteq> set ?first" and out: "?ord ! p \<notin> set ?first" using assms(1) k unfolding earliestLayers_def by blast+
  then have "?ord ! q \<in> set ?first" using assms(4) by blast
  then obtain q' where q': "q' < length ?first" "?first ! q' = ?ord ! q" by (metis in_set_conv_nth)
  have split: "?ord = ?first @ concat (drop k ls)" by (metis append_take_drop_id concat_append)
  then have at_first: "?ord ! i = ?first ! i" if "i < length ?first" for i using that by (metis nth_append)
  have "q' < length ?ord" using q'(1) split by (metis length_append trans_less_add1)
  then have "q = q'" using at_first [OF q'(1)] q'(2) dist assms(3) nth_eq_iff_index_eq by metis
  moreover have "\<not> p < length ?first" using out at_first by (metis nth_mem)
  ultimately show ?thesis using q'(1) by simp
qed

section \<open>A new checkpoint is valid\<close>

lemma count_concat: "count_list (concat xss) d = (\<Sum>xs\<leftarrow>xss. count_list xs d)"
  by (induction xss) auto

lemma count_distinct: "distinct xs \<Longrightarrow> count_list xs d = (if d \<in> set xs then 1 else 0)"
  by (induction xs) auto

lemma sum_list_nth: "(\<Sum>x\<leftarrow>xs. f x) = (\<Sum>i<length xs. f (xs ! i))"
  by (simp add: sum_list_sum_nth atLeast0LessThan)

lemma step_names:
  assumes "dagEdges steps = Inr es" and trimmed: "\<forall>s\<in>set steps. trimSpace (step_Name s) = step_Name s"
  shows "distinct (map step_Name steps)" and "inj_on (\<lambda>j. step_Name (steps ! j)) {..<length steps}"
    and "i < length steps \<Longrightarrow> (\<lambda>j. step_Name (steps ! j)) ` stepDeps steps i = trimSpace ` set (step_DependsOn (steps ! i))"
    and "i < length steps \<Longrightarrow> card (stepDeps steps i) = length (step_DependsOn (steps ! i))"
    and "i < length steps \<Longrightarrow> j < length steps \<Longrightarrow> j \<in> stepDeps steps i \<longleftrightarrow> step_Name (steps ! j) \<in> trimSpace ` set (step_DependsOn (steps ! i))"
proof -
  note spec = dagEdges_spec [OF assms(1)]
  have name: "trimSpace (step_Name (steps ! j)) = step_Name (steps ! j)" if "j < length steps" for j using trimmed that by simp
  have "map (\<lambda>s. trimSpace (step_Name s)) steps = map step_Name steps" using trimmed by simp
  with spec show dist: "distinct (map step_Name steps)" by metis
  show inj: "inj_on (\<lambda>j. step_Name (steps ! j)) {..<length steps}" using dist by (auto simp: inj_on_def distinct_conv_nth)
  show mem: "j \<in> stepDeps steps i \<longleftrightarrow> step_Name (steps ! j) \<in> trimSpace ` set (step_DependsOn (steps ! i))" if "j < length steps" for i j
    using name [OF that] that by (simp add: stepDeps_def)
  show image: "(\<lambda>j. step_Name (steps ! j)) ` stepDeps steps i = trimSpace ` set (step_DependsOn (steps ! i))" if "i < length steps" for i
  proof
    show "(\<lambda>j. step_Name (steps ! j)) ` stepDeps steps i \<subseteq> trimSpace ` set (step_DependsOn (steps ! i))"
      using mem by (auto simp: stepDeps_def)
    show "trimSpace ` set (step_DependsOn (steps ! i)) \<subseteq> (\<lambda>j. step_Name (steps ! j)) ` stepDeps steps i"
    proof
      fix d assume d: "d \<in> trimSpace ` set (step_DependsOn (steps ! i))"
      then have "d \<in> (\<lambda>s. trimSpace (step_Name s)) ` set steps" using spec that by blast
      then obtain j where "j < length steps" "step_Name (steps ! j) = d" using trimmed by (auto simp: in_set_conv_nth)
      then show "d \<in> (\<lambda>j. step_Name (steps ! j)) ` stepDeps steps i" using d mem by blast
    qed
  qed
  show "card (stepDeps steps i) = length (step_DependsOn (steps ! i))" if "i < length steps"
  proof -
    have "stepDeps steps i \<subseteq> {..<length steps}" by (auto simp: stepDeps_def)
    then have "card (stepDeps steps i) = card ((\<lambda>j. step_Name (steps ! j)) ` stepDeps steps i)"
      using inj by (metis card_image inj_on_subset)
    also have "\<dots> = card (set (map trimSpace (step_DependsOn (steps ! i))))" unfolding image [OF that] by simp
    also have "\<dots> = length (step_DependsOn (steps ! i))" using spec that by (metis distinct_card length_map)
    finally show ?thesis .
  qed
qed

lemma nodes_fields:
  "map pnc_Step (map (initialNode t) (pl_Steps (trimDependencies pl))) = map step_Name (pl_Steps pl)"
  "map pnc_DependsOn (map (initialNode t) (pl_Steps (trimDependencies pl))) = map (\<lambda>s. map trimSpace (step_DependsOn s)) (pl_Steps pl)"
  by (simp_all add: initialNode_def trimDependencies_def)

lemma fan_of_steps:
  assumes "dagEdges steps = Inr es" and trimmed: "\<forall>s\<in>set steps. trimSpace (step_Name s) = step_Name s"
  defines "ds \<equiv> concat (map (\<lambda>s. map trimSpace (step_DependsOn s)) steps)"
  shows "int (length ds) = es_edges es" and "fanOK (addFan ds \<lparr>fan_edges = 0, fan_outgoing = (\<lambda>_. 0)\<rparr>)"
proof -
  let ?n = "length steps"
  note spec = dagEdges_spec [OF assms(1)] and names = step_names [OF assms(1) trimmed]
  have len: "length ds = (\<Sum>i<?n. length (step_DependsOn (steps ! i)))"
    by (simp add: ds_def length_concat sum_list_nth o_def)
  have "es_edges es = (\<Sum>i<?n. int (card (stepDeps steps i)))" using spec by (simp add: edgesOf_def)
  also have "\<dots> = (\<Sum>i<?n. int (length (step_DependsOn (steps ! i))))" using names(4) by (intro sum.cong) simp_all
  finally show edges: "int (length ds) = es_edges es" unfolding len by simp
  have "count_list ds d \<le> MaximumPipelineDependencyFan" for d
  proof (cases "\<exists>j<?n. step_Name (steps ! j) = d")
    case True
    then obtain j where j: "j < ?n" "step_Name (steps ! j) = d" by blast
    have "count_list ds d = (\<Sum>i<?n. count_list (map trimSpace (step_DependsOn (steps ! i))) d)"
      by (simp add: ds_def count_concat sum_list_nth o_def)
    also have "\<dots> = (\<Sum>i<?n. if j \<in> stepDeps steps i then 1 else 0)"
    proof (rule sum.cong [OF refl])
      fix i assume "i \<in> {..<?n}"
      then have i: "i < ?n" by simp
      have "distinct (map trimSpace (step_DependsOn (steps ! i)))" using spec i by blast
      from count_distinct [OF this, of d] show "count_list (map trimSpace (step_DependsOn (steps ! i))) d = (if j \<in> stepDeps steps i then 1 else 0)"
        using names(5) [OF i j(1)] j(2) by simp
    qed
    also have "\<dots> = card {i. i < ?n \<and> j \<in> stepDeps steps i}" by (simp add: sum.If_cases lessThan_def Collect_conj_eq [symmetric])
    also have "\<dots> = length (es_children es ! j)" using spec j(1) unfolding edgesOf_def by (metis distinct_card)
    finally show ?thesis using spec j(1) by (simp add: edgeLimits_def edgesOf_def list_all_length)
  next
    case False
    have "d \<notin> set ds"
    proof
      assume "d \<in> set ds"
      then obtain i where "i < ?n" "d \<in> trimSpace ` set (step_DependsOn (steps ! i))" by (auto simp: ds_def in_set_conv_nth [of _ steps])
      then have "d \<in> (\<lambda>j. step_Name (steps ! j)) ` stepDeps steps i" using names(3) by simp
      then show False using False by (auto simp: stepDeps_def)
    qed
    then show ?thesis by simp
  qed
  then show "fanOK (addFan ds \<lparr>fan_edges = 0, fan_outgoing = (\<lambda>_. 0)\<rparr>)"
    using edges spec by (simp add: fanOK_def addFan_def edgeLimits_def)
qed

lemma initial_waitsOK:
  assumes "dagEdges steps = Inr es" and trimmed: "\<forall>s\<in>set steps. trimSpace (step_Name s) = step_Name s" and "i < length steps"
    and m: "\<forall>s. m s \<noteq> None \<longleftrightarrow> s \<in> step_Name ` set steps"
  shows "waitsOK m (initialNode t ((steps ! i)\<lparr>step_DependsOn := map trimSpace (step_DependsOn (steps ! i))\<rparr>))"
proof -
  note spec = dagEdges_spec [OF assms(1)] and names = step_names [OF assms(1) trimmed]
  have "step_Name (steps ! i) \<notin> trimSpace ` set (step_DependsOn (steps ! i))" using spec names(5) assms(3) by blast
  moreover have "trimSpace ` set (step_DependsOn (steps ! i)) \<subseteq> step_Name ` set steps"
  proof -
    have "(\<lambda>s. trimSpace (step_Name s)) ` set steps = step_Name ` set steps" using trimmed by (intro image_cong) simp_all
    then show ?thesis using spec assms(3) by blast
  qed
  moreover have "distinct (map trimSpace (step_DependsOn (steps ! i)))" using spec assms(3) by blast
  ultimately show ?thesis using m
    by (auto simp: waitsOK_def initialNode_def pipelineNodeRequiresCompletedDependencies_def node_states)
qed

lemma new_checkpoint_graphOK:
  assumes "planDAG pl = Inr plan" and trimmed: "\<forall>s\<in>set (pl_Steps pl). trimSpace (step_Name s) = step_Name s" and "t \<noteq> 0"
    and "pgb_Order b = plan_Order plan" and "pgb_EdgeCount b = plan_EdgeCount plan"
  shows "graphOK b (map (initialNode t) (pl_Steps (trimDependencies pl))) \<and> length (pgb_Order b) = length (pl_Steps pl)"
proof -
  let ?steps = "pl_Steps pl" let ?n = "length ?steps" let ?name = "\<lambda>i. step_Name (?steps ! i)"
  let ?nodes = "map (initialNode t) (pl_Steps (trimDependencies pl))"
  from planDAG_edges [OF assms(1)] obtain es ls where es: "dagEdges ?steps = Inr es" and edges: "plan_EdgeCount plan = es_edges es"
    and order: "plan_Order plan = map ?name (concat ls)" and early: "earliestLayers ?n (stepDeps ?steps) ls" and all: "set (concat ls) = {..<?n}"
    by (auto simp: map_concat)
  note spec = dagEdges_spec [OF es] and names = step_names [OF es trimmed] and fan = fan_of_steps [OF es trimmed]
  have nth: "?nodes ! i = initialNode t ((?steps ! i)\<lparr>step_DependsOn := map trimSpace (step_DependsOn (?steps ! i))\<rparr>)" if "i < ?n" for i
    using that by (simp add: trimDependencies_def)
  have len: "length ?nodes = ?n" by (simp add: trimDependencies_def)
  have stepset: "pnc_Step ` set ?nodes = step_Name ` set ?steps" using nodes_fields(1) [of t pl] by (metis list.set_map)
  have dom: "\<forall>s. nodeMap ?nodes s \<noteq> None \<longleftrightarrow> s \<in> step_Name ` set ?steps"
    using stepset by (auto simp: map_of_eq_None_iff image_iff)
  have ordDist: "distinct (concat ls)" using early by (simp add: earliestLayers_def)
  have distOrder: "distinct (plan_Order plan)"
    unfolding order distinct_map using ordDist all names(2) by simp
  have each: "nodeOK n \<and> waitsOK (nodeMap ?nodes) n \<and> (\<forall>d\<in>set (pnc_DependsOn n). orderPosition (pgb_Order b) d < orderPosition (pgb_Order b) (pnc_Step n))"
    if "n \<in> set ?nodes" for n
  proof -
    from that obtain i where i: "i < ?n" "n = ?nodes ! i" by (metis in_set_conv_nth len)
    have n: "n = initialNode t ((?steps ! i)\<lparr>step_DependsOn := map trimSpace (step_DependsOn (?steps ! i))\<rparr>)" using nth i by simp
    have "nodeOK n" using spec i(1) assms(3) trimmed
      by (auto simp: n nodeOK_def initialNode_def validPipelineNodeState_def node_states)
    moreover have "waitsOK (nodeMap ?nodes) n" unfolding n by (rule initial_waitsOK [OF es trimmed i(1) dom])
    moreover have "orderPosition (pgb_Order b) d < orderPosition (pgb_Order b) (pnc_Step n)" if d: "d \<in> set (pnc_DependsOn n)" for d
    proof -
      have "d \<in> ?name ` stepDeps ?steps i" using d names(3) [OF i(1)] by (simp add: n initialNode_def)
      then obtain j where j: "j \<in> stepDeps ?steps i" "j < ?n" "?name j = d" by (auto simp: stepDeps_def)
      obtain p where p: "p < length (concat ls)" "concat ls ! p = i" using all i(1) by (metis in_set_conv_nth lessThan_iff)
      obtain q where q: "q < length (concat ls)" "concat ls ! q = j" using all j(2) by (metis in_set_conv_nth lessThan_iff)
      have "q < p" by (rule layers_position [OF early p(1) q(1)]) (simp add: p(2) q(2) j(1))
      moreover have "plan_Order plan ! p = pnc_Step n" "plan_Order plan ! q = d"
        using p q j(3) by (simp_all add: order n initialNode_def)
      moreover have "p < length (plan_Order plan)" "q < length (plan_Order plan)" using p(1) q(1) by (simp_all add: order)
      ultimately show ?thesis unfolding assms(4) using orderPosition_nth [OF distOrder] by metis
    qed
    ultimately show ?thesis by blast
  qed
  have jobs: "boundJobs ?nodes = []" by (simp add: initialNode_def filter_empty_conv)
  have "set (pgb_Order b) \<subseteq> pnc_Step ` set ?nodes"
  proof
    fix x assume "x \<in> set (pgb_Order b)"
    then obtain i where "i \<in> set (concat ls)" "x = ?name i" unfolding assms(4) order set_map by blast
    then have "i < ?n" "x = ?name i" using all by auto
    then show "x \<in> pnc_Step ` set ?nodes" unfolding stepset by simp
  qed
  moreover have "length (pgb_Order b) = ?n"
    unfolding assms(4) order length_map using distinct_card [OF ordDist] all by (metis card_lessThan)
  moreover have "distinct (map pnc_Step ?nodes)" unfolding nodes_fields using names(1) .
  moreover have "int (length (allDependencies ?nodes)) = pgb_EdgeCount b" unfolding nodes_fields assms(5) edges using fan(1) .
  moreover have "fanOK (addFan (allDependencies ?nodes) \<lparr>fan_edges = 0, fan_outgoing = (\<lambda>_. 0)\<rparr>)" unfolding nodes_fields using fan(2) .
  ultimately show ?thesis unfolding graphOK_def using each distOrder assms(4) jobs by auto
qed

lemma hex_digest: "\<forall>x. length (sha256 L x) = 32 \<Longrightarrow> validSHA256 (hexEncode (sha256 L x))"
  by (simp add: validSHA256_def hexDecodes_hexEncode)

lemma digest_ignores_itself: "pipelineGraphBindingDigest L J (b\<lparr>pgb_GraphSHA256 := x\<rparr>) nodes = pipelineGraphBindingDigest L J b nodes"
  by (simp add: pipelineGraphBindingDigest_def)

lemma new_checkpoint_cases:
  assumes "NewDAGRunCheckpoint L J pl t = Inr (b, nodes)"
  shows "\<exists>plan. PlanPipelineGraph L pl = Inr plan \<and> plan_Mode plan = PipelineModeDAG \<and> t \<noteq> 0 \<and> nodes = map (initialNode t) (pl_Steps (trimDependencies pl))
    \<and> pgb_ContractVersion b = PipelineGraphContractV1 \<and> pgb_Mode b = PipelineModeDAG \<and> pgb_MaxParallel b = pl_MaxParallel pl
    \<and> pgb_ConfigSHA256 b = hexEncode (sha256 L (marshalPipeline J (trimDependencies pl)))
    \<and> pgb_StepCount b = int (length nodes) \<and> pgb_EdgeCount b = plan_EdgeCount plan \<and> pgb_Order b = plan_Order plan
    \<and> pgb_GraphSHA256 b = pipelineGraphBindingDigest L J b nodes"
proof -
  from assms obtain plan binding where "PlanPipelineGraph L pl = Inr plan" "plan_Mode plan = PipelineModeDAG" "t \<noteq> 0"
    and nodes: "nodes = map (initialNode t) (pl_Steps (trimDependencies pl))"
    and binding: "binding = \<lparr>pgb_ContractVersion = PipelineGraphContractV1, pgb_Mode = PipelineModeDAG,
            pgb_ConfigSHA256 = hexEncode (sha256 L (marshalPipeline J (trimDependencies pl))), pgb_GraphSHA256 = [],
            pgb_MaxParallel = pl_MaxParallel (trimDependencies pl), pgb_StepCount = int (length nodes), pgb_EdgeCount = plan_EdgeCount plan,
            pgb_Order = plan_Order plan\<rparr>"
    and b: "b = binding\<lparr>pgb_GraphSHA256 := pipelineGraphBindingDigest L J binding nodes\<rparr>"
    unfolding NewDAGRunCheckpoint_def Let_def bindE_eq_Inr failWhen_eq_Inr by blast
  moreover have "pgb_GraphSHA256 b = pipelineGraphBindingDigest L J b nodes" unfolding b digest_ignores_itself by simp
  moreover have "pl_MaxParallel (trimDependencies pl) = pl_MaxParallel pl" by (simp add: trimDependencies_def)
  ultimately show ?thesis by (intro exI [of _ plan]) simp
qed

lemma linear_mode: "linearLoop steps plan = Inr plan' \<Longrightarrow> plan_Mode plan' = plan_Mode plan"
  by (induction steps arbitrary: plan) (auto simp: result_simps)

lemma plan_mode:
  assumes "PlanPipelineGraph L pl = Inr plan" and "plan_Mode plan = PipelineModeDAG"
  shows "EffectivePipelineMode L pl = PipelineModeDAG"
proof (rule ccontr)
  assume "EffectivePipelineMode L pl \<noteq> PipelineModeDAG"
  with assms(1) have "EffectivePipelineMode L pl = PipelineModeLinear" "plan_Mode plan = PipelineModeLinear"
    by (auto simp: PlanPipelineGraph_def Let_def result_simps dest: linear_mode split: if_splits)
  then show False using assms(2) by (simp add: PipelineModeLinear_def PipelineModeDAG_def)
qed

text \<open>C23: what planning binds, validation accepts. The binding and the checkpoints made from a pipeline
  whose step names carry no surrounding space pass the validation that every later read and write of the
  run applies, whatever the encoder of the digests, as long as a digest has 32 bytes.\<close>

theorem new_checkpoint_validates:
  assumes "NewDAGRunCheckpoint L J pl t = Inr (b, nodes)" and "\<forall>s\<in>set (pl_Steps pl). trimSpace (step_Name s) = step_Name s"
    and "\<forall>x. length (sha256 L x) = 32" and "run_Graph run = Some b" and "run_NodeStates run = nodes"
  shows "validatePipelineRunGraphState L J run = Inr ()"
proof -
  from new_checkpoint_cases [OF assms(1)] obtain plan where plan: "PlanPipelineGraph L pl = Inr plan" "plan_Mode plan = PipelineModeDAG"
    and t: "t \<noteq> 0" and nodes: "nodes = map (initialNode t) (pl_Steps (trimDependencies pl))"
    and b: "pgb_ContractVersion b = PipelineGraphContractV1" "pgb_Mode b = PipelineModeDAG" "pgb_MaxParallel b = pl_MaxParallel pl"
      "pgb_ConfigSHA256 b = hexEncode (sha256 L (marshalPipeline J (trimDependencies pl)))" "pgb_StepCount b = int (length nodes)"
      "pgb_EdgeCount b = plan_EdgeCount plan" "pgb_Order b = plan_Order plan" "pgb_GraphSHA256 b = pipelineGraphBindingDigest L J b nodes" by blast
  have dag: "planDAG pl = Inr plan" "pl_Steps pl \<noteq> []" "1 \<le> pl_MaxParallel pl" "pl_MaxParallel pl \<le> MaximumPipelineParallelism"
    using plan_dag [OF plan(1) plan_mode [OF plan]] by auto
  from new_checkpoint_graphOK [OF dag(1) assms(2) t b(7,6)] have ok: "graphOK b nodes" "length (pgb_Order b) = length nodes"
    by (simp_all add: nodes trimDependencies_def)
  have len: "1 \<le> int (length nodes)" using dag(2) by (cases "pl_Steps pl") (simp_all add: nodes trimDependencies_def)
  have "validSHA256 (pgb_GraphSHA256 b)" unfolding b(8) pipelineGraphBindingDigest_def using hex_digest assms(3) by blast
  then show ?thesis unfolding validate_graph [OF assms(4)] assms(5)
    using b(1,2,4,5) b(8) [symmetric] ok dag(3,4) len hex_digest [OF assms(3)] unfolding b(3) by simp
qed

section \<open>Reading states\<close>

lemma nodeMap_in: "distinct (map pnc_Step nodes) \<Longrightarrow> n \<in> set nodes \<Longrightarrow> nodeMap nodes (pnc_Step n) = Some n"
  by (induction nodes) (auto simp: image_iff)

lemma stateByStep_in:
  assumes "distinct (map pnc_Step nodes)" and "n \<in> set nodes"
  shows "stateByStep nodes (pnc_Step n) = pnc_State n"
proof -
  have other: "fold (\<lambda>node m. m(pnc_Step node := pnc_State node)) xs m s = m s" if "s \<notin> pnc_Step ` set xs" for xs m s
    using that by (induction xs arbitrary: m) auto
  have "fold (\<lambda>node m. m(pnc_Step node := pnc_State node)) nodes m (pnc_Step n) = pnc_State n" for m
    using assms
  proof (induction nodes arbitrary: m)
    case (Cons k nodes)
    show ?case
    proof (cases "n \<in> set nodes")
      case True
      then show ?thesis using Cons by simp
    next
      case False
      then have "k = n" "pnc_Step n \<notin> pnc_Step ` set nodes" using Cons.prems by auto
      then show ?thesis using other [of "pnc_Step n" nodes "m(pnc_Step n := pnc_State n)"] by (simp del: fun_upd_apply) simp
    qed
  qed simp
  then show ?thesis by (simp add: stateByStep_def)
qed

text \<open>The parts of a valid graph checkpoint that the steps of a run rely on.\<close>

lemma valid_graph:
  assumes "validatePipelineRunGraphState L J run = Inr ()" and "run_Graph run = Some b"
  shows "graphOK b (run_NodeStates run)" and "distinct (map pnc_Step (run_NodeStates run))" and "distinct (pgb_Order b)"
    and "set (pgb_Order b) = pnc_Step ` set (run_NodeStates run)" and "1 \<le> pgb_MaxParallel b"
    and "n \<in> set (run_NodeStates run) \<Longrightarrow> nodeOK n \<and> waitsOK (nodeMap (run_NodeStates run)) n"
    and "n \<in> set (run_NodeStates run) \<Longrightarrow> d \<in> set (pnc_DependsOn n) \<Longrightarrow> orderPosition (pgb_Order b) d < orderPosition (pgb_Order b) (pnc_Step n)"
    and "n \<in> set (run_NodeStates run) \<Longrightarrow> d \<in> set (pnc_DependsOn n) \<Longrightarrow> \<exists>k\<in>set (run_NodeStates run). pnc_Step k = d"
proof -
  note v = assms(1) [unfolded validate_graph [OF assms(2)]]
  show ok: "graphOK b (run_NodeStates run)" and par: "1 \<le> pgb_MaxParallel b" using v by auto
  show dist: "distinct (map pnc_Step (run_NodeStates run))" and ord: "distinct (pgb_Order b)" using ok by (auto simp: graphOK_def)
  have "card (pnc_Step ` set (run_NodeStates run)) = card (set (pgb_Order b))"
    using v distinct_card [OF dist] distinct_card [OF ord] by simp
  moreover have "set (pgb_Order b) \<subseteq> pnc_Step ` set (run_NodeStates run)" using ok by (simp add: graphOK_def)
  ultimately show "set (pgb_Order b) = pnc_Step ` set (run_NodeStates run)" by (intro card_subset_eq) simp_all
  show each: "nodeOK n \<and> waitsOK (nodeMap (run_NodeStates run)) n" if "n \<in> set (run_NodeStates run)" for n
    using ok that unfolding graphOK_def by blast
  show "orderPosition (pgb_Order b) d < orderPosition (pgb_Order b) (pnc_Step n)"
    if "n \<in> set (run_NodeStates run)" "d \<in> set (pnc_DependsOn n)" for n d
    using ok that unfolding graphOK_def by blast
  show "\<exists>k\<in>set (run_NodeStates run). pnc_Step k = d" if "n \<in> set (run_NodeStates run)" "d \<in> set (pnc_DependsOn n)" for n d
  proof -
    have "nodeMap (run_NodeStates run) d \<noteq> None" using each [OF that(1)] that(2) by (simp add: waitsOK_def)
    then obtain k where "nodeMap (run_NodeStates run) d = Some k" by blast
    from map_of_SomeD [OF this] show ?thesis by auto
  qed
qed

lemma dependency_state:
  assumes "validatePipelineRunGraphState L J run = Inr ()" and "run_Graph run = Some b"
    and "n \<in> set (run_NodeStates run)" and "d \<in> set (pnc_DependsOn n)"
  shows "dependencyState (nodeMap (run_NodeStates run)) d = stateByStep (run_NodeStates run) d"
proof -
  obtain k where k: "k \<in> set (run_NodeStates run)" "pnc_Step k = d" using valid_graph(8) [OF assms] by blast
  then show ?thesis using nodeMap_in stateByStep_in valid_graph(2) [OF assms(1,2)] by fastforce
qed

lemma ready_state: "pnc_State n = PipelineNodeReady \<Longrightarrow> pipelineNodeRequiresCompletedDependencies (pnc_State n)"
  by (simp add: pipelineNodeRequiresCompletedDependencies_def)

text \<open>C24: the set of steps to admit respects the graph and its width and leaves nothing out. Each step it
  returns is ready, has no job yet and waits only for completed steps; with the steps already active they
  fit the parallelism of the run; and if they leave room, no ready step is missing.\<close>

theorem ready_set_is_exact:
  assumes "dagReadySet L J run = Inr steps" and "run_Graph run = Some b"
  shows "distinct steps \<and> (steps \<noteq> [] \<longrightarrow> int (length steps) + activeNodes (run_NodeStates run) \<le> pgb_MaxParallel b)
    \<and> (\<forall>s\<in>set steps. \<exists>n\<in>set (run_NodeStates run). pnc_Step n = s \<and> pnc_State n = PipelineNodeReady \<and> pnc_JobID n = []
          \<and> (\<forall>d\<in>set (pnc_DependsOn n). stateByStep (run_NodeStates run) d = PipelineNodeCompleted))
    \<and> (int (length steps) + activeNodes (run_NodeStates run) < pgb_MaxParallel b \<longrightarrow>
        (\<forall>n\<in>set (run_NodeStates run). pnc_State n = PipelineNodeReady \<longrightarrow> pnc_Step n \<in> set steps))"
proof -
  let ?nodes = "run_NodeStates run" let ?avail = "pgb_MaxParallel b - activeNodes ?nodes"
  let ?ready = "filter (\<lambda>step. stateByStep ?nodes step = PipelineNodeReady) (pgb_Order b)"
  from assms have valid: "validatePipelineRunGraphState L J run = Inr ()"
    and steps: "steps = (if ?avail \<le> 0 then [] else take (nat ?avail) ?ready)"
    by (auto simp: dagReadySet_def result_simps Let_def split: if_splits)
  note g = valid_graph [OF valid assms(2)]
  have "distinct steps" using g(3) by (simp add: steps)
  moreover have "int (length steps) + activeNodes ?nodes \<le> pgb_MaxParallel b" if "steps \<noteq> []" using that by (auto simp: steps)
  moreover have "\<exists>n\<in>set ?nodes. pnc_Step n = s \<and> pnc_State n = PipelineNodeReady \<and> pnc_JobID n = []
          \<and> (\<forall>d\<in>set (pnc_DependsOn n). stateByStep ?nodes d = PipelineNodeCompleted)" if "s \<in> set steps" for s
  proof -
    have s: "s \<in> set (pgb_Order b)" "stateByStep ?nodes s = PipelineNodeReady"
      using that by (auto simp: steps dest: in_set_takeD split: if_splits)
    obtain n where n: "n \<in> set ?nodes" "pnc_Step n = s" using s(1) g(4) by auto
    have r: "pnc_State n = PipelineNodeReady" using stateByStep_in [OF g(2) n(1)] s(2) n(2) by simp
    note ok = g(6) [OF n(1)]
    have "pnc_JobID n = []" using ok r by (simp add: nodeOK_def)
    moreover have "stateByStep ?nodes d = PipelineNodeCompleted" if "d \<in> set (pnc_DependsOn n)" for d
      using ok ready_state [OF r] dependency_state [OF valid assms(2) n(1) that] that by (simp add: waitsOK_def)
    ultimately show ?thesis using n r by blast
  qed
  moreover have "pnc_Step n \<in> set steps"
    if room: "int (length steps) + activeNodes ?nodes < pgb_MaxParallel b" and "n \<in> set ?nodes" "pnc_State n = PipelineNodeReady" for n
  proof -
    have "pnc_Step n \<in> set ?ready" using that g(4) stateByStep_in [OF g(2)] by auto
    moreover have "steps = ?ready" using room by (auto simp: steps min_def split: if_splits)
    ultimately show ?thesis by simp
  qed
  ultimately show ?thesis by blast
qed

section \<open>Settling the graph\<close>

lemma settleNode_same [simp]:
  "pnc_Step (settleNode t states n) = pnc_Step n" "pnc_DependsOn (settleNode t states n) = pnc_DependsOn n"
  "pnc_JobID (settleNode t states n) = pnc_JobID n"
  by (simp_all add: settleNode_def Let_def)

lemma settleNode_cong:
  assumes "\<forall>d\<in>set (pnc_DependsOn n). states d = states' d"
  shows "settleNode t states n = settleNode t states' n"
proof -
  have "list_all (\<lambda>d. states d = PipelineNodeCompleted) (pnc_DependsOn n) = list_all (\<lambda>d. states' d = PipelineNodeCompleted) (pnc_DependsOn n)"
    "list_ex (\<lambda>d. pipelineNodeBlocksDescendants (states d)) (pnc_DependsOn n) = list_ex (\<lambda>d. pipelineNodeBlocksDescendants (states' d)) (pnc_DependsOn n)"
    using assms by (auto simp: list_all_iff list_ex_iff)
  then show ?thesis by (simp add: settleNode_def)
qed

lemma lastIndex_distinct:
  assumes "distinct (map pnc_Step nodes)" and "k < length nodes"
  shows "lastIndex (pnc_Step (nodes ! k)) nodes = Some k"
proof -
  have "filter (\<lambda>i. pnc_Step (nodes ! i) = pnc_Step (nodes ! k)) [0..<length nodes] = filter (\<lambda>i. i = k) [0..<length nodes]"
    using assms by (intro filter_cong) (auto simp: distinct_conv_nth)
  also have "\<dots> = [k]" using assms(2) by (induction nodes rule: rev_induct) (auto simp: less_Suc_eq filter_empty_conv)
  finally show ?thesis by (simp add: lastIndex_def)
qed

text \<open>The walk leaves every checkpoint as its rule makes it from the final states.\<close>

lemma settleLoop_spec:
  assumes dist: "distinct (map pnc_Step nodes0)" and "distinct (seen @ rest)" and "set (seen @ rest) = pnc_Step ` set nodes0"
    and topo: "\<forall>n\<in>set nodes0. \<forall>d\<in>set (pnc_DependsOn n). orderPosition (seen @ rest) d < orderPosition (seen @ rest) (pnc_Step n)"
    and deps: "\<forall>n\<in>set nodes0. set (pnc_DependsOn n) \<subseteq> pnc_Step ` set nodes0"
    and "length nodes = length nodes0"
    and "\<forall>i<length nodes0. nodes ! i = (if pnc_Step (nodes0 ! i) \<in> set seen then settleNode t states (nodes0 ! i) else nodes0 ! i)"
    and "\<forall>i<length nodes0. states (pnc_Step (nodes0 ! i)) = pnc_State (nodes ! i)"
  shows "\<exists>nodes' changed' states'. settleLoop t rest states nodes changed = Inr (nodes', changed')
    \<and> nodes' = map (settleNode t states') nodes0 \<and> (\<forall>n\<in>set nodes'. states' (pnc_Step n) = pnc_State n)"
  using assms(2-4,6-8)
proof (induction rest arbitrary: seen states nodes changed)
  case Nil
  have "nodes = map (settleNode t states) nodes0"
  proof (rule nth_equalityI)
    fix i assume "i < length nodes"
    then show "nodes ! i = map (settleNode t states) nodes0 ! i" using Nil.prems(2,4,5) by auto
  qed (use Nil.prems(4) in simp)
  moreover have "\<forall>n\<in>set nodes. states (pnc_Step n) = pnc_State n"
    using Nil.prems(4,6) calculation by (auto simp: in_set_conv_nth)
  ultimately show ?case by (intro exI [of _ nodes] exI [of _ changed] exI [of _ states]) simp
next
  case (Cons s rest)
  have "s \<in> pnc_Step ` set nodes0" using Cons.prems(2) by auto
  then obtain n where "n \<in> set nodes0" "pnc_Step n = s" by blast
  then obtain k where k: "k < length nodes0" "pnc_Step (nodes0 ! k) = s" by (metis in_set_conv_nth)
  have s: "s \<notin> set seen" using Cons.prems(1) by simp
  then have nk: "nodes ! k = nodes0 ! k" using Cons.prems(5) k by simp
  have "map pnc_Step nodes = map pnc_Step nodes0"
    using Cons.prems(4,5) by (intro nth_equalityI) auto
  then have ix: "lastIndex s nodes = Some k" using lastIndex_distinct [of nodes k] dist k Cons.prems(4) nk by simp
  define node' where "node' = settleNode t states (nodes0 ! k)"
  define states' where "states' = states(s := pnc_State node')"
  have loop: "\<exists>changed'. settleLoop t (s # rest) states nodes changed = settleLoop t rest states' (nodes[k := node']) changed'"
    unfolding settleLoop.simps ix option.case nk Let_def k(2) states'_def node'_def by blast
  have before: "d \<in> set seen" if i: "i < length nodes0" and placed: "pnc_Step (nodes0 ! i) \<in> set (seen @ [s])" and d: "d \<in> set (pnc_DependsOn (nodes0 ! i))" for i d
  proof -
    let ?ord = "seen @ s # rest"
    have mem: "nodes0 ! i \<in> set nodes0" using i by simp
    then have "d \<in> pnc_Step ` set nodes0" using deps d by blast
    then have "d \<in> set ?ord" unfolding Cons.prems(2) .
    then obtain p where p: "p < length ?ord" "?ord ! p = d" by (metis in_set_conv_nth)
    obtain q where q: "q < length (seen @ [s])" "(seen @ [s]) ! q = pnc_Step (nodes0 ! i)" using placed by (metis in_set_conv_nth)
    then have q': "q < length ?ord" "?ord ! q = pnc_Step (nodes0 ! i)" by (auto simp: nth_append split: if_splits)
    have "orderPosition ?ord d < orderPosition ?ord (pnc_Step (nodes0 ! i))" using Cons.prems(3) mem d by blast
    then have "p < q" using orderPosition_nth [OF Cons.prems(1)] p q' by metis
    then have "p < length seen" using q(1) by simp
    then show ?thesis using p(2) by (auto simp: nth_append)
  qed
  have same: "settleNode t states' (nodes0 ! i) = settleNode t states (nodes0 ! i)" if "i < length nodes0" "pnc_Step (nodes0 ! i) \<in> set (seen @ [s])" for i
    using before [OF that] s by (intro settleNode_cong) (auto simp: states'_def)
  have uniq: "i = k" if "i < length nodes0" "pnc_Step (nodes0 ! i) = s" for i
    using nth_eq_iff_index_eq [OF dist, of i k] that k by simp
  have nodes': "\<forall>i<length nodes0. nodes[k := node'] ! i = (if pnc_Step (nodes0 ! i) \<in> set (seen @ [s]) then settleNode t states' (nodes0 ! i) else nodes0 ! i)"
  proof (intro allI impI)
    fix i assume i: "i < length nodes0"
    show "nodes[k := node'] ! i = (if pnc_Step (nodes0 ! i) \<in> set (seen @ [s]) then settleNode t states' (nodes0 ! i) else nodes0 ! i)"
    proof (cases "i = k")
      case True
      have "settleNode t states' (nodes0 ! k) = node'" using same [of k] k by (simp add: node'_def)
      then show ?thesis using True k Cons.prems(4) by simp
    next
      case False
      then have other: "pnc_Step (nodes0 ! i) \<noteq> s" using uniq [OF i] by blast
      have "nodes[k := node'] ! i = nodes ! i" using False by simp
      then show ?thesis using other same [OF i] Cons.prems(5) i by simp
    qed
  qed
  have st': "\<forall>i<length nodes0. states' (pnc_Step (nodes0 ! i)) = pnc_State (nodes[k := node'] ! i)"
  proof (intro allI impI)
    fix i assume i: "i < length nodes0"
    show "states' (pnc_Step (nodes0 ! i)) = pnc_State (nodes[k := node'] ! i)"
    proof (cases "i = k")
      case True
      then show ?thesis using k Cons.prems(4) by (simp add: states'_def)
    next
      case False
      then have "pnc_Step (nodes0 ! i) \<noteq> s" using uniq [OF i] by blast
      then show ?thesis using False Cons.prems(6) i by (simp add: states'_def)
    qed
  qed
  have "distinct ((seen @ [s]) @ rest)" "set ((seen @ [s]) @ rest) = pnc_Step ` set nodes0"
    "\<forall>n\<in>set nodes0. \<forall>d\<in>set (pnc_DependsOn n). orderPosition ((seen @ [s]) @ rest) d < orderPosition ((seen @ [s]) @ rest) (pnc_Step n)"
    using Cons.prems(1-3) by simp_all
  from Cons.IH [OF this _ nodes' st'] Cons.prems(4) loop show ?case by (metis length_list_update)
qed

text \<open>No step that could move on is left behind: a step that is not ready waits for one that is neither
  completed nor blocking.\<close>

definition settled :: "pipelineNodeCheckpoint list \<Rightarrow> bool" where
  "settled nodes \<longleftrightarrow> (\<forall>n\<in>set nodes. pnc_State n = PipelineNodeNotReady \<longrightarrow>
     (\<exists>d\<in>set (pnc_DependsOn n). stateByStep nodes d \<noteq> PipelineNodeCompleted)
     \<and> (\<forall>d\<in>set (pnc_DependsOn n). \<not> pipelineNodeBlocksDescendants (stateByStep nodes d)))"

lemma settleNode_not_ready:
  assumes "pnc_State (settleNode t states n) = PipelineNodeNotReady"
  shows "(\<exists>d\<in>set (pnc_DependsOn n). states d \<noteq> PipelineNodeCompleted) \<and> (\<forall>d\<in>set (pnc_DependsOn n). \<not> pipelineNodeBlocksDescendants (states d))"
  using assms by (auto simp: settleNode_def Let_def node_states list_all_iff list_ex_iff split: if_splits)

lemma settled_map:
  assumes "nodes' = map (settleNode t states) nodes" and "\<forall>n\<in>set nodes'. states (pnc_Step n) = pnc_State n"
    and "distinct (map pnc_Step nodes)" and "\<forall>n\<in>set nodes. set (pnc_DependsOn n) \<subseteq> pnc_Step ` set nodes"
  shows "settled nodes'"
  unfolding settled_def
proof (intro ballI impI)
  fix n' assume n': "n' \<in> set nodes'" "pnc_State n' = PipelineNodeNotReady"
  have dist: "distinct (map pnc_Step nodes')" using assms(1,3) by (simp add: o_def)
  have steps: "pnc_Step ` set nodes' = pnc_Step ` set nodes" by (auto simp: assms(1) image_iff)
  obtain n where n: "n \<in> set nodes" "n' = settleNode t states n" using n'(1) assms(1) by auto
  have "stateByStep nodes' d = states d" if "d \<in> set (pnc_DependsOn n')" for d
  proof -
    have "d \<in> pnc_Step ` set nodes'" using assms(4) n that unfolding steps by auto
    then obtain k where "k \<in> set nodes'" "pnc_Step k = d" by blast
    then show ?thesis using stateByStep_in [OF dist] assms(2) by metis
  qed
  then show "(\<exists>d\<in>set (pnc_DependsOn n'). stateByStep nodes' d \<noteq> PipelineNodeCompleted)
      \<and> (\<forall>d\<in>set (pnc_DependsOn n'). \<not> pipelineNodeBlocksDescendants (stateByStep nodes' d))"
    using settleNode_not_ready [of t states n] n'(2) n(2) by auto
qed

section \<open>Reconciliation\<close>

definition terminalNodeState :: "string \<Rightarrow> bool" where
  "terminalNodeState state \<longleftrightarrow> state = PipelineNodeCompleted \<or> pipelineNodeBlocksDescendants state"

lemma terminal_target: "dagNodeStateForTerminalJob job = Inr target \<Longrightarrow>
    target \<in> {PipelineNodeCompleted, PipelineNodeCancelled, PipelineNodeAmbiguous, PipelineNodeFailed}"
  by (auto simp: dagNodeStateForTerminalJob_def split: if_splits)

lemma firstIndex_Some: "firstIndex step nodes = Some i \<Longrightarrow> i < length nodes \<and> pnc_Step (nodes ! i) = step"
  by (auto simp: firstIndex_def find_Some_iff)

text \<open>The step of the job, and every other step, before the walk.\<close>

definition reconciled :: "string \<Rightarrow> gotime \<Rightarrow> pipelineNodeCheckpoint \<Rightarrow> pipelineNodeCheckpoint \<Rightarrow> bool" where
  "reconciled target t n n0 \<longleftrightarrow> n0 = n \<or>
     ((pnc_State n = PipelineNodeQueued \<or> pnc_State n = PipelineNodeRunning) \<and> n0 = n\<lparr>pnc_State := target, pnc_UpdatedAt := t\<rparr>)"

lemma terminalCheckpoint_spec:
  assumes "terminalCheckpoint now job target nodes = Inr (nodes0, t)"
  shows "list_all2 (reconciled target t) nodes nodes0 \<and> now \<le> t
    \<and> (\<exists>i<length nodes. pnc_Step (nodes ! i) = job_Step job \<and> pnc_JobID (nodes ! i) = job_ID job \<and> pnc_State (nodes0 ! i) = target)"
proof -
  from assms obtain i where i: "firstIndex (job_Step job) nodes = Some i" by (auto simp: terminalCheckpoint_def split: option.splits)
  from assms have bound: "pnc_JobID (nodes ! i) = job_ID job"
    and from_state: "pnc_State (nodes ! i) = PipelineNodeQueued \<or> pnc_State (nodes ! i) = PipelineNodeRunning \<or> pnc_State (nodes ! i) = target"
    and t: "now \<le> t"
    and nodes0: "nodes0 = (if pnc_State (nodes ! i) \<noteq> target then nodes[i := (nodes ! i)\<lparr>pnc_State := target, pnc_UpdatedAt := t\<rparr>] else nodes)"
    by (auto simp: terminalCheckpoint_def i Let_def result_simps split: if_splits)
  note ix = firstIndex_Some [OF i]
  have "list_all2 (reconciled target t) nodes nodes0"
    unfolding list_all2_conv_all_nth using from_state ix
    by (auto simp: nodes0 reconciled_def nth_list_update)
  moreover have "pnc_State (nodes0 ! i) = target" using ix by (simp add: nodes0)
  ultimately show ?thesis using t ix bound by blast
qed

lemma reconcileRun_cases:
  assumes "reconcileRun now job run b = Inr (updated, changed)"
  shows "\<exists>target nodes0 t. dagNodeStateForTerminalJob job = Inr target \<and> terminalCheckpoint now job target (run_NodeStates run) = Inr (nodes0, t)
    \<and> settleLoop t (pgb_Order b) (stateByStep nodes0) nodes0 [] = Inr (run_NodeStates updated, changed)
    \<and> run_Graph updated = run_Graph run \<and> run_ID updated = run_ID run \<and> run_Status updated = run_Status run"
  using assms by (auto simp: reconcileRun_def bindE_eq_Inr failWhen_eq_Inr split: option.splits)

lemma settleNode_cases:
  "settleNode t states n = n
   \<or> (pnc_State n = PipelineNodeNotReady \<and> settleNode t states n = n\<lparr>pnc_State := PipelineNodeReady, pnc_UpdatedAt := t\<rparr>
        \<and> (\<forall>d\<in>set (pnc_DependsOn n). states d = PipelineNodeCompleted))
   \<or> ((pnc_State n = PipelineNodeNotReady \<or> pnc_State n = PipelineNodeReady)
        \<and> settleNode t states n = n\<lparr>pnc_State := PipelineNodeBlockedByDependency, pnc_UpdatedAt := t\<rparr>
        \<and> (\<exists>d\<in>set (pnc_DependsOn n). pipelineNodeBlocksDescendants (states d)))"
  by (auto simp: settleNode_def Let_def list_all_iff list_ex_iff node_states)

text \<open>From the run before to the run after, step by step.\<close>

lemma reconcileRun_spec:
  assumes rec: "reconcileRun now job run b = Inr (updated, changed)"
    and valid: "validatePipelineRunGraphState L J run = Inr ()" and graph: "run_Graph run = Some b"
  shows "\<exists>target t nodes0 states. now \<le> t \<and> dagNodeStateForTerminalJob job = Inr target
    \<and> list_all2 (reconciled target t) (run_NodeStates run) nodes0 \<and> run_NodeStates updated = map (settleNode t states) nodes0
    \<and> (\<forall>n\<in>set (run_NodeStates updated). states (pnc_Step n) = pnc_State n) \<and> settled (run_NodeStates updated)
    \<and> run_Graph updated = Some b \<and> run_Status updated = run_Status run
    \<and> (\<exists>n\<in>set (run_NodeStates updated). pnc_Step n = job_Step job \<and> pnc_JobID n = job_ID job \<and> pnc_State n = target)"
proof -
  note g = valid_graph [OF valid graph]
  from reconcileRun_cases [OF rec] obtain target nodes0 t where target: "dagNodeStateForTerminalJob job = Inr target"
    and cp: "terminalCheckpoint now job target (run_NodeStates run) = Inr (nodes0, t)"
    and loop: "settleLoop t (pgb_Order b) (stateByStep nodes0) nodes0 [] = Inr (run_NodeStates updated, changed)"
    and same: "run_Graph updated = run_Graph run" "run_Status updated = run_Status run" by blast
  from terminalCheckpoint_spec [OF cp] obtain i where all: "list_all2 (reconciled target t) (run_NodeStates run) nodes0" and t: "now \<le> t"
    and i: "i < length (run_NodeStates run)" "pnc_Step (run_NodeStates run ! i) = job_Step job" "pnc_JobID (run_NodeStates run ! i) = job_ID job"
      "pnc_State (nodes0 ! i) = target" by blast
  have len: "length nodes0 = length (run_NodeStates run)" using all list_all2_lengthD by metis
  have nth: "pnc_Step (nodes0 ! j) = pnc_Step (run_NodeStates run ! j) \<and> pnc_DependsOn (nodes0 ! j) = pnc_DependsOn (run_NodeStates run ! j)
      \<and> pnc_JobID (nodes0 ! j) = pnc_JobID (run_NodeStates run ! j)" if "j < length (run_NodeStates run)" for j
    using list_all2_nthD [OF all that] by (auto simp: reconciled_def)
  have steps: "map pnc_Step nodes0 = map pnc_Step (run_NodeStates run)" using len nth by (intro nth_equalityI) simp_all
  then have stepset: "pnc_Step ` set nodes0 = pnc_Step ` set (run_NodeStates run)" by (metis list.set_map)
  have dist: "distinct (map pnc_Step nodes0)" using g(2) steps by simp
  have node0: "\<exists>n\<in>set (run_NodeStates run). pnc_Step n = pnc_Step n0 \<and> pnc_DependsOn n = pnc_DependsOn n0" if "n0 \<in> set nodes0" for n0
    using that nth len by (metis in_set_conv_nth)
  have topo: "\<forall>n\<in>set nodes0. \<forall>d\<in>set (pnc_DependsOn n). orderPosition ([] @ pgb_Order b) d < orderPosition ([] @ pgb_Order b) (pnc_Step n)"
    using node0 g(7) by (metis append_Nil)
  have deps: "\<forall>n\<in>set nodes0. set (pnc_DependsOn n) \<subseteq> pnc_Step ` set nodes0"
    using node0 g(8) unfolding stepset by (metis (no_types, lifting) imageI subsetI)
  have ord: "distinct ([] @ pgb_Order b)" "set ([] @ pgb_Order b) = pnc_Step ` set nodes0" using g(3,4) stepset by simp_all
  have init: "\<forall>j<length nodes0. nodes0 ! j = (if pnc_Step (nodes0 ! j) \<in> set [] then settleNode t (stateByStep nodes0) (nodes0 ! j) else nodes0 ! j)"
    "\<forall>j<length nodes0. stateByStep nodes0 (pnc_Step (nodes0 ! j)) = pnc_State (nodes0 ! j)"
    using stateByStep_in [OF dist] by simp_all
  from settleLoop_spec [OF dist ord topo deps refl init, where changed = "[]"] obtain out changed' states where
    "settleLoop t (pgb_Order b) (stateByStep nodes0) nodes0 [] = Inr (out, changed')"
    and out: "out = map (settleNode t states) nodes0" "\<forall>n\<in>set out. states (pnc_Step n) = pnc_State n" by blast
  with loop have "out = run_NodeStates updated" by simp
  with out have nodes': "run_NodeStates updated = map (settleNode t states) nodes0"
    and states: "\<forall>n\<in>set (run_NodeStates updated). states (pnc_Step n) = pnc_State n" by simp_all
  have "settled (run_NodeStates updated)" by (rule settled_map [OF nodes' states dist deps])
  moreover have "\<exists>n\<in>set (run_NodeStates updated). pnc_Step n = job_Step job \<and> pnc_JobID n = job_ID job \<and> pnc_State n = target"
  proof -
    have "target \<noteq> PipelineNodeNotReady \<and> target \<noteq> PipelineNodeReady" using terminal_target [OF target] by (auto simp: node_states)
    then have "settleNode t states (nodes0 ! i) = nodes0 ! i" using i(4) by (simp add: settleNode_def)
    then have "nodes0 ! i \<in> set (run_NodeStates updated)" using i(1) len unfolding nodes' by (metis image_eqI list.set_map nth_mem)
    then show ?thesis using i nth [OF i(1)] by auto
  qed
  ultimately show ?thesis using t target all nodes' states same graph by metis
qed

lemma graphOK_update:
  assumes "graphOK b nodes" and "map pnc_Step nodes' = map pnc_Step nodes" and "map pnc_DependsOn nodes' = map pnc_DependsOn nodes"
    and "distinct (boundJobs nodes')" and "\<forall>n\<in>set nodes'. nodeOK n \<and> waitsOK (nodeMap nodes') n"
  shows "graphOK b nodes'"
proof -
  have len: "length nodes' = length nodes" using assms(2) map_eq_imp_length_eq by blast
  have steps: "pnc_Step ` set nodes' = pnc_Step ` set nodes" using assms(2) by (metis list.set_map)
  have nth: "pnc_Step (nodes' ! i) = pnc_Step (nodes ! i)" "pnc_DependsOn (nodes' ! i) = pnc_DependsOn (nodes ! i)" if "i < length nodes" for i
    using assms(2,3) that len by (metis nth_map)+
  have prior: "\<exists>n\<in>set nodes. pnc_Step n = pnc_Step n' \<and> pnc_DependsOn n = pnc_DependsOn n'" if "n' \<in> set nodes'" for n'
    using that nth len by (metis in_set_conv_nth)
  show ?thesis using assms(1,4,5) prior unfolding graphOK_def assms(2,3) steps by (metis (no_types, lifting))
qed

lemma digest_update:
  assumes "map pnc_Step nodes' = map pnc_Step nodes" and "map pnc_DependsOn nodes' = map pnc_DependsOn nodes"
  shows "pipelineGraphBindingDigest L J b nodes' = pipelineGraphBindingDigest L J b nodes"
proof -
  have z: "map (\<lambda>n. (pnc_Step n, pnc_DependsOn n)) xs = zip (map pnc_Step xs) (map pnc_DependsOn xs)" for xs
    by (induction xs) auto
  show ?thesis unfolding pipelineGraphBindingDigest_def z assms ..
qed

lemma validate_update:
  assumes "validatePipelineRunGraphState L J run = Inr ()" and "run_Graph run = Some b" and "run_Graph updated = Some b"
    and "map pnc_Step (run_NodeStates updated) = map pnc_Step (run_NodeStates run)"
    and "map pnc_DependsOn (run_NodeStates updated) = map pnc_DependsOn (run_NodeStates run)"
    and "distinct (boundJobs (run_NodeStates updated))"
    and "\<forall>n\<in>set (run_NodeStates updated). nodeOK n \<and> waitsOK (nodeMap (run_NodeStates updated)) n"
  shows "validatePipelineRunGraphState L J updated = Inr ()"
proof -
  note v = assms(1) [unfolded validate_graph [OF assms(2)]]
  have len: "length (run_NodeStates updated) = length (run_NodeStates run)" using assms(4) map_eq_imp_length_eq by blast
  have "graphOK b (run_NodeStates updated)" by (rule graphOK_update [OF _ assms(4-7)]) (use v in blast)
  then show ?thesis unfolding validate_graph [OF assms(3)] using v digest_update [OF assms(4,5)] len by simp
qed

text \<open>What happens to one checkpoint in a reconciliation.\<close>

definition nodeStep :: "string \<Rightarrow> gotime \<Rightarrow> (string \<Rightarrow> string) \<Rightarrow> pipelineNodeCheckpoint \<Rightarrow> pipelineNodeCheckpoint \<Rightarrow> bool" where
  "nodeStep target t states n n' \<longleftrightarrow>
     n' = n
   \<or> ((pnc_State n = PipelineNodeQueued \<or> pnc_State n = PipelineNodeRunning) \<and> n' = n\<lparr>pnc_State := target, pnc_UpdatedAt := t\<rparr>)
   \<or> (pnc_State n = PipelineNodeNotReady \<and> n' = n\<lparr>pnc_State := PipelineNodeReady, pnc_UpdatedAt := t\<rparr>
        \<and> (\<forall>d\<in>set (pnc_DependsOn n). states d = PipelineNodeCompleted))
   \<or> ((pnc_State n = PipelineNodeNotReady \<or> pnc_State n = PipelineNodeReady)
        \<and> n' = n\<lparr>pnc_State := PipelineNodeBlockedByDependency, pnc_UpdatedAt := t\<rparr>
        \<and> (\<exists>d\<in>set (pnc_DependsOn n). pipelineNodeBlocksDescendants (states d)))"

lemma nodeStep_cases:
  assumes "nodeStep target t states n n'"
  obtains (same) "n' = n"
  | (ended) "pnc_State n = PipelineNodeQueued \<or> pnc_State n = PipelineNodeRunning" and "n' = n\<lparr>pnc_State := target, pnc_UpdatedAt := t\<rparr>"
  | (freed) "pnc_State n = PipelineNodeNotReady" and "n' = n\<lparr>pnc_State := PipelineNodeReady, pnc_UpdatedAt := t\<rparr>"
      and "\<forall>d\<in>set (pnc_DependsOn n). states d = PipelineNodeCompleted"
  | (blocked) "pnc_State n = PipelineNodeNotReady \<or> pnc_State n = PipelineNodeReady"
      and "n' = n\<lparr>pnc_State := PipelineNodeBlockedByDependency, pnc_UpdatedAt := t\<rparr>"
      and "\<exists>d\<in>set (pnc_DependsOn n). pipelineNodeBlocksDescendants (states d)"
  using assms unfolding nodeStep_def by blast

lemma nodeStep_compose:
  assumes "reconciled target t n n0" and "target \<in> {PipelineNodeCompleted, PipelineNodeCancelled, PipelineNodeAmbiguous, PipelineNodeFailed}"
  shows "nodeStep target t states n (settleNode t states n0)"
proof (cases "n0 = n")
  case True
  then show ?thesis using settleNode_cases [of t states n] by (auto simp: nodeStep_def)
next
  case False
  then have n0: "pnc_State n = PipelineNodeQueued \<or> pnc_State n = PipelineNodeRunning" "n0 = n\<lparr>pnc_State := target, pnc_UpdatedAt := t\<rparr>"
    using assms(1) by (auto simp: reconciled_def)
  have "settleNode t states n0 = n0" using assms(2) by (auto simp: settleNode_def n0(2) node_states)
  then show ?thesis using n0 by (simp add: nodeStep_def)
qed

lemma nodeStep_same: "nodeStep target t states n n' \<Longrightarrow> pnc_Step n' = pnc_Step n \<and> pnc_DependsOn n' = pnc_DependsOn n \<and> pnc_JobID n' = pnc_JobID n"
  by (erule nodeStep_cases) simp_all

lemma nodeStep_terminal:
  "nodeStep target t states n n' \<Longrightarrow> pnc_State n = PipelineNodeCompleted \<or> pipelineNodeBlocksDescendants (pnc_State n) \<Longrightarrow> pnc_State n' = pnc_State n"
  by (erule nodeStep_cases) (auto simp: pipelineNodeBlocksDescendants_def)

lemma nodeStep_ok:
  assumes "nodeStep target t states n n'" and "target \<in> {PipelineNodeCompleted, PipelineNodeCancelled, PipelineNodeAmbiguous, PipelineNodeFailed}"
    and "nodeOK n" and "t \<noteq> 0"
  shows "nodeOK n'"
  using assms(1)
proof (cases rule: nodeStep_cases)
  case ended
  then show ?thesis using assms(2-4) by (auto simp: nodeOK_def validPipelineNodeState_def)
qed (use assms(3,4) in \<open>auto simp: nodeOK_def validPipelineNodeState_def\<close>)

lemma nodeStep_allowed:
  assumes "nodeStep target t states n n'" and "target \<in> {PipelineNodeCompleted, PipelineNodeCancelled, PipelineNodeAmbiguous, PipelineNodeFailed}"
    and "pnc_UpdatedAt n \<le> t"
  shows "checkNodeTransition n n' = Inr ()"
  using assms(1)
proof (cases rule: nodeStep_cases)
  case ended
  then show ?thesis using assms(2,3) by (auto simp: checkNodeTransition_def allowedPipelineNodeTransition_def)
qed (use assms(3) in \<open>auto simp: checkNodeTransition_def allowedPipelineNodeTransition_def\<close>)

lemma nodeStep_waits:
  assumes step: "nodeStep target t states n n'" and target: "target \<in> {PipelineNodeCompleted, PipelineNodeCancelled, PipelineNodeAmbiguous, PipelineNodeFailed}"
    and old: "waitsOK m n" and dom: "\<forall>d\<in>set (pnc_DependsOn n). m' d \<noteq> None \<and> dependencyState m' d = states d"
    and kept: "\<forall>d\<in>set (pnc_DependsOn n). dependencyState m d = PipelineNodeCompleted \<or> pipelineNodeBlocksDescendants (dependencyState m d) \<longrightarrow>
        states d = dependencyState m d"
  shows "waitsOK m' n'"
proof -
  have basic: "pnc_Step n' \<notin> set (pnc_DependsOn n')" "\<forall>d\<in>set (pnc_DependsOn n'). m' d \<noteq> None" "distinct (pnc_DependsOn n')"
    using old dom nodeStep_same [OF step] by (auto simp: waitsOK_def)
  have completed: "states d = PipelineNodeCompleted"
    if "pipelineNodeRequiresCompletedDependencies (pnc_State n')" "d \<in> set (pnc_DependsOn n)" for d
    using step
  proof (cases rule: nodeStep_cases)
    case freed
    then show ?thesis using that(2) by blast
  next
    case blocked
    then show ?thesis using that(1) by (simp add: pipelineNodeRequiresCompletedDependencies_def)
  next
    case same
    then show ?thesis using old kept that by (auto simp: waitsOK_def)
  next
    case ended
    then have "pipelineNodeRequiresCompletedDependencies (pnc_State n)" by (auto simp: pipelineNodeRequiresCompletedDependencies_def)
    then show ?thesis using old kept that(2) by (auto simp: waitsOK_def)
  qed
  have blocking: "\<exists>d\<in>set (pnc_DependsOn n). pipelineNodeBlocksDescendants (states d)" if "pnc_State n' = PipelineNodeBlockedByDependency"
    using step
  proof (cases rule: nodeStep_cases)
    case same
    then obtain d where "d \<in> set (pnc_DependsOn n)" "pipelineNodeBlocksDescendants (dependencyState m d)"
      using old \<open>pnc_State n' = PipelineNodeBlockedByDependency\<close> by (auto simp: waitsOK_def)
    then show ?thesis using kept by metis
  next
    case ended
    then show ?thesis using target \<open>pnc_State n' = PipelineNodeBlockedByDependency\<close> by auto
  next
    case freed
    then show ?thesis using \<open>pnc_State n' = PipelineNodeBlockedByDependency\<close> by simp
  qed
  show ?thesis using basic completed blocking dom nodeStep_same [OF step] by (auto simp: waitsOK_def)
qed

lemma transitionLoop_all:
  "list_all2 (\<lambda>n n'. checkNodeTransition n n' = Inr ()) ns ns' \<Longrightarrow> transitionLoop ns ns' = Inr ()"
  by (induction rule: list_all2_induct) simp_all

lemma reconcile_nodeSteps:
  assumes "reconcileRun now job run b = Inr (updated, changed)" and "validatePipelineRunGraphState L J run = Inr ()" and "run_Graph run = Some b"
  obtains target t states where "now \<le> t"
    and "target \<in> {PipelineNodeCompleted, PipelineNodeCancelled, PipelineNodeAmbiguous, PipelineNodeFailed}"
    and "list_all2 (nodeStep target t states) (run_NodeStates run) (run_NodeStates updated)"
    and "\<forall>n\<in>set (run_NodeStates updated). states (pnc_Step n) = pnc_State n"
    and "settled (run_NodeStates updated)" and "run_Graph updated = Some b"
proof -
  from reconcileRun_spec [OF assms] obtain target t nodes0 states where t: "now \<le> t" and job: "dagNodeStateForTerminalJob job = Inr target"
    and all: "list_all2 (reconciled target t) (run_NodeStates run) nodes0" and out: "run_NodeStates updated = map (settleNode t states) nodes0"
    and rest: "\<forall>n\<in>set (run_NodeStates updated). states (pnc_Step n) = pnc_State n" "settled (run_NodeStates updated)" "run_Graph updated = Some b"
    by blast
  have target: "target \<in> {PipelineNodeCompleted, PipelineNodeCancelled, PipelineNodeAmbiguous, PipelineNodeFailed}" by (rule terminal_target [OF job])
  have "list_all2 (nodeStep target t states) (run_NodeStates run) (run_NodeStates updated)"
    unfolding out list_all2_map2 using all by (rule list_all2_mono) (rule nodeStep_compose [OF _ target])
  then show ?thesis using that t target rest by blast
qed

lemma nodeSteps_fields:
  assumes "list_all2 (nodeStep target t states) ns ns'"
  shows "map pnc_Step ns' = map pnc_Step ns" "map pnc_DependsOn ns' = map pnc_DependsOn ns" "map pnc_JobID ns' = map pnc_JobID ns"
  using assms by (induction rule: list_all2_induct) (auto dest: nodeStep_same)

lemma list_all2_mem:
  assumes "list_all2 P xs ys"
  shows "y \<in> set ys \<Longrightarrow> \<exists>x\<in>set xs. P x y" and "x \<in> set xs \<Longrightarrow> \<exists>y\<in>set ys. P x y"
  using assms by (induction rule: list_all2_induct) auto

text \<open>Steps of a reconciliation leave every node well formed and in agreement with its dependencies.\<close>

lemma nodeSteps_each:
  assumes valid: "validatePipelineRunGraphState L J run = Inr ()" "run_Graph run = Some b" and "0 < t"
    and target: "target \<in> {PipelineNodeCompleted, PipelineNodeCancelled, PipelineNodeAmbiguous, PipelineNodeFailed}"
    and all: "list_all2 (nodeStep target t states) (run_NodeStates run) (run_NodeStates updated)"
    and states: "\<forall>n\<in>set (run_NodeStates updated). states (pnc_Step n) = pnc_State n"
    and n': "n' \<in> set (run_NodeStates updated)"
  shows "nodeOK n' \<and> waitsOK (nodeMap (run_NodeStates updated)) n'"
proof -
  note g = valid_graph [OF valid] and fields = nodeSteps_fields [OF all] and pair = list_all2_mem [OF all]
  have stepset: "pnc_Step ` set (run_NodeStates updated) = pnc_Step ` set (run_NodeStates run)" using fields(1) by (metis list.set_map)
  have dist: "distinct (map pnc_Step (run_NodeStates updated))" using g(2) fields(1) by simp
  obtain n where n: "n \<in> set (run_NodeStates run)" and step: "nodeStep target t states n n'" using pair(1) [OF n'] by blast
  have "nodeOK n'" using nodeStep_ok [OF step target] g(6) [OF n] assms(3) by simp
  moreover have "waitsOK (nodeMap (run_NodeStates updated)) n'"
  proof (rule nodeStep_waits [OF step target])
    show "waitsOK (nodeMap (run_NodeStates run)) n" using g(6) [OF n] by simp
    show "\<forall>d\<in>set (pnc_DependsOn n). nodeMap (run_NodeStates updated) d \<noteq> None \<and> dependencyState (nodeMap (run_NodeStates updated)) d = states d"
    proof
      fix d assume "d \<in> set (pnc_DependsOn n)"
      then have "d \<in> pnc_Step ` set (run_NodeStates updated)" using g(8) [OF n] unfolding stepset by blast
      then obtain k' where k': "k' \<in> set (run_NodeStates updated)" "pnc_Step k' = d" by blast
      then show "nodeMap (run_NodeStates updated) d \<noteq> None \<and> dependencyState (nodeMap (run_NodeStates updated)) d = states d"
        using nodeMap_in [OF dist k'(1)] states by force
    qed
    show "\<forall>d\<in>set (pnc_DependsOn n). dependencyState (nodeMap (run_NodeStates run)) d = PipelineNodeCompleted
        \<or> pipelineNodeBlocksDescendants (dependencyState (nodeMap (run_NodeStates run)) d) \<longrightarrow>
        states d = dependencyState (nodeMap (run_NodeStates run)) d"
    proof (intro ballI impI)
      fix d assume d: "d \<in> set (pnc_DependsOn n)" and ended: "dependencyState (nodeMap (run_NodeStates run)) d = PipelineNodeCompleted
        \<or> pipelineNodeBlocksDescendants (dependencyState (nodeMap (run_NodeStates run)) d)"
      obtain k where k: "k \<in> set (run_NodeStates run)" "pnc_Step k = d" using g(8) [OF n d] by blast
      then have old: "dependencyState (nodeMap (run_NodeStates run)) d = pnc_State k" using nodeMap_in [OF g(2) k(1)] by simp
      obtain k' where k': "k' \<in> set (run_NodeStates updated)" "nodeStep target t states k k'" using pair(2) [OF k(1)] by blast
      then have "pnc_State k' = pnc_State k" using nodeStep_terminal [OF k'(2)] ended old by simp
      then show "states d = dependencyState (nodeMap (run_NodeStates run)) d"
        using states k' nodeStep_same [OF k'(2)] k(2) old by metis
    qed
  qed
  ultimately show ?thesis ..
qed

text \<open>C25: a terminal child is always absorbed. Unless a clock ran backwards past a checkpoint, the run that
  reconciliation computes from a valid run passes the validation and the transition check it is put
  through, so the update is not refused; the step of the job takes the state of the job, and no step that
  could move on is left behind.\<close>

theorem reconcile_is_accepted:
  assumes "validatePipelineRunGraphState L J run = Inr ()" and "run_Graph run = Some b"
    and "reconcileRun now job run b = Inr (updated, changed)" and "0 < now" and "\<forall>n\<in>set (run_NodeStates run). pnc_UpdatedAt n \<le> now"
  shows "validatePipelineRunGraphState L J updated = Inr () \<and> validatePipelineRunGraphTransition run updated = Inr ()
    \<and> settled (run_NodeStates updated)
    \<and> (\<exists>n\<in>set (run_NodeStates updated). pnc_Step n = job_Step job \<and> dagNodeStateForTerminalJob job = Inr (pnc_State n))"
proof -
  obtain target t states where t: "now \<le> t"
    and target: "target \<in> {PipelineNodeCompleted, PipelineNodeCancelled, PipelineNodeAmbiguous, PipelineNodeFailed}"
    and all: "list_all2 (nodeStep target t states) (run_NodeStates run) (run_NodeStates updated)"
    and states: "\<forall>n\<in>set (run_NodeStates updated). states (pnc_Step n) = pnc_State n"
    and settled: "settled (run_NodeStates updated)" and graph: "run_Graph updated = Some b"
    by (rule reconcile_nodeSteps [OF assms(3,1,2)])
  note g = valid_graph [OF assms(1,2)] and fields = nodeSteps_fields [OF all]
  have "distinct (boundJobs (run_NodeStates updated))" using g(1) unfolding fields(3) graphOK_def by blast
  then have "validatePipelineRunGraphState L J updated = Inr ()"
    using validate_update [OF assms(1,2) graph fields(1,2)] nodeSteps_each [OF assms(1,2) _ target all states] t assms(4) by simp
  moreover have "list_all2 (\<lambda>n n'. checkNodeTransition n n' = Inr ()) (run_NodeStates run) (run_NodeStates updated)"
  proof (rule list_all2_all_nthI)
    show "length (run_NodeStates run) = length (run_NodeStates updated)" using all list_all2_lengthD by blast
    fix i assume i: "i < length (run_NodeStates run)"
    then have "pnc_UpdatedAt (run_NodeStates run ! i) \<le> t" using assms(5) t nth_mem by fastforce
    then show "checkNodeTransition (run_NodeStates run ! i) (run_NodeStates updated ! i) = Inr ()"
      using nodeStep_allowed [OF _ target] list_all2_nthD [OF all i] by blast
  qed
  then have "validatePipelineRunGraphTransition run updated = Inr ()"
    using transitionLoop_all graph assms(2) list_all2_lengthD [OF all] by (simp add: validatePipelineRunGraphTransition_def)
  moreover have "\<exists>n\<in>set (run_NodeStates updated). pnc_Step n = job_Step job \<and> dagNodeStateForTerminalJob job = Inr (pnc_State n)"
    using reconcileRun_spec [OF assms(3,1,2)] by blast
  ultimately show ?thesis using settled by blast
qed

section \<open>Witnesses\<close>

definition plainJSON :: jsonCodec where
  "plainJSON = \<lparr>marshalPipeline = (\<lambda>_. []), marshalGraph = (\<lambda>_ _. [])\<rparr>"

definition plainDigest :: string where "plainDigest = hexEncode (replicate 32 (CHR ''0''))"

definition sampleBinding :: pipelineGraphBinding where
  "sampleBinding = \<lparr>pgb_ContractVersion = PipelineGraphContractV1, pgb_Mode = PipelineModeDAG, pgb_ConfigSHA256 = plainDigest,
     pgb_GraphSHA256 = plainDigest, pgb_MaxParallel = 2, pgb_StepCount = 2, pgb_EdgeCount = 1, pgb_Order = [''a'', ''b'']\<rparr>"

definition sampleNode :: "string \<Rightarrow> string list \<Rightarrow> string \<Rightarrow> string \<Rightarrow> pipelineNodeCheckpoint" where
  "sampleNode name deps state jobID = \<lparr>pnc_Step = name, pnc_DependsOn = deps, pnc_State = state, pnc_JobID = jobID, pnc_UpdatedAt = 5\<rparr>"

definition sampleRun :: pipelineRun where
  "sampleRun = \<lparr>run_ID = ''run-1'', run_Pipeline = ''p'', run_OwnerSubject = ''alice'', run_TenantID = [], run_ProducerLimits = zeroLimits,
     run_Status = ''running'', run_Input = [], run_Output = [], run_Steps = [], run_Usage = zeroUsage, run_Error = [],
     run_Graph = Some sampleBinding,
     run_NodeStates = [sampleNode ''b'' [''a''] PipelineNodeNotReady [], sampleNode ''a'' [] PipelineNodeReady []],
     run_CreatedAt = 5, run_FinishedAt = 0\<rparr>"

lemma sampleRun_fields [simp]:
  "run_ID sampleRun = ''run-1''" "run_Pipeline sampleRun = ''p''" "run_OwnerSubject sampleRun = ''alice''" "run_TenantID sampleRun = []"
  "run_Status sampleRun = ''running''" "run_Steps sampleRun = []" "run_Graph sampleRun = Some sampleBinding"
  "run_NodeStates sampleRun = [sampleNode ''b'' [''a''] PipelineNodeNotReady [], sampleNode ''a'' [] PipelineNodeReady []]"
  by (simp_all add: sampleRun_def)

lemma sampleNode_fields [simp]:
  "pnc_Step (sampleNode name deps state j) = name" "pnc_DependsOn (sampleNode name deps state j) = deps"
  "pnc_State (sampleNode name deps state j) = state" "pnc_JobID (sampleNode name deps state j) = j" "pnc_UpdatedAt (sampleNode name deps state j) = 5"
  by (simp_all add: sampleNode_def)

lemma plain_sha [simp]: "sha256 plainLib x = replicate 32 (CHR ''0'')" by (simp add: plainLib_def)

lemma sample_names: "\<forall>s\<in>set (pl_Steps samplePipeline). trimSpace (step_Name s) = step_Name s"
  by (simp add: samplePipeline_def sampleStep_def trimSpace_word)

lemma sample_checkpoint: "NewDAGRunCheckpoint plainLib plainJSON samplePipeline 5 = Inr (sampleBinding, run_NodeStates sampleRun)"
  using sample_plan
  by (simp add: NewDAGRunCheckpoint_def Let_def trimDependencies_def pipelineGraphBindingDigest_def plainDigest_def sampleBinding_def)
    (simp add: samplePipeline_def sampleStep_def initialNode_def sampleNode_def trimSpace_word)

theorem new_checkpoint_validates_witness: "validatePipelineRunGraphState plainLib plainJSON sampleRun = Inr ()"
  by (rule new_checkpoint_validates [OF sample_checkpoint sample_names]) simp_all

lemma sample_valid: "validatePipelineRunGraphState plainLib plainJSON sampleRun = Inr ()"
proof -
  have "validSHA256 plainDigest" using hex_digest [of plainLib] by (simp add: plainDigest_def)
  moreover have "graphOK sampleBinding (run_NodeStates sampleRun)"
    by (simp add: graphOK_def sampleBinding_def nodeOK_def waitsOK_def fanOK_def addFan_def positionOf_def trimSpace_word validPipelineNodeState_def
      MaximumPipelineDependencyFan_def MaximumPipelineDependencyEdges_def pipelineNodeRequiresCompletedDependencies_def)
  ultimately show ?thesis
    by (subst validate_graph [where b = sampleBinding])
      (simp_all add: sampleBinding_def MaximumPipelineParallelism_def pipelineGraphBindingDigest_def plainDigest_def)
qed

theorem ready_set_is_exact_witness:
  "dagReadySet plainLib plainJSON sampleRun = Inr [''a'']
   \<and> (\<exists>n\<in>set (run_NodeStates sampleRun). pnc_Step n = ''a'' \<and> pnc_State n = PipelineNodeReady)"
proof -
  have set: "dagReadySet plainLib plainJSON sampleRun = Inr [''a'']"
    by (simp add: dagReadySet_def sample_valid) (simp add: sampleBinding_def Let_def activeNodes_def activeNode_def stateByStep_def)
  from ready_set_is_exact [OF this, of sampleBinding] set show ?thesis by auto
qed

definition admittedRun :: "job \<Rightarrow> gotime \<Rightarrow> pipelineRun" where
  "admittedRun job t = sampleRun\<lparr>run_NodeStates := [sampleNode ''b'' [''a''] PipelineNodeNotReady [],
       (sampleNode ''a'' [] PipelineNodeQueued (job_ID job))\<lparr>pnc_UpdatedAt := t\<rparr>],
     run_Steps := [job]\<rparr>"

lemma admitted_valid:
  assumes "validJobID (job_ID job)" and "t \<noteq> 0"
  shows "validatePipelineRunGraphState plainLib plainJSON (admittedRun job t) = Inr ()"
proof (rule validate_update [OF sample_valid, of sampleBinding])
  have "job_ID job \<noteq> []" using assms by (auto simp: validJobID_def)
  then show "distinct (boundJobs (run_NodeStates (admittedRun job t)))" by (simp add: admittedRun_def)
  show "\<forall>n\<in>set (run_NodeStates (admittedRun job t)). nodeOK n \<and> waitsOK (nodeMap (run_NodeStates (admittedRun job t))) n"
    using assms by (simp add: admittedRun_def nodeOK_def waitsOK_def trimSpace_word validPipelineNodeState_def
      MaximumPipelineDependencyFan_def pipelineNodeRequiresCompletedDependencies_def)
qed (simp_all add: admittedRun_def)

definition endedSample :: job where
  "endedSample = zeroJob\<lparr>job_ID := ''job-a'', job_OwnerSubject := ''alice'', job_Pipeline := ''p'', job_Step := ''a'', job_ParentID := ''run-1'',
     job_Status := JobCompleted, job_UpdatedAt := 7\<rparr>"

theorem reconcile_is_accepted_witness:
  "\<exists>updated changed. reconcileRun 8 endedSample (admittedRun endedSample 5) sampleBinding = Inr (updated, changed)
     \<and> validatePipelineRunGraphState plainLib plainJSON updated = Inr () \<and> dagReadySet plainLib plainJSON updated = Inr [''b'']"
proof -
  let ?updated = "(admittedRun endedSample 5)\<lparr>run_NodeStates := [(sampleNode ''b'' [''a''] PipelineNodeReady [])\<lparr>pnc_UpdatedAt := 8\<rparr>,
      (sampleNode ''a'' [] PipelineNodeCompleted ''job-a'')\<lparr>pnc_UpdatedAt := 8\<rparr>]\<rparr>"
  have job: "job_ID endedSample = ''job-a''" "job_Step endedSample = ''a''" "job_Status endedSample = JobCompleted" "job_ParentID endedSample = ''run-1''"
    "job_Pipeline endedSample = ''p''" "job_OwnerSubject endedSample = ''alice''" "job_TenantID endedSample = []" "job_UpdatedAt endedSample = 7"
    by (simp_all add: endedSample_def zeroJob_def)
  have fin: "dagNodeStateForTerminalJob endedSample = Inr PipelineNodeCompleted" by (simp add: dagNodeStateForTerminalJob_def job)
  have cp: "terminalCheckpoint 8 endedSample PipelineNodeCompleted (run_NodeStates (admittedRun endedSample 5)) =
      Inr ([sampleNode ''b'' [''a''] PipelineNodeNotReady [], (sampleNode ''a'' [] PipelineNodeCompleted ''job-a'')\<lparr>pnc_UpdatedAt := 8\<rparr>], 8)"
    by (simp add: terminalCheckpoint_def firstIndex_def upt_conv_Cons job admittedRun_def Let_def del: upt_Suc)
  have rec: "reconcileRun 8 endedSample (admittedRun endedSample 5) sampleBinding = Inr (?updated, [0])"
    unfolding reconcileRun_def fin bindE_Inr cp
    by (simp add: job admittedRun_def replaceStep_def trimSpace_word) (simp add: sampleBinding_def lastIndex_def upt_conv_Cons
      settleNode_def stateByStep_def Let_def pipelineNodeBlocksDescendants_def del: upt_Suc)
  have "validJobID (job_ID endedSample)" unfolding job by code_simp
  from reconcile_is_accepted [OF admitted_valid [OF this, of 5] _ rec] have valid: "validatePipelineRunGraphState plainLib plainJSON ?updated = Inr ()"
    by (simp add: admittedRun_def)
  then have "dagReadySet plainLib plainJSON ?updated = Inr [''b'']"
    by (simp add: dagReadySet_def) (simp add: admittedRun_def sampleBinding_def Let_def activeNodes_def activeNode_def stateByStep_def)
  with rec valid show ?thesis by blast
qed

end
