(* ===== verification/Graph_Execution.thy ===== *)
theory Graph_Execution
  imports Pipeline_Runs
begin

text \<open>
  Graph runs as they move through the store: admitted by \<open>CreatePipelineRunAdmitted\<close>, advanced by
  \<open>CreateDAGChildJobAdmittedGoverned\<close> and \<open>ReconcileDAGChildTerminal\<close>. The reachable runs
  are an inductive predicate over these calls; rule induction shows that they stay valid, never exceed
  their parallelism and never stall.
\<close>

section \<open>Admission of a child\<close>

lemma persistRun_fields [simp]:
  "run_Graph (persistRun run) = run_Graph run" "run_NodeStates (persistRun run) = run_NodeStates run"
  "run_Status (persistRun run) = run_Status run" "run_ID (persistRun run) = run_ID run"
  by (simp_all add: persistRun_def)

lemma validate_persist: "validatePipelineRunGraphState L J (persistRun run) = validatePipelineRunGraphState L J run"
  unfolding validatePipelineRunGraphState_def persistRun_fields ..

lemma lastIndex_Some: "lastIndex step nodes = Some i \<Longrightarrow> i < length nodes \<and> pnc_Step (nodes ! i) = step"
proof -
  assume "lastIndex step nodes = Some i"
  then have "i \<in> set (filter (\<lambda>i. pnc_Step (nodes ! i) = step) [0..<length nodes])"
    by (auto simp: lastIndex_def simp del: set_filter split: list.splits intro: last_in_set)
  then show ?thesis by simp
qed

lemma childAdmissible_spec:
  assumes "childAdmissible step job run b = Inr i"
  shows "i < length (run_NodeStates run) \<and> pnc_Step (run_NodeStates run ! i) = step \<and> pnc_State (run_NodeStates run ! i) = PipelineNodeReady
    \<and> pnc_JobID (run_NodeStates run ! i) = [] \<and> activeNodes (run_NodeStates run) < pgb_MaxParallel b
    \<and> job_ParentID job = run_ID run \<and> job_Step job = step"
  using assms by (auto simp: childAdmissible_def result_simps dest: lastIndex_Some split: option.splits)

lemma createChild_spec:
  assumes "createDAGChildTx L J now runID step job maxQueued limits st = Inr ((updated, job'), st')"
  shows "\<exists>run b i mid. getJSON (st_pipelineRuns st) runID = Inr run \<and> run_Graph run = Some b \<and> run_Status run = ''running''
    \<and> validatePipelineRunGraphState L J run = Inr () \<and> childAdmissible step job run b = Inr i
    \<and> admitPreparedJobTx L job maxQueued limits [] [] now st = Inr ((job', False), mid)
    \<and> updated = run\<lparr>run_NodeStates := admitNode PipelineNodeQueued (job_ID job') now i (run_NodeStates run), run_Steps := run_Steps run @ [job']\<rparr>
    \<and> validatePipelineRunGraphState L J updated = Inr () \<and> st' = putRun (run_ID updated) updated mid"
  using assms unfolding createDAGChildTx_def saveGraphRun_def
  by (auto simp: bindE_eq_Inr failWhen_eq_Inr Let_def split: option.splits)

lemma create_child_spec:
  assumes "CreateDAGChildJobAdmittedGoverned L J raw now runID step request maxQueued limits st = (Inr (updated, job'), st')"
  shows "\<exists>job. prepareJob L raw request [] [] now = Inr job \<and> createDAGChildTx L J now runID step job maxQueued limits st = Inr ((updated, job'), st')"
  using assms by (auto simp: CreateDAGChildJobAdmittedGoverned_def update_Inr split: sum.splits)

text \<open>C13: a step and its job are admitted together. After a successful admission the stored run shows the
  step queued under the new job, all its dependencies completed and the parallelism of the graph kept,
  and the same commit holds the job, filed and in the queue.\<close>

theorem child_admission_is_atomic:
  assumes "CreateDAGChildJobAdmittedGoverned L J raw now runID step request maxQueued limits st = (Inr (updated, job), st')"
    and "storeInv st" and "\<And>bytes. raw = Inr bytes \<Longrightarrow> length bytes = 16"
  shows "\<exists>b n. bget (st_pipelineRuns st') (run_ID updated) = Some (Val (persistRun updated)) \<and> run_Graph updated = Some b
    \<and> n \<in> set (run_NodeStates updated) \<and> pnc_Step n = step \<and> pnc_State n = PipelineNodeQueued \<and> pnc_JobID n = job_ID job
    \<and> (\<forall>d\<in>set (pnc_DependsOn n). stateByStep (run_NodeStates updated) d = PipelineNodeCompleted)
    \<and> bget (st_jobs st') (job_ID job) = Some (Val (persistJob job)) \<and> job_ParentID job = run_ID updated
    \<and> queuedEntry st' (job_ID job) = Some (queueKey job, queueEntryOf job)"
proof -
  from create_child_spec [OF assms(1)] obtain prepared where prep: "prepareJob L raw request [] [] now = Inr prepared"
    and tx: "createDAGChildTx L J now runID step prepared maxQueued limits st = Inr ((updated, job), st')" by blast
  from createChild_spec [OF tx] obtain run b i mid where graph: "run_Graph run = Some b" and adm: "childAdmissible step prepared run b = Inr i"
    and admit: "admitPreparedJobTx L prepared maxQueued limits [] [] now st = Inr ((job, False), mid)"
    and updated: "updated = run\<lparr>run_NodeStates := admitNode PipelineNodeQueued (job_ID job) now i (run_NodeStates run), run_Steps := run_Steps run @ [job]\<rparr>"
    and valid: "validatePipelineRunGraphState L J updated = Inr ()" and st': "st' = putRun (run_ID updated) updated mid" by blast
  note a = childAdmissible_spec [OF adm]
  from admit_new [OF admit] obtain s1 where job: "job = prepared"
    and rate: "consumeProducerRateLimitTx (job_OwnerSubject prepared) (lim_MaxJobsPerHour limits) now st = Inr s1"
    and filed: "fileNewJobTx L prepared (job_OwnerSubject prepared) [] [] now s1 = Inr mid" by blast
  note wf = prepared_wf [OF prep assms(3)]
  have "storeInv s1" using assms(2) rate_same [OF rate] storeInv_frame by blast
  from fileNewJobTx_inv [OF this _ _ filed] wf have jobs: "bget (st_jobs mid) (job_ID job) = Some (Val (persistJob job))"
    and q: "queuedEntry mid (job_ID job) = Some (queueKey job, queueEntryOf job)" by (auto simp: job bucket_simps)
  let ?n = "run_NodeStates updated ! i"
  have n: "?n \<in> set (run_NodeStates updated)" "pnc_Step ?n = step" "pnc_State ?n = PipelineNodeQueued" "pnc_JobID ?n = job_ID job"
    using a by (simp_all add: updated admitNode_def set_update_memI)
  have graph': "run_Graph updated = Some b" using graph by (simp add: updated)
  have "stateByStep (run_NodeStates updated) d = PipelineNodeCompleted" if "d \<in> set (pnc_DependsOn ?n)" for d
    using valid_graph(6) [OF valid graph' n(1)] dependency_state [OF valid graph' n(1) that] n(3) that
    by (simp add: waitsOK_def pipelineNodeRequiresCompletedDependencies_def)
  moreover have same: "sameJobs mid st'" by (simp add: st' putRun_def sameJobs_def)
  moreover have "st_jobs st' = st_jobs mid" "queuedEntry st' (job_ID job) = queuedEntry mid (job_ID job)"
    using same sameJobs_queued [OF same] by (simp_all add: sameJobs_def)
  moreover have "bget (st_pipelineRuns st') (run_ID updated) = Some (Val (persistRun updated))" by (simp add: st' putRun_def bucket_simps)
  moreover have "job_ParentID job = run_ID updated" using a by (simp add: job updated)
  ultimately show ?thesis using n jobs q graph' by metis
qed

section \<open>Invariants of a run\<close>

definition dagInv :: "goLib \<Rightarrow> jsonCodec \<Rightarrow> pipelineRun \<Rightarrow> bool" where
  "dagInv L J run \<longleftrightarrow> (\<exists>b. run_Graph run = Some b \<and> validatePipelineRunGraphState L J run = Inr ()
     \<and> settled (run_NodeStates run) \<and> activeNodes (run_NodeStates run) \<le> pgb_MaxParallel b)"

lemma dagInv_persist: "dagInv L J (persistRun run) \<longleftrightarrow> dagInv L J run"
  by (simp add: dagInv_def validate_persist)

lemma active_admit:
  assumes "i < length nodes" and "\<not> activeNode (nodes ! i)" and "activeNode n"
  shows "activeNodes (nodes[i := n]) = activeNodes nodes + 1"
proof -
  have "nodes[i := n] = take i nodes @ n # drop (Suc i) nodes" using assms(1) by (rule upd_conv_take_nth_drop)
  moreover have "activeNodes nodes = activeNodes (take i nodes @ nodes ! i # drop (Suc i) nodes)" using id_take_nth_drop [OF assms(1)] by simp
  ultimately show ?thesis using assms(2,3) by (simp add: activeNodes_def)
qed

lemma settled_admit:
  assumes "settled nodes" and "distinct (map pnc_Step nodes)" and "i < length nodes" and "pnc_State (nodes ! i) = PipelineNodeReady"
    and "\<forall>n\<in>set nodes. \<forall>d\<in>set (pnc_DependsOn n). \<exists>k\<in>set nodes. pnc_Step k = d"
  shows "settled (admitNode PipelineNodeQueued jobID now i nodes)"
proof -
  let ?new = "(nodes ! i)\<lparr>pnc_State := PipelineNodeQueued, pnc_JobID := jobID, pnc_UpdatedAt := now\<rparr>"
  let ?nodes = "nodes[i := ?new]"
  have "map pnc_Step ?nodes = map pnc_Step nodes" using assms(3) by (intro nth_equalityI) (auto simp: nth_list_update)
  then have dist: "distinct (map pnc_Step ?nodes)" using assms(2) by simp
  have same: "pnc_State k \<noteq> PipelineNodeReady \<longrightarrow> stateByStep ?nodes (pnc_Step k) = pnc_State k" if "k \<in> set nodes" for k
  proof
    assume "pnc_State k \<noteq> PipelineNodeReady"
    obtain j where j: "j < length nodes" "nodes ! j = k" using \<open>k \<in> set nodes\<close> by (auto simp: in_set_conv_nth)
    then have "j \<noteq> i" using assms(4) \<open>pnc_State k \<noteq> PipelineNodeReady\<close> by auto
    then have "k \<in> set ?nodes" using j by (metis length_list_update nth_list_update_neq nth_mem)
    then show "stateByStep ?nodes (pnc_Step k) = pnc_State k" using stateByStep_in [OF dist] by blast
  qed
  have ready: "stateByStep ?nodes (pnc_Step k) \<in> {PipelineNodeReady, PipelineNodeQueued}" if "k \<in> set nodes" "pnc_State k = PipelineNodeReady" for k
  proof -
    obtain j where j: "j < length nodes" "nodes ! j = k" using \<open>k \<in> set nodes\<close> by (auto simp: in_set_conv_nth)
    have "?nodes ! j \<in> set ?nodes" using j(1) by simp
    moreover have "pnc_Step (?nodes ! j) = pnc_Step k" "pnc_State (?nodes ! j) \<in> {PipelineNodeReady, PipelineNodeQueued}"
      using j assms(3) that(2) by (auto simp: nth_list_update)
    ultimately show ?thesis using stateByStep_in [OF dist, of "?nodes ! j"] by simp
  qed
  show ?thesis unfolding admitNode_def settled_def
  proof (intro ballI impI)
    fix n assume n: "n \<in> set ?nodes" "pnc_State n = PipelineNodeNotReady"
    then have "n \<noteq> ?new" by auto
    then have mem: "n \<in> set nodes" using n(1) set_update_subset_insert by fastforce
    have keep: "stateByStep nodes d = stateByStep ?nodes d \<or> (stateByStep nodes d = PipelineNodeReady \<and> stateByStep ?nodes d \<in> {PipelineNodeReady, PipelineNodeQueued})"
      if d: "d \<in> set (pnc_DependsOn n)" for d
    proof -
      obtain k where k: "k \<in> set nodes" "pnc_Step k = d" using assms(5) mem d by blast
      then show ?thesis using same [OF k(1)] ready [OF k(1)] stateByStep_in [OF assms(2) k(1)] by metis
    qed
    have "(\<exists>d\<in>set (pnc_DependsOn n). stateByStep nodes d \<noteq> PipelineNodeCompleted)
        \<and> (\<forall>d\<in>set (pnc_DependsOn n). \<not> pipelineNodeBlocksDescendants (stateByStep nodes d))"
      using assms(1) mem n(2) unfolding settled_def by blast
    then show "(\<exists>d\<in>set (pnc_DependsOn n). stateByStep ?nodes d \<noteq> PipelineNodeCompleted)
        \<and> (\<forall>d\<in>set (pnc_DependsOn n). \<not> pipelineNodeBlocksDescendants (stateByStep ?nodes d))"
      using keep by (fastforce simp: pipelineNodeBlocksDescendants_def)
  qed
qed

lemma active_reconcile:
  assumes "list_all2 (nodeStep target t states) ns ns'"
    and "target \<in> {PipelineNodeCompleted, PipelineNodeCancelled, PipelineNodeAmbiguous, PipelineNodeFailed}"
  shows "activeNodes ns' \<le> activeNodes ns"
proof -
  have step: "activeNode n" if "nodeStep target t states n n'" "activeNode n'" for n n'
    using that(1)
  proof (cases rule: nodeStep_cases)
    case same
    then show ?thesis using that(2) by simp
  qed (use that(2) assms(2) in \<open>auto simp: activeNode_def\<close>)
  from assms(1) show ?thesis
  proof (induction rule: list_all2_induct)
    case (Cons n ns n' ns')
    then show ?case using step by (auto simp: activeNodes_def)
  qed simp
qed

lemma initial_settled:
  assumes "nodes = map (initialNode t) steps" and "distinct (map pnc_Step nodes)" and "\<forall>n\<in>set nodes. \<forall>d\<in>set (pnc_DependsOn n). \<exists>k\<in>set nodes. pnc_Step k = d"
  shows "settled nodes"
  unfolding settled_def
proof (intro ballI impI)
  fix n assume n: "n \<in> set nodes" "pnc_State n = PipelineNodeNotReady"
  have fresh: "stateByStep nodes d = PipelineNodeReady \<or> stateByStep nodes d = PipelineNodeNotReady" if d: "d \<in> set (pnc_DependsOn n)" for d
  proof -
    obtain k where k: "k \<in> set nodes" "pnc_Step k = d" using assms(3) n(1) d by blast
    then have "pnc_State k = PipelineNodeReady \<or> pnc_State k = PipelineNodeNotReady" by (auto simp: assms(1) initialNode_def split: if_splits)
    then show ?thesis using stateByStep_in [OF assms(2) k(1)] k(2) by simp
  qed
  have idle: "stateByStep nodes d \<noteq> PipelineNodeCompleted \<and> \<not> pipelineNodeBlocksDescendants (stateByStep nodes d)"
    if "d \<in> set (pnc_DependsOn n)" for d
    using fresh [OF that] by (auto simp: pipelineNodeBlocksDescendants_def)
  have "pnc_DependsOn n \<noteq> []" using n by (auto simp: assms(1) initialNode_def split: if_splits)
  then have "hd (pnc_DependsOn n) \<in> set (pnc_DependsOn n)" by simp
  then show "(\<exists>d\<in>set (pnc_DependsOn n). stateByStep nodes d \<noteq> PipelineNodeCompleted)
      \<and> (\<forall>d\<in>set (pnc_DependsOn n). \<not> pipelineNodeBlocksDescendants (stateByStep nodes d))"
    using idle by blast
qed

section \<open>Reachable runs\<close>

text \<open>The stored value of a graph run: admitted with a new checkpoint, then changed by the admission and
  the reconciliation of its children, at any time and in any order.\<close>

inductive dagReachable :: "goLib \<Rightarrow> jsonCodec \<Rightarrow> pipelineRun \<Rightarrow> bool" for L :: goLib and J :: jsonCodec where
  Start: "NewDAGRunCheckpoint L J pl t = Inr (b, nodes) \<Longrightarrow> run_Graph run = Some b \<Longrightarrow> run_NodeStates run = nodes \<Longrightarrow>
    CreatePipelineRunAdmitted L J now run maxGlobal maxOwner st = (Inr (), st') \<Longrightarrow> dagReachable L J (persistRun run)"
| Admit: "dagReachable L J run \<Longrightarrow> GetPipelineRun st runID = Inr run \<Longrightarrow>
    CreateDAGChildJobAdmittedGoverned L J raw now runID step request maxQueued limits st = (Inr (updated, job), st') \<Longrightarrow>
    dagReachable L J (persistRun updated)"
| Reconcile: "dagReachable L J run \<Longrightarrow> GetPipelineRun st (trimSpace runID) = Inr run \<Longrightarrow>
    ReconcileDAGChildTerminal L J now runID jobID st = (Inr updated, st') \<Longrightarrow> dagReachable L J (persistRun updated)"

lemma start_inv:
  assumes "NewDAGRunCheckpoint L J pl t = Inr (b, nodes)" and "run_Graph run = Some b" and "run_NodeStates run = nodes"
    and "CreatePipelineRunAdmitted L J now run maxGlobal maxOwner st = (Inr (), st')"
  shows "dagInv L J run"
proof -
  have valid: "validatePipelineRunGraphState L J run = Inr ()"
    using assms(4) unfolding CreatePipelineRunAdmitted_def update_Inr by (auto simp: bindE_eq_Inr)
  note g = valid_graph [OF valid assms(2)]
  from new_checkpoint_cases [OF assms(1)] have nodes: "nodes = map (initialNode t) (pl_Steps (trimDependencies pl))" by blast
  have "settled nodes" by (rule initial_settled [OF nodes]) (use g(2,8) assms(3) in auto)
  moreover have "filter activeNode nodes = []"
    by (auto simp: nodes filter_empty_conv initialNode_def activeNode_def)
  then have "activeNodes nodes \<le> pgb_MaxParallel b" using g(5) by (simp add: activeNodes_def)
  ultimately show ?thesis unfolding dagInv_def using valid assms(2,3) by blast
qed

lemma admit_inv:
  assumes "dagInv L J run" and "GetPipelineRun st runID = Inr run"
    and "CreateDAGChildJobAdmittedGoverned L J raw now runID step request maxQueued limits st = (Inr (updated, job), st')"
  shows "dagInv L J updated"
proof -
  from create_child_spec [OF assms(3)] obtain prepared where
    tx: "createDAGChildTx L J now runID step prepared maxQueued limits st = Inr ((updated, job), st')" by blast
  from createChild_spec [OF tx] assms(2) obtain b i where graph: "run_Graph run = Some b" and adm: "childAdmissible step prepared run b = Inr i"
    and updated: "run_Graph updated = Some b" "run_NodeStates updated = admitNode PipelineNodeQueued (job_ID job) now i (run_NodeStates run)"
    and valid': "validatePipelineRunGraphState L J updated = Inr ()" and valid: "validatePipelineRunGraphState L J run = Inr ()"
    by (auto simp: GetPipelineRun_def)
  note a = childAdmissible_spec [OF adm] and g = valid_graph [OF valid graph]
  have "settled (run_NodeStates updated)" unfolding updated(2)
    by (rule settled_admit) (use assms(1) a g(2,8) in \<open>auto simp: dagInv_def\<close>)
  moreover have "activeNodes (run_NodeStates updated) = activeNodes (run_NodeStates run) + 1" unfolding updated(2) admitNode_def
    by (rule active_admit) (use a in \<open>auto simp: activeNode_def\<close>)
  ultimately show ?thesis unfolding dagInv_def using updated(1) valid' a by auto
qed

lemma reconcile_inv:
  assumes "dagInv L J run" and "GetPipelineRun st (trimSpace runID) = Inr run"
    and "ReconcileDAGChildTerminal L J now runID jobID st = (Inr updated, st')"
  shows "dagInv L J updated"
proof -
  from assms(3) have "reconcileTx L J now (trimSpace runID) (trimSpace jobID) st = Inr (updated, st')"
    by (auto simp: ReconcileDAGChildTerminal_def Let_def update_Inr split: if_splits)
  then obtain b job changed where graph: "run_Graph run = Some b" and valid: "validatePipelineRunGraphState L J run = Inr ()"
    and rec: "reconcileRun now job run b = Inr (updated, changed)" and valid': "validatePipelineRunGraphState L J updated = Inr ()"
    using assms(2) unfolding reconcileTx_def GetPipelineRun_def by (auto simp: bindE_eq_Inr split: option.splits)
  obtain target t states where
    target: "target \<in> {PipelineNodeCompleted, PipelineNodeCancelled, PipelineNodeAmbiguous, PipelineNodeFailed}"
    and all: "list_all2 (nodeStep target t states) (run_NodeStates run) (run_NodeStates updated)"
    and settled: "settled (run_NodeStates updated)" and graph': "run_Graph updated = Some b"
    by (rule reconcile_nodeSteps [OF rec valid graph])
  have "activeNodes (run_NodeStates updated) \<le> pgb_MaxParallel b"
    using active_reconcile [OF all target] assms(1) graph by (auto simp: dagInv_def)
  then show ?thesis unfolding dagInv_def using graph' valid' settled by blast
qed

lemma reachable_inv: "dagReachable L J run \<Longrightarrow> dagInv L J run"
proof (induction rule: dagReachable.induct)
  case (Start pl t b nodes run now maxGlobal maxOwner st st')
  then show ?case using start_inv dagInv_persist by metis
next
  case (Admit run st runID raw now step request maxQueued limits updated job st')
  then show ?case using admit_inv dagInv_persist by metis
next
  case (Reconcile run st runID now jobID updated st')
  then show ?case using reconcile_inv dagInv_persist by metis
qed

text \<open>With nothing active and nothing ready, a settled graph is finished.\<close>

lemma idle_is_finished:
  assumes valid: "validatePipelineRunGraphState L J run = Inr ()" and graph: "run_Graph run = Some b" and "settled (run_NodeStates run)"
    and "\<forall>n\<in>set (run_NodeStates run). \<not> activeNode n \<and> pnc_State n \<noteq> PipelineNodeReady"
  shows "n \<in> set (run_NodeStates run) \<Longrightarrow> terminalNodeState (pnc_State n)"
proof (induction "orderPosition (pgb_Order b) (pnc_Step n)" arbitrary: n rule: less_induct)
  case less
  note g = valid_graph [OF valid graph]
  have known: "validPipelineNodeState (pnc_State n)" using g(6) [OF less.prems] by (simp add: nodeOK_def)
  have "pnc_State n \<noteq> PipelineNodeNotReady"
  proof
    assume nr: "pnc_State n = PipelineNodeNotReady"
    then obtain d where d: "d \<in> set (pnc_DependsOn n)" "stateByStep (run_NodeStates run) d \<noteq> PipelineNodeCompleted"
      and free: "\<forall>d\<in>set (pnc_DependsOn n). \<not> pipelineNodeBlocksDescendants (stateByStep (run_NodeStates run) d)"
      using assms(3) less.prems unfolding settled_def by blast
    obtain k where k: "k \<in> set (run_NodeStates run)" "pnc_Step k = d" using g(8) [OF less.prems d(1)] by blast
    have "terminalNodeState (pnc_State k)" using less.hyps [OF _ k(1)] g(7) [OF less.prems d(1)] k(2) by simp
    then show False using d free stateByStep_in [OF g(2) k(1)] k(2) by (auto simp: terminalNodeState_def)
  qed
  then show ?case using known assms(4) less.prems
    by (auto simp: validPipelineNodeState_def terminalNodeState_def pipelineNodeBlocksDescendants_def activeNode_def)
qed

text \<open>C11: a graph run never stalls and never runs wider than it may. In every stored state of a run the
  checkpoint is valid and at most \<open>MaxParallel\<close> steps are queued or running; while the run is marked
  running, the ready set is defined, and if it is empty with no step active, every step has ended or is
  blocked by one that failed.\<close>

theorem graph_run_never_stalls:
  assumes "dagReachable L J run"
  shows "\<exists>b. run_Graph run = Some b \<and> validatePipelineRunGraphState L J run = Inr () \<and> activeNodes (run_NodeStates run) \<le> pgb_MaxParallel b
    \<and> (run_Status run = ''running'' \<longrightarrow> (\<exists>steps. dagReadySet L J run = Inr steps
        \<and> (steps = [] \<and> activeNodes (run_NodeStates run) = 0 \<longrightarrow> (\<forall>n\<in>set (run_NodeStates run). terminalNodeState (pnc_State n)))))"
proof -
  from reachable_inv [OF assms] obtain b where b: "run_Graph run = Some b" "validatePipelineRunGraphState L J run = Inr ()"
    "settled (run_NodeStates run)" "activeNodes (run_NodeStates run) \<le> pgb_MaxParallel b" by (auto simp: dagInv_def)
  note g = valid_graph [OF b(2,1)]
  have "\<exists>steps. dagReadySet L J run = Inr steps
      \<and> (steps = [] \<and> activeNodes (run_NodeStates run) = 0 \<longrightarrow> (\<forall>n\<in>set (run_NodeStates run). terminalNodeState (pnc_State n)))"
    if running: "run_Status run = ''running''"
  proof -
    let ?avail = "pgb_MaxParallel b - activeNodes (run_NodeStates run)"
    let ?ready = "filter (\<lambda>step. stateByStep (run_NodeStates run) step = PipelineNodeReady) (pgb_Order b)"
    let ?steps = "if ?avail \<le> 0 then [] else take (nat ?avail) ?ready"
    have set: "dagReadySet L J run = Inr ?steps" using b(1,2) running by (simp add: dagReadySet_def Let_def)
    have "terminalNodeState (pnc_State n)"
      if empty: "?steps = []" and idle: "activeNodes (run_NodeStates run) = 0" and n: "n \<in> set (run_NodeStates run)" for n
    proof (rule idle_is_finished [OF b(2,1,3) _ n])
      have "?ready = []" using empty idle g(5) by (auto split: if_splits)
      moreover have "filter activeNode (run_NodeStates run) = []" using idle by (simp add: activeNodes_def)
      ultimately show "\<forall>n\<in>set (run_NodeStates run). \<not> activeNode n \<and> pnc_State n \<noteq> PipelineNodeReady"
        using g(4) stateByStep_in [OF g(2)] by (metis (mono_tags, lifting) filter_empty_conv image_eqI)
    qed
    then show ?thesis using set by blast
  qed
  then show ?thesis using b by blast
qed

section \<open>Witnesses\<close>

lemma validJobID_samples: "validJobID ''run-1''" "validJobID ''job-a''" by code_simp+

lemma persist_sample: "persistRun sampleRun = sampleRun"
  by (simp add: persistRun_def sampleRun_def)

lemma sample_created: "\<exists>st. CreatePipelineRunAdmitted plainLib plainJSON 5 sampleRun 10 10 emptyStore = (Inr (), st)"
proof -
  let ?st = "(putRun ''run-1'' sampleRun emptyStore)\<lparr>st_pipelineOwnerLookup := bput ''run-1'' (sha256 plainLib ''alice'' @ sha256 plainLib []) (st_pipelineOwnerLookup emptyStore)\<rparr>"
  have "st_pipelineRuns emptyStore = []" by (simp add: emptyStore_def)
  moreover have "scopeLog PipelineEventsRoot ''run-1'' ?st = scopeLog PipelineEventsRoot ''run-1'' emptyStore"
    by (rule scopeLog_sameLogs) (simp add: sameLogs_def putRun_def)
  then have "\<exists>st. appendPipelineEventTx 5 sampleRun ''pipeline.started'' ?st = Inr st"
    by (simp add: appendPipelineEventTx_def appendExecutionEventTx_def appendToLog_def emptyStore_log emptyLog_def Let_def)
  ultimately show ?thesis
    using validJobID_samples(1) sample_valid
    by (auto simp: CreatePipelineRunAdmitted_def update_def putPipelineScopeLookup_def bget_Nil putRun_def)
qed

lemma sample_reachable: "dagReachable plainLib plainJSON sampleRun"
proof -
  obtain st where "CreatePipelineRunAdmitted plainLib plainJSON 5 sampleRun 10 10 emptyStore = (Inr (), st)" using sample_created by blast
  from dagReachable.Start [OF sample_checkpoint _ refl this] show ?thesis by (simp add: persist_sample)
qed

theorem graph_run_never_stalls_witness:
  "dagReachable plainLib plainJSON sampleRun \<and> (\<exists>steps. dagReadySet plainLib plainJSON sampleRun = Inr steps)"
  using graph_run_never_stalls [OF sample_reachable] sample_reachable by auto

definition childRequest :: submitRequest where
  "childRequest = witnessRequest\<lparr>sub_ID := ''job-a'', sub_Pipeline := ''p'', sub_Step := ''a'', sub_ParentID := ''run-1''\<rparr>"

definition childJob :: job where "childJob = jobOfRequest childRequest ''job-a'' JobContractV1 7"

lemma child_labels: "cleanLabel ''p'' 128 = ''p''" "cleanLabel ''a'' 128 = ''a''" "cleanLabel ''run-1'' 128 = ''run-1''" by code_simp+

lemma childJob_fields:
  "job_ID childJob = ''job-a''" "job_OwnerSubject childJob = ''alice''" "job_TenantID childJob = []" "job_ParentID childJob = ''run-1''"
  "job_Pipeline childJob = ''p''" "job_Step childJob = ''a''" "job_Priority childJob = 0" "job_SealedPayload childJob = None" "job_Payload childJob = ''{}''"
  by (simp_all add: childJob_def jobOfRequest_def childRequest_def witnessRequest_def Let_def alice_clean child_labels)

lemma child_prepared: "prepareJob plainLib (Inl ErrNotExist) childRequest [] [] 7 = Inr childJob"
proof -
  have "\<not> IsRelayReservedTask plainLib ''chat''" by code_simp
  moreover have "ValidateAllowed zeroPolicy = Inr ()" by (simp add: ValidateAllowed_def zeroPolicy_def)
  moreover have "NormalizeJobContractVersion [] = Inr JobContractV1" by (simp add: NormalizeJobContractVersion_def)
  moreover have "job_Payload (jobOfRequest childRequest ''job-a'' JobContractV1 7) = ''{}''" using childJob_fields by (simp add: childJob_def)
  ultimately have "prepareJob plainLib (Inl ErrNotExist) childRequest [] [] 7 = Inr (jobOfRequest childRequest ''job-a'' JobContractV1 7)"
    using validJobID_samples by (simp add: prepareJob_def Let_def) (simp add: childRequest_def witnessRequest_def)
  then show ?thesis by (simp add: childJob_def)
qed

definition startedStore :: store where "startedStore = putRun ''run-1'' sampleRun emptyStore"

lemma started_admits: "\<exists>mid. admitPreparedJobTx plainLib childJob 10 zeroLimits [] [] 7 startedStore = Inr ((childJob, False), mid)"
proof -
  have wf: "jobWF (job_ID childJob) childJob" using prepared_wf [OF child_prepared] by simp
  have e: "st_queue startedStore = []" "st_queueJobIndex startedStore = []" "st_queueCounts startedStore = []" "st_idempotency startedStore = []"
    "st_jobs startedStore = []" and logs: "sameLogs emptyStore startedStore"
    by (simp_all add: startedStore_def putRun_def sameLogs_def)
  obtain st where st: "fileNewJobTx plainLib childJob ''alice'' [] [] 7 startedStore = Inr st"
    using fileNewJobTx_total [OF wf e(1-4) logs, of plainLib "''alice''" "[]" "[]" 7] by auto
  have "queueInv startedStore" by (rule queueInv_cong [OF queueInv_empty]) (simp_all add: e emptyStore_def)
  from queueCounts_exact [OF this, of "''alice''"] e have "queueCounts startedStore ''alice'' = Inr (0, 0)" by (simp add: bget_Nil bolt.countE_def)
  then show ?thesis using st
    by (simp add: admitPreparedJobTx_def zeroLimits_def producerPriorityAllowed_def checkQueueCapacity_def consumeProducerRateLimitTx_def
      childJob_fields e bget_Nil)
qed

theorem child_admission_is_atomic_witness:
  "\<exists>st'. CreateDAGChildJobAdmittedGoverned plainLib plainJSON (Inl ErrNotExist) 7 ''run-1'' ''a'' childRequest 10 zeroLimits startedStore
      = (Inr (admittedRun childJob 7, childJob), st') \<and> queuedEntry st' ''job-a'' = Some (queueKey childJob, queueEntryOf childJob)"
proof -
  obtain mid where mid: "admitPreparedJobTx plainLib childJob 10 zeroLimits [] [] 7 startedStore = Inr ((childJob, False), mid)"
    using started_admits by blast
  have run: "getJSON (st_pipelineRuns startedStore) ''run-1'' = Inr sampleRun"
    by (simp add: startedStore_def putRun_def persist_sample bucket_simps)
  have adm: "childAdmissible ''a'' childJob sampleRun sampleBinding = Inr 1"
    by (simp add: childAdmissible_def childJob_fields lastIndex_def upt_conv_Cons activeNodes_def activeNode_def del: upt_Suc)
      (simp add: sampleBinding_def)
  have updated: "sampleRun\<lparr>run_NodeStates := admitNode PipelineNodeQueued (job_ID childJob) 7 1 (run_NodeStates sampleRun), run_Steps := run_Steps sampleRun @ [childJob]\<rparr>
      = admittedRun childJob 7"
    by (simp add: admittedRun_def admitNode_def)
  have valid: "validatePipelineRunGraphState plainLib plainJSON (admittedRun childJob 7) = Inr ()"
    by (rule admitted_valid) (simp_all add: childJob_fields validJobID_samples)
  have trans: "validatePipelineRunGraphTransition sampleRun (admittedRun childJob 7) = Inr ()"
    by (simp add: validatePipelineRunGraphTransition_def admittedRun_def checkNodeTransition_def allowedPipelineNodeTransition_def)
  have "createDAGChildTx plainLib plainJSON 7 ''run-1'' ''a'' childJob 10 zeroLimits startedStore
      = Inr ((admittedRun childJob 7, childJob), putRun (run_ID (admittedRun childJob 7)) (admittedRun childJob 7) mid)"
    unfolding createDAGChildTx_def run bindE_Inr sampleRun_fields(7) option.case sample_valid adm mid case_prod_conv Let_def updated saveGraphRun_def valid trans
    by simp
  then obtain st' where st': "CreateDAGChildJobAdmittedGoverned plainLib plainJSON (Inl ErrNotExist) 7 ''run-1'' ''a'' childRequest 10 zeroLimits startedStore
      = (Inr (admittedRun childJob 7, childJob), st')"
    by (simp add: CreateDAGChildJobAdmittedGoverned_def child_prepared update_def)
  have "storeInv startedStore"
    by (rule storeInv_frame [OF storeInv_empty]) (simp_all add: startedStore_def putRun_def sameJobs_def sameLogs_def)
  from child_admission_is_atomic [OF st' this] st' show ?thesis by (auto simp: childJob_fields)
qed

end
