(* ===== verification/Reservations.thy ===== *)
theory Reservations
  imports Job_Recovery
begin

text \<open>
  Reservations of a worker for an encrypted job (\<open>internal/cluster/store.go\<close>,
  \<open>CreateReservationAdmitted\<close> to \<open>countAndCleanQueue\<close>). A producer reserves a node, gets the
  node's public key, seals its payload for it, and then consumes the reservation: in one transaction
  the reservation is checked, removed and turned into a queued job bound to that node, and its session
  lock passes to the job. \<open>now\<close> is the clock reading of an operation.
\<close>

definition tokenHash :: "goLib \<Rightarrow> string \<Rightarrow> string" where
  "tokenHash L token = sha256Hex L token"

definition constantEqual :: "string \<Rightarrow> string \<Rightarrow> bool" where
  "constantEqual a b \<longleftrightarrow> length a = length b \<and> a = b"

definition validateTenantID :: "goLib \<Rightarrow> string \<Rightarrow> unit result" where
  "validateTenantID L tenantID =
     failWhen (tenantID \<noteq> [] \<and> \<not> validRoutingLabel L tenantID 200)
       (ErrText ''tenant_id must be at most 200 bytes without surrounding whitespace or control characters'')"

text \<open>A stored reservation, without the request fields that are not written to JSON.\<close>

definition persistReservation :: "reservation \<Rightarrow> reservation" where
  "persistReservation r = r\<lparr>rsv_Assignment := (rsv_Assignment r)\<lparr>asg_Requirements := persistRequirements (asg_Requirements (rsv_Assignment r))\<rparr>\<rparr>"

definition putReservation :: "string \<Rightarrow> reservation \<Rightarrow> store \<Rightarrow> store" where
  "putReservation key r st = st\<lparr>st_assignments := putJSON key (persistReservation r) (st_assignments st)\<rparr>"

section \<open>Expiry and counting\<close>

fun gcReservationsLoop :: "gotime \<Rightarrow> reservation cell bucket \<Rightarrow> reservation cell bucket \<times> int \<Rightarrow> (reservation cell bucket \<times> int) result" where
  "gcReservationsLoop now [] acc = Inr acc"
| "gcReservationsLoop now ((_, Garbled) # rest) acc = Inl ErrDecode"
| "gcReservationsLoop now ((key, Val saved) # rest) (bucket, removed) =
     (if now < asg_ExpiresAt (rsv_Assignment saved) then gcReservationsLoop now rest (bucket, removed)
      else gcReservationsLoop now rest (bdelete key bucket, removed + 1))"

definition garbageCollectReservationsCount :: "gotime \<Rightarrow> reservation cell bucket \<Rightarrow> (reservation cell bucket \<times> int) result" where
  "garbageCollectReservationsCount now bucket = gcReservationsLoop now bucket (bucket, 0)"

definition garbageCollectReservations :: "gotime \<Rightarrow> store \<Rightarrow> store result" where
  "garbageCollectReservations now st =
     bindE (garbageCollectReservationsCount now (st_assignments st)) (\<lambda>(bucket, _). Inr (st\<lparr>st_assignments := bucket\<rparr>))"

definition GarbageCollectReservations :: "gotime \<Rightarrow> store \<Rightarrow> int result \<times> store" where
  "GarbageCollectReservations now = update (\<lambda>st.
     bindE (garbageCollectReservationsCount now (st_assignments st)) (\<lambda>(bucket, removed).
     bindE (garbageCollectAdapterSessionLocks now (st\<lparr>st_assignments := bucket\<rparr>)) (\<lambda>(_, st).
     Inr (removed, st))))"

fun reservationCountsLoop :: "string \<Rightarrow> reservation cell bucket \<Rightarrow> int \<times> int \<Rightarrow> (int \<times> int) result" where
  "reservationCountsLoop owner [] acc = Inr acc"
| "reservationCountsLoop owner ((_, Garbled) # rest) acc = Inl ErrDecode"
| "reservationCountsLoop owner ((_, Val saved) # rest) (count, owned) =
     reservationCountsLoop owner rest (count + 1, if rsv_OwnerSubject saved = owner then owned + 1 else owned)"

definition reservationCounts :: "reservation cell bucket \<Rightarrow> string \<Rightarrow> (int \<times> int) result" where
  "reservationCounts bucket owner = reservationCountsLoop owner bucket (0, 0)"

definition countAndCleanQueue :: "store \<Rightarrow> int result" where
  "countAndCleanQueue st = bindE (queueCounts st []) (\<lambda>(count, _). Inr count)"

definition maintenanceCandidates :: "store \<Rightarrow> bool \<times> bool" where
  "maintenanceCandidates st = (st_assignments st \<noteq> [], st_queue st \<noteq> [])"

section \<open>Reserving\<close>

definition checkReservationRequest :: "goLib \<Rightarrow> gotime \<Rightarrow> assignment \<Rightarrow> string \<Rightarrow> string \<Rightarrow> assignment result" where
  "checkReservationRequest L now asg secret owner =
     bindE (failWhen (owner = []) (ErrText ''assignment owner is required'')) (\<lambda>_.
     let asg = asg\<lparr>asg_OwnerSubject := owner\<rparr>;
         asg = (if asg_Attempt asg = 0 then asg\<lparr>asg_Attempt := 1\<rparr> else asg) in
     bindE (failWhen (asg_Attempt asg \<noteq> 1) (ErrText ''reserved assignments must start at attempt 1'')) (\<lambda>_.
     bindE (validateTenantID L (asg_TenantID asg)) (\<lambda>_.
     bindE (ValidateAllowed (asg_PolicyDecision asg)) (\<lambda>_.
     bindE (failWhen (asg_ID asg = [] \<or> \<not> validJobID (asg_ID asg) \<or> asg_JobID asg = [] \<or> \<not> validJobID (asg_JobID asg))
              (ErrText ''assignment and job ids must use safe ASCII characters'')) (\<lambda>_.
     bindE (failWhen (secret = []) (ErrText ''assignment secret is required'')) (\<lambda>_.
     bindE (failWhen (\<not> now < asg_ExpiresAt asg) ErrReservationInvalidOrExpired) (\<lambda>_.
     Inr asg)))))))"

definition reserveTx :: "goLib \<Rightarrow> gotime \<Rightarrow> assignment \<Rightarrow> string \<Rightarrow> string \<Rightarrow> int \<Rightarrow> int \<Rightarrow> store \<Rightarrow> (unit \<times> store) result" where
  "reserveTx L now asg secret owner maxGlobal maxOwner st =
     bindE (nodeForAssignment st (asg_NodeID asg)) (\<lambda>node.
     bindE (failWhen (node_Draining node) ErrNodeDraining) (\<lambda>_.
     bindE (garbageCollectReservations now st) (\<lambda>st.
     bindE (garbageCollectAdapterSessionLocks now st) (\<lambda>(_, st).
     bindE (failWhen (bget (st_assignments st) (asg_ID asg) \<noteq> None \<or> bget (st_jobs st) (asg_JobID asg) \<noteq> None) ErrExist) (\<lambda>_.
     bindE (reservationCounts (st_assignments st) owner) (\<lambda>(count, owned).
     bindE (failWhen (maxGlobal > 0 \<and> count \<ge> maxGlobal) ErrReservationCapacity) (\<lambda>_.
     bindE (failWhen (maxOwner > 0 \<and> owned \<ge> maxOwner) ErrOwnerReservationCapacity) (\<lambda>_.
     bindE (acquireAdapterSessionLockTx L owner (asg_Requirements asg) adapterSessionLockAssignment (asg_ID asg) (asg_ExpiresAt asg) now
              (adapterSessionNeedsLockTx L (asg_Requirements asg) (asg_NodeID asg)) st) (\<lambda>st.
     Inr ((), putReservation (asg_ID asg) \<lparr>rsv_Assignment = asg, rsv_SecretHash = tokenHash L secret, rsv_OwnerSubject = owner\<rparr> st))))))))))"

definition CreateReservationAdmitted ::
  "goLib \<Rightarrow> gotime \<Rightarrow> assignment \<Rightarrow> string \<Rightarrow> string \<Rightarrow> int \<Rightarrow> int \<Rightarrow> store \<Rightarrow> unit result \<times> store" where
  "CreateReservationAdmitted L now asg secret owner maxGlobal maxOwner st =
     (let owner = cleanLabel owner 120 in
      case checkReservationRequest L now asg secret owner of
        Inl e \<Rightarrow> (Inl e, st)
      | Inr asg \<Rightarrow> update (reserveTx L now asg secret owner maxGlobal maxOwner) st)"

section \<open>Consuming\<close>

definition checkConsumeRequest ::
  "string \<Rightarrow> sealedEnvelope option \<Rightarrow> string \<Rightarrow> int \<Rightarrow> producerLimits \<Rightarrow> string \<Rightarrow> string \<Rightarrow> unit result" where
  "checkConsumeRequest owner sealed tenant priority limits idempotencyKey requestHash =
     bindE (failWhen (owner = []) ErrReservationOwnerMismatch) (\<lambda>_.
     bindE (failWhen (sealed = None) (ErrText ''reserved assignments require a sealed payload'')) (\<lambda>_.
     bindE (failWhen (priority < - 100 \<or> priority > 100) (ErrText ''priority must be between -100 and 100'')) (\<lambda>_.
     bindE (failWhen (lim_AllowedTenants limits \<noteq> [] \<and> tenant \<notin> set (lim_AllowedTenants limits)) ErrTenantScopeForbidden) (\<lambda>_.
     bindE (failWhen (\<not> producerPriorityAllowed priority limits) ErrPriorityScopeForbidden) (\<lambda>_.
     if idempotencyKey = [] then Inr ()
     else bindE (ValidateIdempotencyKey idempotencyKey) (\<lambda>_.
          failWhen (length requestHash \<noteq> 64) (ErrText ''idempotency request hash is invalid'')))))))"

text \<open>The checks of the stored reservation. An expired one is deleted before the error is returned, but the
  error rolls the transaction back, deletion included.\<close>

definition checkSavedReservation ::
  "goLib \<Rightarrow> gotime \<Rightarrow> string \<Rightarrow> string \<Rightarrow> string \<Rightarrow> string \<Rightarrow> policyDecision option \<Rightarrow> reservation \<Rightarrow> unit result" where
  "checkSavedReservation L now secret requestedJobID tenant owner expectedPolicy saved =
     (let asg = rsv_Assignment saved in
      bindE (failWhen (\<not> now < asg_ExpiresAt asg) ErrReservationInvalidOrExpired) (\<lambda>_.
      bindE (failWhen (\<not> constantEqual (rsv_SecretHash saved) (tokenHash L secret)) ErrReservationInvalidOrExpired) (\<lambda>_.
      bindE (failWhen (rsv_OwnerSubject saved = [] \<or> rsv_OwnerSubject saved \<noteq> owner \<or> asg_OwnerSubject asg \<noteq> owner)
               ErrReservationOwnerMismatch) (\<lambda>_.
      bindE (failWhen (requestedJobID \<noteq> [] \<and> requestedJobID \<noteq> asg_JobID asg) ErrReservationContextMismatch) (\<lambda>_.
      bindE (failWhen (tenant \<noteq> asg_TenantID asg) ErrReservationContextMismatch) (\<lambda>_.
      bindE (failWhen (case expectedPolicy of None \<Rightarrow> False | Some policy \<Rightarrow> \<not> EquivalentAuthorization (asg_PolicyDecision asg) policy)
               ErrReservationContextMismatch) (\<lambda>_.
      failWhen (asg_Attempt asg \<noteq> 1) ErrReservationContextMismatch)))))))"

definition promotedJob ::
  "gotime \<Rightarrow> assignment \<Rightarrow> sealedEnvelope option \<Rightarrow> poolJobAuthorization option \<Rightarrow> string \<Rightarrow> int \<Rightarrow> int \<Rightarrow> job" where
  "promotedJob now asg sealed authorization source priority attempts =
     zeroJob\<lparr>job_ID := asg_JobID asg, job_ContractVersion := JobContractV1, job_OwnerSubject := asg_OwnerSubject asg,
       job_Source := cleanLabel source 120, job_TenantID := asg_TenantID asg, job_Requirements := asg_Requirements asg,
       job_PolicyDecision := asg_PolicyDecision asg, job_SealedPayload := sealed, job_PoolAuthorization := authorization,
       job_Status := JobQueued, job_AssignedNode := asg_NodeID asg, job_Priority := priority,
       job_MaxAttempts := (if attempts \<le> 0 then 1 else attempts), job_CreatedAt := now, job_UpdatedAt := now\<rparr>"

definition promoteReservationTx ::
  "goLib \<Rightarrow> gotime \<Rightarrow> string \<Rightarrow> reservation \<Rightarrow> job \<Rightarrow> string \<Rightarrow> int \<Rightarrow> producerLimits \<Rightarrow> string \<Rightarrow> string \<Rightarrow> store \<Rightarrow> store result" where
  "promoteReservationTx L now resID saved job owner maxQueued limits idempotencyKey requestHash st =
     bindE (failWhen (bget (st_jobs st) (job_ID job) \<noteq> None) ErrExist) (\<lambda>_.
     bindE (checkQueueCapacity owner maxQueued limits st) (\<lambda>_.
     bindE (consumeProducerRateLimitTx owner (lim_MaxJobsPerHour limits) now st) (\<lambda>st.
     bindE (promoteAdapterSessionLockTx L saved job now st) (\<lambda>st.
     bindE (fileNewJobTx L job owner idempotencyKey requestHash now st) (\<lambda>st.
     Inr (st\<lparr>st_assignments := bdelete resID (st_assignments st)\<rparr>))))))"

definition consumeReservationTx ::
  "goLib \<Rightarrow> gotime \<Rightarrow> string \<Rightarrow> string \<Rightarrow> string \<Rightarrow> sealedEnvelope option \<Rightarrow> poolJobAuthorization option \<Rightarrow> string \<Rightarrow> string \<Rightarrow> string \<Rightarrow>
   int \<Rightarrow> int \<Rightarrow> int \<Rightarrow> producerLimits \<Rightarrow> string \<Rightarrow> string \<Rightarrow> policyDecision option \<Rightarrow> store \<Rightarrow> ((job \<times> bool) \<times> store) result" where
  "consumeReservationTx L now resID secret requestedJobID sealed authorization source tenant owner priority attempts maxQueued limits
     idempotencyKey requestHash expectedPolicy st =
     bindE (if idempotencyKey = [] then Inr None else lookupIdempotentJobTx L owner idempotencyKey requestHash st) (\<lambda>existing.
     case existing of
       Some found \<Rightarrow> Inr ((found, True), st)
     | None \<Rightarrow>
         bindE (getJSON (st_assignments st) resID) (\<lambda>saved.
         bindE (checkSavedReservation L now secret requestedJobID tenant owner expectedPolicy saved) (\<lambda>_.
         let job = promotedJob now (rsv_Assignment saved) sealed authorization source priority attempts in
         bindE (promoteReservationTx L now resID saved job owner maxQueued limits idempotencyKey requestHash st) (\<lambda>st.
         Inr ((job, False), st)))))"

definition consumeReservationAdmitted where
  "consumeReservationAdmitted L now resID secret requestedJobID sealed authorization source tenant owner priority attempts maxQueued limits
     idempotencyKey requestHash expectedPolicy st =
     (let owner = cleanLabel owner 120 in
      case checkConsumeRequest owner sealed tenant priority limits idempotencyKey requestHash of
        Inl e \<Rightarrow> (Inl e, st)
      | Inr _ \<Rightarrow> update (consumeReservationTx L now resID secret requestedJobID sealed authorization source tenant owner priority attempts
                    maxQueued limits idempotencyKey requestHash expectedPolicy) st)"

text \<open>The exported variants; those without idempotency drop the replay flag.\<close>

definition jobOnly :: "(job \<times> bool) result \<times> store \<Rightarrow> job result \<times> store" where
  "jobOnly r = (bindE (fst r) (\<lambda>(job, _). Inr job), snd r)"

definition firstLimit :: "int list \<Rightarrow> producerLimits" where
  "firstLimit maxOwner = zeroLimits\<lparr>lim_MaxQueuedJobs := (case maxOwner of [] \<Rightarrow> 0 | m # _ \<Rightarrow> m)\<rparr>"

definition ConsumeReservationAdmitted where
  "ConsumeReservationAdmitted L now resID secret sealed source tenant owner priority attempts maxQueued maxOwner st =
     jobOnly (consumeReservationAdmitted L now resID secret [] sealed None source tenant owner priority attempts maxQueued
       (firstLimit maxOwner) [] [] None st)"

definition ConsumeReservationAdmittedWithPolicy where
  "ConsumeReservationAdmittedWithPolicy L now resID secret sealed source tenant owner priority attempts maxQueued policy maxOwner st =
     jobOnly (consumeReservationAdmitted L now resID secret [] sealed None source tenant owner priority attempts maxQueued
       (firstLimit maxOwner) [] [] (Some policy) st)"

definition ConsumeReservationAdmittedGovernedWithPolicy where
  "ConsumeReservationAdmittedGovernedWithPolicy L now resID secret requestedJobID sealed source tenant owner priority attempts maxQueued
     limits policy st =
     jobOnly (consumeReservationAdmitted L now resID secret requestedJobID sealed None source tenant owner priority attempts maxQueued
       limits [] [] (Some policy) st)"

definition ConsumeReservationAdmittedGovernedAuthorizedWithPolicy where
  "ConsumeReservationAdmittedGovernedAuthorizedWithPolicy L now resID secret requestedJobID sealed authorization source tenant owner
     priority attempts maxQueued limits policy st =
     jobOnly (consumeReservationAdmitted L now resID secret requestedJobID sealed authorization source tenant owner priority attempts
       maxQueued limits [] [] (Some policy) st)"

definition ConsumeReservationAdmittedIdempotent where
  "ConsumeReservationAdmittedIdempotent L now resID secret sealed source tenant owner priority attempts maxQueued maxOwner
     idempotencyKey requestHash =
     consumeReservationAdmitted L now resID secret [] sealed None source tenant owner priority attempts maxQueued
       (zeroLimits\<lparr>lim_MaxQueuedJobs := maxOwner\<rparr>) idempotencyKey requestHash None"

definition ConsumeReservationAdmittedIdempotentWithPolicy where
  "ConsumeReservationAdmittedIdempotentWithPolicy L now resID secret sealed source tenant owner priority attempts maxQueued maxOwner
     idempotencyKey requestHash policy =
     consumeReservationAdmitted L now resID secret [] sealed None source tenant owner priority attempts maxQueued
       (zeroLimits\<lparr>lim_MaxQueuedJobs := maxOwner\<rparr>) idempotencyKey requestHash (Some policy)"

definition ConsumeReservationAdmittedIdempotentGovernedWithPolicy where
  "ConsumeReservationAdmittedIdempotentGovernedWithPolicy L now resID secret requestedJobID sealed source tenant owner priority attempts
     maxQueued limits idempotencyKey requestHash policy =
     consumeReservationAdmitted L now resID secret requestedJobID sealed None source tenant owner priority attempts maxQueued
       limits idempotencyKey requestHash (Some policy)"

definition ConsumeReservationAdmittedIdempotentGovernedAuthorizedWithPolicy where
  "ConsumeReservationAdmittedIdempotentGovernedAuthorizedWithPolicy L now resID secret requestedJobID sealed authorization source tenant
     owner priority attempts maxQueued limits idempotencyKey requestHash policy =
     consumeReservationAdmitted L now resID secret requestedJobID sealed authorization source tenant owner priority attempts maxQueued
       limits idempotencyKey requestHash (Some policy)"

section \<open>What the loops compute\<close>

definition reservationsWF :: "store \<Rightarrow> bool" where
  "reservationsWF st \<longleftrightarrow> bordered (st_assignments st)
     \<and> (\<forall>k c. bget (st_assignments st) k = Some c \<longrightarrow> (\<exists>r. c = Val r \<and> asg_ID (rsv_Assignment r) = k
          \<and> validJobID (asg_JobID (rsv_Assignment r)) \<and> asg_Attempt (rsv_Assignment r) = 1
          \<and> rsv_OwnerSubject r \<noteq> [] \<and> asg_OwnerSubject (rsv_Assignment r) = rsv_OwnerSubject r))"

text \<open>The number of stored reservations with a property.\<close>

definition reservationsOf :: "(reservation \<Rightarrow> bool) \<Rightarrow> store \<Rightarrow> nat" where
  "reservationsOf p st = card {k. \<exists>r. bget (st_assignments st) k = Some (Val r) \<and> p r}"

lemma gcReservationsLoop_spec:
  assumes "gcReservationsLoop now entries (b, n) = Inr (b', n')" and "distinct (map fst entries)"
  shows "bget b' k = (if \<exists>r. (k, Val r) \<in> set entries \<and> asg_ExpiresAt (rsv_Assignment r) \<le> now then None else bget b k)
    \<and> (bordered b \<longrightarrow> bordered b') \<and> n' = n + int (length (filter (\<lambda>e. case snd e of Val r \<Rightarrow> asg_ExpiresAt (rsv_Assignment r) \<le> now | Garbled \<Rightarrow> False) entries))"
  using assms
proof (induction entries arbitrary: b n)
  case (Cons e rest)
  obtain key c where e: "e = (key, c)" by force
  from Cons.prems e obtain saved where c: "c = Val saved" by (cases c) auto
  have new: "\<And>r. (key, Val r) \<notin> set rest" "distinct (map fst rest)" using Cons.prems(2) e by (force)+
  show ?case
  proof (cases "now < asg_ExpiresAt (rsv_Assignment saved)")
    case True
    then have "gcReservationsLoop now rest (b, n) = Inr (b', n')" using Cons.prems(1) e c by simp
    from Cons.IH [OF this new(2)] True new(1) e c show ?thesis by (auto split: if_splits)
  next
    case False
    then have "gcReservationsLoop now rest (bdelete key b, n + 1) = Inr (b', n')" using Cons.prems(1) e c by simp
    from Cons.IH [OF this new(2)] False new(1) e c show ?thesis
      by (auto simp: bucket_simps bordered_bdelete split: if_splits)
  qed
qed simp

lemma gcReservations_spec:
  assumes "bordered (st_assignments st)" and "garbageCollectReservations now st = Inr st'"
  shows "\<exists>b. st' = st\<lparr>st_assignments := b\<rparr> \<and> bordered b
    \<and> (\<forall>k. bget b k = (case bget (st_assignments st) k of
        Some (Val r) \<Rightarrow> (if asg_ExpiresAt (rsv_Assignment r) \<le> now then None else Some (Val r)) | c \<Rightarrow> c))"
proof -
  from assms(2) obtain b n where loop: "gcReservationsLoop now (st_assignments st) (st_assignments st, 0) = Inr (b, n)"
    and st': "st' = st\<lparr>st_assignments := b\<rparr>"
    by (auto simp: garbageCollectReservations_def garbageCollectReservationsCount_def bindE_eq_Inr)
  note spec = gcReservationsLoop_spec [OF loop bolt.entries_distinct [OF assms(1)]]
  have "bget b k = (case bget (st_assignments st) k of
        Some (Val r) \<Rightarrow> (if asg_ExpiresAt (rsv_Assignment r) \<le> now then None else Some (Val r)) | c \<Rightarrow> c)" for k
    using spec [of k] bordered_get [OF assms(1), of k] by (auto split: option.splits cell.splits if_splits)
  then show ?thesis using st' spec assms(1) by blast
qed

lemma countE_filter: "bordered b \<Longrightarrow> bolt.countE p b = length (filter (\<lambda>(k, v). p k v) b)"
proof -
  assume ord: "bordered b"
  have "{k. \<exists>v. bget b k = Some v \<and> p k v} = fst ` set (filter (\<lambda>(k, v). p k v) b)"
    using bordered_get [OF ord] by force
  moreover have "distinct (map fst (filter (\<lambda>(k, v). p k v) b))"
    using bolt.entries_distinct [OF ord] by (rule distinct_map_filter)
  ultimately show ?thesis unfolding bolt.countE_def by (metis distinct_card length_map set_map)
qed

lemma reservationCountsLoop_spec:
  "reservationCountsLoop owner b (t, n) = Inr (t', n') \<Longrightarrow> t' = t + int (length b)
    \<and> n' = n + int (length (filter (\<lambda>(k, c). \<exists>r. c = Val r \<and> rsv_OwnerSubject r = owner) b))
    \<and> (\<forall>(k, c) \<in> set b. c \<noteq> Garbled)"
proof (induction b arbitrary: t n)
  case (Cons e rest)
  obtain key c where e: "e = (key, c)" by force
  from Cons.prems e obtain saved where c: "c = Val saved" by (cases c) auto
  from Cons.IH [of "t + 1" "if rsv_OwnerSubject saved = owner then n + 1 else n"] Cons.prems e c
  show ?case by (auto split: if_splits)
qed simp

lemma reservationCounts_exact:
  assumes "bordered (st_assignments st)" and "reservationCounts (st_assignments st) owner = Inr (count, owned)"
  shows "count = int (reservationsOf (\<lambda>_. True) st)" "owned = int (reservationsOf (\<lambda>r. rsv_OwnerSubject r = owner) st)"
proof -
  let ?b = "st_assignments st"
  note loop = reservationCountsLoop_spec [OF assms(2) [unfolded reservationCounts_def]]
  have clean: "bget ?b k = Some c \<Longrightarrow> \<exists>r. c = Val r" for k c
    using loop bordered_get [OF assms(1), of k c] by (cases c) fastforce+
  have "reservationsOf (\<lambda>_. True) st = bolt.countE (\<lambda>_ _. True) ?b"
    unfolding reservationsOf_def bolt.countE_def using clean by (intro arg_cong [of _ _ card]) auto
  moreover have "bolt.countE (\<lambda>_ _. True) ?b = length ?b" using countE_filter [OF assms(1), of "\<lambda>_ _. True"] by simp
  ultimately show "count = int (reservationsOf (\<lambda>_. True) st)" using loop by simp
  have "reservationsOf (\<lambda>r. rsv_OwnerSubject r = owner) st = bolt.countE (\<lambda>_ c. \<exists>r. c = Val r \<and> rsv_OwnerSubject r = owner) ?b"
    unfolding reservationsOf_def bolt.countE_def by (intro arg_cong [of _ _ card]) auto
  then show "owned = int (reservationsOf (\<lambda>r. rsv_OwnerSubject r = owner) st)"
    using loop countE_filter [OF assms(1)] by simp
qed

lemma reservationsOf_put:
  assumes "bordered (st_assignments st)" and "bget (st_assignments st) key = None"
  shows "reservationsOf p (putReservation key r st) = reservationsOf p st + (if p (persistReservation r) then 1 else 0)"
proof -
  let ?q = "\<lambda>_ c. \<exists>r. c = Val r \<and> p r"
  have eq: "reservationsOf p s = bolt.countE ?q (st_assignments s)" for s
    unfolding reservationsOf_def bolt.countE_def by (intro arg_cong [of _ _ card]) auto
  show ?thesis unfolding eq putReservation_def using bolt.count_put_new [OF assms, of ?q] by (simp add: putJSON_def)
qed

section \<open>What reserving guarantees\<close>

lemma gcLocks_frame:
  "garbageCollectAdapterSessionLocks now st = Inr (n, st') \<Longrightarrow> outsideLocks st' = outsideLocks st"
  by (auto simp: garbageCollectAdapterSessionLocks_def bindE_eq_Inr outsideLocks_def)

lemma outsideLocks_assignments: "outsideLocks st' = outsideLocks st \<Longrightarrow> st_assignments st' = st_assignments st"
proof -
  assume "outsideLocks st' = outsideLocks st"
  moreover have "st_assignments (outsideLocks s) = st_assignments s" for s by (simp add: outsideLocks_def)
  ultimately show ?thesis by metis
qed

lemma reserveTx_spec:
  assumes wf: "bordered (st_assignments st)"
    and run: "reserveTx L now asg secret owner maxGlobal maxOwner st = Inr (u, st')"
  shows "\<exists>mid. bordered (st_assignments mid) \<and> sameJobs st mid \<and> sameLogs st mid
    \<and> (\<forall>k. bget (st_assignments mid) k = (case bget (st_assignments st) k of
        Some (Val r) \<Rightarrow> (if asg_ExpiresAt (rsv_Assignment r) \<le> now then None else Some (Val r)) | c \<Rightarrow> c))
    \<and> bget (st_assignments mid) (asg_ID asg) = None
    \<and> (0 < maxGlobal \<longrightarrow> int (reservationsOf (\<lambda>_. True) mid) < maxGlobal)
    \<and> (0 < maxOwner \<longrightarrow> int (reservationsOf (\<lambda>r. rsv_OwnerSubject r = owner) mid) < maxOwner)
    \<and> st' = putReservation (asg_ID asg) \<lparr>rsv_Assignment = asg, rsv_SecretHash = tokenHash L secret, rsv_OwnerSubject = owner\<rparr> mid"
proof -
  from run obtain s1 n s2 count owned s3 where
    gc: "garbageCollectReservations now st = Inr s1" and gl: "garbageCollectAdapterSessionLocks now s1 = Inr (n, s2)"
    and new: "bget (st_assignments s2) (asg_ID asg) = None"
    and cnt: "reservationCounts (st_assignments s2) owner = Inr (count, owned)"
    and cap: "\<not> (maxGlobal > 0 \<and> count \<ge> maxGlobal)" "\<not> (maxOwner > 0 \<and> owned \<ge> maxOwner)"
    and acq: "acquireAdapterSessionLockTx L owner (asg_Requirements asg) adapterSessionLockAssignment (asg_ID asg) (asg_ExpiresAt asg) now
              (adapterSessionNeedsLockTx L (asg_Requirements asg) (asg_NodeID asg)) s2 = Inr s3"
    and st': "st' = putReservation (asg_ID asg) \<lparr>rsv_Assignment = asg, rsv_SecretHash = tokenHash L secret, rsv_OwnerSubject = owner\<rparr> s3"
    unfolding reserveTx_def bindE_eq_Inr failWhen_eq_Inr by (auto simp: bindE_eq_Inr failWhen_eq_Inr)
  from gcReservations_spec [OF wf gc] obtain b where s1: "s1 = st\<lparr>st_assignments := b\<rparr>" "bordered b"
    "\<And>k. bget b k = (case bget (st_assignments st) k of
        Some (Val r) \<Rightarrow> (if asg_ExpiresAt (rsv_Assignment r) \<le> now then None else Some (Val r)) | c \<Rightarrow> c)" by blast
  note o = gcLocks_frame [OF gl] acquire_outside [OF acq]
  have a: "st_assignments s2 = b" "st_assignments s3 = b" using outsideLocks_assignments [OF o(1)] outsideLocks_assignments [OF o(2)] s1(1) by simp_all
  have "sameJobs st s1" "sameLogs st s1" by (simp_all add: s1(1) sameJobs_def sameLogs_def)
  then have "sameJobs st s3" "sameLogs st s3"
    using outsideLocks_fields(1,2) [OF o(1)] outsideLocks_fields(1,2) [OF o(2)] sameJobs_trans sameLogs_trans by blast+
  moreover have "reservationsOf p s2 = reservationsOf p s3" for p by (simp add: reservationsOf_def a)
  then have "0 < maxGlobal \<longrightarrow> int (reservationsOf (\<lambda>_. True) s3) < maxGlobal"
    "0 < maxOwner \<longrightarrow> int (reservationsOf (\<lambda>r. rsv_OwnerSubject r = owner) s3) < maxOwner"
    using reservationCounts_exact [of s2 owner count owned] cnt cap a s1(2) by auto
  moreover have "bordered (st_assignments s3)" "bget (st_assignments s3) (asg_ID asg) = None"
    "\<forall>k. bget (st_assignments s3) k = (case bget (st_assignments st) k of
        Some (Val r) \<Rightarrow> (if asg_ExpiresAt (rsv_Assignment r) \<le> now then None else Some (Val r)) | c \<Rightarrow> c)"
    using s1(2,3) new unfolding a by auto
  ultimately show ?thesis using st' by blast
qed

lemma checkRequest_spec:
  "checkReservationRequest L now asg secret owner = Inr asg' \<Longrightarrow> owner \<noteq> [] \<and> validJobID (asg_ID asg) \<and> validJobID (asg_JobID asg)
    \<and> now < asg_ExpiresAt asg \<and> (asg_Attempt asg = 0 \<or> asg_Attempt asg = 1)
    \<and> asg' = asg\<lparr>asg_OwnerSubject := owner, asg_Attempt := 1\<rparr>"
  by (auto simp: checkReservationRequest_def Let_def bindE_eq_Inr failWhen_eq_Inr split: if_splits)

text \<open>a reservation is admitted within its bounds. Expired reservations are removed first, so that
  only live ones count; after a successful call the global and the per-owner number of reservations
  respect their limits, all reservations are live, the new one is stored under its id with the hash of
  its secret and its owner, and jobs and queue are untouched.\<close>

theorem reservations_bounded:
  assumes "reservationsWF st" and "CreateReservationAdmitted L now asg secret owner maxGlobal maxOwner st = (Inr u, st')"
  shows "reservationsWF st' \<and> sameJobs st st'
    \<and> (\<forall>k r. bget (st_assignments st') k = Some (Val r) \<longrightarrow> now < asg_ExpiresAt (rsv_Assignment r))
    \<and> (0 < maxGlobal \<longrightarrow> int (reservationsOf (\<lambda>_. True) st') \<le> maxGlobal)
    \<and> (0 < maxOwner \<longrightarrow> int (reservationsOf (\<lambda>r. rsv_OwnerSubject r = cleanLabel owner 120) st') \<le> maxOwner)
    \<and> (\<exists>r. getJSON (st_assignments st') (asg_ID asg) = Inr r \<and> rsv_OwnerSubject r = cleanLabel owner 120
         \<and> rsv_SecretHash r = tokenHash L secret \<and> asg_JobID (rsv_Assignment r) = asg_JobID asg)"
proof -
  let ?owner = "cleanLabel owner 120"
  from assms(2) obtain asg' where chk: "checkReservationRequest L now asg secret ?owner = Inr asg'"
    and run: "reserveTx L now asg' secret ?owner maxGlobal maxOwner st = Inr (u, st')"
    by (auto simp: CreateReservationAdmitted_def Let_def update_Inr split: sum.splits)
  note c = checkRequest_spec [OF chk]
  let ?r = "\<lparr>rsv_Assignment = asg', rsv_SecretHash = tokenHash L secret, rsv_OwnerSubject = ?owner\<rparr>"
  have ord: "bordered (st_assignments st)" using assms(1) by (simp add: reservationsWF_def)
  from reserveTx_spec [OF ord run] obtain mid where m: "bordered (st_assignments mid)" "sameJobs st mid"
    and live: "\<And>k. bget (st_assignments mid) k = (case bget (st_assignments st) k of
        Some (Val r) \<Rightarrow> (if asg_ExpiresAt (rsv_Assignment r) \<le> now then None else Some (Val r)) | c \<Rightarrow> c)"
    and new: "bget (st_assignments mid) (asg_ID asg') = None"
    and cap: "0 < maxGlobal \<longrightarrow> int (reservationsOf (\<lambda>_. True) mid) < maxGlobal"
      "0 < maxOwner \<longrightarrow> int (reservationsOf (\<lambda>r. rsv_OwnerSubject r = ?owner) mid) < maxOwner"
    and st': "st' = putReservation (asg_ID asg') ?r mid" by blast
  have id: "asg_ID asg' = asg_ID asg" "asg_JobID asg' = asg_JobID asg" "asg_ExpiresAt asg' = asg_ExpiresAt asg" using c by simp_all
  have get: "bget (st_assignments st') k = (if k = asg_ID asg then Some (Val (persistReservation ?r)) else bget (st_assignments mid) k)" for k
    by (simp add: st' putReservation_def bucket_simps id)
  have old: "\<exists>r. bget (st_assignments st) k = Some (Val r) \<and> v = Val r \<and> now < asg_ExpiresAt (rsv_Assignment r)"
    if "bget (st_assignments mid) k = Some v" for k v
    using that live [of k] assms(1) by (auto simp: reservationsWF_def split: option.splits cell.splits if_splits)
  have "reservationsWF st'"
    unfolding reservationsWF_def get
  proof (intro conjI allI impI)
    show "bordered (st_assignments st')" using m(1) by (simp add: st' putReservation_def bordered_putJSON)
    fix k v assume "(if k = asg_ID asg then Some (Val (persistReservation ?r)) else bget (st_assignments mid) k) = Some v"
    then show "\<exists>r. v = Val r \<and> asg_ID (rsv_Assignment r) = k \<and> validJobID (asg_JobID (rsv_Assignment r))
        \<and> asg_Attempt (rsv_Assignment r) = 1 \<and> rsv_OwnerSubject r \<noteq> [] \<and> asg_OwnerSubject (rsv_Assignment r) = rsv_OwnerSubject r"
      using c old [of k v] assms(1) by (cases "k = asg_ID asg") (auto simp: persistReservation_def reservationsWF_def)
  qed
  moreover have "sameJobs st st'" using m(2) by (simp add: st' putReservation_def sameJobs_def)
  moreover have "now < asg_ExpiresAt (rsv_Assignment r)" if "bget (st_assignments st') k = Some (Val r)" for k r
    using that old [of k "Val r"] c by (auto simp: get persistReservation_def split: if_splits)
  moreover have "0 < maxGlobal \<longrightarrow> int (reservationsOf (\<lambda>_. True) st') \<le> maxGlobal"
    "0 < maxOwner \<longrightarrow> int (reservationsOf (\<lambda>r. rsv_OwnerSubject r = ?owner) st') \<le> maxOwner"
    using cap reservationsOf_put [OF m(1) new] by (auto simp: st' persistReservation_def)
  ultimately show ?thesis using get [of "asg_ID asg"] id by (auto simp: getJSON_eq_Inr persistReservation_def)
qed

section \<open>What consuming guarantees\<close>

lemma fileNewJobTx_assignments:
  assumes "fileNewJobTx L job owner key hash now st = Inr st'"
  shows "st_assignments st' = st_assignments st"
proof -
  from assms obtain s2 s3 s4 s5 s6 where
    s2: "putExecutionScopeLookup L (job_ID job) (job_OwnerSubject job) (job_TenantID job) (putJob (job_ID job) job st) = Inr s2" and
    s3: "putQueueEntry job (putJobOwnerIndex L job (s2\<lparr>st_jobIndex := bput (jobIndexKey job) (job_ID job) (st_jobIndex s2)\<rparr>)) = Inr s3" and
    s4: "(if key = [] then Inr s3 else saveIdempotentJobTx L owner key hash (job_ID job) s3) = Inr s4" and
    s5: "appendAuthoritativeJobEventTx now job ''job.accepted'' s4 = Inr s5" and
    s6: "appendAuthoritativeJobEventTx now job ''job.queued'' s5 = Inr s6" and
    s7: "appendPipelineStepEventTx now job ''pipeline.step.queued'' s6 = Inr st'"
    unfolding fileNewJobTx_def Let_def bindE_eq_Inr by blast
  have "st_assignments s2 = st_assignments st" using s2 by (auto simp: putExecutionScopeLookup_def result_simps putJob_def)
  moreover have "st_assignments s3 = st_assignments s2"
    using putQueueEntry_outside [OF s3] by (auto simp: outsideQueue_def putJobOwnerIndex_def dest: arg_cong [of _ _ st_assignments])
  moreover have "st_assignments s4 = st_assignments s3" using s4 by (auto simp: saveIdempotentJobTx_def Let_def split: if_splits)
  ultimately show ?thesis
    using outsideLogs_fields [OF append_outside(2) [OF s5]] outsideLogs_fields [OF append_outside(2) [OF s6]]
      outsideLogs_fields [OF append_outside(3) [OF s7]] by simp
qed

lemma promote_same:
  assumes "promoteAdapterSessionLockTx L saved job now st = Inr st'"
  shows "sameJobs st st'" "sameLogs st st'" "st_assignments st' = st_assignments st"
  using outsideLocks_fields(1,2) [OF promote_outside [OF assms]] outsideLocks_assignments [OF promote_outside [OF assms]] by auto

lemma checkSaved_spec:
  "checkSavedReservation L now secret requestedJobID tenant owner expectedPolicy saved = Inr () \<longleftrightarrow>
     now < asg_ExpiresAt (rsv_Assignment saved) \<and> rsv_SecretHash saved = tokenHash L secret
     \<and> rsv_OwnerSubject saved \<noteq> [] \<and> rsv_OwnerSubject saved = owner \<and> asg_OwnerSubject (rsv_Assignment saved) = owner
     \<and> (requestedJobID = [] \<or> requestedJobID = asg_JobID (rsv_Assignment saved)) \<and> tenant = asg_TenantID (rsv_Assignment saved)
     \<and> (\<forall>policy. expectedPolicy = Some policy \<longrightarrow> EquivalentAuthorization (asg_PolicyDecision (rsv_Assignment saved)) policy)
     \<and> asg_Attempt (rsv_Assignment saved) = 1"
  by (auto simp: checkSavedReservation_def Let_def bindE_eq_Inr failWhen_eq_Inr constantEqual_def split: option.splits)

lemma consumeTx_new:
  assumes "consumeReservationTx L now resID secret requestedJobID sealed authorization source tenant owner priority attempts maxQueued limits
     key hash expectedPolicy st = Inr ((job, False), st')"
  shows "\<exists>saved s1 s2 s3. getJSON (st_assignments st) resID = Inr saved
    \<and> checkSavedReservation L now secret requestedJobID tenant owner expectedPolicy saved = Inr ()
    \<and> job = promotedJob now (rsv_Assignment saved) sealed authorization source priority attempts
    \<and> bget (st_jobs st) (job_ID job) = None \<and> checkQueueCapacity owner maxQueued limits st = Inr ()
    \<and> consumeProducerRateLimitTx owner (lim_MaxJobsPerHour limits) now st = Inr s1
    \<and> promoteAdapterSessionLockTx L saved job now s1 = Inr s2 \<and> fileNewJobTx L job owner key hash now s2 = Inr s3
    \<and> st' = s3\<lparr>st_assignments := bdelete resID (st_assignments s3)\<rparr>"
proof -
  from assms obtain existing where
    "(case existing of Some found \<Rightarrow> Inr ((found, True), st)
     | None \<Rightarrow>
         bindE (getJSON (st_assignments st) resID) (\<lambda>saved.
         bindE (checkSavedReservation L now secret requestedJobID tenant owner expectedPolicy saved) (\<lambda>_.
         let job = promotedJob now (rsv_Assignment saved) sealed authorization source priority attempts in
         bindE (promoteReservationTx L now resID saved job owner maxQueued limits key hash st) (\<lambda>st.
         Inr ((job, False), st))))) = Inr ((job, False), st')"
    unfolding consumeReservationTx_def bindE_eq_Inr by blast
  then obtain saved where "getJSON (st_assignments st) resID = Inr saved"
    "checkSavedReservation L now secret requestedJobID tenant owner expectedPolicy saved = Inr ()"
    "job = promotedJob now (rsv_Assignment saved) sealed authorization source priority attempts"
    "promoteReservationTx L now resID saved job owner maxQueued limits key hash st = Inr st'"
    by (cases existing) (auto simp: bindE_eq_Inr Let_def)
  moreover from this(4) obtain s1 s2 s3 where "bget (st_jobs st) (job_ID job) = None" "checkQueueCapacity owner maxQueued limits st = Inr ()"
    "consumeProducerRateLimitTx owner (lim_MaxJobsPerHour limits) now st = Inr s1"
    "promoteAdapterSessionLockTx L saved job now s1 = Inr s2" "fileNewJobTx L job owner key hash now s2 = Inr s3"
    "st' = s3\<lparr>st_assignments := bdelete resID (st_assignments s3)\<rparr>"
    unfolding promoteReservationTx_def bindE_eq_Inr failWhen_eq_Inr by auto
  ultimately show ?thesis by blast
qed

lemma promoted_fields:
  "job_ID (promotedJob now asg sealed authorization source priority attempts) = asg_JobID asg"
  "job_Status (promotedJob now asg sealed authorization source priority attempts) = JobQueued"
  "job_AssignedNode (promotedJob now asg sealed authorization source priority attempts) = asg_NodeID asg"
  "job_SealedPayload (promotedJob now asg sealed authorization source priority attempts) = sealed"
  "job_OwnerSubject (promotedJob now asg sealed authorization source priority attempts) = asg_OwnerSubject asg"
  "job_TenantID (promotedJob now asg sealed authorization source priority attempts) = asg_TenantID asg"
  "job_Requirements (promotedJob now asg sealed authorization source priority attempts) = asg_Requirements asg"
  "job_Attempt (promotedJob now asg sealed authorization source priority attempts) = 0"
  by (simp_all add: promotedJob_def zeroJob_def)

lemma promoted_wf:
  "validJobID (asg_JobID asg) \<Longrightarrow> - 100 \<le> priority \<Longrightarrow> priority \<le> 100 \<Longrightarrow> attempts \<le> maxInt64 \<Longrightarrow>
   jobWF (asg_JobID asg) (promotedJob now asg sealed authorization source priority attempts)"
  by (auto simp: jobWF_def promotedJob_def zeroJob_def jobStatuses_def status_defs maxInt64_def)

lemma reservationsWF_delete:
  "reservationsWF st \<Longrightarrow> st_assignments st' = bdelete k (st_assignments st) \<Longrightarrow> reservationsWF st'"
  by (auto simp: reservationsWF_def bordered_bdelete bucket_simps)

lemma consumeTx_inv:
  assumes inv: "storeInv st" and wf: "reservationsWF st" and pr: "- 100 \<le> priority" "priority \<le> 100" "attempts \<le> maxInt64"
    and run: "consumeReservationTx L now resID secret requestedJobID sealed authorization source tenant owner priority attempts maxQueued limits
     key hash expectedPolicy st = Inr ((job, False), st')"
  shows "storeInv st' \<and> reservationsWF st' \<and> bget (st_assignments st') resID = None \<and> bget (st_jobs st) (job_ID job) = None
    \<and> st_jobs st' = putJSON (job_ID job) (persistJob job) (st_jobs st) \<and> jobWF (job_ID job) job
    \<and> queuedEntry st' (job_ID job) = Some (queueKey job, queueEntryOf job)"
proof -
  from consumeTx_new [OF run] obtain saved s1 s2 s3 where saved: "getJSON (st_assignments st) resID = Inr saved"
    and job: "job = promotedJob now (rsv_Assignment saved) sealed authorization source priority attempts"
    and new: "bget (st_jobs st) (job_ID job) = None"
    and s1: "consumeProducerRateLimitTx owner (lim_MaxJobsPerHour limits) now st = Inr s1"
    and s2: "promoteAdapterSessionLockTx L saved job now s1 = Inr s2" and s3: "fileNewJobTx L job owner key hash now s2 = Inr s3"
    and st': "st' = s3\<lparr>st_assignments := bdelete resID (st_assignments s3)\<rparr>" by blast
  have valid: "validJobID (asg_JobID (rsv_Assignment saved))" using wf saved by (force simp: reservationsWF_def getJSON_eq_Inr)
  have jwf: "jobWF (job_ID job) job" "job_Status job = JobQueued"
    using promoted_wf [OF valid pr] by (simp_all add: job promoted_fields)
  have same: "sameJobs st s2" "sameLogs st s2"
    using rate_same [OF s1] promote_same(1,2) [OF s2] sameJobs_trans sameLogs_trans by blast+
  have inv2: "storeInv s2" by (rule storeInv_frame [OF inv same])
  from fileNewJobTx_inv [OF inv2 jwf s3] have f: "storeInv s3" "st_jobs s3 = putJSON (job_ID job) (persistJob job) (st_jobs s2)"
    "queuedEntry s3 (job_ID job) = Some (queueKey job, queueEntryOf job)" by auto
  have same3: "sameJobs s3 st'" "sameLogs s3 st'" by (simp_all add: st' sameJobs_def sameLogs_def)
  have "st_assignments s1 = st_assignments st"
    using s1 by (auto simp: consumeProducerRateLimitTx_def Let_def split: if_splits sum.splits)
  then have a: "st_assignments st' = bdelete resID (st_assignments st)"
    using promote_same(3) [OF s2] fileNewJobTx_assignments [OF s3] by (simp add: st')
  show ?thesis
    using storeInv_frame [OF f(1) same3] reservationsWF_delete [OF wf a] a f(2,3) same(1) sameJobs_queued [OF same3(1)]
      sameJobs_jobs [OF same3(1)] new jwf(1) by (simp add: bucket_simps sameJobs_jobs)
qed


section \<open>Witnesses\<close>

definition witnessAssignment :: assignment where
  "witnessAssignment = \<lparr>asg_ID = ''res-1'', asg_JobID = ''job-1'', asg_NodeID = ''node-a'', asg_NodeName = [], asg_PublicKey = [],
     asg_PoolCertificate = None, asg_Attempt = 1, asg_OwnerSubject = ''alice'', asg_TenantID = [], asg_ExpiresAt = 100,
     asg_Requirements = zeroRequirements\<lparr>req_Task := ''chat'', req_Provider := ''llama''\<rparr>, asg_PolicyDecision = zeroPolicy\<rparr>"

definition reservedStore :: store where
  "reservedStore = emptyStore\<lparr>st_assignments := [(''res-1'', Val \<lparr>rsv_Assignment = witnessAssignment,
     rsv_SecretHash = tokenHash plainLib ''s3cret'', rsv_OwnerSubject = ''alice''\<rparr>)]\<rparr>"

lemma witness_ids: "validJobID ''res-1''" "validJobID ''job-1''" "cleanLabel ''alice'' 120 = ''alice''"
  "\<not> equalFold plainLib (trimSpace ''llama'') ''adapter''" "trimSpace ''llama'' \<noteq> []"
  by (code_simp, code_simp, rule alice_clean) (simp_all add: trimSpace_word equalFold_ascii asciiLower_def)

lemma witness_not_eligible: "\<not> adapterSessionLockEligible plainLib (asg_Requirements witnessAssignment)"
  using witness_ids(4,5) by (simp add: adapterSessionLockEligible_def witnessAssignment_def zeroRequirements_def)

theorem reservations_bounded_witness:
  "\<exists>st'. CreateReservationAdmitted plainLib 5 witnessAssignment ''s3cret'' ''alice'' 1 1 emptyStore = (Inr (), st')
    \<and> int (reservationsOf (\<lambda>_. True) st') \<le> 1"
proof -
  have chk: "checkReservationRequest plainLib 5 witnessAssignment ''s3cret'' ''alice'' = Inr witnessAssignment"
    using witness_ids by (simp add: checkReservationRequest_def witnessAssignment_def validateTenantID_def ValidateAllowed_def zeroPolicy_def)
  have "nodeForAssignment emptyStore ''node-a'' = Inr zeroNode" by (simp add: nodeForAssignment_def getJSON_def bget_Nil)
  then obtain st' where "reserveTx plainLib 5 witnessAssignment ''s3cret'' ''alice'' 1 1 emptyStore = Inr ((), st')"
    using witness_not_eligible
    by (simp add: reserveTx_def garbageCollectReservations_def garbageCollectReservationsCount_def garbageCollectAdapterSessionLocks_def
        reservationCounts_def bget_Nil acquireAdapterSessionLockTx_def adapterSessionNeedsLockTx_def zeroNode_def)
      (simp add: witnessAssignment_def zeroNode_def)
  then have run: "CreateReservationAdmitted plainLib 5 witnessAssignment ''s3cret'' ''alice'' 1 1 emptyStore = (Inr (), st')"
    using chk witness_ids(3) by (simp add: CreateReservationAdmitted_def update_def)
  have "reservationsWF emptyStore" by (simp add: reservationsWF_def bget_Nil)
  from reservations_bounded [OF this run] run show ?thesis by auto
qed


end
