(* ===== verification/Access_Tokens.thy ===== *)
theory Access_Tokens
  imports Reservations Scheduler
begin

text \<open>
  The bearer credentials of the relay (\<open>internal/cluster/store.go\<close>, \<open>CreateToken\<close> to
  \<open>ListTokens\<close>, \<open>AcquireRelayAuthority\<close>; the limits of \<open>scheduled_actions.go\<close> that a
  credential carries). A token is stored under its digest only. The bytes read from the random source
  are an argument, as elsewhere. The reserved identity \<open>relay-admin\<close> belongs to the credential of
  the configuration.
\<close>

section \<open>Random text\<close>

definition base64Digit :: "nat \<Rightarrow> char" where
  "base64Digit n = byteChar (if n < 26 then 65 + n else if n < 52 then 71 + n else if n < 62 then n - 4 else if n = 62 then 45 else 95)"

text \<open>\<open>base64.RawURLEncoding.EncodeToString\<close>.\<close>

fun encode :: "string \<Rightarrow> string" where
  "encode [] = []"
| "encode [a] = [base64Digit (byte a div 4), base64Digit (byte a mod 4 * 16)]"
| "encode [a, b] = [base64Digit (byte a div 4), base64Digit (byte a mod 4 * 16 + byte b div 16), base64Digit (byte b mod 16 * 4)]"
| "encode (a # b # c # rest) =
     base64Digit (byte a div 4) # base64Digit (byte a mod 4 * 16 + byte b div 16)
     # base64Digit (byte b mod 16 * 4 + byte c div 64) # base64Digit (byte c mod 64) # encode rest"

definition randomToken :: "string \<Rightarrow> string result \<Rightarrow> string result" where
  "randomToken pfx raw = bindE raw (\<lambda>bytes. Inr (pfx @ encode bytes))"

section \<open>Limits\<close>

definition validAdapterUID :: "string \<Rightarrow> bool" where
  "validAdapterUID value \<longleftrightarrow> length value = 36 \<and> hasPrefix value ''adp_'' \<and> hexDecodes (drop 4 value)"

fun adapterIDLoop :: "nat \<Rightarrow> string \<Rightarrow> bool" where
  "adapterIDLoop index [] = True"
| "adapterIDLoop index (c # cs) =
     (let alphaNumeric = (97 \<le> byte c \<and> byte c \<le> 122 \<or> 48 \<le> byte c \<and> byte c \<le> 57) in
      if index = 0 \<and> \<not> alphaNumeric then False
      else if index > 0 \<and> \<not> alphaNumeric \<and> c \<notin> set ''._-:'' then False
      else adapterIDLoop (Suc index) cs)"

definition validAdapterID :: "goLib \<Rightarrow> string \<Rightarrow> int \<Rightarrow> bool" where
  "validAdapterID L value maximum =
     (if value = [] \<or> int (length value) > maximum \<or> value \<noteq> toLower L value then False else adapterIDLoop 0 value)"

definition validScheduledActionKind :: "goLib \<Rightarrow> string \<Rightarrow> bool" where
  "validScheduledActionKind L value = validAdapterID L value 80"

definition validFixedOpaqueRef :: "goLib \<Rightarrow> string \<Rightarrow> string \<Rightarrow> bool" where
  "validFixedOpaqueRef L value pfx \<longleftrightarrow>
     length value = length pfx + 32 \<and> hasPrefix value pfx \<and> value = toLower L value \<and> hexDecodes (drop (length pfx) value)"

definition validScheduledDestinationRef :: "goLib \<Rightarrow> string \<Rightarrow> bool" where
  "validScheduledDestinationRef L value = validFixedOpaqueRef L value ''dst_''"

text \<open>The loops over a list of labels that must be valid and distinct up to case.\<close>

fun uniqueLabels :: "goLib \<Rightarrow> (string \<Rightarrow> bool) \<Rightarrow> string \<Rightarrow> string \<Rightarrow> string list \<Rightarrow> string list \<Rightarrow> unit result" where
  "uniqueLabels L valid invalidText duplicateText seen [] = Inr ()"
| "uniqueLabels L valid invalidText duplicateText seen (value # rest) =
     (if \<not> valid value then Inl (ErrText invalidText)
      else if toLower L value \<in> set seen then Inl (ErrText duplicateText)
      else uniqueLabels L valid invalidText duplicateText (toLower L value # seen) rest)"

definition validateUniqueScheduledValues :: "goLib \<Rightarrow> string list \<Rightarrow> (string \<Rightarrow> bool) \<Rightarrow> string \<Rightarrow> unit result" where
  "validateUniqueScheduledValues L values valid field =
     uniqueLabels L valid (''producer_limits.scheduled_actions.'' @ field @ '' contains an invalid value'')
       (''producer_limits.scheduled_actions.'' @ field @ '' contains a case-insensitive duplicate'') [] values"

definition validateScheduledTarget :: "goLib \<Rightarrow> string \<Rightarrow> scheduledActionTarget \<Rightarrow> string list \<Rightarrow> string list result" where
  "validateScheduledTarget L field target seen =
     bindE (failWhen (\<not> validAdapterUID (sat_AdapterUID target) \<or> sat_AdapterUID target \<noteq> toLower L (sat_AdapterUID target))
       (ErrText (''producer_limits.scheduled_actions.'' @ field @ ''.adapter_uid is invalid''))) (\<lambda>_.
     bindE (failWhen (toLower L (sat_AdapterUID target) \<in> set seen)
       (ErrText ''producer_limits.scheduled_actions.targets contains a duplicate adapter_uid'')) (\<lambda>_.
     bindE (failWhen (\<not> validRoutingLabel L (sat_AdapterProfile target) 80)
       (ErrText (''producer_limits.scheduled_actions.'' @ field @ ''.adapter_profile is invalid''))) (\<lambda>_.
     bindE (failWhen (\<not> validRoutingLabel L (sat_AdapterPrincipal target) 80)
       (ErrText (''producer_limits.scheduled_actions.'' @ field @ ''.adapter_principal is invalid''))) (\<lambda>_.
     bindE (failWhen (length (sat_ActionKinds target) < 1 \<or> length (sat_ActionKinds target) > 32)
       (ErrText (''producer_limits.scheduled_actions.'' @ field @ ''.action_kinds must contain 1 to 32 values''))) (\<lambda>_.
     bindE (failWhen (length (sat_DestinationRefs target) < 1 \<or> length (sat_DestinationRefs target) > 32)
       (ErrText (''producer_limits.scheduled_actions.'' @ field @ ''.destination_refs must contain 1 to 32 values''))) (\<lambda>_.
     bindE (validateUniqueScheduledValues L (sat_ActionKinds target) (validScheduledActionKind L) (field @ ''.action_kinds'')) (\<lambda>_.
     bindE (validateUniqueScheduledValues L (sat_DestinationRefs target) (validScheduledDestinationRef L) (field @ ''.destination_refs'')) (\<lambda>_.
     Inr (toLower L (sat_AdapterUID target) # seen)))))))))"

fun scheduledTargetsLoop :: "goLib \<Rightarrow> nat \<Rightarrow> scheduledActionTarget list \<Rightarrow> string list \<Rightarrow> unit result" where
  "scheduledTargetsLoop L index [] seen = Inr ()"
| "scheduledTargetsLoop L index (target # rest) seen =
     bindE (validateScheduledTarget L (''targets['' @ itoa (int index) @ '']'') target seen) (\<lambda>seen.
     scheduledTargetsLoop L (Suc index) rest seen)"

definition validateScheduledActionLimits :: "goLib \<Rightarrow> scheduledActionLimits option \<Rightarrow> unit result" where
  "validateScheduledActionLimits L limits =
     (case limits of
        None \<Rightarrow> Inr ()
      | Some l \<Rightarrow>
          bindE (failWhen (sal_Schema l \<noteq> ''contextbridge.scheduled-action-policy.v1'')
            (ErrText ''producer_limits.scheduled_actions.schema must be contextbridge.scheduled-action-policy.v1'')) (\<lambda>_.
          bindE (failWhen (length (sal_Targets l) < 1 \<or> length (sal_Targets l) > 16)
            (ErrText ''producer_limits.scheduled_actions.targets must contain 1 to 16 values'')) (\<lambda>_.
          bindE (scheduledTargetsLoop L 0 (sal_Targets l) []) (\<lambda>_.
          bindE (failWhen (sal_MaxActive l < 0 \<or> sal_MaxActive l > 100)
            (ErrText ''producer_limits.scheduled_actions.max_active must be 0 to 100'')) (\<lambda>_.
          bindE (failWhen (sal_MaxHorizonSeconds l < 0 \<or> sal_MaxHorizonSeconds l > 31536000)
            (ErrText ''producer_limits.scheduled_actions.max_horizon_seconds must be 0 to 31536000'')) (\<lambda>_.
          bindE (failWhen (sal_MinIntervalSeconds l \<noteq> 0 \<and> (sal_MinIntervalSeconds l < 60 \<or> sal_MinIntervalSeconds l > 31536000))
            (ErrText ''producer_limits.scheduled_actions.min_interval_seconds must be 0 or 60 to 31536000'')) (\<lambda>_.
          bindE (failWhen (sal_MaxOccurrences l < 0 \<or> sal_MaxOccurrences l > 366)
            (ErrText ''producer_limits.scheduled_actions.max_occurrences must be 0 to 366'')) (\<lambda>_.
          failWhen (sal_MaxDeliveryWindowSeconds l \<noteq> 0 \<and> (sal_MaxDeliveryWindowSeconds l < 30 \<or> sal_MaxDeliveryWindowSeconds l > 86400))
            (ErrText ''producer_limits.scheduled_actions.max_delivery_window_seconds must be 0 or 30 to 86400'')))))))))"

definition normalizeScheduledTarget :: "goLib \<Rightarrow> scheduledActionTarget \<Rightarrow> scheduledActionTarget" where
  "normalizeScheduledTarget L target =
     \<lparr>sat_AdapterUID = toLower L (trimSpace (sat_AdapterUID target)), sat_AdapterProfile = trimSpace (sat_AdapterProfile target),
      sat_AdapterPrincipal = trimSpace (sat_AdapterPrincipal target),
      sat_ActionKinds = sort (map (\<lambda>v. toLower L (trimSpace v)) (sat_ActionKinds target)),
      sat_DestinationRefs = sort (map (\<lambda>v. toLower L (trimSpace v)) (sat_DestinationRefs target))\<rparr>"

definition defaulted :: "int \<Rightarrow> int \<Rightarrow> int" where
  "defaulted value standard = (if value = 0 then standard else value)"

definition normalizeScheduledActionLimits :: "goLib \<Rightarrow> scheduledActionLimits option \<Rightarrow> scheduledActionLimits option" where
  "normalizeScheduledActionLimits L input = map_option (\<lambda>l.
     l\<lparr>sal_Targets := sortSlice (\<lambda>a b. sat_AdapterUID a < sat_AdapterUID b) (map (normalizeScheduledTarget L) (sal_Targets l)),
       sal_MaxActive := defaulted (sal_MaxActive l) 8, sal_MaxHorizonSeconds := defaulted (sal_MaxHorizonSeconds l) 604800,
       sal_MinIntervalSeconds := defaulted (sal_MinIntervalSeconds l) 900, sal_MaxOccurrences := defaulted (sal_MaxOccurrences l) 32,
       sal_MaxDeliveryWindowSeconds := defaulted (sal_MaxDeliveryWindowSeconds l) 3600\<rparr>) input"

definition validTenant :: "goLib \<Rightarrow> string \<Rightarrow> bool" where
  "validTenant L tenant \<longleftrightarrow> tenant \<noteq> [] \<and> validateTenantID L tenant = Inr ()"

definition validateObserverLimits :: "goLib \<Rightarrow> string \<Rightarrow> observerLimits \<Rightarrow> unit result" where
  "validateObserverLimits L role limits =
     bindE (failWhen (role \<noteq> ''observer'' \<and> (obs_AllowedSubjects limits \<noteq> [] \<or> obs_AllowedTenants limits \<noteq> []))
       (ErrText ''observer limits may only be assigned to observer tokens'')) (\<lambda>_.
     bindE (failWhen (length (obs_AllowedSubjects limits) > 32)
       (ErrText ''observer_limits.allowed_subjects accepts at most 32 subjects'')) (\<lambda>_.
     bindE (uniqueLabels L (\<lambda>v. validRoutingLabel L v 120) ''observer_limits.allowed_subjects contains an invalid subject''
       ''observer_limits.allowed_subjects contains a case-insensitive duplicate subject'' [] (obs_AllowedSubjects limits)) (\<lambda>_.
     bindE (failWhen (length (obs_AllowedTenants limits) > 32)
       (ErrText ''observer_limits.allowed_tenants accepts at most 32 tenant IDs'')) (\<lambda>_.
     uniqueLabels L (validTenant L) ''observer_limits.allowed_tenants contains an invalid tenant ID''
       ''observer_limits.allowed_tenants contains a case-insensitive duplicate tenant ID'' [] (obs_AllowedTenants limits)))))"

definition normalizeObserverLimits :: "observerLimits \<Rightarrow> observerLimits" where
  "normalizeObserverLimits limits =
     \<lparr>obs_AllowedSubjects = cleanList (obs_AllowedSubjects limits) 32 120, obs_AllowedTenants = cleanList (obs_AllowedTenants limits) 32 200\<rparr>"

definition producerOnly :: "producerLimits \<Rightarrow> bool" where
  "producerOnly l \<longleftrightarrow> lim_MaxQueuedJobs l \<noteq> 0 \<or> lim_MaxJobsPerHour l \<noteq> 0 \<or> lim_MaxPriority l \<noteq> None \<or> lim_Providers l \<noteq> []
     \<or> lim_AllowedTenants l \<noteq> [] \<or> lim_Egress l \<noteq> [] \<or> lim_RequireE2EE l \<or> lim_ScheduledActions l \<noteq> None"

definition maxQueuedJobsPerOwner :: int where "maxQueuedJobsPerOwner = 64"

definition validateProducerLimits :: "goLib \<Rightarrow> string \<Rightarrow> producerLimits \<Rightarrow> unit result" where
  "validateProducerLimits L role l =
     bindE (failWhen (role \<noteq> ''producer'' \<and> producerOnly l) (ErrText ''producer limits may only be assigned to producer tokens'')) (\<lambda>_.
     bindE (failWhen (lim_MaxQueuedJobs l < 0 \<or> lim_MaxQueuedJobs l > maxQueuedJobsPerOwner)
       (ErrText ''producer_limits.max_queued_jobs must be 0 to 64'')) (\<lambda>_.
     bindE (failWhen (lim_MaxJobsPerHour l < 0 \<or> lim_MaxJobsPerHour l > 1000000)
       (ErrText ''producer_limits.max_jobs_per_hour must be 0 to 1000000'')) (\<lambda>_.
     bindE (failWhen (case lim_MaxPriority l of None \<Rightarrow> False | Some p \<Rightarrow> p < 0 \<or> p > 100)
       (ErrText ''producer_limits.max_priority must be 0 to 100 when set'')) (\<lambda>_.
     bindE (failWhen (length (lim_Providers l) > 32) (ErrText ''producer_limits.providers accepts at most 32 providers'')) (\<lambda>_.
     bindE (uniqueLabels L (\<lambda>v. validRoutingLabel L v 80 \<and> \<not> containsStr v ''..'') ''producer_limits.providers contains an invalid provider''
       ''producer_limits.providers contains a duplicate provider'' [] (lim_Providers l)) (\<lambda>_.
     bindE (failWhen (length (lim_AllowedTenants l) > 32) (ErrText ''producer_limits.allowed_tenants accepts at most 32 tenant IDs'')) (\<lambda>_.
     bindE (uniqueLabels L (validTenant L) ''producer_limits.allowed_tenants contains an invalid tenant ID''
       ''producer_limits.allowed_tenants contains a case-insensitive duplicate tenant ID'' [] (lim_AllowedTenants l)) (\<lambda>_.
     bindE (failWhen (lim_Egress l \<noteq> [] \<and> lim_Egress l \<noteq> ''local_only'') (ErrText ''producer_limits.egress must be empty or local_only'')) (\<lambda>_.
     bindE (validateScheduledActionLimits L (lim_ScheduledActions l)) (\<lambda>_.
     bindE (failWhen (lim_ScheduledActions l \<noteq> None \<and> lim_RequireE2EE l)
       (ErrText ''producer_limits.scheduled_actions cannot be combined with require_e2ee'')) (\<lambda>_.
     failWhen (lim_ScheduledActions l \<noteq> None \<and> lim_Providers l \<noteq> [] \<and> \<not> containsFold L (lim_Providers l) ''adapter'')
       (ErrText ''producer_limits.scheduled_actions requires provider adapter when a provider allowlist is set''))))))))))))"

definition normalizeProducerLimits :: "goLib \<Rightarrow> producerLimits \<Rightarrow> producerLimits" where
  "normalizeProducerLimits L l =
     l\<lparr>lim_Providers := cleanList (lim_Providers l) 32 80, lim_AllowedTenants := cleanList (lim_AllowedTenants l) 32 200,
       lim_Egress := toLower L (trimSpace (lim_Egress l)), lim_ScheduledActions := normalizeScheduledActionLimits L (lim_ScheduledActions l)\<rparr>"

section \<open>Issuing and checking tokens\<close>

definition validTokenRole :: "string \<Rightarrow> bool" where
  "validTokenRole role \<longleftrightarrow> role = ''admin'' \<or> role = ''producer'' \<or> role = ''node'' \<or> role = ''observer''"

definition relayAdmin :: string where "relayAdmin = ''relay-admin''"

definition validateTokenIdentity :: "goLib \<Rightarrow> string \<Rightarrow> string \<Rightarrow> string list \<Rightarrow> unit result" where
  "validateTokenIdentity L role subject groups =
     bindE (failWhen (role = ''admin'' \<and> equalFold L (trimSpace subject) relayAdmin)
       (ErrText ''relay-admin is reserved for the configured bootstrap credential'')) (\<lambda>_.
     bindE (failWhen ((role = ''producer'' \<or> role = ''node'') \<and> \<not> validRoutingLabel L subject 120)
       (ErrText (role @ '' token subject must be 1 to 120 safe UTF-8 bytes''))) (\<lambda>_.
     bindE (failWhen (subject \<noteq> [] \<and> \<not> validRoutingLabel L subject 120)
       (ErrText ''token subject must be at most 120 safe UTF-8 bytes'')) (\<lambda>_.
     bindE (failWhen (length groups > 32) (ErrText ''token may contain at most 32 groups'')) (\<lambda>_.
     failWhen (list_ex (\<lambda>group. \<not> validRoutingLabel L group 80) groups)
       (ErrText ''token groups must contain 1 to 80 safe UTF-8 bytes'')))))"

definition zeroObserverLimits :: observerLimits where
  "zeroObserverLimits = \<lparr>obs_AllowedSubjects = [], obs_AllowedTenants = []\<rparr>"

definition plainRecord :: "string \<Rightarrow> string \<Rightarrow> string \<Rightarrow> string list \<Rightarrow> gotime \<Rightarrow> tokenRecord" where
  "plainRecord recordID role subject groups now =
     \<lparr>tok_ID = recordID, tok_Role = role, tok_Subject = subject, tok_Groups = groups, tok_ProducerLimits = zeroLimits,
      tok_ObserverLimits = zeroObserverLimits, tok_CreatedAt = now, tok_ExpiresAt = 0, tok_Revoked = False\<rparr>"

definition putToken :: "string \<Rightarrow> tokenRecord \<Rightarrow> store \<Rightarrow> store" where
  "putToken key r st = st\<lparr>st_tokens := putJSON key r (st_tokens st)\<rparr>"

definition CreateTokenWithPolicies ::
  "goLib \<Rightarrow> string result \<Rightarrow> string result \<Rightarrow> gotime \<Rightarrow> string \<Rightarrow> string \<Rightarrow> string list \<Rightarrow> duration \<Rightarrow> producerLimits \<Rightarrow> observerLimits \<Rightarrow>
   store \<Rightarrow> (string \<times> tokenRecord) result \<times> store" where
  "CreateTokenWithPolicies L rawToken rawID now role subject groups lifetime producerLimits observerLimits st =
     update (\<lambda>st.
       bindE (failWhen (\<not> validTokenRole role) (ErrText (''unsupported token role '' @ role))) (\<lambda>_.
       bindE (validateTokenIdentity L role subject groups) (\<lambda>_.
       bindE (validateProducerLimits L role producerLimits) (\<lambda>_.
       bindE (validateObserverLimits L role observerLimits) (\<lambda>_.
       bindE (failWhen (lifetime < 0 \<or> lifetime > 10 * 365 * 24 * hour) (ErrText ''token lifetime must be zero or at most 10 years'')) (\<lambda>_.
       bindE (randomToken (''cb_'' @ role @ ''_'') rawToken) (\<lambda>token.
       bindE (randomID ''tok'' rawID) (\<lambda>recordID.
       (let record = \<lparr>tok_ID = recordID, tok_Role = role, tok_Subject = cleanLabel subject 120, tok_Groups = cleanList groups 32 80,
              tok_ProducerLimits = normalizeProducerLimits L producerLimits, tok_ObserverLimits = normalizeObserverLimits observerLimits,
              tok_CreatedAt = now, tok_ExpiresAt = (if lifetime > 0 then now + lifetime else 0), tok_Revoked = False\<rparr>
        in Inr ((token, record), putToken (tokenHash L token) record st))))))))))  st"

definition CreateTokenWithLimits where
  "CreateTokenWithLimits L rawToken rawID now role subject groups lifetime limits =
     CreateTokenWithPolicies L rawToken rawID now role subject groups lifetime limits zeroObserverLimits"

definition CreateToken where
  "CreateToken L rawToken rawID now role subject groups lifetime =
     CreateTokenWithPolicies L rawToken rawID now role subject groups lifetime zeroLimits zeroObserverLimits"

definition EnsureToken ::
  "goLib \<Rightarrow> string result \<Rightarrow> gotime \<Rightarrow> string \<Rightarrow> string \<Rightarrow> string \<Rightarrow> string list \<Rightarrow> store \<Rightarrow> unit result \<times> store" where
  "EnsureToken L rawID now token role subject groups st =
     update (\<lambda>st.
       bindE (failWhen (length token < 32) (ErrText ''token must contain at least 32 characters'')) (\<lambda>_.
       bindE (failWhen (\<not> validTokenRole role) (ErrText (''unsupported token role '' @ role))) (\<lambda>_.
       bindE (validateTokenIdentity L role subject groups) (\<lambda>_.
       if bget (st_tokens st) (tokenHash L token) \<noteq> None then Inr ((), st)
       else bindE (randomID ''tok'' rawID) (\<lambda>recordID.
            Inr ((), putToken (tokenHash L token) (plainRecord recordID role (cleanLabel subject 120) (cleanList groups 32 80) now) st)))))) st"

definition keyBootstrapAdminHash :: string where "keyBootstrapAdminHash = ''bootstrap_admin_hash_v1''"

definition bootstrapIdentity :: "tokenRecord \<Rightarrow> bool" where
  "bootstrapIdentity r \<longleftrightarrow> tok_Role r = ''admin'' \<and> tok_Subject r = relayAdmin"

definition bootstrapUsable :: "tokenRecord \<Rightarrow> bool" where
  "bootstrapUsable r \<longleftrightarrow> \<not> (tok_Revoked r \<or> tok_ExpiresAt r \<noteq> 0 \<or> tok_Role r \<noteq> ''admin'' \<or> tok_Subject r \<noteq> relayAdmin)"

fun retireBootstrapLoop :: "string \<Rightarrow> (string \<times> tokenRecord cell) list \<Rightarrow> tokenRecord cell bucket \<Rightarrow> tokenRecord cell bucket result" where
  "retireBootstrapLoop currentHash [] tokens = Inr tokens"
| "retireBootstrapLoop currentHash ((key, value) # rest) tokens =
     (case value of
        Garbled \<Rightarrow> retireBootstrapLoop currentHash rest tokens
      | Val record \<Rightarrow>
          if \<not> bootstrapIdentity record then retireBootstrapLoop currentHash rest tokens
          else if key = currentHash
          then (if tok_Revoked record then Inl (ErrText ''configured bootstrap admin credential was previously retired; choose a new secret'')
                else retireBootstrapLoop currentHash rest tokens)
          else if \<not> tok_Revoked record
          then retireBootstrapLoop currentHash rest (putJSON key (record\<lparr>tok_Revoked := True\<rparr>) tokens)
          else retireBootstrapLoop currentHash rest tokens)"

definition installBootstrapTx :: "goLib \<Rightarrow> string result \<Rightarrow> gotime \<Rightarrow> string \<Rightarrow> store \<Rightarrow> store result" where
  "installBootstrapTx L rawID now currentHash st =
     bindE (case bget (st_tokens st) currentHash of
              Some (Val record) \<Rightarrow>
                bindE (failWhen (\<not> bootstrapUsable record)
                  (ErrText ''configured bootstrap admin secret collides with another or retired credential; choose a new secret'')) (\<lambda>_. Inr st)
            | Some Garbled \<Rightarrow> Inl (ErrText ''configured bootstrap admin credential metadata is invalid'')
            | None \<Rightarrow> bindE (randomID ''tok'' rawID) (\<lambda>recordID.
                Inr (putToken currentHash (plainRecord recordID ''admin'' relayAdmin [] now) st))) (\<lambda>st.
     Inr (st\<lparr>st_storeMeta := bput keyBootstrapAdminHash currentHash (st_storeMeta st)\<rparr>))"

definition ensureBootstrapTx :: "goLib \<Rightarrow> string result \<Rightarrow> gotime \<Rightarrow> string \<Rightarrow> store \<Rightarrow> store result" where
  "ensureBootstrapTx L rawID now currentHash st =
     (if bget (st_storeMeta st) keyBootstrapAdminHash = Some currentHash
      then (case getJSON (st_tokens st) currentHash of
              Inl _ \<Rightarrow> Inl (ErrText ''configured bootstrap admin credential metadata is inconsistent'')
            | Inr current \<Rightarrow>
                bindE (failWhen (\<not> bootstrapUsable current)
                  (ErrText ''configured bootstrap admin credential was retired; choose a new secret'')) (\<lambda>_. Inr st))
      else bindE (retireBootstrapLoop currentHash (st_tokens st) (st_tokens st)) (\<lambda>tokens.
           installBootstrapTx L rawID now currentHash (st\<lparr>st_tokens := tokens\<rparr>)))"

definition EnsureBootstrapAdminToken :: "goLib \<Rightarrow> string result \<Rightarrow> gotime \<Rightarrow> string \<Rightarrow> store \<Rightarrow> unit result \<times> store" where
  "EnsureBootstrapAdminToken L rawID now token st =
     update (\<lambda>st.
       bindE (failWhen (length token < 32) (ErrText ''token must contain at least 32 characters'')) (\<lambda>_.
       bindE (ensureBootstrapTx L rawID now (tokenHash L token) st) (\<lambda>st. Inr ((), st)))) st"

definition Authenticate :: "goLib \<Rightarrow> gotime \<Rightarrow> string \<Rightarrow> store \<Rightarrow> (tokenRecord \<times> string) option" where
  "Authenticate L now token st =
     (if token = [] then None
      else let hash = tokenHash L token in
           case getJSON (st_tokens st) hash of
             Inl _ \<Rightarrow> None
           | Inr record \<Rightarrow>
               if tok_Revoked record \<or> tok_ExpiresAt record \<noteq> 0 \<and> now > tok_ExpiresAt record then None else Some (record, hash))"

definition NodeCredentialValid :: "store \<Rightarrow> string \<Rightarrow> string \<Rightarrow> gotime \<Rightarrow> bool" where
  "NodeCredentialValid st hash nodeID now = validNodeCredentialTx st hash nodeID now"

fun findToken :: "string \<Rightarrow> (string \<times> tokenRecord cell) list \<Rightarrow> (string \<times> tokenRecord) option" where
  "findToken tokenID [] = None"
| "findToken tokenID ((key, Val record) # rest) = (if tok_ID record = tokenID then Some (key, record) else findToken tokenID rest)"
| "findToken tokenID ((key, Garbled) # rest) = findToken tokenID rest"

definition RevokeTokenWithHash :: "string \<Rightarrow> store \<Rightarrow> (tokenRecord \<times> string) result \<times> store" where
  "RevokeTokenWithHash tokenID st =
     update (\<lambda>st.
       case findToken tokenID (st_tokens st) of
         None \<Rightarrow> Inl ErrNotExist
       | Some (key, record) \<Rightarrow> (let record = record\<lparr>tok_Revoked := True\<rparr> in Inr ((record, key), putToken key record st))) st"

definition RevokeToken :: "string \<Rightarrow> store \<Rightarrow> unit result \<times> store" where
  "RevokeToken tokenID st = (let (r, st') = RevokeTokenWithHash tokenID st in (map_sum id (\<lambda>_. ()) r, st'))"

record tokenInventory =
  inv_Tokens :: "tokenRecord list"
  inv_Total :: int
  inv_Offset :: int
  inv_Limit :: int

fun tokenRecordsLoop :: "(string \<times> tokenRecord cell) list \<Rightarrow> tokenRecord list result" where
  "tokenRecordsLoop [] = Inr []"
| "tokenRecordsLoop ((key, value) # rest) =
     (case value of
        Garbled \<Rightarrow> Inl (ErrText ''token inventory contains invalid credential metadata'')
      | Val record \<Rightarrow>
          if tok_ID record = [] then Inl (ErrText ''token inventory contains invalid credential metadata'')
          else bindE (tokenRecordsLoop rest) (\<lambda>records. Inr (record # records)))"

definition newerToken :: "tokenRecord \<Rightarrow> tokenRecord \<Rightarrow> bool" where
  "newerToken a b = (if tok_CreatedAt a \<noteq> tok_CreatedAt b then tok_CreatedAt a > tok_CreatedAt b else tok_ID a < tok_ID b)"

definition ListTokens :: "int \<Rightarrow> int \<Rightarrow> store \<Rightarrow> tokenInventory result" where
  "ListTokens offset limit st =
     bindE (failWhen (offset < 0 \<or> offset > 1000000) (ErrText ''token inventory offset must be 0 to 1000000'')) (\<lambda>_.
     bindE (failWhen (limit < 1 \<or> limit > 200) (ErrText ''token inventory limit must be 1 to 200'')) (\<lambda>_.
     bindE (tokenRecordsLoop (st_tokens st)) (\<lambda>records.
     Inr \<lparr>inv_Tokens = take (nat limit) (drop (nat offset) (sortSlice newerToken records)), inv_Total = int (length records),
          inv_Offset = offset, inv_Limit = limit\<rparr>)))"

section \<open>The authority of a relay process\<close>

fun bigEndian :: "nat \<Rightarrow> nat \<Rightarrow> string" where
  "bigEndian 0 n = []"
| "bigEndian (Suc k) n = bigEndian k (n div 256) @ [byteChar (n mod 256)]"

definition readBigEndian :: "string \<Rightarrow> nat" where
  "readBigEndian s = foldl (\<lambda>n c. n * 256 + byte c) 0 s"

definition keyClusterID :: string where "keyClusterID = ''cluster_id_v1''"
definition keyRelayEpoch :: string where "keyRelayEpoch = ''relay_epoch_v1''"

definition AcquireRelayAuthority :: "goLib \<Rightarrow> string result \<Rightarrow> store \<Rightarrow> relayAuthority result \<times> store" where
  "AcquireRelayAuthority L raw st =
     update (\<lambda>st.
       bindE (case bget (st_storeMeta st) keyClusterID of
                Some (c # cs) \<Rightarrow> Inr (c # cs, st)
              | _ \<Rightarrow> bindE (randomToken ''cluster_'' raw) (\<lambda>generated.
                       Inr (generated, st\<lparr>st_storeMeta := bput keyClusterID generated (st_storeMeta st)\<rparr>))) (\<lambda>(clusterID, st).
       bindE (failWhen (\<not> validRoutingLabel L clusterID 120) (ErrText ''durable cluster identity is invalid'')) (\<lambda>_.
       bindE (case bget (st_storeMeta st) keyRelayEpoch of
                None \<Rightarrow> Inr 0
              | Some rawEpoch \<Rightarrow>
                  if rawEpoch = [] then Inr 0
                  else if length rawEpoch \<noteq> 8 then Inl (ErrText ''durable relay epoch is invalid'')
                  else Inr (of_nat (readBigEndian rawEpoch) :: u64)) (\<lambda>previous.
       bindE (failWhen (previous = - 1) (ErrText ''durable relay epoch is exhausted'')) (\<lambda>_.
       (let newEpoch = previous + 1 in
        Inr (\<lparr>auth_ClusterID = clusterID, auth_Epoch = newEpoch\<rparr>,
             st\<lparr>st_storeMeta := bput keyRelayEpoch (bigEndian 8 (unat newEpoch)) (st_storeMeta st)\<rparr>))))))) st"

section \<open>Stored subjects\<close>

lemma dropRunes_keeps:
  assumes "validUTF8 s" and "\<not> list_ex p (runes s)"
  shows "dropRunes p s = s"
proof -
  have "map (\<lambda>g. if p (runeOf g) then [] else if length g = 1 \<and> 128 \<le> byte (hd g) then encodeRune runeError else g) (chunks s) = chunks s"
  proof (rule map_idI)
    fix g
    assume g: "g \<in> set (chunks s)"
    with assms(2) have "\<not> p (runeOf g)" by (auto simp: runes_def list_ex_iff)
    moreover from g assms(1) have "\<not> (length g = 1 \<and> 128 \<le> byte (hd g))" unfolding validUTF8_def list_all_iff by blast
    ultimately show "(if p (runeOf g) then [] else if length g = 1 \<and> 128 \<le> byte (hd g) then encodeRune runeError else g) = g" by auto
  qed
  then show ?thesis unfolding dropRunes_def by simp
qed

lemma cleanLabel_valid:
  assumes "validRoutingLabel L value maximum" and "maximum \<le> limit"
  shows "cleanLabel value limit = value"
proof -
  have "dropRunes controlRune value = value"
    using assms(1) by (intro dropRunes_keeps) (auto simp: validRoutingLabel_def list_ex_iff)
  then show ?thesis using assms by (simp add: cleanLabel_def validRoutingLabel_def Let_def)
qed

lemma identity_not_bootstrap:
  assumes "validateTokenIdentity L role subject groups = Inr u" and "tok_Role r = role" and "tok_Subject r = cleanLabel subject 120"
  shows "\<not> bootstrapIdentity r"
proof
  assume "bootstrapIdentity r"
  then have admin: "role = ''admin''" "cleanLabel subject 120 = relayAdmin" using assms(2,3) by (simp_all add: bootstrapIdentity_def)
  then have "subject \<noteq> []" by (auto simp: cleanLabel_def relayAdmin_def dropRunes_def)
  with assms(1) admin(1) have v: "validRoutingLabel L subject 120" and n: "\<not> equalFold L (trimSpace subject) relayAdmin"
    by (auto simp: validateTokenIdentity_def result_simps)
  from cleanLabel_valid [OF v] admin(2) have "subject = relayAdmin" by simp
  moreover have "trimSpace subject = subject" using v by (simp add: validRoutingLabel_def)
  ultimately show False using n by simp
qed

section \<open>What the operations do to the credentials\<close>

lemma putToken_tokens [simp]: "bget (st_tokens (putToken k r st)) k' = (if k' = k then Some (Val r) else bget (st_tokens st) k')"
  by (simp add: putToken_def bucket_simps)

lemma putToken_meta [simp]: "st_storeMeta (putToken k r st) = st_storeMeta st"
  by (simp add: putToken_def)

lemma create_token_spec:
  assumes "CreateTokenWithPolicies L rawToken rawID now role subject groups lifetime pl ol st = (Inr (token, r), st')"
  shows "st' = putToken (tokenHash L token) r st \<and> token \<noteq> [] \<and> \<not> tok_Revoked r \<and> \<not> bootstrapIdentity r \<and> tok_Role r = role
    \<and> validTokenRole role \<and> tok_CreatedAt r = now \<and> tok_ExpiresAt r = (if lifetime > 0 then now + lifetime else 0)
    \<and> (\<exists>bytes. rawToken = Inr bytes \<and> token = ''cb_'' @ role @ ''_'' @ encode bytes)"
proof -
  from assms obtain recordID where role: "validTokenRole role" and i: "validateTokenIdentity L role subject groups = Inr ()"
    and t: "randomToken (''cb_'' @ role @ ''_'') rawToken = Inr token"
    and r: "r = \<lparr>tok_ID = recordID, tok_Role = role, tok_Subject = cleanLabel subject 120, tok_Groups = cleanList groups 32 80,
              tok_ProducerLimits = normalizeProducerLimits L pl, tok_ObserverLimits = normalizeObserverLimits ol,
              tok_CreatedAt = now, tok_ExpiresAt = (if lifetime > 0 then now + lifetime else 0), tok_Revoked = False\<rparr>"
    and st: "st' = putToken (tokenHash L token) r st"
    unfolding CreateTokenWithPolicies_def update_Inr by (auto simp: result_simps Let_def)
  have "\<not> bootstrapIdentity r" by (rule identity_not_bootstrap [OF i]) (simp_all add: r)
  then show ?thesis using role t r st by (auto simp: randomToken_def result_simps)
qed

lemma ensure_token_spec:
  assumes "EnsureToken L rawID now token role subject groups st = (Inr u, st')"
  shows "if bget (st_tokens st) (tokenHash L token) \<noteq> None then st' = st
    else \<exists>r. st' = putToken (tokenHash L token) r st \<and> \<not> tok_Revoked r \<and> \<not> bootstrapIdentity r"
proof -
  from assms have i: "validateTokenIdentity L role subject groups = Inr ()"
    unfolding EnsureToken_def update_Inr by (auto simp: result_simps)
  have "\<not> bootstrapIdentity (plainRecord recordID role (cleanLabel subject 120) (cleanList groups 32 80) now)" for recordID
    by (rule identity_not_bootstrap [OF i]) (simp_all add: plainRecord_def)
  then show ?thesis using assms unfolding EnsureToken_def update_Inr
    by (auto simp: result_simps plainRecord_def split: if_splits)
qed

lemma findToken_mem: "findToken tokenID b = Some (k, r) \<Longrightarrow> (k, Val r) \<in> set b \<and> tok_ID r = tokenID"
  by (induction tokenID b rule: findToken.induct) (auto split: if_splits)

lemma revoke_spec:
  assumes "RevokeTokenWithHash tokenID st = (Inr (r, k), st')"
  shows "\<exists>old. (k, Val old) \<in> set (st_tokens st) \<and> tok_ID old = tokenID \<and> r = old\<lparr>tok_Revoked := True\<rparr> \<and> st' = putToken k r st"
  using assms unfolding RevokeTokenWithHash_def update_Inr
  by (auto simp: Let_def split: option.splits dest: findToken_mem)

definition retired :: "string \<Rightarrow> string \<Rightarrow> tokenRecord cell option \<Rightarrow> tokenRecord cell option \<Rightarrow> tokenRecord cell option" where
  "retired h k c other = (case c of
      Some (Val r) \<Rightarrow> if bootstrapIdentity r \<and> k \<noteq> h \<and> \<not> tok_Revoked r then Some (Val (r\<lparr>tok_Revoked := True\<rparr>)) else other
    | _ \<Rightarrow> other)"

lemma bget_Cons: "bget ((key, c) # rest) k = (if k = key then Some c else bget rest k)"
  by (simp add: bget_def)

lemma retire_spec:
  assumes "retireBootstrapLoop h b tokens = Inr tokens'" and "bordered b"
  shows "bget tokens' k = retired h k (bget b k) (bget tokens k)"
  using assms
proof (induction b arbitrary: tokens)
  case (Cons entry rest)
  obtain key c where e: "entry = (key, c)" by fastforce
  have ord: "bordered rest" and fresh: "bget rest key = None"
    using Cons.prems(2) by (auto simp: e bordered_def bget_def map_of_eq_None_iff)
  define changed where "changed = (case c of Val r \<Rightarrow> bootstrapIdentity r \<and> key \<noteq> h \<and> \<not> tok_Revoked r | Garbled \<Rightarrow> False)"
  show ?case
  proof (cases changed)
    case True
    then obtain r where c: "c = Val r" "bootstrapIdentity r" "key \<noteq> h" "\<not> tok_Revoked r"
      by (auto simp: changed_def split: cell.splits)
    then have "retireBootstrapLoop h rest (putJSON key (r\<lparr>tok_Revoked := True\<rparr>) tokens) = Inr tokens'"
      using Cons.prems(1) by (simp add: e)
    from Cons.IH [OF this ord] c fresh show ?thesis by (auto simp: e bget_Cons retired_def bucket_simps)
  next
    case False
    then have "retireBootstrapLoop h rest tokens = Inr tokens'"
      using Cons.prems(1) by (auto simp: e changed_def split: cell.splits if_splits)
    from Cons.IH [OF this ord] False fresh show ?thesis
      by (auto simp: e bget_Cons retired_def changed_def split: cell.splits)
  qed
qed (simp add: retired_def bget_Nil)

lemma install_spec:
  assumes "installBootstrapTx L rawID now h st = Inr st'"
  shows "bget (st_storeMeta st') keyBootstrapAdminHash = Some h
    \<and> (\<exists>r. bget (st_tokens st') h = Some (Val r) \<and> bootstrapUsable r)
    \<and> (\<forall>c. bget (st_tokens st) h = Some c \<longrightarrow> bget (st_tokens st') h = Some c)
    \<and> (\<forall>k. k \<noteq> h \<longrightarrow> bget (st_tokens st') k = bget (st_tokens st) k)"
proof (cases "bget (st_tokens st) h")
  case None
  then obtain recordID where "st' = (putToken h (plainRecord recordID ''admin'' relayAdmin [] now) st)
      \<lparr>st_storeMeta := bput keyBootstrapAdminHash h (st_storeMeta st)\<rparr>"
    using assms by (auto simp: installBootstrapTx_def result_simps)
  then show ?thesis using None by (simp add: bucket_simps bootstrapUsable_def plainRecord_def)
next
  case (Some c)
  then obtain r where "c = Val r" "bootstrapUsable r" "st' = st\<lparr>st_storeMeta := bput keyBootstrapAdminHash h (st_storeMeta st)\<rparr>"
    using assms by (cases c) (auto simp: installBootstrapTx_def result_simps)
  then show ?thesis using Some by (simp add: bucket_simps)
qed

lemma bootstrapTx_spec:
  assumes "ensureBootstrapTx L rawID now h st = Inr st'" and "bordered (st_tokens st)"
  shows "bget (st_storeMeta st') keyBootstrapAdminHash = Some h
    \<and> (\<exists>r. bget (st_tokens st') h = Some (Val r) \<and> bootstrapUsable r)
    \<and> (if bget (st_storeMeta st) keyBootstrapAdminHash = Some h then st' = st
       else \<forall>k. k \<noteq> h \<longrightarrow> bget (st_tokens st') k = retired h k (bget (st_tokens st) k) (bget (st_tokens st) k))
    \<and> (\<forall>c. bget (st_tokens st) h = Some c \<longrightarrow> bget (st_tokens st') h = Some c)"
proof (cases "bget (st_storeMeta st) keyBootstrapAdminHash = Some h")
  case True
  then have "\<exists>r. getJSON (st_tokens st) h = Inr r \<and> bootstrapUsable r \<and> st' = st"
    using assms(1) by (cases "getJSON (st_tokens st) h") (auto simp: ensureBootstrapTx_def result_simps)
  then show ?thesis using True by (auto simp: result_simps)
next
  case False
  then obtain tokens where loop: "retireBootstrapLoop h (st_tokens st) (st_tokens st) = Inr tokens"
    and install: "installBootstrapTx L rawID now h (st\<lparr>st_tokens := tokens\<rparr>) = Inr st'"
    using assms(1) by (auto simp: ensureBootstrapTx_def bindE_eq_Inr)
  note ret = retire_spec [OF loop assms(2)]
  have "bget tokens h = bget (st_tokens st) h" by (simp add: ret retired_def split: option.splits cell.splits)
  with install_spec [OF install] False ret show ?thesis by simp
qed

lemma bootstrap_spec:
  assumes "EnsureBootstrapAdminToken L rawID now token st = (Inr u, st')"
  shows "ensureBootstrapTx L rawID now (tokenHash L token) st = Inr st'"
  using assms unfolding EnsureBootstrapAdminToken_def update_Inr by (auto simp: bindE_eq_Inr)

text \<open>C15: a token that was just issued opens exactly what it was issued for: it authenticates as the returned
  record from the moment of issue to the end of its lifetime, ends with it, and is never the reserved
  bootstrap identity.\<close>

theorem issued_token_authenticates:
  assumes "CreateTokenWithPolicies L rawToken rawID now role subject groups lifetime pl ol st = (Inr (token, r), st')" and "0 \<le> now"
  shows "Authenticate L at_time token st' = (if lifetime > 0 \<and> at_time > now + lifetime then None else Some (r, tokenHash L token))
    \<and> tok_Role r = role \<and> \<not> bootstrapIdentity r"
proof -
  note c = create_token_spec [OF assms(1)]
  show ?thesis using c assms(2) by (auto simp: Authenticate_def Let_def getJSON_def)
qed

theorem issued_token_authenticates_witness:
  "\<exists>token r st'. CreateTokenWithPolicies plainLib (Inr ''x'') (Inr ''y'') 7 ''node'' ''n'' [] hour zeroLimits zeroObserverLimits emptyStore = (Inr (token, r), st')
     \<and> Authenticate plainLib 9 token st' = Some (r, tokenHash plainLib token)
     \<and> Authenticate plainLib (8 + hour) token st' = None"
proof -
  have "validRoutingLabel plainLib ''n'' 120"
    by (simp add: validRoutingLabel_def trimSpace_word validUTF8_def runes_def chunks_ascii plainLib_def)
  then have "validateTokenIdentity plainLib ''node'' ''n'' [] = Inr ()" by (simp add: validateTokenIdentity_def)
  moreover have "validateProducerLimits plainLib ''node'' zeroLimits = Inr ()"
    by (simp add: validateProducerLimits_def zeroLimits_def producerOnly_def validateScheduledActionLimits_def maxQueuedJobsPerOwner_def)
  moreover have "validateObserverLimits plainLib ''node'' zeroObserverLimits = Inr ()"
    by (simp add: validateObserverLimits_def zeroObserverLimits_def)
  ultimately have "\<exists>token r st'. CreateTokenWithPolicies plainLib (Inr ''x'') (Inr ''y'') 7 ''node'' ''n'' [] hour zeroLimits zeroObserverLimits emptyStore = (Inr (token, r), st')"
    by (simp add: CreateTokenWithPolicies_def update_def validTokenRole_def randomToken_def randomID_def hour_def minute_def second_def Let_def)
  then obtain token r st' where c: "CreateTokenWithPolicies plainLib (Inr ''x'') (Inr ''y'') 7 ''node'' ''n'' [] hour zeroLimits zeroObserverLimits emptyStore = (Inr (token, r), st')"
    by blast
  have "hour > 0" by (simp add: hour_def minute_def second_def)
  then show ?thesis using issued_token_authenticates [OF c, of 9] issued_token_authenticates [OF c, of "8 + hour"] c
    by (auto simp: hour_def minute_def second_def)
qed

end
