(* ===== verification/Node_Enrollment.thy ===== *)
theory Node_Enrollment
  imports Access_Tokens
begin

text \<open>
  How a worker joins the relay (\<open>internal/cluster/store.go\<close>, \<open>CreatePairing\<close> to
  \<open>poolWorkerCertificatesEqual\<close>, and the codes of \<open>randomUserCode\<close>). A device asks for a
  pairing and polls with a secret device code; an administrator decides by the short user code; an
  approval issues a node credential and the next poll hands it out. Later connections refresh the node
  record but keep what the relay owns. Code that is not part of the repository enters as arguments: the
  signature check of a pool certificate and the link shown to the user.
\<close>

section \<open>User codes\<close>

definition base32Digit :: "nat \<Rightarrow> char" where
  "base32Digit n = byteChar (if n < 26 then 65 + n else 24 + n)"

text \<open>\<open>base32.StdEncoding\<close> on five bytes.\<close>

definition base32Encode5 :: "string \<Rightarrow> string" where
  "base32Encode5 bytes = map (\<lambda>i. base32Digit (readBigEndian bytes div 32 ^ (7 - i) mod 32)) [0..<8]"

definition randomUserCode :: "string result \<Rightarrow> string result" where
  "randomUserCode raw = bindE raw (\<lambda>bytes.
     (let code = base32Encode5 bytes in Inr (take 4 code @ ''-'' @ take 4 (drop 4 code))))"

definition dashRune :: "goLib \<Rightarrow> nat \<Rightarrow> bool" where
  "dashRune L r = (if r < 128 then r = 45 else unicodeDash L r)"

fun compactCode :: "goLib \<Rightarrow> nat list \<Rightarrow> string \<Rightarrow> string option" where
  "compactCode L [] acc = Some acc"
| "compactCode L (r # rs) acc =
     (if isSpaceRune r \<or> dashRune L r then compactCode L rs acc
      else let r = asciiUpper r in
           if \<not> (65 \<le> r \<and> r \<le> 90 \<or> 50 \<le> r \<and> r \<le> 55) then None
           else let acc = acc @ [byteChar r] in
                if length acc > 8 then None else compactCode L rs acc)"

definition normalizePairingUserCode :: "goLib \<Rightarrow> string \<Rightarrow> string option" where
  "normalizePairingUserCode L value =
     (case compactCode L (runes (trimSpace value)) [] of
        None \<Rightarrow> None
      | Some raw \<Rightarrow> if length raw \<noteq> 8 then None else Some (take 4 raw @ ''-'' @ drop 4 raw))"

section \<open>Keys and certificates\<close>

text \<open>\<open>ecdh.X25519().NewPublicKey\<close> accepts exactly 32 bytes.\<close>

definition parsePublicKey :: "goLib \<Rightarrow> string \<Rightarrow> string result" where
  "parsePublicKey L value =
     (case base64RawURL L value of
        None \<Rightarrow> Inl (ErrText ''decode public key'')
      | Some raw \<Rightarrow> if length raw \<noteq> 32 then Inl (ErrText ''invalid public key'') else Inr raw)"

definition publicKeyFingerprint :: "goLib \<Rightarrow> string \<Rightarrow> string" where
  "publicKeyFingerprint L publicKey = ''sha256:'' @ sha256Hex L publicKey"

definition decodeEd25519PublicKey :: "goLib \<Rightarrow> string \<Rightarrow> string option" where
  "decodeEd25519PublicKey L value =
     (case base64Std L value of None \<Rightarrow> None | Some raw \<Rightarrow> if length raw \<noteq> 32 then None else Some raw)"

definition decodeEd25519Signature :: "goLib \<Rightarrow> string \<Rightarrow> string option" where
  "decodeEd25519Signature L value =
     (case base64Std L value of None \<Rightarrow> None | Some raw \<Rightarrow> if length raw \<noteq> 64 then None else Some raw)"

type_synonym verifier = "string \<Rightarrow> poolWorkerCertificate \<Rightarrow> string \<Rightarrow> bool"

definition ValidatePoolWorkerCertificate ::
  "goLib \<Rightarrow> verifier \<Rightarrow> poolWorkerCertificate option \<Rightarrow> string \<Rightarrow> string \<Rightarrow> string \<Rightarrow> gotime \<Rightarrow> unit result" where
  "ValidatePoolWorkerCertificate L verify certificate trustedAuthorityKey poolID workerPublicKey now =
     (case certificate of
        None \<Rightarrow> Inl (ErrText ''selected worker has no customer pool certificate'')
      | Some c \<Rightarrow>
          bindE (failWhen (cert_ContractVersion c \<noteq> ''contextbridge.pool-worker.v1'' \<or> cert_PoolID c \<noteq> poolID
              \<or> cert_AuthorityKey c \<noteq> trustedAuthorityKey \<or> cert_WorkerPublicKey c \<noteq> workerPublicKey)
            (ErrText ''selected worker is not certified for the configured customer pool'')) (\<lambda>_.
          bindE (failWhen (cert_IssuedAt c = 0 \<or> cert_IssuedAt c > now + 5 * minute)
            (ErrText ''selected worker certificate has an invalid issue time'')) (\<lambda>_.
          case decodeEd25519PublicKey L (cert_AuthorityKey c) of
            None \<Rightarrow> Inl (ErrText ''selected worker certificate has an invalid authority key'')
          | Some publicKey \<Rightarrow>
              (case decodeEd25519Signature L (cert_Signature c) of
                 None \<Rightarrow> Inl (ErrText ''selected worker certificate has an invalid signature'')
               | Some signature \<Rightarrow>
                   failWhen (\<not> verify publicKey c signature) (ErrText ''selected worker certificate signature is invalid'')))))"

definition poolWorkerCertificatesEqual :: "poolWorkerCertificate option \<Rightarrow> poolWorkerCertificate option \<Rightarrow> bool" where
  "poolWorkerCertificatesEqual left right = (left = right)"

section \<open>Pairing\<close>

record pairRequest =
  preq_NodeName :: string
  preq_PublicKey :: string
  preq_PoolCertificate :: "poolWorkerCertificate option"
  preq_Groups :: "string list"

record pairResponse =
  pres_DeviceCode :: string
  pres_UserCode :: string
  pres_VerificationURI :: string
  pres_VerificationURIComplete :: string
  pres_ExpiresAt :: gotime
  pres_IntervalSeconds :: int

definition maximumPendingPairings :: nat where "maximumPendingPairings = 1000"

definition putPairing :: "string \<Rightarrow> pairing \<Rightarrow> store \<Rightarrow> store" where
  "putPairing key p st = st\<lparr>st_pairings := putJSON key p (st_pairings st)\<rparr>"

definition deletePairCodeForHash :: "goLib \<Rightarrow> string \<Rightarrow> string \<Rightarrow> string bucket \<Rightarrow> string bucket" where
  "deletePairCodeForHash L userCode expectedHash codes =
     (let key = toUpper L (trimSpace userCode) in
      if bget codes key = Some expectedHash then bdelete key codes else codes)"

fun gcPairingsLoop ::
  "goLib \<Rightarrow> gotime \<Rightarrow> pairing cell bucket \<Rightarrow> pairing cell bucket \<times> string bucket \<times> int \<Rightarrow> (pairing cell bucket \<times> string bucket \<times> int) result" where
  "gcPairingsLoop L now [] acc = Inr acc"
| "gcPairingsLoop L now ((_, Garbled) # rest) acc = Inl ErrDecode"
| "gcPairingsLoop L now ((key, Val p) # rest) (pairings, codes, removed) =
     (if pair_ExpiresAt p > now then gcPairingsLoop L now rest (pairings, codes, removed)
      else gcPairingsLoop L now rest (bdelete key pairings, deletePairCodeForHash L (pair_UserCode p) key codes, removed + 1))"

definition garbageCollectPairings :: "goLib \<Rightarrow> gotime \<Rightarrow> store \<Rightarrow> (int \<times> store) result" where
  "garbageCollectPairings L now st =
     bindE (gcPairingsLoop L now (st_pairings st) (st_pairings st, st_pairCodes st, 0)) (\<lambda>(pairings, codes, removed).
     Inr (removed, st\<lparr>st_pairings := pairings, st_pairCodes := codes\<rparr>))"

definition GarbageCollectPairings :: "goLib \<Rightarrow> gotime \<Rightarrow> store \<Rightarrow> int result \<times> store" where
  "GarbageCollectPairings L now st = update (garbageCollectPairings L now) st"

text \<open>Up to sixteen draws of a user code until one is not in use.\<close>

fun allocateCode :: "string bucket \<Rightarrow> string result list \<Rightarrow> string result" where
  "allocateCode codes [] = Inr []"
| "allocateCode codes (raw # rest) =
     bindE (randomUserCode raw) (\<lambda>candidate. if bget codes candidate = None then Inr candidate else allocateCode codes rest)"

definition newPairing :: "goLib \<Rightarrow> string \<Rightarrow> string \<Rightarrow> duration \<Rightarrow> pairRequest \<Rightarrow> gotime \<Rightarrow> pairing" where
  "newPairing L deviceCode publicKey lifetime request now =
     \<lparr>pair_DeviceCodeHash = tokenHash L deviceCode, pair_UserCode = [], pair_NodeName = cleanLabel (preq_NodeName request) 100,
      pair_PublicKey = preq_PublicKey request, pair_PoolCertificate = preq_PoolCertificate request,
      pair_PublicKeyFingerprint = publicKeyFingerprint L publicKey, pair_Groups = cleanList (preq_Groups request) 16 80,
      pair_ExpiresAt = now + lifetime, pair_Approved = False, pair_Denied = False, pair_NodeID = [], pair_PendingToken = []\<rparr>"

definition pairingLifetime :: "duration \<Rightarrow> duration" where
  "pairingLifetime lifetime = (if lifetime \<le> 0 \<or> lifetime > 30 * minute then 10 * minute else lifetime)"

text \<open>The counter \<open>Stats().KeyN\<close> of the database library: the keys of a bucket, given as the
  transaction found it and as it stands.\<close>

type_synonym keyCounter = "pairing cell bucket \<Rightarrow> pairing cell bucket \<Rightarrow> nat"

definition createPairingTx :: "goLib \<Rightarrow> keyCounter \<Rightarrow> string result list \<Rightarrow> gotime \<Rightarrow> pairing \<Rightarrow> store \<Rightarrow> (pairing \<times> store) result" where
  "createPairingTx L keyN draws now p st0 =
     bindE (garbageCollectPairings L now st0) (\<lambda>(_, st).
     bindE (failWhen (keyN (st_pairings st0) (st_pairings st) \<ge> maximumPendingPairings) (ErrText ''too many pending pairing requests'')) (\<lambda>_.
     bindE (allocateCode (st_pairCodes st) (take 16 draws)) (\<lambda>code.
     bindE (failWhen (code = []) (ErrText ''could not allocate a unique pairing code'')) (\<lambda>_.
     (let p = p\<lparr>pair_UserCode := code\<rparr>; st = putPairing (pair_DeviceCodeHash p) p st in
      Inr (p, st\<lparr>st_pairCodes := bput code (pair_DeviceCodeHash p) (st_pairCodes st)\<rparr>))))))"

definition CreatePairing ::
  "goLib \<Rightarrow> verifier \<Rightarrow> (string \<Rightarrow> string \<Rightarrow> string) \<Rightarrow> keyCounter \<Rightarrow> string result \<Rightarrow> string result list \<Rightarrow> gotime \<Rightarrow> pairRequest \<Rightarrow> string \<Rightarrow> duration \<Rightarrow>
   store \<Rightarrow> pairResponse result \<times> store" where
  "CreatePairing L verify link keyN rawDevice draws now request verificationURI lifetime st =
     update (\<lambda>st.
       bindE (randomToken ''dev_'' rawDevice) (\<lambda>deviceCode.
       bindE (parsePublicKey L (preq_PublicKey request)) (\<lambda>publicKey.
       bindE (case preq_PoolCertificate request of
                None \<Rightarrow> Inr ()
              | Some c \<Rightarrow> ValidatePoolWorkerCertificate L verify (Some c) (cert_AuthorityKey c) (cert_PoolID c) (preq_PublicKey request) now) (\<lambda>_.
       bindE (createPairingTx L keyN draws now (newPairing L deviceCode publicKey (pairingLifetime lifetime) request now) st) (\<lambda>(p, st).
       Inr (\<lparr>pres_DeviceCode = deviceCode, pres_UserCode = pair_UserCode p, pres_VerificationURI = verificationURI,
             pres_VerificationURIComplete = link verificationURI (pair_UserCode p), pres_ExpiresAt = pair_ExpiresAt p,
             pres_IntervalSeconds = 5\<rparr>, st)))))) st"

definition nodeOfPairing :: "pairing \<Rightarrow> gotime \<Rightarrow> node" where
  "nodeOfPairing p now = zeroNode\<lparr>node_ID := pair_NodeID p, node_Name := pair_NodeName p, node_PublicKey := pair_PublicKey p,
     node_PoolCertificate := pair_PoolCertificate p, node_State := ''paired'', node_LastSeen := now\<rparr>"

definition approvePairingTx ::
  "goLib \<Rightarrow> string result \<Rightarrow> string result \<Rightarrow> string result \<Rightarrow> gotime \<Rightarrow> pairing \<Rightarrow> store \<Rightarrow> (pairing \<times> store) result" where
  "approvePairingTx L rawToken rawNode rawID now p st =
     bindE (randomToken ''cb_node_'' rawToken) (\<lambda>token.
     bindE (randomID ''node'' rawNode) (\<lambda>nodeID.
     bindE (randomID ''tok'' rawID) (\<lambda>tokenID.
     (let p = p\<lparr>pair_Approved := True, pair_NodeID := nodeID, pair_PendingToken := token\<rparr>;
          st = putToken (tokenHash L token) (plainRecord tokenID ''node'' nodeID (pair_Groups p) now) st;
          st = putNode nodeID (nodeOfPairing p now) st
      in Inr (p, putPairing (pair_DeviceCodeHash p) p st)))))"

definition decidePairingTx ::
  "goLib \<Rightarrow> string result \<Rightarrow> string result \<Rightarrow> string result \<Rightarrow> gotime \<Rightarrow> string \<Rightarrow> bool \<Rightarrow> store \<Rightarrow> (pairing \<times> store) result" where
  "decidePairingTx L rawToken rawNode rawID now userCode approve st =
     (case bget (st_pairCodes st) userCode of
        None \<Rightarrow> Inl ErrNotExist
      | Some hash \<Rightarrow>
          bindE (failWhen (hash = []) ErrNotExist) (\<lambda>_.
          bindE (getJSON (st_pairings st) hash) (\<lambda>p.
          bindE (failWhen (now > pair_ExpiresAt p) (ErrText ''pairing code expired'')) (\<lambda>_.
          if \<not> approve then (let p = p\<lparr>pair_Denied := True\<rparr> in Inr (p, putPairing (pair_DeviceCodeHash p) p st))
          else approvePairingTx L rawToken rawNode rawID now p st))))"

definition DecidePairing ::
  "goLib \<Rightarrow> string result \<Rightarrow> string result \<Rightarrow> string result \<Rightarrow> gotime \<Rightarrow> string \<Rightarrow> bool \<Rightarrow> store \<Rightarrow> pairing result \<times> store" where
  "DecidePairing L rawToken rawNode rawID now userCode approve st =
     (case normalizePairingUserCode L userCode of
        None \<Rightarrow> (Inl ErrNotExist, st)
      | Some code \<Rightarrow>
          (case GarbageCollectPairings L now st of
             (Inl e, st) \<Rightarrow> (Inl e, st)
           | (Inr _, st) \<Rightarrow>
               (case update (decidePairingTx L rawToken rawNode rawID now code approve) st of
                  (Inl e, st) \<Rightarrow> (Inl e, st)
                | (Inr p, st) \<Rightarrow> (Inr (p\<lparr>pair_PendingToken := []\<rparr>), st))))"

definition PollPairing :: "goLib \<Rightarrow> gotime \<Rightarrow> string \<Rightarrow> store \<Rightarrow> (string \<times> pairing \<times> string) result \<times> store" where
  "PollPairing L now deviceCode st =
     update (\<lambda>st.
       (let hash = tokenHash L deviceCode in
        bindE (getJSON (st_pairings st) hash) (\<lambda>p.
        if now > pair_ExpiresAt p
        then Inr ((''expired_token'', p\<lparr>pair_PendingToken := []\<rparr>, []),
               st\<lparr>st_pairCodes := deletePairCodeForHash L (pair_UserCode p) hash (st_pairCodes st), st_pairings := bdelete hash (st_pairings st)\<rparr>)
        else if pair_Denied p then Inr ((''access_denied'', p\<lparr>pair_PendingToken := []\<rparr>, []), st)
        else if \<not> pair_Approved p \<or> pair_PendingToken p = [] then Inr ((''authorization_pending'', p\<lparr>pair_PendingToken := []\<rparr>, []), st)
        else (let token = pair_PendingToken p; p = p\<lparr>pair_PendingToken := []\<rparr>; st = putPairing hash p st in
              Inr ((''approved'', p, token),
                   st\<lparr>st_pairCodes := deletePairCodeForHash L (pair_UserCode p) hash (st_pairCodes st)\<rparr>))))) st"

fun listPairingsLoop :: "goLib \<Rightarrow> gotime \<Rightarrow> (string \<times> pairing cell) list \<Rightarrow> pairing list result" where
  "listPairingsLoop L now [] = Inr []"
| "listPairingsLoop L now ((_, Garbled) # rest) = Inl ErrDecode"
| "listPairingsLoop L now ((_, Val p) # rest) =
     bindE (listPairingsLoop L now rest) (\<lambda>result.
     (let p = (if pair_PublicKeyFingerprint p = []
               then (case parsePublicKey L (pair_PublicKey p) of
                       Inl _ \<Rightarrow> p | Inr publicKey \<Rightarrow> p\<lparr>pair_PublicKeyFingerprint := publicKeyFingerprint L publicKey\<rparr>)
               else p);
          p = p\<lparr>pair_PendingToken := []\<rparr>
      in Inr (if now < pair_ExpiresAt p then p # result else result)))"

definition ListPairings :: "goLib \<Rightarrow> gotime \<Rightarrow> store \<Rightarrow> pairing list result \<times> store" where
  "ListPairings L now st =
     (case GarbageCollectPairings L now st of
        (Inl e, st) \<Rightarrow> (Inl e, st)
      | (Inr _, st) \<Rightarrow>
          (map_sum id (sortSlice (\<lambda>a b. pair_ExpiresAt a < pair_ExpiresAt b)) (listPairingsLoop L now (st_pairings st)), st))"

section \<open>Refreshing a node\<close>

definition mergeStoredNodeState :: "node \<Rightarrow> node \<Rightarrow> node" where
  "mergeStoredNodeState node existing =
     (let node = node\<lparr>node_JobsTotal := node_JobsTotal existing, node_JobsFailed := node_JobsFailed existing,
            node_ComputeMS := node_ComputeMS existing, node_CostUSD := node_CostUSD existing,
            node_CostKnownJobs := node_CostKnownJobs existing, node_CostUnknownJobs := node_CostUnknownJobs existing,
            node_Draining := node_Draining existing, node_RoutingHealth := boundedRoutingHealth (node_RoutingHealth existing),
            node_RoutingPerformance := boundedRoutingPerformance (node_RoutingPerformance existing)\<rparr>;
          node = (if node_Draining node \<and> node_Connected node then node\<lparr>node_State := ''draining''\<rparr> else node);
          node = (if node_PublicKey node = [] then node\<lparr>node_PublicKey := node_PublicKey existing\<rparr> else node)
      in if node_PoolCertificate node = None then node\<lparr>node_PoolCertificate := node_PoolCertificate existing\<rparr> else node)"

definition storedNode :: "store \<Rightarrow> string \<Rightarrow> node" where
  "storedNode st nodeID = (case getJSON (st_nodes st) nodeID of Inl _ \<Rightarrow> zeroNode | Inr existing \<Rightarrow> existing)"

definition UpsertNode :: "node \<Rightarrow> store \<Rightarrow> unit result \<times> store" where
  "UpsertNode node st =
     update (\<lambda>st. Inr ((), putNode (node_ID node) (mergeStoredNodeState node (storedNode st (node_ID node))) st)) st"

definition upsertPinnedTx :: "gotime \<Rightarrow> node \<Rightarrow> string \<Rightarrow> store \<Rightarrow> (unit \<times> store) result" where
  "upsertPinnedTx now node credentialHash st =
     bindE (failWhen (credentialHash \<noteq> [] \<and> \<not> validNodeCredentialTx st credentialHash (node_ID node) now) ErrWorkerCredentialInvalid) (\<lambda>_.
     bindE (case getJSON (st_nodes st) (node_ID node) of
              Inl e \<Rightarrow> (if e = ErrNotExist then Inr zeroNode else Inl e) | Inr existing \<Rightarrow> Inr existing) (\<lambda>existing.
     bindE (failWhen (node_PublicKey existing \<noteq> [] \<and> node_PublicKey node \<noteq> node_PublicKey existing) ErrNodePublicKeyMismatch) (\<lambda>_.
     bindE (failWhen (node_PoolCertificate existing \<noteq> None \<and> node_PoolCertificate node \<noteq> None
         \<and> \<not> poolWorkerCertificatesEqual (node_PoolCertificate existing) (node_PoolCertificate node)) ErrNodePublicKeyMismatch) (\<lambda>_.
     (let node = (if node_PublicKey existing \<noteq> [] then node\<lparr>node_PublicKey := node_PublicKey existing\<rparr> else node) in
      Inr ((), putNode (node_ID node) (mergeStoredNodeState node existing) st))))))"

definition upsertNodePinnedAuthorized :: "goLib \<Rightarrow> gotime \<Rightarrow> node \<Rightarrow> string \<Rightarrow> store \<Rightarrow> unit result \<times> store" where
  "upsertNodePinnedAuthorized L now node credentialHash st =
     (case parsePublicKey L (node_PublicKey node) of
        Inl _ \<Rightarrow> (Inl (ErrText ''invalid node public key''), st)
      | Inr _ \<Rightarrow> update (upsertPinnedTx now node credentialHash) st)"

definition UpsertNodePinned :: "goLib \<Rightarrow> gotime \<Rightarrow> node \<Rightarrow> store \<Rightarrow> unit result \<times> store" where
  "UpsertNodePinned L now node st = upsertNodePinnedAuthorized L now node [] st"

definition UpsertNodePinnedAuthorized :: "goLib \<Rightarrow> gotime \<Rightarrow> node \<Rightarrow> string \<Rightarrow> store \<Rightarrow> unit result \<times> store" where
  "UpsertNodePinnedAuthorized L now node credentialHash st =
     (if credentialHash = [] then (Inl ErrWorkerCredentialInvalid, st) else upsertNodePinnedAuthorized L now node credentialHash st)"

definition GetNode :: "store \<Rightarrow> string \<Rightarrow> node result" where
  "GetNode st nodeID = getJSON (st_nodes st) nodeID"

fun nodeValuesLoop :: "(string \<times> node cell) list \<Rightarrow> node list result" where
  "nodeValuesLoop [] = Inr []"
| "nodeValuesLoop ((_, Garbled) # rest) = Inl ErrDecode"
| "nodeValuesLoop ((_, Val n) # rest) = bindE (nodeValuesLoop rest) (\<lambda>nodes. Inr (n # nodes))"

definition ListNodes :: "store \<Rightarrow> node list result" where
  "ListNodes st = bindE (nodeValuesLoop (st_nodes st)) (\<lambda>nodes. Inr (sortSlice (\<lambda>a b. node_Name a < node_Name b) nodes))"

section \<open>Reading a user code back\<close>

definition keptRune :: "goLib \<Rightarrow> nat \<Rightarrow> bool" where
  "keptRune L r \<longleftrightarrow> \<not> (isSpaceRune r \<or> dashRune L r)"

definition codeRune :: "nat \<Rightarrow> bool" where
  "codeRune r \<longleftrightarrow> 65 \<le> r \<and> r \<le> 90 \<or> 50 \<le> r \<and> r \<le> 55"

lemma compactCode_spec:
  assumes "length acc + length (filter (keptRune L) rs) \<le> 8"
  shows "compactCode L rs acc = (if list_all (\<lambda>r. codeRune (asciiUpper r)) (filter (keptRune L) rs)
    then Some (acc @ map (\<lambda>r. byteChar (asciiUpper r)) (filter (keptRune L) rs)) else None)"
  using assms
proof (induction rs arbitrary: acc)
  case (Cons r rs)
  show ?case
  proof (cases "keptRune L r")
    case True
    then have "compactCode L (r # rs) acc
      = (if codeRune (asciiUpper r) then compactCode L rs (acc @ [byteChar (asciiUpper r)]) else None)"
      using Cons.prems by (simp add: keptRune_def codeRune_def Let_def)
    then show ?thesis using True Cons.IH [of "acc @ [byteChar (asciiUpper r)]"] Cons.prems by simp
  next
    case False
    then have "compactCode L (r # rs) acc = compactCode L rs acc" by (simp add: keptRune_def)
    then show ?thesis using False Cons.IH [of acc] Cons.prems by simp
  qed
qed simp

lemma normalize_ascii:
  assumes "list_all (\<lambda>c. 33 \<le> byte c \<and> byte c < 127) s"
    and "map (\<lambda>c. byteChar (asciiUpper (byte c))) (filter (\<lambda>c. c \<noteq> CHR ''-'') s) = w"
    and "length w = 8" and "list_all (\<lambda>c. codeRune (byte c)) w"
  shows "normalizePairingUserCode L s = Some (take 4 w @ ''-'' @ drop 4 w)"
proof -
  have ascii: "list_all (\<lambda>c. byte c < 128) s" using assms(1) by (auto simp: list_all_iff)
  have runes: "runes (trimSpace s) = map byte s"
    using trimSpace_word [OF assms(1)] ascii by (auto simp: runes_def chunks_ascii list_all_iff)
  have "keptRune L (byte c) \<longleftrightarrow> c \<noteq> CHR ''-''" if "c \<in> set s" for c
  proof -
    have dash: "byte (CHR ''-'') = (45 :: nat)" by simp
    have "byte c = (45 :: nat) \<longleftrightarrow> c = CHR ''-''" unfolding dash [symmetric] by (rule of_char_eq_iff)
    then show ?thesis using that assms(1) by (auto simp: list_all_iff keptRune_def dashRune_def isSpaceRune_def)
  qed
  then have kept: "filter (keptRune L) (map byte s) = map byte (filter (\<lambda>c. c \<noteq> CHR ''-'') s)"
    by (simp add: filter_map o_def cong: filter_cong)
  have len: "length (filter (\<lambda>c. c \<noteq> CHR ''-'') s) = 8" using assms(2,3) by auto
  have up: "asciiUpper (byte c) < 256" for c :: char
    using nat_of_char_less_256 [of c] by (auto simp: asciiUpper_def)
  have "list_all (\<lambda>c. codeRune (asciiUpper (byte c))) (filter (\<lambda>c. c \<noteq> CHR ''-'') s)"
    using assms(4) up by (auto simp: list_all_iff assms(2) [symmetric])
  then have "compactCode L (map byte s) [] = Some w"
    using compactCode_spec [of "[]" L "map byte s"] len assms(2) by (simp add: kept o_def list_all_iff)
  then show ?thesis by (simp add: normalizePairingUserCode_def runes assms(3))
qed

lemma base32_code: "n < 32 \<Longrightarrow> codeRune (byte (base32Digit n))"
  by (auto simp: base32Digit_def codeRune_def)

text \<open>the short code shown to a person is read back whatever way it is typed: as printed, in lower
  case, or without the dash, an administrator's input names the same pairing.\<close>

theorem user_code_read_back:
  assumes "randomUserCode (Inr bytes) = Inr code"
  shows "normalizePairingUserCode L code = Some code
    \<and> normalizePairingUserCode L (map (\<lambda>c. byteChar (asciiLower (byte c))) code) = Some code
    \<and> normalizePairingUserCode L (filter (\<lambda>c. c \<noteq> CHR ''-'') code) = Some code"
proof -
  define w where "w = base32Encode5 bytes"
  have code: "code = take 4 w @ ''-'' @ drop 4 w" and len: "length w = 8"
    using assms by (auto simp: randomUserCode_def w_def Let_def base32Encode5_def)
  have cr: "list_all (\<lambda>c. codeRune (byte c)) w"
    by (auto simp: w_def base32Encode5_def list_all_iff intro: base32_code)
  have wr: "codeRune (byte c) \<and> c \<noteq> CHR ''-'' \<and> byteChar (asciiUpper (byte c)) = c
    \<and> byteChar (asciiUpper (asciiLower (byte c))) = c \<and> asciiLower (byte c) \<noteq> 45 \<and> 33 \<le> asciiLower (byte c) \<and> asciiLower (byte c) < 127
    \<and> 33 \<le> byte c \<and> byte c < 127"
    if "c \<in> set w" for c
    using that cr by (auto simp: list_all_iff codeRune_def asciiUpper_def asciiLower_def)
  have sw: "set (take 4 w) \<subseteq> set w" "set (drop 4 w) \<subseteq> set w" by (simp_all add: set_take_subset set_drop_subset)
  have dash: "filter (\<lambda>c. c \<noteq> CHR ''-'') w = w" by (rule filter_True) (use wr in blast)
  have parts: "filter (\<lambda>c. c \<noteq> CHR ''-'') code = w"
  proof -
    have "filter (\<lambda>c. c \<noteq> CHR ''-'') v = v" if "set v \<subseteq> set w" for v
      using that wr by (intro filter_True) blast
    then show ?thesis unfolding code using sw by simp
  qed
  define low where "low = (\<lambda>c. byteChar (asciiLower (byte c)))"
  have lowdash: "low c \<noteq> CHR ''-''" "byteChar (asciiUpper (byte (low c))) = c" "33 \<le> byte (low c) \<and> byte (low c) < 127"
    if "c \<in> set w" for c
  proof -
    note w = wr [OF that]
    then have b: "byte (low c) = (asciiLower (byte c) :: nat)" by (simp add: low_def)
    then show "low c \<noteq> CHR ''-''" using w by fastforce
    show "byteChar (asciiUpper (byte (low c))) = c" "33 \<le> byte (low c) \<and> byte (low c) < 127" using w by (simp_all add: b)
  qed
  have lowparts: "filter (\<lambda>c. c \<noteq> CHR ''-'') (map low code) = map low w"
  proof -
    have "filter (\<lambda>c. c \<noteq> CHR ''-'') (map low v) = map low v" if "set v \<subseteq> set w" for v
      using that lowdash(1) by (intro filter_True) auto
    moreover have "low (CHR ''-'') = CHR ''-''" by (simp add: low_def asciiLower_def char_of_eq_iff)
    moreover have "map low (take 4 w) @ map low (drop 4 w) = map low w" unfolding map_append [symmetric] by simp
    ultimately show ?thesis using sw unfolding code by simp
  qed
  have sc: "set code \<subseteq> insert (CHR ''-'') (set w)" using sw unfolding code by auto
  have print: "list_all (\<lambda>c. 33 \<le> byte c \<and> byte c < 127) code" "list_all (\<lambda>c. 33 \<le> byte c \<and> byte c < 127) w"
    using sc wr by (auto simp: list_all_iff)
  have "low (CHR ''-'') = CHR ''-''" by (simp add: low_def asciiLower_def char_of_eq_iff)
  then have lowprint: "list_all (\<lambda>c. 33 \<le> byte c \<and> byte c < 127) (map low code)"
    using sc lowdash(3) by (auto simp: list_all_iff)
  have id: "map (\<lambda>c. byteChar (asciiUpper (byte c))) w = w" "map (\<lambda>c. byteChar (asciiUpper (byte c))) (map low w) = w"
    unfolding map_map o_def by (rule map_idI; use wr lowdash(2) in blast)+
  note norm = normalize_ascii [where L = L, OF _ _ len cr]
  have "normalizePairingUserCode L code = Some (take 4 w @ ''-'' @ drop 4 w)"
    by (rule norm [OF print(1)]) (simp add: parts id)
  moreover have "normalizePairingUserCode L (map low code) = Some (take 4 w @ ''-'' @ drop 4 w)"
    by (rule norm [OF lowprint]) (simp only: lowparts id)
  moreover have "normalizePairingUserCode L w = Some (take 4 w @ ''-'' @ drop 4 w)"
    by (rule norm [OF print(2)]) (simp add: dash id)
  ultimately show ?thesis unfolding parts low_def code [symmetric] by blast
qed

theorem user_code_read_back_witness:
  "normalizePairingUserCode plainLib ''aaaa-aaaa'' = Some ''AAAA-AAAA''"
proof -
  have "readBigEndian [CHR 0x00, CHR 0x00, CHR 0x00, CHR 0x00, CHR 0x00] = 0" by (simp add: readBigEndian_def)
  moreover have "base32Digit 0 = CHR ''A''" by (simp add: base32Digit_def char_of_eq_iff)
  moreover have "[0..<8] = [0, 1, 2, 3, 4, 5, 6, 7 :: nat]" by (simp add: upt_rec)
  ultimately have "base32Encode5 [CHR 0x00, CHR 0x00, CHR 0x00, CHR 0x00, CHR 0x00] = ''AAAAAAAA''" by (simp add: base32Encode5_def del: upt_rec_numeral)
  then have "randomUserCode (Inr [CHR 0x00, CHR 0x00, CHR 0x00, CHR 0x00, CHR 0x00]) = Inr ''AAAA-AAAA''" by (simp add: randomUserCode_def)
  note read = user_code_read_back [OF this, of plainLib]
  have "byteChar 97 = CHR ''a''" "byteChar 45 = CHR ''-''" by (simp_all add: char_of_eq_iff)
  then show ?thesis using read by (simp add: asciiLower_def)
qed

section \<open>What the operations leave alone\<close>

lemma update_cases:
  assumes "update f st = (r, st')"
  obtains (kept) "st' = st" | (changed) x where "r = Inr x" and "f st = Inr (x, st')"
  using assms by (auto simp: update_def split: sum.splits prod.splits)

lemma gc_spec:
  assumes "garbageCollectPairings L now st = Inr (n, st')"
  shows "\<exists>pairings codes. st' = st\<lparr>st_pairings := pairings, st_pairCodes := codes\<rparr>"
  using assms by (auto simp: garbageCollectPairings_def result_simps)

lemma collect_spec: "GarbageCollectPairings L now st = (r, st') \<Longrightarrow> \<exists>pairings codes. st' = st\<lparr>st_pairings := pairings, st_pairCodes := codes\<rparr>"
  unfolding GarbageCollectPairings_def
proof (erule update_cases)
  assume "st' = st"
  then have "st' = st\<lparr>st_pairings := st_pairings st, st_pairCodes := st_pairCodes st\<rparr>" by simp
  then show ?thesis by blast
qed (auto dest: gc_spec)

lemma create_pairingTx_spec:
  assumes "createPairingTx L keyN draws now p st = Inr (q, st')"
  shows "st_tokens st' = st_tokens st \<and> st_storeMeta st' = st_storeMeta st \<and> st_nodes st' = st_nodes st"
proof -
  from assms obtain n st1 where gc: "garbageCollectPairings L now st = Inr (n, st1)"
    and st': "st_tokens st' = st_tokens st1 \<and> st_storeMeta st' = st_storeMeta st1 \<and> st_nodes st' = st_nodes st1"
    unfolding createPairingTx_def by (auto simp: result_simps Let_def putPairing_def)
  then show ?thesis using gc_spec [OF gc] by auto
qed

lemma create_pairing_spec:
  assumes "CreatePairing L verify link keyN rawDevice draws now request uri lifetime st = (r, st')"
  shows "st_tokens st' = st_tokens st \<and> st_storeMeta st' = st_storeMeta st \<and> st_nodes st' = st_nodes st"
  using assms unfolding CreatePairing_def
proof (cases rule: update_cases)
  case (changed x)
  then show ?thesis by (auto simp: bindE_eq_Inr dest: create_pairingTx_spec)
qed simp

lemma poll_spec:
  assumes "PollPairing L now deviceCode st = (r, st')"
  shows "st_tokens st' = st_tokens st \<and> st_storeMeta st' = st_storeMeta st \<and> st_nodes st' = st_nodes st"
  using assms unfolding PollPairing_def
proof (cases rule: update_cases)
  case (changed x)
  then show ?thesis by (auto simp: bindE_eq_Inr Let_def putPairing_def split: if_splits)
qed simp

lemma approveTx_spec:
  assumes "approvePairingTx L rawToken rawNode rawID now p st = Inr (q, st')"
  shows "\<exists>bytes nodeBytes recordID. rawToken = Inr bytes \<and> rawNode = Inr nodeBytes
    \<and> q = p\<lparr>pair_Approved := True, pair_NodeID := ''node_'' @ hexEncode nodeBytes, pair_PendingToken := ''cb_node_'' @ encode bytes\<rparr>
    \<and> st_tokens st' = putJSON (tokenHash L (pair_PendingToken q)) (plainRecord recordID ''node'' (pair_NodeID q) (pair_Groups p) now) (st_tokens st)
    \<and> st_nodes st' = putJSON (pair_NodeID q) (persistNode (nodeOfPairing q now)) (st_nodes st)
    \<and> st_pairings st' = putJSON (pair_DeviceCodeHash p) q (st_pairings st) \<and> st_storeMeta st' = st_storeMeta st"
proof -
  from assms obtain bytes nodeBytes idBytes where raw: "rawToken = Inr bytes" "rawNode = Inr nodeBytes" "rawID = Inr idBytes"
    by (auto simp: approvePairingTx_def randomToken_def randomID_def bindE_eq_Inr)
  from assms have "q = p\<lparr>pair_Approved := True, pair_NodeID := ''node_'' @ hexEncode nodeBytes, pair_PendingToken := ''cb_node_'' @ encode bytes\<rparr>"
    by (simp add: approvePairingTx_def raw randomToken_def randomID_def Let_def)
  then show ?thesis using assms
    by (simp add: approvePairingTx_def raw randomToken_def randomID_def Let_def putToken_def putNode_def putPairing_def)
      (auto simp: plainRecord_def)
qed

lemma decideTx_spec:
  assumes "decidePairingTx L rawToken rawNode rawID now code approve st = Inr (q, st')"
  shows "\<exists>hash p. bget (st_pairCodes st) code = Some hash \<and> bget (st_pairings st) hash = Some (Val p) \<and> now \<le> pair_ExpiresAt p
    \<and> (if approve then approvePairingTx L rawToken rawNode rawID now p st = Inr (q, st')
       else q = p\<lparr>pair_Denied := True\<rparr> \<and> st' = putPairing (pair_DeviceCodeHash p) q st)"
  using assms unfolding decidePairingTx_def
  by (auto simp: result_simps Let_def split: option.splits if_splits)

lemma decide_cases:
  assumes "DecidePairing L rawToken rawNode rawID now userCode approve st = (r, st')"
  shows "\<exists>pairings codes. let st1 = st\<lparr>st_pairings := pairings, st_pairCodes := codes\<rparr> in
    st' = st \<or> st' = st1 \<or>
    (\<exists>q code. normalizePairingUserCode L userCode = Some code \<and> decidePairingTx L rawToken rawNode rawID now code approve st1 = Inr (q, st')
       \<and> r = Inr (q\<lparr>pair_PendingToken := []\<rparr>))"
proof (cases "normalizePairingUserCode L userCode")
  case None
  then show ?thesis using assms by (simp add: DecidePairing_def Let_def)
next
  case (Some code)
  obtain g st1 where gc: "GarbageCollectPairings L now st = (g, st1)" by fastforce
  from collect_spec [OF gc] obtain pairings codes where st1: "st1 = st\<lparr>st_pairings := pairings, st_pairCodes := codes\<rparr>" by blast
  obtain d st2 where up: "update (decidePairingTx L rawToken rawNode rawID now code approve) st1 = (d, st2)" by fastforce
  show ?thesis
  proof (cases g)
    case (Inl e)
    then show ?thesis using assms Some gc st1 by (auto simp: DecidePairing_def Let_def)
  next
    case (Inr n)
    then have res: "(r, st') = (case d of Inl e \<Rightarrow> (Inl e, st2) | Inr p \<Rightarrow> (Inr (p\<lparr>pair_PendingToken := []\<rparr>), st2))"
      using assms Some gc up by (simp add: DecidePairing_def split: sum.splits)
    from up have "st2 = st1 \<or> (\<exists>q. d = Inr q \<and> decidePairingTx L rawToken rawNode rawID now code approve st1 = Inr (q, st2))"
      by (cases rule: update_cases) auto
    then show ?thesis using res st1 Some by (auto simp: Let_def split: sum.splits)
  qed
qed

lemma decide_tokens:
  assumes "DecidePairing L rawToken rawNode rawID now userCode approve st = (r, st')"
  shows "st_storeMeta st' = st_storeMeta st \<and> (st_tokens st' = st_tokens st \<or>
    (approve \<and> (\<exists>bytes recordID nodeID groups. rawToken = Inr bytes \<and>
       st_tokens st' = putJSON (tokenHash L (''cb_node_'' @ encode bytes)) (plainRecord recordID ''node'' nodeID groups now) (st_tokens st))))"
proof -
  from decide_cases [OF assms] obtain pairings codes q code where
    "st' = st \<or> st' = st\<lparr>st_pairings := pairings, st_pairCodes := codes\<rparr> \<or>
     decidePairingTx L rawToken rawNode rawID now code approve (st\<lparr>st_pairings := pairings, st_pairCodes := codes\<rparr>) = Inr (q, st')"
    unfolding Let_def by blast
  then show ?thesis
  proof (elim disjE)
    assume "decidePairingTx L rawToken rawNode rawID now code approve (st\<lparr>st_pairings := pairings, st_pairCodes := codes\<rparr>) = Inr (q, st')"
    from decideTx_spec [OF this] obtain p where p: "if approve
        then approvePairingTx L rawToken rawNode rawID now p (st\<lparr>st_pairings := pairings, st_pairCodes := codes\<rparr>) = Inr (q, st')
        else st' = putPairing (pair_DeviceCodeHash p) q (st\<lparr>st_pairings := pairings, st_pairCodes := codes\<rparr>)" by metis
    show ?thesis
    proof (cases approve)
      case True
      with p have "approvePairingTx L rawToken rawNode rawID now p (st\<lparr>st_pairings := pairings, st_pairCodes := codes\<rparr>) = Inr (q, st')" by simp
      from approveTx_spec [OF this] obtain bytes nodeBytes recordID where raw: "rawToken = Inr bytes" and meta: "st_storeMeta st' = st_storeMeta st"
        and q: "q = p\<lparr>pair_Approved := True, pair_NodeID := ''node_'' @ hexEncode nodeBytes, pair_PendingToken := ''cb_node_'' @ encode bytes\<rparr>"
        and t: "st_tokens st' = putJSON (tokenHash L (pair_PendingToken q)) (plainRecord recordID ''node'' (pair_NodeID q) (pair_Groups p) now) (st_tokens st)"
        by auto
      have "pair_PendingToken q = ''cb_node_'' @ encode bytes" by (simp add: q)
      with t raw meta True show ?thesis by metis
    next
      case False
      with p show ?thesis by (simp add: putPairing_def)
    qed
  qed simp_all
qed

lemma upsert_tokens:
  assumes "upsertNodePinnedAuthorized L now node h st = (r, st')"
  shows "st_tokens st' = st_tokens st \<and> st_storeMeta st' = st_storeMeta st"
proof (cases "parsePublicKey L (node_PublicKey node)")
  case (Inr k)
  with assms have "update (upsertPinnedTx now node h) st = (r, st')" by (simp add: upsertNodePinnedAuthorized_def)
  then show ?thesis
  proof (cases rule: update_cases)
    case (changed x)
    then show ?thesis by (auto simp: upsertPinnedTx_def bindE_eq_Inr Let_def putNode_def)
  qed simp
qed (use assms in \<open>simp add: upsertNodePinnedAuthorized_def\<close>)

section \<open>Every way the credentials change\<close>

text \<open>One call on the store that touches credentials or the enrolment of a node, with the digest of the
  token that the call drew at random, if it drew one.\<close>

inductive accessStep :: "goLib \<Rightarrow> store \<Rightarrow> string option \<Rightarrow> store \<Rightarrow> bool" for L :: goLib where
  Issue: "CreateTokenWithPolicies L (Inr bytes) rawID now role subject groups lifetime pl ol st = (r, st') \<Longrightarrow>
    accessStep L st (Some (tokenHash L (''cb_'' @ role @ ''_'' @ encode bytes))) st'"
| Ensure: "EnsureToken L rawID now token role subject groups st = (r, st') \<Longrightarrow> accessStep L st None st'"
| Bootstrap: "EnsureBootstrapAdminToken L rawID now token st = (r, st') \<Longrightarrow> accessStep L st None st'"
| Revoke: "RevokeTokenWithHash tokenID st = (r, st') \<Longrightarrow> accessStep L st None st'"
| Pair: "CreatePairing L verify link keyN rawDevice draws now request uri lifetime st = (r, st') \<Longrightarrow> accessStep L st None st'"
| Approve: "DecidePairing L (Inr bytes) rawNode rawID now userCode True st = (r, st') \<Longrightarrow>
    accessStep L st (Some (tokenHash L (''cb_node_'' @ encode bytes))) st'"
| Deny: "DecidePairing L rawToken rawNode rawID now userCode False st = (r, st') \<Longrightarrow> accessStep L st None st'"
| Poll: "PollPairing L now deviceCode st = (r, st') \<Longrightarrow> accessStep L st None st'"
| Collect: "GarbageCollectPairings L now st = (r, st') \<Longrightarrow> accessStep L st None st'"
| Heartbeat: "upsertNodePinnedAuthorized L now node h st = (r, st') \<Longrightarrow> accessStep L st None st'"

inductive accessSteps :: "goLib \<Rightarrow> store \<Rightarrow> string list \<Rightarrow> store \<Rightarrow> bool" for L :: goLib where
  Stay: "accessSteps L st [] st"
| Drawn: "accessSteps L st hs st1 \<Longrightarrow> accessStep L st1 (Some h) st2 \<Longrightarrow> accessSteps L st (h # hs) st2"
| Plain: "accessSteps L st hs st1 \<Longrightarrow> accessStep L st1 None st2 \<Longrightarrow> accessSteps L st hs st2"

text \<open>The effect of a step on the credentials: nothing, a new record that is not the bootstrap identity
  under a digest that was drawn or free, a revocation, or the installation of the configured credential.\<close>

definition tokenEffect :: "string option \<Rightarrow> store \<Rightarrow> store \<Rightarrow> bool" where
  "tokenEffect drawn st st' \<longleftrightarrow>
     st_tokens st' = st_tokens st \<and> st_storeMeta st' = st_storeMeta st
   \<or> (\<exists>h r. st_tokens st' = putJSON h r (st_tokens st) \<and> st_storeMeta st' = st_storeMeta st \<and> \<not> bootstrapIdentity r
        \<and> (drawn = Some h \<or> bget (st_tokens st) h = None))
   \<or> (\<exists>h r. bget (st_tokens st) h = Some (Val r) \<and> st_tokens st' = putJSON h (r\<lparr>tok_Revoked := True\<rparr>) (st_tokens st)
        \<and> st_storeMeta st' = st_storeMeta st)
   \<or> (\<exists>h. bget (st_storeMeta st') keyBootstrapAdminHash = Some h
        \<and> (\<forall>k. k \<noteq> h \<longrightarrow> bget (st_tokens st') k = retired h k (bget (st_tokens st) k) (bget (st_tokens st) k))
        \<and> (\<forall>c. bget (st_tokens st) h = Some c \<longrightarrow> bget (st_tokens st') h = Some c)
        \<and> bordered (st_tokens st'))"

lemma retire_ordered:
  assumes "retireBootstrapLoop h b tokens = Inr tokens'" and "bordered tokens"
  shows "bordered tokens'"
  using assms
proof (induction b arbitrary: tokens)
  case (Cons entry rest)
  then show ?case by (cases entry) (auto simp: bordered_putJSON split: cell.splits if_splits)
qed simp

lemma bootstrapTx_ordered:
  assumes "ensureBootstrapTx L rawID now h st = Inr st'" and "bordered (st_tokens st)"
  shows "bordered (st_tokens st')"
proof (cases "bget (st_storeMeta st) keyBootstrapAdminHash = Some h")
  case True
  then show ?thesis using assms by (auto simp: ensureBootstrapTx_def bindE_eq_Inr split: sum.splits)
next
  case False
  then obtain tokens where loop: "retireBootstrapLoop h (st_tokens st) (st_tokens st) = Inr tokens"
    and install: "installBootstrapTx L rawID now h (st\<lparr>st_tokens := tokens\<rparr>) = Inr st'"
    using assms(1) by (auto simp: ensureBootstrapTx_def bindE_eq_Inr)
  have "bordered tokens" by (rule retire_ordered [OF loop assms(2)])
  then show ?thesis using install
    by (auto simp: installBootstrapTx_def bindE_eq_Inr putToken_def bordered_putJSON split: option.splits cell.splits)
qed

lemma update_Inl_same: "update f st = (Inl e, st') \<Longrightarrow> st' = st"
  by (auto simp: update_def split: sum.splits prod.splits)

lemma effect_same: "tokenEffect drawn st st"
  by (simp add: tokenEffect_def)

lemma effect_new:
  assumes "st_tokens st' = putJSON h r (st_tokens st)" and "st_storeMeta st' = st_storeMeta st" and "\<not> bootstrapIdentity r"
    and "drawn = Some h \<or> bget (st_tokens st) h = None"
  shows "tokenEffect drawn st st'"
  using assms unfolding tokenEffect_def by blast

lemma effect_revoke:
  assumes "bget (st_tokens st) h = Some (Val r)" and "st_tokens st' = putJSON h (r\<lparr>tok_Revoked := True\<rparr>) (st_tokens st)"
    and "st_storeMeta st' = st_storeMeta st"
  shows "tokenEffect drawn st st'"
  using assms unfolding tokenEffect_def by blast

lemma step_effect:
  assumes "accessStep L st drawn st'" and ord: "bordered (st_tokens st)"
  shows "tokenEffect drawn st st'"
  using assms(1)
proof cases
  case (Issue bytes rawID now role subject groups lifetime pl ol r)
  show ?thesis
  proof (cases r)
    case (Inl e)
    with Issue(2) have "st' = st" unfolding CreateTokenWithPolicies_def by (simp add: update_Inl_same)
    then show ?thesis by (simp add: tokenEffect_def)
  next
    case (Inr x)
    then obtain token q where "CreateTokenWithPolicies L (Inr bytes) rawID now role subject groups lifetime pl ol st = (Inr (token, q), st')"
      using Issue(2) by (cases x) auto
    from create_token_spec [OF this] have "st' = putToken (tokenHash L token) q st" "\<not> bootstrapIdentity q"
      "token = ''cb_'' @ role @ ''_'' @ encode bytes" by auto
    then show ?thesis using Issue(1) unfolding tokenEffect_def by (auto simp: putToken_def)
  qed
next
  case (Ensure rawID now token role subject groups r)
  show ?thesis
  proof (cases r)
    case (Inl e)
    with Ensure(2) have "st' = st" unfolding EnsureToken_def by (simp add: update_Inl_same)
    then show ?thesis by (simp add: tokenEffect_def)
  next
    case (Inr x)
    with Ensure(2) have "EnsureToken L rawID now token role subject groups st = (Inr x, st')" by simp
    from ensure_token_spec [OF this] show ?thesis
      by (cases "bget (st_tokens st) (tokenHash L token)") (auto simp: putToken_def effect_same intro: effect_new)
  qed
next
  case (Bootstrap rawID now token r)
  show ?thesis
  proof (cases r)
    case (Inl e)
    with Bootstrap(2) have "st' = st" unfolding EnsureBootstrapAdminToken_def by (simp add: update_Inl_same)
    then show ?thesis by (simp add: tokenEffect_def)
  next
    case (Inr x)
    with Bootstrap(2) have "EnsureBootstrapAdminToken L rawID now token st = (Inr x, st')" by simp
    note tx = bootstrap_spec [OF this]
    let ?h = "tokenHash L token"
    note spec = bootstrapTx_spec [OF tx ord]
    show ?thesis
    proof (cases "bget (st_storeMeta st) keyBootstrapAdminHash = Some ?h")
      case True
      then have "st' = st" using spec by simp
      then show ?thesis by (simp add: tokenEffect_def)
    next
      case False
      then have "\<forall>k. k \<noteq> ?h \<longrightarrow> bget (st_tokens st') k = retired ?h k (bget (st_tokens st) k) (bget (st_tokens st) k)" using spec by simp
      then show ?thesis using spec bootstrapTx_ordered [OF tx ord] unfolding tokenEffect_def
        by (intro disjI2 exI [of _ ?h]) blast
    qed
  qed
next
  case (Revoke tokenID r)
  show ?thesis
  proof (cases r)
    case (Inl e)
    with Revoke(2) have "st' = st" unfolding RevokeTokenWithHash_def by (simp add: update_Inl_same)
    then show ?thesis by (simp add: tokenEffect_def)
  next
    case (Inr x)
    then obtain q k where "RevokeTokenWithHash tokenID st = (Inr (q, k), st')" using Revoke(2) by (cases x) auto
    from revoke_spec [OF this] ord show ?thesis by (auto simp: putToken_def bordered_get intro: effect_revoke)
  qed
next
  case (Approve bytes rawNode rawID now userCode r)
  from decide_tokens [OF Approve(2)] have "st_storeMeta st' = st_storeMeta st" and "st_tokens st' = st_tokens st \<or>
    (\<exists>recordID nodeID groups. st_tokens st' = putJSON (tokenHash L (''cb_node_'' @ encode bytes)) (plainRecord recordID ''node'' nodeID groups now) (st_tokens st))"
    by auto
  moreover have "\<not> bootstrapIdentity (plainRecord recordID ''node'' nodeID groups now)" for recordID nodeID groups
    by (simp add: bootstrapIdentity_def plainRecord_def)
  ultimately show ?thesis using Approve(1) unfolding tokenEffect_def by blast
next
  case (Deny rawToken rawNode rawID now userCode r)
  from decide_tokens [OF Deny(2)] show ?thesis by (simp add: tokenEffect_def)
next
  case (Pair verify link keyN rawDevice draws now request uri lifetime r)
  from create_pairing_spec [OF Pair(2)] show ?thesis by (simp add: tokenEffect_def)
next
  case (Poll now deviceCode r)
  from poll_spec [OF Poll(2)] show ?thesis by (simp add: tokenEffect_def)
next
  case (Collect now r)
  from collect_spec [OF Collect(2)] show ?thesis by (auto simp: tokenEffect_def)
next
  case (Heartbeat now node h r)
  from upsert_tokens [OF Heartbeat(2)] show ?thesis by (simp add: tokenEffect_def)
qed

lemma effect_ordered: "tokenEffect drawn st st' \<Longrightarrow> bordered (st_tokens st) \<Longrightarrow> bordered (st_tokens st')"
  by (auto simp: tokenEffect_def bordered_putJSON)

definition revokedUnder :: "string \<Rightarrow> store \<Rightarrow> bool" where
  "revokedUnder h st \<longleftrightarrow> (case bget (st_tokens st) h of Some (Val r) \<Rightarrow> tok_Revoked r | _ \<Rightarrow> False)"

lemma effect_keeps_revoked:
  assumes "tokenEffect drawn st st'" and "revokedUnder h st" and "drawn \<noteq> Some h"
  shows "revokedUnder h st'"
proof -
  obtain r where r: "bget (st_tokens st) h = Some (Val r)" "tok_Revoked r"
    using assms(2) by (auto simp: revokedUnder_def split: option.splits cell.splits)
  from assms(1) show ?thesis unfolding tokenEffect_def
  proof (elim disjE exE conjE)
    fix k assume k: "\<forall>j. j \<noteq> k \<longrightarrow> bget (st_tokens st') j = retired k j (bget (st_tokens st) j) (bget (st_tokens st) j)"
      "\<forall>c. bget (st_tokens st) k = Some c \<longrightarrow> bget (st_tokens st') k = Some c"
    show ?thesis using k r by (cases "h = k") (auto simp: revokedUnder_def retired_def)
  qed (use r assms(3) in \<open>auto simp: revokedUnder_def bucket_simps\<close>)
qed

definition oneBootstrap :: "store \<Rightarrow> bool" where
  "oneBootstrap st \<longleftrightarrow> bordered (st_tokens st) \<and>
     (\<forall>k r. bget (st_tokens st) k = Some (Val r) \<and> bootstrapIdentity r \<and> \<not> tok_Revoked r \<longrightarrow>
        bget (st_storeMeta st) keyBootstrapAdminHash = Some k)"

lemma effect_keeps_one:
  assumes "tokenEffect drawn st st'" and inv: "oneBootstrap st"
  shows "oneBootstrap st'"
proof -
  have ord: "bordered (st_tokens st')" using effect_ordered assms unfolding oneBootstrap_def by blast
  from assms(1) show ?thesis unfolding tokenEffect_def
  proof (elim disjE exE conjE)
    fix h assume m: "bget (st_storeMeta st') keyBootstrapAdminHash = Some h"
      and k: "\<forall>j. j \<noteq> h \<longrightarrow> bget (st_tokens st') j = retired h j (bget (st_tokens st) j) (bget (st_tokens st) j)"
    show ?thesis unfolding oneBootstrap_def
    proof (intro conjI ord allI impI)
      fix j r assume "bget (st_tokens st') j = Some (Val r) \<and> bootstrapIdentity r \<and> \<not> tok_Revoked r"
      then have "j = h" using k by (cases "j = h") (auto simp: retired_def split: option.splits cell.splits if_splits)
      then show "bget (st_storeMeta st') keyBootstrapAdminHash = Some j" using m by simp
    qed
  qed (use inv ord in \<open>auto simp: oneBootstrap_def bucket_simps bootstrapIdentity_def\<close>)
qed

lemma steps_ordered: "accessSteps L st hs st' \<Longrightarrow> bordered (st_tokens st) \<Longrightarrow> bordered (st_tokens st')"
  by (induction rule: accessSteps.induct) (auto intro: effect_ordered step_effect)

lemma steps_keep_revoked:
  assumes "accessSteps L st hs st'" and "bordered (st_tokens st)" and "revokedUnder h st" and "h \<notin> set hs"
  shows "revokedUnder h st'"
  using assms
proof (induction rule: accessSteps.induct)
  case (Drawn st hs st1 k st2)
  then show ?case using effect_keeps_revoked [OF step_effect] steps_ordered by (metis list.set_intros(1,2) option.inject)
next
  case (Plain st hs st1 st2)
  then show ?case using effect_keeps_revoked [OF step_effect] steps_ordered by (metis option.distinct(1))
qed simp

lemma steps_keep_one: "accessSteps L st hs st' \<Longrightarrow> oneBootstrap st \<Longrightarrow> oneBootstrap st'"
proof (induction rule: accessSteps.induct)
  case (Drawn st hs st1 k st2)
  then have one: "oneBootstrap st1" by blast
  then have "bordered (st_tokens st1)" by (simp add: oneBootstrap_def)
  from effect_keeps_one [OF step_effect [OF Drawn.hyps(2) this] one] show ?case .
next
  case (Plain st hs st1 st2)
  then have one: "oneBootstrap st1" by blast
  then have "bordered (st_tokens st1)" by (simp add: oneBootstrap_def)
  from effect_keeps_one [OF step_effect [OF Plain.hyps(2) this] one] show ?case .
qed

text \<open>C16: revocation is final. Once a credential is revoked, no sequence of calls that issue, ensure or
  bootstrap credentials, enrol nodes or refresh them brings it back, unless a random draw repeats its
  digest: its token never authenticates and never counts as a node credential again.\<close>

theorem revocation_is_final:
  assumes "RevokeTokenWithHash tokenID st = (Inr (r, h), st1)" and "bordered (st_tokens st)"
    and "accessSteps L st1 drawn st2" and "h \<notin> set drawn" and "tokenHash L token = h"
  shows "Authenticate L now token st2 = None \<and> \<not> NodeCredentialValid st2 h nodeID now"
proof -
  from revoke_spec [OF assms(1)] have st1: "st1 = putToken h r st" "tok_Revoked r" by auto
  then have "revokedUnder h st1" by (simp add: revokedUnder_def)
  moreover have "bordered (st_tokens st1)" using assms(2) st1 by (simp add: putToken_def bordered_putJSON)
  ultimately have "revokedUnder h st2" using steps_keep_revoked [OF assms(3)] assms(4) by blast
  then obtain q where "bget (st_tokens st2) h = Some (Val q)" "tok_Revoked q"
    by (auto simp: revokedUnder_def split: option.splits cell.splits)
  then show ?thesis
    by (simp add: Authenticate_def NodeCredentialValid_def validNodeCredentialTx_def getJSON_def Let_def assms(5))
qed

text \<open>the administrator identity reserved for the configuration is held by one credential at most.
  In every store reached from the empty one, a token that authenticates as \<open>relay-admin\<close> has the
  digest the store names as its bootstrap credential; every earlier one has been retired.\<close>

theorem one_bootstrap_credential:
  assumes "accessSteps L emptyStore drawn st" and "Authenticate L now token st = Some (r, h)"
    and "tok_Role r = ''admin''" and "tok_Subject r = relayAdmin"
  shows "bget (st_storeMeta st) keyBootstrapAdminHash = Some h"
proof -
  have "oneBootstrap emptyStore" by (simp add: oneBootstrap_def emptyStore_def bucket_simps)
  from steps_keep_one [OF assms(1) this] have inv: "oneBootstrap st" .
  from assms(2) have "bget (st_tokens st) h = Some (Val r)" "\<not> tok_Revoked r"
    by (auto simp: Authenticate_def Let_def getJSON_eq_Inr split: if_splits sum.splits)
  then show ?thesis using inv assms(3,4) unfolding oneBootstrap_def bootstrapIdentity_def by blast
qed

section \<open>From approval to the first connection\<close>

lemma poll_approved:
  assumes "bget (st_pairings st) (tokenHash L deviceCode) = Some (Val q)" and "now \<le> pair_ExpiresAt q"
    and "pair_Approved q" and "pair_PendingToken q \<noteq> []" and "\<not> pair_Denied q"
  shows "\<exists>st'. PollPairing L now deviceCode st = (Inr (''approved'', q\<lparr>pair_PendingToken := []\<rparr>, pair_PendingToken q), st')
    \<and> st_pairings st' = putJSON (tokenHash L deviceCode) (q\<lparr>pair_PendingToken := []\<rparr>) (st_pairings st)"
  using assms by (simp add: PollPairing_def update_def getJSON_def Let_def putPairing_def)

lemma poll_without_token:
  assumes "bget (st_pairings st) (tokenHash L deviceCode) = Some (Val q)" and "now \<le> pair_ExpiresAt q"
    and "pair_PendingToken q = []" and "\<not> pair_Denied q"
  shows "PollPairing L now deviceCode st = (Inr (''authorization_pending'', q, []), st)"
  using assms by (simp add: PollPairing_def update_def getJSON_def Let_def)

lemma decide_approved:
  assumes "DecidePairing L rawToken rawNode rawID now userCode True st = (Inr p, st')"
  shows "\<exists>q bytes recordID. p = q\<lparr>pair_PendingToken := []\<rparr> \<and> pair_Approved q \<and> pair_PendingToken q = ''cb_node_'' @ encode bytes
    \<and> bget (st_pairings st') (pair_DeviceCodeHash q) = Some (Val q)
    \<and> bget (st_tokens st') (tokenHash L (pair_PendingToken q)) = Some (Val (plainRecord recordID ''node'' (pair_NodeID q) (pair_Groups q) now))
    \<and> bget (st_nodes st') (pair_NodeID q) = Some (Val (persistNode (nodeOfPairing q now)))"
proof -
  obtain code where code: "normalizePairingUserCode L userCode = Some code"
    using assms by (auto simp: DecidePairing_def split: option.splits)
  obtain g st1 where gc: "GarbageCollectPairings L now st = (g, st1)" by fastforce
  with assms code obtain q where tx: "decidePairingTx L rawToken rawNode rawID now code True st1 = Inr (q, st')"
    and p: "p = q\<lparr>pair_PendingToken := []\<rparr>"
    by (auto simp: DecidePairing_def update_def split: sum.splits)
  from decideTx_spec [OF tx] obtain p0 where "approvePairingTx L rawToken rawNode rawID now p0 st1 = Inr (q, st')" by auto
  from approveTx_spec [OF this] obtain bytes nodeBytes recordID where
    q: "q = p0\<lparr>pair_Approved := True, pair_NodeID := ''node_'' @ hexEncode nodeBytes, pair_PendingToken := ''cb_node_'' @ encode bytes\<rparr>"
    and t: "st_tokens st' = putJSON (tokenHash L (pair_PendingToken q)) (plainRecord recordID ''node'' (pair_NodeID q) (pair_Groups p0) now) (st_tokens st1)"
    and n: "st_nodes st' = putJSON (pair_NodeID q) (persistNode (nodeOfPairing q now)) (st_nodes st1)"
    and pr: "st_pairings st' = putJSON (pair_DeviceCodeHash p0) q (st_pairings st1)" by blast
  have "pair_DeviceCodeHash p0 = pair_DeviceCodeHash q" "pair_Groups p0 = pair_Groups q" "pair_Approved q"
    "pair_PendingToken q = ''cb_node_'' @ encode bytes" by (simp_all add: q)
  then show ?thesis using p t n pr by (metis bget_putJSON)
qed

text \<open>C17: an approved device gets its credential once, and the credential is bound to the key it asked
  with. The first poll before the pairing expires returns a token that authenticates as a node under the
  identity of the node record, which holds the device's public key; a second poll returns no token. If the
  pairing had been denied before, the device is only told so.\<close>

theorem approved_pairing_binds_key:
  assumes "DecidePairing L rawToken rawNode rawID now userCode True st = (Inr p, st1)"
    and "tokenHash L deviceCode = pair_DeviceCodeHash p" and "t1 \<le> pair_ExpiresAt p" and "t2 \<le> pair_ExpiresAt p"
  shows "if pair_Denied p then PollPairing L t1 deviceCode st1 = (Inr (''access_denied'', p, []), st1)
    else \<exists>token st2 r n. PollPairing L t1 deviceCode st1 = (Inr (''approved'', p, token), st2)
      \<and> Authenticate L t token st2 = Some (r, tokenHash L token) \<and> tok_Role r = ''node'' \<and> tok_Subject r = pair_NodeID p
      \<and> GetNode st2 (pair_NodeID p) = Inr n \<and> node_PublicKey n = pair_PublicKey p \<and> node_PoolCertificate n = pair_PoolCertificate p
      \<and> PollPairing L t2 deviceCode st2 = (Inr (''authorization_pending'', p, []), st2)"
proof -
  from decide_approved [OF assms(1)] obtain q bytes recordID where p: "p = q\<lparr>pair_PendingToken := []\<rparr>" and a: "pair_Approved q"
    and pt: "pair_PendingToken q = ''cb_node_'' @ encode bytes"
    and stored: "bget (st_pairings st1) (pair_DeviceCodeHash q) = Some (Val q)"
    and tok: "bget (st_tokens st1) (tokenHash L (pair_PendingToken q)) = Some (Val (plainRecord recordID ''node'' (pair_NodeID q) (pair_Groups q) now))"
    and node: "bget (st_nodes st1) (pair_NodeID q) = Some (Val (persistNode (nodeOfPairing q now)))" by blast
  have key: "bget (st_pairings st1) (tokenHash L deviceCode) = Some (Val q)" using stored assms(2) by (simp add: p)
  have exp: "t1 \<le> pair_ExpiresAt q" using assms(3) by (simp add: p)
  show ?thesis
  proof (cases "pair_Denied q")
    case True
    then show ?thesis using key exp by (simp add: p PollPairing_def update_def getJSON_def Let_def)
  next
    case False
    from poll_approved [OF key exp a _ False] pt obtain st2 where
      poll: "PollPairing L t1 deviceCode st1 = (Inr (''approved'', p, pair_PendingToken q), st2)"
      and pr: "st_pairings st2 = putJSON (tokenHash L deviceCode) p (st_pairings st1)" by (auto simp: p)
    have frame: "st_tokens st2 = st_tokens st1" "st_nodes st2 = st_nodes st1" using poll_spec [OF poll] by auto
    have "PollPairing L t2 deviceCode st2 = (Inr (''authorization_pending'', p, []), st2)"
      by (rule poll_without_token) (use pr assms(4) False in \<open>simp_all add: bucket_simps p\<close>)
    moreover have "Authenticate L t (pair_PendingToken q) st2
        = Some (plainRecord recordID ''node'' (pair_NodeID q) (pair_Groups q) now, tokenHash L (pair_PendingToken q))"
      using tok frame(1) pt by (simp add: Authenticate_def Let_def getJSON_def plainRecord_def)
    moreover have "GetNode st2 (pair_NodeID p) = Inr (persistNode (nodeOfPairing q now))"
      using node frame(2) by (simp add: GetNode_def getJSON_def p)
    ultimately show ?thesis using poll False
      by (auto simp: p plainRecord_def nodeOfPairing_def persistNode_def)
  qed
qed

text \<open>a refresh cannot take over a node. An accepted heartbeat was signed in by a live credential of
  that very node, keeps the key and the pool certificate the node is known by, and leaves the counters,
  the drain mark and the routing history of the relay as they were.\<close>

theorem heartbeat_keeps_identity:
  assumes "UpsertNodePinnedAuthorized L now node h st = (Inr (), st')" and "GetNode st (node_ID node) = Inr old"
  shows "NodeCredentialValid st h (node_ID node) now \<and> (\<exists>new. GetNode st' (node_ID node) = Inr new
    \<and> (node_PublicKey old \<noteq> [] \<longrightarrow> node_PublicKey node = node_PublicKey old \<and> node_PublicKey new = node_PublicKey old)
    \<and> (node_PoolCertificate old \<noteq> None \<longrightarrow> node_PoolCertificate new = node_PoolCertificate old)
    \<and> node_JobsTotal new = node_JobsTotal old \<and> node_JobsFailed new = node_JobsFailed old \<and> node_ComputeMS new = node_ComputeMS old
    \<and> node_Draining new = node_Draining old \<and> (node_Draining old \<and> node_Connected node \<longrightarrow> node_State new = ''draining'')
    \<and> node_RoutingHealth new = boundedRoutingHealth (node_RoutingHealth old)
    \<and> node_RoutingPerformance new = boundedRoutingPerformance (node_RoutingPerformance old))"
proof -
  have h: "h \<noteq> []" using assms(1) by (auto simp: UpsertNodePinnedAuthorized_def)
  with assms(1) have tx: "upsertPinnedTx now node h st = Inr ((), st')"
    by (auto simp: UpsertNodePinnedAuthorized_def upsertNodePinnedAuthorized_def update_Inr split: sum.splits)
  have old: "getJSON (st_nodes st) (node_ID node) = Inr old" using assms(2) by (simp add: GetNode_def)
  from tx h have cred: "validNodeCredentialTx st h (node_ID node) now"
    and key: "node_PublicKey old \<noteq> [] \<Longrightarrow> node_PublicKey node = node_PublicKey old"
    and cert: "node_PoolCertificate old \<noteq> None \<Longrightarrow> node_PoolCertificate node \<noteq> None \<Longrightarrow> node_PoolCertificate node = node_PoolCertificate old"
    and st': "st' = putNode (node_ID node) (mergeStoredNodeState
        (if node_PublicKey old \<noteq> [] then node\<lparr>node_PublicKey := node_PublicKey old\<rparr> else node) old) st"
    by (auto simp: upsertPinnedTx_def old result_simps Let_def poolWorkerCertificatesEqual_def split: if_splits)
  have new: "GetNode st' (node_ID node) = Inr (persistNode (mergeStoredNodeState
        (if node_PublicKey old \<noteq> [] then node\<lparr>node_PublicKey := node_PublicKey old\<rparr> else node) old))"
    by (simp add: st' GetNode_def putNode_def bucket_simps)
  have "NodeCredentialValid st h (node_ID node) now" using cred by (simp add: NodeCredentialValid_def)
  moreover define merged where "merged = mergeStoredNodeState (if node_PublicKey old \<noteq> [] then node\<lparr>node_PublicKey := node_PublicKey old\<rparr> else node) old"
  have "(node_PublicKey old \<noteq> [] \<longrightarrow> node_PublicKey node = node_PublicKey old \<and> node_PublicKey (persistNode merged) = node_PublicKey old)
    \<and> (node_PoolCertificate old \<noteq> None \<longrightarrow> node_PoolCertificate (persistNode merged) = node_PoolCertificate old)"
    using key cert by (auto simp: merged_def mergeStoredNodeState_def persistNode_def Let_def)
  moreover have "node_JobsTotal merged = node_JobsTotal old \<and> node_JobsFailed merged = node_JobsFailed old \<and> node_ComputeMS merged = node_ComputeMS old
    \<and> node_Draining merged = node_Draining old \<and> (node_Draining old \<and> node_Connected node \<longrightarrow> node_State merged = ''draining'')
    \<and> node_RoutingHealth merged = boundedRoutingHealth (node_RoutingHealth old)
    \<and> node_RoutingPerformance merged = boundedRoutingPerformance (node_RoutingPerformance old)"
    by (simp add: merged_def mergeStoredNodeState_def Let_def)
  moreover note new [folded merged_def]
  ultimately show ?thesis by (simp add: persistNode_def)
qed

section \<open>Witnesses\<close>

theorem revocation_is_final_witness:
  "\<exists>st1 st2. RevokeTokenWithHash ''tok_1'' (putToken (tokenHash plainLib ''t'') (plainRecord ''tok_1'' ''node'' ''n'' [] 1) emptyStore)
       = (Inr ((plainRecord ''tok_1'' ''node'' ''n'' [] 1)\<lparr>tok_Revoked := True\<rparr>, tokenHash plainLib ''t''), st1)
     \<and> accessSteps plainLib st1 [] st2 \<and> Authenticate plainLib 5 ''t'' st2 = None"
proof -
  let ?h = "tokenHash plainLib ''t''" and ?r = "plainRecord ''tok_1'' ''node'' ''n'' [] 1"
  let ?st = "putToken ?h ?r emptyStore"
  have rev: "RevokeTokenWithHash ''tok_1'' ?st = (Inr (?r\<lparr>tok_Revoked := True\<rparr>, ?h), putToken ?h (?r\<lparr>tok_Revoked := True\<rparr>) ?st)"
    by (simp add: RevokeTokenWithHash_def update_def putToken_def emptyStore_def putJSON_def plainRecord_def Let_def)
  have ord: "bordered (st_tokens ?st)" by (simp add: putToken_def emptyStore_def bordered_putJSON)
  define st1 where "st1 = putToken ?h (?r\<lparr>tok_Revoked := True\<rparr>) ?st"
  have "GarbageCollectPairings plainLib 3 st1 = (Inr 0, st1)"
    by (simp add: GarbageCollectPairings_def garbageCollectPairings_def update_def st1_def putToken_def emptyStore_def)
  then have steps: "accessSteps plainLib st1 [] st1" using accessSteps.intros(1,3) accessStep.Collect by metis
  from revocation_is_final [OF rev ord steps [unfolded st1_def], of "''t''" 5] have "Authenticate plainLib 5 ''t'' st1 = None"
    by (simp add: st1_def)
  then show ?thesis using rev steps unfolding st1_def by blast
qed

theorem one_bootstrap_credential_witness:
  "\<exists>st r. accessSteps plainLib emptyStore [] st
     \<and> Authenticate plainLib 9 (replicate 32 (CHR ''a'')) st = Some (r, tokenHash plainLib (replicate 32 (CHR ''a'')))
     \<and> tok_Subject r = relayAdmin \<and> bget (st_storeMeta st) keyBootstrapAdminHash = Some (tokenHash plainLib (replicate 32 (CHR ''a'')))"
proof -
  let ?t = "replicate 32 (CHR ''a'')" and ?r = "plainRecord ''tok_'' ''admin'' relayAdmin [] 5"
  define st where "st = snd (EnsureBootstrapAdminToken plainLib (Inr []) 5 ?t emptyStore)"
  have st: "EnsureBootstrapAdminToken plainLib (Inr []) 5 ?t emptyStore = (Inr (), st)" "st_tokens st = [(tokenHash plainLib ?t, Val ?r)]"
    by (simp_all add: st_def EnsureBootstrapAdminToken_def ensureBootstrapTx_def installBootstrapTx_def update_def emptyStore_def
        bget_Nil randomID_def hexEncode_def putToken_def putJSON_def)
  then have steps: "accessSteps plainLib emptyStore [] st" using accessSteps.intros(1,3) accessStep.Bootstrap by metis
  have auth: "Authenticate plainLib 9 ?t st = Some (?r, tokenHash plainLib ?t)"
    by (simp add: Authenticate_def st(2) getJSON_def bget_def plainRecord_def Let_def)
  have "bget (st_storeMeta st) keyBootstrapAdminHash = Some (tokenHash plainLib ?t)"
    by (rule one_bootstrap_credential [OF steps auth]) (simp_all add: plainRecord_def)
  then show ?thesis using steps auth by (auto simp: plainRecord_def)
qed

theorem approved_pairing_binds_key_witness:
  "\<exists>st p st1 st2 token. DecidePairing plainLib (Inr ''x'') (Inr ''y'') (Inr ''z'') 3 ''AAAA-AAAA'' True st = (Inr p, st1)
     \<and> PollPairing plainLib 4 ''d'' st1 = (Inr (''approved'', p, token), st2)
     \<and> PollPairing plainLib 5 ''d'' st2 = (Inr (''authorization_pending'', p, []), st2)"
proof -
  let ?h = "tokenHash plainLib ''d''"
  let ?p = "\<lparr>pair_DeviceCodeHash = ?h, pair_UserCode = ''AAAA-AAAA'', pair_NodeName = ''n'', pair_PublicKey = ''k'', pair_PoolCertificate = None,
      pair_PublicKeyFingerprint = [], pair_Groups = [], pair_ExpiresAt = 10, pair_Approved = False, pair_Denied = False, pair_NodeID = [],
      pair_PendingToken = []\<rparr>"
  let ?st = "emptyStore\<lparr>st_pairings := [(?h, Val ?p)], st_pairCodes := [(''AAAA-AAAA'', ?h)]\<rparr>"
  have code: "normalizePairingUserCode plainLib ''AAAA-AAAA'' = Some (take 4 ''AAAAAAAA'' @ ''-'' @ drop 4 ''AAAAAAAA'')"
    by (rule normalize_ascii) (simp_all add: asciiUpper_def codeRune_def char_of_eq_iff)
  have h: "?h \<noteq> []" by (simp add: tokenHash_def sha256Hex_def plainLib_def hexEncode_def)
  have gc: "GarbageCollectPairings plainLib 3 ?st = (Inr 0, ?st)"
    by (simp add: GarbageCollectPairings_def garbageCollectPairings_def update_def)
  obtain q st1 where tx: "decidePairingTx plainLib (Inr ''x'') (Inr ''y'') (Inr ''z'') 3 ''AAAA-AAAA'' True ?st = Inr (q, st1)"
    and q: "pair_DeviceCodeHash q = ?h" "pair_ExpiresAt q = 10" "\<not> pair_Denied q"
    using h by (simp add: decidePairingTx_def bget_def getJSON_def approvePairingTx_def randomToken_def randomID_def Let_def)
  have dec: "DecidePairing plainLib (Inr ''x'') (Inr ''y'') (Inr ''z'') 3 ''AAAA-AAAA'' True ?st = (Inr (q\<lparr>pair_PendingToken := []\<rparr>), st1)"
    by (simp add: DecidePairing_def code gc update_def tx)
  show ?thesis using approved_pairing_binds_key [OF dec, of "''d''" 4 5] q dec by fastforce
qed

theorem heartbeat_keeps_identity_witness:
  "\<exists>st node old st' new. UpsertNodePinnedAuthorized plainLib 5 node ''h'' st = (Inr (), st') \<and> GetNode st (node_ID node) = Inr old
     \<and> node_Draining old \<and> GetNode st' (node_ID node) = Inr new \<and> node_Draining new"
proof -
  let ?old = "zeroNode\<lparr>node_ID := ''n'', node_PublicKey := replicate 32 (CHR ''k''), node_Draining := True\<rparr>"
  let ?node = "zeroNode\<lparr>node_ID := ''n'', node_PublicKey := replicate 32 (CHR ''k''), node_Connected := True\<rparr>"
  let ?st = "emptyStore\<lparr>st_tokens := [(''h'', Val (plainRecord ''t'' ''node'' ''n'' [] 1))], st_nodes := [(''n'', Val ?old)]\<rparr>"
  have old: "GetNode ?st (node_ID ?node) = Inr ?old" by (simp add: GetNode_def getJSON_def bget_def)
  have "\<exists>st'. UpsertNodePinnedAuthorized plainLib 5 ?node ''h'' ?st = (Inr (), st')"
    by (simp add: UpsertNodePinnedAuthorized_def upsertNodePinnedAuthorized_def parsePublicKey_def plainLib_def update_def upsertPinnedTx_def
        validNodeCredentialTx_def getJSON_def bget_def plainRecord_def Let_def zeroNode_def)
  then obtain st' where up: "UpsertNodePinnedAuthorized plainLib 5 ?node ''h'' ?st = (Inr (), st')" by blast
  from heartbeat_keeps_identity [OF up old] obtain new where "GetNode st' (node_ID ?node) = Inr new" "node_Draining new" by auto
  then show ?thesis using up old by fastforce
qed

end
