(* ===== verification/Worker_Slots.thy ===== *)
theory Worker_Slots
  imports Job_Types "HOL-Library.AList"
begin

text \<open>
  The execution slots of a connected worker (\<open>internal/cluster/relay.go\<close>, type
  \<open>workerConnection\<close>, and the load counters of \<open>interactive_capacity.go\<close>). A slot is
  reserved before the durable assignment, marked as dispatched before the job is written to the worker,
  marked as terminal when the stored job ends, and released by the matching result or the end of the
  connection. Every method holds the mutex of the connection from its first to its last statement, so
  an execution is a sequence of whole methods; the websocket and the mutexes are not part of the state.
  The map of reservations is an association list with distinct keys.
\<close>

section \<open>State\<close>

definition MaximumWorkerConcurrency :: int where "MaximumWorkerConcurrency = 64"

record workerReservation =
  wr_interactive :: bool
  wr_storeTerminal :: bool
  wr_dispatchStarted :: bool
  wr_attempt :: int
  wr_fence :: "assignmentFence option"

datatype workerReservationTerminalState =
    workerReservationMissing
  | workerReservationPreDispatch
  | workerReservationDispatched

record workerConnection =
  wc_credentialHash :: string
  wc_inFlight :: "(string \<times> workerReservation) list"
  wc_capacity :: int

definition boundedWorkerCapacity :: "int \<Rightarrow> int" where
  "boundedWorkerCapacity capacity =
     (if capacity \<le> 0 then 1 else if capacity > MaximumWorkerConcurrency then MaximumWorkerConcurrency else capacity)"

definition newWorkerConnection :: "int \<Rightarrow> string list \<Rightarrow> workerConnection" where
  "newWorkerConnection capacity credentialHash =
     \<lparr>wc_credentialHash = (case credentialHash of [] \<Rightarrow> [] | h # _ \<Rightarrow> h), wc_inFlight = [],
      wc_capacity = boundedWorkerCapacity capacity\<rparr>"

section \<open>Methods\<close>

definition interactiveCount :: "(string \<times> workerReservation) list \<Rightarrow> int" where
  "interactiveCount inFlight = int (length (filter (wr_interactive \<circ> snd) inFlight))"

definition capacityLoad :: "workerConnection \<Rightarrow> int \<times> int \<times> int" where
  "capacityLoad w = (int (length (wc_inFlight w)), wc_capacity w, interactiveCount (wc_inFlight w))"

definition interactiveLoad :: "workerConnection \<Rightarrow> int" where
  "interactiveLoad w = snd (snd (capacityLoad w))"

definition load :: "workerConnection \<Rightarrow> int \<times> int" where
  "load w = (int (length (wc_inFlight w)), wc_capacity w)"

definition freshReservation :: "bool \<Rightarrow> workerReservation" where
  "freshReservation interactive = \<lparr>wr_interactive = interactive, wr_storeTerminal = False, wr_dispatchStarted = False,
     wr_attempt = 0, wr_fence = None\<rparr>"

definition reservationLimit :: "workerConnection \<Rightarrow> int \<Rightarrow> bool \<Rightarrow> int" where
  "reservationLimit w reservedSlots interactive =
     (let limit = wc_capacity w in
      if reservedSlots > 0 \<and> \<not> interactive
      then min (limit - min reservedSlots (wc_capacity w) + interactiveCount (wc_inFlight w)) (wc_capacity w)
      else limit)"

definition reserveCapacity :: "string \<Rightarrow> int \<Rightarrow> bool \<Rightarrow> workerConnection \<Rightarrow> bool \<times> workerConnection" where
  "reserveCapacity jobID reservedSlots interactive w =
     (if map_of (wc_inFlight w) jobID \<noteq> None then (False, w)
      else if int (length (wc_inFlight w)) \<ge> reservationLimit w reservedSlots interactive then (False, w)
      else (True, w\<lparr>wc_inFlight := AList.update jobID (freshReservation interactive) (wc_inFlight w)\<rparr>))"

definition reserve :: "string \<Rightarrow> workerConnection \<Rightarrow> bool \<times> workerConnection" where
  "reserve jobID w = reserveCapacity jobID 0 False w"

definition markStoreTerminalState :: "string \<Rightarrow> workerConnection \<Rightarrow> workerReservationTerminalState \<times> workerConnection" where
  "markStoreTerminalState jobID w =
     (case map_of (wc_inFlight w) jobID of
        None \<Rightarrow> (workerReservationMissing, w)
      | Some reservation \<Rightarrow>
          (if wr_dispatchStarted reservation then workerReservationDispatched else workerReservationPreDispatch,
           w\<lparr>wc_inFlight := AList.update jobID (reservation\<lparr>wr_storeTerminal := True\<rparr>) (wc_inFlight w)\<rparr>))"

definition markStoreTerminal :: "string \<Rightarrow> workerConnection \<Rightarrow> bool \<times> workerConnection" where
  "markStoreTerminal jobID w =
     (let (state, w') = markStoreTerminalState jobID w in (state = workerReservationDispatched, w'))"

definition beginDispatch :: "string \<Rightarrow> int \<Rightarrow> assignmentFence option list \<Rightarrow> workerConnection \<Rightarrow> bool \<times> workerConnection" where
  "beginDispatch jobID attempt fences w =
     (case map_of (wc_inFlight w) jobID of
        None \<Rightarrow> (False, w)
      | Some reservation \<Rightarrow>
          if wr_storeTerminal reservation \<or> attempt \<le> 0 then (False, w)
          else (let reservation = reservation\<lparr>wr_dispatchStarted := True, wr_attempt := attempt\<rparr>;
                    reservation = (case fences of
                                     Some fence # _ \<Rightarrow> reservation\<lparr>wr_fence := Some fence\<rparr>
                                   | _ \<Rightarrow> reservation)
                in (True, w\<lparr>wc_inFlight := AList.update jobID reservation (wc_inFlight w)\<rparr>)))"

definition assignmentFencePointersEqual :: "assignmentFence option \<Rightarrow> assignmentFence option \<Rightarrow> bool" where
  "assignmentFencePointersEqual left right =
     (case (left, right) of (Some l, Some r) \<Rightarrow> l = r | (None, None) \<Rightarrow> True | _ \<Rightarrow> False)"

definition matchesDispatch :: "string \<Rightarrow> int \<Rightarrow> assignmentFence option list \<Rightarrow> workerConnection \<Rightarrow> bool" where
  "matchesDispatch jobID attempt fences w =
     (case map_of (wc_inFlight w) jobID of
        None \<Rightarrow> False
      | Some reservation \<Rightarrow>
          if \<not> wr_dispatchStarted reservation \<or> attempt \<le> 0 \<or> wr_attempt reservation \<noteq> attempt then False
          else assignmentFencePointersEqual (wr_fence reservation) (case fences of [] \<Rightarrow> None | reported # _ \<Rightarrow> reported))"

definition release :: "string \<Rightarrow> workerConnection \<Rightarrow> workerConnection" where
  "release jobID w = w\<lparr>wc_inFlight := AList.delete jobID (wc_inFlight w)\<rparr>"

definition needsStaleRecovery :: "workerConnection \<Rightarrow> bool" where
  "needsStaleRecovery w = list_ex (\<lambda>(_, reservation). \<not> wr_storeTerminal reservation) (wc_inFlight w)"

definition updateCapacity :: "int \<Rightarrow> workerConnection \<Rightarrow> workerConnection" where
  "updateCapacity capacity w = w\<lparr>wc_capacity := boundedWorkerCapacity capacity\<rparr>"

section \<open>Executions\<close>

text \<open>A call is labelled with its arguments and its result.\<close>

datatype slotCall =
    Reserve string int bool bool
  | MarkTerminal string workerReservationTerminalState
  | BeginDispatch string int "assignmentFence option list" bool
  | Release string
  | UpdateCapacity int

inductive slotStep :: "slotCall \<Rightarrow> workerConnection \<Rightarrow> workerConnection \<Rightarrow> bool" where
  reserve: "reserveCapacity j k i w = (ok, w') \<Longrightarrow> slotStep (Reserve j k i ok) w w'"
| mark: "markStoreTerminalState j w = (state, w') \<Longrightarrow> slotStep (MarkTerminal j state) w w'"
| begin_dispatch: "beginDispatch j a fs w = (ok, w') \<Longrightarrow> slotStep (BeginDispatch j a fs ok) w w'"
| free: "slotStep (Release j) w (release j w)"
| capacity: "slotStep (UpdateCapacity c) w (updateCapacity c w)"

inductive slotSteps :: "slotCall list \<Rightarrow> workerConnection \<Rightarrow> workerConnection \<Rightarrow> bool" where
  stop: "slotSteps [] w w"
| go: "slotStep c w w' \<Longrightarrow> slotSteps cs w' w'' \<Longrightarrow> slotSteps (c # cs) w w''"

inductive_cases slotSteps_ConsE: "slotSteps (c # cs) w w''"
inductive_cases markStepE: "slotStep (MarkTerminal j state) w w'"
inductive_cases beginStepE: "slotStep (BeginDispatch j a fs ok) w w'"

text \<open>What holds of every connection: each job has one reservation, the number of reservations is within
  the bound on concurrency, and a reservation has an attempt exactly when it was dispatched.\<close>

definition reservationWF :: "workerReservation \<Rightarrow> bool" where
  "reservationWF r \<longleftrightarrow> (wr_dispatchStarted r \<longleftrightarrow> 0 < wr_attempt r) \<and> (wr_fence r \<noteq> None \<longrightarrow> wr_dispatchStarted r)"

definition slotsWF :: "workerConnection \<Rightarrow> bool" where
  "slotsWF w \<longleftrightarrow> distinct (map fst (wc_inFlight w)) \<and> 1 \<le> wc_capacity w \<and> wc_capacity w \<le> MaximumWorkerConcurrency
     \<and> int (length (wc_inFlight w)) \<le> MaximumWorkerConcurrency \<and> (\<forall>(j, r) \<in> set (wc_inFlight w). reservationWF r)"

lemma boundedWorkerCapacity_range: "1 \<le> boundedWorkerCapacity c \<and> boundedWorkerCapacity c \<le> MaximumWorkerConcurrency"
  by (simp add: boundedWorkerCapacity_def MaximumWorkerConcurrency_def)

lemma update_present_length: "map_of xs k = Some v \<Longrightarrow> length (AList.update k v' xs) = length xs"
  by (induction xs) (auto split: if_splits)

lemma update_absent: "map_of xs k = None \<Longrightarrow> AList.update k v xs = xs @ [(k, v)]"
  by (induction xs) (auto split: if_splits)

lemma update_values: "(\<forall>(j, r) \<in> set xs. P r) \<Longrightarrow> P v \<Longrightarrow> \<forall>(j, r) \<in> set (AList.update k v xs). P r"
  by (induction xs) (auto split: if_splits)

lemma map_of_values: "(\<forall>(j, r) \<in> set xs. P r) \<Longrightarrow> map_of xs k = Some v \<Longrightarrow> P v"
  by (auto dest: map_of_SomeD)

lemma filter_update_present:
  assumes "map_of xs k = Some v" and "P v' = P v"
  shows "length (filter (P \<circ> snd) (AList.update k v' xs)) = length (filter (P \<circ> snd) xs)"
  using assms by (induction xs) (auto split: if_splits)

lemma slotsWF_update:
  assumes "slotsWF w" and "map_of (wc_inFlight w) j = Some r" and "reservationWF r'"
  shows "slotsWF (w\<lparr>wc_inFlight := AList.update j r' (wc_inFlight w)\<rparr>)"
  using assms update_present_length [OF assms(2), of r'] update_values [of "wc_inFlight w" reservationWF r' j]
  by (simp add: slotsWF_def distinct_update)

lemma slotStep_wf:
  assumes "slotStep c w w'" and wf: "slotsWF w"
  shows "slotsWF w'"
  using assms(1)
proof cases
  case (reserve j k i ok)
  show ?thesis
  proof (cases "w' = w")
    case False
    then have new: "map_of (wc_inFlight w) j = None" "int (length (wc_inFlight w)) < reservationLimit w k i"
        "w' = w\<lparr>wc_inFlight := wc_inFlight w @ [(j, freshReservation i)]\<rparr>"
      using reserve(2) by (auto simp: reserveCapacity_def update_absent split: if_splits)
    have "reservationLimit w k i \<le> wc_capacity w" by (simp add: reservationLimit_def Let_def)
    then show ?thesis using wf new by (auto simp: slotsWF_def reservationWF_def freshReservation_def map_of_eq_None_iff)
  qed (use wf in simp)
next
  case (mark j state)
  show ?thesis
  proof (cases "map_of (wc_inFlight w) j")
    case (Some r)
    then have "reservationWF r" using wf by (auto simp: slotsWF_def dest: map_of_SomeD)
    then show ?thesis using slotsWF_update [OF wf Some, of "r\<lparr>wr_storeTerminal := True\<rparr>"] mark(2) Some
      by (auto simp: markStoreTerminalState_def reservationWF_def)
  qed (use mark wf in \<open>simp add: markStoreTerminalState_def\<close>)
next
  case (begin_dispatch j a fs ok)
  show ?thesis
  proof (cases "map_of (wc_inFlight w) j")
    case (Some r)
    then have "reservationWF r" using wf by (auto simp: slotsWF_def dest: map_of_SomeD)
    then show ?thesis using slotsWF_update [OF wf Some] begin_dispatch(2) Some wf
      by (auto simp: beginDispatch_def reservationWF_def Let_def split: if_splits list.splits option.splits)
  qed (use begin_dispatch wf in \<open>simp add: beginDispatch_def\<close>)
next
  case (free j)
  have "length (AList.delete j (wc_inFlight w)) \<le> length (wc_inFlight w)" by (rule length_delete_le)
  moreover have "set (AList.delete j (wc_inFlight w)) \<subseteq> set (wc_inFlight w)" by (simp add: AList.delete_eq)
  ultimately show ?thesis using wf free by (auto simp: slotsWF_def release_def intro: distinct_delete)
next
  case (capacity c)
  then show ?thesis using wf boundedWorkerCapacity_range [of c] by (simp add: slotsWF_def updateCapacity_def)
qed

lemma slotSteps_wf: "slotSteps cs w w' \<Longrightarrow> slotsWF w \<Longrightarrow> slotsWF w'"
  by (induction rule: slotSteps.induct) (auto intro: slotStep_wf)

lemma new_wf: "slotsWF (newWorkerConnection capacity hashes)"
  using boundedWorkerCapacity_range [of capacity] by (auto simp: slotsWF_def newWorkerConnection_def MaximumWorkerConcurrency_def)

text \<open>whatever the order of reservations, cancellations, dispatches, releases and capacity reports,
  a connection keeps at most one reservation per job and at most 64 in all, its capacity stays between
  1 and 64, and a reservation carries an attempt and a fence only once it was dispatched.\<close>

theorem slots_stay_well_formed:
  assumes "slotSteps cs (newWorkerConnection capacity hashes) w"
  shows "slotsWF w"
  using slotSteps_wf [OF assms new_wf] .

section \<open>Slots kept for interactive work\<close>

definition batchCount :: "workerConnection \<Rightarrow> int" where
  "batchCount w = int (length (filter (Not \<circ> wr_interactive \<circ> snd) (wc_inFlight w)))"

lemma load_split: "int (length (wc_inFlight w)) = interactiveCount (wc_inFlight w) + batchCount w"
proof -
  have "length xs = length (filter (wr_interactive \<circ> snd) xs) + length (filter (Not \<circ> wr_interactive \<circ> snd) xs)" for xs :: "(string \<times> workerReservation) list"
    by (induction xs) auto
  from this [of "wc_inFlight w"] show ?thesis unfolding interactiveCount_def batchCount_def by linarith
qed

text \<open>work that is not interactive never takes a slot kept for interactive work. With \<open>k\<close> reserved
  slots it gets one exactly when the job holds none yet, the worker has a free slot and fewer than the
  capacity less \<open>k\<close> slots carry such work, so that afterwards at most that many do; interactive work may
  use every slot; a refusal changes nothing.\<close>

theorem batch_leaves_reserved_slots:
  "(fst (reserveCapacity j k False w) \<longleftrightarrow>
      map_of (wc_inFlight w) j = None \<and> int (length (wc_inFlight w)) < wc_capacity w \<and> (k \<le> 0 \<or> batchCount w < wc_capacity w - k))
   \<and> (fst (reserveCapacity j k True w) \<longleftrightarrow> map_of (wc_inFlight w) j = None \<and> int (length (wc_inFlight w)) < wc_capacity w)
   \<and> batchCount (snd (reserveCapacity j k False w)) = batchCount w + (if fst (reserveCapacity j k False w) then 1 else 0)
   \<and> batchCount (snd (reserveCapacity j k True w)) = batchCount w
   \<and> snd (reserveCapacity j k i w) = (if fst (reserveCapacity j k i w)
        then w\<lparr>wc_inFlight := wc_inFlight w @ [(j, freshReservation i)]\<rparr> else w)"
proof -
  have "0 \<le> batchCount w" "0 \<le> interactiveCount (wc_inFlight w)" by (simp_all add: batchCount_def interactiveCount_def)
  then have lim: "int (length (wc_inFlight w)) < reservationLimit w k False \<longleftrightarrow>
      int (length (wc_inFlight w)) < wc_capacity w \<and> (k \<le> 0 \<or> batchCount w < wc_capacity w - k)"
    using load_split [of w] by (cases "k \<le> 0"; cases "k \<le> wc_capacity w") (simp_all add: reservationLimit_def; linarith)+
  have "batchCount (w\<lparr>wc_inFlight := wc_inFlight w @ [(j, freshReservation i)]\<rparr>) = batchCount w + (if i then 0 else 1)" for i
    by (simp add: batchCount_def freshReservation_def)
  note count = this
  have inter: "reservationLimit w k True = wc_capacity w" by (simp add: reservationLimit_def)
  show ?thesis
    by (cases "map_of (wc_inFlight w) j"; cases "int (length (wc_inFlight w)) < reservationLimit w k False")
       (use lim in \<open>simp_all add: reserveCapacity_def update_absent count inter not_le\<close>)
qed

section \<open>Cancellation before dispatch\<close>

definition preDispatchTerminal :: "string \<Rightarrow> workerConnection \<Rightarrow> bool" where
  "preDispatchTerminal j w \<longleftrightarrow>
     (case map_of (wc_inFlight w) j of None \<Rightarrow> False | Some r \<Rightarrow> wr_storeTerminal r \<and> \<not> wr_dispatchStarted r)"

lemma map_of_update [simp]: "map_of (AList.update k v xs) k' = (if k' = k then Some v else map_of xs k')"
  by (simp add: update_conv')

lemma map_of_delete [simp]: "map_of (AList.delete k xs) k' = (if k' = k then None else map_of xs k')"
  by (simp add: delete_conv')

lemma preDispatchTerminal_step:
  assumes "slotStep c w w'" and "preDispatchTerminal j w" and "c \<noteq> Release j"
  shows "preDispatchTerminal j w' \<and> (\<forall>a fs. c \<noteq> BeginDispatch j a fs True)"
  using assms
  by cases (auto simp: preDispatchTerminal_def reserveCapacity_def markStoreTerminalState_def beginDispatch_def release_def
      updateCapacity_def Let_def split: if_splits option.splits list.splits)

lemma preDispatchTerminal_steps:
  assumes "slotSteps cs w w'" and "preDispatchTerminal j w" and "Release j \<notin> set cs"
  shows "preDispatchTerminal j w' \<and> (\<forall>a fs. BeginDispatch j a fs True \<notin> set cs)"
  using assms
proof (induction rule: slotSteps.induct)
  case (go c w w' cs w'')
  from go.prems have "c \<noteq> Release j" by auto
  from preDispatchTerminal_step [OF go.hyps(1) go.prems(1) this] go show ?case by auto
qed simp

text \<open>C38: a cancellation that finds its reservation before dispatch wins for good: until the slot is released
  the job is never dispatched on that connection, whatever else happens there, and its slot stays
  occupied.\<close>

theorem cancelled_before_dispatch_never_starts:
  assumes "slotStep (MarkTerminal j workerReservationPreDispatch) w w1" and "slotSteps cs w1 w2" and "Release j \<notin> set cs"
  shows "(\<forall>a fs. BeginDispatch j a fs True \<notin> set cs) \<and> j \<in> set (map fst (wc_inFlight w2))"
proof -
  from assms(1) have "preDispatchTerminal j w1"
    by (rule markStepE) (auto simp: preDispatchTerminal_def markStoreTerminalState_def split: option.splits if_splits)
  from preDispatchTerminal_steps [OF assms(2) this assms(3)] show ?thesis
    by (auto simp: preDispatchTerminal_def split: option.splits dest!: map_of_SomeD intro: rev_image_eqI)
qed

section \<open>Matching a result with its dispatch\<close>

definition dispatchedAs :: "string \<Rightarrow> int \<Rightarrow> assignmentFence option \<Rightarrow> workerConnection \<Rightarrow> bool" where
  "dispatchedAs j a f w \<longleftrightarrow>
     (case map_of (wc_inFlight w) j of None \<Rightarrow> False | Some r \<Rightarrow> wr_dispatchStarted r \<and> wr_attempt r = a \<and> wr_fence r = f)"

lemma dispatchedAs_step:
  assumes "slotStep c w w'" and "dispatchedAs j a f w" and "c \<noteq> Release j" and "\<forall>a fs. c \<noteq> BeginDispatch j a fs True"
  shows "dispatchedAs j a f w'"
  using assms
  by cases (auto simp: dispatchedAs_def reserveCapacity_def markStoreTerminalState_def beginDispatch_def release_def
      updateCapacity_def Let_def split: if_splits option.splits list.splits)

lemma dispatchedAs_steps:
  assumes "slotSteps cs w w'" and "dispatchedAs j a f w" and "Release j \<notin> set cs" and "\<forall>a fs. BeginDispatch j a fs True \<notin> set cs"
  shows "dispatchedAs j a f w'"
  using assms
proof (induction rule: slotSteps.induct)
  case (go c w w' cs w'')
  from go.prems have "c \<noteq> Release j" "\<forall>a fs. c \<noteq> BeginDispatch j a fs True" by auto
  from dispatchedAs_step [OF go.hyps(1) go.prems(1) this] go show ?case by auto
qed simp

lemma matches_dispatched:
  assumes "dispatchedAs j a f w" and "0 < a"
  shows "matchesDispatch j a' [f'] w \<longleftrightarrow> a' = a \<and> f' = f"
  using assms by (auto simp: dispatchedAs_def matchesDispatch_def assignmentFencePointersEqual_def split: option.splits)

text \<open>a slot is given back only to the execution that holds it. Once a job was dispatched with an attempt
  and a fence, then until its slot is released or the job is dispatched again a report matches exactly
  when it names that attempt and that fence, also after the stored job has ended; so a late report of an
  earlier assignment never frees the slot of a later one.\<close>

theorem only_current_dispatch_matches:
  assumes "map_of (wc_inFlight w) j = Some r" and "wr_fence r = None" and "slotStep (BeginDispatch j a [f] True) w w1"
    and "slotSteps cs w1 w2" and "Release j \<notin> set cs" and "\<forall>a fs. BeginDispatch j a fs True \<notin> set cs"
  shows "0 < a \<and> j \<in> set (map fst (wc_inFlight w2)) \<and> (matchesDispatch j a' [f'] w2 \<longleftrightarrow> a' = a \<and> f' = f)"
proof -
  from assms(3) have "beginDispatch j a [f] w = (True, w1)" by (rule beginStepE) simp
  with assms(1,2) have d: "0 < a" "dispatchedAs j a f w1"
    by (auto simp: beginDispatch_def dispatchedAs_def Let_def split: if_splits option.splits)
  from dispatchedAs_steps [OF assms(4) d(2) assms(5,6)] have "dispatchedAs j a f w2" .
  then show ?thesis using matches_dispatched [OF _ d(1)] d(1)
    by (auto simp: dispatchedAs_def split: option.splits dest!: map_of_SomeD intro: rev_image_eqI)
qed

section \<open>Witnesses\<close>

definition reservedConnection :: workerConnection where
  "reservedConnection = snd (reserveCapacity ''job_1'' 0 False (newWorkerConnection 2 []))"

lemma reserved_step: "slotStep (Reserve ''job_1'' 0 False True) (newWorkerConnection 2 []) reservedConnection"
  by (rule slotStep.reserve) (simp add: reservedConnection_def reserveCapacity_def newWorkerConnection_def reservationLimit_def
      boundedWorkerCapacity_def MaximumWorkerConcurrency_def)

lemma reserved_slot: "map_of (wc_inFlight reservedConnection) ''job_1'' = Some (freshReservation False)"
  by (simp add: reservedConnection_def reserveCapacity_def newWorkerConnection_def reservationLimit_def
      boundedWorkerCapacity_def MaximumWorkerConcurrency_def)

theorem slots_stay_well_formed_witness: "slotsWF reservedConnection"
  by (rule slots_stay_well_formed [OF slotSteps.go [OF reserved_step slotSteps.stop]])

theorem cancelled_before_dispatch_never_starts_witness:
  "slotStep (MarkTerminal ''job_1'' workerReservationPreDispatch) reservedConnection (snd (markStoreTerminalState ''job_1'' reservedConnection))
   \<and> (\<forall>a fs. BeginDispatch ''job_1'' a fs True \<notin> set [UpdateCapacity 3])
   \<and> ''job_1'' \<in> set (map fst (wc_inFlight (updateCapacity 3 (snd (markStoreTerminalState ''job_1'' reservedConnection)))))"
proof -
  let ?w = "snd (markStoreTerminalState ''job_1'' reservedConnection)"
  have m: "slotStep (MarkTerminal ''job_1'' workerReservationPreDispatch) reservedConnection ?w"
    by (rule slotStep.mark) (simp add: markStoreTerminalState_def reserved_slot freshReservation_def)
  have "slotSteps [UpdateCapacity 3] ?w (updateCapacity 3 ?w)" by (rule slotSteps.go [OF slotStep.capacity slotSteps.stop])
  from cancelled_before_dispatch_never_starts [OF m this] m show ?thesis by simp
qed

theorem only_current_dispatch_matches_witness:
  "\<exists>w. slotStep (BeginDispatch ''job_1'' 2 [None] True) reservedConnection w
     \<and> matchesDispatch ''job_1'' 2 [None] w \<and> \<not> matchesDispatch ''job_1'' 1 [None] w"
proof -
  let ?w = "snd (beginDispatch ''job_1'' 2 [None] reservedConnection)"
  have b: "slotStep (BeginDispatch ''job_1'' 2 [None] True) reservedConnection ?w"
    by (rule slotStep.begin_dispatch) (simp add: beginDispatch_def reserved_slot freshReservation_def)
  have "wr_fence (freshReservation False) = None" by (simp add: freshReservation_def)
  from only_current_dispatch_matches [OF reserved_slot this b slotSteps.stop] b show ?thesis by auto
qed

end
