(* ===== verification/Job_System.thy ===== *)
theory Job_System
  imports Reservations Graph_Execution Node_Enrollment Worker_Slots
begin

text \<open>The operations of the store taken together. Bolt runs write transactions one at a time, so the life
  of a store is a sequence of committed operations of any kind, by any producer, worker or sweep, in any
  order. Each operation is shown once to keep the invariant and to move every job along its life cycle at
  most one step (locale \<open>store_operation\<close>); what holds of all sequences follows.\<close>

section \<open>What job operations leave alone\<close>

text \<open>Reservations, credentials and pairings: the buckets that only their own operations write.\<close>

definition accessRecords :: "store \<Rightarrow> reservation cell bucket \<times> tokenRecord cell bucket \<times> pairing cell bucket \<times> string bucket \<times> string bucket" where
  "accessRecords st = (st_assignments st, st_tokens st, st_pairings st, st_pairCodes st, st_storeMeta st)"

named_theorems access_kept

lemma records_put [simp]:
  "accessRecords (putJob k j st) = accessRecords st" "accessRecords (putNode k n st) = accessRecords st"
  "accessRecords (putRun k r st) = accessRecords st" "accessRecords (putSessionPlacement k p st) = accessRecords st"
  "accessRecords (putJobOwnerIndex L j st) = accessRecords st"
  by (simp_all add: accessRecords_def putJob_def putNode_def putRun_def putSessionPlacement_def putJobOwnerIndex_def)

lemma records_outside:
  "outsideLogs st' = outsideLogs st \<Longrightarrow> accessRecords st' = accessRecords st"
  "outsideLocks st' = outsideLocks st \<Longrightarrow> accessRecords st' = accessRecords st"
  "outsideQueue st' = outsideQueue st \<Longrightarrow> accessRecords st' = accessRecords st"
  by (cases st; cases st'; simp add: accessRecords_def outsideLogs_def outsideLocks_def outsideQueue_def)+

lemma records_events [access_kept]:
  "appendAuthoritativeJobEventTx now job t st = Inr st' \<Longrightarrow> accessRecords st' = accessRecords st"
  "appendPipelineStepEventTx now job t st = Inr st' \<Longrightarrow> accessRecords st' = accessRecords st"
  "appendPipelineEventTx now run t st = Inr st' \<Longrightarrow> accessRecords st' = accessRecords st"
  "appendPipelineNodeCheckpointEventTx now run n t st = Inr st' \<Longrightarrow> accessRecords st' = accessRecords st"
  "appendAdvisoryJobProgressEventTx now job p st = Inr st' \<Longrightarrow> accessRecords st' = accessRecords st"
  by (rule records_outside(1), erule append_outside)+

lemma records_queue [access_kept]:
  "putQueueEntry job st = Inr st' \<Longrightarrow> accessRecords st' = accessRecords st"
  "deleteQueueEntry i st = Inr st' \<Longrightarrow> accessRecords st' = accessRecords st"
  by (rule records_outside(3), erule putQueueEntry_outside deleteQueueEntry_outside)+

lemma records_locks [access_kept]:
  "acquireAdapterSessionLockTx L owner r kind h e now req st = Inr st' \<Longrightarrow> accessRecords st' = accessRecords st"
  by (rule records_outside(2), erule acquire_outside)

lemma records_release [simp]: "accessRecords (releaseAdapterSessionLockTx L owner r kind h st) = accessRecords st"
  by (rule records_outside(2)) simp

lemma records_health [access_kept]:
  "resolveRoutingRecoveryProbeTx st nodeID jobID code now = Inr (b, st') \<Longrightarrow> accessRecords st' = accessRecords st"
  "recordNodeRoutingOutcomeTx L st nodeID r owner key jobID success code now = Inr st' \<Longrightarrow> accessRecords st' = accessRecords st"
  by (auto simp: resolveRoutingRecoveryProbeTx_def recordNodeRoutingOutcomeTx_def Let_def split: if_splits sum.splits)

lemma records_filing [access_kept]:
  "putExecutionScopeLookup L i owner tenant st = Inr st' \<Longrightarrow> accessRecords st' = accessRecords st"
  "putPipelineScopeLookup L i owner tenant st = Inr st' \<Longrightarrow> accessRecords st' = accessRecords st"
  "saveIdempotentJobTx L owner key hash i st = Inr st' \<Longrightarrow> accessRecords st' = accessRecords st"
  "consumeProducerRateLimitTx owner n now st = Inr st' \<Longrightarrow> accessRecords st' = accessRecords st"
  by (auto simp: putExecutionScopeLookup_def putPipelineScopeLookup_def saveIdempotentJobTx_def consumeProducerRateLimitTx_def
      accessRecords_def result_simps Let_def split: if_splits sum.splits)

lemma records_file [access_kept]:
  "fileNewJobTx L job owner key hash now st = Inr st' \<Longrightarrow> accessRecords st' = accessRecords st"
  by (auto simp: fileNewJobTx_def Let_def bindE_eq_Inr dest!: access_kept split: if_splits) (simp_all add: accessRecords_def)

lemma records_admission [access_kept]:
  "admitPreparedJobTx L job maxQueued limits key hash now st = Inr (r, st') \<Longrightarrow> accessRecords st' = accessRecords st"
  by (auto simp: admitPreparedJobTx_def Let_def bindE_eq_Inr dest!: access_kept split: if_splits option.splits)

lemma records_lifecycle [access_kept]:
  "assignJobTx L raw now i nodeID cred adapter decision authority st = Inr (job, st') \<Longrightarrow> accessRecords st' = accessRecords st"
  "markRunningTx L now i nodeID attempt fence st = Inr (job, st') \<Longrightarrow> accessRecords st' = accessRecords st"
  "updateJobProgressTx L now i nodeID attempt fence p st = Inr (job, st') \<Longrightarrow> accessRecords st' = accessRecords st"
  "cancelJobTx j now st = Inr (job, st') \<Longrightarrow> accessRecords st' = accessRecords st"
proof -
  show "assignJobTx L raw now i nodeID cred adapter decision authority st = Inr (job, st') \<Longrightarrow> accessRecords st' = accessRecords st"
    by (auto simp: assignJobTx_def claimAssignmentTx_def commitAssignmentTx_def Let_def bindE_eq_Inr dest!: access_kept split: if_splits)
  show "markRunningTx L now i nodeID attempt fence st = Inr (job, st') \<Longrightarrow> accessRecords st' = accessRecords st"
    by (auto simp: markRunningTx_def Let_def bindE_eq_Inr dest!: access_kept)
  show "updateJobProgressTx L now i nodeID attempt fence p st = Inr (job, st') \<Longrightarrow> accessRecords st' = accessRecords st"
    by (auto simp: updateJobProgressTx_def Let_def bindE_eq_Inr dest!: access_kept split: if_splits)
  show "cancelJobTx j now st = Inr (job, st') \<Longrightarrow> accessRecords st' = accessRecords st"
    by (auto simp: cancelJobTx_def Let_def bindE_eq_Inr dest!: access_kept)
qed

lemma records_settle [simp]: "accessRecords (settleJob L i job st) = accessRecords st"
  by (simp add: settleJob_def placeFinishedSession_def Let_def split: sum.splits)

lemma records_outcome [access_kept]:
  "retryJobTx now i j st = Inr (job, st') \<Longrightarrow> accessRecords st' = accessRecords st"
  "finishJobTx L now i j st = Inr (job, st') \<Longrightarrow> accessRecords st' = accessRecords st"
  by (auto simp: retryJobTx_def finishJobTx_def Let_def bindE_eq_Inr dest!: access_kept)

lemma records_completion [access_kept]:
  assumes "completeJobTx L now i nodeID attempt fence result sealed u err code ex st = Inr (job, st')"
  shows "accessRecords st' = accessRecords st"
proof -
  from assms obtain j where "(case reportedFailure L j err code of (err', code') \<Rightarrow>
      if preExecutionRetryAllowed L j result sealed u err' code code' ex then retryJobTx now i j st
      else finishJobTx L now i (finishedJob L now j result sealed u err' code' ex) st) = Inr (job, st')"
    by (auto simp: completeJobTx_def bindE_eq_Inr)
  then show ?thesis
    by (cases "reportedFailure L j err code") (simp split: if_splits, (drule access_kept, simp)+)
qed

lemma records_recovery [access_kept]:
  "recoverJobsTx (requeueVisit L now nodeID reason) (writeAmbiguousTx L now) st = Inr (js, st') \<Longrightarrow> accessRecords st' = accessRecords st"
  "recoverJobsTx (restartVisit L now reason) (writeAmbiguousTx L now) st = Inr (js, st') \<Longrightarrow> accessRecords st' = accessRecords st"
  "recoverJobsTx (staleVisit L now sealedWait execution) (writeStaleTx L clock) st = Inr (js, st') \<Longrightarrow> accessRecords st' = accessRecords st"
proof -
  have ended: "releaseEndedJobTx L now j s = Inr s' \<Longrightarrow> accessRecords s' = accessRecords s" for j s s'
    by (auto simp: releaseEndedJobTx_def bindE_eq_Inr dest!: access_kept split: if_splits)
  have close: "closeJobTx L j s = Inr (r, s') \<Longrightarrow> accessRecords s' = accessRecords s" for j s r s'
    by (auto simp: closeJobTx_def bindE_eq_Inr dest!: access_kept)
  have ambiguous: "writeAmbiguousTx L now k j s = Inr s' \<Longrightarrow> accessRecords s' = accessRecords s" for k j s s'
    by (auto simp: writeAmbiguousTx_def bindE_eq_Inr dest!: access_kept)
  note kept = recover_keeps [where P = "\<lambda>s. accessRecords s = accessRecords st", rotated -1]
  show "recoverJobsTx (requeueVisit L now nodeID reason) (writeAmbiguousTx L now) st = Inr (js, st') \<Longrightarrow> accessRecords st' = accessRecords st"
    by (erule kept) (auto simp: requeueVisit_def bindE_eq_Inr dest!: ended close ambiguous split: if_splits)
  show "recoverJobsTx (restartVisit L now reason) (writeAmbiguousTx L now) st = Inr (js, st') \<Longrightarrow> accessRecords st' = accessRecords st"
    by (erule kept) (auto simp: restartVisit_def bindE_eq_Inr dest!: ended close ambiguous split: if_splits)
  have "writeStaleTx L clock k j s = Inr s' \<Longrightarrow> accessRecords s' = accessRecords s" for k j s s'
    by (auto simp: writeStaleTx_def Let_def bindE_eq_Inr dest!: access_kept split: if_splits)
  then show "recoverJobsTx (staleVisit L now sealedWait execution) (writeStaleTx L clock) st = Inr (js, st') \<Longrightarrow> accessRecords st' = accessRecords st"
    by - (erule kept, auto simp: staleVisit_def Let_def bindE_eq_Inr dest!: access_kept split: if_splits)
qed

section \<open>Operations of the store\<close>

definition systemInv :: "store \<Rightarrow> bool" where
  "systemInv st \<longleftrightarrow> storeInv st \<and> reservationsWF st"

lemma systemInv_empty: "systemInv emptyStore"
  using storeInv_empty by (simp add: systemInv_def reservationsWF_def emptyStore_def bget_Nil)

lemma reservations_kept: "accessRecords st' = accessRecords st \<Longrightarrow> reservationsWF st' = reservationsWF st"
  by (simp add: reservationsWF_def accessRecords_def)

lemma jobsStep_refl [simp]: "jobsStep st st"
  by (simp add: jobsStep_def)

text \<open>A transaction of the store: when it commits, the invariant holds again and no job has moved by more
  than one step of its life cycle. A transaction that fails is rolled back, so the operation around it
  does so in every case.\<close>

locale store_operation =
  fixes tx :: "store \<Rightarrow> ('r \<times> store) result"
  assumes tx_moves: "systemInv st \<Longrightarrow> tx st = Inr (r, st') \<Longrightarrow> systemInv st' \<and> jobsStep st st'"
begin

lemma committed:
  assumes "systemInv st" and "update tx st = (r, st')"
  shows "systemInv st' \<and> jobsStep st st'"
proof (cases "tx st")
  case (Inl e)
  then have "st' = st" using assms(2) by (simp add: update_def)
  then show ?thesis using assms(1) by simp
next
  case (Inr x)
  obtain v s where x: "x = (v, s)" by force
  then have "st' = s" using assms(2) Inr by (simp add: update_def)
  then show ?thesis using tx_moves [OF assms(1) Inr [unfolded x]] by simp
qed

end

text \<open>Operations on jobs leave the access records alone.\<close>

locale job_operation =
  fixes tx :: "store \<Rightarrow> ('r \<times> store) result"
  assumes tx_job: "storeInv st \<Longrightarrow> tx st = Inr (r, st') \<Longrightarrow> storeInv st' \<and> jobsStep st st'"
    and tx_records: "tx st = Inr (r, st') \<Longrightarrow> accessRecords st' = accessRecords st"

sublocale job_operation \<subseteq> store_operation
proof
  fix st r st' assume "systemInv st" and "tx st = Inr (r, st')"
  with tx_job [of st r st'] tx_records [of st r st'] reservations_kept [of st' st] show "systemInv st' \<and> jobsStep st st'"
    by (simp add: systemInv_def)
qed

context job_operation
begin

lemmas job_committed = committed

end

section \<open>Each operation of the code\<close>

text \<open>A transaction that rewrites one job.\<close>

lemma one_job_moves:
  assumes "bget (st_jobs st) i = Some (Val j)" and "st_jobs st' = putJSON i (persistJob j') (st_jobs st)"
    and "jobState j' = jobState j \<or> jobStep (Some (jobState j)) (Some (jobState j'))"
  shows "jobsStep st st'"
  using assms by (auto simp: jobsStep_def jobView_def bucket_simps)

lemma new_job_moves:
  assumes "bget (st_jobs st) (job_ID j) = None" and "st_jobs st' = putJSON (job_ID j) (persistJob j) (st_jobs st)"
    and "job_Status j = JobQueued" and "job_Attempt j = 0"
  shows "jobsStep st st'"
  using assms jobStep.admit by (auto simp: jobsStep_def jobView_def bucket_simps jobState_def)

lemma admit_moves:
  assumes inv: "storeInv st" and wf: "jobWF (job_ID job) job" "job_Status job = JobQueued" "job_Attempt job = 0"
    and run: "admitPreparedJobTx L job maxQueued limits key hash now st = Inr ((found, replayed), st')"
  shows "storeInv st' \<and> jobsStep st st'"
proof (cases replayed)
  case True
  then have "st' = st" using run by (auto simp: admitPreparedJobTx_def result_simps split: option.splits)
  then show ?thesis using inv by simp
next
  case False
  with admit_new [of L job maxQueued limits key hash now st found st'] run obtain mid where
    new: "bget (st_jobs st) (job_ID job) = None"
    and mid: "consumeProducerRateLimitTx (job_OwnerSubject job) (lim_MaxJobsPerHour limits) now st = Inr mid"
    and filed: "fileNewJobTx L job (job_OwnerSubject job) key hash now mid = Inr st'" by auto
  have same: "sameJobs st mid" "sameLogs st mid" using rate_same [OF mid] by auto
  have "storeInv mid" by (rule storeInv_frame [OF inv same])
  from fileNewJobTx_inv [OF this wf(1,2) filed] have "storeInv st'" "st_jobs st' = putJSON (job_ID job) (persistJob job) (st_jobs st)"
    by (auto simp: sameJobs_jobs [OF same(1)])
  then show ?thesis using new_job_moves [OF new _ wf(2,3)] by simp
qed

lemma admit_operation:
  assumes "prepareJob L raw request key hash now = Inr job" and "\<And>bytes. raw = Inr bytes \<Longrightarrow> length bytes = 16"
  shows "job_operation (admitPreparedJobTx L job maxQueued limits key hash now)"
proof
  have wf: "jobWF (job_ID job) job" "job_Status job = JobQueued" "job_Attempt job = 0" using prepared_wf [OF assms] by auto
  fix st r st' assume "storeInv st" and "admitPreparedJobTx L job maxQueued limits key hash now st = Inr (r, st')"
  with admit_moves [OF _ wf, of st L maxQueued limits key hash now "fst r" "snd r" st'] show "storeInv st' \<and> jobsStep st st'" by simp
qed (erule access_kept)

lemma child_operation:
  assumes "prepareJob L raw request [] [] now = Inr job" and "\<And>bytes. raw = Inr bytes \<Longrightarrow> length bytes = 16"
  shows "job_operation (createDAGChildTx L J now runID step job maxQueued limits)"
proof
  have wf: "jobWF (job_ID job) job" "job_Status job = JobQueued" "job_Attempt job = 0" using prepared_wf [OF assms] by auto
  fix st r st' assume run: "createDAGChildTx L J now runID step job maxQueued limits st = Inr (r, st')"
  from createChild_spec [of L J now runID step job maxQueued limits st "fst r" "snd r" st'] run obtain mid where
    mid: "admitPreparedJobTx L job maxQueued limits [] [] now st = Inr ((snd r, False), mid)"
    and st': "st' = putRun (run_ID (fst r)) (fst r) mid" by auto
  have same: "sameJobs mid st'" "sameLogs mid st'" by (simp_all add: st' putRun_def sameJobs_def sameLogs_def)
  show "accessRecords st' = accessRecords st" using access_kept mid by (simp add: st')
  assume "storeInv st"
  from admit_moves [OF this wf mid] have "storeInv mid" "jobsStep st mid" by auto
  then show "storeInv st' \<and> jobsStep st st'"
    using storeInv_frame [OF _ same] sameJobs_jobs [OF same(1)] by (simp add: jobsStep_def jobView_def)
qed

interpretation assign: job_operation "assignJobTx L raw now i nodeID cred adapter decision authority" for L raw now i nodeID cred adapter decision authority
proof
  fix st r st' assume inv: "storeInv st" and run: "assignJobTx L raw now i nodeID cred adapter decision authority st = Inr (r, st')"
  from assignJobTx_spec [OF inv run] obtain j where j: "bget (st_jobs st) i = Some (Val j)" "job_Status j = JobQueued"
    and s: "storeInv st'" "st_jobs st' = putJSON i (persistJob r) (st_jobs st)" "job_Status r = JobAssigned"
      "job_Attempt r = job_Attempt j + 1" "job_MaxAttempts r = job_MaxAttempts j" by blast
  have "job_Attempt j < job_MaxAttempts j" using storeInv_get [OF inv, of i j] j by (simp add: getJSON_eq_Inr jobWF_def)
  then have "jobStep (Some (jobState j)) (Some (jobState r))" using j s by (simp add: jobState_def jobStep.assign)
  then show "storeInv st' \<and> jobsStep st st'" using one_job_moves [OF j(1) s(2)] s(1) by blast
qed (erule access_kept)

interpretation start: job_operation "markRunningTx L now i nodeID attempt fence" for L now i nodeID attempt fence
proof
  fix st r st' assume inv: "storeInv st" and run: "markRunningTx L now i nodeID attempt fence st = Inr (r, st')"
  from markRunningTx_spec [OF inv run] obtain j where j: "bget (st_jobs st) i = Some (Val j)" "job_Status j = JobAssigned"
    and r: "r = j\<lparr>job_Status := JobRunning, job_StartedAt := now, job_UpdatedAt := now\<rparr>"
    and s: "storeInv st'" "st_jobs st' = putJSON i (persistJob r) (st_jobs st)" by blast
  have "jobStep (Some (jobState j)) (Some (jobState r))" using j(2) by (simp add: r jobState_def jobStep.start)
  then show "storeInv st' \<and> jobsStep st st'" using one_job_moves [OF j(1) s(2)] s(1) by blast
qed (erule access_kept)

interpretation progress: job_operation "updateJobProgressTx L now i nodeID attempt fence p" for L now i nodeID attempt fence p
proof
  fix st r st' assume inv: "storeInv st" and run: "updateJobProgressTx L now i nodeID attempt fence p st = Inr (r, st')"
  from progressTx_spec [OF inv run] obtain j where j: "bget (st_jobs st) i = Some (Val j)" "jobState r = jobState j" "storeInv st'"
    and s: "st' = st \<or> st_jobs st' = putJSON i (persistJob r) (st_jobs st)" by blast
  then show "storeInv st' \<and> jobsStep st st'" using one_job_moves [OF j(1), of st' r] by auto
qed (erule access_kept)

interpretation complete: job_operation "completeJobTx L now i nodeID attempt fence result sealed u err code ex"
  for L now i nodeID attempt fence result sealed u err code ex
proof
  fix st r st' assume inv: "storeInv st" and run: "completeJobTx L now i nodeID attempt fence result sealed u err code ex st = Inr (r, st')"
  from completeJobTx_spec [OF inv run] obtain j where j: "bget (st_jobs st) i = Some (Val j)" "job_Status j \<in> {JobAssigned, JobRunning}"
    and s: "storeInv st'" "st_jobs st' = putJSON i (persistJob r) (st_jobs st)"
    and out: "job_Status j = JobAssigned \<and> job_Attempt j < job_MaxAttempts j \<and> r = retriedJob now j
      \<or> (\<exists>err' code'. r = finishedJob L now j result sealed u err' code' ex)" by blast
  have "jobStep (Some (jobState j)) (Some (jobState r))"
    using out
  proof (elim disjE exE conjE)
    assume "job_Status j = JobAssigned" "job_Attempt j < job_MaxAttempts j" "r = retriedJob now j"
    then show ?thesis by (simp add: jobState_def retriedJob_def Let_def jobStep.retry)
  next
    fix err' code' assume r: "r = finishedJob L now j result sealed u err' code' ex"
    have f: "job_Attempt r = job_Attempt j" "job_MaxAttempts r = job_MaxAttempts j" "job_Status r \<in> {JobCompleted, JobFailed}"
      unfolding r by (auto simp: finishedJob_def Let_def split: option.splits prod.splits)
    then show ?thesis using j(2) jobStep.complete [of "job_Status j"] jobStep.fail [of "job_Status j"] by (auto simp: jobState_def)
  qed
  then show "storeInv st' \<and> jobsStep st st'" using one_job_moves [OF j(1) s(2)] s(1) by blast
qed (erule access_kept)

interpretation cancel: job_operation "\<lambda>st.
     bindE (failWhen (owner \<noteq> [] \<and> \<not> executionScopeLookupMatches L st i owner tenants) ErrNotExist) (\<lambda>_.
     bindE (getJSON (st_jobs st) i) (\<lambda>job.
     bindE (failWhen (owner \<noteq> [] \<and> (job_OwnerSubject job \<noteq> owner \<or> \<not> tenantAllowed (job_TenantID job) tenants)) ErrNotExist) (\<lambda>_.
     cancelJobTx job now st)))" for L now i owner tenants
proof
  let ?tx = "\<lambda>st. bindE (failWhen (owner \<noteq> [] \<and> \<not> executionScopeLookupMatches L st i owner tenants) ErrNotExist) (\<lambda>_.
     bindE (getJSON (st_jobs st) i) (\<lambda>job.
     bindE (failWhen (owner \<noteq> [] \<and> (job_OwnerSubject job \<noteq> owner \<or> \<not> tenantAllowed (job_TenantID job) tenants)) ErrNotExist) (\<lambda>_.
     cancelJobTx job now st)))"
  fix st r st' assume "?tx st = Inr (r, st')"
  then obtain j where j: "bget (st_jobs st) i = Some (Val j)" and run: "cancelJobTx j now st = Inr (r, st')"
    by (auto simp: bindE_eq_Inr getJSON_eq_Inr)
  show "accessRecords st' = accessRecords st" by (rule access_kept) (rule run)
  assume inv: "storeInv st"
  from cancelJobTx_spec [OF inv j run] have s: "\<not> terminalJobStatus (job_Status j)" "r = cancelledJob now j" "storeInv st'"
    "st_jobs st' = putJSON i (persistJob r) (st_jobs st)" by auto
  have "job_Status j \<in> jobStatuses" using storeInv_get [OF inv, of i j] j by (simp add: getJSON_eq_Inr jobWF_def)
  then have "job_Status j \<in> {JobQueued, JobAssigned, JobRunning}" using s(1) by (auto simp: jobStatuses_def terminal_iff)
  then have "jobStep (Some (jobState j)) (Some (JobCancelled, job_Attempt j, job_MaxAttempts j))"
    unfolding jobState_def by (rule jobStep.cancel)
  moreover have "jobState r = (JobCancelled, job_Attempt j, job_MaxAttempts j)" by (simp add: s(2) jobState_def cancelledJob_def Let_def)
  ultimately have "jobStep (Some (jobState j)) (Some (jobState r))" by simp
  then show "storeInv st' \<and> jobsStep st st'" using one_job_moves [OF j s(4)] s(3) by blast
qed

interpretation lose: job_operation "recoverJobsTx (requeueVisit L now nodeID reason) (writeAmbiguousTx L now)" for L now nodeID reason
  by unfold_locales (auto intro: requeue.recover_spec(1) requeue.recover_steps access_kept)

interpretation boot: job_operation "\<lambda>st. recoverJobsTx (restartVisit L now reason) (writeAmbiguousTx L now) (allNodesOffline st)" for L now reason
proof
  fix st r st' assume run: "recoverJobsTx (restartVisit L now reason) (writeAmbiguousTx L now) (allNodesOffline st) = Inr (r, st')"
  show "accessRecords st' = accessRecords st" using records_recovery(2) [OF run] by (simp add: allNodesOffline_def accessRecords_def)
  assume "storeInv st"
  then have inv: "storeInv (allNodesOffline st)" by (rule storeInv_frame) (fact allNodesOffline_spec)+
  from restart.recover_steps [OF inv run] have "jobsStep st st'"
    by (simp add: jobsStep_def jobView_def sameJobs_jobs [OF allNodesOffline_spec(2)])
  then show "storeInv st' \<and> jobsStep st st'" using restart.recover_spec(1) [OF inv run] by blast
qed

interpretation sweep: job_operation "recoverJobsTx (staleVisit L now sealedWait execution) (writeStaleTx L clock)" for L now clock sealedWait execution
  by unfold_locales (auto intro: stale.recover_spec(1) stale.recover_steps access_kept)

text \<open>Closing the runs that a restart orphaned fails their queued children.\<close>

lemma failChildren_moves:
  assumes "storeInv st" and "failChildren L now cs st = Inr st'" and "distinct (map fst cs)"
    and "\<forall>(k, j') \<in> set cs. \<exists>j. bget (st_jobs st) k = Some (Val j) \<and> job_Status j = JobQueued \<and> job_ID j' = job_ID j
      \<and> job_Priority j' = job_Priority j \<and> jobState j' = (JobFailed, job_Attempt j, job_MaxAttempts j)"
  shows "storeInv st' \<and> jobsStep st st' \<and> (\<forall>k. k \<notin> fst ` set cs \<longrightarrow> bget (st_jobs st') k = bget (st_jobs st) k)"
  using assms
proof (induction cs arbitrary: st)
  case (Cons c cs)
  obtain k j' where c: "c = (k, j')" by force
  with Cons.prems(4) obtain j where j: "bget (st_jobs st) k = Some (Val j)" "job_Status j = JobQueued"
    and j': "job_ID j' = job_ID j" "job_Priority j' = job_Priority j" "job_Status j' = JobFailed" "job_Attempt j' = job_Attempt j"
      "job_MaxAttempts j' = job_MaxAttempts j" by (auto simp: jobState_def)
  have wf: "jobWF k j" using storeInv_get [OF Cons.prems(1), of k j] j by (simp add: getJSON_eq_Inr)
  then have "job_ID j' = k" using j' by (simp add: jobWF_def)
  with Cons.prems(2) c obtain s1 s2 s3 where s1: "deleteQueueEntry k st = Inr s1"
    and s2: "appendAuthoritativeJobEventTx now j' ''job.failed''
       (putJob k j' (releaseAdapterSessionLockTx L (job_OwnerSubject j') (job_Requirements j') adapterSessionLockJob k s1)) = Inr s2"
    and s3: "appendPipelineStepEventTx now j' ''pipeline.step.failed'' s2 = Inr s3" and rest: "failChildren L now cs s3 = Inr st'"
    by (auto simp: Let_def bindE_eq_Inr)
  have wf': "jobWF k j'" by (rule failed_wf [OF wf]) (use j' in auto)
  let ?s = "releaseAdapterSessionLockTx L (job_OwnerSubject j') (job_Requirements j') adapterSessionLockJob k s1"
  have x: "storeInvX {k} s1" "queuedEntry s1 k = None" "st_jobs s1 = st_jobs st"
    using storeInvX_delete [OF storeInv_X [OF Cons.prems(1)] s1] by auto
  have "storeInvX {k} ?s" by (rule storeInvX_frame [OF x(1)]) (rule release_same)+
  then have "storeInvX {k} (putJob k j' ?s)" using storeInvX_putJob [of "{k}" ?s k j'] wf' by simp
  moreover have "agrees (putJob k j' ?s) k"
    by (rule agrees_unqueued [OF putJob_here])
      (use j' x(2) sameJobs_queued [OF release_same(1)] in \<open>simp_all add: putJob_queued status_defs\<close>)
  ultimately have inv: "storeInv (putJob k j' ?s)" by (rule storeInv_close)
  from storeInv_event(1) [OF inv s2] storeInv_event(2) [OF _ s3] have s: "storeInv s3"
    "st_jobs s3 = putJSON k (persistJob j') (st_jobs st)"
    by (auto simp: store_frame x(3) sameJobs_jobs [OF release_same(1)])
  have step: "jobStep (Some (jobState j)) (Some (jobState j'))" using j(2) j' jobStep.fail [of JobQueued] by (simp add: jobState_def)
  have "\<forall>(k, j') \<in> set cs. \<exists>j. bget (st_jobs s3) k = Some (Val j) \<and> job_Status j = JobQueued \<and> job_ID j' = job_ID j
      \<and> job_Priority j' = job_Priority j \<and> jobState j' = (JobFailed, job_Attempt j, job_MaxAttempts j)"
  proof clarify
    fix i f assume i: "(i, f) \<in> set cs"
    then have "i \<noteq> k" using Cons.prems(3) c by force
    then show "\<exists>j. bget (st_jobs s3) i = Some (Val j) \<and> job_Status j = JobQueued \<and> job_ID f = job_ID j
      \<and> job_Priority f = job_Priority j \<and> jobState f = (JobFailed, job_Attempt j, job_MaxAttempts j)"
      using bspec [OF Cons.prems(4), of "(i, f)"] i by (auto simp: s(2) bucket_simps)
  qed
  from Cons.IH [OF s(1) rest _ this] Cons.prems(3) c have ih: "storeInv st'" "jobsStep s3 st'"
    "\<And>i. i \<notin> fst ` set cs \<Longrightarrow> bget (st_jobs st') i = bget (st_jobs s3) i" by auto
  have "jobsStep st st'"
    unfolding jobsStep_def
  proof
    fix i show "jobView st' i = jobView st i \<or> jobStep (jobView st i) (jobView st' i)"
    proof (cases "i = k")
      case True
      with ih(3) Cons.prems(3) c have "bget (st_jobs st') k = Some (Val (persistJob j'))" by (auto simp: s(2) bucket_simps)
      then show ?thesis using True j(1) step by (simp add: jobView_def)
    next
      case False
      then have "jobView s3 i = jobView st i" by (simp add: jobView_def s(2) bucket_simps)
      then show ?thesis using spec [OF ih(2) [unfolded jobsStep_def], of i] by simp
    qed
  qed
  then show ?case using ih c by (auto simp: s(2) bucket_simps)
qed simp
lemma runs_moves:
  assumes "storeInv st" and "writeFailedRuns now updates st = Inr st'"
  shows "storeInv st' \<and> st_jobs st' = st_jobs st"
  using assms
proof (induction updates arbitrary: st)
  case (Cons u rest)
  obtain k run where u: "u = (k, run)" by force
  with Cons.prems(2) obtain mid where mid: "appendPipelineEventTx now run ''pipeline.failed'' (putRun k run st) = Inr mid"
    and rest: "writeFailedRuns now rest mid = Inr st'" by (auto simp: bindE_eq_Inr)
  have "storeInv (putRun k run st)" by (rule storeInv_frame [OF Cons.prems(1)]) (simp_all add: putRun_def sameJobs_def sameLogs_def)
  then have "storeInv mid" "st_jobs mid = st_jobs st"
    using storeInvX_event(3) [OF _ mid, of "{}"] by (simp_all add: storeInv_iff sameJobs_def putRun_def)
  with Cons.IH [OF _ rest] show ?case by simp
qed simp

lemma records_runs [access_kept]:
  "writeFailedRuns now updates st = Inr st' \<Longrightarrow> accessRecords st' = accessRecords st"
  "failChildren L now cs st = Inr st' \<Longrightarrow> accessRecords st' = accessRecords st"
  "settledEvents now run indexes st = Inr st' \<Longrightarrow> accessRecords st' = accessRecords st"
proof -
  show "writeFailedRuns now updates st = Inr st' \<Longrightarrow> accessRecords st' = accessRecords st"
    by (induction now updates st rule: writeFailedRuns.induct) (auto simp: bindE_eq_Inr dest!: access_kept)
  show "failChildren L now cs st = Inr st' \<Longrightarrow> accessRecords st' = accessRecords st"
    by (induction L now cs st rule: failChildren.induct) (auto simp: Let_def bindE_eq_Inr dest!: access_kept)
  show "settledEvents now run indexes st = Inr st' \<Longrightarrow> accessRecords st' = accessRecords st"
    by (induction now run indexes st rule: settledEvents.induct) (auto simp: Let_def bindE_eq_Inr dest!: access_kept split: if_splits)
qed

interpretation closeRuns: job_operation "\<lambda>st.
        bindE (failedRuns reason now (st_pipelineRuns st)) (\<lambda>updates.
        bindE (writeFailedRuns now updates st) (\<lambda>st.
        if updates = [] then Inr (0 :: int, st)
        else bindE (failChildren L now (orphanedChildren reason now (run_ID ` snd ` set updates) (st_jobs st)) st) (\<lambda>st.
             Inr (int (length updates), st))))" for L now reason
proof
  let ?tx = "\<lambda>st. bindE (failedRuns reason now (st_pipelineRuns st)) (\<lambda>updates.
        bindE (writeFailedRuns now updates st) (\<lambda>st.
        if updates = [] then Inr (0 :: int, st)
        else bindE (failChildren L now (orphanedChildren reason now (run_ID ` snd ` set updates) (st_jobs st)) st) (\<lambda>st.
             Inr (int (length updates), st))))"
  fix st r st' assume run: "?tx st = Inr (r, st')"
  then show "accessRecords st' = accessRecords st" by (auto simp: bindE_eq_Inr dest!: access_kept split: if_splits)
  assume inv: "storeInv st"
  from run obtain updates mid where mid: "writeFailedRuns now updates st = Inr mid"
    and rest: "(if updates = [] then Inr (0 :: int, mid)
      else bindE (failChildren L now (orphanedChildren reason now (run_ID ` snd ` set updates) (st_jobs mid)) mid)
        (\<lambda>st. Inr (int (length updates), st))) = Inr (r, st')"
    unfolding bindE_eq_Inr by blast
  then have rest: "st' = mid \<or> failChildren L now (orphanedChildren reason now (run_ID ` snd ` set updates) (st_jobs mid)) mid = Inr st'"
    by (auto simp: bindE_eq_Inr split: if_splits)
  from runs_moves [OF inv mid] have m: "storeInv mid" "st_jobs mid = st_jobs st" by auto
  have ord: "bordered (st_jobs mid)" using m(1) by (simp add: storeInv_def storedJobsWF_def)
  let ?cs = "orphanedChildren reason now (run_ID ` snd ` set updates) (st_jobs mid)"
  have "distinct (map fst (decoded (st_jobs mid)))" using decoded_keys_sorted [OF ord] strict_sorted_iff by blast
  then have dist: "distinct (map fst ?cs)"
    by (auto simp: orphanedChildren_def comp_def case_prod_beta intro: distinct_map_filter)
  have "\<forall>(k, j') \<in> set ?cs. \<exists>j. bget (st_jobs mid) k = Some (Val j) \<and> job_Status j = JobQueued \<and> job_ID j' = job_ID j
      \<and> job_Priority j' = job_Priority j \<and> jobState j' = (JobFailed, job_Attempt j, job_MaxAttempts j)"
    by (auto simp: orphanedChildren_def set_decoded [OF ord] jobState_def)
  from rest show "storeInv st' \<and> jobsStep st st'"
  proof
    assume "st' = mid"
    then show ?thesis using m by (simp add: jobsStep_same)
  next
    assume "failChildren L now ?cs mid = Inr st'"
    from failChildren_moves [OF m(1) this dist] \<open>\<forall>(k, j') \<in> set ?cs. _ k j'\<close> have "storeInv st' \<and> jobsStep mid st'" by blast
    then show ?thesis using m(2) by (simp add: jobsStep_def jobView_def)
  qed
qed

text \<open>Operations on runs write the run and its log.\<close>

lemma run_written:
  assumes "storeInv st" and "st' = st\<lparr>st_pipelineRuns := runs, st_pipelineOwnerLookup := lookup\<rparr>"
  shows "storeInv st'" and "st_jobs st' = st_jobs st"
  using storeInv_frame [OF assms(1), of st'] assms(2) by (simp_all add: sameJobs_def sameLogs_def)

lemma run_events:
  assumes "storeInv st"
  shows "appendPipelineEventTx now run t st = Inr st' \<Longrightarrow> storeInv st' \<and> st_jobs st' = st_jobs st"
    and "statusEvent now run previous st = Inr st' \<Longrightarrow> storeInv st' \<and> st_jobs st' = st_jobs st"
    and "settledEvents now run indexes st = Inr st' \<Longrightarrow> storeInv st' \<and> st_jobs st' = st_jobs st"
proof -
  show event: "appendPipelineEventTx now run t st = Inr st' \<Longrightarrow> storeInv st' \<and> st_jobs st' = st_jobs st" for t
    using storeInvX_event(3) [of "{}" st now run t st'] assms by (simp add: storeInv_iff sameJobs_def)
  show "statusEvent now run previous st = Inr st' \<Longrightarrow> storeInv st' \<and> st_jobs st' = st_jobs st"
    using assms by (auto simp: statusEvent_def dest: event split: if_splits)
  show "settledEvents now run indexes st = Inr st' \<Longrightarrow> storeInv st' \<and> st_jobs st' = st_jobs st" using assms
  proof (induction indexes arbitrary: st)
    case (Cons i rest)
    from Cons.prems(1) obtain mid t where mid: "appendPipelineNodeCheckpointEventTx now run (run_NodeStates run ! i) t st = Inr mid"
      and rest: "settledEvents now run rest mid = Inr st'" by (auto simp: Let_def bindE_eq_Inr)
    have "storeInv mid \<and> st_jobs mid = st_jobs st" using storeInvX_event(4) [OF _ mid, of "{}"] Cons.prems(2) by (simp add: storeInv_iff sameJobs_def)
    with Cons.IH [OF rest] show ?case by simp
  qed simp
qed

lemma records_status [access_kept]: "statusEvent now run previous st = Inr st' \<Longrightarrow> accessRecords st' = accessRecords st"
  by (auto simp: statusEvent_def dest: access_kept split: if_splits)

interpretation saveRun: job_operation "\<lambda>st.
          bindE (case getJSON (st_pipelineRuns st) (run_ID run) of
                   Inr previous \<Rightarrow> Inr (Some previous) | Inl e \<Rightarrow> (if e = ErrNotExist then Inr None else Inl e)) (\<lambda>previous.
          bindE (case previous of Some p \<Rightarrow> validatePipelineRunGraphTransition p run | None \<Rightarrow> Inr ()) (\<lambda>_.
          bindE (putPipelineScopeLookup L (run_ID run) (run_OwnerSubject run) (run_TenantID run) (putRun (run_ID run) run st)) (\<lambda>st.
          bindE (statusEvent now run previous st) (\<lambda>st. Inr ((), st)))))" for L now run
proof (unfold_locales, goal_cases)
  case (1 st r st')
  then obtain previous mid where mid: "putPipelineScopeLookup L (run_ID run) (run_OwnerSubject run) (run_TenantID run) (putRun (run_ID run) run st) = Inr mid"
    and event: "statusEvent now run previous mid = Inr st'" unfolding bindE_eq_Inr by blast
  from mid run_written [OF 1(1), of mid] have "storeInv mid \<and> st_jobs mid = st_jobs st"
    by (auto simp: putPipelineScopeLookup_def putRun_def result_simps)
  then show ?case using run_events(2) [OF _ event] by (simp add: jobsStep_same)
next
  case (2 st r st')
  then obtain previous mid where "putPipelineScopeLookup L (run_ID run) (run_OwnerSubject run) (run_TenantID run) (putRun (run_ID run) run st) = Inr mid"
    and "statusEvent now run previous mid = Inr st'" unfolding bindE_eq_Inr by blast
  then show ?case by (auto dest!: access_kept)
qed

interpretation admitRun: job_operation "\<lambda>st.
       bindE (failWhen (run_ID run = [] \<or> \<not> validJobID (run_ID run)) (ErrText ''pipeline run id must use safe ASCII characters'')) (\<lambda>_.
       bindE (failWhen (run_Status run \<noteq> ''running'') (ErrText ''an admitted pipeline run must start in running state'')) (\<lambda>_.
       bindE (validatePipelineRunGraphState L J run) (\<lambda>_.
       bindE (failWhen (bget (st_pipelineRuns st) (run_ID run) \<noteq> None) ErrExist) (\<lambda>_.
       bindE (activePipelineCounts (run_OwnerSubject run) (st_pipelineRuns st)) (\<lambda>(total, owned).
       bindE (failWhen (maxGlobal > 0 \<and> total \<ge> maxGlobal) ErrPipelineCapacity) (\<lambda>_.
       bindE (failWhen (maxOwner > 0 \<and> owned \<ge> maxOwner) ErrOwnerPipelineCapacity) (\<lambda>_.
       bindE (putPipelineScopeLookup L (run_ID run) (run_OwnerSubject run) (run_TenantID run) (putRun (run_ID run) run st)) (\<lambda>st.
       bindE (appendPipelineEventTx now run ''pipeline.started'' st) (\<lambda>st. Inr ((), st))))))))))" for L J now run maxGlobal maxOwner
proof (unfold_locales, goal_cases)
  case (1 st r st')
  then obtain mid where mid: "putPipelineScopeLookup L (run_ID run) (run_OwnerSubject run) (run_TenantID run) (putRun (run_ID run) run st) = Inr mid"
    and event: "appendPipelineEventTx now run ''pipeline.started'' mid = Inr st'" by (auto simp: bindE_eq_Inr)
  from mid run_written [OF 1(1), of mid] have "storeInv mid \<and> st_jobs mid = st_jobs st"
    by (auto simp: putPipelineScopeLookup_def putRun_def result_simps)
  then show ?case using run_events(1) [OF _ event] by (simp add: jobsStep_same)
qed (auto simp: bindE_eq_Inr dest!: access_kept)

interpretation reconcile: job_operation "reconcileTx L J now runID jobID" for L J now runID jobID
proof (unfold_locales, goal_cases)
  case (1 st r st')
  then obtain indexes mid where event: "settledEvents now r indexes st = Inr mid" and st': "st' = putRun (run_ID r) r mid"
    by (auto simp: reconcileTx_def bindE_eq_Inr split: option.splits)
  from run_events(3) [OF 1(1) event] have m: "storeInv mid" "st_jobs mid = st_jobs st" by auto
  have "storeInv st'" by (rule storeInv_frame [OF m(1)]) (simp_all add: st' putRun_def sameJobs_def sameLogs_def)
  then show ?case using m(2) by (simp add: jobsStep_same st' putRun_def)
qed (auto simp: reconcileTx_def bindE_eq_Inr dest!: access_kept split: option.splits)

text \<open>Reservations are written by reserving, redeeming and collecting only.\<close>

lemma reserve_moves:
  assumes "systemInv st" and "CreateReservationAdmitted L now asg secret owner maxGlobal maxOwner st = (r, st')"
  shows "systemInv st' \<and> jobsStep st st'"
proof (cases r)
  case (Inl e)
  then have "st' = st" using assms(2)
    by (auto simp: CreateReservationAdmitted_def update_def Let_def split: sum.splits)
  then show ?thesis using assms(1) by simp
next
  case (Inr u)
  have wf: "reservationsWF st" using assms(1) by (simp add: systemInv_def)
  from Inr assms(2) obtain asg' where run: "reserveTx L now asg' secret (cleanLabel owner 120) maxGlobal maxOwner st = Inr (u, st')"
    by (auto simp: CreateReservationAdmitted_def Let_def update_Inr split: sum.splits)
  have same: "sameJobs st st'" "sameLogs st st'"
    using reserveTx_spec [OF _ run] wf by (auto simp: reservationsWF_def putReservation_def sameJobs_def sameLogs_def)
  have "reservationsWF st'" using reservations_bounded [OF wf assms(2) [unfolded Inr]] by blast
  then show ?thesis using assms(1) storeInv_frame [OF _ same] by (simp add: systemInv_def jobsStep_same sameJobs_jobs [OF same(1)])
qed

lemma redeem_operation:
  assumes "checkConsumeRequest owner sealed tenant priority limits key hash = Inr ()" and "attempts \<le> maxInt64"
  shows "store_operation (consumeReservationTx L now resID secret requestedJobID sealed authorization source tenant owner priority
    attempts maxQueued limits key hash expectedPolicy)"
proof
  have pr: "- 100 \<le> priority" "priority \<le> 100" using assms(1) by (auto simp: checkConsumeRequest_def bindE_eq_Inr failWhen_eq_Inr)
  fix st r st' assume inv: "systemInv st" and run: "consumeReservationTx L now resID secret requestedJobID sealed authorization source tenant
    owner priority attempts maxQueued limits key hash expectedPolicy st = Inr (r, st')"
  obtain job replayed where r: "r = (job, replayed)" by force
  show "systemInv st' \<and> jobsStep st st'"
  proof (cases replayed)
    case True
    then have "st' = st" using run r by (auto simp: consumeReservationTx_def bindE_eq_Inr Let_def split: option.splits if_splits)
    then show ?thesis using inv by simp
  next
    case False
    with run r have run: "consumeReservationTx L now resID secret requestedJobID sealed authorization source tenant
      owner priority attempts maxQueued limits key hash expectedPolicy st = Inr ((job, False), st')" by simp
    from inv have i: "storeInv st" "reservationsWF st" by (auto simp: systemInv_def)
    from consumeTx_new [OF run] have "job_Status job = JobQueued" "job_Attempt job = 0" by (auto simp: promoted_fields)
    then show ?thesis using consumeTx_inv [OF i pr assms(2) run] new_job_moves [of st job st'] by (auto simp: systemInv_def)
  qed
qed

interpretation collect: store_operation "\<lambda>st.
     bindE (garbageCollectReservationsCount now (st_assignments st)) (\<lambda>(bucket, removed).
     bindE (garbageCollectAdapterSessionLocks now (st\<lparr>st_assignments := bucket\<rparr>)) (\<lambda>(_, st).
     Inr (removed, st)))" for now
proof
  fix st r st'
  assume inv: "systemInv st" and run: "bindE (garbageCollectReservationsCount now (st_assignments st)) (\<lambda>(bucket, removed).
     bindE (garbageCollectAdapterSessionLocks now (st\<lparr>st_assignments := bucket\<rparr>)) (\<lambda>(_, st). Inr (removed, st))) = Inr (r, st')"
  then obtain bucket n where gc: "garbageCollectReservationsCount now (st_assignments st) = Inr (bucket, r)"
    and locks: "garbageCollectAdapterSessionLocks now (st\<lparr>st_assignments := bucket\<rparr>) = Inr (n, st')" by (auto simp: bindE_eq_Inr)
  have wf: "reservationsWF st" using inv by (simp add: systemInv_def)
  then have "garbageCollectReservations now st = Inr (st\<lparr>st_assignments := bucket\<rparr>)"
    using gc by (simp add: garbageCollectReservations_def)
  from gcReservations_spec [OF _ this] wf obtain b where eq: "st\<lparr>st_assignments := bucket\<rparr> = st\<lparr>st_assignments := b\<rparr>" and b: "bordered b"
    "\<And>k. bget b k = (case bget (st_assignments st) k of
        Some (Val r) \<Rightarrow> (if asg_ExpiresAt (rsv_Assignment r) \<le> now then None else Some (Val r)) | c \<Rightarrow> c)"
    unfolding reservationsWF_def by blast
  from arg_cong [OF eq, of st_assignments] have bucket: "bucket = b" by simp
  have out: "outsideLocks st' = outsideLocks (st\<lparr>st_assignments := bucket\<rparr>)" by (rule gcLocks_frame [OF locks])
  have same: "sameJobs st st'" "sameLogs st st'" using outsideLocks_fields(1,2) [OF out] by (simp_all add: sameJobs_def sameLogs_def)
  have "st_assignments st' = b" using outsideLocks_assignments [OF out] by (simp add: bucket)
  then have "reservationsWF st'" using b wf by (auto simp: reservationsWF_def split: option.splits cell.splits if_splits)
  then show "systemInv st' \<and> jobsStep st st'"
    using inv storeInv_frame [OF _ same] by (simp add: systemInv_def jobsStep_same sameJobs_jobs [OF same(1)])
qed

text \<open>Credentials, pairings, nodes and locks do not touch a job.\<close>

definition jobRecords :: "store \<Rightarrow> store" where
  "jobRecords st = st\<lparr>st_tokens := [], st_pairings := [], st_pairCodes := [], st_storeMeta := [], st_nodes := [], st_sessionLocks := [],
     st_sessionPlacements := []\<rparr>"

lemma side_moves:
  assumes "systemInv st" and "jobRecords st' = jobRecords st"
  shows "systemInv st' \<and> jobsStep st st'"
proof -
  have same: "sameJobs st st'" "sameLogs st st'" "st_assignments st' = st_assignments st"
    using assms(2) by (cases st; cases st'; simp add: jobRecords_def sameJobs_def sameLogs_def)+
  then have "reservationsWF st' = reservationsWF st" by (simp add: reservationsWF_def)
  then show ?thesis using assms(1) storeInv_frame [OF _ same(1,2)] by (simp add: systemInv_def jobsStep_same sameJobs_jobs [OF same(1)])
qed

lemma side_put [simp]:
  "jobRecords (putToken k t st) = jobRecords st" "jobRecords (putPairing k p st) = jobRecords st" "jobRecords (putNode k n st) = jobRecords st"
  "jobRecords (st\<lparr>st_tokens := a\<rparr>) = jobRecords st" "jobRecords (st\<lparr>st_pairings := b\<rparr>) = jobRecords st"
  "jobRecords (st\<lparr>st_pairCodes := c\<rparr>) = jobRecords st" "jobRecords (st\<lparr>st_storeMeta := d\<rparr>) = jobRecords st"
  "jobRecords (st\<lparr>st_sessionLocks := e\<rparr>) = jobRecords st" "jobRecords (putSessionPlacement k q st) = jobRecords st"
  by (simp_all add: jobRecords_def putToken_def putPairing_def putNode_def putSessionPlacement_def)

lemma side_update: "update f st = (r, st') \<Longrightarrow> (\<And>x s. f st = Inr (x, s) \<Longrightarrow> jobRecords s = jobRecords st) \<Longrightarrow> jobRecords st' = jobRecords st"
  by (cases "f st") (auto simp: update_def)

lemma side_pairings:
  "garbageCollectPairings L now st = Inr (n, st') \<Longrightarrow> jobRecords st' = jobRecords st"
  "GarbageCollectPairings L now st = (r, st') \<Longrightarrow> jobRecords st' = jobRecords st"
proof -
  show gc: "garbageCollectPairings L now st = Inr (n, st') \<Longrightarrow> jobRecords st' = jobRecords st" for n st'
    by (auto simp: garbageCollectPairings_def bindE_eq_Inr)
  show "GarbageCollectPairings L now st = (r, st') \<Longrightarrow> jobRecords st' = jobRecords st"
    unfolding GarbageCollectPairings_def by (erule side_update) (erule gc)
qed

lemma side_bootstrap:
  assumes "ensureBootstrapTx L rawID now h st = Inr st'"
  shows "jobRecords st' = jobRecords st"
proof (cases "bget (st_storeMeta st) keyBootstrapAdminHash = Some h")
  case True
  then show ?thesis using assms by (auto simp: ensureBootstrapTx_def bindE_eq_Inr split: sum.splits)
next
  case False
  then obtain tokens where "installBootstrapTx L rawID now h (st\<lparr>st_tokens := tokens\<rparr>) = Inr st'"
    using assms by (auto simp: ensureBootstrapTx_def bindE_eq_Inr)
  then show ?thesis by (auto simp: installBootstrapTx_def bindE_eq_Inr split: option.splits cell.splits)
qed

lemma side_access: "accessStep L st drawn st' \<Longrightarrow> jobRecords st' = jobRecords st"
proof (induction rule: accessStep.induct)
  case (Issue bytes rawID now role subject groups lifetime pl ol st r st')
  then show ?case unfolding CreateTokenWithPolicies_def by (rule side_update) (auto simp: bindE_eq_Inr Let_def)
next
  case (Ensure rawID now token role subject groups st r st')
  then show ?case unfolding EnsureToken_def by (rule side_update) (auto simp: bindE_eq_Inr split: if_splits)
next
  case (Bootstrap rawID now token st r st')
  then show ?case unfolding EnsureBootstrapAdminToken_def
    by (rule side_update) (auto simp: bindE_eq_Inr dest: side_bootstrap)
next
  case (Revoke tokenID st r st')
  then show ?case unfolding RevokeTokenWithHash_def by (rule side_update) (auto simp: Let_def split: option.splits)
next
  case (Pair verify link keyN rawDevice draws now request uri lifetime st r st')
  then show ?case unfolding CreatePairing_def
    by (rule side_update) (auto simp: bindE_eq_Inr createPairingTx_def Let_def dest!: side_pairings)
next
  case (Approve bytes rawNode rawID now userCode st r st')
  then show ?case
    by (auto simp: DecidePairing_def decidePairingTx_def approvePairingTx_def bindE_eq_Inr Let_def
        dest!: side_pairings side_update split: option.splits sum.splits prod.splits if_splits)
next
  case (Deny rawToken rawNode rawID now userCode st r st')
  then show ?case
    by (auto simp: DecidePairing_def decidePairingTx_def bindE_eq_Inr Let_def
        dest!: side_pairings side_update split: option.splits sum.splits prod.splits if_splits)
next
  case (Poll now deviceCode st r st')
  then show ?case unfolding PollPairing_def by (rule side_update) (auto simp: bindE_eq_Inr Let_def split: if_splits)
next
  case (Collect now st r st')
  then show ?case by (rule side_pairings)
next
  case (Heartbeat now node h st r st')
  then show ?case
    by (auto simp: upsertNodePinnedAuthorized_def upsertPinnedTx_def bindE_eq_Inr Let_def dest!: side_update split: sum.splits)
qed

definition ResolveRoutingRecoveryProbe :: "gotime \<Rightarrow> string \<Rightarrow> string \<Rightarrow> string \<Rightarrow> store \<Rightarrow> bool result \<times> store" where
  "ResolveRoutingRecoveryProbe now nodeID jobID failureCode st =
     (if trimSpace nodeID = [] \<or> trimSpace jobID = [] then (Inr False, st)
      else update (\<lambda>st. resolveRoutingRecoveryProbeTx st nodeID jobID failureCode now) st)"

lemma side_others:
  "SetNodeConnected now nodeID c st = (ra, st') \<Longrightarrow> jobRecords st' = jobRecords st"
  "SetNodeDraining nodeID d st = (rb, st') \<Longrightarrow> jobRecords st' = jobRecords st"
  "UpsertNode node st = (rc, st') \<Longrightarrow> jobRecords st' = jobRecords st"
  "AcquireRelayAuthority L raw st = (rd, st') \<Longrightarrow> jobRecords st' = jobRecords st"
  "ReleaseAdapterSessionJobLock L i st = (re, st') \<Longrightarrow> jobRecords st' = jobRecords st"
  "AdapterSessionBusy L owner req i now st = (rf, st') \<Longrightarrow> jobRecords st' = jobRecords st"
  "RecentSessionPlacementBinding L owner req st = (rg, st') \<Longrightarrow> jobRecords st' = jobRecords st"
  "ResolveRoutingRecoveryProbe now nodeID i code st = (rh, st') \<Longrightarrow> jobRecords st' = jobRecords st"
  "UpsertNodePinnedAuthorized L now node h st = (ri, st') \<Longrightarrow> jobRecords st' = jobRecords st"
proof -
  have "upsertPinnedTx now node h st = Inr (x, s) \<Longrightarrow> jobRecords s = jobRecords st" for x s
    by (auto simp: upsertPinnedTx_def bindE_eq_Inr Let_def)
  then show "UpsertNodePinnedAuthorized L now node h st = (ri, st') \<Longrightarrow> jobRecords st' = jobRecords st"
    by (auto simp: UpsertNodePinnedAuthorized_def upsertNodePinnedAuthorized_def dest: side_update split: if_splits sum.splits)
  show "SetNodeConnected now nodeID c st = (ra, st') \<Longrightarrow> jobRecords st' = jobRecords st"
    unfolding SetNodeConnected_def by (erule side_update) (auto simp: bindE_eq_Inr Let_def)
  show "SetNodeDraining nodeID d st = (rb, st') \<Longrightarrow> jobRecords st' = jobRecords st"
    unfolding SetNodeDraining_def by (erule side_update) (auto simp: bindE_eq_Inr Let_def)
  show "UpsertNode node st = (rc, st') \<Longrightarrow> jobRecords st' = jobRecords st"
    unfolding UpsertNode_def by (erule side_update) auto
  show "AcquireRelayAuthority L raw st = (rd, st') \<Longrightarrow> jobRecords st' = jobRecords st"
    unfolding AcquireRelayAuthority_def by (erule side_update) (auto simp: bindE_eq_Inr Let_def split: option.splits list.splits)
  show "ReleaseAdapterSessionJobLock L i st = (re, st') \<Longrightarrow> jobRecords st' = jobRecords st"
    unfolding ReleaseAdapterSessionJobLock_def by (erule side_update) (auto simp: bindE_eq_Inr Let_def split: if_splits)
  have "adapterSessionBusyTx L owner req adapterSessionLockJob i now st = Inr (x, s) \<Longrightarrow> jobRecords s = jobRecords st" for x s
    using busy_outside [of L owner req adapterSessionLockJob i now st x s]
    by (cases s; cases st; simp add: jobRecords_def outsideLocks_def)
  then show "AdapterSessionBusy L owner req i now st = (rf, st') \<Longrightarrow> jobRecords st' = jobRecords st"
    by (auto simp: AdapterSessionBusy_def dest: side_update split: if_splits)
  show "RecentSessionPlacementBinding L owner req st = (rg, st') \<Longrightarrow> jobRecords st' = jobRecords st"
    by (auto simp: RecentSessionPlacementBinding_def fallbackPlacement_def Let_def split: sum.splits if_splits)
  have "resolveRoutingRecoveryProbeTx st nodeID i code now = Inr (x, s) \<Longrightarrow> jobRecords s = jobRecords st" for x s
    by (auto simp: resolveRoutingRecoveryProbeTx_def split: if_splits sum.splits)
  then show "ResolveRoutingRecoveryProbe now nodeID i code st = (rh, st') \<Longrightarrow> jobRecords st' = jobRecords st"
    by (auto simp: ResolveRoutingRecoveryProbe_def dest: side_update split: if_splits)
qed

section \<open>All sequences of operations\<close>

text \<open>One committed operation of the relay on its store, with any arguments and any outcome. The random
  source fills the sixteen bytes it is asked for, and the number of attempts is an \<open>int\<close> of the code.\<close>

inductive storeStep :: "goLib \<Rightarrow> jsonCodec \<Rightarrow> store \<Rightarrow> store \<Rightarrow> bool" for L :: goLib and J :: jsonCodec where
  Submit: "createJob L raw now request maxQueued limits key hash st = (r1, st') \<Longrightarrow> (\<And>bytes. raw = Inr bytes \<Longrightarrow> length bytes = 16) \<Longrightarrow> storeStep L J st st'"
| Reserve: "CreateReservationAdmitted L now asg secret owner maxGlobal maxOwner st = (r2, st') \<Longrightarrow> storeStep L J st st'"
| Redeem: "consumeReservationAdmitted L now resID secret jobID sealed authorization source tenant owner priority attempts maxQueued limits
    key hash policy st = (r3, st') \<Longrightarrow> attempts \<le> maxInt64 \<Longrightarrow> storeStep L J st st'"
| CollectReservations: "GarbageCollectReservations now st = (r4, st') \<Longrightarrow> storeStep L J st st'"
| Assign: "assignJobAuthorized L raw now jobID nodeID cred adapter decision authority st = (r5, st') \<Longrightarrow> storeStep L J st st'"
| Start: "markRunning L now jobID nodeID attempt fence st = (r5, st') \<Longrightarrow> storeStep L J st st'"
| Progress: "updateJobProgress L now jobID nodeID attempt fence p st = (r5, st') \<Longrightarrow> storeStep L J st st'"
| Complete: "completeJobWithFailure L now jobID nodeID attempt fence result sealed u err code ex st = (r5, st') \<Longrightarrow> storeStep L J st st'"
| Cancel: "CancelJobForProducer L now jobID owner tenants st = (r5, st') \<Longrightarrow> storeStep L J st st'"
| LoseNode: "RequeueNode L now nodeID reason st = (r6, st') \<Longrightarrow> storeStep L J st st'"
| Restart: "RecoverRelayRestart L now reason st = (r6, st') \<Longrightarrow> storeStep L J st st'"
| Sweep: "RecoverStaleJobs L clock now sealedWait execution st = (r6, st') \<Longrightarrow> storeStep L J st st'"
| SaveRun: "SavePipelineRun L J now run st = (r7, st') \<Longrightarrow> storeStep L J st st'"
| AdmitRun: "CreatePipelineRunAdmitted L J now run maxGlobal maxOwner st = (r7, st') \<Longrightarrow> storeStep L J st st'"
| AdmitChild: "CreateDAGChildJobAdmittedGoverned L J raw now runID step request maxQueued limits st = (r8, st') \<Longrightarrow>
    (\<And>bytes. raw = Inr bytes \<Longrightarrow> length bytes = 16) \<Longrightarrow> storeStep L J st st'"
| Reconcile: "ReconcileDAGChildTerminal L J now runID jobID st = (r9, st') \<Longrightarrow> storeStep L J st st'"
| CloseRuns: "FailActivePipelineRuns L now reason st = (r10, st') \<Longrightarrow> storeStep L J st st'"
| Access: "accessStep L st drawn st' \<Longrightarrow> storeStep L J st st'"
| Connect: "SetNodeConnected now nodeID c st = (r7, st') \<Longrightarrow> storeStep L J st st'"
| Drain: "SetNodeDraining nodeID d st = (r11, st') \<Longrightarrow> storeStep L J st st'"
| Heartbeat: "UpsertNode node st = (r7, st') \<Longrightarrow> storeStep L J st st'"
| Hello: "UpsertNodePinnedAuthorized L now node h st = (r7, st') \<Longrightarrow> storeStep L J st st'"
| Authority: "AcquireRelayAuthority L raw st = (r12, st') \<Longrightarrow> storeStep L J st st'"
| Unlock: "ReleaseAdapterSessionJobLock L jobID st = (r13, st') \<Longrightarrow> storeStep L J st st'"
| CheckBusy: "AdapterSessionBusy L owner req jobID now st = (r13, st') \<Longrightarrow> storeStep L J st st'"
| ReadPlacement: "RecentSessionPlacementBinding L owner req st = (r14, st') \<Longrightarrow> storeStep L J st st'"
| ReleaseProbe: "ResolveRoutingRecoveryProbe now nodeID jobID code st = (r13, st') \<Longrightarrow> storeStep L J st st'"

lemma storeStep_moves: "storeStep L J st st' \<Longrightarrow> systemInv st \<Longrightarrow> systemInv st' \<and> jobsStep st st'"
proof (induction rule: storeStep.induct)
  case (Submit raw now request maxQueued limits key hash st r1 st')
  then show ?case
    by (auto simp: createJob_def split: sum.splits dest: job_operation.job_committed [OF admit_operation])
next
  case (Reserve now asg secret owner maxGlobal maxOwner st r2 st')
  then show ?case using reserve_moves by blast
next
  case (Redeem now resID secret jobID sealed authorization source tenant owner priority attempts maxQueued limits key hash policy st r3 st')
  then show ?case
    by (auto simp: consumeReservationAdmitted_def Let_def split: sum.splits dest: store_operation.committed [OF redeem_operation])
next
  case (CollectReservations now st r4 st')
  then show ?case unfolding GarbageCollectReservations_def using collect.committed by blast
next
  case (Assign raw now jobID nodeID cred adapter decision authority st r5 st')
  then show ?case unfolding assignJobAuthorized_def using assign.committed by blast
next
  case (Start now jobID nodeID attempt fence st r5 st')
  then show ?case unfolding markRunning_def using start.committed by blast
next
  case (Progress now jobID nodeID attempt fence p st r5 st')
  then show ?case unfolding updateJobProgress_def using progress.committed by blast
next
  case (Complete now jobID nodeID attempt fence result sealed u err code ex st r5 st')
  then show ?case unfolding completeJobWithFailure_def using complete.committed by (auto split: if_splits)
next
  case (Cancel now jobID owner tenants st r5 st')
  then show ?case unfolding CancelJobForProducer_def using cancel.committed by blast
next
  case (LoseNode now nodeID reason st r6 st')
  then show ?case unfolding RequeueNode_def using lose.committed by blast
next
  case (Restart now reason st r6 st')
  then show ?case unfolding RecoverRelayRestart_def using boot.committed by blast
next
  case (Sweep clock now sealedWait execution st r6 st')
  then show ?case unfolding RecoverStaleJobs_def Let_def using sweep.committed by blast
next
  case (SaveRun now run st r7 st')
  then show ?case unfolding SavePipelineRun_def using saveRun.committed by (auto split: sum.splits)
next
  case (AdmitRun now run maxGlobal maxOwner st r7 st')
  then show ?case unfolding CreatePipelineRunAdmitted_def using admitRun.committed by blast
next
  case (AdmitChild raw now runID step request maxQueued limits st r8 st')
  then show ?case
    by (auto simp: CreateDAGChildJobAdmittedGoverned_def split: sum.splits dest: job_operation.job_committed [OF child_operation])
next
  case (Reconcile now runID jobID st r9 st')
  then show ?case unfolding ReconcileDAGChildTerminal_def Let_def using reconcile.committed by (auto split: if_splits)
next
  case (CloseRuns now reason st r10 st')
  then show ?case unfolding FailActivePipelineRuns_def Let_def using closeRuns.committed by blast
next
  case (Access st drawn st')
  then show ?case using side_moves side_access by blast
qed (erule side_moves, erule side_others)+

definition storeSteps :: "goLib \<Rightarrow> jsonCodec \<Rightarrow> store \<Rightarrow> store \<Rightarrow> bool" where
  "storeSteps L J = (storeStep L J)\<^sup>*\<^sup>*"

lemma storeSteps_inv: "storeSteps L J st st' \<Longrightarrow> systemInv st \<Longrightarrow> systemInv st'"
  unfolding storeSteps_def by (induction rule: rtranclp_induct) (auto dest: storeStep_moves)

text \<open>What a job may have become: its number of attempts only grows, up to its maximum, and a final state is
  left by no operation.\<close>

definition jobGrows :: "jobState \<Rightarrow> jobState \<Rightarrow> bool" where
  "jobGrows x y \<longleftrightarrow> fst (snd x) \<le> fst (snd y) \<and> snd (snd y) = snd (snd x) \<and> (terminalJobStatus (fst x) \<longrightarrow> y = x)"

lemma jobStep_grows: "jobStep (Some x) y \<Longrightarrow> \<exists>z. y = Some z \<and> jobGrows x z"
  by (cases rule: jobStep.cases) (auto simp: jobGrows_def terminal_iff status_defs)

lemma jobGrows_refl [simp]: "jobGrows x x"
  by (simp add: jobGrows_def)

lemma jobsStep_grows:
  assumes "jobsStep st st'" and "jobView st i = Some x"
  shows "\<exists>y. jobView st' i = Some y \<and> jobGrows x y"
proof (cases "jobView st' i = jobView st i")
  case True
  then show ?thesis using assms(2) by simp
next
  case False
  then have "jobStep (Some x) (jobView st' i)" using spec [OF assms(1) [unfolded jobsStep_def], of i] assms(2) by simp
  then show ?thesis by (rule jobStep_grows)
qed

lemma storeSteps_grow:
  assumes "storeSteps L J st st'" and "systemInv st" and "jobView st i = Some x"
  shows "\<exists>y. jobView st' i = Some y \<and> jobGrows x y"
  using assms(1) unfolding storeSteps_def
proof (induction rule: rtranclp_induct)
  case base
  show ?case using assms(3) by simp
next
  case (step s s')
  have inv: "systemInv s" using storeSteps_inv step.hyps(1) assms(2) by (simp add: storeSteps_def)
  from step.IH obtain y where y: "jobView s i = Some y" "jobGrows x y" by blast
  from jobsStep_grows [OF _ y(1), of s'] storeStep_moves [OF step.hyps(2) inv] obtain z where "jobView s' i = Some z" "jobGrows y z" by blast
  then show ?case using y(2) by (auto simp: jobGrows_def)
qed

lemma jobView_Some: "jobView st i = Some x \<longleftrightarrow> (\<exists>j. bget (st_jobs st) i = Some (Val j) \<and> jobState j = x)"
  by (auto simp: jobView_def split: option.splits cell.splits)



section \<open>Witnesses\<close>

lemma witness_steps:
  "\<exists>st. storeSteps plainLib plainJSON emptyStore st \<and> bget (st_jobs st) ''job-1'' = Some (Val (persistJob admittedJob))
     \<and> job_Status admittedJob = JobQueued \<and> job_Attempt admittedJob = 0"
proof -
  obtain st where st: "createJob plainLib (Inl ErrNotExist) (64000000000 * second) witnessRequest 10 zeroLimits ''k1'' witnessHash
      emptyStore = (Inr (admittedJob, False), st)" using witness_admitted by blast
  have "storeStep plainLib plainJSON emptyStore st" by (rule storeStep.Submit [OF st]) simp
  then have "storeSteps plainLib plainJSON emptyStore st" by (simp add: storeSteps_def)
  moreover have "bget (st_jobs st) ''job-1'' = Some (Val (persistJob admittedJob))" "job_Status admittedJob = JobQueued" "job_Attempt admittedJob = 0"
    using createJob_new [OF storeInv_empty _ st] by (simp_all add: bucket_simps admittedJob_fields)
  ultimately show ?thesis by blast
qed



end
