(* ===== verification/Node_Intake.thy ===== *)
theory Node_Intake
  imports Worker_Slots Node_Enrollment Scheduler
begin

text \<open>
  What the relay lets in from outside (\<open>internal/cluster/relay.go\<close>): \<open>scopeNodeCapabilities\<close> bounds
  everything a worker advertises and cuts its groups down to those of its credential,
  \<open>ValidateRequirements\<close> bounds what a job may ask for, and the hello and heartbeat messages become the
  stored node. Error texts are kept without the quoted value of an entry. The lemmas show that whatever was
  sent, the values the scheduler computes with are in range.
\<close>

section \<open>Bounds\<close>

definition MaximumAdapterSessions :: nat where "MaximumAdapterSessions = 256"
definition MaximumAdapterModelChoices :: nat where "MaximumAdapterModelChoices = 20"
definition MaximumAdapterReasoningLevels :: nat where "MaximumAdapterReasoningLevels = 20"
definition MaximumAdapterChoiceBytes :: int where "MaximumAdapterChoiceBytes = 100"
definition MaximumGPUCapabilities :: nat where "MaximumGPUCapabilities = 256"
definition MaximumModelCapabilities :: nat where "MaximumModelCapabilities = 4096"
definition MaximumNodeListValues :: nat where "MaximumNodeListValues = 256"
definition MaximumNodeHardwareBytes :: u64 where "MaximumNodeHardwareBytes = 1152921504606846976"

lemmas intake_limits = MaximumAdapterSessions_def MaximumAdapterModelChoices_def MaximumAdapterReasoningLevels_def
  MaximumAdapterChoiceBytes_def MaximumGPUCapabilities_def MaximumModelCapabilities_def MaximumNodeListValues_def

definition boundedInt :: "int \<Rightarrow> int \<Rightarrow> int \<Rightarrow> int" where
  "boundedInt value minimum maximum = (if value < minimum then minimum else if value > maximum then maximum else value)"

definition validRouteBinding :: "goLib \<Rightarrow> string \<Rightarrow> bool" where
  "validRouteBinding L value \<longleftrightarrow>
     length value = 71 \<and> hasPrefix value ''sha256:'' \<and> toLower L value = value \<and> hexDecodes (drop 7 value)"

definition intersectFold :: "goLib \<Rightarrow> string list \<Rightarrow> string list \<Rightarrow> string list" where
  "intersectFold L values allowed = filter (containsFold L allowed) values"

section \<open>Capabilities of a worker\<close>

text \<open>A Go map is listed as key and value pairs; the loop visits the keys in byte order.\<close>

fun automaticTasksLoop :: "(string \<times> string list) list \<Rightarrow> string list \<Rightarrow> (string \<times> string list) list \<Rightarrow> (string \<times> string list) list" where
  "automaticTasksLoop input [] result = result"
| "automaticTasksLoop input (key # keys) result =
     (if length result \<ge> 64 then result
      else let cleanedKey = cleanLabel key 80 in
           if cleanedKey = [] then automaticTasksLoop input keys result
           else automaticTasksLoop input keys
             (bput cleanedKey (cleanList (case map_of input key of None \<Rightarrow> [] | Some tasks \<Rightarrow> tasks) 32 80) result))"

definition cleanAutomaticTasks :: "(string \<times> string list) list option \<Rightarrow> (string \<times> string list) list option" where
  "cleanAutomaticTasks input = map_option (\<lambda>m. automaticTasksLoop m (sort (map fst m)) []) input"

definition scopeGPU :: "gpuCapability \<Rightarrow> gpuCapability" where
  "scopeGPU gpu =
     (let memoryTotal = min (gpu_MemoryTotal gpu) MaximumNodeHardwareBytes in
      gpu\<lparr>gpu_Name := cleanLabel (gpu_Name gpu) 160, gpu_Backend := cleanLabel (gpu_Backend gpu) 40,
        gpu_Driver := cleanLabel (gpu_Driver gpu) 80, gpu_MemoryTotal := memoryTotal,
        gpu_MemoryFree := min (gpu_MemoryFree gpu) memoryTotal,
        gpu_Temperature := boundedInt (gpu_Temperature gpu) (- 100) 1000,
        gpu_Utilization := boundedInt (gpu_Utilization gpu) 0 100\<rparr>)"

definition scopeModel :: "modelCapability \<Rightarrow> modelCapability" where
  "scopeModel model =
     model\<lparr>model_Name := cleanLabel (model_Name model) 160, model_Provider := cleanLabel (model_Provider model) 80,
       model_CapabilitySource := cleanLabel (model_CapabilitySource model) 80, model_Tasks := cleanList (model_Tasks model) 32 80,
       model_Size := (if model_Size model < 0 then 0 else model_Size model),
       model_VRAM := (if model_VRAM model < 0 then 0 else model_VRAM model)\<rparr>"

definition scopeModels :: "modelCapability list \<Rightarrow> modelCapability list" where
  "scopeModels models =
     map scopeModel (filter (\<lambda>m. cleanLabel (model_Name m) 160 \<noteq> [])
       (if MaximumModelCapabilities < length models then take MaximumModelCapabilities models else models))"

fun bindingsLoop :: "goLib \<Rightarrow> string list \<Rightarrow> string list \<Rightarrow> string list" where
  "bindingsLoop L [] bindings = bindings"
| "bindingsLoop L (binding # rest) bindings =
     (let bindings = (if validRouteBinding L binding \<and> binding \<notin> set bindings then bindings @ [binding] else bindings) in
      if length bindings = MaximumNodeListValues then bindings else bindingsLoop L rest bindings)"

definition scopeSession :: "goLib \<Rightarrow> adapterSessionCapability \<Rightarrow> adapterSessionCapability" where
  "scopeSession L session =
     (let profile = cleanLabel (ses_Profile session) 80;
          canCreate = (ses_CanCreateSession session
            \<and> \<not> (ses_EndpointID session \<le> 0 \<or> profile = [] \<or> \<not> validRoutingLabel L profile 80))
      in session\<lparr>ses_Profile := profile, ses_State := cleanLabel (ses_State session) 40,
           ses_SessionKey := cleanAdapterSessionKey (ses_SessionKey session), ses_CanCreateSession := canCreate,
           ses_DefaultNewSession := (canCreate \<and> ses_DefaultNewSession session),
           ses_CurrentModel := cleanLabel (ses_CurrentModel session) MaximumAdapterChoiceBytes,
           ses_CurrentReasoning := cleanLabel (ses_CurrentReasoning session) MaximumAdapterChoiceBytes,
           ses_ModelChoices := cleanList (ses_ModelChoices session) MaximumAdapterModelChoices MaximumAdapterChoiceBytes,
           ses_ReasoningLevels := cleanList (ses_ReasoningLevels session) MaximumAdapterReasoningLevels MaximumAdapterChoiceBytes\<rparr>)"

definition scopeNodeCapabilities :: "goLib \<Rightarrow> capabilities \<Rightarrow> tokenRecord \<Rightarrow> capabilities" where
  "scopeNodeCapabilities L c record =
     (let memoryTotal = min (cap_MemoryTotal c) MaximumNodeHardwareBytes;
          groups = cleanList (cap_Groups c) MaximumNodeListValues 80;
          maxConcurrent = boundedWorkerCapacity (cap_MaxConcurrent c);
          adapterEndpoints = boundedInt (cap_AdapterEndpoints c) 0 (int MaximumAdapterSessions)
      in c\<lparr>cap_OS := cleanLabel (cap_OS c) 80, cap_OSVersion := cleanLabel (cap_OSVersion c) 160,
           cap_Architecture := cleanLabel (cap_Architecture c) 40, cap_CPU := cleanLabel (cap_CPU c) 160,
           cap_MemoryType := cleanLabel (cap_MemoryType c) 80, cap_AgentVersion := cleanLabel (cap_AgentVersion c) 40,
           cap_CPUCores := boundedInt (cap_CPUCores c) 0 65536, cap_CPUFrequency := boundedInt (cap_CPUFrequency c) 0 10000000,
           cap_CPUUtilization := boundedInt (cap_CPUUtilization c) 0 100,
           cap_UTCOffsetSeconds := boundedInt (cap_UTCOffsetSeconds c) (- 24 * 60 * 60) (24 * 60 * 60),
           cap_MemoryTotal := memoryTotal, cap_MemoryFree := min (cap_MemoryFree c) memoryTotal,
           cap_GPUs := map scopeGPU (if MaximumGPUCapabilities < length (cap_GPUs c) then take MaximumGPUCapabilities (cap_GPUs c) else cap_GPUs c),
           cap_Models := scopeModels (cap_Models c),
           cap_Providers := cleanList (cap_Providers c) MaximumNodeListValues 80,
           cap_Tasks := cleanList (cap_Tasks c) MaximumNodeListValues 80, cap_Tags := cleanList (cap_Tags c) MaximumNodeListValues 80,
           cap_Sources := cleanList (cap_Sources c) MaximumNodeListValues 160, cap_Modes := cleanList (cap_Modes c) MaximumNodeListValues 80,
           cap_AutomaticTasks := cleanAutomaticTasks (cap_AutomaticTasks c),
           cap_RouteBindings := bindingsLoop L (cap_RouteBindings c) [],
           cap_Groups := (if tok_Groups record \<noteq> [] then intersectFold L groups (tok_Groups record) else groups),
           cap_MaxConcurrent := maxConcurrent, cap_Running := boundedInt (cap_Running c) 0 maxConcurrent,
           cap_AdapterEndpoints := adapterEndpoints, cap_AdapterBusy := boundedInt (cap_AdapterBusy c) 0 adapterEndpoints,
           cap_QueueDepth := boundedInt (cap_QueueDepth c) 0 1000000,
           cap_AdapterSessions := map (scopeSession L) (if MaximumAdapterSessions < length (cap_AdapterSessions c)
             then take MaximumAdapterSessions (cap_AdapterSessions c) else cap_AdapterSessions c)\<rparr>)"

section \<open>Hello and heartbeat\<close>

text \<open>\<open>Sub\<close> saturates at the ends of a 64-bit duration and \<open>Milliseconds\<close> truncates towards zero.\<close>

definition clockOffset :: "node \<Rightarrow> int" where
  "clockOffset node =
     (if cap_ClockTime (node_Capabilities node) \<noteq> 0
      then (let d = timeSub (cap_ClockTime (node_Capabilities node)) (node_LastSeen node) in sgn d * (\<bar>d\<bar> div millisecond))
      else node_ClockOffsetMS node)"

definition seenNode :: "gotime \<Rightarrow> node \<Rightarrow> node" where
  "seenNode now node =
     (let node = node\<lparr>node_Connected := True, node_State := ''online'', node_LastSeen := now\<rparr>
      in node\<lparr>node_ClockOffsetMS := clockOffset node\<rparr>)"

text \<open>The node of a hello message; the relay closes the connection of a worker without a name.\<close>

definition helloNode :: "goLib \<Rightarrow> gotime \<Rightarrow> tokenRecord \<Rightarrow> node \<Rightarrow> store \<Rightarrow> node option" where
  "helloNode L now record hello st =
     (let name = cleanLabel (node_Name hello) 100;
          c = scopeNodeCapabilities L (node_Capabilities hello) record;
          node = seenNode now (hello\<lparr>node_Name := name,
            node_Capabilities := c\<lparr>cap_MaxConcurrent := boundedWorkerCapacity (cap_MaxConcurrent c)\<rparr>\<rparr>)
      in if name = [] then None
         else Some (if node_PublicKey node = []
                    then (case GetNode st (node_ID node) of Inr saved \<Rightarrow> node\<lparr>node_PublicKey := node_PublicKey saved\<rparr> | Inl _ \<Rightarrow> node)
                    else node))"

definition heartbeatNode :: "goLib \<Rightarrow> gotime \<Rightarrow> tokenRecord \<Rightarrow> capabilities option \<Rightarrow> workerConnection \<Rightarrow> node \<Rightarrow> node \<times> workerConnection" where
  "heartbeatNode L now record message worker node =
     (case message of
        None \<Rightarrow> (seenNode now node, worker)
      | Some advertised \<Rightarrow>
          (let c = scopeNodeCapabilities L advertised record;
               worker = updateCapacity (cap_MaxConcurrent c) worker;
               (running, capacity) = load worker;
               c = c\<lparr>cap_Running := (if cap_Running c < running then running else cap_Running c), cap_MaxConcurrent := capacity\<rparr>
           in (seenNode now (node\<lparr>node_Capabilities := c\<rparr>), worker)))"

section \<open>Requirements of a job\<close>

text \<open>The labels come from a Go map, whose iteration order is unspecified: \<open>order\<close> is the order of
  the entries in this call.\<close>

definition requirementLabels :: "requirements \<Rightarrow> (string \<times> string) list" where
  "requirementLabels r = [(''task'', req_Task r), (''model'', req_Model r), (''reasoning'', req_Reasoning r), (''group'', req_Group r),
     (''adapter_profile'', req_AdapterProfile r)]"

fun requirementLabelsLoop :: "goLib \<Rightarrow> (string \<times> string) list \<Rightarrow> unit result" where
  "requirementLabelsLoop L [] = Inr ()"
| "requirementLabelsLoop L ((name, value) # rest) =
     (if name \<noteq> ''task'' \<and> value = [] then requirementLabelsLoop L rest
      else bindE (failWhen (\<not> validRoutingLabel L value 160)
             (ErrText (''requirements.'' @ name @ '' must be at most 160 bytes without surrounding whitespace or control characters''))) (\<lambda>_.
           requirementLabelsLoop L rest))"

definition checkAdapterRequirements :: "goLib \<Rightarrow> requirements \<Rightarrow> unit result" where
  "checkAdapterRequirements L r =
     (let adapter = equalFold L (req_Provider r) ''adapter'' in
      bindE (failWhen (req_AdapterProfile r \<noteq> [] \<and> \<not> adapter) (ErrText ''requirements.adapter_profile requires provider adapter'')) (\<lambda>_.
      bindE (failWhen (req_AdapterProfile r \<noteq> [] \<and> \<not> validRoutingLabel L (req_AdapterProfile r) 80)
        (ErrText ''requirements.adapter_profile must be at most 80 bytes without surrounding whitespace or control characters'')) (\<lambda>_.
      bindE (failWhen (req_Reasoning r \<noteq> [] \<and> \<not> adapter) (ErrText ''requirements.reasoning requires provider adapter'')) (\<lambda>_.
      bindE (failWhen (req_AdapterEndpointID r < 0) (ErrText ''requirements.adapter_endpoint_id is invalid'')) (\<lambda>_.
      bindE (failWhen (req_AdapterEndpointID r > 0 \<and> \<not> adapter) (ErrText ''requirements.adapter_endpoint_id requires provider adapter'')) (\<lambda>_.
      bindE (failWhen (req_AdapterPrincipal r \<noteq> [] \<and> (\<not> adapter \<or> \<not> validRoutingLabel L (req_AdapterPrincipal r) 80))
        (ErrText ''requirements.adapter_principal is invalid or requires provider adapter'')) (\<lambda>_.
      bindE (failWhen ((req_AdapterFreshSession r \<or> req_AdapterEphemeralSession r) \<and> \<not> adapter)
        (ErrText ''adapter fresh-session requirements require provider adapter'')) (\<lambda>_.
      failWhen (req_AdapterEphemeralSession r \<and> \<not> req_AdapterFreshSession r)
        (ErrText ''requirements.adapter_ephemeral_session requires adapter_fresh_session'')))))))))"

definition checkImageRequirements :: "goLib \<Rightarrow> requirements \<Rightarrow> unit result" where
  "checkImageRequirements L r =
     bindE (failWhen (req_InputImageCount r < 0 \<or> req_InputImageCount r > 12) (ErrText ''requirements.input_image_count must be between 0 and 12'')) (\<lambda>_.
     bindE (failWhen (req_InputImageBytes r < 0 \<or> req_InputImageBytes r > 8388608)
       (ErrText ''requirements.input_image_bytes must be between 0 and 8388608'')) (\<lambda>_.
     bindE (failWhen (req_InputImageMaxBytes r < 0 \<or> req_InputImageMaxBytes r > 8388608 \<or> req_InputImageMaxBytes r > req_InputImageBytes r)
       (ErrText ''requirements.input_image_max_bytes must be between 0 and input_image_bytes'')) (\<lambda>_.
     bindE (failWhen (req_MinFreeVRAM r > MaximumNodeHardwareBytes) (ErrText ''requirements.min_free_vram_bytes must not exceed 1152921504606846976'')) (\<lambda>_.
     bindE (failWhen (length (req_InputImageMediaTypes r) > 4) (ErrText ''requirements.input_image_media_types accepts at most four entries'')) (\<lambda>_.
     bindE (failWhen (list_ex (\<lambda>m. toLower L (trimSpace m) \<notin> {''image/png'', ''image/jpeg'', ''image/webp'', ''image/gif''}) (req_InputImageMediaTypes r))
       (ErrText ''requirements.input_image_media_types contains unsupported value'')) (\<lambda>_.
     bindE (failWhen (req_InputImageCount r > 0 \<and> \<not> req_Vision r) (ErrText ''requirements.input_image_count requires vision'')) (\<lambda>_.
     failWhen (req_InputImageCount r = 0 \<and> (req_InputImageBytes r > 0 \<or> req_InputImageMaxBytes r > 0 \<or> req_InputImageMediaTypes r \<noteq> []))
       (ErrText ''image byte and media requirements require input_image_count''))))))))"

definition checkAudioRequirements :: "goLib \<Rightarrow> requirements \<Rightarrow> unit result" where
  "checkAudioRequirements L r =
     (let audioMediaType = toLower L (trimSpace (req_InputAudioMediaType r)) in
      bindE (failWhen (req_InputAudioBytes r < 0 \<or> req_InputAudioBytes r > 8388608)
        (ErrText ''requirements.input_audio_bytes must be between 0 and 8388608'')) (\<lambda>_.
      bindE (failWhen (req_InputAudioDurationMS r < 0 \<or> req_InputAudioDurationMS r > 300000)
        (ErrText ''requirements.input_audio_duration_ms must be between 0 and 300000'')) (\<lambda>_.
      bindE (failWhen (audioMediaType \<noteq> [] \<and> audioMediaType \<noteq> ''audio/ogg'' \<and> audioMediaType \<noteq> ''audio/ogg; codecs=opus'')
        (ErrText ''requirements.input_audio_media_type must be audio/ogg or audio/ogg; codecs=opus'')) (\<lambda>_.
      bindE (if req_InputAudioBytes r = 0
             then failWhen (req_InputAudioDurationMS r \<noteq> 0 \<or> audioMediaType \<noteq> [])
                    (ErrText ''audio duration and media requirements require input_audio_bytes'')
             else bindE (failWhen (req_InputAudioDurationMS r = 0 \<or> audioMediaType = [])
                    (ErrText ''input_audio_bytes requires audio duration and media type'')) (\<lambda>_.
                  bindE (failWhen (\<not> equalFold L (req_Task r) ''speech_to_text'') (ErrText ''audio input requirements require task speech_to_text'')) (\<lambda>_.
                  failWhen (req_InputImageCount r \<noteq> 0) (ErrText ''speech_to_text audio cannot be combined with image input'')))) (\<lambda>_.
      failWhen (equalFold L (req_Task r) ''speech_to_text'' \<and> req_InputAudioBytes r = 0)
        (ErrText ''speech_to_text requires bounded audio input requirements''))))))"

definition ValidateRequirements :: "goLib \<Rightarrow> ((string \<times> string) list \<Rightarrow> (string \<times> string) list) \<Rightarrow> requirements \<Rightarrow> unit result" where
  "ValidateRequirements L order r =
     bindE (failWhen (req_Task r = []) (ErrText ''requirements.task is required'')) (\<lambda>_.
     bindE (failWhen (length (req_RequiredTags r) > 32 \<or> length (req_PreferredNodes r) > 32) (ErrText ''too many routing selectors'')) (\<lambda>_.
     bindE (requirementLabelsLoop L (order (requirementLabels r))) (\<lambda>_.
     bindE (failWhen (list_ex (\<lambda>tag. \<not> validRoutingLabel L tag 80) (req_RequiredTags r))
       (ErrText ''requirements.required_tags entries must be 1 to 80 bytes without surrounding whitespace or control characters'')) (\<lambda>_.
     bindE (failWhen (list_ex (\<lambda>node. \<not> validRoutingLabel L node 160) (req_PreferredNodes r))
       (ErrText ''requirements.preferred_nodes entries must be 1 to 160 bytes without surrounding whitespace or control characters'')) (\<lambda>_.
     bindE (failWhen (req_RouteBinding r \<noteq> [] \<and> \<not> validRouteBinding L (req_RouteBinding r))
       (ErrText ''requirements.route_binding must be a lowercase sha256 digest'')) (\<lambda>_.
     bindE (failWhen (req_SessionID r \<noteq> [] \<and> \<not> validRoutingLabel L (req_SessionID r) 128)
       (ErrText ''requirements.session_id must be at most 128 bytes without surrounding whitespace or control characters'')) (\<lambda>_.
     bindE (failWhen (req_Provider r \<noteq> [] \<and> (\<not> validRoutingLabel L (req_Provider r) 80 \<or> containsStr (req_Provider r) ''..''))
       (ErrText ''requirements.provider is invalid'')) (\<lambda>_.
     bindE (checkAdapterRequirements L r) (\<lambda>_.
     bindE (checkImageRequirements L r) (\<lambda>_.
     bindE (checkAudioRequirements L r) (\<lambda>_.
     validateExecutionPolicyRequirements r)))))))))))"

definition validateRequirements :: "goLib \<Rightarrow> ((string \<times> string) list \<Rightarrow> (string \<times> string) list) \<Rightarrow> string list \<Rightarrow> requirements \<Rightarrow> unit result" where
  "validateRequirements L order allowedTasks r =
     bindE (ValidateRequirements L order r) (\<lambda>_.
     failWhen (allowedTasks \<noteq> [] \<and> \<not> containsFold L allowedTasks (req_Task r))
       (ErrText (''task '' @ req_Task r @ '' is not allowed by relay policy'')))"

section \<open>What is let in\<close>

lemma boundedInt_range [simp]: "lo \<le> hi \<Longrightarrow> lo \<le> boundedInt v lo hi" "lo \<le> hi \<Longrightarrow> boundedInt v lo hi \<le> hi"
  by (simp_all add: boundedInt_def)

lemma cleanListLoop_spec:
  "distinct result \<Longrightarrow> (\<forall>v\<in>set result. v \<noteq> [] \<and> int (length v) \<le> limit) \<Longrightarrow> 0 \<le> limit \<Longrightarrow>
   distinct (cleanListLoop vs limit result) \<and> (\<forall>v\<in>set (cleanListLoop vs limit result). v \<noteq> [] \<and> int (length v) \<le> limit)
   \<and> length (cleanListLoop vs limit result) \<le> length result + length vs"
proof (induction vs arbitrary: result)
  case (Cons v vs)
  let ?next = "if cleanLabel v limit \<noteq> [] \<and> cleanLabel v limit \<notin> set result then result @ [cleanLabel v limit] else result"
  obtain nxt where nxt: "nxt = ?next" by simp
  have "distinct nxt" "\<forall>v\<in>set nxt. v \<noteq> [] \<and> int (length v) \<le> limit" "length nxt \<le> Suc (length result)"
    using Cons.prems cleanLabel_length [of limit v] by (auto simp: nxt)
  moreover have "cleanListLoop (v # vs) limit result = cleanListLoop vs limit nxt" by (simp add: nxt Let_def)
  ultimately show ?case using Cons.IH [of nxt] Cons.prems(3) by force
qed simp

lemma cleanList_spec:
  assumes "0 \<le> limit"
  shows "length (cleanList vs maximum limit) \<le> maximum" and "v \<in> set (cleanList vs maximum limit) \<Longrightarrow> v \<noteq> [] \<and> int (length v) \<le> limit"
  using cleanListLoop_spec [of "[]" limit "if maximum < length vs then take maximum vs else vs"] assms
  by (auto simp: cleanList_def split: if_splits)

lemma bindingsLoop_spec:
  "length acc < MaximumNodeListValues \<Longrightarrow> distinct acc \<Longrightarrow> (\<forall>b\<in>set acc. validRouteBinding L b) \<Longrightarrow>
   length (bindingsLoop L bs acc) \<le> MaximumNodeListValues \<and> distinct (bindingsLoop L bs acc) \<and> (\<forall>b\<in>set (bindingsLoop L bs acc). validRouteBinding L b)"
proof (induction bs arbitrary: acc)
  case (Cons b bs)
  let ?next = "if validRouteBinding L b \<and> b \<notin> set acc then acc @ [b] else acc"
  obtain nxt where nxt: "nxt = ?next" by simp
  have n: "length nxt \<le> MaximumNodeListValues" "distinct nxt" "\<forall>b\<in>set nxt. validRouteBinding L b"
    using Cons.prems by (auto simp: nxt)
  have "bindingsLoop L (b # bs) acc = (if length nxt = MaximumNodeListValues then nxt else bindingsLoop L bs nxt)" by (simp add: nxt Let_def)
  then show ?case using n Cons.IH [of nxt] by (cases "length nxt = MaximumNodeListValues") (simp_all add: le_neq_implies_less)
qed simp

lemma min_below [simp]: "min a (b :: u64) \<le> b" "min a (min b (c :: u64)) \<le> b" "min a (min b (c :: u64)) \<le> c"
  by (auto simp: min_def)

text \<open>The bounds that hold of every advertised inventory once it is scoped.\<close>

definition capsBounded :: "goLib \<Rightarrow> capabilities \<Rightarrow> bool" where
  "capsBounded L c \<longleftrightarrow>
     0 \<le> cap_QueueDepth c \<and> cap_QueueDepth c \<le> 1000000 \<and> 0 \<le> cap_AdapterBusy c \<and> cap_AdapterBusy c \<le> cap_AdapterEndpoints c
     \<and> cap_AdapterEndpoints c \<le> 256 \<and> 0 \<le> cap_CPUUtilization c \<and> cap_CPUUtilization c \<le> 100
     \<and> cap_MemoryFree c \<le> cap_MemoryTotal c \<and> cap_MemoryTotal c \<le> MaximumNodeHardwareBytes
     \<and> length (cap_GPUs c) \<le> 256 \<and> (\<forall>g\<in>set (cap_GPUs c). gpu_MemoryFree g \<le> gpu_MemoryTotal g \<and> gpu_MemoryTotal g \<le> MaximumNodeHardwareBytes
          \<and> 0 \<le> gpu_Utilization g \<and> gpu_Utilization g \<le> 100)
     \<and> length (cap_Models c) \<le> 4096 \<and> (\<forall>m\<in>set (cap_Models c). model_Name m \<noteq> [] \<and> int (length (model_Name m)) \<le> 160 \<and> 0 \<le> model_Size m \<and> 0 \<le> model_VRAM m)
     \<and> length (cap_Tasks c) \<le> 256 \<and> length (cap_Tags c) \<le> 256 \<and> length (cap_Groups c) \<le> 256
     \<and> length (cap_RouteBindings c) \<le> 256 \<and> (\<forall>b\<in>set (cap_RouteBindings c). validRouteBinding L b)
     \<and> length (cap_AdapterSessions c) \<le> 256 \<and> (\<forall>s\<in>set (cap_AdapterSessions c). ses_DefaultNewSession s \<longrightarrow> ses_CanCreateSession s \<and> 0 < ses_EndpointID s)"

lemma scope_bounded: "capsBounded L (scopeNodeCapabilities L c record)"
proof -
  let ?s = "scopeNodeCapabilities L c record"
  have models: "length (cap_Models ?s) \<le> 4096"
    "m \<in> set (cap_Models ?s) \<Longrightarrow> model_Name m \<noteq> [] \<and> int (length (model_Name m)) \<le> 160 \<and> 0 \<le> model_Size m \<and> 0 \<le> model_VRAM m" for m
  proof -
    have "length (cap_Models ?s) \<le> MaximumModelCapabilities"
      by (auto simp: scopeNodeCapabilities_def Let_def scopeModels_def intro: le_trans [OF length_filter_le])
    then show "length (cap_Models ?s) \<le> 4096" by (simp add: MaximumModelCapabilities_def)
    show "model_Name m \<noteq> [] \<and> int (length (model_Name m)) \<le> 160 \<and> 0 \<le> model_Size m \<and> 0 \<le> model_VRAM m" if "m \<in> set (cap_Models ?s)"
      using that cleanLabel_length [of 160] by (auto simp: scopeNodeCapabilities_def Let_def scopeModels_def scopeModel_def)
  qed
  have bindings: "length (cap_RouteBindings ?s) \<le> 256" "b \<in> set (cap_RouteBindings ?s) \<Longrightarrow> validRouteBinding L b" for b
    using bindingsLoop_spec [of "[]" L "cap_RouteBindings c"] by (auto simp: scopeNodeCapabilities_def Let_def MaximumNodeListValues_def)
  have gpus: "length (cap_GPUs ?s) \<le> 256" "g \<in> set (cap_GPUs ?s) \<Longrightarrow> gpu_MemoryFree g \<le> gpu_MemoryTotal g
      \<and> gpu_MemoryTotal g \<le> MaximumNodeHardwareBytes \<and> 0 \<le> gpu_Utilization g \<and> gpu_Utilization g \<le> 100" for g
    by (auto simp: scopeNodeCapabilities_def Let_def MaximumGPUCapabilities_def scopeGPU_def split: if_splits)
  have sessions: "length (cap_AdapterSessions ?s) \<le> 256"
    "s \<in> set (cap_AdapterSessions ?s) \<Longrightarrow> ses_DefaultNewSession s \<Longrightarrow> ses_CanCreateSession s \<and> 0 < ses_EndpointID s" for s
    by (auto simp: scopeNodeCapabilities_def Let_def MaximumAdapterSessions_def scopeSession_def split: if_splits)
  have lists: "length (cap_Tasks ?s) \<le> 256" "length (cap_Tags ?s) \<le> 256" "length (cap_Groups ?s) \<le> 256"
    using cleanList_spec(1) [of 80 _ MaximumNodeListValues]
    by (auto simp: scopeNodeCapabilities_def Let_def MaximumNodeListValues_def intersectFold_def intro: le_trans [OF length_filter_le])
  have rest: "0 \<le> cap_QueueDepth ?s" "cap_QueueDepth ?s \<le> 1000000" "0 \<le> cap_AdapterBusy ?s" "cap_AdapterBusy ?s \<le> cap_AdapterEndpoints ?s"
    "cap_AdapterEndpoints ?s \<le> 256" "0 \<le> cap_CPUUtilization ?s" "cap_CPUUtilization ?s \<le> 100" "cap_MemoryFree ?s \<le> cap_MemoryTotal ?s"
    "cap_MemoryTotal ?s \<le> MaximumNodeHardwareBytes"
    using boundedInt_range [of 0 "int MaximumAdapterSessions"] by (simp_all add: scopeNodeCapabilities_def Let_def MaximumAdapterSessions_def)
  show ?thesis unfolding capsBounded_def using models bindings gpus sessions lists rest by simp
qed

lemma scope_running: "0 \<le> cap_Running (scopeNodeCapabilities L c record)"
    "cap_Running (scopeNodeCapabilities L c record) \<le> cap_MaxConcurrent (scopeNodeCapabilities L c record)"
    "1 \<le> cap_MaxConcurrent (scopeNodeCapabilities L c record)"
  using boundedWorkerCapacity_range [of "cap_MaxConcurrent c"] boundedInt_range [of 0 "boundedWorkerCapacity (cap_MaxConcurrent c)"]
  by (auto simp: scopeNodeCapabilities_def Let_def)


lemma heartbeat_caps:
  "heartbeatNode L now record (Some advertised) worker node = (node', worker') \<Longrightarrow>
   capsBounded L (node_Capabilities node') \<and> 0 \<le> cap_Running (node_Capabilities node')
   \<and> cap_MaxConcurrent (node_Capabilities node') = wc_capacity worker' \<and> int (length (wc_inFlight worker')) \<le> cap_Running (node_Capabilities node')"
  using scope_bounded [of L advertised "record"] scope_running(1) [of L advertised "record"]
  by (auto simp: heartbeatNode_def Let_def load_def updateCapacity_def seenNode_def capsBounded_def)

text \<open>C19: no heartbeat can push a worker's placement score out of range. After a heartbeat with any
  advertised capabilities, if the node is eligible its score lies between -58 and a bound given by the
  largest queue depth and the latency penalty of the policy; the node shows at least the slots in use and
  exactly the capacity of its connection.\<close>

theorem heartbeat_score_in_range:
  assumes "heartbeatNode L seen record (Some advertised) worker node = (node', worker')" and "eligibleNode L now r owner node'"
  shows "- 58 \<le> totalScore (scoreComponents L now (normalizePlacementPolicy p) fastest r e health perf node')
    \<and> totalScore (scoreComponents L now (normalizePlacementPolicy p) fastest r e health perf node') < 20000197 + pp_MaxLatencyPenalty (normalizePlacementPolicy p)
    \<and> int (length (wc_inFlight worker')) \<le> cap_Running (node_Capabilities node') \<and> cap_MaxConcurrent (node_Capabilities node') = wc_capacity worker'"
proof -
  note c = heartbeat_caps [OF assms(1)]
  have depth: "0 \<le> cap_QueueDepth (node_Capabilities node')" "cap_QueueDepth (node_Capabilities node') \<le> 1000000"
    and busy: "0 \<le> cap_AdapterBusy (node_Capabilities node')" "cap_AdapterBusy (node_Capabilities node') \<le> cap_AdapterEndpoints (node_Capabilities node')"
    using c by (auto simp: capsBounded_def)
  note range = score_range [OF assms(2) _ depth(1) busy refl, of p fastest e health perf]
  have "real_of_int (cap_QueueDepth (node_Capabilities node')) \<le> 1000000" using depth(2) by simp
  then show ?thesis using range c by simp
qed

lemma labelsLoop_iff:
  "requirementLabelsLoop L labels = Inr u \<longleftrightarrow> (\<forall>(name, value)\<in>set labels. (name \<noteq> ''task'' \<and> value = []) \<or> validRoutingLabel L value 160)"
  by (induction L labels rule: requirementLabelsLoop.induct) (auto simp: result_simps)

lemma labels_order:
  assumes "set (order (requirementLabels r)) = set (requirementLabels r)" and "set (order' (requirementLabels r)) = set (requirementLabels r)"
  shows "requirementLabelsLoop L (order (requirementLabels r)) = Inr () \<longleftrightarrow> requirementLabelsLoop L (order' (requirementLabels r)) = Inr ()"
  unfolding labelsLoop_iff assms ..

lemma image_ok:
  "checkImageRequirements L r = Inr () \<Longrightarrow> 0 \<le> req_InputImageMaxBytes r \<and> req_InputImageMaxBytes r \<le> req_InputImageBytes r
    \<and> req_InputImageBytes r \<le> 8388608 \<and> 0 \<le> req_InputImageCount r \<and> req_InputImageCount r \<le> 12
    \<and> (req_InputImageCount r = 0 \<longrightarrow> req_InputImageBytes r = 0) \<and> req_MinFreeVRAM r \<le> MaximumNodeHardwareBytes
    \<and> (0 < req_InputImageCount r \<longrightarrow> req_Vision r)"
  by (auto simp: checkImageRequirements_def result_simps not_less)

lemma audio_ok:
  "checkAudioRequirements L r = Inr () \<Longrightarrow> 0 \<le> req_InputAudioBytes r \<and> req_InputAudioBytes r \<le> 8388608
    \<and> (0 < req_InputAudioBytes r \<longleftrightarrow> equalFold L (req_Task r) ''speech_to_text'') \<and> (0 < req_InputAudioBytes r \<longleftrightarrow> 0 < req_InputAudioDurationMS r)
    \<and> (0 < req_InputAudioBytes r \<longrightarrow> req_InputImageCount r = 0)"
  by (auto simp: checkAudioRequirements_def result_simps Let_def not_less split: if_splits)

lemma adapter_ok:
  "checkAdapterRequirements L r = Inr () \<Longrightarrow> 0 \<le> req_AdapterEndpointID r
    \<and> (req_AdapterProfile r \<noteq> [] \<or> req_Reasoning r \<noteq> [] \<or> 0 < req_AdapterEndpointID r \<or> req_AdapterPrincipal r \<noteq> [] \<or> req_AdapterFreshSession r
         \<or> req_AdapterEphemeralSession r \<longrightarrow> equalFold L (req_Provider r) ''adapter'')"
  by (auto simp: checkAdapterRequirements_def result_simps Let_def not_less)

text \<open>the verdict on the requirements of a job does not depend on the order in which a map is walked,
  and what is accepted is consistent: image and audio sizes are within their limits and never combined,
  audio comes exactly with a transcription task and a duration, images only with a vision request, and
  every adapter option only with the adapter provider.\<close>

theorem accepted_requirements_are_consistent:
  assumes "set (order (requirementLabels r)) = set (requirementLabels r)" and "set (order' (requirementLabels r)) = set (requirementLabels r)"
    and "validateRequirements L order allowedTasks r = Inr ()"
  shows "validateRequirements L order' allowedTasks r = Inr () \<and> (allowedTasks = [] \<or> containsFold L allowedTasks (req_Task r))
    \<and> 0 \<le> req_InputImageMaxBytes r \<and> req_InputImageMaxBytes r \<le> req_InputImageBytes r \<and> req_InputImageBytes r \<le> 8388608
    \<and> (req_InputImageCount r = 0 \<longrightarrow> req_InputImageBytes r = 0) \<and> (0 < req_InputImageCount r \<longrightarrow> req_Vision r \<and> req_InputAudioBytes r = 0)
    \<and> (0 < req_InputAudioBytes r \<longleftrightarrow> equalFold L (req_Task r) ''speech_to_text'') \<and> (0 < req_InputAudioBytes r \<longleftrightarrow> 0 < req_InputAudioDurationMS r)
    \<and> (req_AdapterProfile r \<noteq> [] \<or> req_Reasoning r \<noteq> [] \<or> 0 < req_AdapterEndpointID r \<or> req_AdapterPrincipal r \<noteq> [] \<or> req_AdapterFreshSession r
         \<or> req_AdapterEphemeralSession r \<longrightarrow> equalFold L (req_Provider r) ''adapter'')"
proof -
  have parts: "ValidateRequirements L order r = Inr ()" "allowedTasks = [] \<or> containsFold L allowedTasks (req_Task r)"
    using assms(3) by (auto simp: validateRequirements_def result_simps)
  have checks: "checkAdapterRequirements L r = Inr ()" "checkImageRequirements L r = Inr ()" "checkAudioRequirements L r = Inr ()"
    and labels: "requirementLabelsLoop L (order (requirementLabels r)) = Inr ()"
    using parts(1) unfolding ValidateRequirements_def by (auto simp: result_simps)
  have "ValidateRequirements L order' r = Inr ()"
    using parts(1) labels labels_order [of order r order' L, OF assms(1,2)] unfolding ValidateRequirements_def by simp
  then have "validateRequirements L order' allowedTasks r = Inr ()" using parts(2) by (auto simp: validateRequirements_def)
  moreover have "req_InputAudioBytes r = 0" if "0 < req_InputImageCount r" using audio_ok [OF checks(3)] that by linarith
  ultimately show ?thesis using image_ok [OF checks(2)] audio_ok [OF checks(3)] adapter_ok [OF checks(1)] parts(2) by blast
qed

section \<open>Witnesses\<close>

lemma free_matches: "matchesNode plainLib node zeroRequirements"
  by (simp add: matchesNode_def matchesSession_def matchesModel_def needsAdapterSession_def adapterSlotsBusy_def explicitModel_def
      zeroRequirements_def equalFold_ascii asciiLower_def Let_def)

theorem heartbeat_score_in_range_witness:
  "\<exists>node' worker'. heartbeatNode plainLib 100 (plainRecord ''t'' ''node'' ''b'' [] 1) (Some (zeroCapabilities\<lparr>cap_Running := - 7\<rparr>)) (newWorkerConnection 4 []) idleWorker
       = (node', worker')
     \<and> - 58 \<le> totalScore (scoreComponents plainLib 100 (normalizePlacementPolicy DefaultPlacementPolicy) 0 zeroRequirements 0 None None node')"
proof -
  obtain node' worker' where h: "heartbeatNode plainLib 100 (plainRecord ''t'' ''node'' ''b'' [] 1) (Some (zeroCapabilities\<lparr>cap_Running := - 7\<rparr>))
      (newWorkerConnection 4 []) idleWorker = (node', worker')" by fastforce
  have node': "node_LastSeen node' = 100" "node_Connected node'" "\<not> node_Draining node'" "node_RoutingHealth node' = []"
    "cap_Running (node_Capabilities node') = 0" "cap_MaxConcurrent (node_Capabilities node') = 1"
    using h by (auto simp: heartbeatNode_def Let_def load_def seenNode_def idleWorker_def zeroNode_def zeroCapabilities_def newWorkerConnection_def
      updateCapacity_def scopeNodeCapabilities_def boundedInt_def boundedWorkerCapacity_def MaximumWorkerConcurrency_def)
  have "routingHealthForOwnerAt plainLib node' zeroRequirements [] 100 = None" using node'(4) by (simp add: routingHealthForOwnerAt_def)
  moreover have "nonNegativeAge 100 (node_LastSeen node') \<le> NodeFreshnessWindow"
    using node'(1) by (simp add: nonNegativeAge_def NodeFreshnessWindow_def timeSub_def second_def millisecond_def)
  moreover have "cap_Running (node_Capabilities node') < nodeCapacity node'" using node'(5,6) by (simp add: nodeCapacity_def)
  ultimately have "eligibleNode plainLib 100 zeroRequirements [] node'" using node'(2,3) free_matches by (simp add: eligibleNode_def)
  from heartbeat_score_in_range [OF h this] h show ?thesis by blast
qed

theorem accepted_requirements_are_consistent_witness:
  "validateRequirements plainLib rev [''chat''] (zeroRequirements\<lparr>req_Task := ''chat''\<rparr>) = Inr ()"
proof -
  let ?r = "zeroRequirements\<lparr>req_Task := ''chat''\<rparr>"
  have "ValidateRequirements plainLib (\<lambda>xs. xs) ?r = Inr ()" by code_simp
  moreover have "containsFold plainLib [''chat''] (req_Task ?r)" by code_simp
  ultimately have "validateRequirements plainLib (\<lambda>xs. xs) [''chat''] ?r = Inr ()" by (simp add: validateRequirements_def)
  from accepted_requirements_are_consistent [OF _ _ this, of rev] show ?thesis by simp
qed

end
