(* ===== verification/Interactive_Capacity.thy ===== *)
theory Interactive_Capacity
  imports Node_Intake Fair_Queue Store_Invariant
begin

text \<open>
  Slots that an operator keeps for interactive work (\<open>internal/cluster/interactive_capacity.go\<close>). A scope
  reserves slots of the workers of a group and task; batch jobs may borrow them while no interactive job
  waits for the worker. The demand is read from the interactive prefix of the queue, at most 4096 entries
  of it. The lemmas show that an idle verdict is never wrong, that batch work leaves the reserved slots
  free otherwise, and that interactive work is not held back.
\<close>

section \<open>Policy\<close>

record interactiveCapacityScope =
  scope_Group :: string
  scope_Task :: string
  scope_Provider :: string
  scope_Slots :: int
  scope_BorrowIdle :: bool

record interactiveCapacity =
  ic_MinPriority :: int
  ic_Scopes :: "interactiveCapacityScope list"

fun validateScopes :: "goLib \<Rightarrow> interactiveCapacityScope list \<Rightarrow> unit result" where
  "validateScopes L [] = Inr ()"
| "validateScopes L (scope # rest) =
     bindE (failWhen (trimSpace (scope_Group scope) = [] \<or> trimSpace (scope_Task scope) = [] \<or> scope_Slots scope < 1
         \<or> scope_Slots scope > MaximumWorkerConcurrency)
       (ErrText ''interactive_capacity scopes require group, task and slots 1..maximum worker concurrency'')) (\<lambda>_.
     bindE (validatePolicyLabels L ''interactive_capacity scope'' [scope_Group scope]) (\<lambda>_.
     bindE (validatePolicyLabels L ''interactive_capacity scope'' [scope_Task scope]) (\<lambda>_.
     bindE (if scope_Provider scope \<noteq> [] then validatePolicyLabels L ''interactive_capacity provider'' [scope_Provider scope] else Inr ()) (\<lambda>_.
     validateScopes L rest))))"

definition validateInteractiveCapacity :: "goLib \<Rightarrow> interactiveCapacity \<Rightarrow> unit result" where
  "validateInteractiveCapacity L p =
     (if ic_Scopes p = [] then Inr ()
      else bindE (failWhen (length (ic_Scopes p) > 32 \<or> ic_MinPriority p < 1 \<or> ic_MinPriority p > 100)
             (ErrText ''interactive_capacity requires min_priority 1..100 and at most 32 scopes'')) (\<lambda>_.
           validateScopes L (ic_Scopes p)))"

definition capacityDemandNode :: "node \<Rightarrow> node" where
  "capacityDemandNode node =
     node\<lparr>node_Capabilities := (node_Capabilities node)\<lparr>cap_AdapterBusy := 0,
       cap_GPUs := map (\<lambda>g. g\<lparr>gpu_MemoryFree := gpu_MemoryTotal g\<rparr>) (cap_GPUs (node_Capabilities node))\<rparr>\<rparr>"

definition scopeRequirements :: "interactiveCapacityScope \<Rightarrow> requirements" where
  "scopeRequirements scope = zeroRequirements\<lparr>req_Group := scope_Group scope, req_Task := scope_Task scope, req_Provider := scope_Provider scope\<rparr>"

definition scopeMatches :: "goLib \<Rightarrow> node \<Rightarrow> interactiveCapacityScope \<Rightarrow> bool" where
  "scopeMatches L node scope \<longleftrightarrow>
     containsFold L (cap_Groups (node_Capabilities node)) (scope_Group scope)
     \<and> matchesNode L (capacityDemandNode node) (scopeRequirements scope)"

definition scopeFor :: "goLib \<Rightarrow> interactiveCapacity \<Rightarrow> node \<Rightarrow> int \<times> bool" where
  "scopeFor L p node =
     (let (slots, borrow) = foldl (\<lambda>(slots, borrow) scope.
            if \<not> scopeMatches L node scope then (slots, borrow)
            else (max slots (scope_Slots scope), borrow \<and> scope_BorrowIdle scope)) (0, True) (ic_Scopes p)
      in (min slots (boundedWorkerCapacity (cap_MaxConcurrent (node_Capabilities node))), borrow))"

section \<open>Demand\<close>

definition maximumInteractiveDemandScan :: nat where "maximumInteractiveDemandScan = 4096"

record interactiveDemand =
  dem_pending :: "string \<Rightarrow> bool"
  dem_unknown :: bool
  dem_jobs :: "job list"

definition demandMatches :: "goLib \<Rightarrow> queueEntry \<Rightarrow> node \<Rightarrow> bool" where
  "demandMatches L entry node \<longleftrightarrow>
     \<not> (qe_AssignedNode entry \<noteq> [] \<and> qe_AssignedNode entry \<noteq> node_ID node)
     \<and> \<not> (node_PoolCertificate node \<noteq> None \<and> \<not> qe_PoolAuthorized entry)
     \<and> matchesNode L node (qe_Requirements entry)"

fun demandLoop ::
  "goLib \<Rightarrow> job cell bucket \<Rightarrow> int \<Rightarrow> node list \<Rightarrow> nat \<Rightarrow> queueValue bucket \<Rightarrow> (string \<Rightarrow> bool) \<Rightarrow> job list \<Rightarrow> ((string \<Rightarrow> bool) \<times> bool \<times> job list) result" where
  "demandLoop L jobs minPriority demandNodes scanned [] pending projections = Inr (pending, False, projections)"
| "demandLoop L jobs minPriority demandNodes scanned ((_, value) # rest) pending projections =
     bindE (queueEntryFromValue jobs value) (\<lambda>entry.
     if qe_Priority entry < minPriority then Inr (pending, False, projections)
     else if scanned = maximumInteractiveDemandScan then Inr (pending, True, projections)
     else let matched = filter (demandMatches L entry) demandNodes in
          demandLoop L jobs minPriority demandNodes (scanned + 1) rest
            (\<lambda>nodeID. pending nodeID \<or> nodeID \<in> node_ID ` set matched)
            (if matched \<noteq> [] then projections @ [projectEntry entry] else projections))"

definition interactiveDemandSnapshot ::
  "goLib \<Rightarrow> node list \<Rightarrow> interactiveCapacity \<Rightarrow> (int \<Rightarrow> string) \<Rightarrow> store \<Rightarrow> interactiveDemand result" where
  "interactiveDemandSnapshot L nodes policy afterOwner st =
     (let nothing = \<lparr>dem_pending = (\<lambda>_. False), dem_unknown = False, dem_jobs = []\<rparr>;
          demandNodes = map capacityDemandNode (filter (\<lambda>node. fst (scopeFor L policy node) > 0) nodes)
      in if ic_Scopes policy = [] then Inr nothing
         else if demandNodes = [] then Inr nothing
         else bindE (demandLoop L (st_jobs st) (ic_MinPriority policy) demandNodes 0 (st_queue st) (\<lambda>_. False) []) (\<lambda>(pending, unknown, projections).
              bindE (fairResult (fairQueueWindow projections 200 afterOwner)) (\<lambda>jobs.
              Inr \<lparr>dem_pending = pending, dem_unknown = unknown, dem_jobs = jobs\<rparr>)))"

fun mergeLoop :: "string set \<Rightarrow> job list \<Rightarrow> job list \<Rightarrow> job list" where
  "mergeLoop seen [] merged = merged"
| "mergeLoop seen (job # rest) merged =
     (if job_ID job \<in> seen then mergeLoop seen rest merged else mergeLoop (insert (job_ID job) seen) rest (merged @ [job]))"

definition mergeInteractiveQueue :: "job list \<Rightarrow> job list \<Rightarrow> (int \<Rightarrow> string) \<Rightarrow> job list option" where
  "mergeInteractiveQueue jobs interactive owners =
     (let merged = mergeLoop {} (interactive @ jobs) [] in fairQueueWindow merged (length merged) owners)"

section \<open>Ranking\<close>

definition interactiveCapacityLimit :: "node \<Rightarrow> interactiveCapacity \<Rightarrow> int \<Rightarrow> interactiveDemand \<Rightarrow> int \<Rightarrow> bool \<Rightarrow> int \<times> string" where
  "interactiveCapacityLimit node policy priority demand slots borrow =
     (let capacity = boundedWorkerCapacity (cap_MaxConcurrent (node_Capabilities node)) in
      if priority \<ge> ic_MinPriority policy then (capacity, ''interactive'')
      else if borrow \<and> \<not> dem_unknown demand \<and> \<not> dem_pending demand (node_ID node) then (capacity, ''borrow_idle'')
      else (min capacity (capacity - slots + node_interactiveRunning node),
            if borrow \<and> dem_unknown demand then ''demand_unknown''
            else if borrow \<and> dem_pending demand (node_ID node) then ''reclaim'' else ''protected''))"

definition constrainCandidate :: "string \<Rightarrow> string \<Rightarrow> routingCandidateDecision \<Rightarrow> routingCandidateDecision" where
  "constrainCandidate requiredSessionNode assignedNode c =
     (if \<not> cand_Eligible c then c
      else let c = (if requiredSessionNode \<noteq> [] \<and> cand_NodeID c \<noteq> requiredSessionNode
                    then c\<lparr>cand_Eligible := False, cand_RejectionReasons := appendUniqueReason (cand_RejectionReasons c) ''session_affinity_node_mismatch''\<rparr>
                    else c)
           in if assignedNode \<noteq> [] \<and> cand_NodeID c \<noteq> assignedNode
              then c\<lparr>cand_Eligible := False, cand_RejectionReasons := appendUniqueReason (cand_RejectionReasons c) ''sealed_assignment_node_mismatch''\<rparr>
              else c)"

definition applyRoutingNodeConstraints :: "string \<Rightarrow> string \<Rightarrow> routingDecision \<Rightarrow> routingDecision" where
  "applyRoutingNodeConstraints requiredSessionNode assignedNode d =
     (let candidates = sortRoutingCandidateDecisions (map (constrainCandidate requiredSessionNode assignedNode) (dec_Candidates d)) in
      case List.find cand_Eligible candidates of
        None \<Rightarrow> d\<lparr>dec_Candidates := candidates, dec_SelectedNodeID := [], dec_SelectedNodeName := []\<rparr>
      | Some c \<Rightarrow> d\<lparr>dec_Candidates := candidates, dec_SelectedNodeID := cand_NodeID c, dec_SelectedNodeName := cand_NodeName c\<rparr>)"

fun rejectFirst :: "string \<Rightarrow> string \<Rightarrow> routingCandidateDecision list \<Rightarrow> routingCandidateDecision list" where
  "rejectFirst nodeID reason [] = []"
| "rejectFirst nodeID reason (c # rest) =
     (if cand_NodeID c \<noteq> nodeID then c # rejectFirst nodeID reason rest
      else c\<lparr>cand_Eligible := False, cand_RejectionReasons := appendUniqueReason (cand_RejectionReasons c) reason\<rparr> # rest)"

definition rejectRoutingCandidate :: "string \<Rightarrow> string \<Rightarrow> routingDecision \<Rightarrow> routingDecision" where
  "rejectRoutingCandidate nodeID reason d =
     applyRoutingNodeConstraints [] [] (d\<lparr>dec_Candidates := rejectFirst nodeID reason (dec_Candidates d)\<rparr>)"

definition nodeByID :: "node list \<Rightarrow> string \<Rightarrow> node" where
  "nodeByID nodes nodeID = (case List.find (\<lambda>n. node_ID n = nodeID) (rev nodes) of None \<Rightarrow> zeroNode | Some n \<Rightarrow> n)"

definition reserveCandidate ::
  "goLib \<Rightarrow> node list \<Rightarrow> interactiveCapacity \<Rightarrow> int \<Rightarrow> interactiveDemand \<Rightarrow> routingCandidateDecision \<Rightarrow> routingCandidateDecision" where
  "reserveCandidate L nodes policy priority demand item =
     (let node = nodeByID nodes (cand_NodeID item); (slots, borrow) = scopeFor L policy node in
      if slots = 0 then item
      else let (limit, outcome) = interactiveCapacityLimit node policy priority demand slots borrow;
               item = item\<lparr>cand_ReservedSlots := slots, cand_ReservationOutcome := outcome\<rparr>
           in if cap_Running (node_Capabilities node) \<ge> limit \<and> priority < ic_MinPriority policy
              then item\<lparr>cand_Eligible := False, cand_RejectionReasons := appendUniqueReason (cand_RejectionReasons item) ''interactive_capacity_reserved''\<rparr>
              else item)"

text \<open>The map \<open>allowed\<close>: the last decision of a node counts, a node without one is not allowed.\<close>

definition allowedNode :: "node list \<Rightarrow> routingCandidateDecision list \<Rightarrow> string \<Rightarrow> bool" where
  "allowedNode nodes items nodeID =
     (case List.find (\<lambda>item. node_ID (nodeByID nodes (cand_NodeID item)) = nodeID) (rev items) of None \<Rightarrow> False | Some item \<Rightarrow> cand_Eligible item)"

definition rankWithInteractiveCapacity ::
  "goLib \<Rightarrow> node list \<Rightarrow> requirements \<Rightarrow> u64 \<Rightarrow> string \<Rightarrow> gotime \<Rightarrow> placementPolicy \<Rightarrow> interactiveCapacity \<Rightarrow> int \<Rightarrow> interactiveDemand \<Rightarrow>
   candidate list \<times> routingDecision" where
  "rankWithInteractiveCapacity L nodes r estimate owner now placement policy priority demand =
     (let (candidates, decision) = rankWithDecisionForOwnerPolicy L nodes r estimate owner now placement in
      if ic_Scopes policy = [] then (candidates, decision)
      else let items = map (reserveCandidate L nodes policy priority demand) (dec_Candidates decision);
               filtered = filter (\<lambda>c. allowedNode nodes items (node_ID (cd_Node c))) candidates
           in (filtered, applyRoutingNodeConstraints [] [] (decision\<lparr>dec_Candidates := items\<rparr>)))"

section \<open>The queue is in order of priority\<close>

lemma queueKey_priority:
  assumes "goodEntry (queueEntryOf a)" and "goodEntry (queueEntryOf b)" and "queueKey a < queueKey b"
  shows "job_Priority b \<le> job_Priority a"
proof -
  have key: "\<exists>rest. queueKey j = digits 3 (nat (100 - job_Priority j)) @ rest" "nat (100 - job_Priority j) < 10 ^ 3"
    if "goodEntry (queueEntryOf j)" for j
  proof -
    have "wrap64 (100 - job_Priority j) = 100 - job_Priority j"
      using that by (intro wrap64_id) (auto simp: goodEntry_queueEntryOf minInt64_def maxInt64_def)
    then show "\<exists>rest. queueKey j = digits 3 (nat (100 - job_Priority j)) @ rest" "nat (100 - job_Priority j) < 10 ^ 3"
      using that by (auto simp: queueKey_def padDecimal_digits goodEntry_queueEntryOf)
  qed
  obtain ra where ra: "queueKey a = digits 3 (nat (100 - job_Priority a)) @ ra" using key(1) [OF assms(1)] by blast
  obtain rb where rb: "queueKey b = digits 3 (nat (100 - job_Priority b)) @ rb" using key(1) [OF assms(2)] by blast
  have "nat (100 - job_Priority a) \<le> nat (100 - job_Priority b)"
    using assms(3) digits_less [of "nat (100 - job_Priority a)" 3 "nat (100 - job_Priority b)", OF key(2) [OF assms(1)] key(2) [OF assms(2)]]
    by (auto simp: ra rb list_less_append_same)
  then show ?thesis using assms(1,2) by (auto simp: goodEntry_queueEntryOf)
qed

lemma queue_entry_job:
  assumes "storeInv st" and "(k, v) \<in> set (st_queue st)"
  shows "\<exists>j. v = QEntry (queueEntryOf j) \<and> k = queueKey j \<and> bget (st_jobs st) (job_ID j) = Some (Val j) \<and> job_Status j = JobQueued
    \<and> goodEntry (queueEntryOf j)"
proof -
  have inv: "queueInv st" using assms(1) by (simp add: storeInv_def)
  then have "bget (st_queue st) k = Some v" using assms(2) bordered_get by (fastforce simp: queueInv_def)
  then obtain e where e: "v = QEntry e" "bget (st_queue st) k = Some (QEntry e)" using queueInv_entry [OF inv] by blast
  then have "queuedEntry st (qe_JobID e) = Some (k, e)" using queuedEntry_iff [OF inv] by blast
  then have "expectedEntry (bget (st_jobs st) (qe_JobID e)) = Some (k, e)" using storeInv_queued [OF assms(1)] by metis
  then obtain j where j: "bget (st_jobs st) (qe_JobID e) = Some (Val j)" "job_Status j = JobQueued" "k = queueKey j" "e = queueEntryOf j"
    by (auto simp: expectedEntry_def split: option.splits cell.splits if_splits)
  have wf: "jobWF (qe_JobID e) j" using storeInv_job [OF assms(1) j(1)] by blast
  then have "job_ID j = qe_JobID e" by (simp add: jobWF_def)
  then show ?thesis using e(1) j jobWF_good [OF wf] by metis
qed

text \<open>The entries of a queue bucket from one place on, none of higher priority than one before it.\<close>

definition priorityOrdered :: "queueValue bucket \<Rightarrow> bool" where
  "priorityOrdered q \<longleftrightarrow> readable q \<and> sorted_wrt (\<lambda>a b. qe_Priority (valueEntry (snd b)) \<le> qe_Priority (valueEntry (snd a))) q"

lemma queue_priorityOrdered:
  assumes "storeInv st"
  shows "priorityOrdered (st_queue st)"
proof -
  have inv: "queueInv st" using assms by (simp add: storeInv_def)
  have "sorted_wrt (\<lambda>a b. fst a < fst b) (st_queue st)" using inv by (simp add: queueInv_def bordered_def sorted_wrt_map)
  then have "sorted_wrt (\<lambda>a b. qe_Priority (valueEntry (snd b)) \<le> qe_Priority (valueEntry (snd a))) (st_queue st)"
  proof (rule sorted_wrt_mono_rel [rotated])
    fix a b assume ab: "a \<in> set (st_queue st)" "b \<in> set (st_queue st)" "fst a < fst b"
    obtain i where i: "snd a = QEntry (queueEntryOf i)" "fst a = queueKey i" "goodEntry (queueEntryOf i)"
      using queue_entry_job [OF assms, of "fst a" "snd a"] ab(1) by auto
    obtain j where j: "snd b = QEntry (queueEntryOf j)" "fst b = queueKey j" "goodEntry (queueEntryOf j)"
      using queue_entry_job [OF assms, of "fst b" "snd b"] ab(2) by auto
    show "qe_Priority (valueEntry (snd b)) \<le> qe_Priority (valueEntry (snd a))"
      using queueKey_priority [OF i(3) j(3)] ab(3) i(1,2) j(1,2) by simp
  qed
  then show ?thesis using queueInv_readable [OF inv] by (simp add: priorityOrdered_def)
qed

section \<open>Demand is complete\<close>

lemma readEntry: "goodEntry e \<Longrightarrow> queueEntryFromValue jobs (QEntry e) = Inr e"
  by (simp add: queueEntryFromValue_def checkQueueEntry_good)

lemma demandLoop_spec:
  assumes "priorityOrdered q"
  shows "\<exists>pending' unknown projections'. demandLoop L jobs m nodes k q pending projections = Inr (pending', unknown, projections')
     \<and> (\<not> unknown \<longrightarrow> (\<forall>nodeID. pending' nodeID \<longleftrightarrow> pending nodeID \<or>
          (\<exists>v\<in>snd ` set q. m \<le> qe_Priority (valueEntry v) \<and> (\<exists>n\<in>set nodes. node_ID n = nodeID \<and> demandMatches L (valueEntry v) n))))"
  using assms
proof (induction q arbitrary: k pending projections)
  case (Cons kv q)
  obtain key e where kv: "kv = (key, QEntry e)" and good: "goodEntry e"
    using Cons.prems by (cases kv) (auto simp: priorityOrdered_def readable_Cons)
  have rest: "priorityOrdered q" and below: "\<forall>x\<in>set q. qe_Priority (valueEntry (snd x)) \<le> qe_Priority e"
    using Cons.prems by (auto simp: priorityOrdered_def kv readable_Cons)
  consider "qe_Priority e < m" | "m \<le> qe_Priority e" "k = maximumInteractiveDemandScan" | "m \<le> qe_Priority e" "k \<noteq> maximumInteractiveDemandScan" by linarith
  then show ?case
  proof cases
    case 1
    then have "\<forall>x\<in>set (kv # q). qe_Priority (valueEntry (snd x)) < m" using below by (auto simp: kv)
    then show ?thesis using 1 readEntry [OF good] by (fastforce simp: kv)
  next
    case 2
    then have "demandLoop L jobs m nodes k (kv # q) pending projections = Inr (pending, True, projections)"
      using readEntry [OF good] by (simp add: kv)
    then show ?thesis by blast
  next
    case 3
    let ?matched = "filter (demandMatches L e) nodes"
    let ?pending = "\<lambda>nodeID. pending nodeID \<or> nodeID \<in> node_ID ` set ?matched"
    let ?projections = "if ?matched \<noteq> [] then projections @ [projectEntry e] else projections"
    have step: "demandLoop L jobs m nodes k (kv # q) pending projections = demandLoop L jobs m nodes (k + 1) q ?pending ?projections"
      using 3 readEntry [OF good] by (simp add: kv Let_def)
    from Cons.IH [OF rest, of "k + 1" ?pending ?projections] obtain pending' unknown projections' where
      eq: "demandLoop L jobs m nodes (k + 1) q ?pending ?projections = Inr (pending', unknown, projections')" and
      spec: "\<not> unknown \<longrightarrow> (\<forall>nodeID. pending' nodeID \<longleftrightarrow> ?pending nodeID \<or>
          (\<exists>v\<in>snd ` set q. m \<le> qe_Priority (valueEntry v) \<and> (\<exists>n\<in>set nodes. node_ID n = nodeID \<and> demandMatches L (valueEntry v) n)))" by blast
    have "pending' nodeID \<longleftrightarrow> pending nodeID \<or>
          (\<exists>v\<in>snd ` set (kv # q). m \<le> qe_Priority (valueEntry v) \<and> (\<exists>n\<in>set nodes. node_ID n = nodeID \<and> demandMatches L (valueEntry v) n))"
      if "\<not> unknown" for nodeID
      using spec that 3(1) by (auto simp: kv)
    then show ?thesis unfolding step eq by blast
  qed
qed (auto intro: exI [of _ False])

lemma demand_total:
  assumes "storeInv st"
  shows "\<exists>d. interactiveDemandSnapshot L nodes policy owners st = Inr d"
  using demandLoop_spec [OF queue_priorityOrdered [OF assms], of L "st_jobs st" "ic_MinPriority policy"
      "map capacityDemandNode (filter (\<lambda>node. fst (scopeFor L policy node) > 0) nodes)" 0 "\<lambda>_. False" "[]"]
  by (auto simp: interactiveDemandSnapshot_def Let_def fairQueueWindow_closed fairResult_def)

lemma capacityDemandNode_ID [simp]: "node_ID (capacityDemandNode n) = node_ID n"
  by (simp add: capacityDemandNode_def)

lemma demand_complete:
  assumes "storeInv st" and "interactiveDemandSnapshot L nodes policy owners st = Inr d" and "\<not> dem_unknown d"
    and "ic_Scopes policy \<noteq> []" and "node \<in> set nodes" and "0 < fst (scopeFor L policy node)"
    and "bget (st_jobs st) i = Some (Val j)" and "job_Status j = JobQueued" and "ic_MinPriority policy \<le> job_Priority j"
    and "demandMatches L (queueEntryOf j) (capacityDemandNode node)"
  shows "dem_pending d (node_ID node)"
proof -
  let ?nodes = "map capacityDemandNode (filter (\<lambda>node. fst (scopeFor L policy node) > 0) nodes)"
  from demandLoop_spec [OF queue_priorityOrdered [OF assms(1)], of L "st_jobs st" "ic_MinPriority policy" ?nodes 0 "\<lambda>_. False" "[]"]
  obtain pending unknown projections where
    loop: "demandLoop L (st_jobs st) (ic_MinPriority policy) ?nodes 0 (st_queue st) (\<lambda>_. False) [] = Inr (pending, unknown, projections)"
    and spec: "\<not> unknown \<longrightarrow> (\<forall>nodeID. pending nodeID \<longleftrightarrow>
          (\<exists>v\<in>snd ` set (st_queue st). ic_MinPriority policy \<le> qe_Priority (valueEntry v) \<and> (\<exists>n\<in>set ?nodes. node_ID n = nodeID \<and> demandMatches L (valueEntry v) n)))"
    by blast
  have node: "capacityDemandNode node \<in> set ?nodes" using assms(5,6) by simp
  then have "?nodes \<noteq> []" by (metis empty_iff list.set(1))
  then have d: "dem_pending d = pending" "dem_unknown d = unknown"
    using assms(2,4) loop by (auto simp: interactiveDemandSnapshot_def Let_def result_simps)
  have inv: "queueInv st" using assms(1) by (simp add: storeInv_def)
  have "queuedEntry st i = Some (queueKey j, queueEntryOf j)" using storeInv_queued [OF assms(1)] assms(7,8) by (simp add: expectedEntry_def)
  then have "bget (st_queue st) (queueKey j) = Some (QEntry (queueEntryOf j))" using queuedEntry_iff [OF inv] by blast
  then have "(queueKey j, QEntry (queueEntryOf j)) \<in> set (st_queue st)" by (auto simp: bget_def dest: map_of_SomeD)
  then have "QEntry (queueEntryOf j) \<in> snd ` set (st_queue st)" by force
  then show ?thesis using spec assms(3,9,10) node d by (metis capacityDemandNode_ID queueEntryOf_fields(3) valueEntry.simps(1))
qed

section \<open>Batch work and the reserved slots\<close>

lemma nodeByID_distinct: "distinct (map node_ID nodes) \<Longrightarrow> n \<in> set nodes \<Longrightarrow> nodeByID nodes (node_ID n) = n"
proof -
  assume dist: "distinct (map node_ID nodes)" and n: "n \<in> set nodes"
  have "List.find (\<lambda>k. node_ID k = node_ID n) (rev nodes) = Some n"
  proof (cases "List.find (\<lambda>k. node_ID k = node_ID n) (rev nodes)")
    case None
    then show ?thesis using n by (auto simp: find_None_iff)
  next
    case (Some k)
    then have "k \<in> set nodes" "node_ID k = node_ID n" by (auto simp: find_Some_iff) (metis nth_mem length_rev set_rev)
    then show ?thesis using Some dist n by (metis distinct_map inj_on_def)
  qed
  then show ?thesis by (simp add: nodeByID_def)
qed

lemma decision_items:
  assumes "rankWithDecisionForOwnerPolicy L nodes r e owner now placement = (cands, d)" and "item \<in> set (dec_Candidates d)"
  shows "\<exists>n\<in>set nodes. cand_NodeID item = node_ID n \<and> cand_Eligible item = eligibleNode L now r owner n"
proof -
  let ?eval = "evaluateNode L now (normalizePlacementPolicy placement)
      (fastestEligibleHistoricalRuntime L nodes r e owner now (normalizePlacementPolicy placement)) r e owner"
  have "item \<in> fst ` ?eval ` set nodes"
    using assms by (auto simp: rankWithDecisionForOwnerPolicy_def Let_def sortRoutingCandidateDecisions_def)
  then obtain n c where "n \<in> set nodes" "?eval n = (item, c)" by (metis (no_types, lifting) imageE prod.collapse)
  then show ?thesis using evaluate_spec by blast
qed

lemma decision_covers:
  assumes "rankWithDecisionForOwnerPolicy L nodes r e owner now placement = (cands, d)" and "n \<in> set nodes"
  shows "\<exists>item\<in>set (dec_Candidates d). cand_NodeID item = node_ID n"
proof -
  let ?eval = "evaluateNode L now (normalizePlacementPolicy placement)
      (fastestEligibleHistoricalRuntime L nodes r e owner now (normalizePlacementPolicy placement)) r e owner"
  have "fst (?eval n) \<in> set (dec_Candidates d)" using assms by (auto simp: rankWithDecisionForOwnerPolicy_def Let_def sortRoutingCandidateDecisions_def)
  moreover have "cand_NodeID (fst (?eval n)) = node_ID n" using evaluate_spec by (metis prod.collapse)
  ultimately show ?thesis by blast
qed

lemma reserveCandidate_ID [simp]: "cand_NodeID (reserveCandidate L nodes policy priority demand item) = cand_NodeID item"
  by (simp add: reserveCandidate_def Let_def split: prod.splits)

lemma allowedNode_item:
  assumes "allowedNode nodes items nodeID"
  shows "\<exists>item\<in>set items. node_ID (nodeByID nodes (cand_NodeID item)) = nodeID \<and> cand_Eligible item"
  using assms by (auto simp: allowedNode_def find_Some_iff split: option.splits) (metis nth_mem length_rev set_rev)

lemma reserveCandidate_eligible:
  "cand_Eligible (reserveCandidate L nodes policy priority demand item) \<longleftrightarrow> cand_Eligible item \<and>
     (let node = nodeByID nodes (cand_NodeID item); (slots, borrow) = scopeFor L policy node in
      slots = 0 \<or> ic_MinPriority policy \<le> priority
      \<or> cap_Running (node_Capabilities node) < fst (interactiveCapacityLimit node policy priority demand slots borrow))"
  by (auto simp: reserveCandidate_def Let_def not_le split: prod.splits if_splits)

lemma scopeFor_range: "fst (scopeFor L policy node) \<le> boundedWorkerCapacity (cap_MaxConcurrent (node_Capabilities node))"
  by (simp add: scopeFor_def split: prod.splits)

lemma batch_candidate:
  assumes rank: "rankWithInteractiveCapacity L nodes r e owner now placement policy priority demand = (cands, d)"
    and "distinct (map node_ID nodes)" and c: "c \<in> set cands" and "priority < ic_MinPriority policy" and "ic_Scopes policy \<noteq> []"
    and slots: "scopeFor L policy (cd_Node c) = (slots, borrow)" "slots \<noteq> 0"
  shows "cd_Node c \<in> set nodes \<and> eligibleNode L now r owner (cd_Node c)
    \<and> cap_Running (node_Capabilities (cd_Node c)) < fst (interactiveCapacityLimit (cd_Node c) policy priority demand slots borrow)"
proof -
  obtain base dec where base: "rankWithDecisionForOwnerPolicy L nodes r e owner now placement = (base, dec)" by fastforce
  let ?items = "map (reserveCandidate L nodes policy priority demand) (dec_Candidates dec)"
  have mem: "c \<in> set base" and allowed: "allowedNode nodes ?items (node_ID (cd_Node c))"
    using rank c assms(5) by (auto simp: rankWithInteractiveCapacity_def base Let_def)
  have "cd_Node c \<in># mset (map cd_Node base)" using mem by simp
  then have n: "cd_Node c \<in> set nodes" "eligibleNode L now r owner (cd_Node c)" unfolding ranking_candidates [OF base] by auto
  from allowedNode_item [OF allowed] obtain item where item: "item \<in> set (dec_Candidates dec)"
    "node_ID (nodeByID nodes (cand_NodeID item)) = node_ID (cd_Node c)" "cand_Eligible (reserveCandidate L nodes policy priority demand item)"
    by auto
  obtain k where k: "k \<in> set nodes" "cand_NodeID item = node_ID k" using decision_items [OF base item(1)] by blast
  then have "k = cd_Node c" using item(2) nodeByID_distinct [OF assms(2) k(1)] n(1) assms(2) by (metis distinct_map inj_on_def)
  then have "nodeByID nodes (cand_NodeID item) = cd_Node c" using nodeByID_distinct [OF assms(2) k(1)] k(2) by simp
  then show ?thesis using n item(3) slots assms(4) unfolding reserveCandidate_eligible by (auto simp: Let_def)
qed

text \<open>C12: reserved slots stay free for interactive work. When a batch job is offered a worker on which slots
  are reserved, either its batch load leaves that many slots free, or every scope of the worker allows
  borrowing and the store holds no queued interactive job that the worker could take.\<close>

theorem reserved_slots_stay_free:
  assumes "storeInv st" and "interactiveDemandSnapshot L fleet policy owners st = Inr demand"
    and "rankWithInteractiveCapacity L nodes r e owner now placement policy priority demand = (cands, d)"
    and "distinct (map node_ID nodes)" and "set nodes \<subseteq> set fleet" and "c \<in> set cands" and "priority < ic_MinPriority policy"
    and "ic_Scopes policy \<noteq> []" and "scopeFor L policy (cd_Node c) = (slots, borrow)" and "0 < slots"
  shows "cap_Running (node_Capabilities (cd_Node c)) - node_interactiveRunning (cd_Node c)
      < boundedWorkerCapacity (cap_MaxConcurrent (node_Capabilities (cd_Node c))) - slots
    \<or> borrow \<and> (\<forall>i j. bget (st_jobs st) i = Some (Val j) \<and> job_Status j = JobQueued \<and> ic_MinPriority policy \<le> job_Priority j \<longrightarrow>
        \<not> demandMatches L (queueEntryOf j) (capacityDemandNode (cd_Node c)))"
proof (cases "borrow \<and> \<not> dem_unknown demand \<and> \<not> dem_pending demand (node_ID (cd_Node c))")
  case True
  have "cd_Node c \<in> set fleet" using batch_candidate [OF assms(3,4,6-9)] assms(5,10) by auto
  then show ?thesis using True demand_complete [OF assms(1,2) _ assms(8), of "cd_Node c"] assms(9,10) by auto
next
  case False
  then show ?thesis using batch_candidate [OF assms(3,4,6-9)] assms(7,10)
    by (auto simp: interactiveCapacityLimit_def Let_def split: if_splits)
qed

lemma filter_all: "(\<And>x. x \<in> set xs \<Longrightarrow> P x) \<Longrightarrow> filter P xs = xs"
  by (simp add: filter_id_conv)

text \<open>reservations never hold interactive work back. A job of at least the interactive priority is
  offered the same candidates, in the same order, as without any reservation.\<close>

theorem interactive_work_is_not_held_back:
  assumes "distinct (map node_ID nodes)" and "ic_MinPriority policy \<le> priority"
  shows "fst (rankWithInteractiveCapacity L nodes r e owner now placement policy priority demand)
    = fst (rankWithDecisionForOwnerPolicy L nodes r e owner now placement)"
proof -
  obtain base dec where base: "rankWithDecisionForOwnerPolicy L nodes r e owner now placement = (base, dec)" by fastforce
  let ?items = "map (reserveCandidate L nodes policy priority demand) (dec_Candidates dec)"
  have "allowedNode nodes ?items (node_ID (cd_Node c))" if "c \<in> set base" for c
  proof -
    have "cd_Node c \<in># mset (map cd_Node base)" using that by simp
    then have n: "cd_Node c \<in> set nodes" "eligibleNode L now r owner (cd_Node c)" unfolding ranking_candidates [OF base] by auto
    have same: "k = cd_Node c" if "k \<in> set nodes" "node_ID k = node_ID (cd_Node c)" for k
      using that n(1) assms(1) by (metis distinct_map inj_on_def)
    have all: "cand_Eligible item" if item: "item \<in> set ?items" "node_ID (nodeByID nodes (cand_NodeID item)) = node_ID (cd_Node c)" for item
    proof -
      obtain i where i: "i \<in> set (dec_Candidates dec)" "item = reserveCandidate L nodes policy priority demand i" using item(1) by auto
      obtain k where k: "k \<in> set nodes" "cand_NodeID i = node_ID k" "cand_Eligible i = eligibleNode L now r owner k"
        using decision_items [OF base i(1)] by blast
      have "k = cd_Node c" using same [OF k(1)] item(2) i(2) k(2) nodeByID_distinct [OF assms(1) k(1)] by simp
      then show ?thesis using k(3) n(2) assms(2) unfolding i(2) reserveCandidate_eligible by (auto simp: Let_def split: prod.splits)
    qed
    obtain i where i: "i \<in> set (dec_Candidates dec)" "cand_NodeID i = node_ID (cd_Node c)" using decision_covers [OF base n(1)] by blast
    then have ex: "\<exists>item\<in>set ?items. node_ID (nodeByID nodes (cand_NodeID item)) = node_ID (cd_Node c)"
      using nodeByID_distinct [OF assms(1) n(1)] by (intro bexI [of _ "reserveCandidate L nodes policy priority demand i"]) auto
    show ?thesis
    proof (cases "List.find (\<lambda>item. node_ID (nodeByID nodes (cand_NodeID item)) = node_ID (cd_Node c)) (rev ?items)")
      case None
      then show ?thesis using ex by (auto simp: find_None_iff)
    next
      case (Some item)
      then have "item \<in> set ?items" "node_ID (nodeByID nodes (cand_NodeID item)) = node_ID (cd_Node c)"
        by (auto simp: find_Some_iff) (metis nth_mem length_rev set_rev set_map length_map)
      then show ?thesis using all Some by (auto simp: allowedNode_def)
    qed
  qed
  then show ?thesis by (simp add: rankWithInteractiveCapacity_def base Let_def filter_all)
qed

section \<open>Witnesses\<close>

definition sharedWorker :: node where
  "sharedWorker = idleWorker\<lparr>node_Capabilities := zeroCapabilities\<lparr>cap_Groups := [''g''], cap_Tasks := [''chat''], cap_MaxConcurrent := 4\<rparr>\<rparr>"

definition reservingPolicy :: interactiveCapacity where
  "reservingPolicy = \<lparr>ic_MinPriority = 50, ic_Scopes = [\<lparr>scope_Group = ''g'', scope_Task = ''chat'', scope_Provider = [], scope_Slots = 1, scope_BorrowIdle = False\<rparr>]\<rparr>"

lemma shared_scope: "scopeFor plainLib reservingPolicy sharedWorker = (1, False)" by code_simp

lemma shared_eligible: "eligibleNode plainLib 100 zeroRequirements [] sharedWorker"
proof -
  have "routingHealthForOwnerAt plainLib sharedWorker zeroRequirements [] 100 = None"
    by (simp add: routingHealthForOwnerAt_def sharedWorker_def idleWorker_def zeroNode_def)
  moreover have "nonNegativeAge 100 (node_LastSeen sharedWorker) \<le> NodeFreshnessWindow"
    by (simp add: sharedWorker_def idleWorker_def nonNegativeAge_def NodeFreshnessWindow_def timeSub_def second_def millisecond_def)
  moreover have "cap_Running (node_Capabilities sharedWorker) < nodeCapacity sharedWorker"
    by (simp add: sharedWorker_def zeroCapabilities_def nodeCapacity_def)
  moreover have "node_Connected sharedWorker \<and> \<not> node_Draining sharedWorker" by (simp add: sharedWorker_def idleWorker_def zeroNode_def)
  ultimately show ?thesis using free_matches unfolding eligibleNode_def by simp
qed

lemma shared_candidate:
  assumes "rankWithInteractiveCapacity plainLib [sharedWorker] zeroRequirements 0 [] 100 DefaultPlacementPolicy reservingPolicy 0 demand = (cands, d)"
  shows "\<exists>c\<in>set cands. cd_Node c = sharedWorker"
proof -
  obtain base dec where base: "rankWithDecisionForOwnerPolicy plainLib [sharedWorker] zeroRequirements 0 [] 100 DefaultPlacementPolicy = (base, dec)" by fastforce
  have "sharedWorker \<in># mset (map cd_Node base)" unfolding ranking_candidates [OF base] using shared_eligible by simp
  then obtain c where c: "c \<in> set base" "cd_Node c = sharedWorker" by auto
  have by_id: "nodeByID [sharedWorker] (node_ID sharedWorker) = sharedWorker" by (simp add: nodeByID_def)
  have idle: "cap_Running (node_Capabilities sharedWorker) = 0" "node_interactiveRunning sharedWorker = 0" "cap_MaxConcurrent (node_Capabilities sharedWorker) = 4"
    by (simp_all add: sharedWorker_def idleWorker_def zeroNode_def zeroCapabilities_def)
  have len: "length (dec_Candidates dec) = 1"
    using base by (auto simp: rankWithDecisionForOwnerPolicy_def Let_def sortRoutingCandidateDecisions_def)
  then obtain item where item: "dec_Candidates dec = [item]" by (auto simp: length_Suc_conv)
  then have "cand_NodeID item = node_ID sharedWorker \<and> cand_Eligible item" using decision_items [OF base, of item] shared_eligible by auto
  then have "allowedNode [sharedWorker] (map (reserveCandidate plainLib [sharedWorker] reservingPolicy 0 demand) (dec_Candidates dec)) (node_ID sharedWorker)"
    using shared_scope idle by (simp add: allowedNode_def item by_id reserveCandidate_eligible interactiveCapacityLimit_def Let_def
      boundedWorkerCapacity_def MaximumWorkerConcurrency_def)
  then show ?thesis using assms c by (auto simp: rankWithInteractiveCapacity_def base Let_def reservingPolicy_def)
qed

theorem reserved_slots_stay_free_witness:
  "\<exists>demand cands d c. interactiveDemandSnapshot plainLib [sharedWorker] reservingPolicy (\<lambda>_. []) emptyStore = Inr demand
     \<and> rankWithInteractiveCapacity plainLib [sharedWorker] zeroRequirements 0 [] 100 DefaultPlacementPolicy reservingPolicy 0 demand = (cands, d)
     \<and> c \<in> set cands \<and> cap_Running (node_Capabilities (cd_Node c)) - node_interactiveRunning (cd_Node c) < 3"
proof -
  obtain demand where demand: "interactiveDemandSnapshot plainLib [sharedWorker] reservingPolicy (\<lambda>_. []) emptyStore = Inr demand"
    using demand_total [OF storeInv_empty] by blast
  obtain cands d where rank: "rankWithInteractiveCapacity plainLib [sharedWorker] zeroRequirements 0 [] 100 DefaultPlacementPolicy reservingPolicy 0 demand = (cands, d)"
    by fastforce
  from shared_candidate [OF rank] obtain c where c: "c \<in> set cands" "cd_Node c = sharedWorker" by blast
  have "boundedWorkerCapacity (cap_MaxConcurrent (node_Capabilities sharedWorker)) = 4"
    by (simp add: sharedWorker_def boundedWorkerCapacity_def MaximumWorkerConcurrency_def)
  then show ?thesis
    using reserved_slots_stay_free [OF storeInv_empty demand rank _ _ c(1), of 1 False] shared_scope demand rank c
    by (auto simp: reservingPolicy_def)
qed

theorem interactive_work_is_not_held_back_witness:
  "fst (rankWithInteractiveCapacity plainLib [sharedWorker] zeroRequirements 0 [] 100 DefaultPlacementPolicy reservingPolicy 60
       \<lparr>dem_pending = (\<lambda>_. True), dem_unknown = True, dem_jobs = []\<rparr>)
    = fst (rankWithDecisionForOwnerPolicy plainLib [sharedWorker] zeroRequirements 0 [] 100 DefaultPlacementPolicy)"
  by (rule interactive_work_is_not_held_back) (simp_all add: reservingPolicy_def)

end
