(* ===== verification/Relay_Dispatch.thy ===== *)
theory Relay_Dispatch
  imports Job_System Interactive_Capacity Node_Intake
begin

text \<open>The dispatcher of the relay (\<open>relay.go\<close>): how a pass over the queue turns queued jobs into messages to
  workers, what the relay does when a worker connects, reports a result or is lost, and what a cancelled
  job leaves behind. The relay is the store, the slots of the connected workers and the fairness state;
  the messages written to workers are recorded beside it. The handlers are then seen as sequences of
  small steps that may interleave with those of any other handler.\<close>

section \<open>Usage and its price\<close>

record pricing =
  prc_Mode :: string
  prc_Source :: string
  prc_ComputePerHourUSD :: real
  prc_InputPerMillionUSD :: real
  prc_OutputPerMillionUSD :: real
  prc_EquivalentInputUSD :: real
  prc_EquivalentOutputUSD :: real

definition CostUnknown :: string where "CostUnknown = ''unknown''"
definition CostEstimated :: string where "CostEstimated = ''estimated''"
definition CostUpperBound :: string where "CostUpperBound = ''upper_bound''"
definition CostActual :: string where "CostActual = ''actual''"

lemmas cost_defs = CostUnknown_def CostEstimated_def CostUpperBound_def CostActual_def

definition maximumReportedTokens :: u64 where "maximumReportedTokens = 1000000000000"
definition maximumReportedCompute :: u64 where "maximumReportedCompute = 604800000"
definition maximumReportedMemory :: u64 where "maximumReportedMemory = 1152921504606846976"

definition unknownCost :: "usage \<Rightarrow> usage" where
  "unknownCost u = u\<lparr>use_CostStatus := CostUnknown, use_CostSource := [], use_ReservedCostUSD := 0, use_EstimatedCostUSD := 0\<rparr>"

definition normalizeReportedUsage :: "usage \<Rightarrow> usage" where
  "normalizeReportedUsage u =
     (let invalid = (use_InputTokens u > maximumReportedTokens \<or> use_OutputTokens u > maximumReportedTokens
            \<or> use_TotalTokens u > maximumReportedTokens \<or> use_ComputeMS u > maximumReportedCompute);
          u = (if invalid then unknownCost (u\<lparr>use_InputTokens := 0, use_OutputTokens := 0, use_TotalTokens := 0, use_ComputeMS := 0\<rparr>) else u);
          u = (if use_PeakRAMBytes u > maximumReportedMemory then u\<lparr>use_PeakRAMBytes := 0\<rparr> else u);
          u = (if use_PeakVRAMBytes u > maximumReportedMemory then u\<lparr>use_PeakVRAMBytes := 0\<rparr> else u);
          u = (if use_PeakGPUUtilization u < 0 \<or> use_PeakGPUUtilization u > 100 then u\<lparr>use_PeakGPUUtilization := 0\<rparr> else u)
      in if use_ResourceScope u \<noteq> ''job''
         then u\<lparr>use_ResourceScope := [], use_PeakRAMBytes := 0, use_PeakVRAMBytes := 0, use_PeakGPUUtilization := 0\<rparr> else u)"

definition configuredPrice :: "pricing \<Rightarrow> bool" where
  "configuredPrice p \<longleftrightarrow> prc_Mode p \<noteq> [] \<or> prc_ComputePerHourUSD p > 0 \<or> prc_InputPerMillionUSD p > 0 \<or> prc_OutputPerMillionUSD p > 0"

definition estimatedCost :: "usage \<Rightarrow> pricing \<Rightarrow> real" where
  "estimatedCost u p = real (unat (use_ComputeMS u)) / 3600000 * prc_ComputePerHourUSD p
     + real (unat (use_InputTokens u)) / 1000000 * prc_InputPerMillionUSD p
     + real (unat (use_OutputTokens u)) / 1000000 * prc_OutputPerMillionUSD p"

definition pricedUsage :: "usage \<Rightarrow> pricing \<Rightarrow> usage" where
  "pricedUsage u p =
     (let u = u\<lparr>use_CostKnownJobs := 0, use_CostUnknownJobs := 0\<rparr> in
      if use_CostStatus u \<in> {CostEstimated, CostUpperBound, CostActual}
      then u\<lparr>use_CostSource := (if use_CostSource u = [] then ''worker_reported'' else use_CostSource u), use_CostKnownJobs := 1\<rparr>
      else if configuredPrice p \<and> finiteBoundedCost (estimatedCost u p)
      then u\<lparr>use_EstimatedCostUSD := estimatedCost u p, use_CostStatus := CostEstimated,
             use_CostSource := (if trimSpace (prc_Source p) = [] then ''relay_config'' else trimSpace (prc_Source p)), use_CostKnownJobs := 1\<rparr>
      else (unknownCost u)\<lparr>use_CostUnknownJobs := 1\<rparr>)"

definition priceUsage :: "usage \<Rightarrow> pricing \<Rightarrow> usage" where
  "priceUsage u p =
     (let u = normalizeReportedUsage u;
          u = (if use_TotalTokens u = 0 then u\<lparr>use_TotalTokens := saturatingUint64Add (use_InputTokens u) (use_OutputTokens u)\<rparr> else u);
          u = (if \<not> finiteBoundedCost (use_EstimatedCostUSD u) \<or> \<not> finiteBoundedCost (use_ReservedCostUSD u) then unknownCost u else u);
          u = pricedUsage u p;
          equivalent = real (unat (use_InputTokens u)) / 1000000 * prc_EquivalentInputUSD p
            + real (unat (use_OutputTokens u)) / 1000000 * prc_EquivalentOutputUSD p;
          u = u\<lparr>use_EquivalentCostUSD := (if finiteBoundedCost equivalent then equivalent else 1000000000)\<rparr>;
          saved = use_EquivalentCostUSD u - use_EstimatedCostUSD u
      in u\<lparr>use_SavedCostUSD := (if saved < 0 then 0 else saved)\<rparr>)"

text \<open>Whatever a worker reports and however prices are configured, every cost that is stored lies between
  zero and the bound, and a job counts either as one of known or as one of unknown cost.\<close>

theorem priced_usage_is_bounded:
  "finiteBoundedCost (use_EstimatedCostUSD (priceUsage u p)) \<and> finiteBoundedCost (use_ReservedCostUSD (priceUsage u p))
   \<and> finiteBoundedCost (use_EquivalentCostUSD (priceUsage u p)) \<and> finiteBoundedCost (use_SavedCostUSD (priceUsage u p))
   \<and> use_CostKnownJobs (priceUsage u p) + use_CostUnknownJobs (priceUsage u p) = 1
   \<and> (use_CostUnknownJobs (priceUsage u p) = 1 \<longleftrightarrow> use_CostStatus (priceUsage u p) = CostUnknown)"
proof -
  have zero: "finiteBoundedCost 0" "finiteBoundedCost 1000000000" by (simp_all add: finiteBoundedCost_def)
  define v where "v = (let u = normalizeReportedUsage u;
          u = (if use_TotalTokens u = 0 then u\<lparr>use_TotalTokens := saturatingUint64Add (use_InputTokens u) (use_OutputTokens u)\<rparr> else u)
      in if \<not> finiteBoundedCost (use_EstimatedCostUSD u) \<or> \<not> finiteBoundedCost (use_ReservedCostUSD u) then unknownCost u else u)"
  have v: "finiteBoundedCost (use_EstimatedCostUSD v)" "finiteBoundedCost (use_ReservedCostUSD v)"
    by (auto simp: v_def Let_def unknownCost_def zero)
  define w where "w = pricedUsage v p"
  have w: "finiteBoundedCost (use_EstimatedCostUSD w)" "finiteBoundedCost (use_ReservedCostUSD w)"
    "use_CostKnownJobs w + use_CostUnknownJobs w = 1" "use_CostUnknownJobs w = 1 \<longleftrightarrow> use_CostStatus w = CostUnknown"
    using v by (auto simp: w_def pricedUsage_def Let_def unknownCost_def zero cost_defs split: if_splits)
  define e where "e = (let x = real (unat (use_InputTokens w)) / 1000000 * prc_EquivalentInputUSD p
            + real (unat (use_OutputTokens w)) / 1000000 * prc_EquivalentOutputUSD p in if finiteBoundedCost x then x else 1000000000)"
  have e: "finiteBoundedCost e" by (simp add: e_def Let_def zero)
  have "priceUsage u p = (w\<lparr>use_EquivalentCostUSD := e\<rparr>)\<lparr>use_SavedCostUSD := (if e - use_EstimatedCostUSD w < 0 then 0 else e - use_EstimatedCostUSD w)\<rparr>"
    by (simp add: priceUsage_def Let_def w_def v_def e_def)
  then show ?thesis using w e by (simp add: finiteBoundedCost_def)
qed

section \<open>The relay\<close>

record relayConfig =
  rc_MaxQueuedJobs :: int
  rc_AssignmentTTL :: duration
  rc_DispatchEvery :: duration
  rc_Pricing :: pricing
  rc_JobTimeout :: duration
  rc_Placement :: placementPolicy
  rc_InteractiveCapacity :: interactiveCapacity

text \<open>The fields \<open>rl_sent\<close> and \<open>rl_cancels\<close> are not of the code: they record the job and cancel messages handed
  to worker connections. \<open>rl_taken\<close> holds the assignments that a dispatcher has committed and not yet
  handed on; between two calls of a handler it is empty.\<close>

record relay =
  rl_cfg :: relayConfig
  rl_store :: store
  rl_authority :: relayAuthority
  rl_workers :: "(string \<times> workerConnection) list"
  rl_nextMaintenance :: gotime
  rl_lastOwner :: "int \<Rightarrow> string"
  rl_queueScanAfter :: string
  rl_quiescing :: bool
  rl_taken :: "(string \<times> job) list"
  rl_sent :: "(string \<times> job) list"
  rl_cancels :: "(string \<times> job) list"

definition setWorker :: "string \<Rightarrow> workerConnection \<Rightarrow> relay \<Rightarrow> relay" where
  "setWorker nodeID w r = r\<lparr>rl_workers := AList.update nodeID w (rl_workers r)\<rparr>"

definition ownerQueueLimit :: "relay \<Rightarrow> int" where
  "ownerQueueLimit r = (if rc_MaxQueuedJobs (rl_cfg r) \<le> 0 \<or> rc_MaxQueuedJobs (rl_cfg r) > maxQueuedJobsPerOwner
     then maxQueuedJobsPerOwner else rc_MaxQueuedJobs (rl_cfg r))"

definition relayProducerLimits :: "relay \<Rightarrow> tokenRecord \<Rightarrow> producerLimits" where
  "relayProducerLimits r record =
     (let limits = tok_ProducerLimits record in
      if lim_MaxQueuedJobs limits \<le> 0 \<or> lim_MaxQueuedJobs limits > ownerQueueLimit r
      then limits\<lparr>lim_MaxQueuedJobs := ownerQueueLimit r\<rparr> else limits)"

definition maximumMaintenanceInterval :: duration where "maximumMaintenanceInterval = 5 * second"

definition relayMaintenanceInterval :: "relayConfig \<Rightarrow> duration" where
  "relayMaintenanceInterval cfg =
     (let shorten = (\<lambda>interval deadline. let candidate = deadline div 4 in
            if candidate > 0 \<and> candidate < interval then candidate else interval);
          interval = shorten (shorten maximumMaintenanceInterval (rc_AssignmentTTL cfg)) (rc_JobTimeout cfg);
          interval = (if interval < rc_DispatchEvery cfg then rc_DispatchEvery cfg else interval)
      in if interval \<le> 0 then 250 * millisecond else interval)"

definition maintenanceDue :: "gotime \<Rightarrow> relay \<Rightarrow> bool \<times> relay" where
  "maintenanceDue now r =
     (if rl_nextMaintenance r \<noteq> 0 \<and> now < rl_nextMaintenance r then (False, r)
      else (True, r\<lparr>rl_nextMaintenance := now + relayMaintenanceInterval (rl_cfg r)\<rparr>))"

definition recordDispatchedOwner :: "int \<Rightarrow> string \<Rightarrow> relay \<Rightarrow> relay" where
  "recordDispatchedOwner priority owner r =
     (if owner = [] then r else r\<lparr>rl_lastOwner := (rl_lastOwner r)(priority := owner)\<rparr>)"

definition hasStaleRecoveryCandidates :: "relay \<Rightarrow> bool" where
  "hasStaleRecoveryCandidates r = list_ex (\<lambda>(_, w). needsStaleRecovery w) (rl_workers r)"

definition markWorkerReservationTerminalState :: "string \<Rightarrow> string \<Rightarrow> relay \<Rightarrow> workerReservationTerminalState \<times> relay" where
  "markWorkerReservationTerminalState nodeID jobID r =
     (if nodeID = [] \<or> jobID = [] then (workerReservationMissing, r)
      else case map_of (rl_workers r) nodeID of
        None \<Rightarrow> (workerReservationMissing, r)
      | Some w \<Rightarrow> (case markStoreTerminalState jobID w of (state, w) \<Rightarrow> (state, setWorker nodeID w r)))"

definition cancelWorkerExecution :: "job \<Rightarrow> relay \<Rightarrow> relay" where
  "cancelWorkerExecution job r =
     (if job_AssignedNode job = [] \<or> job_ID job = [] then r
      else case map_of (rl_workers r) (job_AssignedNode job) of
        None \<Rightarrow> r
      | Some _ \<Rightarrow> r\<lparr>rl_cancels := rl_cancels r @ [(job_AssignedNode job, job)]\<rparr>)"

text \<open>\<open>inStore\<close> runs an operation of the store whose result the relay does not use.\<close>

definition inStore :: "(store \<Rightarrow> 'r \<times> store) \<Rightarrow> relay \<Rightarrow> relay" where
  "inStore op r = r\<lparr>rl_store := snd (op (rl_store r))\<rparr>"

definition finalizeCancelledJob :: "goLib \<Rightarrow> gotime \<Rightarrow> job \<Rightarrow> bool \<Rightarrow> relay \<Rightarrow> workerReservationTerminalState \<times> relay" where
  "finalizeCancelledJob L now job executionMayHaveStarted r =
     (case markWorkerReservationTerminalState (job_AssignedNode job) (job_ID job) r of (state, r) \<Rightarrow>
        if state = workerReservationDispatched then (state, cancelWorkerExecution job r)
        else let failureCode = (if state = workerReservationMissing \<and> executionMayHaveStarted then FailureExecutionStateAmbiguous else []) in
             (state, inStore (ReleaseAdapterSessionJobLock L (job_ID job))
                (inStore (ResolveRoutingRecoveryProbe now (job_AssignedNode job) (job_ID job) failureCode) r)))"

text \<open>The part of \<open>handleCancel\<close> behind the visibility check: \<open>existing\<close> is the job it has read.\<close>

definition cancelJobOnRelay :: "goLib \<Rightarrow> gotime \<Rightarrow> job \<Rightarrow> string \<Rightarrow> string \<Rightarrow> string list \<Rightarrow> relay \<Rightarrow> job result \<times> relay" where
  "cancelJobOnRelay L now existing jobID owner allowedTenants r =
     (case CancelJobForProducer L now jobID owner allowedTenants (rl_store r) of
        (Inl e, st) \<Rightarrow> (Inl e, r\<lparr>rl_store := st\<rparr>)
      | (Inr job, st) \<Rightarrow> (Inr job, snd (finalizeCancelledJob L now job (job_Status existing \<noteq> JobQueued) (r\<lparr>rl_store := st\<rparr>))))"

text \<open>\<open>current\<close> says whether the connection is still the one registered for the node.\<close>

definition disconnectNode :: "goLib \<Rightarrow> gotime \<Rightarrow> string \<Rightarrow> bool \<Rightarrow> relay \<Rightarrow> relay" where
  "disconnectNode L now nodeID current r =
     (if \<not> current \<or> map_of (rl_workers r) nodeID = None then r
      else inStore (RequeueNode L now nodeID ''worker disconnected'')
             (inStore (SetNodeConnected now nodeID False) (r\<lparr>rl_workers := AList.delete nodeID (rl_workers r)\<rparr>)))"

fun closeRecovered :: "goLib \<Rightarrow> job list \<Rightarrow> relay \<Rightarrow> relay" where
  "closeRecovered L [] r = r"
| "closeRecovered L (job # rest) r =
     (case markWorkerReservationTerminalState (job_AssignedNode job) (job_ID job) r of (state, r) \<Rightarrow>
        closeRecovered L rest
          (if state = workerReservationDispatched then cancelWorkerExecution job r
           else inStore (ReleaseAdapterSessionJobLock L (job_ID job)) r))"

definition runMaintenance :: "goLib \<Rightarrow> gotime \<Rightarrow> relay \<Rightarrow> relay" where
  "runMaintenance L now r =
     (let (hasReservations, hasQueuedJobs) = maintenanceCandidates (rl_store r);
          r = (if hasReservations then inStore (GarbageCollectReservations now) r else r)
      in if \<not> hasQueuedJobs \<and> \<not> hasStaleRecoveryCandidates r then r
         else case RecoverStaleJobs L now now (rc_AssignmentTTL (rl_cfg r)) (rc_JobTimeout (rl_cfg r)) (rl_store r) of
           (Inl e, st) \<Rightarrow> r\<lparr>rl_store := st\<rparr>
         | (Inr recovered, st) \<Rightarrow> closeRecovered L recovered (r\<lparr>rl_store := st\<rparr>))"
section \<open>A dispatch pass\<close>

text \<open>The memory a job will need, from the newest completed jobs like it: at most 500 samples, their ninth
  decile and a tenth more.\<close>

definition vramSample :: "goLib \<Rightarrow> requirements \<Rightarrow> store \<Rightarrow> string \<Rightarrow> u64 option" where
  "vramSample L r st jobID =
     (case getJSON (st_jobs st) jobID of
        Inl _ \<Rightarrow> None
      | Inr job \<Rightarrow>
          if job_Status job \<noteq> JobCompleted \<or> use_ResourceScope (job_Usage job) \<noteq> ''job'' \<or> use_PeakVRAMBytes (job_Usage job) = 0 then None
          else if req_Model r \<noteq> [] \<and> \<not> equalFold L (req_Model (job_Requirements job)) (req_Model r) then None
          else if req_Model r = [] \<and> \<not> equalFold L (req_Task (job_Requirements job)) (req_Task r) then None
          else Some (use_PeakVRAMBytes (job_Usage job)))"

definition EstimateVRAM :: "goLib \<Rightarrow> requirements \<Rightarrow> store \<Rightarrow> u64" where
  "EstimateVRAM L r st =
     (let samples = take 500 (List.map_filter (\<lambda>(_, jobID). vramSample L r st jobID) (rev (st_jobIndex st))) in
      if length samples < 3 then 0
      else let estimate = sortSlice (<) samples ! ((length samples - 1) * 9 div 10) in estimate + estimate div 10)"

definition nodesForPoolAssignment :: "goLib \<Rightarrow> verifier \<Rightarrow> node list \<Rightarrow> string \<Rightarrow> string \<Rightarrow> gotime \<Rightarrow> node list" where
  "nodesForPoolAssignment L verify nodes poolID authorityKey now =
     filter (\<lambda>node.
       if poolID = [] then node_PoolCertificate node = None
       else case node_PoolCertificate node of
              None \<Rightarrow> False
            | Some c \<Rightarrow> cert_PoolID c = poolID \<and> cert_AuthorityKey c = authorityKey
                \<and> ValidatePoolWorkerCertificate L verify (Some c) authorityKey poolID (node_PublicKey node) now = Inr ()) nodes"

definition adapterSessionRoutingKey :: "goLib \<Rightarrow> string \<Rightarrow> requirements \<Rightarrow> string" where
  "adapterSessionRoutingKey L owner r =
     (let owner = trimSpace owner in
      if owner = [] \<or> \<not> equalFold L (trimSpace (req_Provider r)) ''adapter'' \<or> trimSpace (req_AdapterProfile r) = [] then []
      else ''cb:'' @ hexEncode (sha256 L (owner @ nulByte @ canonicalSessionID (req_SessionID r))))"

definition selectedAdapterEndpointBinding :: "requirements \<Rightarrow> adapterSessionCapability \<Rightarrow> int" where
  "selectedAdapterEndpointBinding r selected =
     (if req_AdapterSessionRecovery r \<and> req_AdapterEndpointID r > 0 \<and> ses_EndpointID selected \<noteq> req_AdapterEndpointID r
      then (if req_AdapterSessionKey r \<noteq> [] \<and> ses_SessionKey selected = req_AdapterSessionKey r then ses_EndpointID selected else 0)
      else ses_EndpointID selected)"

definition withSessionAffinity :: "goLib \<Rightarrow> requirements \<Rightarrow> string \<Rightarrow> relay \<Rightarrow> (requirements \<times> string) \<times> relay" where
  "withSessionAffinity L q owner r =
     (let adapter = equalFold L (req_Provider q) ''adapter'';
          q = (if adapter \<and> req_AdapterProfile q \<noteq> [] \<and> \<not> req_AdapterEphemeralSession q
               then q\<lparr>req_AdapterSessionKey := adapterSessionRoutingKey L owner q\<rparr> else q)
      in if req_AdapterEphemeralSession q then ((q, []), r)
         else case RecentSessionPlacementBinding L owner q (rl_store r) of
           ((nodeID, endpointID, prin, ok), st) \<Rightarrow>
             (let r = r\<lparr>rl_store := st\<rparr> in
              if \<not> ok then ((q, []), r)
              else let q = (if nodeID \<in> set (req_PreferredNodes q) then q else q\<lparr>req_PreferredNodes := nodeID # req_PreferredNodes q\<rparr>) in
                   if adapter \<and> req_AdapterEndpointID q = 0 \<and> endpointID > 0
                   then ((q\<lparr>req_AdapterEndpointID := endpointID, req_AdapterPrincipal := prin, req_AdapterSessionRecovery := True\<rparr>, nodeID), r)
                   else ((q, []), r)))"

definition liveNode :: "relay \<Rightarrow> node \<Rightarrow> node" where
  "liveNode r node =
     (case map_of (rl_workers r) (node_ID node) of
        None \<Rightarrow> node\<lparr>node_Connected := False\<rparr>
      | Some w \<Rightarrow> (case capacityLoad w of (running, capacity, interactive) \<Rightarrow>
          node\<lparr>node_Connected := True, node_interactiveRunning := interactive,
               node_Capabilities := (node_Capabilities node)\<lparr>cap_Running := running, cap_MaxConcurrent := capacity\<rparr>\<rparr>))"

definition routingNodes :: "relay \<Rightarrow> node list result" where
  "routingNodes r = bindE (ListNodes (rl_store r)) (\<lambda>nodes. Inr (map (liveNode r) nodes))"

text \<open>What one pass is given from outside: the time, the random bytes of each decision, and which writes to
  a connection succeed.\<close>

record dispatchEnv =
  env_now :: gotime
  env_raw :: "string \<Rightarrow> string \<Rightarrow> string result"
  env_write :: "string \<Rightarrow> job \<Rightarrow> bool"

text \<open>The job at hand with what the pass has found out about it.\<close>

record dispatchJob =
  dj_queued :: job
  dj_requirements :: requirements
  dj_requiredNode :: string
  dj_sealed :: bool
  dj_demand :: interactiveDemand

definition adapterChoice :: "goLib \<Rightarrow> dispatchJob \<Rightarrow> node \<Rightarrow> (int \<times> string) option" where
  "adapterChoice L d node =
     (let q = job_Requirements (dj_queued d) in
      if equalFold L (req_Provider q) ''adapter'' \<and> cap_AdapterSessions (node_Capabilities node) \<noteq> []
      then case selectReadyAdapterSession L (cap_AdapterSessions (node_Capabilities node)) (dj_requirements d) of
             None \<Rightarrow> None
           | Some session \<Rightarrow>
               if ses_EndpointID session \<le> 0 then None
               else if dj_sealed d then Some (req_AdapterEndpointID q, req_AdapterPrincipal q)
               else Some (selectedAdapterEndpointBinding (dj_requirements d) session, ses_Principal session)
      else Some (req_AdapterEndpointID q, req_AdapterPrincipal q))"

definition assignQueued ::
  "goLib \<Rightarrow> dispatchEnv \<Rightarrow> dispatchJob \<Rightarrow> node \<Rightarrow> workerConnection \<Rightarrow> int \<times> string \<Rightarrow> routingDecision \<Rightarrow> relay \<Rightarrow> job result \<times> store" where
  "assignQueued L env d node w choice decision r =
     (let queued = dj_queued d; q = job_Requirements queued; raw = env_raw env (job_ID queued) (node_ID node) in
      if equalFold L (req_Provider q) ''adapter''
      then AssignAdapterJobAuthorizedFencedWithDecision L raw (env_now env) (job_ID queued) (node_ID node) (wc_credentialHash w)
             (fst choice) (snd choice)
             (if dj_sealed d then req_AdapterSessionRecovery q else req_AdapterSessionRecovery (dj_requirements d))
             decision (rl_authority r) (rl_store r)
      else AssignJobAuthorizedFencedWithDecision L raw (env_now env) (job_ID queued) (node_ID node) (wc_credentialHash w)
             decision (rl_authority r) (rl_store r))"

definition interactiveJob :: "relay \<Rightarrow> job \<Rightarrow> bool" where
  "interactiveJob r queued \<longleftrightarrow> ic_Scopes (rc_InteractiveCapacity (rl_cfg r)) \<noteq> []
     \<and> job_Priority queued \<ge> ic_MinPriority (rc_InteractiveCapacity (rl_cfg r))"

definition reservedSlots :: "goLib \<Rightarrow> dispatchJob \<Rightarrow> node \<Rightarrow> relay \<Rightarrow> int" where
  "reservedSlots L d node r =
     (case scopeFor L (rc_InteractiveCapacity (rl_cfg r)) node of (slots, borrow) \<Rightarrow>
        if borrow \<and> \<not> dem_unknown (dj_demand d) \<and> \<not> dem_pending (dj_demand d) (node_ID node) then 0 else slots)"

text \<open>An assigned job is handed to its worker: marked in the slot table, written, and on a failed write the
  worker is given up.\<close>

definition bookedNode :: "bool \<Rightarrow> node \<Rightarrow> node" where
  "bookedNode interactive node =
     (let node = node\<lparr>node_Capabilities := (node_Capabilities node)\<lparr>cap_Running := cap_Running (node_Capabilities node) + 1\<rparr>\<rparr>
      in if interactive then node\<lparr>node_interactiveRunning := node_interactiveRunning node + 1\<rparr> else node)"

definition handOver ::
  "goLib \<Rightarrow> dispatchEnv \<Rightarrow> bool \<Rightarrow> node \<Rightarrow> workerConnection \<Rightarrow> job \<Rightarrow> node list \<Rightarrow> relay \<Rightarrow> node list \<times> relay" where
  "handOver L env interactive node w job nodes r =
     (case beginDispatch (job_ID job) (job_Attempt job) [job_AssignmentFence job] w of
        (False, w) \<Rightarrow> (nodes, setWorker (node_ID node) (release (job_ID job) w) r)
      | (True, w) \<Rightarrow>
          (let r = (setWorker (node_ID node) w r)\<lparr>rl_sent := rl_sent r @ [(node_ID node, job)]\<rparr> in
           if env_write env (node_ID node) job
           then (map (\<lambda>n. if node_ID n = node_ID node then bookedNode interactive node else n) nodes,
                 recordDispatchedOwner (job_Priority job) (job_OwnerSubject job) r)
           else (nodes, disconnectNode L (env_now env) (node_ID node) True
                  (inStore (RequeueNode L (env_now env) (node_ID node) ''worker connection failed'')
                    (setWorker (node_ID node) (release (job_ID job) w) r)))))"
text \<open>The candidates of a job are tried in their order. A candidate that is passed over leaves the loop running
  (\<open>continue\<close>), one that took the job or failed for another reason ends it (\<open>break\<close>), and once the relay admits
  nothing more the whole pass ends (\<open>return\<close>).\<close>

datatype loopControl = Continue | Break | Return

definition assignTo ::
  "goLib \<Rightarrow> dispatchEnv \<Rightarrow> dispatchJob \<Rightarrow> node \<Rightarrow> workerConnection \<Rightarrow> int \<times> string \<Rightarrow> routingDecision \<Rightarrow> node list \<Rightarrow> relay \<Rightarrow>
     loopControl \<times> routingDecision \<times> node list \<times> relay" where
  "assignTo L env d node w choice decision nodes r =
     (let nodeID = node_ID node; queued = dj_queued d;
          decision = boundRoutingDecision (decision\<lparr>dec_SelectedNodeID := nodeID, dec_SelectedNodeName := node_Name node\<rparr>)
      in case assignQueued L env d node w choice decision r of
           (Inr job, st) \<Rightarrow> (Break, decision, handOver L env (interactiveJob r queued) node w job nodes (r\<lparr>rl_store := st\<rparr>))
         | (Inl e, st) \<Rightarrow>
             (let r = setWorker nodeID (release (job_ID queued) w) (r\<lparr>rl_store := st\<rparr>) in
              if e = ErrNodeDraining then (Continue, rejectRoutingCandidate nodeID ''worker_draining'' decision, nodes, r)
              else if e = ErrRouteProbeInFlight then (Continue, rejectRoutingCandidate nodeID ''route_probe_in_flight'' decision, nodes, r)
              else if e = ErrWorkerCredentialInvalid
              then (Continue, rejectRoutingCandidate nodeID ''worker_credential_invalid'' decision, nodes,
                    disconnectNode L (env_now env) nodeID True r)
              else (Break, decision, nodes, r)))"

definition tryCandidate ::
  "goLib \<Rightarrow> dispatchEnv \<Rightarrow> dispatchJob \<Rightarrow> candidate \<Rightarrow> routingDecision \<Rightarrow> node list \<Rightarrow> relay \<Rightarrow>
     loopControl \<times> routingDecision \<times> node list \<times> relay" where
  "tryCandidate L env d c decision nodes r =
     (let node = cd_Node c; nodeID = node_ID node; queued = dj_queued d in
      if dj_requiredNode d \<noteq> [] \<and> nodeID \<noteq> dj_requiredNode d then (Continue, decision, nodes, r)
      else if job_AssignedNode queued \<noteq> [] \<and> job_AssignedNode queued \<noteq> nodeID then (Continue, decision, nodes, r)
      else case map_of (rl_workers r) nodeID of
        None \<Rightarrow> (Continue, rejectRoutingCandidate nodeID ''worker_not_connected'' decision, nodes, r)
      | Some w \<Rightarrow>
          (case adapterChoice L d node of
             None \<Rightarrow> (Continue, decision, nodes, r)
           | Some choice \<Rightarrow>
               if rl_quiescing r then (Return, decision, nodes, r)
               else (case reserveCapacity (job_ID queued) (reservedSlots L d node r) (interactiveJob r queued) w of
                 (False, _) \<Rightarrow> (Continue, rejectRoutingCandidate nodeID ''worker_at_capacity'' decision, nodes, r)
               | (True, w) \<Rightarrow> assignTo L env d node w choice decision nodes (setWorker nodeID w r))))"

fun candidateLoop ::
  "goLib \<Rightarrow> dispatchEnv \<Rightarrow> dispatchJob \<Rightarrow> candidate list \<Rightarrow> routingDecision \<Rightarrow> node list \<Rightarrow> relay \<Rightarrow> bool \<times> node list \<times> relay" where
  "candidateLoop L env d [] decision nodes r = (True, nodes, r)"
| "candidateLoop L env d (c # cs) decision nodes r =
     (case tryCandidate L env d c decision nodes r of
        (Continue, decision, nodes, r) \<Rightarrow> candidateLoop L env d cs decision nodes r
      | (Break, _, nodes, r) \<Rightarrow> (True, nodes, r)
      | (Return, _, nodes, r) \<Rightarrow> (False, nodes, r))"

definition dispatchQueued ::
  "goLib \<Rightarrow> verifier \<Rightarrow> dispatchEnv \<Rightarrow> interactiveDemand \<Rightarrow> job \<Rightarrow> node list \<Rightarrow> relay \<Rightarrow> bool \<times> node list \<times> relay" where
  "dispatchQueued L verify env demand queued nodes r =
     (case AdapterSessionBusy L (job_OwnerSubject queued) (job_Requirements queued) (job_ID queued) (env_now env) (rl_store r) of
        (Inl _, st) \<Rightarrow> (True, nodes, r\<lparr>rl_store := st\<rparr>)
      | (Inr True, st) \<Rightarrow> (True, nodes, r\<lparr>rl_store := st\<rparr>)
      | (Inr False, st) \<Rightarrow>
          (let r = r\<lparr>rl_store := st\<rparr>; q = job_Requirements queued; sealed = (job_SealedPayload queued \<noteq> None) in
           case (if sealed
                 then ((if req_AdapterEndpointID q > 0 then q\<lparr>req_AdapterSessionRecovery := False\<rparr> else q, job_AssignedNode queued), r)
                 else withSessionAffinity L q (job_OwnerSubject queued) r) of
             ((routing, requiredNode), r) \<Rightarrow>
               (let jobNodes = (if job_PoolAuthorization queued = None then nodesForPoolAssignment L verify nodes [] [] (env_now env) else nodes)
                in case rankWithInteractiveCapacity L jobNodes routing (EstimateVRAM L q (rl_store r)) (job_OwnerSubject queued) (env_now env)
                          (rc_Placement (rl_cfg r)) (rc_InteractiveCapacity (rl_cfg r)) (job_Priority queued) demand of
                     (candidates, decision) \<Rightarrow>
                       (let decision = (if pol_Schema (job_PolicyDecision queued) \<noteq> []
                              then decision\<lparr>dec_PolicyDecision := Some (job_PolicyDecision queued)\<rparr> else decision);
                            decision = applyRoutingNodeConstraints requiredNode (job_AssignedNode queued) decision
                        in candidateLoop L env \<lparr>dj_queued = queued, dj_requirements = routing, dj_requiredNode = requiredNode,
                             dj_sealed = sealed, dj_demand = demand\<rparr> candidates decision nodes r))))"

fun queuedLoop :: "goLib \<Rightarrow> verifier \<Rightarrow> dispatchEnv \<Rightarrow> interactiveDemand \<Rightarrow> job list \<Rightarrow> node list \<Rightarrow> relay \<Rightarrow> relay" where
  "queuedLoop L verify env demand [] nodes r = r"
| "queuedLoop L verify env demand (queued # rest) nodes r =
     (case dispatchQueued L verify env demand queued nodes r of
        (False, _, r) \<Rightarrow> r
      | (True, nodes, r) \<Rightarrow> queuedLoop L verify env demand rest nodes r)"

definition dispatchPass :: "goLib \<Rightarrow> verifier \<Rightarrow> dispatchEnv \<Rightarrow> relay \<Rightarrow> relay" where
  "dispatchPass L verify env r =
     (let owners = rl_lastOwner r; policy = rc_InteractiveCapacity (rl_cfg r) in
      case QueuedJobsFairWindow 200 (rl_queueScanAfter r) owners (rl_store r) of
        Inl _ \<Rightarrow> r
      | Inr (jobs, nextKey) \<Rightarrow>
          if jobs = [] then r
          else let r = r\<lparr>rl_queueScanAfter := nextKey\<rparr> in
               case routingNodes r of
                 Inl _ \<Rightarrow> r
               | Inr nodes \<Rightarrow>
                   (case interactiveDemandSnapshot L nodes policy owners (rl_store r) of
                      Inl _ \<Rightarrow> r
                    | Inr demand \<Rightarrow>
                        (case (if ic_Scopes policy = [] then Some jobs else mergeInteractiveQueue jobs (dem_jobs demand) owners) of
                           None \<Rightarrow> r
                         | Some jobs \<Rightarrow> queuedLoop L verify env demand jobs nodes r)))"

text \<open>One round of the dispatch loop. The scheduled actions, which enter as ordinary submissions, and the
  pruning of history are left out.\<close>

definition dispatch :: "goLib \<Rightarrow> verifier \<Rightarrow> dispatchEnv \<Rightarrow> relay \<Rightarrow> relay" where
  "dispatch L verify env r =
     (case maintenanceDue (env_now env) r of (due, r) \<Rightarrow>
        dispatchPass L verify env (if due then runMaintenance L (env_now env) r else r))"
section \<open>A worker's connection\<close>

definition connectWorker :: "goLib \<Rightarrow> gotime \<Rightarrow> tokenRecord \<Rightarrow> string \<Rightarrow> node \<Rightarrow> bool \<Rightarrow> relay \<Rightarrow> node option \<times> relay" where
  "connectWorker L now record hash hello authorityWritten r =
     (if node_ID hello \<noteq> tok_Subject record \<or> \<not> NodeCredentialValid (rl_store r) hash (tok_Subject record) now then (None, r)
      else case helloNode L now record hello (rl_store r) of
        None \<Rightarrow> (None, r)
      | Some node \<Rightarrow>
          (let nodeID = node_ID node; previousNode = GetNode (rl_store r) nodeID in
           case UpsertNodePinnedAuthorized L now node hash (rl_store r) of
             (Inl _, st) \<Rightarrow> (None, r\<lparr>rl_store := st\<rparr>)
           | (Inr _, st) \<Rightarrow>
               (let previous = map_of (rl_workers r) nodeID;
                    r = setWorker nodeID (newWorkerConnection (cap_MaxConcurrent (node_Capabilities node)) [hash]) (r\<lparr>rl_store := st\<rparr>)
                in if \<not> NodeCredentialValid (rl_store r) hash nodeID now
                   then (None,
                     case previous of
                       Some w \<Rightarrow>
                         if NodeCredentialValid (rl_store r) (wc_credentialHash w) nodeID now
                         then (let r = setWorker nodeID w r in
                               case previousNode of
                                 Inl _ \<Rightarrow> inStore (SetNodeConnected now nodeID False) r
                               | Inr n \<Rightarrow>
                                   (case UpsertNode n (rl_store r) of
                                      (Inl _, st) \<Rightarrow> disconnectNode L now nodeID True (r\<lparr>rl_store := st\<rparr>)
                                    | (Inr _, st) \<Rightarrow>
                                        if NodeCredentialValid st (wc_credentialHash w) nodeID now then r\<lparr>rl_store := st\<rparr>
                                        else disconnectNode L now nodeID True (r\<lparr>rl_store := st\<rparr>)))
                         else inStore (SetNodeConnected now nodeID False) (r\<lparr>rl_workers := AList.delete nodeID (rl_workers r)\<rparr>)
                     | None \<Rightarrow> inStore (SetNodeConnected now nodeID False) (r\<lparr>rl_workers := AList.delete nodeID (rl_workers r)\<rparr>))
                   else let r = (if previous = None then r else inStore (RequeueNode L now nodeID ''worker connection replaced'') r) in
                        if authorityWritten then (Some node, r) else (None, disconnectNode L now nodeID True r))))"

record heartbeatRateWindow =
  hw_started :: gotime
  hw_count :: int
  hw_bytes :: int

definition maximumHeartbeatBurst :: int where "maximumHeartbeatBurst = 1000"
definition maximumHeartbeatWindowBytes :: int where "maximumHeartbeatWindowBytes = 33554432"
definition workerHeartbeatWindow :: duration where "workerHeartbeatWindow = 10 * second"

definition allowHeartbeatWindow :: "heartbeatRateWindow \<Rightarrow> int \<Rightarrow> gotime \<Rightarrow> bool \<times> heartbeatRateWindow" where
  "allowHeartbeatWindow window bytes now =
     (let window = (if hw_started window = 0 \<or> timeSub now (hw_started window) \<ge> workerHeartbeatWindow
                    then \<lparr>hw_started = now, hw_count = 0, hw_bytes = 0\<rparr> else window)
      in if bytes < 0 \<or> bytes > maximumHeartbeatWindowBytes - hw_bytes window then (False, window)
         else let window = window\<lparr>hw_count := hw_count window + 1, hw_bytes := hw_bytes window + bytes\<rparr>
              in (hw_count window \<le> maximumHeartbeatBurst, window))"

record wireMessage =
  wm_Type :: string
  wm_Capabilities :: "capabilities option"
  wm_JobID :: string
  wm_Attempt :: int
  wm_Fence :: "assignmentFence option"
  wm_Result :: string
  wm_SealedResult :: "sealedEnvelope option"
  wm_Usage :: usage
  wm_Execution :: "executionMetadata option"
  wm_Progress :: "jobProgress option"
  wm_Error :: string
  wm_FailureCode :: string

text \<open>The job that a refused completion leaves in hand: the stored one when a guard has refused it, the
  finished one when a later write of the transaction has failed.\<close>

definition refusedJob :: "goLib \<Rightarrow> gotime \<Rightarrow> string \<Rightarrow> usage \<Rightarrow> wireMessage \<Rightarrow> store \<Rightarrow> job option" where
  "refusedJob L now nodeID usage m st =
     (case heldJobTx L (wm_JobID m) nodeID (wm_Attempt m) (wm_Fence m) st of
        Inl _ \<Rightarrow> (case getJSON (st_jobs st) (wm_JobID m) of Inl _ \<Rightarrow> None | Inr job \<Rightarrow> Some job)
      | Inr job \<Rightarrow>
          (case reportedFailure L job (wm_Error m) (wm_FailureCode m) of (jobError, failureCode) \<Rightarrow>
             Some (if preExecutionRetryAllowed L job (wm_Result m) (wm_SealedResult m) usage jobError (wm_FailureCode m) failureCode [wm_Execution m]
                   then retriedJob now job
                   else finishedJob L now job (wm_Result m) (wm_SealedResult m) usage jobError failureCode [wm_Execution m])))"

definition finalFor :: "string \<Rightarrow> wireMessage \<Rightarrow> job option \<Rightarrow> bool" where
  "finalFor nodeID m held \<longleftrightarrow> (case held of
     None \<Rightarrow> False
   | Some job \<Rightarrow> (job_Status job = JobCompleted \<or> job_Status job = JobFailed \<or> job_Status job = JobCancelled)
       \<and> job_AssignedNode job = nodeID \<and> job_Attempt job = wm_Attempt m \<and> assignmentFencePointersEqual (job_AssignmentFence job) (wm_Fence m))"

definition handleResult :: "goLib \<Rightarrow> gotime \<Rightarrow> string \<Rightarrow> wireMessage \<Rightarrow> workerConnection \<Rightarrow> relay \<Rightarrow> relay" where
  "handleResult L now nodeID m w r =
     (let usage = priceUsage (wm_Usage m) (rc_Pricing (rl_cfg r)) in
      case CompleteJobWithFailureFenced L now (wm_JobID m) nodeID (wm_Attempt m) (wm_Fence m) (wm_Result m) (wm_SealedResult m) usage
             (wm_Error m) (wm_FailureCode m) [wm_Execution m] (rl_store r) of
        (outcome, st) \<Rightarrow>
          (let completed = (case outcome of Inl _ \<Rightarrow> False | Inr _ \<Rightarrow> True);
               executionEnded = (completed \<or> finalFor nodeID m (refusedJob L now nodeID usage m (rl_store r))
                 \<or> matchesDispatch (wm_JobID m) (wm_Attempt m) [wm_Fence m] w);
               r = r\<lparr>rl_store := st\<rparr>
           in if \<not> executionEnded then r
              else setWorker nodeID (release (wm_JobID m) w)
                     (inStore (ReleaseAdapterSessionJobLock L (wm_JobID m))
                       (inStore (ResolveRoutingRecoveryProbe now nodeID (wm_JobID m) []) r))))"

record workerSession =
  ws_record :: tokenRecord
  ws_node :: node
  ws_window :: heartbeatRateWindow

text \<open>One message of the registered connection of a node; \<open>None\<close> ends the connection.\<close>

definition handleMessage :: "goLib \<Rightarrow> gotime \<Rightarrow> int \<Rightarrow> wireMessage \<Rightarrow> workerSession \<Rightarrow> workerConnection \<Rightarrow> relay \<Rightarrow> workerSession option \<times> relay" where
  "handleMessage L now bytes m s w r =
     (let nodeID = node_ID (ws_node s) in
      if \<not> NodeCredentialValid (rl_store r) (wc_credentialHash w) nodeID now then (None, disconnectNode L now nodeID True r)
      else if wm_Type m = ''heartbeat''
      then (case allowHeartbeatWindow (ws_window s) bytes now of
              (False, _) \<Rightarrow> (None, disconnectNode L now nodeID True r)
            | (True, window) \<Rightarrow>
                (case heartbeatNode L now (ws_record s) (wm_Capabilities m) w (ws_node s) of
                   (node, w) \<Rightarrow> (Some (s\<lparr>ws_node := node, ws_window := window\<rparr>), inStore (UpsertNode node) (setWorker nodeID w r))))
      else if wm_Type m = ''started''
      then (Some s, inStore (MarkRunningFenced L now (wm_JobID m) nodeID (wm_Attempt m) (wm_Fence m)) r)
      else if wm_Type m = ''progress''
      then (Some s, case wm_Progress m of
              None \<Rightarrow> r
            | Some p \<Rightarrow> inStore (UpdateJobProgressFenced L now (wm_JobID m) nodeID (wm_Attempt m) (wm_Fence m) p) r)
      else if wm_Type m = ''result'' then (Some s, handleResult L now nodeID m w r)
      else (Some s, r))"
section \<open>Small steps\<close>

text \<open>What any handler of the relay may do at one point, between two points of any other: run an operation
  of the store, change the slots of a connection except to dispatch, take a queued job for a node, hand
  a job that was taken to the connection of its node, give it up, register or remove a connection, send
  a cancellation, or change its own bookkeeping.\<close>

definition dispatches :: "slotCall \<Rightarrow> bool" where
  "dispatches c \<longleftrightarrow> (\<exists>j a fs. c = BeginDispatch j a fs True)"

inductive relayStep :: "goLib \<Rightarrow> jsonCodec \<Rightarrow> relay \<Rightarrow> relay \<Rightarrow> bool" for L :: goLib and J :: jsonCodec where
  Operation: "storeStep L J (rl_store r) st \<Longrightarrow> relayStep L J r (r\<lparr>rl_store := st\<rparr>)"
| Slot: "map_of (rl_workers r) n = Some w \<Longrightarrow> slotStep c w w' \<Longrightarrow> \<not> dispatches c \<Longrightarrow> relayStep L J r (setWorker n w' r)"
| Take: "assignJobAuthorized L raw now i n cred adapter decision (Some (rl_authority r)) (rl_store r) = (Inr job, st) \<Longrightarrow>
    relayStep L J r (r\<lparr>rl_store := st, rl_taken := (n, job) # rl_taken r\<rparr>)"
| Send: "rl_taken r = ts @ (n, job) # us \<Longrightarrow> map_of (rl_workers r) n = Some w \<Longrightarrow>
    beginDispatch (job_ID job) (job_Attempt job) [job_AssignmentFence job] w = (True, w') \<Longrightarrow>
    relayStep L J r ((setWorker n w' r)\<lparr>rl_taken := ts @ us, rl_sent := rl_sent r @ [(n, job)]\<rparr>)"
| GiveUp: "rl_taken r = ts @ t # us \<Longrightarrow> relayStep L J r (r\<lparr>rl_taken := ts @ us\<rparr>)"
| Register: "relayStep L J r (setWorker n (newWorkerConnection c hs) r)"
| Restore: "slotsWF w \<Longrightarrow> (\<And>i v. (i, v) \<in> set (wc_inFlight w) \<Longrightarrow> wr_dispatchStarted v \<Longrightarrow>
      \<exists>job. (n, job) \<in> set (rl_sent r) \<and> job_ID job = i \<and> job_Attempt job = wr_attempt v) \<Longrightarrow> relayStep L J r (setWorker n w r)"
| Remove: "relayStep L J r (r\<lparr>rl_workers := AList.delete n (rl_workers r)\<rparr>)"
| CancelMessage: "relayStep L J r (r\<lparr>rl_cancels := rl_cancels r @ [x]\<rparr>)"
| Bookkeeping: "relayStep L J r (r\<lparr>rl_nextMaintenance := m, rl_lastOwner := lo, rl_queueScanAfter := q, rl_quiescing := b\<rparr>)"

definition relaySteps :: "goLib \<Rightarrow> jsonCodec \<Rightarrow> relay \<Rightarrow> relay \<Rightarrow> bool" where
  "relaySteps L J = (relayStep L J)\<^sup>*\<^sup>*"

text \<open>What holds of the relay at every point: the store is consistent; the slot tables are well formed, and a
  dispatched slot stands for a message; every message and every assignment in hand stands for a stored job
  that is no longer behind its attempt; no attempt of a job is among them twice.\<close>

definition attemptOf :: "string \<times> job \<Rightarrow> string \<times> int" where
  "attemptOf t = (job_ID (snd t), job_Attempt (snd t))"

definition reached :: "store \<Rightarrow> string \<times> int \<Rightarrow> bool" where
  "reached st ia \<longleftrightarrow> (\<exists>j. bget (st_jobs st) (fst ia) = Some (Val j) \<and> 0 < snd ia \<and> snd ia \<le> job_Attempt j)"

definition backed :: "(string \<times> job) list \<Rightarrow> string \<Rightarrow> workerConnection \<Rightarrow> bool" where
  "backed sent n w \<longleftrightarrow> (\<forall>(i, v) \<in> set (wc_inFlight w). wr_dispatchStarted v \<longrightarrow>
     (\<exists>job. (n, job) \<in> set sent \<and> job_ID job = i \<and> job_Attempt job = wr_attempt v))"

definition relayInv :: "relay \<Rightarrow> bool" where
  "relayInv r \<longleftrightarrow> systemInv (rl_store r) \<and> (\<forall>(n, w) \<in> set (rl_workers r). slotsWF w \<and> backed (rl_sent r) n w)
     \<and> (\<forall>t \<in> set (rl_sent r @ rl_taken r). reached (rl_store r) (attemptOf t))
     \<and> distinct (map attemptOf (rl_sent r @ rl_taken r))"

lemma reached_grows:
  assumes "jobsStep st st'" and "reached st ia"
  shows "reached st' ia"
proof -
  from assms(2) obtain j where j: "jobView st (fst ia) = Some (jobState j)" "0 < snd ia" "snd ia \<le> job_Attempt j"
    by (auto simp: reached_def jobView_Some)
  from jobsStep_grows [OF assms(1) j(1)] obtain j' where "bget (st_jobs st') (fst ia) = Some (Val j')" "job_Attempt j \<le> job_Attempt j'"
    by (auto simp: jobView_Some jobGrows_def jobState_def)
  then show ?thesis using j by (auto simp: reached_def)
qed

lemma storeStep_relay:
  assumes "storeStep L J (rl_store r) st" and "relayInv r"
  shows "relayInv (r\<lparr>rl_store := st\<rparr>)"
proof -
  have "systemInv st" "jobsStep (rl_store r) st" using storeStep_moves [OF assms(1)] assms(2) by (auto simp: relayInv_def)
  then show ?thesis using assms(2) reached_grows by (auto simp: relayInv_def)
qed

lemma set_update: "set (AList.update k v xs) \<subseteq> insert (k, v) (set xs)"
  by (induction xs) (auto split: if_splits)

lemma setWorker_relay:
  assumes "relayInv r" and "slotsWF w" and "backed (rl_sent r) n w"
  shows "relayInv (setWorker n w r)"
  using assms set_update [of n w "rl_workers r"] by (auto simp: relayInv_def setWorker_def)

lemma slotStep_backed:
  assumes "slotStep c w w'" and "\<not> dispatches c" and "backed sent n w"
  shows "backed sent n w'"
  using assms(1)
proof cases
  case (reserve j k i ok)
  then show ?thesis using assms(3) set_update [of j "freshReservation i" "wc_inFlight w"]
    by (auto simp: reserveCapacity_def backed_def freshReservation_def split: if_splits)
next
  case (mark j state)
  then show ?thesis
  proof (cases "map_of (wc_inFlight w) j")
    case (Some v)
    let ?v = "v\<lparr>wr_storeTerminal := True\<rparr>"
    have w': "wc_inFlight w' = AList.update j ?v (wc_inFlight w)" using mark Some by (auto simp: markStoreTerminalState_def split: if_splits)
    have "\<exists>job. (n, job) \<in> set sent \<and> job_ID job = i \<and> job_Attempt job = wr_attempt x"
      if "(i, x) \<in> set (wc_inFlight w')" "wr_dispatchStarted x" for i x
    proof (cases "(i, x) \<in> set (wc_inFlight w)")
      case True
      then show ?thesis using assms(3) that(2) by (auto simp: backed_def)
    next
      case False
      then have "i = j" "x = ?v" using that(1) set_update [of j ?v "wc_inFlight w"] by (auto simp: w')
      then show ?thesis using assms(3) that(2) map_of_SomeD [OF Some] by (auto simp: backed_def)
    qed
    then show ?thesis by (auto simp: backed_def)
  qed (use assms(3) in \<open>simp add: markStoreTerminalState_def\<close>)
next
  case (begin_dispatch j a fs ok)
  then show ?thesis using assms(2,3) by (auto simp: beginDispatch_def dispatches_def Let_def split: option.splits if_splits)
next
  case (free j)
  have "set (AList.delete j (wc_inFlight w)) \<subseteq> set (wc_inFlight w)" by (auto simp: AList.delete_eq)
  then show ?thesis using free assms(3) by (auto simp: release_def backed_def)
qed (use assms(3) in \<open>auto simp: updateCapacity_def backed_def\<close>)
lemma beginDispatch_backed:
  assumes "beginDispatch (job_ID job) (job_Attempt job) fs w = (ok, w')" and "backed sent n w"
  shows "backed (sent @ [(n, job)]) n w'"
proof (cases "map_of (wc_inFlight w) (job_ID job)")
  case None
  then show ?thesis using assms by (auto simp: beginDispatch_def backed_def)
next
  case (Some v)
  define v' where "v' = (case fs of Some fence # _ \<Rightarrow> v\<lparr>wr_dispatchStarted := True, wr_attempt := job_Attempt job, wr_fence := Some fence\<rparr>
    | _ \<Rightarrow> v\<lparr>wr_dispatchStarted := True, wr_attempt := job_Attempt job\<rparr>)"
  have "wr_attempt v' = job_Attempt job" by (auto simp: v'_def split: list.splits option.splits)
  moreover have "w' = w \<or> wc_inFlight w' = AList.update (job_ID job) v' (wc_inFlight w)"
    using assms(1) Some by (auto simp: beginDispatch_def Let_def v'_def split: if_splits list.splits option.splits)
  ultimately show ?thesis using assms(2) set_update [of "job_ID job" v' "wc_inFlight w"] by (fastforce simp: backed_def)
qed

lemma take_relay:
  assumes "assignJobAuthorized L raw now i n cred adapter decision authority (rl_store r) = (Inr job, st)" and "relayInv r"
  shows "relayInv (r\<lparr>rl_store := st, rl_taken := (n, job) # rl_taken r\<rparr>)"
proof -
  have run: "assignJobTx L raw now i n cred adapter decision authority (rl_store r) = Inr (job, st)"
    using assms(1) by (simp add: assignJobAuthorized_def update_Inr)
  have inv: "storeInv (rl_store r)" using assms(2) by (simp add: relayInv_def systemInv_def)
  from assignJobTx_spec [OF inv run] obtain j where j: "bget (st_jobs (rl_store r)) i = Some (Val j)"
    and new: "jobWF i job" "st_jobs st = putJSON i (persistJob job) (st_jobs (rl_store r))" "job_Attempt job = job_Attempt j + 1" by blast
  have "0 \<le> job_Attempt j" using storeInv_get [OF inv, of i j] j by (simp add: getJSON_eq_Inr jobWF_def)
  then have here: "reached st (attemptOf (n, job))" using new by (simp add: reached_def attemptOf_def jobWF_def bucket_simps)
  have "\<not> reached (rl_store r) (attemptOf (n, job))" using new j by (simp add: reached_def attemptOf_def jobWF_def)
  then have "attemptOf (n, job) \<notin> attemptOf ` set (rl_sent r @ rl_taken r)" using assms(2) by (auto simp: relayInv_def)
  moreover have "relayInv (r\<lparr>rl_store := st\<rparr>)"
    by (rule storeStep_relay [OF storeStep.Assign [OF assms(1)] assms(2)])
  ultimately show ?thesis using here by (auto simp: relayInv_def)
qed

lemma relayInv_worker: "relayInv r \<Longrightarrow> map_of (rl_workers r) n = Some w \<Longrightarrow> slotsWF w \<and> backed (rl_sent r) n w"
  by (auto simp: relayInv_def dest: map_of_SomeD)

lemma backed_mono: "backed sent n w \<Longrightarrow> set sent \<subseteq> set sent' \<Longrightarrow> backed sent' n w"
  by (fastforce simp: backed_def)

lemma send_relay:
  assumes "relayInv r" and "rl_taken r = ts @ (n, job) # us" and "map_of (rl_workers r) n = Some w"
    and "beginDispatch (job_ID job) (job_Attempt job) fs w = (ok, w')"
  shows "relayInv ((setWorker n w' r)\<lparr>rl_taken := ts @ us, rl_sent := rl_sent r @ [(n, job)]\<rparr>)"
proof -
  let ?r = "r\<lparr>rl_taken := ts @ us, rl_sent := rl_sent r @ [(n, job)]\<rparr>"
  from relayInv_worker [OF assms(1,3)] have w: "slotsWF w" "backed (rl_sent r) n w" by auto
  have "relayInv ?r" using assms(1) by (auto simp: relayInv_def assms(2) intro: backed_mono)
  moreover have "slotsWF w'" by (rule slotStep_wf [OF slotStep.begin_dispatch [OF assms(4)] w(1)])
  moreover have "backed (rl_sent ?r) n w'" using beginDispatch_backed [OF assms(4) w(2)] by simp
  ultimately have "relayInv (setWorker n w' ?r)" by (rule setWorker_relay)
  then show ?thesis by (simp add: setWorker_def relayInv_def)
qed

lemma relayStep_inv: "relayStep L J r r' \<Longrightarrow> relayInv r \<Longrightarrow> relayInv r'"
proof (induction rule: relayStep.induct)
  case (Operation r st)
  then show ?case using storeStep_relay by blast
next
  case (Slot r n w c w')
  then show ?case using setWorker_relay slotStep_wf slotStep_backed relayInv_worker by metis
next
  case (Take raw now i n cred adapter decision r job st)
  then show ?case using take_relay by blast
next
  case (Send r ts n job us w w')
  then show ?case using send_relay by blast
next
  case (GiveUp r ts t us)
  then show ?case by (auto simp: relayInv_def)
next
  case (Register r n c hs)
  then show ?case by (intro setWorker_relay) (simp_all add: new_wf, simp add: backed_def newWorkerConnection_def)
next
  case (Restore w n r)
  then show ?case by (intro setWorker_relay) (auto simp: backed_def)
next
  case (Remove r n)
  then show ?case by (auto simp: relayInv_def AList.delete_eq)
qed (simp_all add: relayInv_def)

lemma relaySteps_inv: "relaySteps L J r r' \<Longrightarrow> relayInv r \<Longrightarrow> relayInv r'"
  unfolding relaySteps_def by (induction rule: rtranclp_induct) (auto dest: relayStep_inv)

lemma relayStep_sent: "relayStep L J r r' \<Longrightarrow> \<exists>new. rl_sent r' = rl_sent r @ new"
  by (induction rule: relayStep.induct) (auto simp: setWorker_def)
section \<open>The handlers take small steps\<close>

named_theorems relay_steps \<open>a handler that has taken small steps goes on by small steps\<close>

lemma relaySteps_refl [simp]: "relaySteps L J r r"
  by (simp add: relaySteps_def)

lemma relaySteps_one: "relayStep L J r r' \<Longrightarrow> relaySteps L J r r'"
  by (simp add: relaySteps_def)

lemma relaySteps_trans: "relaySteps L J r s \<Longrightarrow> relaySteps L J s t \<Longrightarrow> relaySteps L J r t"
  by (simp add: relaySteps_def)

lemma after: "relaySteps L J s t \<Longrightarrow> relaySteps L J r s \<Longrightarrow> relaySteps L J r t"
  by (rule relaySteps_trans)

lemma relaySteps_store: "storeStep L J (rl_store r) st \<Longrightarrow> relaySteps L J r (r\<lparr>rl_store := st\<rparr>)"
  by (rule relaySteps_one) (rule relayStep.Operation)

lemma inStore_steps: "(\<And>x st. op (rl_store r) = (x, st) \<Longrightarrow> storeStep L J (rl_store r) st) \<Longrightarrow> relaySteps L J r (inStore op r)"
  unfolding inStore_def by (rule relaySteps_store) (metis prod.collapse)

lemma inStore_operations:
  "relaySteps L J r (inStore (ReleaseAdapterSessionJobLock L i) r)"
  "relaySteps L J r (inStore (ResolveRoutingRecoveryProbe now n i code) r)"
  "relaySteps L J r (inStore (RequeueNode L now n reason) r)"
  "relaySteps L J r (inStore (SetNodeConnected now n c) r)"
  "relaySteps L J r (inStore (GarbageCollectReservations now) r)"
  "relaySteps L J r (inStore (UpsertNode node) r)"
  by (rule inStore_steps, erule storeStep.intros)+

lemmas inStore_operations_then [relay_steps] = inStore_operations [THEN after]

lemma inStore_reports:
  "relaySteps L J r (inStore (MarkRunningFenced L now i n attempt fence) r)"
  "relaySteps L J r (inStore (UpdateJobProgressFenced L now i n attempt fence p) r)"
  unfolding MarkRunningFenced_def UpdateJobProgressFenced_def by (rule inStore_steps, erule storeStep.intros)+

lemmas inStore_reports_then [relay_steps] = inStore_reports [THEN after]

lemma slot_steps:
  "map_of (rl_workers r) n = Some w \<Longrightarrow> slotStep c w w' \<Longrightarrow> \<not> dispatches c \<Longrightarrow> relaySteps L J r (setWorker n w' r)"
  by (rule relaySteps_one) (rule relayStep.Slot)

lemma release_steps: "map_of (rl_workers r) n = Some w \<Longrightarrow> relaySteps L J r (setWorker n (release i w) r)"
  by (erule slot_steps) (rule slotStep.free, simp add: dispatches_def)

lemma mark_steps: "relaySteps L J r (snd (markWorkerReservationTerminalState n i r))"
proof (cases "map_of (rl_workers r) n")
  case (Some w)
  obtain state w' where m: "markStoreTerminalState i w = (state, w')" by force
  have "relaySteps L J r (setWorker n w' r)" by (rule slot_steps [OF Some slotStep.mark [OF m]]) (simp add: dispatches_def)
  then show ?thesis using Some m by (simp add: markWorkerReservationTerminalState_def)
qed (simp add: markWorkerReservationTerminalState_def)

lemmas mark_steps_then [relay_steps] = mark_steps [THEN after]

lemma cancelWorker_steps: "relaySteps L J r (cancelWorkerExecution job r)"
  by (auto simp: cancelWorkerExecution_def intro: relaySteps_one relayStep.CancelMessage split: option.splits)

lemmas cancelWorker_steps_then [relay_steps] = cancelWorker_steps [THEN after]

lemma finalize_steps: "relaySteps L J r (snd (finalizeCancelledJob L now job started r))"
proof -
  obtain state r' where m: "markWorkerReservationTerminalState (job_AssignedNode job) (job_ID job) r = (state, r')" by force
  then have "relaySteps L J r r'" using mark_steps [of L J r "job_AssignedNode job" "job_ID job"] by simp
  then show ?thesis using m by (auto simp: finalizeCancelledJob_def Let_def intro: relay_steps)
qed

lemmas finalize_steps_then [relay_steps] = finalize_steps [THEN after]

lemma cancelJob_steps: "relaySteps L J r (snd (cancelJobOnRelay L now existing i owner tenants r))"
proof -
  obtain x st where c: "CancelJobForProducer L now i owner tenants (rl_store r) = (x, st)" by force
  have "relaySteps L J r (r\<lparr>rl_store := st\<rparr>)" by (rule relaySteps_store) (rule storeStep.Cancel [OF c])
  then show ?thesis using c by (auto simp: cancelJobOnRelay_def intro: relay_steps split: sum.splits)
qed

lemmas cancelJob_steps_then [relay_steps] = cancelJob_steps [THEN after]

lemma disconnect_steps: "relaySteps L J r (disconnectNode L now n current r)"
proof -
  have "relaySteps L J r (r\<lparr>rl_workers := AList.delete n (rl_workers r)\<rparr>)" by (rule relaySteps_one) (rule relayStep.Remove)
  then show ?thesis unfolding disconnectNode_def by (auto intro!: relay_steps)
qed

lemmas disconnect_steps_then [relay_steps] = disconnect_steps [THEN after]

lemma closeRecovered_steps: "relaySteps L J r (closeRecovered L jobs r)"
proof (induction L jobs r rule: closeRecovered.induct)
  case (2 L job rest r)
  obtain state r' where m: "markWorkerReservationTerminalState (job_AssignedNode job) (job_ID job) r = (state, r')" by force
  then have "relaySteps L J r r'" using mark_steps [of L J r "job_AssignedNode job" "job_ID job"] by simp
  moreover have "relaySteps L J r' (if state = workerReservationDispatched then cancelWorkerExecution job r'
      else inStore (ReleaseAdapterSessionJobLock L (job_ID job)) r')" by (auto intro!: relay_steps)
  ultimately show ?case using 2 [OF m [symmetric]] m by (auto intro: relaySteps_trans)
qed simp

lemmas closeRecovered_steps_then [relay_steps] = closeRecovered_steps [THEN after]

lemma bookkeeping:
  "relaySteps L J r (r\<lparr>rl_nextMaintenance := m\<rparr>)" "relaySteps L J r (r\<lparr>rl_queueScanAfter := q\<rparr>)" "relaySteps L J r (recordDispatchedOwner p owner r)"
proof -
  have step: "relaySteps L J r (r\<lparr>rl_nextMaintenance := m, rl_lastOwner := lo, rl_queueScanAfter := q, rl_quiescing := b\<rparr>)" for m lo q b
    by (rule relaySteps_one) (rule relayStep.Bookkeeping)
  show "relaySteps L J r (r\<lparr>rl_nextMaintenance := m\<rparr>)"
    using step [where m = m and lo = "rl_lastOwner r" and q = "rl_queueScanAfter r" and b = "rl_quiescing r"] by (cases r) simp
  show "relaySteps L J r (r\<lparr>rl_queueScanAfter := q\<rparr>)"
    using step [where m = "rl_nextMaintenance r" and lo = "rl_lastOwner r" and q = q and b = "rl_quiescing r"] by (cases r) simp
  show "relaySteps L J r (recordDispatchedOwner p owner r)"
    using step [where m = "rl_nextMaintenance r" and lo = "(rl_lastOwner r)(p := owner)" and q = "rl_queueScanAfter r" and b = "rl_quiescing r"]
    by (cases r) (simp add: recordDispatchedOwner_def)
qed

lemmas bookkeeping_then [relay_steps] = bookkeeping [THEN after]

lemma maintenance_steps: "relaySteps L J r (runMaintenance L now r)"
proof -
  define g where "g = (if fst (maintenanceCandidates (rl_store r)) then inStore (GarbageCollectReservations now) r else r)"
  have g: "relaySteps L J r g" by (auto simp: g_def intro!: relay_steps)
  obtain x st where s: "RecoverStaleJobs L now now (rc_AssignmentTTL (rl_cfg g)) (rc_JobTimeout (rl_cfg g)) (rl_store g) = (x, st)" by force
  have "relaySteps L J g (g\<lparr>rl_store := st\<rparr>)" by (rule relaySteps_store) (rule storeStep.Sweep [OF s])
  with g have "relaySteps L J r (g\<lparr>rl_store := st\<rparr>)" by (rule relaySteps_trans)
  moreover have "runMaintenance L now r = g \<or> runMaintenance L now r = g\<lparr>rl_store := st\<rparr>
      \<or> (\<exists>jobs. runMaintenance L now r = closeRecovered L jobs (g\<lparr>rl_store := st\<rparr>))"
    using s by (cases x) (auto simp: runMaintenance_def case_prod_beta Let_def g_def [symmetric])
  ultimately show ?thesis using g by (metis relaySteps_trans closeRecovered_steps)
qed

lemmas maintenance_steps_then [relay_steps] = maintenance_steps [THEN after]

lemma setWorker_simps [simp]:
  "map_of (rl_workers (setWorker n w r)) n = Some w" "setWorker n w (setWorker n w' r) = setWorker n w r"
  "rl_store (setWorker n w r) = rl_store r" "rl_sent (setWorker n w r) = rl_sent r" "rl_taken (setWorker n w r) = rl_taken r"
  "rl_authority (setWorker n w r) = rl_authority r" "rl_cfg (setWorker n w r) = rl_cfg r"
  "(setWorker n w r)\<lparr>rl_store := st\<rparr> = setWorker n w (r\<lparr>rl_store := st\<rparr>)"
  "rl_workers (setWorker n w r) = AList.update n w (rl_workers r)"
  by (simp_all add: setWorker_def update_conv')

lemma slot_then: "relaySteps L J r s \<Longrightarrow> map_of (rl_workers s) n = Some w \<Longrightarrow> slotStep c w w' \<Longrightarrow> \<not> dispatches c \<Longrightarrow>
    relaySteps L J r (setWorker n w' s)"
  by (rule relaySteps_trans) (auto intro: slot_steps)

lemma handOver_steps:
  assumes "map_of (rl_workers r) (node_ID node) = Some w"
  shows "relaySteps L J (r\<lparr>rl_taken := (node_ID node, job) # rl_taken r\<rparr>) (snd (handOver L env interactive node w job nodes r))"
proof -
  let ?n = "node_ID node" and ?r = "r\<lparr>rl_taken := (node_ID node, job) # rl_taken r\<rparr>"
  obtain ok w' where b: "beginDispatch (job_ID job) (job_Attempt job) [job_AssignmentFence job] w = (ok, w')" by force
  show ?thesis
  proof (cases ok)
    case False
    then have w': "w' = w" using b by (auto simp: beginDispatch_def Let_def split: option.splits if_splits)
    have "relayStep L J ?r (?r\<lparr>rl_taken := [] @ rl_taken r\<rparr>)" by (rule relayStep.GiveUp) simp
    then have "relaySteps L J ?r r" by (simp add: relaySteps_one)
    from slot_then [OF this assms slotStep.free] show ?thesis using b False w' by (simp add: handOver_def dispatches_def)
  next
    case True
    define s where "s = (setWorker ?n w' r)\<lparr>rl_sent := rl_sent r @ [(?n, job)]\<rparr>"
    have "relayStep L J ?r ((setWorker ?n w' ?r)\<lparr>rl_taken := [] @ rl_taken r, rl_sent := rl_sent ?r @ [(?n, job)]\<rparr>)"
      by (rule relayStep.Send [of _ "[]"]) (use b True assms in simp_all)
    moreover have "(setWorker ?n w' ?r)\<lparr>rl_taken := [] @ rl_taken r, rl_sent := rl_sent ?r @ [(?n, job)]\<rparr> = s"
      by (simp add: s_def setWorker_def)
    ultimately have s: "relaySteps L J ?r s" by (simp add: relaySteps_one)
    have "map_of (rl_workers s) ?n = Some w'" by (simp add: s_def update_conv')
    from slot_then [OF s this slotStep.free, of "job_ID job"] have "relaySteps L J ?r (setWorker ?n (release (job_ID job) w') s)"
      by (simp add: dispatches_def)
    then show ?thesis using b True s by (auto simp: handOver_def s_def [symmetric] Let_def intro!: relay_steps)
  qed
qed

lemma assignQueued_authorized:
  assumes "assignQueued L env d node w choice decision r = (x, st)"
  shows "(\<exists>raw cred adapter dec. assignJobAuthorized L raw (env_now env) (job_ID (dj_queued d)) (node_ID node) cred adapter dec
      (Some (rl_authority r)) (rl_store r) = (x, st)) \<or> (\<exists>e. x = Inl e \<and> st = rl_store r)"
  using assms
  by (auto simp: assignQueued_def Let_def AssignAdapterJobAuthorizedFencedWithDecision_def AssignJobAuthorizedFencedWithDecision_def
      split: if_splits)

lemma assign_refused_steps:
  assumes "assignQueued L env d node w choice decision r = (Inl e, st)"
  shows "relaySteps L J r (r\<lparr>rl_store := st\<rparr>)"
  using assignQueued_authorized [OF assms] by (auto intro: relaySteps_store storeStep.Assign)

lemma assign_taken_steps:
  assumes "assignQueued L env d node w choice decision r = (Inr job, st)"
  shows "relaySteps L J r (r\<lparr>rl_store := st, rl_taken := (node_ID node, job) # rl_taken r\<rparr>)"
  using assignQueued_authorized [OF assms] by (auto intro: relaySteps_one relayStep.Take)

lemma reserve_steps:
  assumes "map_of (rl_workers r) n = Some w" and "reserveCapacity i k b w = (ok, w')"
  shows "relaySteps L J r (setWorker n w' r)"
  by (rule slot_steps [OF assms(1) slotStep.reserve [OF assms(2)]]) (simp add: dispatches_def)
lemma assignTo_steps:
  assumes "map_of (rl_workers r) (node_ID node) = Some w" and "assignTo L env d node w choice decision nodes r = (k, decision', nodes', r')"
  shows "relaySteps L J r r'"
proof -
  let ?dec = "boundRoutingDecision (decision\<lparr>dec_SelectedNodeID := node_ID node, dec_SelectedNodeName := node_Name node\<rparr>)"
  obtain x st where a: "assignQueued L env d node w choice ?dec r = (x, st)" by force
  show ?thesis
  proof (cases x)
    case (Inr job)
    have "relaySteps L J r (r\<lparr>rl_store := st, rl_taken := (node_ID node, job) # rl_taken r\<rparr>)"
      by (rule assign_taken_steps) (use a Inr in simp)
    then have "relaySteps L J r (snd (handOver L env (interactiveJob r (dj_queued d)) node w job nodes (r\<lparr>rl_store := st\<rparr>)))"
      using after [OF handOver_steps [of "r\<lparr>rl_store := st\<rparr>" node w L J job]] assms(1) by simp
    then show ?thesis using assms(2) a Inr by (auto simp: assignTo_def Let_def)
  next
    case (Inl e)
    let ?f = "setWorker (node_ID node) (release (job_ID (dj_queued d)) w) (r\<lparr>rl_store := st\<rparr>)"
    have "relaySteps L J r (r\<lparr>rl_store := st\<rparr>)" by (rule assign_refused_steps) (use a Inl in simp)
    from slot_then [OF this _ slotStep.free] have f: "relaySteps L J r ?f" using assms(1) by (simp add: dispatches_def)
    then have "relaySteps L J r (disconnectNode L (env_now env) (node_ID node) True ?f)" by (rule relay_steps)
    then show ?thesis using assms(2) a Inl f by (auto simp: assignTo_def Let_def split: if_splits)
  qed
qed

lemma tryCandidate_steps:
  assumes "tryCandidate L env d c decision nodes r = (k, decision', nodes', r')"
  shows "relaySteps L J r r'"
proof (cases "r' = r")
  case False
  with assms obtain w w' choice where w: "map_of (rl_workers r) (node_ID (cd_Node c)) = Some w"
    and reserve: "reserveCapacity (job_ID (dj_queued d)) (reservedSlots L d (cd_Node c) r) (interactiveJob r (dj_queued d)) w = (True, w')"
    and run: "assignTo L env d (cd_Node c) w' choice decision nodes (setWorker (node_ID (cd_Node c)) w' r) = (k, decision', nodes', r')"
    by (auto simp: tryCandidate_def Let_def split: if_splits option.splits prod.splits bool.splits)
  have "relaySteps L J (setWorker (node_ID (cd_Node c)) w' r) r'" by (rule assignTo_steps [OF _ run]) simp
  then show ?thesis by (rule after) (rule reserve_steps [OF w reserve])
qed simp

lemma candidateLoop_steps: "relaySteps L J r (snd (snd (candidateLoop L env d cs decision nodes r)))"
proof (induction cs arbitrary: decision nodes r)
  case (Cons c cs)
  obtain k decision' nodes' r' where t: "tryCandidate L env d c decision nodes r = (k, decision', nodes', r')" by (metis prod_cases4)
  from tryCandidate_steps [OF t] show ?case using t by (auto intro: after [OF Cons.IH] split: loopControl.splits)
qed simp

lemma affinity_steps: "relaySteps L J r (snd (withSessionAffinity L q owner r))"
proof -
  have "relaySteps L J r (r\<lparr>rl_store := st\<rparr>)" if "RecentSessionPlacementBinding L o' q' (rl_store r) = (x, st)" for o' q' x st
    using that by (auto intro: relaySteps_store storeStep.ReadPlacement)
  then show ?thesis by (auto simp: withSessionAffinity_def Let_def split: prod.splits)
qed

lemma dispatchQueued_steps: "relaySteps L J r (snd (snd (dispatchQueued L verify env demand queued nodes r)))"
proof -
  obtain x st where b: "AdapterSessionBusy L (job_OwnerSubject queued) (job_Requirements queued) (job_ID queued) (env_now env) (rl_store r) = (x, st)"
    by force
  let ?r = "r\<lparr>rl_store := st\<rparr>"
  have r: "relaySteps L J r ?r" by (rule relaySteps_store) (rule storeStep.CheckBusy [OF b])
  then have "relaySteps L J r (snd (withSessionAffinity L (job_Requirements queued) (job_OwnerSubject queued) ?r))"
    by (rule relaySteps_trans) (rule affinity_steps)
  then show ?thesis using b r
    by (auto simp: dispatchQueued_def Let_def split: sum.splits bool.splits prod.splits intro!: after [OF candidateLoop_steps])
qed

lemma queuedLoop_steps: "relaySteps L J r (queuedLoop L verify env demand jobs nodes r)"
proof (induction jobs arbitrary: nodes r)
  case (Cons queued rest)
  have "relaySteps L J r (snd (snd (dispatchQueued L verify env demand queued nodes r)))" by (rule dispatchQueued_steps)
  then show ?case using Cons.IH by (auto intro: relaySteps_trans split: prod.splits bool.splits)
qed simp

lemma dispatchPass_steps: "relaySteps L J r (dispatchPass L verify env r)"
  using bookkeeping(2) [of L J r]
  by (auto simp: dispatchPass_def Let_def split: sum.splits prod.splits option.splits intro!: after [OF queuedLoop_steps])

lemma dispatch_steps: "relaySteps L J r (dispatch L verify env r)"
proof -
  obtain due r' where m: "maintenanceDue (env_now env) r = (due, r')" by force
  then have "relaySteps L J r r'" using bookkeeping(1) [of L J r] by (auto simp: maintenanceDue_def split: if_splits)
  then show ?thesis using m by (auto simp: dispatch_def intro!: after [OF dispatchPass_steps] relay_steps)
qed
lemma connectWorker_steps:
  assumes "relayInv r"
  shows "relaySteps L J r (snd (connectWorker L now record hash hello written r))"
proof (cases "helloNode L now record hello (rl_store r)")
  case (Some node)
  let ?n = "node_ID node"
  obtain x st where u: "UpsertNodePinnedAuthorized L now node hash (rl_store r) = (x, st)" by force
  define s where "s = setWorker ?n (newWorkerConnection (cap_MaxConcurrent (node_Capabilities node)) [hash]) (r\<lparr>rl_store := st\<rparr>)"
  have st: "relaySteps L J r (r\<lparr>rl_store := st\<rparr>)" by (rule relaySteps_store) (rule storeStep.Hello [OF u])
  then have s: "relaySteps L J r s" unfolding s_def by (rule relaySteps_trans) (rule relaySteps_one [OF relayStep.Register])
  have removed: "relaySteps L J r (s\<lparr>rl_workers := AList.delete ?n (rl_workers s)\<rparr>)"
    by (rule after [OF relaySteps_one [OF relayStep.Remove] s])
  have restored: "relaySteps L J r (setWorker ?n w s)" if w: "map_of (rl_workers r) ?n = Some w" for w
  proof (rule after [OF relaySteps_one s])
    show "relayStep L J s (setWorker ?n w s)"
      by (rule relayStep.Restore) (use relayInv_worker [OF assms w] in \<open>auto simp: s_def backed_def\<close>)
  qed
  have saved: "relaySteps L J r (setWorker ?n w s\<lparr>rl_store := st'\<rparr>)"
    if w: "map_of (rl_workers r) ?n = Some w" and "UpsertNode m (rl_store (setWorker ?n w s)) = (y, st')" for w m y st'
    by (rule after [OF relaySteps_store restored [OF w]]) (rule storeStep.Heartbeat [OF that(2)])
  show ?thesis using Some u st s removed restored saved
    by (auto simp: connectWorker_def Let_def s_def [symmetric] intro!: relay_steps split: sum.splits option.splits prod.splits)
qed (simp add: connectWorker_def)

lemma handleResult_steps:
  assumes "map_of (rl_workers r) n = Some w"
  shows "relaySteps L J r (handleResult L now n m w r)"
proof -
  let ?u = "priceUsage (wm_Usage m) (rc_Pricing (rl_cfg r))"
  obtain x st where c: "CompleteJobWithFailureFenced L now (wm_JobID m) n (wm_Attempt m) (wm_Fence m) (wm_Result m) (wm_SealedResult m) ?u
    (wm_Error m) (wm_FailureCode m) [wm_Execution m] (rl_store r) = (x, st)" by force
  define s where "s = inStore (ReleaseAdapterSessionJobLock L (wm_JobID m))
     (inStore (ResolveRoutingRecoveryProbe now n (wm_JobID m) []) (r\<lparr>rl_store := st\<rparr>))"
  have r: "relaySteps L J r (r\<lparr>rl_store := st\<rparr>)"
    by (rule relaySteps_store) (rule storeStep.Complete [OF c [unfolded CompleteJobWithFailureFenced_def]])
  then have "relaySteps L J r s" unfolding s_def by (intro relay_steps)
  then have "relaySteps L J r (setWorker n (release (wm_JobID m) w) s)"
    by (rule slot_then [OF _ _ slotStep.free]) (use assms in \<open>simp_all add: s_def inStore_def dispatches_def\<close>)
  then show ?thesis using c r by (simp add: handleResult_def Let_def s_def)
qed

lemma handleMessage_steps:
  assumes "map_of (rl_workers r) (node_ID (ws_node s)) = Some w"
  shows "relaySteps L J r (snd (handleMessage L now bytes m s w r))"
proof -
  have beat: "relaySteps L J r (setWorker (node_ID (ws_node s)) w' r)"
    if "heartbeatNode L now (ws_record s) (wm_Capabilities m) w (ws_node s) = (node, w')" for node w'
  proof (cases "wm_Capabilities m")
    case None
    have "w' = w" using that None by (simp add: heartbeatNode_def)
    moreover have "AList.update (node_ID (ws_node s)) w (rl_workers r) = rl_workers r"
      by (rule update_triv [OF assms])
    ultimately show ?thesis by (simp add: setWorker_def)
  next
    case (Some advertised)
    then have "\<exists>c. w' = updateCapacity c w" using that by (auto simp: heartbeatNode_def Let_def split: prod.splits)
    then show ?thesis using slot_steps [OF assms slotStep.capacity] by (auto simp: dispatches_def)
  qed
  show ?thesis using handleResult_steps [OF assms] beat
    by (auto simp: handleMessage_def Let_def intro!: relay_steps split: prod.splits bool.splits option.splits)
qed
section \<open>The relay as a whole\<close>

text \<open>The relay starts with a store that operations have produced, no connection and nothing in hand.\<close>

definition startedRelay :: "goLib \<Rightarrow> jsonCodec \<Rightarrow> relay \<Rightarrow> bool" where
  "startedRelay L J r \<longleftrightarrow> storeSteps L J emptyStore (rl_store r) \<and> rl_workers r = [] \<and> rl_taken r = [] \<and> rl_sent r = []"

lemma started_inv: "startedRelay L J r \<Longrightarrow> relayInv r"
  using storeSteps_inv [OF _ systemInv_empty] by (auto simp: startedRelay_def relayInv_def)

text \<open>What the relay runs, each handler from its first line to its last: a round of dispatch, a message of a
  worker, a new connection, a lost one, a cancellation, or one operation of the store.\<close>

inductive relayHandler :: "goLib \<Rightarrow> jsonCodec \<Rightarrow> verifier \<Rightarrow> relay \<Rightarrow> relay \<Rightarrow> bool" for L :: goLib and J :: jsonCodec and verify :: verifier where
  RunDispatch: "relayHandler L J verify r (dispatch L verify env r)"
| Message: "map_of (rl_workers r) (node_ID (ws_node s)) = Some w \<Longrightarrow> relayHandler L J verify r (snd (handleMessage L now bytes m s w r))"
| ConnectNode: "relayHandler L J verify r (snd (connectWorker L now record hash hello written r))"
| Disconnect: "relayHandler L J verify r (disconnectNode L now n current r)"
| CancelJob: "relayHandler L J verify r (snd (cancelJobOnRelay L now existing i owner tenants r))"
| Request: "storeStep L J (rl_store r) st \<Longrightarrow> relayHandler L J verify r (r\<lparr>rl_store := st\<rparr>)"


lemma sent_reached:
  assumes "relayInv r" and "(n, job) \<in> set (rl_sent r)"
  shows "\<exists>j. bget (st_jobs (rl_store r)) (job_ID job) = Some (Val j) \<and> 1 \<le> job_Attempt job \<and> job_Attempt job \<le> job_Attempt j
    \<and> job_Attempt j \<le> job_MaxAttempts j"
proof -
  from assms have "reached (rl_store r) (attemptOf (n, job))" by (auto simp: relayInv_def)
  then obtain j where j: "bget (st_jobs (rl_store r)) (job_ID job) = Some (Val j)" "0 < job_Attempt job" "job_Attempt job \<le> job_Attempt j"
    by (auto simp: reached_def attemptOf_def)
  have "storeInv (rl_store r)" using assms(1) by (simp add: relayInv_def systemInv_def)
  then have "jobWF (job_ID job) j" using j(1) storeInv_get [of "rl_store r" "job_ID job" j] by (simp add: getJSON_eq_Inr)
  then show ?thesis using j by (auto simp: jobWF_def)
qed


lemma release_other: "i \<noteq> j \<Longrightarrow> map_of (wc_inFlight (release j w)) i = map_of (wc_inFlight w) i"
  by (simp add: release_def delete_conv')

section \<open>Witnesses\<close>

lemma filed_frame:
  assumes "fileNewJobTx L job owner key hash now st = Inr st'" and "job_ID job \<noteq> []"
  shows "log_Sequence (scopeLog JobEventsRoot (job_ID job) st') = log_Sequence (scopeLog JobEventsRoot (job_ID job) st) + 2"
    and "st_nodes st' = st_nodes st" and "st_sessionLocks st' = st_sessionLocks st"
proof -
  let ?log = "\<lambda>st. scopeLog JobEventsRoot (job_ID job) st"
  have ev: "log_Sequence (?log b) = log_Sequence (?log a) + 1 \<and> st_nodes b = st_nodes a \<and> st_sessionLocks b = st_sessionLocks a"
    if "appendAuthoritativeJobEventTx now job t a = Inr b" for t a b
    using that by (auto simp: appendAuthoritativeJobEventTx_def appendExecutionEventTx_def appendToLog_def result_simps Let_def scopeLog_put
        store_frame split: if_splits)
  from assms(1) obtain s2 s3 s4 s5 s6 where s2: "putExecutionScopeLookup L (job_ID job) (job_OwnerSubject job) (job_TenantID job) (putJob (job_ID job) job st) = Inr s2"
    and s3: "putQueueEntry job (putJobOwnerIndex L job (s2\<lparr>st_jobIndex := bput (jobIndexKey job) (job_ID job) (st_jobIndex s2)\<rparr>)) = Inr s3"
    and s4: "(if key = [] then Inr s3 else saveIdempotentJobTx L owner key hash (job_ID job) s3) = Inr s4"
    and s5: "appendAuthoritativeJobEventTx now job ''job.accepted'' s4 = Inr s5"
    and s6: "appendAuthoritativeJobEventTx now job ''job.queued'' s5 = Inr s6"
    and s7: "appendPipelineStepEventTx now job ''pipeline.step.queued'' s6 = Inr st'"
    by (auto simp: fileNewJobTx_def Let_def bindE_eq_Inr)
  let ?s = "putJobOwnerIndex L job (s2\<lparr>st_jobIndex := bput (jobIndexKey job) (job_ID job) (st_jobIndex s2)\<rparr>)"
  have a: "sameLogs st ?s" "st_nodes ?s = st_nodes st" "st_sessionLocks ?s = st_sessionLocks st"
    using s2 by (auto simp: putExecutionScopeLookup_def putJobOwnerIndex_def result_simps store_frame sameLogs_def)
  note b = outsideQueue_fields [OF putQueueEntry_outside [OF s3]]
  have c: "sameLogs s3 s4" "st_nodes s4 = st_nodes s3" "st_sessionLocks s4 = st_sessionLocks s3"
    using s4 by (auto simp: saveIdempotentJobTx_def sameLogs_def Let_def split: if_splits)
  have "sameLogs st s4" using a(1) b(2) c(1) sameLogs_trans by blast
  then have logs: "?log s4 = ?log st" by (simp add: scopeLog_sameLogs)
  have d: "?log st' = ?log s6" "st_nodes st' = st_nodes s6" "st_sessionLocks st' = st_sessionLocks s6"
    using s7 by (auto simp: appendPipelineStepEventTx_def appendExecutionEventTx_def result_simps Let_def scopeLog_put store_frame split: if_splits)
  show "log_Sequence (?log st') = log_Sequence (?log st) + 2" using ev [OF s5] ev [OF s6] d(1) logs by simp
  show "st_nodes st' = st_nodes st" "st_sessionLocks st' = st_sessionLocks st"
    using ev [OF s5] ev [OF s6] a b(3,4) c d by simp_all
qed

lemma admitted_reachable:
  "\<exists>st. storeSteps plainLib plainJSON emptyStore st \<and> storeInv st \<and> getJSON (st_jobs st) ''job-1'' = Inr (persistJob admittedJob)
     \<and> st_nodes st = [] \<and> st_sessionLocks st = [] \<and> log_Sequence (scopeLog JobEventsRoot ''job-1'' st) < 1000"
proof -
  obtain st where st: "createJob plainLib (Inl ErrNotExist) (64000000000 * second) witnessRequest 10 zeroLimits ''k1'' witnessHash
      emptyStore = (Inr (admittedJob, False), st)" using witness_admitted by blast
  have "storeStep plainLib plainJSON emptyStore st" by (rule storeStep.Submit [OF st]) simp
  then have steps: "storeSteps plainLib plainJSON emptyStore st" by (simp add: storeSteps_def)
  have new: "storeInv st" "getJSON (st_jobs st) ''job-1'' = Inr (persistJob admittedJob)"
    using createJob_new [OF storeInv_empty _ st] by (simp_all add: bucket_simps admittedJob_fields)
  from st have "admitPreparedJobTx plainLib admittedJob 10 zeroLimits ''k1'' witnessHash (64000000000 * second) emptyStore = Inr ((admittedJob, False), st)"
    by (simp add: createJob_def witness_prepared update_Inr)
  then have "fileNewJobTx plainLib admittedJob ''alice'' ''k1'' witnessHash (64000000000 * second) emptyStore = Inr st"
    by (auto simp: admitPreparedJobTx_def bindE_eq_Inr zeroLimits_def consumeProducerRateLimitTx_def admittedJob_fields split: option.splits)
  from filed_frame [OF this] have "log_Sequence (scopeLog JobEventsRoot ''job-1'' st) < 1000" "st_nodes st = []" "st_sessionLocks st = []"
    by (simp_all add: admittedJob_fields emptyStore_log emptyLog_def)
  then show ?thesis using steps new by blast
qed

definition witnessRelay :: "store \<Rightarrow> relay" where
  "witnessRelay st = \<lparr>rl_cfg = \<lparr>rc_MaxQueuedJobs = 10, rc_AssignmentTTL = second, rc_DispatchEvery = second,
       rc_Pricing = \<lparr>prc_Mode = [], prc_Source = [], prc_ComputePerHourUSD = 0, prc_InputPerMillionUSD = 0, prc_OutputPerMillionUSD = 0,
         prc_EquivalentInputUSD = 0, prc_EquivalentOutputUSD = 0\<rparr>, rc_JobTimeout = second,
       rc_Placement = \<lparr>pp_PerformanceLearning = False, pp_MinimumSamples = 1, pp_HistoryTTL = second, pp_LatencyWeight = 0,
         pp_MaxLatencyPenalty = 0\<rparr>, rc_InteractiveCapacity = \<lparr>ic_MinPriority = 0, ic_Scopes = []\<rparr>\<rparr>, rl_store = st,
     rl_authority = \<lparr>auth_ClusterID = ''home'', auth_Epoch = 3\<rparr>, rl_workers = [], rl_nextMaintenance = 0, rl_lastOwner = (\<lambda>_. []),
     rl_queueScanAfter = [], rl_quiescing = False, rl_taken = [], rl_sent = [], rl_cancels = []\<rparr>"

lemma witness_sent:
  "\<exists>r0 r job. startedRelay plainLib plainJSON r0 \<and> relaySteps plainLib plainJSON r0 r \<and> rl_sent r = [(''node-a'', job)]"
proof -
  obtain st where st: "storeSteps plainLib plainJSON emptyStore st" and q: "storeInv st"
    "getJSON (st_jobs st) ''job-1'' = Inr (persistJob admittedJob)" "st_nodes st = []" "st_sessionLocks st = []"
    "log_Sequence (scopeLog JobEventsRoot ''job-1'' st) < 1000" using admitted_reachable by blast
  from witness_assigned [OF q] obtain job st' where a: "assignJobAuthorized plainLib (Inl ErrNotExist) 7 ''job-1'' ''node-a'' [] None None
      (Some \<lparr>auth_ClusterID = ''home'', auth_Epoch = 3\<rparr>) st = (Inr job, st')" by blast
  then have "assignJobTx plainLib (Inl ErrNotExist) 7 ''job-1'' ''node-a'' [] None None (Some \<lparr>auth_ClusterID = ''home'', auth_Epoch = 3\<rparr>) st
    = Inr (job, st')" by (simp add: assignJobAuthorized_def update_Inr)
  from assignJobTx_spec [OF q(1) this] q(2) have job: "job_ID job = ''job-1''" "0 < job_Attempt job"
    using storeInv_get [OF q(1,2)] by (auto simp: jobWF_def getJSON_eq_Inr)
  let ?w = "newWorkerConnection 2 [''h'']"
  let ?w1 = "?w\<lparr>wc_inFlight := [(''job-1'', freshReservation False)]\<rparr>"
  let ?r = "setWorker ''node-a'' ?w (witnessRelay st)"
  let ?r1 = "setWorker ''node-a'' ?w1 (witnessRelay st)"
  let ?r2 = "?r1\<lparr>rl_store := st', rl_taken := (''node-a'', job) # rl_taken ?r1\<rparr>"
  have 1: "relaySteps plainLib plainJSON (witnessRelay st) ?r" by (rule relaySteps_one) (rule relayStep.Register)
  have "reserveCapacity ''job-1'' 0 False ?w = (True, ?w1)"
    by (simp add: reserveCapacity_def newWorkerConnection_def reservationLimit_def boundedWorkerCapacity_def MaximumWorkerConcurrency_def)
  from reserve_steps [OF _ this, of ?r "''node-a''"] have 2: "relaySteps plainLib plainJSON ?r ?r1" by simp
  have "relayStep plainLib plainJSON ?r1 ?r2" by (rule relayStep.Take) (use a in \<open>simp add: witnessRelay_def\<close>)
  then have 3: "relaySteps plainLib plainJSON ?r1 ?r2" by (rule relaySteps_one)
  obtain w' where b: "beginDispatch (job_ID job) (job_Attempt job) [job_AssignmentFence job] ?w1 = (True, w')"
    using job by (auto simp: beginDispatch_def freshReservation_def Let_def)
  have "relayStep plainLib plainJSON ?r2 ((setWorker ''node-a'' w' ?r2)\<lparr>rl_taken := [] @ [], rl_sent := rl_sent ?r2 @ [(''node-a'', job)]\<rparr>)"
    by (rule relayStep.Send [of _ "[]" _ _ _ ?w1]) (use b in \<open>simp_all add: witnessRelay_def\<close>)
  then have "relaySteps plainLib plainJSON (witnessRelay st) ((setWorker ''node-a'' w' ?r2)\<lparr>rl_taken := [] @ [], rl_sent := rl_sent ?r2 @ [(''node-a'', job)]\<rparr>)"
    using 1 2 3 relaySteps_one relaySteps_trans by blast
  moreover have "startedRelay plainLib plainJSON (witnessRelay st)" using st by (simp add: startedRelay_def witnessRelay_def)
  moreover have "rl_sent ((setWorker ''node-a'' w' ?r2)\<lparr>rl_taken := [] @ [], rl_sent := rl_sent ?r2 @ [(''node-a'', job)]\<rparr>) = [(''node-a'', job)]"
    by (simp add: witnessRelay_def)
  ultimately show ?thesis by blast
qed




end
