(* ===== verification/Spec2Isabelle.thy ===== *)
theory Spec2Isabelle
  imports Fair_Queue Scheduler Graph_Execution Relay_Dispatch
begin

text \<open>
  \<^bold>\<open>ContextBridge relay: a verification of the durable core.\<close>

  ContextBridge is a relay between producers, which submit jobs, and workers, which run them on local
  models and adapters. The relay is the package \<open>src/internal/cluster\<close>. It keeps every fact it must not lose
  in one Bolt file (\<open>store.go\<close>), decides where a job runs (\<open>scheduler.go\<close>), under which policy
  (\<open>execution_policy.go\<close>), with which evidence about a route (\<open>routing_health.go\<close>,
  \<open>routing_performance.go\<close>), and keeps in memory only the slots of the workers that are connected
  (\<open>relay.go\<close>). A job is admitted and queued, ranked against the connected nodes, assigned under a fence,
  started, and settled exactly once: by a result, by a cancellation, or by the recovery that runs when a
  worker or the relay itself is lost.

  \<^bold>\<open>Shape of the model.\<close> The store is a record of buckets (\<open>store\<close>, theory \<open>Store_State\<close>). A bucket is an
  association list ordered by its byte keys, as a Bolt bucket is; a JSON value is either \<open>Val\<close> of the record
  it encodes or \<open>Garbled\<close>, a value that does not decode, so every decoding error of the code is a branch of
  the model. An operation is a function from the store to a result and a store; \<open>update\<close> is
  \<open>db.Update\<close>: when the transaction fails the store is as before. Errors are values of \<open>goError\<close>, with the
  sentinel errors of the code as constructors and all others as \<open>ErrText\<close>; texts that quote a value keep only their
  fixed part, since nothing in the code reads the rest. Each operation takes the clock as its argument
  \<open>now\<close>, in nanoseconds with 0 for the zero time; a call that reads the clock several times sees one
  instant. Random bytes are an argument of type \<open>string result\<close>, so a failing source of randomness is
  covered. Hashes, case folding beyond ASCII, signature checks and the JSON encoder are fields of the
  parameters \<open>goLib\<close> and \<open>jsonCodec\<close>; no theorem assumes more of them than its hypotheses say. Byte strings
  are lists of characters; \<open>float64\<close> is \<open>real\<close>, so rounding is not modelled; \<open>uint64\<close> fields are 64-bit
  words and the conversions that can wrap are written out (\<open>wrap64\<close>, \<open>toUint64\<close>). Go maps whose iteration
  order can be seen are parameters of the operation that iterates. Store operations run one at a time, as
  Bolt runs its write transactions; the slot operations of a worker run one at a time under its lock. Between
  two of them any handler of the relay may act, which is what the small steps of the relay describe; the
  handlers themselves are written as the code has them, from their first line to their last.

  \<^bold>\<open>Theories.\<close>
  \<^item> \<open>Prelude\<close>, \<open>Go_Strings\<close>, \<open>Bolt_Bucket\<close>: results, bounded integers, the text functions of the code
    (\<open>cleanLabel\<close>, \<open>cleanList\<close>, \<open>truncateUTF8Bytes\<close>) over UTF-8 bytes, and ordered buckets with the locale of
    their laws.
  \<^item> \<open>Job_Types\<close>, \<open>Store_State\<close>: the structs of \<open>types.go\<close>, \<open>scheduler.go\<close> and \<open>pool_authority.go\<close> field by field, the
    buckets, and what a record keeps when it is stored.
  \<^item> \<open>Failure_Codes\<close>: \<open>failure_codes.go\<close> and the text of a sealed failure.
  \<^item> \<open>Routing_Health\<close>: the circuit breaker of a route (\<open>routing_health.go\<close>): streaks, cooldown, probation, the one
    recovery probe, bounds of the table.
  \<^item> \<open>Job_Queue\<close>, \<open>Fair_Queue\<close>: the queue buckets with index and counters, refined to a map from job ids to
    entries, their repair at start-up, and the fair reads that share a priority tier among producers.
  \<^item> \<open>Event_Log\<close>: numbered event logs with the newest 256 events kept, and resumable reads.
  \<^item> \<open>Session_Locks\<close>: locks and placements of adapter sessions.
  \<^item> \<open>Execution_Policy\<close>: \<open>execution_policy.go\<close>, from the configuration checks to the validation of a decision.
  \<^item> \<open>Store_Invariant\<close>: the invariant of the store. Every stored job is well formed under its own id, and
    the queue holds exactly the queued jobs with the entry each of them determines.
  \<^item> \<open>Job_Admission\<close>, \<open>Reservations\<close>: \<open>prepareJob\<close>, \<open>admitPreparedJobTx\<close>, idempotency, rate windows, owner and
    scope indexes; reservations of a worker for a sealed job and their redemption.
  \<^item> \<open>Job_Lifecycle\<close>: \<open>assignJobAuthorized\<close>, \<open>markRunning\<close>, \<open>updateJobProgress\<close>, \<open>cancelJobTx\<close>,
    \<open>completeJobWithFailure\<close> with their guards, events, locks, health and performance bookings.
  \<^item> \<open>Job_Recovery\<close>: \<open>RequeueNode\<close>, \<open>RecoverRelayRestart\<close>, \<open>RecoverStaleJobs\<close> as three instances of one scan, whose
    correctness is proved once in a locale.
  \<^item> \<open>Routing_Performance\<close>: the bounded history of a node and the estimates read from it.
  \<^item> \<open>Capability_Match\<close>, \<open>Scheduler\<close>: whether a node satisfies a job, the choice of an adapter session, scores,
    ranking and the decision record that explains it.
  \<^item> \<open>Worker_Slots\<close>: the slot table of \<open>workerConnection\<close> in \<open>relay.go\<close> as a step relation.
  \<^item> \<open>Access_Tokens\<close>, \<open>Node_Enrollment\<close>: credentials, the bootstrap credential, the relay authority, device pairing and the
    pinned node record.
  \<^item> \<open>Pipeline_Graph\<close>, \<open>Pipeline_Runs\<close>, \<open>Graph_Execution\<close>: planning a graph, the checkpoints of a run and their
    transactions, and the states a run can reach.
  \<^item> \<open>Node_Intake\<close>: what \<open>handleNode\<close> keeps of a hello and of a heartbeat, \<open>ValidateRequirements\<close>.
  \<^item> \<open>Interactive_Capacity\<close>: \<open>interactive_capacity.go\<close> and the constraints \<open>relay.go\<close> puts on a ranking.
  \<^item> \<open>Job_System\<close>: all operations of the store as one step relation (\<open>storeStep\<close>), each shown to keep the invariants and to
    move every job along its life cycle.
  \<^item> \<open>Relay_Dispatch\<close>: the relay around the store (\<open>dispatch\<close>, \<open>runMaintenance\<close>, \<open>handleNode\<close>, \<open>handleCancel\<close>,
    \<open>disconnectNode\<close>, \<open>priceUsage\<close>): the handlers as functions on the relay, and the small steps (\<open>relayStep\<close>) in which they
    interleave.

  \<^bold>\<open>What is shown.\<close>
  \<^item> The relay. However its handlers interleave, an attempt of a job is sent to one worker, once; every
    handler is a sequence of the small steps; a stray result changes nothing. Whatever sequence of
    operations runs on the store, it stays consistent and a settled job stays settled.
  \<^item> Jobs. Every operation keeps the store invariant. A job is filed once, taken once per attempt,
    settled once; it goes back to the queue only when nothing ran; a report that names another node,
    attempt or fence changes nothing; losing a worker or the relay closes what was running and never runs
    it again.
  \<^item> Queue and logs. Put and delete refine a map, the repair establishes the index, the fair window is the
    round robin over producers, scans are cyclic, replay is contiguous.
  \<^item> Placement. The ranking selects an eligible node whenever there is one and its reasons agree with
    the decision; scores stay bounded whatever a worker advertises; slots kept for interactive work stay
    free; a session is locked by one job at a time.
  \<^item> Access. An issued token authenticates until it ends, a revoked one never again; an approved device
    receives one credential, bound to its key.
  \<^item> Graphs. Plans are topological and fail only on cycles; what planning binds validates; a step and its
    job are admitted in one commit; reconciliation is accepted; a run never exceeds its width nor stalls.

  \<^bold>\<open>Interfaces.\<close> Where a component relies on another through laws only, the laws are a locale that is
  interpreted on the definitions of the model: buckets as ordered maps, the durable queue as a map from
  job ids to entries, the three recovery scans, and the contract every transaction of the store fulfils
  (\<open>store_operation\<close>, and \<open>job_operation\<close> for those that leave reservations and credentials alone).

  \<^bold>\<open>Bounds and termination.\<close> No definition takes fuel. Loops over a bucket or a slice are structural; the
  doubling loop of the cooldown, the layer loop of a plan, the scan of a template and the UTF-8 reader are proved
  to end by a measure. The constants (256 events, 64 jobs per owner, 16 parallel steps, 32 dependants,
  1024 edges, 1000 pairings and others) are those of the code.

  \<^bold>\<open>Where the model is coarser than the code.\<close> \<open>sort.Slice\<close> is modelled by an insertion sort that is given the
  comparison of the code; the results hold for strict weak orders, and for the one comparison that is not
  (near ties in \<open>rankWithDecisionForOwnerPolicy\<close>) only what does not depend on the order is claimed. Writing to a bucket while
  a cursor walks it is modelled by a walk over the contents at its start, which agrees for the loops at hand:
  they rewrite or delete the current key only. Test hooks, which are nil outside tests, are left out. Whether a write to a worker's socket succeeds is an argument of a dispatch round;
  the events shown on the dashboard are not kept.

  \<^bold>\<open>Not modelled.\<close> HTTP and websocket framing, streaming and dashboards (I/O around the operations above);
  the worker agent, the command-line program, the bridge server, providers, updater, terminal interface
  and configuration files (processes, files and network); the cryptography itself (parameters); scheduled actions
  beyond their limits, retention, the linear pipeline executor with its templates and the runtime
  estimates, which read or delete history and take no part in the life of a job.
\<close>

end
